(* ===== verification/Go_Prelude.thy ===== *)
theory Go_Prelude
  imports Main "HOL-Library.Word" "HOL-Library.Signed_Division"
begin

text \<open>
  What every component of the development shares: Go's 64-bit integers written out over
  \<^typ>\<open>int\<close>, results of fallible code as sums (\<open>Inl\<close> the error, \<open>Inr\<close> the value) with a
  bind and a loop combinator that stops at the first error, the string operations of the Go
  library the sources call, and the list lemmas the component proofs rest on. The collection
  \<open>result_simps\<close> holds the inversion rules that turn "the operation succeeded" into the
  facts of the branch it took.
\<close>

named_theorems result_simps "inversion of successful results"

section \<open>Results\<close>

type_synonym ('e, 'a) result = "'e + 'a"

definition rbind :: "('e, 'a) result \<Rightarrow> ('a \<Rightarrow> ('e, 'b) result) \<Rightarrow> ('e, 'b) result" where
  "rbind m f = (case m of Inl e \<Rightarrow> Inl e | Inr a \<Rightarrow> f a)"

lemma rbind_Inl [simp]: "rbind (Inl e) f = Inl e"
  by (simp add: rbind_def)

lemma rbind_Inr [simp]: "rbind (Inr a) f = f a"
  by (simp add: rbind_def)

lemma rbind_eq_Inr [result_simps]: "rbind m f = Inr b \<longleftrightarrow> (\<exists>a. m = Inr a \<and> f a = Inr b)"
  by (cases m) auto

lemma rbind_eq_Inl: "rbind m f = Inl e \<longleftrightarrow> m = Inl e \<or> (\<exists>a. m = Inr a \<and> f a = Inl e)"
  by (cases m) auto

definition check :: "bool \<Rightarrow> 'e \<Rightarrow> ('e, unit) result" where
  "check ok e = (if ok then Inr () else Inl e)"

lemma check_eq_Inr [result_simps]: "check ok e = Inr u \<longleftrightarrow> ok"
  by (simp add: check_def)

lemma check_True [simp]: "check True e = Inr ()"
  by (simp add: check_def)

lemma check_False [simp]: "check False e = Inl e"
  by (simp add: check_def)

text \<open>A \<open>for _, x := range xs\<close> loop over a state whose body may return an error.\<close>

fun foldM :: "('x \<Rightarrow> 's \<Rightarrow> ('e, 's) result) \<Rightarrow> 'x list \<Rightarrow> 's \<Rightarrow> ('e, 's) result" where
  "foldM f [] s = Inr s"
| "foldM f (x # xs) s = rbind (f x s) (foldM f xs)"

lemma foldM_append: "foldM f (xs @ ys) s = rbind (foldM f xs s) (foldM f ys)"
proof (induction xs arbitrary: s)
  case (Cons x xs)
  then show ?case by (cases "f x s") simp_all
qed simp

lemma foldM_snoc: "foldM f (xs @ [x]) s = rbind (foldM f xs s) (f x)"
proof -
  have "foldM f [x] = f x"
  proof
    fix t
    show "foldM f [x] t = f x t" by (cases "f x t") simp_all
  qed
  then show ?thesis by (simp add: foldM_append del: foldM.simps)
qed

lemma foldM_invariant:
  assumes "foldM f xs s = Inr t" and "P s"
    and "\<And>x s s'. x \<in> set xs \<Longrightarrow> P s \<Longrightarrow> f x s = Inr s' \<Longrightarrow> P s'"
  shows "P t"
  using assms
proof (induction xs arbitrary: s)
  case (Cons x xs)
  from Cons.prems(1) obtain s' where s': "f x s = Inr s'" and t: "foldM f xs s' = Inr t"
    by (auto simp: result_simps)
  from s' have "P s'" using Cons.prems(2,3) by auto
  with t show ?case using Cons.IH Cons.prems(3) by auto
qed simp

text \<open>The same rule for a property that also speaks of the elements visited so far.\<close>

lemma foldM_prefix_invariant:
  assumes "foldM f xs s = Inr t" and "P [] s"
    and "\<And>ys x s s'. set (ys @ [x]) \<subseteq> set xs \<Longrightarrow> P ys s \<Longrightarrow> f x s = Inr s' \<Longrightarrow> P (ys @ [x]) s'"
  shows "P xs t"
  using assms
proof (induction xs arbitrary: t rule: rev_induct)
  case (snoc x xs)
  from snoc.prems(1) obtain s' where s': "foldM f xs s = Inr s'" and t: "f x s' = Inr t"
    by (auto simp: foldM_snoc result_simps)
  have "P xs s'"
  proof (rule snoc.IH [OF s' snoc.prems(2)])
    fix ys y u u'
    assume "set (ys @ [y]) \<subseteq> set xs" "P ys u" "f y u = Inr u'"
    moreover from this(1) have "set (ys @ [y]) \<subseteq> set (xs @ [x])" by auto
    ultimately show "P (ys @ [y]) u'" using snoc.prems(3) by blast
  qed
  with t show ?case using snoc.prems(3) [of xs x s' t] by simp
qed simp

section \<open>Actions on a state\<close>

text \<open>
  Code that changes a state and may fail keeps the changes it made before the failure. Such code
  is an action: from a state to a result and the state it leaves.
\<close>

type_synonym ('w, 'e, 'a) act = "'w \<Rightarrow> ('e, 'a) result \<times> 'w"

definition ret :: "'a \<Rightarrow> ('w, 'e, 'a) act" where
  "ret a w = (Inr a, w)"

definition throw :: "'e \<Rightarrow> ('w, 'e, 'a) act" where
  "throw e w = (Inl e, w)"

definition bind_act :: "('w, 'e, 'a) act \<Rightarrow> ('a \<Rightarrow> ('w, 'e, 'b) act) \<Rightarrow> ('w, 'e, 'b) act" where
  "bind_act m k w = (case m w of (Inl e, w') \<Rightarrow> (Inl e, w') | (Inr a, w') \<Rightarrow> k a w')"

definition gets :: "('w \<Rightarrow> 'a) \<Rightarrow> ('w, 'e, 'a) act" where
  "gets g w = (Inr (g w), w)"

definition modify :: "('w \<Rightarrow> 'w) \<Rightarrow> ('w, 'e, unit) act" where
  "modify h w = (Inr (), h w)"

definition guard_act :: "bool \<Rightarrow> 'e \<Rightarrow> ('w, 'e, unit) act" where
  "guard_act ok e = (if ok then ret () else throw e)"

text \<open>A value or an error computed from the state, with the error injected into the caller's type.\<close>

definition try_get :: "('e \<Rightarrow> 'f) \<Rightarrow> ('w \<Rightarrow> ('e, 'a) result) \<Rightarrow> ('w, 'f, 'a) act" where
  "try_get wrap g w = (case g w of Inl e \<Rightarrow> (Inl (wrap e), w) | Inr a \<Rightarrow> (Inr a, w))"

text \<open>A state transformer that may fail and then leaves the state as it was.\<close>

definition try_put :: "('e \<Rightarrow> 'f) \<Rightarrow> ('w \<Rightarrow> ('e, 'w) result) \<Rightarrow> ('w, 'f, unit) act" where
  "try_put wrap g w = (case g w of Inl e \<Rightarrow> (Inl (wrap e), w) | Inr w' \<Rightarrow> (Inr (), w'))"

fun for_each :: "('x \<Rightarrow> ('w, 'e, unit) act) \<Rightarrow> 'x list \<Rightarrow> ('w, 'e, unit) act" where
  "for_each f [] = ret ()"
| "for_each f (x # xs) = bind_act (f x) (\<lambda>_. for_each f xs)"

text \<open>
  What an action does from every state with \<open>P\<close>: when it returns a value, \<open>Q\<close> holds of the value
  and the state; when it fails, \<open>E\<close> holds of the state.
\<close>

definition triple :: "('w \<Rightarrow> bool) \<Rightarrow> ('w, 'e, 'a) act \<Rightarrow> ('a \<Rightarrow> 'w \<Rightarrow> bool) \<Rightarrow> ('w \<Rightarrow> bool) \<Rightarrow> bool" where
  "triple P m Q E \<longleftrightarrow> (\<forall>w. P w \<longrightarrow> (case m w of (Inr a, w') \<Rightarrow> Q a w' | (Inl e, w') \<Rightarrow> E w'))"

named_theorems triple_rules "structural rules for the triples of actions"

lemma triple_ret [triple_rules]: "(\<And>w. P w \<Longrightarrow> Q a w) \<Longrightarrow> triple P (ret a) Q E"
  by (simp add: triple_def ret_def)

lemma triple_throw [triple_rules]: "(\<And>w. P w \<Longrightarrow> E w) \<Longrightarrow> triple P (throw e) Q E"
  by (simp add: triple_def throw_def)

lemma triple_bind:
  "triple P m R E \<Longrightarrow> (\<And>a. triple (R a) (k a) Q E) \<Longrightarrow> triple P (bind_act m k) Q E"
  by (fastforce simp: triple_def bind_act_def split: sum.splits prod.splits)

lemma triple_gets: "(\<And>w. P w \<Longrightarrow> Q (g w) w) \<Longrightarrow> triple P (gets g) Q E"
  by (simp add: triple_def gets_def)

lemma triple_modify: "(\<And>w. P w \<Longrightarrow> Q () (h w)) \<Longrightarrow> triple P (modify h) Q E"
  by (simp add: triple_def modify_def)

lemma triple_guard [triple_rules]:
  "(\<And>w. P w \<Longrightarrow> ok \<Longrightarrow> Q () w) \<Longrightarrow> (\<And>w. P w \<Longrightarrow> \<not> ok \<Longrightarrow> E w) \<Longrightarrow> triple P (guard_act ok e) Q E"
  by (simp add: triple_def guard_act_def ret_def throw_def)

lemma triple_try_get:
  "(\<And>w a. P w \<Longrightarrow> g w = Inr a \<Longrightarrow> Q a w) \<Longrightarrow> (\<And>w e. P w \<Longrightarrow> g w = Inl e \<Longrightarrow> E w)
    \<Longrightarrow> triple P (try_get wrap g) Q E"
  by (auto simp: triple_def try_get_def split: sum.splits)

lemma triple_try_put:
  "(\<And>w w'. P w \<Longrightarrow> g w = Inr w' \<Longrightarrow> Q () w') \<Longrightarrow> (\<And>w e. P w \<Longrightarrow> g w = Inl e \<Longrightarrow> E w)
    \<Longrightarrow> triple P (try_put wrap g) Q E"
  by (auto simp: triple_def try_put_def split: sum.splits)

lemma triple_for_each:
  assumes "\<And>x. x \<in> set xs \<Longrightarrow> triple P (f x) (\<lambda>_. P) E"
  shows "triple P (for_each f xs) (\<lambda>_. P) E"
  using assms by (induction xs) (auto intro!: triple_ret triple_bind)

lemma triple_weaken:
  "triple P m Q E \<Longrightarrow> (\<And>w. P' w \<Longrightarrow> P w) \<Longrightarrow> (\<And>a w. Q a w \<Longrightarrow> Q' a w) \<Longrightarrow> (\<And>w. E w \<Longrightarrow> E' w)
    \<Longrightarrow> triple P' m Q' E'"
  by (fastforce simp: triple_def split: sum.splits prod.splits)

lemma triple_Inr: "triple P m Q E \<Longrightarrow> P w \<Longrightarrow> m w = (Inr a, w') \<Longrightarrow> Q a w'"
  by (auto simp: triple_def)

lemma triple_Inl: "triple P m Q E \<Longrightarrow> P w \<Longrightarrow> m w = (Inl e, w') \<Longrightarrow> E w'"
  by (auto simp: triple_def)

lemma triple_state: "triple P m (\<lambda>_. Q) Q \<Longrightarrow> P w \<Longrightarrow> Q (snd (m w))"
  by (cases "m w") (auto simp: triple_def split: sum.splits)

section \<open>Go's 64-bit integers\<close>

text \<open>
  Go's \<open>int\<close> (on the 64-bit platforms kigo is released for) and \<open>int64\<close> are two's complement
  64-bit integers whose arithmetic wraps around. They are modelled as \<^typ>\<open>int\<close> with the
  wrap-around written out by \<open>wrap64\<close>.
\<close>

definition wrap64 :: "int \<Rightarrow> int" where
  "wrap64 x = (x + 2 ^ 63) mod 2 ^ 64 - 2 ^ 63"

definition in_i64 :: "int \<Rightarrow> bool" where
  "in_i64 x \<longleftrightarrow> - (2 ^ 63) \<le> x \<and> x < 2 ^ 63"

abbreviation (input) max_i64 :: int where
  "max_i64 \<equiv> 9223372036854775807"

definition add64 :: "int \<Rightarrow> int \<Rightarrow> int" where
  "add64 a b = wrap64 (a + b)"

definition sub64 :: "int \<Rightarrow> int \<Rightarrow> int" where
  "sub64 a b = wrap64 (a - b)"

definition mul64 :: "int \<Rightarrow> int \<Rightarrow> int" where
  "mul64 a b = wrap64 (a * b)"

lemma wrap64_id: "in_i64 x \<Longrightarrow> wrap64 x = x"
  by (simp add: wrap64_def in_i64_def)

lemma in_i64_wrap64 [simp]: "in_i64 (wrap64 x)"
  using pos_mod_sign [of "2 ^ 64 :: int" "x + 2 ^ 63"] pos_mod_bound [of "2 ^ 64 :: int" "x + 2 ^ 63"]
  by (simp add: wrap64_def in_i64_def)

lemma add64_id: "in_i64 (a + b) \<Longrightarrow> add64 a b = a + b"
  by (simp add: add64_def wrap64_id)

lemma sub64_id: "in_i64 (a - b) \<Longrightarrow> sub64 a b = a - b"
  by (simp add: sub64_def wrap64_id)

lemma mul64_id: "in_i64 (a * b) \<Longrightarrow> mul64 a b = a * b"
  by (simp add: mul64_def wrap64_id)

text \<open>
  The overflow test the receiver relies on: a wrapped sum of two non-negative 64-bit values is
  below its first summand exactly when the true sum leaves the range.
\<close>

lemma add64_overflow:
  assumes "in_i64 a" "in_i64 b" "0 \<le> a" "0 \<le> b"
  shows "add64 a b < a \<longleftrightarrow> \<not> in_i64 (a + b)"
proof (cases "in_i64 (a + b)")
  case True
  then show ?thesis using assms by (simp add: add64_id)
next
  case False
  with assms have big: "0 \<le> a + b - 2 ^ 63" "a + b - 2 ^ 63 < 2 ^ 64" "2 ^ 63 \<le> a + b"
    by (auto simp: in_i64_def)
  have "(a + b + 2 ^ 63) mod 2 ^ 64 = (a + b - 2 ^ 63 + 2 ^ 64) mod (2 ^ 64 :: int)"
    by (simp add: add.commute)
  also have "\<dots> = a + b - 2 ^ 63" using big by (simp only: mod_add_self2 mod_pos_pos_trivial)
  finally have "(a + b + 2 ^ 63) mod 2 ^ 64 = a + b - 2 ^ 63" .
  with False assms big show ?thesis by (auto simp: add64_def wrap64_def in_i64_def)
qed

definition clampInt64 :: "int \<Rightarrow> int \<Rightarrow> int \<Rightarrow> int" where
  "clampInt64 v lo hi = (if v < lo then lo else if v > hi then hi else v)"

lemma clampInt64_bounds: "lo \<le> hi \<Longrightarrow> lo \<le> clampInt64 v lo hi \<and> clampInt64 v lo hi \<le> hi"
  by (simp add: clampInt64_def)

lemma clampInt64_id: "lo \<le> v \<Longrightarrow> v \<le> hi \<Longrightarrow> clampInt64 v lo hi = v"
  by (simp add: clampInt64_def)

lemma clampInt64_le: "0 \<le> v \<Longrightarrow> clampInt64 v 0 hi \<le> v \<or> hi < 0"
  by (simp add: clampInt64_def)

section \<open>Slices\<close>

text \<open>
  A slice is a list. \<open>int_nth\<close> reads it with a Go index: \<open>None\<close> stands for the run-time
  panic of an index out of range.
\<close>

definition int_nth :: "'a list \<Rightarrow> int \<Rightarrow> 'a option" where
  "int_nth xs i = (if 0 \<le> i \<and> i < int (length xs) then Some (xs ! nat i) else None)"

lemma int_nth_Some_iff: "int_nth xs i = Some x \<longleftrightarrow> 0 \<le> i \<and> i < int (length xs) \<and> xs ! nat i = x"
  by (auto simp: int_nth_def)

definition remove_at :: "nat \<Rightarrow> 'a list \<Rightarrow> 'a list" where
  "remove_at i xs = take i xs @ drop (Suc i) xs"

definition insert_at :: "nat \<Rightarrow> 'a \<Rightarrow> 'a list \<Rightarrow> 'a list" where
  "insert_at i x xs = take i xs @ x # drop i xs"

lemma remove_at_append [simp]: "remove_at (length xs) (xs @ y # ys) = xs @ ys"
  by (simp add: remove_at_def)

lemma insert_at_append [simp]: "insert_at (length xs) y (xs @ ys) = xs @ y # ys"
  by (simp add: insert_at_def)

section \<open>Strings\<close>

text \<open>
  A Go string is a sequence of bytes, here a \<^typ>\<open>string\<close>. \<open>byte_val\<close> is the number of a byte.
\<close>

abbreviation byte_val :: "char \<Rightarrow> nat" where
  "byte_val c \<equiv> of_char c"

fun split_on :: "char \<Rightarrow> string \<Rightarrow> string list" where
  "split_on c [] = [[]]"
| "split_on c (x # xs) =
     (if x = c then [] # split_on c xs
      else case split_on c xs of [] \<Rightarrow> [[x]] | p # ps \<Rightarrow> (x # p) # ps)"

fun join_with :: "char \<Rightarrow> string list \<Rightarrow> string" where
  "join_with c [] = []"
| "join_with c [p] = p"
| "join_with c (p # q # ps) = p @ c # join_with c (q # ps)"

lemma split_on_nonempty [simp]: "split_on c s \<noteq> []"
  by (cases s) (auto split: list.splits)

lemma join_split_on: "join_with c (split_on c s) = s"
proof (induction s)
  case (Cons x xs)
  obtain q qs where "split_on c xs = q # qs" by (cases "split_on c xs") auto
  with Cons show ?case by (cases qs) auto
qed simp

lemma split_on_no_sep: "p \<in> set (split_on c s) \<Longrightarrow> c \<notin> set p"
proof (induction s arbitrary: p)
  case (Cons x xs)
  obtain q qs where q: "split_on c xs = q # qs" by (cases "split_on c xs") auto
  with Cons show ?case by (auto split: if_splits)
qed simp

lemma split_on_single: "c \<notin> set s \<Longrightarrow> split_on c s = [s]"
  by (induction s) auto

lemma split_on_append_sep: "c \<notin> set p \<Longrightarrow> split_on c (p @ c # s) = p # split_on c s"
  by (induction p) auto

lemma split_join_on:
  "ps \<noteq> [] \<Longrightarrow> \<forall>p\<in>set ps. c \<notin> set p \<Longrightarrow> split_on c (join_with c ps) = ps"
  by (induction c ps rule: join_with.induct) (auto simp: split_on_single split_on_append_sep)

definition is_prefix :: "string \<Rightarrow> string \<Rightarrow> bool" where
  "is_prefix p s \<longleftrightarrow> take (length p) s = p"

definition trim_prefix :: "string \<Rightarrow> string \<Rightarrow> string" where
  "trim_prefix p s = (if is_prefix p s then drop (length p) s else s)"

text \<open>
  \<open>strings.TrimSpace\<close>: the UTF-8 encodings of the code points \<open>unicode.IsSpace\<close> accepts, cut
  from both ends.
\<close>

definition space_codes :: "nat list list" where
  "space_codes =
     [[9], [10], [11], [12], [13], [32], [194, 133], [194, 160], [225, 154, 128]] @
     map (\<lambda>n. [226, 128, n]) ([128..<139] @ [168, 169, 175]) @ [[226, 129, 159], [227, 128, 128]]"

definition starts_with_space :: "nat list \<Rightarrow> nat" where
  "starts_with_space bs =
     (case filter (\<lambda>code. take (length code) bs = code) space_codes of
        [] \<Rightarrow> 0 | code # _ \<Rightarrow> length code)"

definition ends_with_space :: "nat list \<Rightarrow> nat" where
  "ends_with_space rbs =
     (case filter (\<lambda>code. take (length code) rbs = rev code) space_codes of
        [] \<Rightarrow> 0 | code # _ \<Rightarrow> length code)"

function trim_left :: "string \<Rightarrow> string" where
  "trim_left s = (let n = starts_with_space (map byte_val s)
                  in if n = 0 \<or> s = [] then s else trim_left (drop n s))"
  by pat_completeness auto
termination
  by (relation "measure length") auto

function trim_right_rev :: "string \<Rightarrow> string" where
  "trim_right_rev s = (let n = ends_with_space (map byte_val s)
                       in if n = 0 \<or> s = [] then s else trim_right_rev (drop n s))"
  by pat_completeness auto
termination
  by (relation "measure length") auto

declare trim_left.simps [simp del] trim_right_rev.simps [simp del]

definition TrimSpace :: "string \<Rightarrow> string" where
  "TrimSpace s = rev (trim_right_rev (rev (trim_left s)))"

text \<open>
  \<open>strings.ToLower\<close> and \<open>strings.ToUpper\<close> on the ASCII letters. Bytes of a non-ASCII character
  are left as they are, so the two functions are exact on ASCII strings only; the header of
  the root theory says where that matters.
\<close>

definition lower_char :: "char \<Rightarrow> char" where
  "lower_char c = (if 65 \<le> byte_val c \<and> byte_val c \<le> 90 then char_of (byte_val c + 32) else c)"

definition upper_char :: "char \<Rightarrow> char" where
  "upper_char c = (if 97 \<le> byte_val c \<and> byte_val c \<le> 122 then char_of (byte_val c - 32) else c)"

abbreviation ToLower :: "string \<Rightarrow> string" where
  "ToLower s \<equiv> map lower_char s"

abbreviation ToUpper :: "string \<Rightarrow> string" where
  "ToUpper s \<equiv> map upper_char s"

lemma lower_char_idem [simp]: "lower_char (lower_char c) = lower_char c"
proof (cases "65 \<le> byte_val c \<and> byte_val c \<le> 90")
  case True
  then have "byte_val (lower_char c) = byte_val c + 32"
    by (simp add: lower_char_def of_char_of take_bit_nat_def)
  with True show ?thesis by (simp add: lower_char_def [of "lower_char c"])
next
  case False
  then have "lower_char c = c" unfolding lower_char_def by (rule if_not_P)
  then show ?thesis by simp
qed

lemma ToLower_idem [simp]: "ToLower (ToLower s) = ToLower s"
  by simp

definition is_hex_digit :: "char \<Rightarrow> bool" where
  "is_hex_digit c \<longleftrightarrow>
     (48 \<le> byte_val c \<and> byte_val c \<le> 57) \<or> (97 \<le> byte_val c \<and> byte_val c \<le> 102)
     \<or> (65 \<le> byte_val c \<and> byte_val c \<le> 70)"

text \<open>\<open>strconv.Itoa\<close> and \<open>strconv.FormatInt\<close> in base ten.\<close>

definition digit_char :: "nat \<Rightarrow> char" where
  "digit_char d = char_of (48 + d)"

fun nat_digits :: "nat \<Rightarrow> string" where
  "nat_digits n = (if n < 10 then [digit_char n] else nat_digits (n div 10) @ [digit_char (n mod 10)])"

declare nat_digits.simps [simp del]

definition Itoa :: "int \<Rightarrow> string" where
  "Itoa i = (if i < 0 then CHR ''-'' # nat_digits (nat (- i)) else nat_digits (nat i))"

text \<open>Different numbers are printed differently.\<close>

definition digits_val :: "string \<Rightarrow> nat" where
  "digits_val ds = foldl (\<lambda>a c. a * 10 + (byte_val c - 48)) 0 ds"

lemma digits_val_nat_digits: "digits_val (nat_digits n) = n"
proof (induction n rule: nat_digits.induct)
  case (1 n)
  have d: "(of_char (digit_char k) :: nat) - 48 = k" if "k < 10" for k
    using that by (simp add: digit_char_def of_char_of take_bit_nat_def)
  show ?case
  proof (cases "n < 10")
    case True
    then show ?thesis by (subst nat_digits.simps) (simp add: digits_val_def d)
  next
    case False
    have "n mod 10 < 10" by simp
    from d [OF this] False 1 show ?thesis
      by (subst nat_digits.simps) (simp add: digits_val_def)
  qed
qed

lemma nat_digits_inj: "nat_digits m = nat_digits n \<Longrightarrow> m = n"
  by (metis digits_val_nat_digits)

lemma Itoa_inj: "0 \<le> m \<Longrightarrow> 0 \<le> n \<Longrightarrow> Itoa m = Itoa n \<longleftrightarrow> m = n"
  by (auto simp: Itoa_def dest: nat_digits_inj)

end
