(* ===== verification/Protocol.thy ===== *)
theory Protocol
  imports Go_Prelude
begin

text \<open>
  The wire vocabulary of a transfer (internal/protocol/protocol.go): manifest items, stream
  bindings, resume entries and the one message type that carries them. Go's pointer fields
  (\<open>Stream *int\<close>, \<open>Manifest *Manifest\<close>) are options; \<open>None\<close> is \<open>nil\<close>. \<open>ItemOther\<close> stands
  for an item kind none of the constants names, which the code rejects in default branches.
\<close>

definition Version :: int where
  "Version = 1"

definition ChunkSize :: int where
  "ChunkSize = 64 * 1024"

datatype ItemKind = ItemFile | ItemText | ItemDirectory | ItemSymlink | ItemOther string

record Item =
  item_kind :: ItemKind
  item_name :: string
  item_size :: int
  item_mtime :: int
  item_mode :: "32 word"
  item_sha256 :: string
  item_sample :: string
  item_target :: string
  item_chunk_size :: int
  item_resume :: bool

record StreamBinding =
  sb_id :: int
  sb_item :: int

record Manifest =
  mf_version :: int
  mf_items :: "Item list"
  mf_streams :: "StreamBinding list"

record ResumeEntry =
  re_item :: int
  re_stream :: "int option"
  re_offset :: int
  re_prefix :: string
  re_sha256 :: string
  re_skip :: bool
  re_complete :: bool

record Message =
  msg_type :: string
  msg_version :: int
  msg_manifest :: "Manifest option"
  msg_resume :: "ResumeEntry list"
  msg_item :: int
  msg_stream :: "int option"
  msg_offset :: int
  msg_data :: string
  msg_encoding :: string
  msg_error :: string
  msg_at :: int
  msg_extra :: string

definition NewManifest :: "Item list \<Rightarrow> Manifest" where
  "NewManifest items = \<lparr>mf_version = Version, mf_items = items, mf_streams = []\<rparr>"

text \<open>The zero value of \<open>Message\<close>, from which the senders build theirs.\<close>

definition zero_message :: Message where
  "zero_message = \<lparr>msg_type = '''', msg_version = 0, msg_manifest = None, msg_resume = [],
     msg_item = 0, msg_stream = None, msg_offset = 0, msg_data = '''', msg_encoding = '''',
     msg_error = '''', msg_at = 0, msg_extra = ''''\<rparr>"

end
