(* ===== verification/Mux_Plan.thy ===== *)
theory Mux_Plan
  imports Protocol
begin

text \<open>
  Stream plans and the per-stream frame tracker (internal/mux/mux.go). A plan binds every
  manifest item to one stream; the tracker accepts the open, chunk and end frames of a
  stream in an order the plan allows.
\<close>

section \<open>Plans\<close>

record Plan =
  plan_bindings :: "StreamBinding list"
  byItem :: "int \<Rightarrow> int option"
  byStream :: "int \<Rightarrow> int option"

datatype mux_error =
    ManifestMissing
  | ManifestNoItems
  | StreamCountMismatch nat nat
  | NegativeStreamID int
  | StreamItemOutOfRange int int
  | DuplicateStreamID int
  | DuplicateItemBinding int
  | ItemUnbound int
  | FrameItemOutOfRange int
  | FrameMissingStream string
  | FrameStreamMismatch int int int
  | ResumeItemOutOfRange int
  | ResumeStreamMismatch int int int
  | NegativeResumeOffset string int
  | InvalidResumePrefixSHA string
  | InvalidResumeSHA string
  | CompleteWithoutSkip string
  | SkipNonFile string
  | SkipOffsetNotSize string
  | SkipWithPrefixSHA string
  | StreamReopened int
  | EndBeforeOpen int
  | StreamReended int
  | ChunkAfterEnd int

definition bind_maps :: "StreamBinding list \<Rightarrow> (int \<Rightarrow> int option) \<times> (int \<Rightarrow> int option)" where
  "bind_maps bs = fold (\<lambda>b (bi, bst). (bi(sb_item b \<mapsto> sb_id b), bst(sb_id b \<mapsto> sb_item b)))
                    bs (Map.empty, Map.empty)"

definition newPlan :: "StreamBinding list \<Rightarrow> Plan" where
  "newPlan bs = \<lparr>plan_bindings = bs, byItem = fst (bind_maps bs), byStream = snd (bind_maps bs)\<rparr>"

definition NewPlan :: "nat \<Rightarrow> Plan" where
  "NewPlan itemCount =
     newPlan (map (\<lambda>item. \<lparr>sb_id = int item + 1, sb_item = int item\<rparr>) [0..<itemCount])"

text \<open>The body of the loop over \<open>manifest.Streams\<close>.\<close>

definition plan_step :: "nat \<Rightarrow> StreamBinding \<Rightarrow> Plan \<Rightarrow> (mux_error, Plan) result" where
  "plan_step n b p =
     (if sb_id b < 0 then Inl (NegativeStreamID (sb_id b))
      else if sb_item b < 0 \<or> sb_item b \<ge> int n then Inl (StreamItemOutOfRange (sb_id b) (sb_item b))
      else if byStream p (sb_id b) \<noteq> None then Inl (DuplicateStreamID (sb_id b))
      else if byItem p (sb_item b) \<noteq> None then Inl (DuplicateItemBinding (sb_item b))
      else Inr (p\<lparr>plan_bindings := plan_bindings p @ [b],
                  byStream := (byStream p)(sb_id b \<mapsto> sb_item b),
                  byItem := (byItem p)(sb_item b \<mapsto> sb_id b)\<rparr>))"

definition check_bound :: "Plan \<Rightarrow> nat \<Rightarrow> unit \<Rightarrow> (mux_error, unit) result" where
  "check_bound p item _ = check (byItem p (int item) \<noteq> None) (ItemUnbound (int item))"

definition PlanFromManifest :: "Manifest option \<Rightarrow> (mux_error, Plan) result" where
  "PlanFromManifest manifest =
     (case manifest of
        None \<Rightarrow> Inl ManifestMissing
      | Some m \<Rightarrow>
          let n = length (mf_items m) in
          if n = 0 then Inl ManifestNoItems
          else if length (mf_streams m) = 0 then
            Inr (newPlan (map (\<lambda>item. \<lparr>sb_id = int item, sb_item = int item\<rparr>) [0..<n]))
          else if length (mf_streams m) \<noteq> n then
            Inl (StreamCountMismatch (length (mf_streams m)) n)
          else
            rbind (foldM (plan_step n) (mf_streams m) (newPlan []))
              (\<lambda>plan. rbind (foldM (check_bound plan) [0..<n] ()) (\<lambda>_. Inr plan)))"

definition Bindings :: "Plan option \<Rightarrow> StreamBinding list" where
  "Bindings p = (case p of None \<Rightarrow> [] | Some q \<Rightarrow> plan_bindings q)"

definition Apply :: "Plan option \<Rightarrow> Manifest option \<Rightarrow> Manifest option" where
  "Apply p manifest =
     (case (p, manifest) of
        (Some _, Some m) \<Rightarrow> Some (m\<lparr>mf_streams := Bindings p\<rparr>)
      | _ \<Rightarrow> manifest)"

definition StreamForItem :: "Plan option \<Rightarrow> int \<Rightarrow> int option" where
  "StreamForItem p item = (case p of None \<Rightarrow> None | Some q \<Rightarrow> byItem q item)"

definition ItemForStream :: "Plan option \<Rightarrow> int \<Rightarrow> int option" where
  "ItemForStream p stream = (case p of None \<Rightarrow> None | Some q \<Rightarrow> byStream q stream)"

definition ResolveFrame ::
  "Plan option \<Rightarrow> Manifest option \<Rightarrow> Message \<Rightarrow> bool \<Rightarrow> (mux_error, StreamBinding) result" where
  "ResolveFrame p manifest msg requireStream =
     (case manifest of
        None \<Rightarrow> Inl (FrameItemOutOfRange (msg_item msg))
      | Some m \<Rightarrow>
          if msg_item msg < 0 \<or> msg_item msg \<ge> int (length (mf_items m)) then
            Inl (FrameItemOutOfRange (msg_item msg))
          else if requireStream \<and> msg_stream msg = None then Inl (FrameMissingStream (msg_type msg))
          else case StreamForItem p (msg_item msg) of
              None \<Rightarrow> Inl (ItemUnbound (msg_item msg))
            | Some stream \<Rightarrow>
                (case msg_stream msg of
                   Some given \<Rightarrow>
                     if given \<noteq> stream then Inl (FrameStreamMismatch given (msg_item msg) stream)
                     else Inr \<lparr>sb_id = stream, sb_item = msg_item msg\<rparr>
                 | None \<Rightarrow> Inr \<lparr>sb_id = stream, sb_item = msg_item msg\<rparr>))"

definition validSHA256 :: "string \<Rightarrow> bool" where
  "validSHA256 value \<longleftrightarrow> length value = 64 \<and>
     list_all (\<lambda>r. \<not> ((byte_val r < 48 \<or> byte_val r > 57) \<and> (byte_val r < 97 \<or> byte_val r > 102)))
       (ToLower value)"

definition ValidateResumeEntry ::
  "Plan option \<Rightarrow> Item list \<Rightarrow> ResumeEntry \<Rightarrow> (mux_error, int) result" where
  "ValidateResumeEntry p items entry =
     (if re_item entry < 0 \<or> re_item entry \<ge> int (length items) then
        Inl (ResumeItemOutOfRange (re_item entry))
      else let item = items ! nat (re_item entry) in
        case StreamForItem p (re_item entry) of
          None \<Rightarrow> Inl (ItemUnbound (re_item entry))
        | Some stream \<Rightarrow>
            if re_stream entry \<noteq> None \<and> the (re_stream entry) \<noteq> stream then
              Inl (ResumeStreamMismatch (the (re_stream entry)) (re_item entry) stream)
            else if re_offset entry < 0 then
              Inl (NegativeResumeOffset (item_name item) (re_offset entry))
            else if re_prefix entry \<noteq> '''' \<and> \<not> validSHA256 (re_prefix entry) then
              Inl (InvalidResumePrefixSHA (item_name item))
            else if re_sha256 entry \<noteq> '''' \<and> \<not> validSHA256 (re_sha256 entry) then
              Inl (InvalidResumeSHA (item_name item))
            else if re_complete entry \<and> \<not> re_skip entry then
              Inl (CompleteWithoutSkip (item_name item))
            else if re_skip entry \<and> item_kind item \<noteq> ItemFile then Inl (SkipNonFile (item_name item))
            else if re_skip entry \<and> re_offset entry \<noteq> item_size item then
              Inl (SkipOffsetNotSize (item_name item))
            else if re_skip entry \<and> re_prefix entry \<noteq> '''' then
              Inl (SkipWithPrefixSHA (item_name item))
            else Inr (clampInt64 (re_offset entry) 0 (item_size item)))"

section \<open>Tracker\<close>

record StreamState =
  ss_item :: int
  ss_opened :: bool
  ss_ended :: bool

record Tracker =
  tr_plan :: "Plan option"
  tr_states :: "int \<Rightarrow> StreamState option"

definition NewTracker :: "Plan option \<Rightarrow> Tracker" where
  "NewTracker plan = \<lparr>tr_plan = plan, tr_states = Map.empty\<rparr>"

definition tracker_state :: "Tracker \<Rightarrow> int \<Rightarrow> StreamState" where
  "tracker_state t streamID =
     (case tr_states t streamID of
        None \<Rightarrow> \<lparr>ss_item = 0, ss_opened = False, ss_ended = False\<rparr> | Some st \<Rightarrow> st)"

definition AcceptOpen ::
  "Manifest option \<Rightarrow> Message \<Rightarrow> Tracker \<Rightarrow> (mux_error, Tracker \<times> StreamBinding) result" where
  "AcceptOpen manifest msg t =
     rbind (ResolveFrame (tr_plan t) manifest msg True) (\<lambda>b.
       if ss_opened (tracker_state t (sb_id b)) then Inl (StreamReopened (sb_id b))
       else Inr (t\<lparr>tr_states := (tr_states t)(sb_id b \<mapsto>
                    \<lparr>ss_item = sb_item b, ss_opened = True, ss_ended = False\<rparr>)\<rparr>, b))"

definition AcceptEnd ::
  "Manifest option \<Rightarrow> Message \<Rightarrow> Tracker \<Rightarrow> (mux_error, Tracker \<times> StreamBinding) result" where
  "AcceptEnd manifest msg t =
     rbind (ResolveFrame (tr_plan t) manifest msg True) (\<lambda>b.
       let st = tracker_state t (sb_id b) in
       if \<not> ss_opened st then Inl (EndBeforeOpen (sb_id b))
       else if ss_ended st then Inl (StreamReended (sb_id b))
       else Inr (t\<lparr>tr_states := (tr_states t)(sb_id b \<mapsto> st\<lparr>ss_ended := True\<rparr>)\<rparr>, b))"

definition acceptChunk ::
  "bool \<Rightarrow> Manifest option \<Rightarrow> Message \<Rightarrow> Tracker \<Rightarrow> (mux_error, StreamBinding) result" where
  "acceptChunk allowAfterEnd manifest msg t =
     rbind (ResolveFrame (tr_plan t) manifest msg False) (\<lambda>b.
       if ss_ended (tracker_state t (sb_id b)) \<and> \<not> allowAfterEnd then Inl (ChunkAfterEnd (sb_id b))
       else Inr b)"

definition AcceptChunk ::
  "Manifest option \<Rightarrow> Message \<Rightarrow> Tracker \<Rightarrow> (mux_error, StreamBinding) result" where
  "AcceptChunk = acceptChunk False"

definition AcceptChunkAfterEnd ::
  "Manifest option \<Rightarrow> Message \<Rightarrow> Tracker \<Rightarrow> (mux_error, StreamBinding) result" where
  "AcceptChunkAfterEnd = acceptChunk True"

section \<open>What a plan is\<close>

definition bindings_ok :: "nat \<Rightarrow> StreamBinding list \<Rightarrow> bool" where
  "bindings_ok n bs \<longleftrightarrow>
     distinct (map sb_id bs) \<and> distinct (map sb_item bs) \<and>
     (\<forall>b\<in>set bs. 0 \<le> sb_id b \<and> 0 \<le> sb_item b \<and> sb_item b < int n)"

text \<open>The contract of a plan: its two maps are inverse bijections between items and streams.\<close>

definition plan_ok :: "nat \<Rightarrow> Plan \<Rightarrow> bool" where
  "plan_ok n p \<longleftrightarrow>
     dom (byItem p) = {0..<int n} \<and>
     (\<forall>i s. byItem p i = Some s \<longleftrightarrow> byStream p s = Some i)"

lemma bind_maps_snoc:
  "bind_maps (bs @ [b]) =
     ((fst (bind_maps bs))(sb_item b \<mapsto> sb_id b), (snd (bind_maps bs))(sb_id b \<mapsto> sb_item b))"
  by (simp add: bind_maps_def split: prod.split)

lemma bind_maps_Nil [simp]: "bind_maps [] = (Map.empty, Map.empty)"
  by (simp add: bind_maps_def)

lemma dom_bind_maps:
  "dom (fst (bind_maps bs)) = sb_item ` set bs" "dom (snd (bind_maps bs)) = sb_id ` set bs"
  by (induction bs rule: rev_induct) (auto simp: bind_maps_snoc)

lemma bind_maps_lookup:
  assumes "distinct (map sb_id bs)" "distinct (map sb_item bs)"
  shows "fst (bind_maps bs) i = Some s \<longleftrightarrow> (\<exists>b\<in>set bs. sb_item b = i \<and> sb_id b = s)"
    and "snd (bind_maps bs) s = Some i \<longleftrightarrow> (\<exists>b\<in>set bs. sb_item b = i \<and> sb_id b = s)"
  using assms
  by (induction bs rule: rev_induct) (auto simp: bind_maps_snoc image_iff)

lemma newPlan_snoc:
  "newPlan (bs @ [b]) =
     (newPlan bs)\<lparr>plan_bindings := plan_bindings (newPlan bs) @ [b],
        byStream := (byStream (newPlan bs))(sb_id b \<mapsto> sb_item b),
        byItem := (byItem (newPlan bs))(sb_item b \<mapsto> sb_id b)\<rparr>"
  by (simp add: newPlan_def bind_maps_snoc)

lemma plan_step_newPlan:
  "bindings_ok n bs \<Longrightarrow>
     plan_step n b (newPlan bs) = Inr p \<longleftrightarrow> bindings_ok n (bs @ [b]) \<and> p = newPlan (bs @ [b])"
  unfolding newPlan_snoc
  using dom_bind_maps(1) [of bs] dom_bind_maps(2) [of bs]
  by (auto simp: plan_step_def bindings_ok_def newPlan_def domIff set_eq_iff image_iff)

lemma plan_loop:
  "foldM (plan_step n) bs (newPlan []) = Inr p \<longleftrightarrow> bindings_ok n bs \<and> p = newPlan bs"
proof (induction bs arbitrary: p rule: rev_induct)
  case Nil
  show ?case by (auto simp: bindings_ok_def)
next
  case (snoc b bs)
  have "bindings_ok n (bs @ [b]) \<Longrightarrow> bindings_ok n bs" by (simp add: bindings_ok_def)
  with snoc show ?case
    by (auto simp: foldM_snoc result_simps plan_step_newPlan)
qed

lemma check_bound_loop:
  "foldM (check_bound p) [0..<n] () = Inr () \<longleftrightarrow> {0..<int n} \<subseteq> dom (byItem p)"
proof (induction n)
  case (Suc n)
  have "{0..<int (Suc n)} = insert (int n) {0..<int n}" by auto
  with Suc show ?case by (auto simp: foldM_snoc result_simps check_bound_def)
qed simp

text \<open>Distinct items in range, as many as there are items, are all the items.\<close>

lemma bindings_cover:
  assumes "bindings_ok n bs" "length bs = n"
  shows "sb_item ` set bs = {0..<int n}"
proof (rule card_subset_eq)
  show "sb_item ` set bs \<subseteq> {0..<int n}" using assms(1) by (auto simp: bindings_ok_def)
  from assms have "distinct (map sb_item bs)" by (simp add: bindings_ok_def)
  then have "card (set (map sb_item bs)) = n" using assms(2) distinct_card by fastforce
  then show "card (sb_item ` set bs) = card {0..<int n}" by simp
qed simp

lemma plan_ok_newPlan:
  assumes "bindings_ok n bs" "length bs = n"
  shows "plan_ok n (newPlan bs)"
  using assms bindings_cover [OF assms] dom_bind_maps(1) [of bs]
  by (auto simp: plan_ok_def newPlan_def bind_maps_lookup bindings_ok_def)

lemma PlanFromManifest_streams:
  assumes "mf_streams m \<noteq> []"
  shows "PlanFromManifest (Some m) = Inr p \<longleftrightarrow>
    length (mf_streams m) = length (mf_items m) \<and> bindings_ok (length (mf_items m)) (mf_streams m)
    \<and> p = newPlan (mf_streams m)"
proof -
  let ?n = "length (mf_items m)"
  have "foldM (check_bound (newPlan (mf_streams m))) [0..<?n] () = Inr ()"
    if "bindings_ok ?n (mf_streams m)" "length (mf_streams m) = ?n"
    using plan_ok_newPlan [OF that] unfolding check_bound_loop by (simp add: plan_ok_def)
  with assms show ?thesis
    by (auto simp: PlanFromManifest_def Let_def result_simps plan_loop)
qed

lemma bindings_ok_default:
  "bindings_ok n (map (\<lambda>item. \<lparr>sb_id = int item, sb_item = int item\<rparr>) [0..<n])"
  "bindings_ok n (map (\<lambda>item. \<lparr>sb_id = int item + 1, sb_item = int item\<rparr>) [0..<n])"
  by (auto simp: bindings_ok_def distinct_map inj_on_def comp_def)

lemma PlanFromManifest_plan_ok:
  assumes "PlanFromManifest (Some m) = Inr p"
  shows "plan_ok (length (mf_items m)) p"
proof (cases "mf_streams m = []")
  case True
  with assms show ?thesis
    using plan_ok_newPlan [OF bindings_ok_default(1)]
    by (auto simp: PlanFromManifest_def Let_def split: if_splits)
next
  case False
  with assms show ?thesis by (auto simp: PlanFromManifest_streams plan_ok_newPlan)
qed

lemma ResolveFrame_Inr:
  "ResolveFrame p manifest msg req = Inr b \<longleftrightarrow>
     (\<exists>m. manifest = Some m \<and> 0 \<le> msg_item msg \<and> msg_item msg < int (length (mf_items m))) \<and>
     (req \<longrightarrow> msg_stream msg \<noteq> None) \<and> sb_item b = msg_item msg \<and>
     StreamForItem p (msg_item msg) = Some (sb_id b) \<and>
     (\<forall>g. msg_stream msg = Some g \<longrightarrow> g = sb_id b)"
  by (cases b) (auto simp: ResolveFrame_def split: option.splits if_splits)

lemma ValidateResumeEntry_Inr:
  assumes "ValidateResumeEntry p items entry = Inr off"
  shows "0 \<le> re_item entry" "re_item entry < int (length items)" "0 \<le> re_offset entry"
    "off = clampInt64 (re_offset entry) 0 (item_size (items ! nat (re_item entry)))"
    "re_skip entry \<Longrightarrow> item_kind (items ! nat (re_item entry)) = ItemFile
        \<and> off = item_size (items ! nat (re_item entry)) \<and> re_prefix entry = ''''"
    "re_complete entry \<Longrightarrow> re_skip entry"
  using assms
  by (auto simp: ValidateResumeEntry_def Let_def clampInt64_def split: option.splits if_splits)


section \<open>Frame traces\<close>

text \<open>
  The frames of a transfer in the order the receiver handles them, and the tracker run over
  them; \<open>stripe\<close> selects \<open>AcceptChunkAfterEnd\<close>, as the receiving session does.
\<close>

datatype frame = FOpen Message | FChunk Message | FEnd Message

primrec frame_item :: "frame \<Rightarrow> int" where
  "frame_item (FOpen msg) = msg_item msg"
| "frame_item (FChunk msg) = msg_item msg"
| "frame_item (FEnd msg) = msg_item msg"

fun track :: "bool \<Rightarrow> Manifest option \<Rightarrow> frame \<Rightarrow> Tracker \<Rightarrow> (mux_error, Tracker) result" where
  "track stripe m (FOpen msg) t = rbind (AcceptOpen m msg t) (\<lambda>(t', _). Inr t')"
| "track stripe m (FEnd msg) t = rbind (AcceptEnd m msg t) (\<lambda>(t', _). Inr t')"
| "track stripe m (FChunk msg) t =
     rbind (if stripe then AcceptChunkAfterEnd m msg t else AcceptChunk m msg t) (\<lambda>_. Inr t)"

text \<open>Whether frame \<open>b\<close> may come after frame \<open>a\<close>.\<close>

fun may_follow :: "bool \<Rightarrow> frame \<Rightarrow> frame \<Rightarrow> bool" where
  "may_follow stripe (FOpen x) (FOpen y) = (msg_item x \<noteq> msg_item y)"
| "may_follow stripe (FEnd x) (FEnd y) = (msg_item x \<noteq> msg_item y)"
| "may_follow stripe (FEnd x) (FOpen y) = (msg_item x \<noteq> msg_item y)"
| "may_follow stripe (FEnd x) (FChunk y) = (stripe \<or> msg_item x \<noteq> msg_item y)"
| "may_follow stripe _ _ = True"

definition opened_in :: "frame list \<Rightarrow> int \<Rightarrow> bool" where
  "opened_in fs item \<longleftrightarrow> (\<exists>msg. FOpen msg \<in> set fs \<and> msg_item msg = item)"

definition ended_in :: "frame list \<Rightarrow> int \<Rightarrow> bool" where
  "ended_in fs item \<longleftrightarrow> (\<exists>msg. FEnd msg \<in> set fs \<and> msg_item msg = item)"

definition ends_opened :: "frame list \<Rightarrow> bool" where
  "ends_opened fs \<longleftrightarrow> (\<forall>xs msg ys. fs = xs @ FEnd msg # ys \<longrightarrow> opened_in xs (msg_item msg))"

text \<open>The tracker's map says of each bound stream whether its item was opened and ended.\<close>

definition tracks :: "Plan \<Rightarrow> frame list \<Rightarrow> Tracker \<Rightarrow> bool" where
  "tracks plan fs t \<longleftrightarrow> tr_plan t = Some plan \<and>
     (\<forall>item s. byItem plan item = Some s \<longrightarrow>
        ss_opened (tracker_state t s) = opened_in fs item \<and>
        ss_ended (tracker_state t s) = ended_in fs item \<and>
        (ended_in fs item \<longrightarrow> opened_in fs item))"

lemma opened_in_simps [simp]:
  "opened_in [] i = False"
  "opened_in (fs @ [FOpen msg]) i \<longleftrightarrow> opened_in fs i \<or> msg_item msg = i"
  "opened_in (fs @ [FChunk msg]) i = opened_in fs i"
  "opened_in (fs @ [FEnd msg]) i = opened_in fs i"
  by (auto simp: opened_in_def)

lemma ended_in_simps [simp]:
  "ended_in [] i = False"
  "ended_in (fs @ [FEnd msg]) i \<longleftrightarrow> ended_in fs i \<or> msg_item msg = i"
  "ended_in (fs @ [FChunk msg]) i = ended_in fs i"
  "ended_in (fs @ [FOpen msg]) i = ended_in fs i"
  by (auto simp: ended_in_def)

lemma ends_opened_snoc:
  "ends_opened (fs @ [f]) \<longleftrightarrow>
     ends_opened fs \<and> (\<forall>msg. f = FEnd msg \<longrightarrow> opened_in fs (msg_item msg))"
proof -
  have "fs @ [f] = xs @ FEnd msg # ys \<longleftrightarrow>
      ys = [] \<and> fs = xs \<and> f = FEnd msg \<or> (\<exists>zs. ys = zs @ [f] \<and> fs = xs @ FEnd msg # zs)" for xs msg ys
  proof (cases ys rule: rev_cases)
    case (snoc zs z)
    have "fs @ [f] = (xs @ FEnd msg # zs) @ [z] \<longleftrightarrow> fs = xs @ FEnd msg # zs \<and> f = z"
      by (rule append1_eq_conv)
    with snoc show ?thesis by auto
  qed auto
  note split = this
  show ?thesis
  proof
    assume *: "ends_opened (fs @ [f])"
    have "opened_in xs (msg_item msg)" if "fs = xs @ FEnd msg # ys" for xs msg ys
      using * that unfolding ends_opened_def
      by (elim allE [of _ xs] allE [of _ msg] allE [of _ "ys @ [f]"]) simp
    moreover have "opened_in fs (msg_item msg)" if "f = FEnd msg" for msg
      using * that unfolding ends_opened_def
      by (elim allE [of _ fs] allE [of _ msg] allE [of _ "[]"]) simp
    ultimately show "ends_opened fs \<and> (\<forall>msg. f = FEnd msg \<longrightarrow> opened_in fs (msg_item msg))"
      by (auto simp: ends_opened_def)
  next
    assume *: "ends_opened fs \<and> (\<forall>msg. f = FEnd msg \<longrightarrow> opened_in fs (msg_item msg))"
    then have "opened_in xs (msg_item msg)" if "fs @ [f] = xs @ FEnd msg # ys" for xs msg ys
      using that unfolding split ends_opened_def by auto
    then show "ends_opened (fs @ [f])" unfolding ends_opened_def by blast
  qed
qed

lemma may_follow_all:
  "(\<forall>f\<in>set fs. may_follow stripe f (FOpen msg)) \<longleftrightarrow>
     \<not> opened_in fs (msg_item msg) \<and> \<not> ended_in fs (msg_item msg)"
  "(\<forall>f\<in>set fs. may_follow stripe f (FEnd msg)) \<longleftrightarrow> \<not> ended_in fs (msg_item msg)"
  "(\<forall>f\<in>set fs. may_follow stripe f (FChunk msg)) \<longleftrightarrow> stripe \<or> \<not> ended_in fs (msg_item msg)"
proof -
  have f: "(\<forall>f\<in>set fs. P f) \<longleftrightarrow> (\<forall>m. FOpen m \<in> set fs \<longrightarrow> P (FOpen m)) \<and>
      (\<forall>m. FChunk m \<in> set fs \<longrightarrow> P (FChunk m)) \<and> (\<forall>m. FEnd m \<in> set fs \<longrightarrow> P (FEnd m))" for P
    by (metis frame.exhaust)
  show "(\<forall>f\<in>set fs. may_follow stripe f (FOpen msg)) \<longleftrightarrow>
     \<not> opened_in fs (msg_item msg) \<and> \<not> ended_in fs (msg_item msg)"
    unfolding f by (auto simp: opened_in_def ended_in_def)
  show "(\<forall>f\<in>set fs. may_follow stripe f (FEnd msg)) \<longleftrightarrow> \<not> ended_in fs (msg_item msg)"
    unfolding f by (auto simp: ended_in_def)
  show "(\<forall>f\<in>set fs. may_follow stripe f (FChunk msg)) \<longleftrightarrow> stripe \<or> \<not> ended_in fs (msg_item msg)"
    unfolding f by (auto simp: ended_in_def)
qed

lemma tracker_state_upd [simp]:
  "tracker_state (t\<lparr>tr_states := (tr_states t)(s \<mapsto> st)\<rparr>) s' =
     (if s' = s then st else tracker_state t s')"
  by (simp add: tracker_state_def)

lemma AcceptOpen_Inr:
  "AcceptOpen m msg t = Inr (t', b) \<Longrightarrow>
     ResolveFrame (tr_plan t) m msg True = Inr b \<and> \<not> ss_opened (tracker_state t (sb_id b)) \<and>
     t' = t\<lparr>tr_states := (tr_states t)(sb_id b \<mapsto>
              \<lparr>ss_item = sb_item b, ss_opened = True, ss_ended = False\<rparr>)\<rparr>"
  by (auto simp: AcceptOpen_def result_simps split: if_splits)

lemma AcceptEnd_Inr:
  "AcceptEnd m msg t = Inr (t', b) \<Longrightarrow>
     ResolveFrame (tr_plan t) m msg True = Inr b \<and> ss_opened (tracker_state t (sb_id b)) \<and>
     \<not> ss_ended (tracker_state t (sb_id b)) \<and>
     t' = t\<lparr>tr_states := (tr_states t)(sb_id b \<mapsto> (tracker_state t (sb_id b))\<lparr>ss_ended := True\<rparr>)\<rparr>"
  by (auto simp: AcceptEnd_def Let_def result_simps split: if_splits)

lemma acceptChunk_Inr:
  "acceptChunk after m msg t = Inr b \<Longrightarrow>
     ResolveFrame (tr_plan t) m msg False = Inr b \<and> (after \<or> \<not> ss_ended (tracker_state t (sb_id b)))"
  by (auto simp: acceptChunk_def result_simps split: if_splits)

lemma resolved_byItem:
  "ResolveFrame (Some plan) m msg req = Inr b \<Longrightarrow>
     byItem plan (msg_item msg) = Some (sb_id b) \<and> sb_item b = msg_item msg"
  by (simp add: ResolveFrame_Inr StreamForItem_def)

lemma tracks_upd:
  assumes "plan_ok n plan" "tracks plan fs t" "byItem plan i = Some s"
    and "\<And>j. j \<noteq> i \<Longrightarrow> opened_in gs j = opened_in fs j \<and> ended_in gs j = ended_in fs j"
    and "ss_opened st = opened_in gs i" "ss_ended st = ended_in gs i"
      "ended_in gs i \<Longrightarrow> opened_in gs i"
  shows "tracks plan gs (t\<lparr>tr_states := (tr_states t)(s \<mapsto> st)\<rparr>)"
proof -
  have inj: "byItem plan j = Some s \<Longrightarrow> j = i" for j
    using assms(1,3) unfolding plan_ok_def by (metis option.inject)
  have "ss_opened (if s' = s then st else tracker_state t s') = opened_in gs item \<and>
      ss_ended (if s' = s then st else tracker_state t s') = ended_in gs item \<and>
      (ended_in gs item \<longrightarrow> opened_in gs item)" if "byItem plan item = Some s'" for item s'
  proof (cases "item = i")
    case True
    then show ?thesis using that assms(3,5,6,7) by simp
  next
    case False
    then have "s' \<noteq> s" using that inj by blast
    with False that show ?thesis using assms(2,4) by (simp add: tracks_def)
  qed
  with assms(2) show ?thesis by (simp add: tracks_def)
qed

lemma track_step:
  assumes ok: "plan_ok n plan" and tr: "tracks plan fs t" and step: "track stripe m f t = Inr t'"
  shows "tracks plan (fs @ [f]) t' \<and> (\<forall>g\<in>set fs. may_follow stripe g f) \<and>
    (\<forall>msg. f = FEnd msg \<longrightarrow> opened_in fs (msg_item msg))"
proof -
  have plan: "tr_plan t = Some plan" using tr by (simp add: tracks_def)
  have st: "ss_opened (tracker_state t s) = opened_in fs i" "ss_ended (tracker_state t s) = ended_in fs i"
    "ended_in fs i \<Longrightarrow> opened_in fs i" if "byItem plan i = Some s" for i s
    using tr that by (simp_all add: tracks_def)
  show ?thesis
  proof (cases f)
    case (FOpen msg)
    with step obtain b where "AcceptOpen m msg t = Inr (t', b)" by (auto simp: result_simps)
    note opn = AcceptOpen_Inr [OF this, unfolded plan]
    with resolved_byItem have b: "byItem plan (msg_item msg) = Some (sb_id b)" by blast
    have "tracks plan (fs @ [f]) t'"
      using opn st [OF b] by (auto simp: FOpen intro!: tracks_upd [OF ok tr b])
    moreover have "\<forall>g\<in>set fs. may_follow stripe g f"
      using opn st [OF b] by (auto simp: FOpen may_follow_all)
    ultimately show ?thesis by (simp add: FOpen)
  next
    case (FEnd msg)
    with step obtain b where "AcceptEnd m msg t = Inr (t', b)" by (auto simp: result_simps)
    note fin = AcceptEnd_Inr [OF this, unfolded plan]
    with resolved_byItem have b: "byItem plan (msg_item msg) = Some (sb_id b)" by blast
    have "tracks plan (fs @ [f]) t'"
      using fin st [OF b] by (auto simp: FEnd intro!: tracks_upd [OF ok tr b])
    moreover have "\<forall>g\<in>set fs. may_follow stripe g f"
      using fin st [OF b] by (simp add: FEnd may_follow_all)
    ultimately show ?thesis using fin st [OF b] by (simp add: FEnd)
  next
    case (FChunk msg)
    have "track stripe m f t = rbind (acceptChunk stripe m msg t) (\<lambda>_. Inr t)"
      by (cases stripe) (simp_all add: FChunk AcceptChunk_def AcceptChunkAfterEnd_def)
    with step obtain b where acc: "acceptChunk stripe m msg t = Inr b" and t': "t' = t"
      by (cases "acceptChunk stripe m msg t") simp_all
    note chunk = acceptChunk_Inr [OF acc, unfolded plan]
    with resolved_byItem have b: "byItem plan (msg_item msg) = Some (sb_id b)" by blast
    with chunk st [OF b] tr show ?thesis
      by (simp add: FChunk t' tracks_def may_follow_all)
  qed
qed

lemma tracks_init: "tracks plan [] (NewTracker (Some plan))"
  by (simp add: tracks_def NewTracker_def tracker_state_def)

lemma track_run:
  assumes "plan_ok n plan" "foldM (track stripe m) fs (NewTracker (Some plan)) = Inr t"
  shows "tracks plan fs t \<and> sorted_wrt (may_follow stripe) fs \<and> ends_opened fs"
  using assms(2)
proof (rule foldM_prefix_invariant)
  show "tracks plan [] (NewTracker (Some plan)) \<and> sorted_wrt (may_follow stripe) [] \<and> ends_opened []"
    by (simp add: tracks_init ends_opened_def)
  fix gs f u u'
  assume "tracks plan gs u \<and> sorted_wrt (may_follow stripe) gs \<and> ends_opened gs"
    and "track stripe m f u = Inr u'"
  then show "tracks plan (gs @ [f]) u' \<and> sorted_wrt (may_follow stripe) (gs @ [f])
      \<and> ends_opened (gs @ [f])"
    using track_step [OF assms(1), of gs u stripe m f u']
    by (simp add: sorted_wrt_append ends_opened_snoc)
qed

section \<open>Properties\<close>

text \<open>A concrete transfer of two files, for the witnesses.\<close>

definition demo_item :: "string \<Rightarrow> int \<Rightarrow> Item" where
  "demo_item name sz = \<lparr>item_kind = ItemFile, item_name = name, item_size = sz, item_mtime = 0,
     item_mode = 0, item_sha256 = '''', item_sample = '''', item_target = '''',
     item_chunk_size = ChunkSize, item_resume = True\<rparr>"

definition demo_manifest :: Manifest where
  "demo_manifest = (NewManifest [demo_item ''a'' 3, demo_item ''b'' 5])
     \<lparr>mf_streams := [\<lparr>sb_id = 4, sb_item = 1\<rparr>, \<lparr>sb_id = 2, sb_item = 0\<rparr>]\<rparr>"

lemma demo_manifest_plan:
  "PlanFromManifest (Some demo_manifest) = Inr (newPlan (mf_streams demo_manifest))"
  by (subst PlanFromManifest_streams) (auto simp: demo_manifest_def NewManifest_def bindings_ok_def)


text \<open>
  A plan read from a manifest is a bijection: exactly the manifest's items have a stream, and
  looking an item up by stream inverts looking a stream up by item.
\<close>

theorem plan_bijection:
  assumes "PlanFromManifest (Some m) = Inr plan"
  shows "(StreamForItem (Some plan) item = Some stream \<longleftrightarrow> ItemForStream (Some plan) stream = Some item)
    \<and> (StreamForItem (Some plan) item \<noteq> None \<longleftrightarrow> 0 \<le> item \<and> item < int (length (mf_items m)))"
proof -
  have ok: "plan_ok (length (mf_items m)) plan" using assms by (rule PlanFromManifest_plan_ok)
  then have "byItem plan item \<noteq> None \<longleftrightarrow> item \<in> {0..<int (length (mf_items m))}"
    unfolding plan_ok_def domIff [symmetric] by simp
  with ok show ?thesis
    unfolding StreamForItem_def ItemForStream_def by (simp add: plan_ok_def)
qed

theorem plan_bijection_witness:
  "StreamForItem (Some (newPlan (mf_streams demo_manifest))) 1 = Some 4
    \<longleftrightarrow> ItemForStream (Some (newPlan (mf_streams demo_manifest))) 4 = Some 1"
  using plan_bijection [OF demo_manifest_plan, of 1 4] by simp

text \<open>
C40: The plan a sender allocates and writes into its manifest is the plan the receiver reads
back from that manifest.
\<close>

theorem plan_roundtrip:
  assumes "items \<noteq> []"
  shows "PlanFromManifest (Apply (Some (NewPlan (length items))) (Some (NewManifest items)))
    = Inr (NewPlan (length items))"
proof -
  have "PlanFromManifest (Some ((NewManifest items)\<lparr>mf_streams := plan_bindings (NewPlan (length items))\<rparr>))
      = Inr (NewPlan (length items))"
    using assms bindings_ok_default(2) [of "length items"]
    by (subst PlanFromManifest_streams) (auto simp: NewManifest_def NewPlan_def newPlan_def)
  then show ?thesis by (simp add: Apply_def Bindings_def)
qed

theorem plan_roundtrip_witness:
  "PlanFromManifest (Apply (Some (NewPlan 2)) (Some (NewManifest [demo_item ''a'' 3, demo_item ''b'' 5])))
    = Inr (NewPlan 2)"
  using plan_roundtrip [of "[demo_item ''a'' 3, demo_item ''b'' 5]"] by (simp add: numeral_2_eq_2)

text \<open>
C39: Whatever frames a peer sends, the frames the tracker lets through are lawful per stream: a
stream is opened once and ended once, an end is preceded by an open, nothing is opened after
its end, and without striping no chunk follows an end.
\<close>

theorem tracker_lawful:
  assumes "PlanFromManifest (Some m) = Inr plan"
    and "foldM (track stripe (Some m)) fs (NewTracker (Some plan)) = Inr t"
  shows "sorted_wrt (may_follow stripe) fs \<and> ends_opened fs"
  using track_run [OF PlanFromManifest_plan_ok [OF assms(1)] assms(2)] by simp

theorem tracker_lawful_witness:
  "sorted_wrt (may_follow False)
     [FOpen (zero_message\<lparr>msg_item := 1, msg_stream := Some 4\<rparr>), FChunk (zero_message\<lparr>msg_item := 1\<rparr>),
      FEnd (zero_message\<lparr>msg_item := 1, msg_stream := Some 4\<rparr>)]"
proof -
  have "\<exists>t. foldM (track False (Some demo_manifest))
      [FOpen (zero_message\<lparr>msg_item := 1, msg_stream := Some 4\<rparr>), FChunk (zero_message\<lparr>msg_item := 1\<rparr>),
       FEnd (zero_message\<lparr>msg_item := 1, msg_stream := Some 4\<rparr>)]
      (NewTracker (Some (newPlan (mf_streams demo_manifest)))) = Inr t"
    by (simp add: demo_manifest_def NewManifest_def zero_message_def NewTracker_def AcceptOpen_def
        AcceptEnd_def AcceptChunk_def acceptChunk_def ResolveFrame_def StreamForItem_def
        tracker_state_def newPlan_def bind_maps_def Let_def)
  then show ?thesis using tracker_lawful [OF demo_manifest_plan] by metis
qed

end
