(* ===== verification/Mux_Scheduler.thy ===== *)
theory Mux_Scheduler
  imports Go_Prelude
begin

text \<open>
  The weighted deficit round-robin scheduler that shares the send path between the file
  streams of a transfer (internal/mux/scheduler.go). A stream state is addressed by its index
  in \<open>sc_streams\<close>, which stands for the Go pointer. The methods are modelled on a non-nil
  scheduler. The search loop of \<open>Next\<close> has no bound of its own, so it is a
  \<^theory_text>\<open>partial_function\<close> into \<open>option\<close> whose \<open>None\<close> means that it does not return.
\<close>

record WeightedStream =
  wstream_id :: int
  wstream_weight :: int

record Turn =
  turn_stream :: int
  turn_budget :: int
  turn_ok :: bool

record weightedState =
  ws_id :: int
  ws_weight :: int
  ws_deficit :: int
  ws_active :: bool

record WeightedScheduler =
  sc_streams :: "weightedState list"
  sc_byID :: "int \<Rightarrow> nat option"
  sc_quantum :: int
  sc_cursor :: nat
  sc_active :: int
  sc_current :: "nat option"
  sc_budget :: int

datatype sched_error =
    QuantumNotPositive int
  | NegativeSchedulerID int
  | InvalidWeight int int
  | DuplicateSchedulerID int
  | MaxBytesNotPositive int
  | TurnNotCommitted int
  | CursorPanic
  | NoActiveTurn
  | CommitMismatch int int
  | UsedOutsideBudget int int int
  | NoProgress int

definition add_stream ::
  "WeightedStream \<Rightarrow> WeightedScheduler \<Rightarrow> (sched_error, WeightedScheduler) result" where
  "add_stream w s =
     (if wstream_id w < 0 then Inl (NegativeSchedulerID (wstream_id w))
      else if wstream_weight w \<le> 0 then Inl (InvalidWeight (wstream_id w) (wstream_weight w))
      else if sc_byID s (wstream_id w) \<noteq> None then Inl (DuplicateSchedulerID (wstream_id w))
      else Inr (s\<lparr>sc_streams := sc_streams s @
                    [\<lparr>ws_id = wstream_id w, ws_weight = wstream_weight w, ws_deficit = 0, ws_active = True\<rparr>],
                  sc_byID := (sc_byID s)(wstream_id w \<mapsto> length (sc_streams s)),
                  sc_active := sc_active s + 1\<rparr>))"

definition NewWeightedScheduler ::
  "WeightedStream list \<Rightarrow> int \<Rightarrow> (sched_error, WeightedScheduler) result" where
  "NewWeightedScheduler streams quantum =
     (if quantum \<le> 0 then Inl (QuantumNotPositive quantum)
      else foldM add_stream streams
        \<lparr>sc_streams = [], sc_byID = Map.empty, sc_quantum = quantum, sc_cursor = 0,
         sc_active = 0, sc_current = None, sc_budget = 0\<rparr>)"

definition advance :: "WeightedScheduler \<Rightarrow> WeightedScheduler" where
  "advance s = (if length (sc_streams s) = 0 then s
                else s\<lparr>sc_cursor := (sc_cursor s + 1) mod length (sc_streams s)\<rparr>)"

text \<open>What \<open>Next\<close> does at an active stream: top the deficit up when it is used up, grant a budget.\<close>

definition topped_up :: "int \<Rightarrow> weightedState \<Rightarrow> int" where
  "topped_up quantum st =
     (if ws_deficit st \<le> 0 then add64 (ws_deficit st) (mul64 quantum (ws_weight st)) else ws_deficit st)"

definition grant :: "WeightedScheduler \<Rightarrow> int \<Rightarrow> WeightedScheduler \<times> Turn" where
  "grant s maxBytes =
     (let c = sc_cursor s; st = sc_streams s ! c; d = topped_up (sc_quantum s) st; budget = min maxBytes d
      in (s\<lparr>sc_streams := (sc_streams s)[c := st\<lparr>ws_deficit := d\<rparr>],
             sc_current := Some c, sc_budget := budget\<rparr>,
          \<lparr>turn_stream = ws_id st, turn_budget = budget, turn_ok = True\<rparr>))"

partial_function (option) next_loop ::
  "WeightedScheduler \<Rightarrow> int \<Rightarrow> (sched_error, WeightedScheduler \<times> Turn) result option" where
  "next_loop s maxBytes =
     (if sc_cursor s \<ge> length (sc_streams s) then Some (Inl CursorPanic)
      else if \<not> ws_active (sc_streams s ! sc_cursor s) then next_loop (advance s) maxBytes
      else Some (Inr (grant s maxBytes)))"

definition Next ::
  "WeightedScheduler \<Rightarrow> int \<Rightarrow> (sched_error, WeightedScheduler \<times> Turn) result option" where
  "Next s maxBytes =
     (if maxBytes \<le> 0 then Some (Inl (MaxBytesNotPositive maxBytes))
      else case sc_current s of
          Some c \<Rightarrow> Some (Inl (TurnNotCommitted (ws_id (sc_streams s ! c))))
        | None \<Rightarrow>
            if sc_active s = 0 then
              Some (Inr (s, \<lparr>turn_stream = 0, turn_budget = 0, turn_ok = False\<rparr>))
            else next_loop s maxBytes)"

declare next_loop.simps [code]

definition Commit ::
  "WeightedScheduler \<Rightarrow> int \<Rightarrow> int \<Rightarrow> bool \<Rightarrow> (sched_error, WeightedScheduler) result" where
  "Commit s streamID usedBytes done =
     (case sc_current s of
        None \<Rightarrow> Inl NoActiveTurn
      | Some c \<Rightarrow>
          let st = sc_streams s ! c in
          if ws_id st \<noteq> streamID then Inl (CommitMismatch streamID (ws_id st))
          else if usedBytes < 0 \<or> usedBytes > sc_budget s then
            Inl (UsedOutsideBudget streamID usedBytes (sc_budget s))
          else if usedBytes = 0 \<and> \<not> done then Inl (NoProgress streamID)
          else
            let d = sub64 (ws_deficit st) usedBytes;
                st' = (if done then st\<lparr>ws_active := False, ws_deficit := 0\<rparr> else st\<lparr>ws_deficit := d\<rparr>);
                active = (if done then sc_active s - 1 else sc_active s);
                adv = (done \<or> ws_deficit st' \<le> 0 \<or> usedBytes < sc_budget s);
                s' = s\<lparr>sc_streams := (sc_streams s)[c := st'], sc_active := active,
                       sc_current := None, sc_budget := 0\<rparr>
            in Inr (if adv \<and> active > 0 then advance s' else s'))"

section \<open>Invariant\<close>

definition stream_ok :: "int \<Rightarrow> weightedState \<Rightarrow> bool" where
  "stream_ok q st \<longleftrightarrow> 0 < ws_weight st \<and> q * ws_weight st \<le> max_i64 \<and>
     0 \<le> ws_deficit st \<and> ws_deficit st \<le> q * ws_weight st \<and> (\<not> ws_active st \<longrightarrow> ws_deficit st = 0)"

definition sched_inv :: "WeightedScheduler \<Rightarrow> bool" where
  "sched_inv s \<longleftrightarrow>
     0 < sc_quantum s \<and> list_all (stream_ok (sc_quantum s)) (sc_streams s) \<and>
     distinct (map ws_id (sc_streams s)) \<and>
     sc_active s = int (length (filter ws_active (sc_streams s))) \<and>
     (sc_streams s \<noteq> [] \<longrightarrow> sc_cursor s < length (sc_streams s)) \<and>
     (\<forall>c. sc_current s = Some c \<longrightarrow> c = sc_cursor s \<and> c < length (sc_streams s) \<and>
        ws_active (sc_streams s ! c) \<and> 0 < sc_budget s \<and> sc_budget s \<le> ws_deficit (sc_streams s ! c))"

text \<open>Allowance of a stream per round, and what is left of it in the current one.\<close>

definition allowance :: "int \<Rightarrow> weightedState \<Rightarrow> int" where
  "allowance q st = q * ws_weight st"

definition left_over :: "int \<Rightarrow> weightedState \<Rightarrow> int" where
  "left_over q st =
     (if \<not> ws_active st then 0 else if ws_deficit st \<le> 0 then allowance q st else ws_deficit st)"

lemma topped_up_eq:
  assumes "0 < q" "stream_ok q st" "ws_active st"
  shows "topped_up q st = left_over q st"
proof (cases "ws_deficit st = 0")
  case True
  have "0 < q * ws_weight st" using assms(1,2) by (simp add: stream_ok_def)
  with assms(2) have "in_i64 (q * ws_weight st)" by (auto simp: stream_ok_def in_i64_def)
  with True assms show ?thesis
    by (simp add: topped_up_def left_over_def allowance_def mul64_id add64_id)
next
  case False
  with assms(2,3) show ?thesis by (simp add: topped_up_def left_over_def stream_ok_def)
qed

lemma left_over_bounds:
  assumes "0 < q" "stream_ok q st"
  shows "0 \<le> left_over q st \<and> left_over q st \<le> allowance q st"
    and "ws_active st \<Longrightarrow> 0 < left_over q st"
  using assms by (auto simp: left_over_def stream_ok_def allowance_def)

lemma active_count_upd:
  assumes "c < length xs" "ws_active (xs ! c)"
  shows "length (filter ws_active (xs[c := y])) =
    (if ws_active y then length (filter ws_active xs) else length (filter ws_active xs) - 1)"
proof -
  from assms(1) have "xs = take c xs @ xs ! c # drop (Suc c) xs" by (simp add: id_take_nth_drop)
  then have "length (filter ws_active xs) = length (filter ws_active (take c xs @ xs ! c # drop (Suc c) xs))"
    by simp
  with assms show ?thesis by (simp add: upd_conv_take_nth_drop)
qed

lemma stream_ok_nth: "sched_inv s \<Longrightarrow> c < length (sc_streams s) \<Longrightarrow> stream_ok (sc_quantum s) (sc_streams s ! c)"
  by (simp add: sched_inv_def list_all_length)

lemma list_all_upd: "list_all P xs \<Longrightarrow> P y \<Longrightarrow> list_all P (xs[c := y])"
  by (auto simp: list_all_iff dest: set_update_subset_insert [THEN subsetD])

lemma map_ws_id_upd:
  "ws_id y = ws_id (xs ! c) \<Longrightarrow> map ws_id (xs[c := y]) = map ws_id xs"
  by (metis list_update_id map_update)

lemma advance_simps [simp]:
  "sc_streams (advance s) = sc_streams s" "sc_quantum (advance s) = sc_quantum s"
  "sc_active (advance s) = sc_active s" "sc_current (advance s) = sc_current s"
  "sc_budget (advance s) = sc_budget s" "sc_byID (advance s) = sc_byID s"
  by (simp_all add: advance_def)

lemma sched_inv_cursor:
  assumes "sched_inv s" "sc_current s = None" "sc_streams s \<noteq> [] \<Longrightarrow> c < length (sc_streams s)"
  shows "sched_inv (s\<lparr>sc_cursor := c\<rparr>)"
  using assms by (simp add: sched_inv_def)

lemma sched_inv_advance: "sched_inv s \<Longrightarrow> sc_current s = None \<Longrightarrow> sched_inv (advance s)"
  by (simp add: advance_def sched_inv_cursor)

lemma new_scheduler_inv:
  assumes "NewWeightedScheduler ws q = Inr s" "\<forall>w\<in>set ws. q * wstream_weight w \<le> max_i64"
  shows "sched_inv s \<and> sc_current s = None \<and> sc_quantum s = q"
proof -
  let ?P = "\<lambda>s. sched_inv s \<and> sc_current s = None \<and> sc_quantum s = q \<and> sc_cursor s = 0 \<and>
    dom (sc_byID s) = ws_id ` set (sc_streams s)"
  have "?P s"
    using assms(1) unfolding NewWeightedScheduler_def
  proof (cases "q \<le> 0", simp, simp, elim foldM_invariant)
    show "?P \<lparr>sc_streams = [], sc_byID = Map.empty, sc_quantum = q, sc_cursor = 0,
         sc_active = 0, sc_current = None, sc_budget = 0\<rparr>" if "\<not> q \<le> 0"
      using that by (simp add: sched_inv_def)
    fix w u u'
    assume w: "w \<in> set ws" and u: "?P u" and step: "add_stream w u = Inr u'" and "\<not> q \<le> 0"
    from step have "wstream_id w \<notin> dom (sc_byID u)" by (auto simp: add_stream_def split: if_splits)
    with u have fresh: "wstream_id w \<notin> ws_id ` set (sc_streams u)" by simp
    from step have weight: "0 < wstream_weight w" and
      u': "u' = u\<lparr>sc_streams := sc_streams u @
             [\<lparr>ws_id = wstream_id w, ws_weight = wstream_weight w, ws_deficit = 0, ws_active = True\<rparr>],
           sc_byID := (sc_byID u)(wstream_id w \<mapsto> length (sc_streams u)), sc_active := sc_active u + 1\<rparr>"
      by (auto simp: add_stream_def split: if_splits)
    have "stream_ok q \<lparr>ws_id = wstream_id w, ws_weight = wstream_weight w, ws_deficit = 0, ws_active = True\<rparr>"
      using weight w assms(2) \<open>\<not> q \<le> 0\<close> by (simp add: stream_ok_def)
    with u fresh show "?P u'" unfolding u' by (elim conjE) (simp add: sched_inv_def)
  qed
  then show ?thesis by simp
qed

section \<open>Next returns\<close>

lemma grant_ok:
  assumes "sched_inv s" "sc_current s = None" "0 < m" "sc_cursor s < length (sc_streams s)"
    and "ws_active (sc_streams s ! sc_cursor s)" and "grant s m = (s', t)"
  shows "sched_inv s' \<and> sc_current s' = Some (sc_cursor s) \<and> turn_ok t \<and>
    turn_stream t = ws_id (sc_streams s ! sc_cursor s) \<and>
    turn_budget t = min m (left_over (sc_quantum s) (sc_streams s ! sc_cursor s))"
    and "s' = s\<lparr>sc_streams := (sc_streams s)[sc_cursor s := (sc_streams s ! sc_cursor s)
             \<lparr>ws_deficit := left_over (sc_quantum s) (sc_streams s ! sc_cursor s)\<rparr>],
           sc_current := Some (sc_cursor s), sc_budget := turn_budget t\<rparr>"
proof -
  let ?q = "sc_quantum s" let ?st = "sc_streams s ! sc_cursor s"
  have q: "0 < ?q" and ok: "stream_ok ?q ?st"
    using assms(1,4) stream_ok_nth by (auto simp: sched_inv_def)
  have t: "topped_up ?q ?st = left_over ?q ?st" using q ok assms(5) by (rule topped_up_eq)
  have lo: "0 < left_over ?q ?st" "left_over ?q ?st \<le> allowance ?q ?st"
    using left_over_bounds [OF q ok] assms(5) by auto
  then have ok': "stream_ok ?q (?st\<lparr>ws_deficit := left_over ?q ?st\<rparr>)"
    using ok assms(5) by (simp add: stream_ok_def allowance_def)
  show "s' = s\<lparr>sc_streams := (sc_streams s)[sc_cursor s := ?st\<lparr>ws_deficit := left_over ?q ?st\<rparr>],
           sc_current := Some (sc_cursor s), sc_budget := turn_budget t\<rparr>"
    using assms(6) t by (auto simp: grant_def Let_def)
  show "sched_inv s' \<and> sc_current s' = Some (sc_cursor s) \<and> turn_ok t \<and>
      turn_stream t = ws_id ?st \<and> turn_budget t = min m (left_over ?q ?st)"
    using assms t lo ok'
    by (auto simp: grant_def Let_def sched_inv_def active_count_upd map_ws_id_upd list_all_upd)
qed

lemma next_loop_finds:
  assumes "sc_cursor s < length (sc_streams s)" "ws_active (sc_streams s ! ((sc_cursor s + k) mod length (sc_streams s)))"
    and "\<forall>k'<k. \<not> ws_active (sc_streams s ! ((sc_cursor s + k') mod length (sc_streams s)))"
  shows "next_loop s m = Some (Inr (grant (s\<lparr>sc_cursor := (sc_cursor s + k) mod length (sc_streams s)\<rparr>) m))"
  using assms
proof (induction k arbitrary: s)
  case 0
  then show ?case by (simp add: next_loop.simps [of s])
next
  case (Suc k)
  let ?n = "length (sc_streams s)"
  have n: "0 < ?n" using Suc.prems(1) by linarith
  have adv: "advance s = s\<lparr>sc_cursor := (sc_cursor s + 1) mod ?n\<rparr>" using n by (simp add: advance_def)
  have shift: "((sc_cursor s + Suc 0) mod ?n + k') mod ?n = (sc_cursor s + Suc k') mod ?n" for k'
    by (simp add: mod_add_left_eq)
  have "\<not> ws_active (sc_streams s ! sc_cursor s)" using Suc.prems(1,3) by (metis add_0_right mod_less zero_less_Suc)
  then have "next_loop s m = next_loop (advance s) m" using Suc.prems(1) by (simp add: next_loop.simps [of s])
  also have "\<dots> = Some (Inr (grant (s\<lparr>sc_cursor := (sc_cursor s + Suc k) mod ?n\<rparr>) m))"
    using Suc.IH [of "advance s"] Suc.prems n by (simp add: adv shift del: mod_add_left_eq add_Suc_right)
  finally show ?case .
qed

lemma active_exists:
  assumes "sched_inv s" "sc_active s \<noteq> 0"
  obtains k where "ws_active (sc_streams s ! ((sc_cursor s + k) mod length (sc_streams s)))"
    "\<forall>k'<k. \<not> ws_active (sc_streams s ! ((sc_cursor s + k') mod length (sc_streams s)))"
proof -
  let ?n = "length (sc_streams s)"
  from assms have "filter ws_active (sc_streams s) \<noteq> []" by (auto simp: sched_inv_def)
  then obtain i where i: "i < ?n" "ws_active (sc_streams s ! i)"
    by (auto simp: filter_empty_conv in_set_conv_nth)
  with assms(1) have c: "sc_cursor s < ?n" by (auto simp: sched_inv_def)
  then have "(sc_cursor s + (?n - sc_cursor s + i)) mod ?n = i" using i(1) by simp
  with i(2) have ex: "ws_active (sc_streams s ! ((sc_cursor s + (?n - sc_cursor s + i)) mod ?n))" by simp
  let ?P = "\<lambda>k. ws_active (sc_streams s ! ((sc_cursor s + k) mod ?n))"
  show thesis
  proof (rule that)
    show "?P (LEAST k. ?P k)" using ex by (rule LeastI)
    show "\<forall>k'<LEAST k. ?P k. \<not> ?P k'" using not_less_Least [of _ ?P] by blast
  qed
qed

lemma Next_active:
  assumes "sched_inv s" "sc_current s = None" "0 < m" "sc_active s \<noteq> 0"
  obtains k s' t where
    "Next s m = Some (Inr (s', t))"
    "grant (s\<lparr>sc_cursor := (sc_cursor s + k) mod length (sc_streams s)\<rparr>) m = (s', t)"
    "(sc_cursor s + k) mod length (sc_streams s) < length (sc_streams s)"
    "ws_active (sc_streams s ! ((sc_cursor s + k) mod length (sc_streams s)))"
    "\<forall>k'<k. \<not> ws_active (sc_streams s ! ((sc_cursor s + k') mod length (sc_streams s)))"
proof -
  obtain k where k: "ws_active (sc_streams s ! ((sc_cursor s + k) mod length (sc_streams s)))"
    "\<forall>k'<k. \<not> ws_active (sc_streams s ! ((sc_cursor s + k') mod length (sc_streams s)))"
    using active_exists [OF assms(1,4)] by blast
  have "sc_streams s \<noteq> []" using assms(1,4) by (auto simp: sched_inv_def)
  with assms(1) have c: "sc_cursor s < length (sc_streams s)" by (simp add: sched_inv_def)
  obtain s' t where g: "grant (s\<lparr>sc_cursor := (sc_cursor s + k) mod length (sc_streams s)\<rparr>) m = (s', t)"
    by (metis surj_pair)
  with next_loop_finds [OF c k] assms have "Next s m = Some (Inr (s', t))" by (simp add: Next_def)
  moreover have "(sc_cursor s + k) mod length (sc_streams s) < length (sc_streams s)"
    using c by (intro mod_less_divisor) linarith
  ultimately show thesis using that g k by blast
qed


section \<open>Fairness\<close>

text \<open>
  \<open>ahead i s\<close> is what the streams between the cursor and stream \<open>i\<close> may still send before the
  cursor reaches \<open>i\<close>: what is left of their allowances, summed in cursor order.
\<close>

definition dist :: "nat \<Rightarrow> WeightedScheduler \<Rightarrow> nat" where
  "dist i s = (i + length (sc_streams s) - sc_cursor s) mod length (sc_streams s)"

definition ahead :: "nat \<Rightarrow> WeightedScheduler \<Rightarrow> int" where
  "ahead i s = (\<Sum>k<dist i s. left_over (sc_quantum s)
                  (sc_streams s ! ((sc_cursor s + k) mod length (sc_streams s))))"

lemma dist_advance:
  assumes "i < length (sc_streams s)" "sc_cursor s < length (sc_streams s)" "sc_cursor s \<noteq> i"
  shows "dist i s = Suc (dist i (advance s))"
proof -
  let ?n = "length (sc_streams s)" let ?c = "sc_cursor s"
  have n: "0 < ?n" using assms(1) by linarith
  show ?thesis
  proof (cases "?c + 1 < ?n")
    case True
    then have "dist i (advance s) = (i + ?n - (?c + 1)) mod ?n" using n by (simp add: dist_def advance_def)
    moreover have "(i + ?n - ?c) mod ?n = Suc ((i + ?n - (?c + 1)) mod ?n)"
    proof (cases "?c < i")
      case True
      then have "(i + ?n - ?c) mod ?n = i - ?c" "(i + ?n - (?c + 1)) mod ?n = i - (?c + 1)"
        using assms mod_add_self2 [of "i - ?c" ?n] mod_add_self2 [of "i - (?c + 1)" ?n]
        by (simp_all del: mod_add_self2)
      with True show ?thesis by simp
    next
      case False
      with assms show ?thesis by simp
    qed
    ultimately show ?thesis by (simp add: dist_def)
  next
    case False
    with assms have c: "?c = ?n - 1" by linarith
    then have "dist i (advance s) = i" using n assms(1) by (simp add: dist_def advance_def)
    moreover have "dist i s = Suc i" using c assms n by (simp add: dist_def)
    ultimately show ?thesis by simp
  qed
qed

lemma ahead_advance:
  assumes "i < length (sc_streams s)" "sc_cursor s < length (sc_streams s)" "sc_cursor s \<noteq> i"
  shows "ahead i s = left_over (sc_quantum s) (sc_streams s ! sc_cursor s) + ahead i (advance s)"
proof -
  let ?n = "length (sc_streams s)"
  have n: "0 < ?n" using assms(1) by linarith
  let ?f = "\<lambda>k. left_over (sc_quantum s) (sc_streams s ! ((sc_cursor s + k) mod ?n))"
  have "ahead i s = ?f 0 + (\<Sum>k<dist i (advance s). ?f (Suc k))"
    by (simp only: ahead_def dist_advance [OF assms] sum.lessThan_Suc_shift)
  also have "(\<Sum>k<dist i (advance s). ?f (Suc k)) = ahead i (advance s)"
    using n by (simp add: ahead_def advance_def mod_add_left_eq)
  finally show ?thesis using assms(2) by simp
qed

lemma ahead_skip:
  assumes "i < length (sc_streams s)" "sc_cursor s < length (sc_streams s)" "ws_active (sc_streams s ! i)"
    and "\<forall>k'<k. \<not> ws_active (sc_streams s ! ((sc_cursor s + k') mod length (sc_streams s)))"
  shows "ahead i (s\<lparr>sc_cursor := (sc_cursor s + k) mod length (sc_streams s)\<rparr>) = ahead i s"
  using assms
proof (induction k arbitrary: s)
  case (Suc k)
  let ?n = "length (sc_streams s)"
  have n: "0 < ?n" using Suc.prems(1) by linarith
  have inact: "\<not> ws_active (sc_streams s ! sc_cursor s)"
    using Suc.prems(2,4) by (metis add_0_right mod_less zero_less_Suc)
  then have "sc_cursor s \<noteq> i" using Suc.prems(3) by auto
  with ahead_advance [OF Suc.prems(1,2)] inact have "ahead i s = ahead i (advance s)"
    by (simp add: left_over_def)
  moreover have "ahead i ((advance s)\<lparr>sc_cursor := (sc_cursor (advance s) + k) mod ?n\<rparr>) = ahead i (advance s)"
  proof -
    have "\<not> ws_active (sc_streams s ! (Suc (sc_cursor s + k') mod ?n))" if "k' < k" for k'
      using Suc.prems(4) that by (metis Suc_less_eq add_Suc_right)
    then show ?thesis using Suc.IH [of "advance s"] Suc.prems(1-3) n
      by (simp add: advance_def mod_add_left_eq)
  qed
  ultimately show ?case using n by (simp add: advance_def mod_add_left_eq)
qed simp

lemma ahead_upd:
  assumes "i < length (sc_streams s)" "sc_cursor s < length (sc_streams s)" "sc_cursor s \<noteq> i"
  shows "ahead i (s\<lparr>sc_streams := (sc_streams s)[sc_cursor s := y], sc_active := a, sc_current := cu, sc_budget := b\<rparr>)
    = ahead i s - left_over (sc_quantum s) (sc_streams s ! sc_cursor s) + left_over (sc_quantum s) y"
proof -
  let ?s' = "s\<lparr>sc_streams := (sc_streams s)[sc_cursor s := y], sc_active := a, sc_current := cu, sc_budget := b\<rparr>"
  let ?n = "length (sc_streams s)"
  have n: "0 < ?n" using assms(1) by linarith
  have d: "dist i (advance ?s') = dist i (advance s)" using n by (simp add: dist_def advance_def)
  have "sc_cursor s \<noteq> (Suc (sc_cursor s) mod ?n + k) mod ?n" if "k < dist i (advance s)" for k
  proof -
    have "Suc k < ?n" using that dist_advance [OF assms] n unfolding dist_def [of i s]
      by (metis Suc_lessI mod_less_divisor not_less_eq order.strict_trans)
    then have "sc_cursor s \<noteq> (sc_cursor s + Suc k) mod ?n" using assms(2)
      by (cases "sc_cursor s + Suc k < ?n") (auto simp: mod_if)
    then show ?thesis by (simp add: mod_add_left_eq)
  qed
  then have "ahead i (advance ?s') = ahead i (advance s)"
    unfolding ahead_def d using n by (intro sum.cong) (auto simp: advance_def)
  with ahead_advance [of i ?s'] ahead_advance [OF assms] assms show ?thesis by simp
qed

text \<open>One turn: \<open>Next\<close>, then the \<open>Commit\<close> of what was sent.\<close>

definition turn ::
  "WeightedScheduler \<Rightarrow> int \<Rightarrow> int \<Rightarrow> bool \<Rightarrow> (int \<times> WeightedScheduler) option" where
  "turn s maxBytes used done =
     (case Next s maxBytes of
        Some (Inr (s', t)) \<Rightarrow>
          if turn_ok t then
            (case Commit s' (turn_stream t) used done of Inr s'' \<Rightarrow> Some (turn_stream t, s'') | Inl _ \<Rightarrow> None)
          else None
      | _ \<Rightarrow> None)"

inductive turns :: "WeightedScheduler \<Rightarrow> (int \<times> int) list \<Rightarrow> WeightedScheduler \<Rightarrow> bool" where
  turns_none: "turns s [] s"
| turns_more: "turns s us s' \<Longrightarrow> turn s' m used done = Some (sid, s'') \<Longrightarrow>
    turns s (us @ [(sid, used)]) s''"


text \<open>A committed turn, with the state \<open>Next\<close> left, in one equation.\<close>

lemma Commit_Inr:
  assumes "Commit s sid used done = Inr s'" "sc_current s = Some c"
  shows "ws_id (sc_streams s ! c) = sid" "0 \<le> used" "used \<le> sc_budget s" "used = 0 \<Longrightarrow> done"
    "s' = (let st = sc_streams s ! c;
               st' = (if done then st\<lparr>ws_active := False, ws_deficit := 0\<rparr>
                      else st\<lparr>ws_deficit := sub64 (ws_deficit st) used\<rparr>);
               active = (if done then sc_active s - 1 else sc_active s);
               t = s\<lparr>sc_streams := (sc_streams s)[c := st'], sc_active := active,
                     sc_current := None, sc_budget := 0\<rparr>
           in if (done \<or> ws_deficit st' \<le> 0 \<or> used < sc_budget s) \<and> active > 0 then advance t else t)"
  using assms by (auto simp: Commit_def Let_def split: if_splits)

lemma commit_inv:
  assumes "sched_inv s" "sc_current s = Some c" "Commit s sid used done = Inr s'"
  shows "sched_inv s' \<and> sc_current s' = None \<and> sc_quantum s' = sc_quantum s
    \<and> map ws_id (sc_streams s') = map ws_id (sc_streams s)
    \<and> map ws_weight (sc_streams s') = map ws_weight (sc_streams s)"
proof -
  note com = Commit_Inr [OF assms(3,2)]
  let ?st = "sc_streams s ! c"
  define st' where "st' = (if done then ?st\<lparr>ws_active := False, ws_deficit := 0\<rparr>
                           else ?st\<lparr>ws_deficit := sub64 (ws_deficit ?st) used\<rparr>)"
  define active where "active = (if done then sc_active s - 1 else sc_active s)"
  define t where "t = s\<lparr>sc_streams := (sc_streams s)[c := st'], sc_active := active,
                        sc_current := None, sc_budget := 0\<rparr>"
  have c: "c = sc_cursor s" "c < length (sc_streams s)" "ws_active ?st" "used \<le> ws_deficit ?st"
    using assms(1,2) com(3) by (auto simp: sched_inv_def)
  have ok: "stream_ok (sc_quantum s) ?st" using assms(1) c(2) by (rule stream_ok_nth)
  have "in_i64 (ws_deficit ?st - used)" using ok c(4) com(2) by (auto simp: stream_ok_def in_i64_def)
  then have ok': "stream_ok (sc_quantum s) st'"
    using ok c(3,4) com(2) by (auto simp: st'_def stream_ok_def sub64_id)
  have id: "ws_id st' = ws_id ?st" "ws_weight st' = ws_weight ?st" by (simp_all add: st'_def)
  have "0 < length (filter ws_active (sc_streams s))"
    using c(2,3) by (auto simp: filter_empty_conv)
  then have "int (length (filter ws_active (sc_streams s)) - 1) = int (length (filter ws_active (sc_streams s))) - 1"
    by linarith
  then have "sc_active t = int (length (filter ws_active (sc_streams t)))"
    using assms(1) c(2,3) by (auto simp: t_def active_def active_count_upd st'_def sched_inv_def)
  then have t: "sched_inv t"
    using assms(1) ok' id c(2) by (simp add: t_def sched_inv_def list_all_upd map_ws_id_upd)
  have "map ws_weight ((sc_streams s)[c := st']) = map ws_weight (sc_streams s)"
    using id(2) by (metis list_update_id map_update)
  moreover have "s' = t \<or> s' = advance t"
    using com(5) by (simp add: t_def st'_def active_def Let_def)
  ultimately show ?thesis using t sched_inv_advance [OF t] id
    by (auto simp: t_def map_ws_id_upd)
qed

lemma turn_cases:
  assumes "sched_inv s" "sc_current s = None" "turn s m used done = Some (sid, s')"
  obtains k c s1 where
    "c = (sc_cursor s + k) mod length (sc_streams s)" "c < length (sc_streams s)"
    "ws_active (sc_streams s ! c)" "sid = ws_id (sc_streams s ! c)"
    "\<forall>k'<k. \<not> ws_active (sc_streams s ! ((sc_cursor s + k') mod length (sc_streams s)))"
    "s1 = s\<lparr>sc_cursor := c, sc_streams := (sc_streams s)[c := (sc_streams s ! c)
             \<lparr>ws_deficit := left_over (sc_quantum s) (sc_streams s ! c)\<rparr>],
           sc_current := Some c, sc_budget := min m (left_over (sc_quantum s) (sc_streams s ! c))\<rparr>"
    "sched_inv s1" "sc_current s1 = Some c" "Commit s1 sid used done = Inr s'"
proof -
  from assms(2,3) have m: "0 < m" and act: "sc_active s \<noteq> 0"
    by (auto simp: turn_def Next_def split: if_splits)
  obtain k s1 t where n: "Next s m = Some (Inr (s1, t))"
    and g: "grant (s\<lparr>sc_cursor := (sc_cursor s + k) mod length (sc_streams s)\<rparr>) m = (s1, t)"
    and k: "(sc_cursor s + k) mod length (sc_streams s) < length (sc_streams s)"
      "ws_active (sc_streams s ! ((sc_cursor s + k) mod length (sc_streams s)))"
      "\<forall>k'<k. \<not> ws_active (sc_streams s ! ((sc_cursor s + k') mod length (sc_streams s)))"
    using Next_active [OF assms(1,2) m act] by metis
  define c where "c = (sc_cursor s + k) mod length (sc_streams s)"
  let ?s = "s\<lparr>sc_cursor := c\<rparr>"
  have inv: "sched_inv ?s" using assms(1,2) k(1) by (intro sched_inv_cursor) (auto simp: c_def)
  have pre: "sc_current ?s = None" "sc_cursor ?s < length (sc_streams ?s)"
    "ws_active (sc_streams ?s ! sc_cursor ?s)" using assms(2) k by (simp_all add: c_def)
  note gr = grant_ok [OF inv pre(1) m pre(2,3) g [folded c_def]]
  have t: "turn_ok t" "turn_stream t = ws_id (sc_streams s ! c)"
    "turn_budget t = min m (left_over (sc_quantum s) (sc_streams s ! c))" using gr(1) by simp_all
  have s1: "sched_inv s1" "sc_current s1 = Some c"
    using gr(1) by simp_all
  have "s1 = s\<lparr>sc_cursor := c, sc_streams := (sc_streams s)[c := (sc_streams s ! c)
             \<lparr>ws_deficit := left_over (sc_quantum s) (sc_streams s ! c)\<rparr>],
           sc_current := Some c, sc_budget := turn_budget t\<rparr>"
    using gr(2) by simp
  moreover from assms(3) n t(1) have "Commit s1 (turn_stream t) used done = Inr s' \<and> sid = turn_stream t"
    by (simp add: turn_def split: sum.splits)
  ultimately show thesis using that [of c k s1] k s1 t unfolding c_def by simp
qed

lemma turn_inv:
  assumes "sched_inv s" "sc_current s = None" "turn s m used done = Some (sid, s')"
  shows "sched_inv s' \<and> sc_current s' = None \<and> sc_quantum s' = sc_quantum s
    \<and> map ws_id (sc_streams s') = map ws_id (sc_streams s)
    \<and> map ws_weight (sc_streams s') = map ws_weight (sc_streams s)"
proof (rule turn_cases [OF assms])
  fix k c s1
  assume s1: "s1 = s\<lparr>sc_cursor := c, sc_streams := (sc_streams s)[c := (sc_streams s ! c)
             \<lparr>ws_deficit := left_over (sc_quantum s) (sc_streams s ! c)\<rparr>],
           sc_current := Some c, sc_budget := min m (left_over (sc_quantum s) (sc_streams s ! c))\<rparr>"
    and inv: "sched_inv s1" "sc_current s1 = Some c" "Commit s1 sid used done = Inr s'"
  have "map ws_id (sc_streams s1) = map ws_id (sc_streams s)" by (simp add: s1 map_ws_id_upd)
  moreover have "map ws_weight (sc_streams s1) = map ws_weight (sc_streams s)"
    by (simp add: s1 map_update) (metis list_update_id map_update)
  moreover have "sc_quantum s1 = sc_quantum s" by (simp add: s1)
  ultimately show ?thesis using commit_inv [OF inv] by simp
qed

text \<open>
  A turn of another stream costs stream \<open>i\<close> no more waiting room than the bytes it sent:
  they come out of what was ahead of \<open>i\<close>.
\<close>

lemma turn_ahead:
  assumes "sched_inv s" "sc_current s = None" "turn s m used done = Some (sid, s')"
    and "i < length (sc_streams s)" "ws_active (sc_streams s ! i)" "ws_active (sc_streams s' ! i)"
    and "sid \<noteq> ws_id (sc_streams s ! i)"
  shows "used + ahead i s' \<le> ahead i s"
proof (rule turn_cases [OF assms(1-3)])
  fix k c s1
  let ?q = "sc_quantum s" let ?st = "sc_streams s ! c" let ?lo = "left_over ?q ?st"
  assume c: "c = (sc_cursor s + k) mod length (sc_streams s)" "c < length (sc_streams s)" "ws_active ?st"
      "sid = ws_id ?st"
      "\<forall>k'<k. \<not> ws_active (sc_streams s ! ((sc_cursor s + k') mod length (sc_streams s)))"
    and s1: "s1 = s\<lparr>sc_cursor := c, sc_streams := (sc_streams s)[c := ?st\<lparr>ws_deficit := ?lo\<rparr>],
           sc_current := Some c, sc_budget := min m ?lo\<rparr>"
    and inv: "sched_inv s1" "sc_current s1 = Some c" "Commit s1 sid used done = Inr s'"
  note com = Commit_Inr [OF inv(3,2)]
  have ne: "c \<noteq> i" using c(4) assms(7) by auto
  have q: "0 < ?q" and ok: "stream_ok ?q ?st" using assms(1) c(2) stream_ok_nth by (auto simp: sched_inv_def)
  note lo = left_over_bounds [OF q ok]
  have cur: "sc_cursor s < length (sc_streams s)" using assms(1,4) by (auto simp: sched_inv_def)
  have a0: "ahead i (s\<lparr>sc_cursor := c\<rparr>) = ahead i s"
    unfolding c(1) by (rule ahead_skip [OF assms(4) cur assms(5) c(5)])
  have "ws_deficit (sc_streams s1 ! c) = ?lo" using c(2) by (simp add: s1)
  define st' where "st' = (if done then (sc_streams s1 ! c)\<lparr>ws_active := False, ws_deficit := 0\<rparr>
                           else (sc_streams s1 ! c)\<lparr>ws_deficit := sub64 ?lo used\<rparr>)"
  define active where "active = (if done then sc_active s - 1 else sc_active s)"
  define t where "t = s\<lparr>sc_cursor := c, sc_streams := (sc_streams s)[c := st'], sc_active := active,
                        sc_current := None, sc_budget := 0\<rparr>"
  have used: "0 \<le> used" "used \<le> ?lo" using com(2,3) by (auto simp: s1)
  have sub: "sub64 ?lo used = ?lo - used"
    using used lo(1) ok by (intro sub64_id) (auto simp: in_i64_def stream_ok_def allowance_def)
  have parts: "sc_budget s1 = min m ?lo" "sc_active s1 = sc_active s"
    "ws_deficit (sc_streams s1 ! c) = ?lo" using c(2) by (simp_all add: s1)
  have upd: "s1\<lparr>sc_streams := (sc_streams s1)[c := x], sc_active := a, sc_current := None, sc_budget := 0\<rparr>
      = s\<lparr>sc_cursor := c, sc_streams := (sc_streams s)[c := x], sc_active := a, sc_current := None,
          sc_budget := 0\<rparr>" for x a by (simp add: s1)
  have s': "s' = (if (done \<or> ws_deficit st' \<le> 0 \<or> used < min m ?lo) \<and> active > 0 then advance t else t)"
    using com(5) unfolding Let_def parts upd t_def [symmetric] st'_def [symmetric] active_def [symmetric] .
  have at: "ahead i t = ahead i s - ?lo + left_over ?q st'"
    using ahead_upd [where s = "s\<lparr>sc_cursor := c\<rparr>" and i = i and y = st' and a = active and cu = None and b = 0] assms(4) c(2) ne a0 by (simp add: t_def)
  have "active > 0"
  proof -
    have "ws_active (sc_streams t ! i)" using assms(5) ne by (simp add: t_def)
    moreover have "sched_inv s'" using commit_inv [OF inv] by simp
    moreover have "sc_streams s' = sc_streams t" "sc_active s' = active" by (simp_all add: s' t_def)
    ultimately show ?thesis using assms(4) by (auto simp: sched_inv_def filter_empty_conv t_def)
  qed
  moreover have "ahead i (advance t) = ahead i t - left_over ?q st'"
    using ahead_advance [of i t] assms(4) c(2) ne by (simp add: t_def)
  moreover have "left_over ?q st' = ?lo - used" if "\<not> (done \<or> ws_deficit st' \<le> 0)"
  proof -
    have "ws_active st'" using that c(2,3) by (simp add: s1 st'_def)
    with that have "left_over ?q st' = ws_deficit st'" by (simp add: left_over_def)
    also have "\<dots> = ?lo - used" using that sub by (simp add: st'_def)
    finally show ?thesis .
  qed
  ultimately show ?thesis using used at by (auto simp: s')
qed

lemma active_stays:
  assumes "sched_inv s" "sc_current s = None" "turn s m used done = Some (sid, s')"
    and "i < length (sc_streams s)" "ws_active (sc_streams s' ! i)"
  shows "ws_active (sc_streams s ! i)"
proof (rule turn_cases [OF assms(1-3)])
  fix k c s1
  assume "c < length (sc_streams s)" "ws_active (sc_streams s ! c)"
    and s1: "s1 = s\<lparr>sc_cursor := c, sc_streams := (sc_streams s)[c := (sc_streams s ! c)
             \<lparr>ws_deficit := left_over (sc_quantum s) (sc_streams s ! c)\<rparr>],
           sc_current := Some c, sc_budget := min m (left_over (sc_quantum s) (sc_streams s ! c))\<rparr>"
    and "sc_current s1 = Some c" "Commit s1 sid used done = Inr s'"
  with Commit_Inr(5) [of s1 sid used "done" s' c] assms(4,5) show ?thesis
    by (cases "i = c") (auto simp: Let_def s1 split: if_splits)
qed

lemma turns_ahead:
  assumes "turns s us s'" "sched_inv s" "sc_current s = None"
    and "i < length (sc_streams s)" "ws_active (sc_streams s' ! i)"
    and "\<forall>(sid, used)\<in>set us. sid \<noteq> ws_id (sc_streams s ! i)"
  shows "sched_inv s' \<and> sc_current s' = None \<and> sc_quantum s' = sc_quantum s \<and>
    map ws_id (sc_streams s') = map ws_id (sc_streams s) \<and>
    sum_list (map snd us) + ahead i s' \<le> ahead i s"
  using assms
proof (induction rule: turns.induct)
  case (turns_more s us s' m used "done" sid s'')
  have inv: "turns s us s' \<Longrightarrow> sched_inv s \<Longrightarrow> sc_current s = None \<Longrightarrow>
      sched_inv s' \<and> sc_current s' = None \<and> map ws_id (sc_streams s') = map ws_id (sc_streams s)" for s us s'
    by (induction rule: turns.induct) (auto dest: turn_inv)
  note i1 = inv [OF turns_more.hyps(1) turns_more.prems(1,2)]
  then have len: "length (sc_streams s') = length (sc_streams s)" by (metis length_map)
  have act: "ws_active (sc_streams s' ! i)"
    using active_stays [OF _ _ turns_more.hyps(2)] i1 turns_more.prems len by simp
  have IH: "sc_quantum s' = sc_quantum s" "sum_list (map snd us) + ahead i s' \<le> ahead i s"
    using turns_more.IH turns_more.prems act by auto
  have "ws_id (sc_streams s' ! i) = ws_id (sc_streams s ! i)"
    using i1 turns_more.prems(3) len by (metis nth_map)
  then have "used + ahead i s'' \<le> ahead i s'"
    using turn_ahead [OF _ _ turns_more.hyps(2)] i1 turns_more.prems act len by auto
  with IH turn_inv [OF _ _ turns_more.hyps(2)] i1 show ?case by auto
qed simp


lemma ahead_nonneg:
  assumes "sched_inv s" "i < length (sc_streams s)"
  shows "0 \<le> ahead i s"
  unfolding ahead_def
proof (rule sum_nonneg)
  fix k
  have "(sc_cursor s + k) mod length (sc_streams s) < length (sc_streams s)"
    using assms(2) by (intro mod_less_divisor) linarith
  from left_over_bounds(1) [OF _ stream_ok_nth [OF assms(1) this]] assms(1)
  show "0 \<le> left_over (sc_quantum s) (sc_streams s ! ((sc_cursor s + k) mod length (sc_streams s)))"
    by (simp add: sched_inv_def)
qed

lemma ahead_bound:
  assumes "sched_inv s" "i < length (sc_streams s)"
  shows "ahead i s \<le> (\<Sum>j\<in>{..<length (sc_streams s)} - {i}. allowance (sc_quantum s) (sc_streams s ! j))"
proof -
  let ?n = "length (sc_streams s)" let ?c = "sc_cursor s" let ?q = "sc_quantum s"
  let ?pos = "\<lambda>k. (?c + k) mod ?n"
  have q: "0 < ?q" and c: "?c < ?n" using assms by (auto simp: sched_inv_def)
  have lo: "0 \<le> allowance ?q (sc_streams s ! j)" "left_over ?q (sc_streams s ! j) \<le> allowance ?q (sc_streams s ! j)"
    if "j < ?n" for j using left_over_bounds [OF q stream_ok_nth [OF assms(1) that]] by auto
  have d: "dist i s < ?n" unfolding dist_def using c by (intro mod_less_divisor) linarith
  have "(?c + dist i s) mod ?n = (?c + (i + ?n - ?c)) mod ?n" by (simp add: dist_def mod_add_right_eq)
  also have "\<dots> = i" using assms(2) c by simp
  finally have at: "?pos (dist i s) = i" .
  have inj: "?pos k = ?pos k' \<Longrightarrow> k = k'" if "k < ?n" "k' < ?n" for k k'
  proof -
    have "?pos k = (if ?c + k < ?n then ?c + k else ?c + k - ?n)" if "k < ?n" for k
      using that c by (simp add: le_mod_geq)
    then show "?pos k = ?pos k' \<Longrightarrow> k = k'" using that c by (auto split: if_splits)
  qed
  have "?pos ` {..<dist i s} \<subseteq> {..<?n} - {i}"
  proof
    fix j assume "j \<in> ?pos ` {..<dist i s}"
    then obtain k where k: "k < dist i s" "j = ?pos k" by auto
    then have "j \<noteq> i" using at inj [of k "dist i s"] d by fastforce
    moreover have "j < ?n" unfolding k(2) using c by (intro mod_less_divisor) linarith
    ultimately show "j \<in> {..<?n} - {i}" by simp
  qed
  then have "(\<Sum>j\<in>?pos ` {..<dist i s}. allowance ?q (sc_streams s ! j))
      \<le> (\<Sum>j\<in>{..<?n} - {i}. allowance ?q (sc_streams s ! j))"
    by (intro sum_mono2) (auto intro: lo)
  moreover have "(\<Sum>j\<in>?pos ` {..<dist i s}. allowance ?q (sc_streams s ! j))
      = (\<Sum>k<dist i s. allowance ?q (sc_streams s ! ?pos k))"
    using inj d by (intro sum.reindex_cong [of ?pos]) (auto simp: inj_on_def)
  moreover have "ahead i s \<le> (\<Sum>k<dist i s. allowance ?q (sc_streams s ! ?pos k))"
    unfolding ahead_def using c by (intro sum_mono lo mod_less_divisor) linarith
  ultimately show ?thesis by linarith
qed

section \<open>Properties\<close>


text \<open>
C37: Deficit round robin is fair in bytes: however the turns of the other streams fall, while an
active stream waits for its next turn all the others together send at most one allowance
(quantum times weight) each.
\<close>

theorem scheduler_fair:
  assumes "turns s us s'" "sched_inv s" "sc_current s = None"
    and "i < length (sc_streams s)" "ws_active (sc_streams s' ! i)"
    and "\<forall>(sid, used)\<in>set us. sid \<noteq> ws_id (sc_streams s ! i)"
  shows "sum_list (map snd us) \<le>
    (\<Sum>j\<in>{..<length (sc_streams s)} - {i}. sc_quantum s * ws_weight (sc_streams s ! j))"
proof -
  note run = turns_ahead [OF assms]
  then have "length (sc_streams s') = length (sc_streams s)" by (metis length_map)
  with run assms(4) have "0 \<le> ahead i s'" by (intro ahead_nonneg) simp_all
  with run ahead_bound [OF assms(2,4)] show ?thesis by (simp add: allowance_def)
qed

definition demo_scheduler :: WeightedScheduler where
  "demo_scheduler = \<lparr>sc_streams =
     [\<lparr>ws_id = 7, ws_weight = 2, ws_deficit = 0, ws_active = True\<rparr>,
      \<lparr>ws_id = 9, ws_weight = 1, ws_deficit = 0, ws_active = True\<rparr>],
     sc_byID = [7 \<mapsto> 0, 9 \<mapsto> 1], sc_quantum = 10, sc_cursor = 0, sc_active = 2,
     sc_current = None, sc_budget = 0\<rparr>"

lemma demo_scheduler_built:
  "NewWeightedScheduler [\<lparr>wstream_id = 7, wstream_weight = 2\<rparr>, \<lparr>wstream_id = 9, wstream_weight = 1\<rparr>] 10
    = Inr demo_scheduler"
  by (simp add: NewWeightedScheduler_def add_stream_def demo_scheduler_def)

lemma demo_scheduler_inv: "sched_inv demo_scheduler"
  by (simp add: demo_scheduler_def sched_inv_def stream_ok_def)


theorem scheduler_fair_witness: "sum_list (map snd [(7::int, 16::int)]) \<le> 20"
proof -
  obtain s' where t: "turn demo_scheduler 16 16 False = Some (7, s')" and a: "ws_active (sc_streams s' ! 1)"
    by (simp add: turn_def Next_def Commit_def next_loop.simps grant_def topped_up_def Let_def
        add64_def mul64_def sub64_def wrap64_def demo_scheduler_def)
  have "turns demo_scheduler [(7, 16)] s'"
    using turns_more [OF turns_none t] by simp
  from scheduler_fair [OF this demo_scheduler_inv, of 1] a show ?thesis
    by (simp add: demo_scheduler_def lessThan_Suc numeral_2_eq_2)
qed

end
