(* ===== verification/Byte_Ranges.thy ===== *)
theory Byte_Ranges
  imports Go_Prelude
begin

text \<open>
  The interval list a receiver keeps per item (internal/transfer/ranges.go): which bytes have
  arrived, whether a new chunk overlaps them, and how long the contiguous prefix is. The
  interface \<open>coverage\<close> states what its clients (the receive store and the receiving session)
  rely on over the set of bytes received; the interval list implements it.
\<close>

record byteRange =
  range_start :: int
  range_end :: int

type_synonym byteRanges = "byteRange list"

datatype range_error = InvalidByteRange int int | OverlappingRange int int int int

definition newByteRanges :: "int \<Rightarrow> byteRanges" where
  "newByteRanges prefix = (if prefix > 0 then [\<lparr>range_start = 0, range_end = prefix\<rparr>] else [])"

text \<open>The search loop of \<open>Add\<close>.\<close>

fun insert_pos :: "byteRanges \<Rightarrow> int \<Rightarrow> nat" where
  "insert_pos [] s = 0"
| "insert_pos (r # rs) s = (if range_end r \<le> s then Suc (insert_pos rs s) else 0)"

definition Add :: "byteRanges \<Rightarrow> int \<Rightarrow> int \<Rightarrow> (range_error, byteRanges) result" where
  "Add rs s e =
     (if s < 0 \<or> e < s then Inl (InvalidByteRange s e)
      else if s = e then Inr rs
      else
        let ins = insert_pos rs s in
        if ins < length rs \<and> range_start (rs ! ins) < e \<and> s < range_end (rs ! ins) then
          Inl (OverlappingRange s e (range_start (rs ! ins)) (range_end (rs ! ins)))
        else
          let (rs, ins, ms) =
                (if ins > 0 \<and> range_end (rs ! (ins - 1)) = s
                 then (remove_at (ins - 1) rs, ins - 1, range_start (rs ! (ins - 1)))
                 else (rs, ins, s));
              (rs, me) =
                (if ins < length rs \<and> e = range_start (rs ! ins)
                 then (remove_at ins rs, range_end (rs ! ins))
                 else (rs, e))
          in Inr (insert_at ins \<lparr>range_start = ms, range_end = me\<rparr> rs))"

definition Prefix :: "byteRanges \<Rightarrow> int" where
  "Prefix rs = (case rs of [] \<Rightarrow> 0 | r # _ \<Rightarrow> if range_start r \<noteq> 0 then 0 else range_end r)"

definition Complete :: "byteRanges \<Rightarrow> int \<Rightarrow> bool" where
  "Complete rs sz \<longleftrightarrow> Prefix rs = sz"

section \<open>Invariant and abstraction\<close>

text \<open>Ranges are non-empty, in order, and neither overlap nor touch.\<close>

definition ranges_ok :: "byteRanges \<Rightarrow> bool" where
  "ranges_ok rs \<longleftrightarrow> sorted_wrt (\<lambda>a b. range_end a < range_start b) rs
     \<and> (\<forall>r\<in>set rs. 0 \<le> range_start r \<and> range_start r < range_end r)"

definition covered :: "byteRanges \<Rightarrow> int set" where
  "covered rs = (\<Union>r\<in>set rs. {range_start r..<range_end r})"

lemma covered_simps [simp]:
  "covered [] = {}"
  "covered (r # rs) = {range_start r..<range_end r} \<union> covered rs"
  "covered (rs @ ss) = covered rs \<union> covered ss"
  by (auto simp: covered_def)

lemma ranges_ok_Nil [simp]: "ranges_ok []"
  by (simp add: ranges_ok_def)

lemma ranges_ok_append:
  "ranges_ok (xs @ ys) \<longleftrightarrow> ranges_ok xs \<and> ranges_ok ys \<and>
     (\<forall>x\<in>set xs. \<forall>y\<in>set ys. range_end x < range_start y)"
  by (auto simp: ranges_ok_def sorted_wrt_append)

lemma ranges_ok_Cons:
  "ranges_ok (x # ys) \<longleftrightarrow> ranges_ok ys \<and> 0 \<le> range_start x \<and> range_start x < range_end x \<and>
     (\<forall>y\<in>set ys. range_end x < range_start y)"
  by (auto simp: ranges_ok_def)

lemma newByteRanges_ok: "ranges_ok (newByteRanges n)"
  by (simp add: newByteRanges_def ranges_ok_def)

lemma covered_newByteRanges: "covered (newByteRanges n) = {0..<n}"
  by (auto simp: newByteRanges_def covered_def)

lemma insert_pos_eq: "insert_pos rs s = length (takeWhile (\<lambda>r. range_end r \<le> s) rs)"
  by (induction rs) simp_all

text \<open>
  The list splits at the insertion point into the ranges that end at or before the new one
  and the rest; in these terms the overlap test looks at the first range of the rest only.
\<close>

lemma insert_split:
  assumes "ranges_ok rs"
  obtains xs ys where "rs = xs @ ys" "insert_pos rs s = length xs"
    "\<forall>x\<in>set xs. range_end x \<le> s" "\<And>y zs. ys = y # zs \<Longrightarrow> s < range_end y"
proof
  let ?P = "\<lambda>r. range_end r \<le> s"
  show "rs = takeWhile ?P rs @ dropWhile ?P rs" by simp
  show "insert_pos rs s = length (takeWhile ?P rs)" by (rule insert_pos_eq)
  show "\<forall>x\<in>set (takeWhile ?P rs). range_end x \<le> s" by (meson set_takeWhileD)
  show "s < range_end y" if "dropWhile ?P rs = y # zs" for y zs
    using that hd_dropWhile [of ?P rs] by auto
qed

text \<open>\<open>glue\<close> is what the two merge steps build, said by cases on the neighbours.\<close>

definition glue :: "byteRanges \<Rightarrow> int \<Rightarrow> int \<Rightarrow> byteRanges \<Rightarrow> byteRanges" where
  "glue xs s e ys =
     (let (xs, ms) = (if xs \<noteq> [] \<and> range_end (last xs) = s then (butlast xs, range_start (last xs))
                      else (xs, s));
          (ys, me) = (if ys \<noteq> [] \<and> range_start (hd ys) = e then (tl ys, range_end (hd ys))
                      else (ys, e))
      in xs @ \<lparr>range_start = ms, range_end = me\<rparr> # ys)"

lemma Add_split:
  assumes "ranges_ok rs" "rs = xs @ ys" "insert_pos rs s = length xs"
    and "0 \<le> s" "s < e"
  shows "Add rs s e =
    (if ys \<noteq> [] \<and> range_start (hd ys) < e \<and> s < range_end (hd ys)
     then Inl (OverlappingRange s e (range_start (hd ys)) (range_end (hd ys)))
     else Inr (glue xs s e ys))"
proof -
  have nth: "(xs @ ys) ! length xs = hd ys" if "ys \<noteq> []"
    using that by (simp add: nth_append hd_conv_nth)
  have neq: "\<not> (s < 0 \<or> e < s)" "s \<noteq> e" using assms(4,5) by auto
  show ?thesis
  proof (cases xs rule: rev_cases)
    case Nil
    then show ?thesis using assms neq nth
      by (cases ys) (auto simp: Add_def glue_def Let_def remove_at_def insert_at_def)
  next
    case (snoc zs z)
    have "(zs @ z # ys) ! length zs = z" "(zs @ z # ys) ! Suc (length zs) = hd ys" if "ys \<noteq> []"
      using that by (simp_all add: nth_append hd_conv_nth)
    moreover have "(zs @ [z]) ! length zs = z" by simp
    ultimately show ?thesis using assms neq snoc
      by (cases ys) (auto simp: Add_def glue_def Let_def remove_at_def insert_at_def)
  qed
qed

lemma glue_ok:
  assumes "ranges_ok (xs @ ys)" "\<forall>x\<in>set xs. range_end x \<le> s" "0 \<le> s" "s < e"
    and "ys \<noteq> [] \<Longrightarrow> e \<le> range_start (hd ys)"
  shows "ranges_ok (glue xs s e ys) \<and> covered (glue xs s e ys) = covered xs \<union> {s..<e} \<union> covered ys"
proof -
  let ?join = "xs \<noteq> [] \<and> range_end (last xs) = s"
  define xs' ms where "xs' = (if ?join then butlast xs else xs)"
    and "ms = (if ?join then range_start (last xs) else s)"
  let ?meet = "ys \<noteq> [] \<and> range_start (hd ys) = e"
  define ys' me where "ys' = (if ?meet then tl ys else ys)"
    and "me = (if ?meet then range_end (hd ys) else e)"
  have glue: "glue xs s e ys = xs' @ \<lparr>range_start = ms, range_end = me\<rparr> # ys'"
    by (simp add: glue_def Let_def xs'_def ms_def ys'_def me_def)
  have left: "ranges_ok xs' \<and> 0 \<le> ms \<and> ms \<le> s \<and> (\<forall>x\<in>set xs'. range_end x < ms)
      \<and> covered xs' \<union> {ms..<s} = covered xs"
    using assms(1-3) unfolding xs'_def ms_def
    by (cases xs rule: rev_cases) (auto simp: ranges_ok_append ranges_ok_Cons order.strict_iff_order)
  have right: "ranges_ok ys' \<and> e \<le> me \<and> (\<forall>y\<in>set ys'. me < range_start y)
      \<and> {e..<me} \<union> covered ys' = covered ys"
    using assms(1,5) unfolding ys'_def me_def
    by (cases ys) (auto simp: ranges_ok_append ranges_ok_Cons)
  have "{ms..<me} = {ms..<s} \<union> {s..<e} \<union> {e..<me}" using left right assms(4) by auto
  then have "covered (glue xs s e ys) = covered xs \<union> {s..<e} \<union> covered ys"
    unfolding glue using left right by auto
  moreover have "range_end x < range_start y" if "x \<in> set xs'" "y \<in> set ys'" for x y
    using left right assms(4) that by (smt (verit))
  then have "ranges_ok (glue xs s e ys)"
    unfolding glue using left right assms(4) by (simp add: ranges_ok_append ranges_ok_Cons)
  ultimately show ?thesis by simp
qed

lemma covered_nonneg: "ranges_ok rs \<Longrightarrow> x \<in> covered rs \<Longrightarrow> 0 \<le> x"
  by (force simp: ranges_ok_def covered_def)

text \<open>The test of \<open>Add\<close> is exact: it reports an overlap if and only if there is one.\<close>

lemma overlap_test:
  assumes "ranges_ok (xs @ ys)" "\<forall>x\<in>set xs. range_end x \<le> s" "s < e"
    and "\<And>y zs. ys = y # zs \<Longrightarrow> s < range_end y"
  shows "covered (xs @ ys) \<inter> {s..<e} = {} \<longleftrightarrow>
    \<not> (ys \<noteq> [] \<and> range_start (hd ys) < e \<and> s < range_end (hd ys))"
proof -
  have "covered xs \<inter> {s..<e} = {}" using assms(2) by (fastforce simp: covered_def)
  moreover have "covered ys \<inter> {s..<e} = {} \<longleftrightarrow> \<not> (ys \<noteq> [] \<and> range_start (hd ys) < e)"
  proof (cases ys)
    case (Cons y zs)
    have y: "range_start y < range_end y" "s < range_end y"
      and zs: "\<forall>z\<in>set zs. range_end y < range_start z"
      using assms(1,4) Cons by (auto simp: ranges_ok_append ranges_ok_Cons)
    show ?thesis
    proof (cases "range_start y < e")
      case True
      let ?m = "max s (range_start y)"
      have "?m \<in> {range_start y..<range_end y}" "?m \<in> {s..<e}" using y assms(3) True by auto
      then have "?m \<in> covered ys \<inter> {s..<e}" unfolding Cons covered_simps by blast
      then have "covered ys \<inter> {s..<e} \<noteq> {}" by blast
      with True Cons show ?thesis by simp
    next
      case False
      then have "covered ys \<inter> {s..<e} = {}" using Cons zs y by (fastforce simp: covered_def)
      with False Cons show ?thesis by simp
    qed
  qed simp
  ultimately show ?thesis using assms(4) by (cases ys) auto
qed

lemma Add_spec:
  assumes "ranges_ok rs"
  shows "case Add rs s e of
      Inl _ \<Rightarrow> s < 0 \<or> e < s \<or> covered rs \<inter> {s..<e} \<noteq> {}
    | Inr rs' \<Rightarrow> 0 \<le> s \<and> s \<le> e \<and> covered rs \<inter> {s..<e} = {} \<and> ranges_ok rs'
        \<and> covered rs' = covered rs \<union> {s..<e}"
proof -
  consider "s < 0 \<or> e < s" | "0 \<le> s" "s = e" | "0 \<le> s" "s < e" by linarith
  then show ?thesis
  proof cases
    case 3
    obtain xs ys where *: "rs = xs @ ys" "insert_pos rs s = length xs"
      "\<forall>x\<in>set xs. range_end x \<le> s" "\<And>y zs. ys = y # zs \<Longrightarrow> s < range_end y"
      using insert_split [OF assms, of s] by metis
    note overlap = overlap_test [OF assms [unfolded *(1)] *(3) 3(2) *(4)]
    show ?thesis
    proof (cases "ys \<noteq> [] \<and> range_start (hd ys) < e \<and> s < range_end (hd ys)")
      case True
      with overlap 3 Add_split [OF assms *(1,2) 3] show ?thesis by (simp add: *(1))
    next
      case False
      have "ys \<noteq> [] \<Longrightarrow> e \<le> range_start (hd ys)" using False *(4) by (cases ys) auto
      from glue_ok [OF assms [unfolded *(1)] *(3) 3 this] False overlap 3
        Add_split [OF assms *(1,2) 3]
      show ?thesis by (auto simp: *(1))
    qed
  qed (use assms in \<open>auto simp: Add_def\<close>)
qed

lemma Prefix_spec:
  assumes "ranges_ok rs"
  shows "0 \<le> Prefix rs \<and> {0..<Prefix rs} \<subseteq> covered rs \<and> Prefix rs \<notin> covered rs"
proof (cases rs)
  case (Cons r ss)
  from assms have r: "0 \<le> range_start r" "range_start r < range_end r"
    and ss: "\<forall>x\<in>set ss. range_end r < range_start x"
    by (auto simp: Cons ranges_ok_Cons)
  have "x \<notin> covered ss" if "x \<le> range_end r" for x
    using ss that by (fastforce simp: covered_def)
  with r show ?thesis by (auto simp: Cons Prefix_def)
qed (simp add: Prefix_def)

section \<open>The interface the receivers use\<close>

locale coverage =
  fixes add :: "'c \<Rightarrow> int \<Rightarrow> int \<Rightarrow> ('e, 'c) result"
    and prefix_len :: "'c \<Rightarrow> int"
    and abs :: "'c \<Rightarrow> int set"
    and inv :: "'c \<Rightarrow> bool"
  assumes add_ok: "inv c \<Longrightarrow> add c s e = Inr c' \<Longrightarrow>
      0 \<le> s \<and> s \<le> e \<and> abs c \<inter> {s..<e} = {} \<and> inv c' \<and> abs c' = abs c \<union> {s..<e}"
    and add_fails: "inv c \<Longrightarrow> add c s e = Inl err \<Longrightarrow> s < 0 \<or> e < s \<or> abs c \<inter> {s..<e} \<noteq> {}"
    and prefix_ok: "inv c \<Longrightarrow> 0 \<le> prefix_len c \<and> {0..<prefix_len c} \<subseteq> abs c \<and> prefix_len c \<notin> abs c"
begin

definition adds :: "(int \<times> int) list \<Rightarrow> 'c \<Rightarrow> ('e, 'c) result" where
  "adds = foldM (\<lambda>(s, e) c. add c s e)"

definition chunk_bytes :: "(int \<times> int) list \<Rightarrow> int set" where
  "chunk_bytes cs = (\<Union>(s, e)\<in>set cs. {s..<e})"

lemma chunk_bytes_snoc: "chunk_bytes (cs @ [(s, e)]) = chunk_bytes cs \<union> {s..<e}"
  by (auto simp: chunk_bytes_def)

text \<open>
  Any sequence of accepted chunks covers exactly the bytes of its chunks, and no byte twice:
  as many bytes are covered as the chunks carry together.
\<close>

lemma adds_ok:
  assumes "inv c" "adds cs c = Inr c'" "finite (abs c)"
  shows "inv c' \<and> finite (abs c') \<and> abs c' = abs c \<union> chunk_bytes cs
    \<and> int (card (abs c')) = int (card (abs c)) + (\<Sum>(s, e)\<leftarrow>cs. e - s)"
  using assms(2) unfolding adds_def
proof (rule foldM_prefix_invariant)
  show "inv c \<and> finite (abs c) \<and> abs c = abs c \<union> chunk_bytes []
      \<and> int (card (abs c)) = int (card (abs c)) + (\<Sum>(s, e)\<leftarrow>[]. e - s)"
    using assms by (simp add: chunk_bytes_def)
  fix ds x d d'
  assume IH: "inv d \<and> finite (abs d) \<and> abs d = abs c \<union> chunk_bytes ds
      \<and> int (card (abs d)) = int (card (abs c)) + (\<Sum>(s, e)\<leftarrow>ds. e - s)"
    and step: "(case x of (s, e) \<Rightarrow> \<lambda>c. add c s e) d = Inr d'"
  obtain s e where x: "x = (s, e)" by (cases x)
  with step IH add_ok [of d s e d'] have
    new: "s \<le> e" "abs d \<inter> {s..<e} = {}" "inv d'" "abs d' = abs d \<union> {s..<e}" by auto
  have "card (abs d') = card (abs d) + card {s..<e}"
    unfolding new(4) by (rule card_Un_disjoint) (use IH new(2) in auto)
  then have "int (card (abs d')) = int (card (abs d)) + (e - s)" using new(1) by simp
  with IH new x show "inv d' \<and> finite (abs d') \<and> abs d' = abs c \<union> chunk_bytes (ds @ [x])
      \<and> int (card (abs d')) = int (card (abs c)) + (\<Sum>(s, e)\<leftarrow>ds @ [x]. e - s)"
    by (auto simp: chunk_bytes_snoc)
qed

lemma prefix_complete:
  assumes "inv c" "abs c \<subseteq> {0..<sz}" "0 \<le> sz"
  shows "prefix_len c = sz \<longleftrightarrow> abs c = {0..<sz}"
proof
  assume "prefix_len c = sz"
  with prefix_ok [OF assms(1)] assms(2) show "abs c = {0..<sz}" by auto
next
  assume "abs c = {0..<sz}"
  with prefix_ok [OF assms(1)] have "0 \<le> prefix_len c" "prefix_len c \<notin> {0..<sz}"
    "{0..<prefix_len c} \<subseteq> {0..<sz}" by auto
  then show "prefix_len c = sz" using assms(3)
    by (smt (verit) atLeastLessThan_iff subsetD)
qed

end

interpretation br: coverage Add Prefix covered ranges_ok
proof
  fix rs s e rs' err
  assume ok: "ranges_ok rs"
  from Add_spec [OF ok, of s e] show "Add rs s e = Inr rs' \<Longrightarrow>
      0 \<le> s \<and> s \<le> e \<and> covered rs \<inter> {s..<e} = {} \<and> ranges_ok rs' \<and> covered rs' = covered rs \<union> {s..<e}"
    and "Add rs s e = Inl err \<Longrightarrow> s < 0 \<or> e < s \<or> covered rs \<inter> {s..<e} \<noteq> {}"
    by (auto split: sum.splits)
  show "0 \<le> Prefix rs \<and> {0..<Prefix rs} \<subseteq> covered rs \<and> Prefix rs \<notin> covered rs"
    using ok by (rule Prefix_spec)
qed

section \<open>Properties\<close>



text \<open>
C36: Starting from a resumed prefix, if chunks that lie inside the declared size are all accepted,
in whatever order they arrive, then the coverage is complete exactly when every byte of the
file has been received, and by then the chunks carried exactly the missing bytes.
\<close>

theorem Complete_iff_all_bytes:
  assumes "0 \<le> n" "n \<le> sz" "foldM (\<lambda>(s, e) rs. Add rs s e) cs (newByteRanges n) = Inr rs"
    and "\<forall>(s, e)\<in>set cs. e \<le> sz"
  shows "(Complete rs sz \<longleftrightarrow> {0..<n} \<union> (\<Union>(s, e)\<in>set cs. {s..<e}) = {0..<sz})
    \<and> (Complete rs sz \<longrightarrow> (\<Sum>(s, e)\<leftarrow>cs. e - s) = sz - n)"
proof -
  have "br.adds cs (newByteRanges n) = Inr rs" using assms(3) by (simp add: br.adds_def)
  note added = br.adds_ok [OF newByteRanges_ok this]
  then have ok: "ranges_ok rs" and bytes: "covered rs = {0..<n} \<union> (\<Union>(s, e)\<in>set cs. {s..<e})"
    and "int (card (covered rs)) = int (card {0..<n}) + (\<Sum>(s, e)\<leftarrow>cs. e - s)"
    unfolding br.chunk_bytes_def covered_newByteRanges by blast+
  from this(3) have total: "int (card (covered rs)) = n + (\<Sum>(s, e)\<leftarrow>cs. e - s)"
    using assms(1) by simp
  have "x < sz" if "x \<in> covered rs" for x
    using that assms(2,4) unfolding bytes by fastforce
  with covered_nonneg [OF ok] have "covered rs \<subseteq> {0..<sz}" by auto
  with ok assms(1,2) have comp: "Complete rs sz \<longleftrightarrow> covered rs = {0..<sz}"
    unfolding Complete_def by (intro br.prefix_complete) auto
  moreover have "(\<Sum>(s, e)\<leftarrow>cs. e - s) = sz - n" if "covered rs = {0..<sz}"
    using total assms(1,2) unfolding that by simp
  ultimately show ?thesis by (simp add: bytes [symmetric])
qed

theorem Complete_iff_all_bytes_witness:
  "Complete [\<lparr>range_start = 0, range_end = 9\<rparr>] 9"
proof -
  have "foldM (\<lambda>(s, e) rs. Add rs s e) [(6, 9), (2, 6)] (newByteRanges 2) =
      Inr [\<lparr>range_start = 0, range_end = 9\<rparr>]"
    by (simp add: newByteRanges_def Add_def Let_def remove_at_def insert_at_def)
  from Complete_iff_all_bytes [OF _ _ this, of 9] show ?thesis by auto
qed

end
