(* ===== verification/Go_Paths.thy ===== *)
theory Go_Paths
  imports Go_Prelude
begin

text \<open>
  The functions of Go's \<open>path/filepath\<close> the receiver calls, on a Unix system (separator \<open>/\<close>, no
  volume names): \<open>Clean\<close>, \<open>Join\<close>, \<open>Dir\<close>, \<open>Rel\<close>, \<open>Ext\<close> and \<open>IsAbs\<close>. A path is a string; the
  definitions work on the list of its elements, as the lexical rules of \<open>Clean\<close> are stated. The
  lemmas say what these functions give on a path built from \<^emph>\<open>plain\<close> elements, those that are
  neither empty nor \<open>.\<close> nor \<open>..\<close> and hold no separator.
\<close>

abbreviation Separator :: char where
  "Separator \<equiv> CHR ''/''"

abbreviation elements :: "string \<Rightarrow> string list" where
  "elements p \<equiv> split_on Separator p"

definition IsAbs :: "string \<Rightarrow> bool" where
  "IsAbs p \<longleftrightarrow> p \<noteq> [] \<and> hd p = Separator"

definition clean_step :: "bool \<Rightarrow> string list \<Rightarrow> string \<Rightarrow> string list" where
  "clean_step rooted acc e =
     (if e = '''' \<or> e = ''.'' then acc
      else if e = ''..'' then
        (if acc \<noteq> [] \<and> last acc \<noteq> ''..'' then butlast acc else if rooted then acc else acc @ [e])
      else acc @ [e])"

definition clean_elements :: "bool \<Rightarrow> string list \<Rightarrow> string list" where
  "clean_elements rooted es = foldl (clean_step rooted) [] es"

definition path_of :: "bool \<Rightarrow> string list \<Rightarrow> string" where
  "path_of rooted es =
     (if es = [] then (if rooted then [Separator] else ''.'')
      else (if rooted then [Separator] else []) @ join_with Separator es)"

definition Clean :: "string \<Rightarrow> string" where
  "Clean p = path_of (IsAbs p) (clean_elements (IsAbs p) (elements p))"

definition Join :: "string \<Rightarrow> string \<Rightarrow> string" where
  "Join a b =
     (if a \<noteq> [] then Clean (a @ Separator # b) else if b \<noteq> [] then Clean b else [])"

text \<open>\<open>Dir\<close> cleans what stands before the last element; \<open>Ext\<close> is the last element's suffix from its last dot.\<close>

definition before_last :: "string \<Rightarrow> string" where
  "before_last p = rev (dropWhile (\<lambda>c. c \<noteq> Separator) (rev p))"

definition Dir :: "string \<Rightarrow> string" where
  "Dir p = Clean (before_last p)"

definition Ext :: "string \<Rightarrow> string" where
  "Ext p =
     (let r = takeWhile (\<lambda>c. c \<noteq> Separator) (rev p)
      in if CHR ''.'' \<in> set r then CHR ''.'' # rev (takeWhile (\<lambda>c. c \<noteq> CHR ''.'') r) else [])"

fun strip_common :: "string list \<Rightarrow> string list \<Rightarrow> string list \<times> string list" where
  "strip_common (x # xs) (y # ys) = (if x = y then strip_common xs ys else (x # xs, y # ys))"
| "strip_common xs ys = (xs, ys)"

definition rel_elements :: "string \<Rightarrow> string list" where
  "rel_elements p = filter (\<lambda>e. e \<noteq> []) (elements p)"

definition Rel :: "string \<Rightarrow> string \<Rightarrow> string option" where
  "Rel basepath targpath =
     (let base = Clean basepath; targ = Clean targpath
      in if targ = base then Some ''.''
         else
           let base' = (if base = ''.'' then [] else base)
           in if IsAbs base' \<noteq> IsAbs targ then None
              else case strip_common (rel_elements base') (rel_elements targ) of (bs, ts) \<Rightarrow>
                if bs \<noteq> [] \<and> ts \<noteq> [] \<and> hd bs = ''..'' then None
                else Some (join_with Separator (map (\<lambda>_. ''..'') bs @ ts)))"

section \<open>Plain elements\<close>

definition plain :: "string \<Rightarrow> bool" where
  "plain e \<longleftrightarrow> e \<noteq> '''' \<and> e \<noteq> ''.'' \<and> e \<noteq> ''..'' \<and> Separator \<notin> set e"

definition plain_all :: "string list \<Rightarrow> bool" where
  "plain_all es \<longleftrightarrow> (\<forall>e\<in>set es. plain e)"

lemma plain_all_simps [simp]:
  "plain_all []" "plain_all (e # es) \<longleftrightarrow> plain e \<and> plain_all es"
  "plain_all (es @ fs) \<longleftrightarrow> plain_all es \<and> plain_all fs"
  by (auto simp: plain_all_def)

lemma plain_all_butlast: "plain_all es \<Longrightarrow> plain_all (butlast es)"
  by (auto simp: plain_all_def dest: in_set_butlastD)

text \<open>What every cleaned element list looks like: leading \<open>..\<close> (only when not rooted), then plain elements.\<close>

definition cleaned :: "bool \<Rightarrow> string list \<Rightarrow> bool" where
  "cleaned rooted es \<longleftrightarrow> (\<exists>n ps. es = replicate n ''..'' @ ps \<and> plain_all ps \<and> (rooted \<longrightarrow> n = 0))"

lemma clean_step_cleaned:
  assumes "cleaned rooted acc" and "Separator \<notin> set e"
  shows "cleaned rooted (clean_step rooted acc e)"
proof -
  obtain n ps where acc: "acc = replicate n ''..'' @ ps" and ps: "plain_all ps" and n: "rooted \<longrightarrow> n = 0"
    using assms(1) by (auto simp: cleaned_def)
  show ?thesis
  proof (cases "e = ''..''")
    case False
    then show ?thesis
    proof (cases "e = '''' \<or> e = ''.''")
      case True
      with assms(1) show ?thesis by (auto simp: clean_step_def)
    next
      case plain: False
      with False assms(2) have "plain e" by (simp add: plain_def)
      with plain False acc ps n show ?thesis
        unfolding cleaned_def clean_step_def by (intro exI [of _ n] exI [of _ "ps @ [e]"]) simp
    qed
  next
    case True
    show ?thesis
    proof (cases ps rule: rev_cases)
      case (snoc qs q)
      with acc ps have "last acc = q" "q \<noteq> ''..''" "butlast acc = replicate n ''..'' @ qs" "acc \<noteq> []"
        by (auto simp: plain_def butlast_append)
      with True ps snoc n show ?thesis
        unfolding cleaned_def clean_step_def by (intro exI [of _ n] exI [of _ qs]) auto
    next
      case Nil
      show ?thesis
      proof (cases rooted)
        case True
        with n acc Nil have "acc = []" by simp
        with True \<open>e = ''..''\<close> show ?thesis by (auto simp: clean_step_def cleaned_def)
      next
        case False
        have "acc = [] \<or> last acc = ''..''" using acc Nil by (cases n) (auto simp: last_replicate)
        then have "clean_step rooted acc e = replicate (Suc n) ''..'' @ []"
          using False \<open>e = ''..''\<close> acc Nil by (auto simp: clean_step_def replicate_append_same)
        with False show ?thesis unfolding cleaned_def by (metis plain_all_simps(1))
      qed
    qed
  qed
qed

lemma foldl_clean_cleaned:
  "cleaned rooted acc \<Longrightarrow> \<forall>e\<in>set es. Separator \<notin> set e \<Longrightarrow> cleaned rooted (foldl (clean_step rooted) acc es)"
  by (induction es arbitrary: acc) (auto simp: clean_step_cleaned)

lemma clean_elements_cleaned: "cleaned rooted (clean_elements rooted (elements p))"
  unfolding clean_elements_def
  by (rule foldl_clean_cleaned) (auto simp: cleaned_def split_on_no_sep)

lemma foldl_clean_plain: "plain_all ps \<Longrightarrow> foldl (clean_step rooted) acc ps = acc @ ps"
  by (induction ps arbitrary: acc) (auto simp: clean_step_def plain_def)

lemma foldl_clean_dots:
  "foldl (clean_step False) (replicate m ''..'') (replicate n ''..'') = replicate (m + n) ''..''"
proof (induction n arbitrary: m)
  case (Suc n)
  have "clean_step False (replicate m ''..'') ''..'' = replicate (Suc m) ''..''"
    by (cases m) (auto simp: clean_step_def replicate_append_same last_replicate)
  with Suc [of "Suc m"] show ?case by simp
qed simp

lemma clean_elements_id: "cleaned rooted es \<Longrightarrow> clean_elements rooted es = es"
  using foldl_clean_dots [of 0]
  by (auto simp: cleaned_def clean_elements_def foldl_clean_plain)

lemma clean_elements_append_plain:
  "plain_all ns \<Longrightarrow> clean_elements rooted (es @ ns) = clean_elements rooted es @ ns"
  by (simp add: clean_elements_def foldl_clean_plain)

lemma cleaned_no_sep: "cleaned rooted es \<Longrightarrow> e \<in> set es \<Longrightarrow> Separator \<notin> set e \<and> e \<noteq> ''''"
  unfolding cleaned_def plain_all_def plain_def by fastforce

lemma cleaned_append: "cleaned rooted es \<Longrightarrow> plain_all ns \<Longrightarrow> cleaned rooted (es @ ns)"
  unfolding cleaned_def by (metis append.assoc plain_all_simps(3))

section \<open>Paths of cleaned elements\<close>

lemma join_with_hd: "e \<noteq> [] \<Longrightarrow> join_with c (e # es) \<noteq> [] \<and> hd (join_with c (e # es)) = hd e"
  by (cases es) auto

lemma IsAbs_path_of: "cleaned rooted es \<Longrightarrow> IsAbs (path_of rooted es) = rooted"
proof (cases es)
  case (Cons e fs)
  assume c: "cleaned rooted es"
  with Cons have "e \<noteq> []" "Separator \<notin> set e" using cleaned_no_sep [of rooted es e] by auto
  then have "hd e \<noteq> Separator" using hd_in_set [of e] by metis
  with Cons \<open>e \<noteq> []\<close> show ?thesis using join_with_hd [of e Separator fs]
    by (auto simp: IsAbs_def path_of_def)
qed (simp add: IsAbs_def path_of_def)

lemma elements_path_of:
  assumes "cleaned rooted es"
  shows "elements (path_of rooted es) =
    (if es = [] then (if rooted then [[], []] else [''.'']) else (if rooted then [[]] else []) @ es)"
proof (cases "es = []")
  case False
  with assms have "split_on Separator (join_with Separator es) = es"
    using cleaned_no_sep by (intro split_join_on) blast+
  with False show ?thesis by (simp add: path_of_def)
qed (simp add: path_of_def)

lemma clean_elements_Nil_cons [simp]: "clean_elements r ([] # es) = clean_elements r es"
  by (simp add: clean_elements_def clean_step_def)

lemma clean_elements_dot: "clean_elements r [''.''] = []" "clean_elements r [[]] = []"
    "clean_elements r [] = []"
  by (simp_all add: clean_elements_def clean_step_def)

lemma Clean_path_of: "cleaned rooted es \<Longrightarrow> Clean (path_of rooted es) = path_of rooted es"
  using clean_elements_id [of rooted es]
  by (cases rooted) (simp_all add: Clean_def IsAbs_path_of elements_path_of clean_elements_dot)

lemma Clean_Clean [simp]: "Clean (Clean p) = Clean p"
  unfolding Clean_def [of p] by (rule Clean_path_of) (rule clean_elements_cleaned)

lemma elements_append_sep: "elements (a @ Separator # b) = elements a @ elements b"
proof (induction a)
  case (Cons x a)
  obtain q qs where "elements a = q # qs" by (cases "elements a") auto
  with Cons show ?case by auto
qed simp

text \<open>Joining a directory with a relative path of plain elements appends them to its cleaned elements.\<close>

lemma Join_plain:
  assumes "d \<noteq> []" and "plain_all ns" and "ns \<noteq> []"
  shows "Join d (join_with Separator ns) = path_of (IsAbs d) (clean_elements (IsAbs d) (elements d) @ ns)"
proof -
  have "elements (join_with Separator ns) = ns"
    using assms by (intro split_join_on) (auto simp: plain_all_def plain_def)
  moreover have "IsAbs (d @ x) = IsAbs d" for x using assms(1) by (simp add: IsAbs_def)
  ultimately show ?thesis
    using assms by (simp add: Join_def Clean_def elements_append_sep clean_elements_append_plain)
qed

lemma IsAbs_Clean [simp]: "IsAbs (Clean p) = IsAbs p"
  unfolding Clean_def by (rule IsAbs_path_of) (rule clean_elements_cleaned)

lemma join_with_append: "es \<noteq> [] \<Longrightarrow> join_with c (es @ [e]) = join_with c es @ c # e"
  by (induction es rule: induct_list012) auto

lemma before_last_append: "Separator \<notin> set e \<Longrightarrow> before_last (p @ Separator # e) = p @ [Separator]"
  by (simp add: before_last_def dropWhile_append)

lemma before_last_none: "Separator \<notin> set e \<Longrightarrow> before_last e = []"
  by (auto simp: before_last_def)

lemma elements_sep_end: "elements (p @ [Separator]) = elements p @ [[]]"
  using elements_append_sep [of p "[]"] by simp

text \<open>The directory of a path is the path of all elements but the last.\<close>

lemma Dir_path_of:
  assumes "cleaned rooted es" and "plain e"
  shows "Dir (path_of rooted (es @ [e])) = path_of rooted es"
proof (cases "es = []")
  case True
  show ?thesis
  proof (cases rooted)
    case True
    with \<open>es = []\<close> assms show ?thesis
      using before_last_append [of e "[]"]
      by (simp add: Dir_def path_of_def plain_def Clean_def IsAbs_def clean_elements_def clean_step_def)
  next
    case False
    with \<open>es = []\<close> assms show ?thesis
      by (simp add: Dir_def path_of_def plain_def before_last_none Clean_def IsAbs_def
          clean_elements_def clean_step_def)
  qed
next
  case False
  define p where "p = path_of rooted es"
  have p: "path_of rooted (es @ [e]) = p @ Separator # e"
    using False by (simp add: p_def path_of_def join_with_append)
  have "p \<noteq> []" using False cleaned_no_sep [OF assms(1), of "hd es"] join_with_hd [of "hd es" Separator "tl es"]
    by (auto simp: p_def path_of_def)
  then have "IsAbs (p @ [Separator]) = rooted" using IsAbs_path_of [OF assms(1)] by (simp add: IsAbs_def p_def)
  moreover have "clean_elements rooted (elements (p @ [Separator])) = es"
    using clean_elements_id [OF assms(1)] False
    unfolding elements_sep_end p_def elements_path_of [OF assms(1)]
    by (cases rooted) (simp_all add: clean_elements_def clean_step_def)
  ultimately have "Clean (p @ [Separator]) = path_of rooted es" by (simp add: Clean_def)
  moreover have "before_last (p @ Separator # e) = p @ [Separator]"
    using assms(2) by (intro before_last_append) (simp add: plain_def)
  ultimately show ?thesis by (simp add: Dir_def p)
qed

lemma strip_common_prefix: "strip_common es (es @ fs) = ([], fs)"
  by (induction es) (cases fs, auto)

lemma rel_elements_path_of:
  assumes "cleaned rooted es" and "es \<noteq> [] \<or> rooted"
  shows "rel_elements (path_of rooted es) = es"
proof -
  have "filter (\<lambda>e. e \<noteq> []) es = es"
    using cleaned_no_sep [OF assms(1)] by (intro filter_True) auto
  with assms show ?thesis by (auto simp: rel_elements_def elements_path_of)
qed

lemma path_of_inj:
  assumes "cleaned rooted es" "cleaned rooted fs"
  shows "path_of rooted es = path_of rooted fs \<longleftrightarrow> es = fs"
proof
  assume eq: "path_of rooted es = path_of rooted fs"
  have dot: "cleaned rooted gs \<Longrightarrow> gs \<noteq> [''.'']" for gs
    using clean_elements_id [of rooted gs] clean_elements_dot(1) [of rooted] by auto
  from eq have "elements (path_of rooted es) = elements (path_of rooted fs)" by simp
  then show "es = fs"
    using assms dot [OF assms(1)] dot [OF assms(2)] cleaned_no_sep [OF assms(1), of "[]"]
      cleaned_no_sep [OF assms(2), of "[]"]
    by (auto simp: elements_path_of split: if_splits)
qed simp

text \<open>A path below a directory is, relative to it, the join of the elements added to it.\<close>

lemma Rel_path_of:
  assumes "plain_all ns"
  shows "Rel d (path_of (IsAbs d) (clean_elements (IsAbs d) (elements d) @ ns)) =
    Some (if ns = [] then ''.'' else join_with Separator ns)"
proof -
  define r where "r = IsAbs d"
  define es where "es = clean_elements r (elements d)"
  have c: "cleaned r es" "cleaned r (es @ ns)"
    using clean_elements_cleaned cleaned_append assms by (auto simp: es_def)
  have base: "Clean d = path_of r es" and targ: "Clean (path_of r (es @ ns)) = path_of r (es @ ns)"
    using c by (auto simp: Clean_def [of d] r_def es_def Clean_path_of)
  show ?thesis
  proof (cases "ns = []")
    case True
    with base targ show ?thesis by (simp add: Rel_def r_def [symmetric] es_def [symmetric])
  next
    case False
    then have neq: "path_of r (es @ ns) \<noteq> path_of r es" using path_of_inj [OF c(2,1)] by simp
    define b where "b = (if path_of r es = ''.'' then [] else path_of r es)"
    have b: "IsAbs b = r \<and> rel_elements b = es"
    proof (cases "es = [] \<and> \<not> r")
      case True
      then show ?thesis by (simp add: b_def path_of_def IsAbs_def rel_elements_def)
    next
      case nd: False
      have "path_of r es \<noteq> ''.''"
      proof
        assume "path_of r es = ''.''"
        then have "\<not> r" using IsAbs_path_of [OF c(1)] by (simp add: IsAbs_def)
        then have "cleaned r []" "path_of r es = path_of r []"
          using \<open>path_of r es = ''.''\<close> by (auto simp: cleaned_def path_of_def)
        then show False using path_of_inj [OF c(1), of "[]"] nd \<open>\<not> r\<close> by auto
      qed
      with nd show ?thesis using rel_elements_path_of [OF c(1)] IsAbs_path_of [OF c(1)] by (auto simp: b_def)
    qed
    have t: "IsAbs (path_of r (es @ ns)) = r \<and> rel_elements (path_of r (es @ ns)) = es @ ns"
      using IsAbs_path_of [OF c(2)] rel_elements_path_of [OF c(2)] False by auto
    show ?thesis
      unfolding r_def [symmetric] es_def [symmetric] Rel_def base targ Let_def b_def [symmetric]
      using neq b t False by (simp add: strip_common_prefix)
  qed
qed

end
