(* ===== verification/Chunk_Codec.thy ===== *)
theory Chunk_Codec
  imports Protocol
begin

text \<open>
  Chunk compression (internal/transfer/compression.go) and the sampled file fingerprint
  (internal/transfer/sample_hash.go). Go's \<open>compress/gzip\<close> is the pair of parameters \<open>gz\<close>
  (what a writer produces at \<open>BestSpeed\<close>; it does not fail on a memory buffer) and \<open>gunzip\<close>
  (\<open>None\<close>: \<open>NewReader\<close> refuses the header; \<open>Some (d, bad)\<close>: the stream yields the bytes \<open>d\<close>
  and then ends, with an error when \<open>bad\<close>). The law the senders rely on is \<open>gzip_law\<close>: reading
  back a written stream gives the written bytes without an error. SHA-256 is the parameter
  \<open>sha\<close>, which no theorem here constrains.
\<close>

section \<open>Compression\<close>

definition compressionGzip :: string where
  "compressionGzip = ''gzip''"

datatype chunk_error =
    EncodedTooLarge
  | InvalidGzip
  | DecodedTooLarge
  | GzipNotNegotiated
  | UnsupportedEncoding string

type_synonym gunzip_fun = "string \<Rightarrow> (string \<times> bool) option"

record chunkCompressionState =
  ccs_attempts :: int
  ccs_misses :: int
  ccs_disabled :: bool

record CompressionStats =
  cs_OriginalBytes :: int
  cs_WireBytes :: int
  cs_CompressedChunks :: int

definition gzip_law :: "(string \<Rightarrow> string) \<Rightarrow> gunzip_fun \<Rightarrow> bool" where
  "gzip_law gz gunzip \<longleftrightarrow> (\<forall>d. gunzip (gz d) = Some (d, False))"

definition compressGzipChunk :: "(string \<Rightarrow> string) \<Rightarrow> string \<Rightarrow> (chunk_error, string) result" where
  "compressGzipChunk gz data = Inr (gz data)"

text \<open>
  \<open>io.ReadAll (io.LimitReader r n)\<close>: at most \<open>n\<close> bytes are taken from the stream, and an error
  behind them is never seen.
\<close>

definition read_limited :: "nat \<Rightarrow> string \<times> bool \<Rightarrow> (chunk_error, string) result" where
  "read_limited n st =
     (case st of (d, bad) \<Rightarrow> if length d \<ge> n then Inr (take n d) else if bad then Inl InvalidGzip else Inr d)"

definition decompressGzipChunk :: "gunzip_fun \<Rightarrow> string \<Rightarrow> (chunk_error, string) result" where
  "decompressGzipChunk gunzip data =
     (if int (length data) > ChunkSize * 2 then Inl EncodedTooLarge
      else case gunzip data of
        None \<Rightarrow> Inl InvalidGzip
      | Some st \<Rightarrow>
          rbind (read_limited (nat (ChunkSize + 1)) st) (\<lambda>decoded.
            if int (length decoded) > ChunkSize then Inl DecodedTooLarge else Inr decoded))"

definition decodeTransferChunk :: "gunzip_fun \<Rightarrow> string \<Rightarrow> string \<Rightarrow> string \<Rightarrow> (chunk_error, string) result" where
  "decodeTransferChunk gunzip negotiated encoding data =
     (if encoding = '''' then Inr data
      else if encoding = compressionGzip then
        (if negotiated \<noteq> compressionGzip then Inl GzipNotNegotiated else decompressGzipChunk gunzip data)
      else Inl (UnsupportedEncoding encoding))"

definition maxInt :: "int \<Rightarrow> int \<Rightarrow> int" where
  "maxInt a b = (if a > b then a else b)"

text \<open>The arguments are lengths of byte slices, so \<open>encoded + minSavings\<close> cannot wrap around.\<close>

definition compressionWorthwhile :: "int \<Rightarrow> int \<Rightarrow> bool" where
  "compressionWorthwhile original encoded =
     (if original < 256 then False
      else let minSavings = maxInt 32 (original sdiv 100) in encoded + minSavings < original)"

lemma compressionWorthwhile_smaller: "compressionWorthwhile original encoded \<Longrightarrow> encoded + 32 < original"
  by (auto simp: compressionWorthwhile_def maxInt_def Let_def split: if_splits)

text \<open>A gzip chunk whose plain text fits a protocol chunk is decoded; a longer one never is.\<close>

lemma decompress_compressed:
  assumes "gzip_law gz gunzip" and "int (length data) \<le> ChunkSize" and "int (length (gz data)) \<le> ChunkSize * 2"
  shows "decompressGzipChunk gunzip (gz data) = Inr data"
  using assms by (simp add: decompressGzipChunk_def gzip_law_def read_limited_def ChunkSize_def)

lemma decompress_too_long:
  assumes "gzip_law gz gunzip" and "int (length data) > ChunkSize"
  shows "\<exists>e. decompressGzipChunk gunzip (gz data) = Inl e"
  using assms by (auto simp: decompressGzipChunk_def gzip_law_def read_limited_def ChunkSize_def)

lemma decompress_bounded: "decompressGzipChunk gunzip data = Inr d \<Longrightarrow> int (length d) \<le> ChunkSize"
  by (auto simp: decompressGzipChunk_def result_simps split: if_splits option.splits)

section \<open>Sampled fingerprints\<close>

definition sampleHashChunkSize :: int where
  "sampleHashChunkSize = 128 * 1024"

definition sampleHashWindow :: int where
  "sampleHashWindow = 1024 * 1024"

definition sampleHashMaxBytes :: int where
  "sampleHashMaxBytes = 1024 * 1024"

definition hex_digit :: "nat \<Rightarrow> char" where
  "hex_digit d = (if d < 10 then char_of (48 + d) else char_of (87 + d))"

definition hex_encode :: "string \<Rightarrow> string" where
  "hex_encode bs = concat (map (\<lambda>b. [hex_digit (byte_val b div 16), hex_digit (byte_val b mod 16)]) bs)"

datatype sample_error = SampleReaderNil | SampleSizeNegative | SampleRange | SampleEOF

text \<open>
  \<open>readSample\<close>: the reader is the file's bytes, the hash the bytes written to it so far;
  \<open>io.CopyN\<close> fails when the file ends before the section does.
\<close>

definition readSample :: "string \<Rightarrow> int \<Rightarrow> int \<Rightarrow> int \<Rightarrow> string \<Rightarrow> (sample_error, string) result" where
  "readSample src sz offset len hashed =
     (if offset < 0 \<or> len < 0 \<or> offset > sz \<or> len > sub64 sz offset then Inl SampleRange
      else if int (length src) < offset + len then Inl SampleEOF
      else Inr (hashed @ take (nat len) (drop (nat offset) src)))"

text \<open>The loop over interior windows; \<open>k\<close> counts the windows that are left.\<close>

fun sample_windows :: "string \<Rightarrow> int \<Rightarrow> nat \<Rightarrow> int \<Rightarrow> int \<Rightarrow> string \<Rightarrow> (sample_error, string) result" where
  "sample_windows src sz 0 window sampled hashed = Inr hashed"
| "sample_windows src sz (Suc k) window sampled hashed =
     (if \<not> sampled < sampleHashMaxBytes then Inr hashed
      else let offset = add64 (mul64 window sampleHashWindow) (sampleHashWindow sdiv 2)
        in if add64 offset sampleHashChunkSize > sz then Inr hashed
           else rbind (readSample src sz offset sampleHashChunkSize hashed)
                  (sample_windows src sz k (add64 window 1) (add64 sampled sampleHashChunkSize)))"

definition sampled_bytes :: "string \<Rightarrow> int \<Rightarrow> (sample_error, string) result" where
  "sampled_bytes src sz =
     (if sz < 0 then Inl SampleSizeNegative
      else if sz \<le> sampleHashChunkSize * 2 then readSample src sz 0 sz []
      else
        rbind (readSample src sz 0 sampleHashChunkSize []) (\<lambda>h1.
        rbind (readSample src sz (sub64 sz sampleHashChunkSize) sampleHashChunkSize h1) (\<lambda>h2.
          let sampled = sampleHashChunkSize * 2;
              windows = max 1 ((sub64 sz sampleHashChunkSize) sdiv sampleHashWindow)
          in sample_windows src sz (nat windows) 0 sampled h2)))"

definition sampleSHA256 :: "(string \<Rightarrow> string) \<Rightarrow> string option \<Rightarrow> int \<Rightarrow> (sample_error, string) result" where
  "sampleSHA256 sha reader sz =
     (case reader of
        None \<Rightarrow> Inl SampleReaderNil
      | Some src \<Rightarrow> rbind (sampled_bytes src sz) (\<lambda>hashed. Inr (hex_encode (sha hashed))))"

lemma hex_encode_length [simp]: "length (hex_encode bs) = 2 * length bs"
  by (induction bs) (simp_all add: hex_encode_def)

lemma readSample_ok:
  assumes "0 \<le> offset" "0 \<le> len" "offset + len \<le> sz" "in_i64 sz" "int (length src) = sz"
  shows "readSample src sz offset len h = Inr (h @ take (nat len) (drop (nat offset) src))"
  using assms by (simp add: readSample_def sub64_id in_i64_def)

lemma readSample_length:
  "readSample src sz offset len h = Inr h' \<Longrightarrow> int (length h') = int (length h) + len"
  by (auto simp: readSample_def split: if_splits)

lemmas sample_consts = sampleHashChunkSize_def sampleHashWindow_def sampleHashMaxBytes_def

text \<open>
  The loop over the windows reads inside the file, adds at most the bytes that are left to the
  sample budget, and never fails on a file as long as its size says.
\<close>

lemma sample_windows_ok:
  assumes "in_i64 sz" "int (length src) = sz" "0 \<le> window" "window + int k \<le> 2 ^ 43"
    and "sampled = sampleHashChunkSize * int n" "n \<le> 8" "int (length h) = sampled"
  shows "\<exists>c. sample_windows src sz k window sampled h = Inr (h @ c)
          \<and> int (length (h @ c)) \<le> sampleHashMaxBytes"
  using assms
proof (induction k arbitrary: window sampled h n)
  case 0
  then show ?case by (auto simp: sample_consts)
next
  case (Suc k)
  define offset where "offset = add64 (mul64 window sampleHashWindow) (sampleHashWindow sdiv 2)"
  have half: "sampleHashWindow sdiv 2 = 524288" by (simp add: sample_consts signed_divide_int_def)
  have off: "offset = window * 1048576 + 524288"
    using Suc.prems by (simp add: offset_def half mul64_id add64_id in_i64_def sample_consts)
  have off_end: "add64 offset sampleHashChunkSize = offset + 131072"
    using Suc.prems by (simp add: off add64_id in_i64_def sample_consts)
  show ?case
  proof (cases "sampled < sampleHashMaxBytes \<and> offset + 131072 \<le> sz")
    case False
    with Suc.prems off_end show ?thesis by (auto simp: offset_def Let_def sample_consts)
  next
    case True
    define c where "c = take (nat sampleHashChunkSize) (drop (nat offset) src)"
    have read: "readSample src sz offset sampleHashChunkSize h = Inr (h @ c)"
      unfolding c_def using True Suc.prems by (intro readSample_ok) (simp_all add: off sample_consts)
    have "nat offset + 131072 \<le> length src" using True Suc.prems by (simp add: off) linarith
    then have len: "length c = 131072" by (simp add: c_def sample_consts)
    have sampled: "add64 sampled sampleHashChunkSize = sampleHashChunkSize * int (Suc n)"
      and window: "add64 window 1 = window + 1"
      using Suc.prems by (simp_all add: add64_id in_i64_def sample_consts)
    have "\<exists>d. sample_windows src sz k (window + 1) (sampleHashChunkSize * int (Suc n)) (h @ c) = Inr ((h @ c) @ d)
            \<and> int (length ((h @ c) @ d)) \<le> sampleHashMaxBytes"
      by (rule Suc.IH [where n = "Suc n"]) (use Suc.prems True len in \<open>auto simp: sample_consts\<close>)
    then obtain d where
      "sample_windows src sz k (window + 1) (sampleHashChunkSize * int (Suc n)) (h @ c) = Inr ((h @ c) @ d)"
      "int (length ((h @ c) @ d)) \<le> sampleHashMaxBytes" by blast
    moreover have "sample_windows src sz (Suc k) window sampled h =
        sample_windows src sz k (window + 1) (sampleHashChunkSize * int (Suc n)) (h @ c)"
      using True off_end read sampled window by (simp add: offset_def [symmetric] Let_def)
    ultimately show ?thesis by (intro exI [of _ "c @ d"]) simp
  qed
qed

text \<open>
  The sampled fingerprint of a file of its stated size never fails and hashes at most one
  mebibyte whatever the size: the whole file when it has at most 256 KiB, otherwise its first and
  its last 128 KiB followed by interior windows.
\<close>

theorem sample_reads_bounded:
  assumes "0 \<le> sz" and "in_i64 sz" and "int (length src) = sz"
  shows "\<exists>h. sampled_bytes src sz = Inr h
           \<and> sampleSHA256 sha (Some src) sz = Inr (hex_encode (sha h))
           \<and> int (length h) \<le> sampleHashMaxBytes
           \<and> (sz \<le> 2 * sampleHashChunkSize \<longrightarrow> h = src)
           \<and> (sz > 2 * sampleHashChunkSize \<longrightarrow>
                (\<exists>c. h = take (nat sampleHashChunkSize) src
                        @ drop (nat (sz - sampleHashChunkSize)) src @ c))"
proof (cases "sz \<le> sampleHashChunkSize * 2")
  case True
  then have "sampled_bytes src sz = Inr src"
    using assms readSample_ok [of 0 sz sz src "[]"] by (simp add: sampled_bytes_def)
  with True assms show ?thesis by (simp add: sampleSHA256_def sample_consts)
next
  case False
  define h1 where "h1 = take (nat sampleHashChunkSize) src"
  define h2 where "h2 = drop (nat (sz - sampleHashChunkSize)) src"
  have sub: "sub64 sz sampleHashChunkSize = sz - sampleHashChunkSize"
    using assms False by (simp add: sub64_id in_i64_def sample_consts)
  have r1: "readSample src sz 0 sampleHashChunkSize [] = Inr h1"
    using False assms readSample_ok [of 0 sampleHashChunkSize sz src "[]"] by (simp add: h1_def sample_consts)
  have "take (nat sampleHashChunkSize) (drop (nat (sz - sampleHashChunkSize)) src) = h2"
    using assms False by (simp add: h2_def sample_consts)
  moreover have "readSample src sz (sz - sampleHashChunkSize) sampleHashChunkSize h1 =
      Inr (h1 @ take (nat sampleHashChunkSize) (drop (nat (sz - sampleHashChunkSize)) src))"
    by (rule readSample_ok) (use False assms in \<open>simp_all add: sample_consts\<close>)
  ultimately have r2: "readSample src sz (sz - sampleHashChunkSize) sampleHashChunkSize h1 = Inr (h1 @ h2)"
    by simp
  define k where "k = nat (max 1 ((sz - sampleHashChunkSize) sdiv sampleHashWindow))"
  have "(sz - sampleHashChunkSize) sdiv sampleHashWindow \<le> 2 ^ 43"
    using assms False by (simp add: signed_divide_int_def sample_consts in_i64_def sgn_if)
  then have "int k \<le> 2 ^ 43" by (simp add: k_def)
  then obtain c where c: "sample_windows src sz k 0 (sampleHashChunkSize * int 2) (h1 @ h2) = Inr ((h1 @ h2) @ c)"
      "int (length ((h1 @ h2) @ c)) \<le> sampleHashMaxBytes"
    using sample_windows_ok [of sz src 0 k "sampleHashChunkSize * int 2" 2 "h1 @ h2"] assms False
    by (auto simp: h1_def h2_def sample_consts)
  have "sampled_bytes src sz = Inr (h1 @ h2 @ c)"
    using False assms c(1) by (simp add: sampled_bytes_def r1 r2 sub k_def [symmetric] Let_def)
  with c(2) False show ?thesis by (simp add: sampleSHA256_def h1_def h2_def)
qed

theorem sample_reads_bounded_witness:
  "\<exists>h. sampled_bytes ''kigo'' 4 = Inr h \<and> sampleSHA256 (\<lambda>h. rev h) (Some ''kigo'') 4 = Inr (hex_encode (rev h))
     \<and> h = ''kigo''"
  using sample_reads_bounded [of 4 "''kigo''" "\<lambda>h. rev h"] by (auto simp: in_i64_def sample_consts)

end
