(* ===== verification/Manifest_Check.thy ===== *)
theory Manifest_Check
  imports Protocol Go_Paths Chunk_Codec
begin

text \<open>
  The validation of untrusted input at the receiver (the second half of
  internal/transfer/receive_store.go): names and symlink targets of a manifest, the manifest as
  a whole, the range of a chunk. On Unix \<open>filepath.ToSlash\<close> and \<open>FromSlash\<close> are the identity.
  The map \<open>paths\<close> of \<open>validateManifest\<close> is an association list in insertion order; Go visits it
  in an arbitrary order, which can change which error is returned but not whether one is.
\<close>

datatype manifest_error =
    ManifestNil
  | ManifestVersion int
  | ManifestEmpty
  | ItemNameEmpty
  | ItemNegativeSize string
  | ItemChunkSize string
  | ItemSHA string
  | ItemSample string
  | FileHasTarget string
  | TextHasSample string
  | DirectoryHasData string
  | SymlinkHasData string
  | UnsupportedKind
  | DuplicatePath string
  | NonDirectoryParent string string
  | EmptyPath
  | AbsolutePath string
  | UnsafePath string
  | EmptyTarget string
  | AbsoluteTarget string
  | DriveTarget string
  | UnsafeTarget string

definition slashes :: "string \<Rightarrow> string" where
  "slashes s = map (\<lambda>c. if byte_val c = 92 then Separator else c) s"

definition isHexSHA256 :: "string \<Rightarrow> bool" where
  "isHexSHA256 v \<longleftrightarrow> length v = 64 \<and> list_all is_hex_digit v"

definition safeRelativePath :: "string \<Rightarrow> (manifest_error, string) result" where
  "safeRelativePath name0 =
     (let name = slashes name0; clean = Clean name
      in if clean = ''.'' \<or> clean = [Separator] \<or> clean = '''' then Inl EmptyPath
         else if IsAbs clean then Inl (AbsolutePath name)
         else let parts = elements clean
           in if \<exists>part\<in>set parts. part = '''' \<or> part = ''.'' \<or> part = ''..'' then Inl (UnsafePath name)
              else Inr (join_with Separator parts))"

definition validateSafeSymlinkTarget :: "string \<Rightarrow> string \<Rightarrow> (manifest_error, unit) result" where
  "validateSafeSymlinkTarget name target =
     (if target = '''' \<or> (\<exists>c\<in>set target. byte_val c = 0) then Inl (EmptyTarget name)
      else let normalized = slashes target
        in if IsAbs normalized then Inl (AbsoluteTarget name)
           else if length normalized \<ge> 2 \<and> normalized ! 1 = CHR '':'' then Inl (DriveTarget name)
           else if ''..'' \<in> set (elements normalized) then Inl (UnsafeTarget name)
           else Inr ())"

text \<open>One round of the loop over the manifest's items: the checks of an item, then its path.\<close>

definition check_fields :: "Item \<Rightarrow> (manifest_error, unit) result" where
  "check_fields item =
     (let name = item_name item in
      rbind (check (name \<noteq> '''') ItemNameEmpty) (\<lambda>_.
      rbind (check (\<not> item_size item < 0) (ItemNegativeSize name)) (\<lambda>_.
      rbind (check (\<not> (item_chunk_size item \<le> 0 \<or> item_chunk_size item > ChunkSize)) (ItemChunkSize name)) (\<lambda>_.
      rbind (check (\<not> (item_sha256 item \<noteq> '''' \<and> \<not> isHexSHA256 (item_sha256 item))) (ItemSHA name)) (\<lambda>_.
        check (\<not> (item_sample item \<noteq> '''' \<and> \<not> isHexSHA256 (item_sample item))) (ItemSample name))))))"

text \<open>The switch over the item's kind; the result is \<open>hasPath\<close>.\<close>

definition check_kind :: "Item \<Rightarrow> (manifest_error, bool) result" where
  "check_kind item =
     (let name = item_name item in
      case item_kind item of
        ItemFile \<Rightarrow> if item_target item \<noteq> '''' then Inl (FileHasTarget name) else Inr True
      | ItemText \<Rightarrow> if item_sample item \<noteq> '''' then Inl (TextHasSample name) else Inr False
      | ItemDirectory \<Rightarrow>
          if item_size item \<noteq> 0 \<or> item_sha256 item \<noteq> '''' \<or> item_sample item \<noteq> ''''
             \<or> item_target item \<noteq> '''' \<or> item_resume item
          then Inl (DirectoryHasData name) else Inr True
      | ItemSymlink \<Rightarrow>
          if item_size item \<noteq> 0 \<or> item_sha256 item \<noteq> '''' \<or> item_sample item \<noteq> '''' \<or> item_resume item
          then Inl (SymlinkHasData name)
          else rbind (validateSafeSymlinkTarget name (item_target item)) (\<lambda>_. Inr True)
      | ItemOther k \<Rightarrow> Inl UnsupportedKind)"

type_synonym path_kinds = "(string \<times> ItemKind) list"

definition validate_item :: "Item \<Rightarrow> path_kinds \<Rightarrow> (manifest_error, path_kinds) result" where
  "validate_item item paths =
     rbind (check_fields item) (\<lambda>_.
     rbind (check_kind item) (\<lambda>hasPath.
       if hasPath then
         rbind (safeRelativePath (item_name item)) (\<lambda>key.
           if map_of paths key \<noteq> None then Inl (DuplicatePath (item_name item))
           else Inr (paths @ [(key, item_kind item)]))
       else Inr paths))"

definition check_parents :: "path_kinds \<Rightarrow> string \<times> ItemKind \<Rightarrow> unit \<Rightarrow> (manifest_error, unit) result" where
  "check_parents paths entry _ =
     (let parts = elements (fst entry) in
      foldM (\<lambda>n _. let parent = join_with Separator (take n parts) in
               case map_of paths parent of
                 Some kind \<Rightarrow> if kind \<noteq> ItemDirectory then Inl (NonDirectoryParent (fst entry) parent) else Inr ()
               | None \<Rightarrow> Inr ())
        [1..<length parts] ())"

definition validateManifest :: "Manifest option \<Rightarrow> (manifest_error, unit) result" where
  "validateManifest manifest =
     (case manifest of
        None \<Rightarrow> Inl ManifestNil
      | Some m \<Rightarrow>
          if mf_version m \<noteq> Version then Inl (ManifestVersion (mf_version m))
          else if mf_items m = [] then Inl ManifestEmpty
          else rbind (foldM validate_item (mf_items m) []) (\<lambda>paths. foldM (check_parents paths) paths ()))"

datatype chunk_bounds_error = NegativeOffset | ExceedsSize | UnexpectedOffset

definition validateChunkRange :: "Item \<Rightarrow> int \<Rightarrow> int \<Rightarrow> (chunk_bounds_error, unit) result" where
  "validateChunkRange item offset dataLen =
     (if offset < 0 then Inl NegativeOffset
      else let stop = add64 offset dataLen
        in if stop < offset \<or> stop > item_size item then Inl ExceedsSize else Inr ())"

definition validateChunkBounds :: "Item \<Rightarrow> int \<Rightarrow> int \<Rightarrow> int \<Rightarrow> (chunk_bounds_error, unit) result" where
  "validateChunkBounds item offset dataLen expectedOffset =
     rbind (validateChunkRange item offset dataLen) (\<lambda>_.
       if offset \<noteq> expectedOffset then Inl UnexpectedOffset else Inr ())"

section \<open>What a validated name and a validated manifest guarantee\<close>

lemma safeRelativePath_plain:
  assumes "safeRelativePath name = Inr p"
  obtains ns where "ns \<noteq> []" "plain_all ns" "p = join_with Separator ns" "elements p = ns"
proof -
  define ns where "ns = elements (Clean (slashes name))"
  have "p = join_with Separator ns" "\<forall>e\<in>set ns. e \<noteq> '''' \<and> e \<noteq> ''.'' \<and> e \<noteq> ''..''"
    using assms by (auto simp: safeRelativePath_def ns_def Let_def split: if_splits)
  moreover have "\<forall>e\<in>set ns. Separator \<notin> set e" by (auto simp: ns_def split_on_no_sep)
  ultimately have "plain_all ns" "p = join_with Separator ns" by (auto simp: plain_all_def plain_def)
  moreover have "ns \<noteq> []" by (simp add: ns_def)
  ultimately show ?thesis using split_join_on [of ns Separator] that by (auto simp: plain_all_def plain_def)
qed

lemma validateChunkRange_ok:
  assumes "validateChunkRange item offset len = Inr u" and "in_i64 offset" "in_i64 len" "0 \<le> len"
  shows "0 \<le> offset" and "offset + len \<le> item_size item" and "add64 offset len = offset + len"
proof -
  show o: "0 \<le> offset" using assms(1) by (auto simp: validateChunkRange_def split: if_splits)
  have "in_i64 (offset + len)"
    using assms o add64_overflow [of offset len] by (auto simp: validateChunkRange_def Let_def split: if_splits)
  then show "add64 offset len = offset + len" by (rule add64_id)
  with assms(1) show "offset + len \<le> item_size item"
    by (auto simp: validateChunkRange_def Let_def split: if_splits)
qed

text \<open>The paths recorded by the item loop, as the key of every item that has a path.\<close>

definition has_path :: "Item \<Rightarrow> bool" where
  "has_path item \<longleftrightarrow> item_kind item \<in> {ItemFile, ItemDirectory, ItemSymlink}"

definition path_key :: "Item \<Rightarrow> string" where
  "path_key item = (case safeRelativePath (item_name item) of Inl _ \<Rightarrow> '''' | Inr key \<Rightarrow> key)"

definition keyed :: "Item list \<Rightarrow> path_kinds" where
  "keyed items = map (\<lambda>item. (path_key item, item_kind item)) (filter has_path items)"

definition item_safe :: "Item \<Rightarrow> bool" where
  "item_safe item \<longleftrightarrow>
     0 \<le> item_size item \<and> 0 < item_chunk_size item \<and> item_chunk_size item \<le> ChunkSize
     \<and> item_kind item \<in> {ItemFile, ItemText, ItemDirectory, ItemSymlink}
     \<and> (has_path item \<longrightarrow> safeRelativePath (item_name item) = Inr (path_key item))
     \<and> (item_kind item = ItemSymlink \<longrightarrow> validateSafeSymlinkTarget (item_name item) (item_target item) = Inr ())"

lemma check_kind_hasPath: "check_kind item = Inr h \<Longrightarrow> h = has_path item"
  by (auto simp: check_kind_def has_path_def Let_def result_simps split: ItemKind.splits if_splits)

lemma validate_item_safe:
  assumes "validate_item item paths = Inr paths'"
  shows "item_safe item" and "paths' = paths @ keyed [item]"
    and "has_path item \<Longrightarrow> path_key item \<notin> fst ` set paths"
proof -
  obtain h where f: "check_fields item = Inr ()" and k: "check_kind item = Inr h"
    using assms by (auto simp: validate_item_def result_simps)
  then have h: "h = has_path item" by (simp add: check_kind_hasPath)
  have rest: "if has_path item then \<exists>key. safeRelativePath (item_name item) = Inr key
        \<and> map_of paths key = None \<and> paths' = paths @ [(key, item_kind item)] else paths' = paths"
    using assms f k h by (auto simp: validate_item_def result_simps split: if_splits)
  have kind: "item_kind item \<in> {ItemFile, ItemText, ItemDirectory, ItemSymlink}"
    "item_kind item = ItemSymlink \<longrightarrow> validateSafeSymlinkTarget (item_name item) (item_target item) = Inr ()"
    using k by (auto simp: check_kind_def Let_def result_simps split: ItemKind.splits if_splits)
  have "0 \<le> item_size item" "0 < item_chunk_size item" "item_chunk_size item \<le> ChunkSize"
    using f by (auto simp: check_fields_def Let_def result_simps)
  with kind rest show "item_safe item" by (auto simp: item_safe_def path_key_def split: if_splits)
  show "paths' = paths @ keyed [item]" using rest by (auto simp: keyed_def path_key_def split: if_splits)
  show "has_path item \<Longrightarrow> path_key item \<notin> fst ` set paths"
    using rest by (auto simp: path_key_def map_of_eq_None_iff split: if_splits) (metis fst_conv image_eqI)
qed

lemma validate_items_safe:
  assumes "foldM validate_item items [] = Inr paths"
  shows "(\<forall>item\<in>set items. item_safe item) \<and> paths = keyed items \<and> distinct (map fst (keyed items))"
  using assms
proof (induction items arbitrary: paths rule: rev_induct)
  case (snoc item items)
  then obtain ps where ps: "foldM validate_item items [] = Inr ps" and last: "validate_item item ps = Inr paths"
    by (auto simp: foldM_snoc result_simps)
  have "fst ` set (keyed items) = path_key ` {x \<in> set items. has_path x}"
    by (auto simp: keyed_def image_image)
  moreover have "keyed (items @ [item]) = keyed items @ keyed [item]"
    "keyed [item] = (if has_path item then [(path_key item, item_kind item)] else [])"
    by (simp_all add: keyed_def)
  ultimately show ?case using snoc.IH [OF ps] validate_item_safe [OF last] by auto
qed (simp add: keyed_def)

lemma foldM_unit_all:
  "foldM f xs () = Inr u \<longleftrightarrow> (\<forall>x\<in>set xs. f x () = Inr ())"
  by (induction xs) (auto simp: result_simps)

lemma check_parents_ok:
  "check_parents paths entry () = Inr u \<longleftrightarrow>
     (\<forall>n. 1 \<le> n \<and> n < length (elements (fst entry)) \<longrightarrow>
        map_of paths (join_with Separator (take n (elements (fst entry)))) \<in> {None, Some ItemDirectory})"
proof -
  have one: "(case x of None \<Rightarrow> Inr () | Some kind \<Rightarrow> if kind \<noteq> ItemDirectory then Inl e else Inr ()) = Inr ()
      \<longleftrightarrow> x \<in> {None, Some ItemDirectory}" for x and e :: manifest_error
    by (cases x) auto
  show ?thesis unfolding check_parents_def foldM_unit_all Let_def one by auto
qed

text \<open>
  The tree a manifest describes is consistent: an accepted manifest has only safe items, no two
  items with the same path, and an item whose path lies below another item's path lies below a
  directory.
\<close>

definition tree_consistent :: "Item list \<Rightarrow> bool" where
  "tree_consistent items \<longleftrightarrow>
     distinct (map path_key (filter has_path items))
     \<and> (\<forall>a\<in>set items. \<forall>b\<in>set items. has_path a \<and> has_path b
          \<and> (\<exists>n\<ge>1. n < length (elements (path_key b)) \<and> elements (path_key a) = take n (elements (path_key b)))
          \<longrightarrow> item_kind a = ItemDirectory)"

lemma distinct_map_of: "distinct (map fst xs) \<Longrightarrow> (k, v) \<in> set xs \<Longrightarrow> map_of xs k = Some v"
  by simp

lemma validateManifest_inv:
  assumes "validateManifest (Some m) = Inr ()"
  shows "mf_version m = Version" "mf_items m \<noteq> []" "\<forall>item\<in>set (mf_items m). item_safe item"
    "tree_consistent (mf_items m)"
proof -
  obtain paths where p: "foldM validate_item (mf_items m) [] = Inr paths"
      and q: "foldM (check_parents paths) paths () = Inr ()"
    and v: "mf_version m = Version" "mf_items m \<noteq> []"
    using assms by (auto simp: validateManifest_def result_simps split: if_splits)
  show "mf_version m = Version" "mf_items m \<noteq> []" by fact+
  from validate_items_safe [OF p] have safe: "\<forall>item\<in>set (mf_items m). item_safe item"
      and paths: "paths = keyed (mf_items m)" and dist: "distinct (map fst paths)" by auto
  show "\<forall>item\<in>set (mf_items m). item_safe item" by fact
  have "item_kind a = ItemDirectory"
    if ab: "a \<in> set (mf_items m)" "b \<in> set (mf_items m)" "has_path a" "has_path b"
      and n: "1 \<le> n" "n < length (elements (path_key b))"
      and eq: "elements (path_key a) = take n (elements (path_key b))" for a b n
  proof -
    have mem: "(path_key a, item_kind a) \<in> set paths" "(path_key b, item_kind b) \<in> set paths"
      using ab by (auto simp: paths keyed_def)
    have "map_of paths (join_with Separator (take n (elements (path_key b)))) \<in> {None, Some ItemDirectory}"
    proof -
      have "check_parents paths (path_key b, item_kind b) () = Inr ()"
        using q mem(2) unfolding foldM_unit_all by blast
      with n show ?thesis unfolding check_parents_ok by simp
    qed
    moreover have "join_with Separator (take n (elements (path_key b))) = path_key a"
      unfolding eq [symmetric] by (rule join_split_on)
    ultimately show ?thesis using distinct_map_of [OF dist mem(1)] by auto
  qed
  moreover have "distinct (map path_key (filter has_path (mf_items m)))"
    using dist by (simp add: paths keyed_def comp_def)
  ultimately show "tree_consistent (mf_items m)" by (auto simp: tree_consistent_def)
qed

text \<open>Turning backslashes into separators only splits elements further.\<close>

lemma elements_join: "ps \<noteq> [] \<Longrightarrow> elements (join_with Separator ps) = concat (map elements ps)"
  by (induction ps rule: induct_list012) (auto simp: elements_append_sep)

lemma slashes_join: "slashes (join_with Separator ps) = join_with Separator (map slashes ps)"
  by (induction ps rule: induct_list012) (auto simp: slashes_def)

lemma elements_slashes:
  assumes "e \<in> set (elements t)" and "\<forall>c\<in>set e. byte_val c \<noteq> 92"
  shows "e \<in> set (elements (slashes t))"
proof -
  have "slashes e = e" using assms(2) by (auto simp: slashes_def intro: map_idI)
  moreover have "elements e = [e]" using split_on_no_sep [OF assms(1)] by (rule split_on_single)
  moreover have "elements (slashes t) = concat (map elements (map slashes (elements t)))"
    using slashes_join [of "elements t"] elements_join [of "map slashes (elements t)"]
    by (simp add: join_split_on)
  ultimately show ?thesis using assms(1) by (auto simp: comp_def) (metis list.set_intros(1))
qed

lemma safe_target:
  assumes "validateSafeSymlinkTarget name target = Inr ()"
  shows "\<not> IsAbs target" "''..'' \<notin> set (elements target)"
proof -
  have n: "\<not> IsAbs (slashes target)" "''..'' \<notin> set (elements (slashes target))"
    using assms by (auto simp: validateSafeSymlinkTarget_def Let_def split: if_splits)
  then show "''..'' \<notin> set (elements target)" using elements_slashes [of "''..''" target] by auto
  show "\<not> IsAbs target" using n(1) by (cases target) (auto simp: IsAbs_def slashes_def)
qed

text \<open>
C6: What the receiver accepts as a manifest cannot name a place outside the output directory or
an inconsistent tree. Every accepted manifest has non-negative sizes and chunk sizes of at most
64 KiB; the path of each file, directory and symlink is a non-empty sequence of elements other
than the empty one, a dot and two dots; symlink targets are relative and have no two-dot element;
no two items share a path, and what lies below another item lies below a directory.
\<close>

theorem accepted_manifest_safe:
  assumes "validateManifest (Some m) = Inr ()"
  shows "(\<forall>item\<in>set (mf_items m).
           0 \<le> item_size item \<and> item_chunk_size item \<in> {0<..ChunkSize}
           \<and> (has_path item \<longrightarrow> (\<exists>ns. ns \<noteq> [] \<and> plain_all ns
                 \<and> safeRelativePath (item_name item) = Inr (join_with Separator ns)))
           \<and> (item_kind item = ItemSymlink \<longrightarrow>
                 \<not> IsAbs (item_target item) \<and> ''..'' \<notin> set (elements (item_target item))))
         \<and> tree_consistent (mf_items m)"
proof (intro conjI ballI)
  show "tree_consistent (mf_items m)" by (rule validateManifest_inv [OF assms])
next
  fix item
  assume "item \<in> set (mf_items m)"
  then have safe: "item_safe item" using validateManifest_inv(3) [OF assms] by blast
  then show "0 \<le> item_size item" "item_chunk_size item \<in> {0<..ChunkSize}"
    by (auto simp: item_safe_def)
  show "has_path item \<longrightarrow> (\<exists>ns. ns \<noteq> [] \<and> plain_all ns
          \<and> safeRelativePath (item_name item) = Inr (join_with Separator ns))"
    using safe safeRelativePath_plain by (metis item_safe_def)
  show "item_kind item = ItemSymlink \<longrightarrow>
      \<not> IsAbs (item_target item) \<and> ''..'' \<notin> set (elements (item_target item))"
    using safe safe_target by (auto simp: item_safe_def)
qed

text \<open>A manifest with a directory, a file in it and a symlink to that file is accepted.\<close>

definition tree_item :: "ItemKind \<Rightarrow> string \<Rightarrow> int \<Rightarrow> string \<Rightarrow> Item" where
  "tree_item kind name sz target =
     \<lparr>item_kind = kind, item_name = name, item_size = sz, item_mtime = 0, item_mode = 0,
      item_sha256 = '''', item_sample = '''', item_target = target, item_chunk_size = ChunkSize,
      item_resume = False\<rparr>"

definition tree_manifest :: Manifest where
  "tree_manifest = \<lparr>mf_version = 1,
     mf_items = [tree_item ItemDirectory ''d'' 0 '''', tree_item ItemFile ''d/f'' 5 '''',
                 tree_item ItemSymlink ''l'' 0 ''d/f''],
     mf_streams = []\<rparr>"

lemma tree_manifest_valid: "validateManifest (Some tree_manifest) = Inr ()"
  by code_simp

theorem accepted_manifest_safe_witness:
  "validateManifest (Some tree_manifest) = Inr () \<and> tree_consistent (mf_items tree_manifest)"
  using accepted_manifest_safe [OF tree_manifest_valid] tree_manifest_valid by blast

end
