(* ===== verification/File_System.thy ===== *)
theory File_System
  imports Go_Paths
begin

text \<open>
  The Unix file system behind the \<open>os\<close> calls of the receiver, as far as those calls use it.
  Entries are stored under physical paths (lists of names from the root); regular files and
  directories refer to an inode, so that an open file stays the same file when its name changes
  and hard links are two names of one inode. Name resolution follows symbolic links in every
  directory on the way (with the kernel's limit of 40) and, for the calls that follow them, at
  the end. The calls of one process are modelled: another process does not change the tree, and
  the calls do not fail for lack of permission or space.
\<close>

type_synonym phys = "string list"

datatype node = NReg nat | NDir nat | NLink string

record inode =
  ino_data :: string
  ino_mode :: "32 word"
  ino_mtime :: int

record fs =
  fs_ents :: "phys \<Rightarrow> node option"
  fs_inodes :: "nat \<Rightarrow> inode"
  fs_next :: nat
  fs_cwd :: phys

datatype os_error = ENOENT | ENOTDIR | EEXIST | EISDIR | ELOOP | EINVAL

definition IsNotExist :: "os_error \<Rightarrow> bool" where
  "IsNotExist e \<longleftrightarrow> e = ENOENT"

definition IsExist :: "os_error \<Rightarrow> bool" where
  "IsExist e \<longleftrightarrow> e = EEXIST"

definition symlink_limit :: nat where
  "symlink_limit = 40"

section \<open>Name resolution\<close>

definition names :: "string \<Rightarrow> string list" where
  "names p = filter (\<lambda>e. e \<noteq> '''' \<and> e \<noteq> ''.'') (elements p)"

definition start_dir :: "phys \<Rightarrow> string \<Rightarrow> phys" where
  "start_dir cur p = (if IsAbs p then [] else cur)"

text \<open>Walking to a directory through \<open>n\<close> remaining symbolic links.\<close>

function walk :: "(phys \<Rightarrow> node option) \<Rightarrow> nat \<Rightarrow> phys \<Rightarrow> string list \<Rightarrow> (os_error, nat \<times> phys) result" where
  "walk ents n cur [] = Inr (n, cur)"
| "walk ents n cur (e # es) =
     (if e = ''..'' then walk ents n (butlast cur) es
      else case ents (cur @ [e]) of
        None \<Rightarrow> Inl ENOENT
      | Some (NReg _) \<Rightarrow> Inl ENOTDIR
      | Some (NDir _) \<Rightarrow> walk ents n (cur @ [e]) es
      | Some (NLink t) \<Rightarrow>
          (case n of 0 \<Rightarrow> Inl ELOOP | Suc m \<Rightarrow> walk ents m (start_dir cur t) (names t @ es)))"
  by pat_completeness auto
termination
  by (relation "measures [\<lambda>(ents, n, cur, es). n, \<lambda>(ents, n, cur, es). length es]") auto

declare walk.simps(2) [simp del]

lemma walk_fuel: "walk ents n cur es = Inr (m, p) \<Longrightarrow> m \<le> n"
proof (induction ents n cur es rule: walk.induct)
  case (2 ents n cur e es)
  then show ?case
    by (fastforce simp: walk.simps(2) [of ents n cur e es] split: if_splits option.splits node.splits nat.splits)
qed simp

text \<open>
  The entry a path names: the place of its last element. With \<open>follow\<close>, a symbolic link there is
  resolved in turn. The place may be empty.
\<close>

function namei :: "(phys \<Rightarrow> node option) \<Rightarrow> bool \<Rightarrow> nat \<Rightarrow> phys \<Rightarrow> string list \<Rightarrow> (os_error, phys) result" where
  "namei ents follow n cur es =
     (if es = [] then Inr cur
      else case walk ents n cur (butlast es) of
        Inl e \<Rightarrow> Inl e
      | Inr (m, dir) \<Rightarrow>
          if last es = ''..'' then Inr (butlast dir)
          else case ents (dir @ [last es]) of
            Some (NLink t) \<Rightarrow>
              (if follow then (case m of 0 \<Rightarrow> Inl ELOOP | Suc k \<Rightarrow> namei ents follow k (start_dir dir t) (names t))
               else Inr (dir @ [last es]))
          | _ \<Rightarrow> Inr (dir @ [last es]))"
  by pat_completeness auto
termination
  by (relation "measure (\<lambda>(ents, follow, n, cur, es). n)") (auto dest: walk_fuel)

declare namei.simps [simp del]

definition resolve :: "fs \<Rightarrow> bool \<Rightarrow> string \<Rightarrow> (os_error, phys) result" where
  "resolve f follow p =
     (if p = [] then Inl ENOENT
      else namei (fs_ents f) follow symlink_limit (start_dir (fs_cwd f) p) (names p))"

text \<open>What the root directory and a resolved place hold; the root always is a directory.\<close>

definition entry_at :: "fs \<Rightarrow> phys \<Rightarrow> node option" where
  "entry_at f q = (if q = [] then Some (NDir 0) else fs_ents f q)"

definition existing :: "fs \<Rightarrow> bool \<Rightarrow> string \<Rightarrow> (os_error, phys \<times> node) result" where
  "existing f follow p =
     rbind (resolve f follow p) (\<lambda>q. case entry_at f q of None \<Rightarrow> Inl ENOENT | Some nd \<Rightarrow> Inr (q, nd))"

section \<open>The calls\<close>

definition Lstat :: "fs \<Rightarrow> string \<Rightarrow> (os_error, node) result" where
  "Lstat f p = rbind (existing f False p) (\<lambda>(q, nd). Inr nd)"

definition Stat :: "fs \<Rightarrow> string \<Rightarrow> (os_error, node) result" where
  "Stat f p = rbind (existing f True p) (\<lambda>(q, nd). Inr nd)"

definition is_dir :: "node \<Rightarrow> bool" where
  "is_dir nd \<longleftrightarrow> (case nd of NDir _ \<Rightarrow> True | _ \<Rightarrow> False)"

definition is_regular :: "node \<Rightarrow> bool" where
  "is_regular nd \<longleftrightarrow> (case nd of NReg _ \<Rightarrow> True | _ \<Rightarrow> False)"

definition is_link :: "node \<Rightarrow> bool" where
  "is_link nd \<longleftrightarrow> (case nd of NLink _ \<Rightarrow> True | _ \<Rightarrow> False)"

definition node_size :: "fs \<Rightarrow> node \<Rightarrow> int" where
  "node_size f nd =
     (case nd of NReg i \<Rightarrow> int (length (ino_data (fs_inodes f i))) | NDir i \<Rightarrow> 0 | NLink t \<Rightarrow> int (length t))"

definition set_entry :: "phys \<Rightarrow> node option \<Rightarrow> fs \<Rightarrow> fs" where
  "set_entry q nd f = f\<lparr>fs_ents := (fs_ents f)(q := nd)\<rparr>"

definition set_inode :: "nat \<Rightarrow> inode \<Rightarrow> fs \<Rightarrow> fs" where
  "set_inode i ino f = f\<lparr>fs_inodes := (fs_inodes f)(i := ino)\<rparr>"

definition fresh :: "32 word \<Rightarrow> fs \<Rightarrow> fs" where
  "fresh mode f =
     set_inode (fs_next f) \<lparr>ino_data = [], ino_mode = mode, ino_mtime = 0\<rparr> f\<lparr>fs_next := Suc (fs_next f)\<rparr>"

definition Mkdir :: "32 word \<Rightarrow> string \<Rightarrow> fs \<Rightarrow> (os_error, fs) result" where
  "Mkdir mode p f =
     rbind (resolve f False p) (\<lambda>q.
       if entry_at f q \<noteq> None then Inl EEXIST
       else Inr (set_entry q (Some (NDir (fs_next f))) (fresh mode f)))"

text \<open>\<open>os.MkdirAll\<close>: the parent first (the path up to its last element, trailing separators aside).\<close>

definition parent_part :: "string \<Rightarrow> string" where
  "parent_part p = before_last (rev (dropWhile (\<lambda>c. c = Separator) (rev p)))"

lemma parent_part_shorter: "parent_part p \<noteq> [] \<Longrightarrow> length (parent_part p) < length p"
proof -
  assume ne: "parent_part p \<noteq> []"
  define xs where "xs = dropWhile (\<lambda>c. c = Separator) (rev p)"
  have le: "length (dropWhile P ys) \<le> length ys" for P and ys :: string by (induction ys) auto
  have pp: "parent_part p = rev (dropWhile (\<lambda>c. c \<noteq> Separator) xs)"
    by (simp add: parent_part_def before_last_def xs_def)
  have "xs \<noteq> []"
  proof
    assume "xs = []"
    with pp ne show False by simp
  qed
  then have "hd xs \<noteq> Separator" unfolding xs_def by (rule hd_dropWhile)
  with \<open>xs \<noteq> []\<close> have "length (dropWhile (\<lambda>c. c \<noteq> Separator) xs) < length xs"
    using le [of "\<lambda>c. c \<noteq> Separator" "tl xs"] by (cases xs) auto
  moreover have "length xs \<le> length p" using le [of "\<lambda>c. c = Separator" "rev p"] by (simp add: xs_def)
  ultimately show ?thesis by (simp add: pp)
qed

function MkdirAll :: "string \<Rightarrow> (fs, os_error, unit) act" where
  "MkdirAll p f =
     (case Stat f p of
        Inr nd \<Rightarrow> guard_act (is_dir nd) ENOTDIR f
      | Inl _ \<Rightarrow>
          (case (if parent_part p \<noteq> [] then MkdirAll (parent_part p) f else (Inr (), f)) of
             (Inl e, f1) \<Rightarrow> (Inl e, f1)
           | (Inr _, f1) \<Rightarrow>
               (case Mkdir 493 p f1 of
                  Inr f2 \<Rightarrow> (Inr (), f2)
                | Inl e \<Rightarrow> (case Lstat f1 p of
                             Inr nd \<Rightarrow> guard_act (is_dir nd) e f1
                           | Inl _ \<Rightarrow> (Inl e, f1)))))"
  by pat_completeness auto
termination
  by (relation "measure (\<lambda>(p, f). length p)") (auto intro: parent_part_shorter)

declare MkdirAll.simps [simp del]

text \<open>\<open>OpenFile\<close> with \<open>O_CREATE | O_WRONLY\<close>; the handle is the inode.\<close>

definition OpenCreate :: "32 word \<Rightarrow> string \<Rightarrow> fs \<Rightarrow> (os_error, nat \<times> fs) result" where
  "OpenCreate mode p f =
     rbind (resolve f True p) (\<lambda>q.
       case entry_at f q of
         None \<Rightarrow> Inr (fs_next f, set_entry q (Some (NReg (fs_next f))) (fresh mode f))
       | Some (NReg i) \<Rightarrow> Inr (i, f)
       | Some (NDir _) \<Rightarrow> Inl EISDIR
       | Some (NLink _) \<Rightarrow> Inl ELOOP)"

definition zero_bytes :: "nat \<Rightarrow> string" where
  "zero_bytes n = replicate n (char_of (0::nat))"

definition truncate_to :: "nat \<Rightarrow> string \<Rightarrow> string" where
  "truncate_to n d = take n d @ zero_bytes (n - length d)"

definition write_at :: "nat \<Rightarrow> string \<Rightarrow> string \<Rightarrow> string" where
  "write_at off bs d = (if bs = [] then d else take off d @ zero_bytes (off - length d) @ bs @ drop (off + length bs) d)"

definition set_data :: "nat \<Rightarrow> string \<Rightarrow> fs \<Rightarrow> fs" where
  "set_data i d f = set_inode i ((fs_inodes f i)\<lparr>ino_data := d\<rparr>) f"

definition Truncate :: "nat \<Rightarrow> int \<Rightarrow> fs \<Rightarrow> (os_error, fs) result" where
  "Truncate i n f =
     (if n < 0 then Inl EINVAL else Inr (set_data i (truncate_to (nat n) (ino_data (fs_inodes f i))) f))"

definition WriteAt :: "nat \<Rightarrow> string \<Rightarrow> int \<Rightarrow> fs \<Rightarrow> (os_error, fs) result" where
  "WriteAt i bs off f =
     (if off < 0 then Inl EINVAL else Inr (set_data i (write_at (nat off) bs (ino_data (fs_inodes f i))) f))"

text \<open>Reading a whole file by name (\<open>os.Open\<close> and \<open>io.Copy\<close>); a directory cannot be read.\<close>

definition ReadFile :: "fs \<Rightarrow> string \<Rightarrow> (os_error, string) result" where
  "ReadFile f p =
     rbind (Stat f p) (\<lambda>nd. case nd of NReg i \<Rightarrow> Inr (ino_data (fs_inodes f i)) | _ \<Rightarrow> Inl EISDIR)"

definition Readlink :: "fs \<Rightarrow> string \<Rightarrow> (os_error, string) result" where
  "Readlink f p = rbind (Lstat f p) (\<lambda>nd. case nd of NLink t \<Rightarrow> Inr t | _ \<Rightarrow> Inl EINVAL)"

text \<open>
  \<open>Rename\<close> and \<open>Remove\<close> of something that is not a directory, which is all the receiver does with
  them; two names of one file are left as they are, as the kernel does.
\<close>

definition Rename :: "string \<Rightarrow> string \<Rightarrow> fs \<Rightarrow> (os_error, fs) result" where
  "Rename old new f =
     rbind (existing f False old) (\<lambda>(q, nd).
     rbind (resolve f False new) (\<lambda>r.
       if is_dir nd then Inl EISDIR
       else case entry_at f r of
         Some nd' \<Rightarrow>
           if is_dir nd' then Inl EEXIST
           else if nd' = nd \<and> is_regular nd \<or> q = r then Inr f
           else Inr (set_entry q None (set_entry r (Some nd) f))
       | None \<Rightarrow> Inr (set_entry q None (set_entry r (Some nd) f))))"

definition Remove :: "string \<Rightarrow> fs \<Rightarrow> (os_error, fs) result" where
  "Remove p f =
     rbind (existing f False p) (\<lambda>(q, nd). if is_dir nd then Inl EISDIR else Inr (set_entry q None f))"

definition Symlink :: "string \<Rightarrow> string \<Rightarrow> fs \<Rightarrow> (os_error, fs) result" where
  "Symlink target p f =
     (if target = [] then Inl ENOENT
      else rbind (resolve f False p) (\<lambda>q.
        if entry_at f q \<noteq> None then Inl EEXIST else Inr (set_entry q (Some (NLink target)) f)))"

definition inode_of :: "node \<Rightarrow> nat" where
  "inode_of nd = (case nd of NReg i \<Rightarrow> i | NDir i \<Rightarrow> i | NLink _ \<Rightarrow> 0)"

definition Chmod :: "string \<Rightarrow> 32 word \<Rightarrow> fs \<Rightarrow> (os_error, fs) result" where
  "Chmod p mode f =
     rbind (existing f True p) (\<lambda>(q, nd).
       Inr (set_inode (inode_of nd) ((fs_inodes f (inode_of nd))\<lparr>ino_mode := mode\<rparr>) f))"

definition Chtimes :: "string \<Rightarrow> int \<Rightarrow> fs \<Rightarrow> (os_error, fs) result" where
  "Chtimes p mtime f =
     rbind (existing f True p) (\<lambda>(q, nd).
       Inr (set_inode (inode_of nd) ((fs_inodes f (inode_of nd))\<lparr>ino_mtime := mtime\<rparr>) f))"

end
