(* ===== verification/Receive_Store.thy ===== *)
theory Receive_Store
  imports Mux_Plan Byte_Ranges Manifest_Check File_System
begin

text \<open>
  The receiver's store (internal/transfer/receive_store.go): it opens part files for the files of
  a manifest, negotiates resume offsets, writes chunks and finally moves everything in place. The
  state of an action is the store together with the file system, and an action that fails keeps
  what it did before. Logging has no effect and is left out. Go's maps from item numbers are maps;
  where the code ranges over one, the order of the visit is the argument \<open>ord\<close>. SHA-256 is the
  parameter \<open>sha\<close>.
\<close>

section \<open>State\<close>

record receiveFile =
  rf_file :: "nat option"
  rf_finalPath :: string
  rf_partPath :: string
  rf_offset :: int
  rf_complete :: bool
  rf_skipped :: bool
  rf_overwrite :: bool
  rf_ranges :: byteRanges

record receiveText =
  rt_builder :: string
  rt_offset :: int

record receiveDirectory =
  rd_finalPath :: string

record receiveSymlink =
  rl_finalPath :: string
  rl_target :: string
  rl_skipped :: bool
  rl_overwrite :: bool

datatype ConflictPolicy = ConflictOverwrite | ConflictSkip | ConflictRename

record ReceiveStore =
  st_manifest :: Manifest
  st_plan :: Plan
  st_outputDir :: string
  st_files :: "int \<Rightarrow> receiveFile option"
  st_texts :: "int \<Rightarrow> receiveText option"
  st_dirs :: "int \<Rightarrow> receiveDirectory option"
  st_symlinks :: "int \<Rightarrow> receiveSymlink option"
  st_resume :: "ResumeEntry list"
  st_conflict :: ConflictPolicy
  st_claimed :: "string set"
  st_reserved :: "string set"
  st_outOfOrder :: bool

record ReceivedText =
  rtx_Name :: string
  rtx_Text :: string

datatype store_error =
    ManifestErr manifest_error
  | InvalidPolicy string
  | PlanErr mux_error
  | OsErr os_error
  | NoBinding int
  | RelFailed
  | PathEscapes string
  | ParentNotDirectory string
  | TargetNotDirectory string
  | NonRegularTarget string
  | NonRegularPart string
  | OverwriteDirectory string
  | DestinationAppeared string
  | NoFreeName
  | DuplicateAccept int
  | AcceptConflictsSHA string
  | AcceptMissing int
  | AcceptOffsetTooLarge int
  | SkipRejected int
  | CompletedRejected int
  | UnexpectedSkip int
  | FileNotOpen
  | TextNotOpen
  | SymlinkNotPlanned
  | ChunkItemRange int
  | ChunkForFinished string
  | ChunkBounds chunk_bounds_error
  | ChunkOffset int int
  | ChunkOverlap range_error
  | UnsupportedItem
  | SizeMismatch string
  | SHAMismatch string
  | SampleErr sample_error
  | MetadataFailed

type_synonym ('a) store_act = "(ReceiveStore \<times> fs, store_error, 'a) act"

text \<open>Parts of the state as actions on the whole of it.\<close>

definition with_fs :: "(fs, store_error, 'a) act \<Rightarrow> 'a store_act" where
  "with_fs m w = (case m (snd w) of (r, f) \<Rightarrow> (r, (fst w, f)))"

definition upd_store :: "(ReceiveStore \<Rightarrow> ReceiveStore) \<Rightarrow> unit store_act" where
  "upd_store h = modify (\<lambda>(s, f). (h s, f))"

definition the_store :: "ReceiveStore store_act" where
  "the_store = gets fst"

definition fs_get :: "(fs \<Rightarrow> (os_error, 'a) result) \<Rightarrow> 'a store_act" where
  "fs_get g = try_get OsErr (\<lambda>(s, f). g f)"

definition fs_put :: "(fs \<Rightarrow> (os_error, fs) result) \<Rightarrow> unit store_act" where
  "fs_put g = with_fs (try_put OsErr g)"

section \<open>Reading the tree\<close>

definition ParseConflictPolicy :: "string \<Rightarrow> (store_error, ConflictPolicy) result" where
  "ParseConflictPolicy v =
     (let policy = ToLower (TrimSpace v)
      in if policy = '''' \<or> policy = ''overwrite'' then Inr ConflictOverwrite
         else if policy = ''skip'' then Inr ConflictSkip
         else if policy = ''rename'' then Inr ConflictRename
         else Inl (InvalidPolicy v))"

definition pathState :: "string \<Rightarrow> fs \<Rightarrow> (os_error, bool \<times> bool) result" where
  "pathState p f =
     (case Lstat f p of
        Inr nd \<Rightarrow> Inr (True, is_regular nd)
      | Inl e \<Rightarrow> if IsNotExist e then Inr (False, False) else Inl e)"

definition symlinkMatches :: "string \<Rightarrow> string \<Rightarrow> fs \<Rightarrow> bool" where
  "symlinkMatches p target f =
     (case Lstat f p of
        Inl _ \<Rightarrow> False
      | Inr nd \<Rightarrow> if \<not> is_link nd then False
                 else (case Readlink f p of Inl _ \<Rightarrow> False | Inr got \<Rightarrow> got = target))"

definition fileSHA256 :: "(string \<Rightarrow> string) \<Rightarrow> string \<Rightarrow> fs \<Rightarrow> (os_error, string) result" where
  "fileSHA256 sha p f = rbind (ReadFile f p) (\<lambda>d. Inr (hex_encode (sha d)))"

definition fileSampleSHA256 :: "(string \<Rightarrow> string) \<Rightarrow> string \<Rightarrow> fs \<Rightarrow> (store_error, string) result" where
  "fileSampleSHA256 sha p f =
     (case Stat f p of
        Inl e \<Rightarrow> Inl (OsErr e)
      | Inr (NReg i) \<Rightarrow>
          (let d = ino_data (fs_inodes f i) in
           case sampleSHA256 sha (Some d) (int (length d)) of Inl e \<Rightarrow> Inl (SampleErr e) | Inr h \<Rightarrow> Inr h)
      | Inr _ \<Rightarrow> Inl (NonRegularTarget p))"

definition bytesSHA256 :: "(string \<Rightarrow> string) \<Rightarrow> string \<Rightarrow> string" where
  "bytesSHA256 sha d = hex_encode (sha d)"

definition completedFileMatches :: "(string \<Rightarrow> string) \<Rightarrow> string \<Rightarrow> Item \<Rightarrow> fs \<Rightarrow> bool" where
  "completedFileMatches sha finalPath item f =
     (if item_kind item \<noteq> ItemFile then False
      else case Lstat f finalPath of
        Inl _ \<Rightarrow> False
      | Inr nd \<Rightarrow>
          if \<not> is_regular nd \<or> node_size f nd \<noteq> item_size item then False
          else if item_sample item \<noteq> '''' then
            (case fileSampleSHA256 sha finalPath f of Inl _ \<Rightarrow> False | Inr h \<Rightarrow> h = ToLower (item_sample item))
          else if item_sha256 item = '''' then True
          else (case fileSHA256 sha finalPath f of Inl _ \<Rightarrow> False | Inr h \<Rightarrow> h = ToLower (item_sha256 item)))"

definition resumableOffset :: "string \<Rightarrow> Item \<Rightarrow> fs \<Rightarrow> int" where
  "resumableOffset partPath item f =
     (if \<not> item_resume item then 0
      else case Stat f partPath of
        Inl _ \<Rightarrow> 0
      | Inr nd \<Rightarrow> if is_dir nd then 0 else clampInt64 (node_size f nd) 0 (item_size item))"

section \<open>Opening\<close>

text \<open>
  A path has to be a directory (not a link to one), and is made when it does not exist; \<open>err\<close> is
  the refusal. The loop body of \<open>ensureSafeParent\<close> and the switch of \<open>openDirectory\<close> are this.
\<close>

definition recheck_dir :: "store_error \<Rightarrow> string \<Rightarrow> (fs, store_error, unit) act" where
  "recheck_dir err path = bind_act (try_get OsErr (\<lambda>f. Lstat f path)) (\<lambda>nd. guard_act (is_dir nd) err)"

definition ensure_dir :: "store_error \<Rightarrow> string \<Rightarrow> (fs, store_error, unit) act" where
  "ensure_dir err path f =
     (case Lstat f path of
        Inr nd \<Rightarrow> guard_act (is_dir nd) err f
      | Inl e \<Rightarrow>
          if \<not> IsNotExist e then throw (OsErr e) f
          else (case Mkdir 493 path f of
                  Inl e' \<Rightarrow> if \<not> IsExist e' then throw (OsErr e') f else recheck_dir err path f
                | Inr f' \<Rightarrow> recheck_dir err path f'))"

fun parent_loop :: "string \<Rightarrow> string list \<Rightarrow> (fs, store_error, unit) act" where
  "parent_loop current [] = ret ()"
| "parent_loop current (part # parts) =
     bind_act (ensure_dir (ParentNotDirectory (Join current part)) (Join current part)) (\<lambda>_.
       parent_loop (Join current part) parts)"

definition ensureSafeParent :: "string \<Rightarrow> string \<Rightarrow> (fs, store_error, unit) act" where
  "ensureSafeParent root path =
     (case Rel root (Dir path) of
        None \<Rightarrow> throw RelFailed
      | Some rel \<Rightarrow>
          if rel = ''.'' then ret ()
          else if rel = ''..'' \<or> is_prefix ''../'' rel then throw (PathEscapes path)
          else parent_loop root (elements rel))"

text \<open>The search for a free name; it visits \<open>n\<close>, \<open>n + 1\<close>, \ldots\<close>

definition trim_suffix :: "string \<Rightarrow> string \<Rightarrow> string" where
  "trim_suffix suf p =
     (if length suf \<le> length p \<and> drop (length p - length suf) p = suf then take (length p - length suf) p else p)"

definition rename_candidate :: "string \<Rightarrow> int \<Rightarrow> string" where
  "rename_candidate path n =
     (let ext = Ext path; base = trim_suffix ext path in base @ '' ('' @ Itoa n @ '')'' @ ext)"

partial_function (option) rename_loop ::
  "string set \<Rightarrow> string set \<Rightarrow> fs \<Rightarrow> string \<Rightarrow> int \<Rightarrow> (store_error, string) result option" where
  "rename_loop claimed reserved f path n =
     (let candidate = rename_candidate path n
      in if candidate \<in> claimed \<or> candidate \<in> reserved then rename_loop claimed reserved f path (n + 1)
         else case pathState candidate f of
           Inl e \<Rightarrow> Some (Inl (OsErr e))
         | Inr (exists, _) \<Rightarrow>
             if \<not> exists then Some (Inr candidate) else rename_loop claimed reserved f path (n + 1))"

text \<open>
  \<open>NoFreeName\<close> stands for a search that does not end; the theory
  \<open>Rename_Search\<close> excludes it on a finite tree.
\<close>

definition availableRenamePath :: "string \<Rightarrow> ReceiveStore \<Rightarrow> fs \<Rightarrow> (store_error, string) result" where
  "availableRenamePath path s f =
     (case rename_loop (st_claimed s) (st_reserved s) f path 1 of None \<Rightarrow> Inl NoFreeName | Some r \<Rightarrow> r)"

definition the_item_path :: "string \<Rightarrow> Item \<Rightarrow> string store_act" where
  "the_item_path outputDir item =
     bind_act (try_get ManifestErr (\<lambda>_. safeRelativePath (item_name item))) (\<lambda>name. ret (Join outputDir name))"

definition claim :: "string \<Rightarrow> ReceiveStore \<Rightarrow> ReceiveStore" where
  "claim p s = s\<lparr>st_claimed := insert p (st_claimed s)\<rparr>"

definition add_file :: "int \<Rightarrow> receiveFile \<Rightarrow> ResumeEntry \<Rightarrow> ReceiveStore \<Rightarrow> ReceiveStore" where
  "add_file itemID rf entry s =
     s\<lparr>st_files := (st_files s)(itemID \<mapsto> rf), st_resume := st_resume s @ [entry]\<rparr>"

definition resume_entry :: "int \<Rightarrow> int \<Rightarrow> int \<Rightarrow> bool \<Rightarrow> bool \<Rightarrow> string \<Rightarrow> ResumeEntry" where
  "resume_entry itemID streamID offset skip complete prefix =
     \<lparr>re_item = itemID, re_stream = Some streamID, re_offset = offset, re_prefix = prefix,
      re_sha256 = '''', re_skip = skip, re_complete = complete\<rparr>"

definition done_file :: "string \<Rightarrow> int \<Rightarrow> bool \<Rightarrow> bool \<Rightarrow> receiveFile" where
  "done_file finalPath sz complete skipped =
     \<lparr>rf_file = None, rf_finalPath = finalPath, rf_partPath = '''', rf_offset = sz, rf_complete = complete,
      rf_skipped = skipped, rf_overwrite = False, rf_ranges = newByteRanges sz\<rparr>"

text \<open>
  The part of \<open>openFile\<close> behind the conflict policy: open the part file, cut it back to the
  offset to resume from, register it and ask for that offset.
\<close>

definition fs_open :: "32 word \<Rightarrow> string \<Rightarrow> nat store_act" where
  "fs_open mode p w =
     (case OpenCreate mode p (snd w) of
        Inl e \<Rightarrow> (Inl (OsErr e), w)
      | Inr (file, f') \<Rightarrow> (Inr file, (fst w, f')))"

definition part_file :: "nat \<Rightarrow> string \<Rightarrow> string \<Rightarrow> int \<Rightarrow> bool \<Rightarrow> receiveFile" where
  "part_file file finalPath partPath resumeOffset overwrite =
     \<lparr>rf_file = Some file, rf_finalPath = finalPath, rf_partPath = partPath, rf_offset = resumeOffset,
      rf_complete = False, rf_skipped = False, rf_overwrite = overwrite,
      rf_ranges = newByteRanges resumeOffset\<rparr>"

definition register_part ::
  "(string \<Rightarrow> string) \<Rightarrow> int \<Rightarrow> int \<Rightarrow> string \<Rightarrow> string \<Rightarrow> bool \<Rightarrow> int \<Rightarrow> nat \<Rightarrow> unit store_act" where
  "register_part sha itemID streamID finalPath partPath overwrite resumeOffset file =
     bind_act (fs_put (Truncate file resumeOffset)) (\<lambda>_.
     bind_act (upd_store (\<lambda>s. s\<lparr>st_files := (st_files s)(itemID \<mapsto>
         part_file file finalPath partPath resumeOffset overwrite)\<rparr>)) (\<lambda>_.
     bind_act (if resumeOffset > 0 then fs_get (fileSHA256 sha partPath) else ret '''') (\<lambda>prefix.
       upd_store (\<lambda>s. s\<lparr>st_resume := st_resume s @
         [resume_entry itemID streamID resumeOffset False False prefix]\<rparr>))))"

definition open_part :: "(string \<Rightarrow> string) \<Rightarrow> int \<Rightarrow> Item \<Rightarrow> int \<Rightarrow> string \<Rightarrow> bool \<Rightarrow> unit store_act" where
  "open_part sha itemID item streamID finalPath overwrite =
     (let partPath = finalPath @ ''.kigopart'' in
      bind_act (upd_store (claim finalPath)) (\<lambda>_.
      bind_act (fs_get (pathState partPath)) (\<lambda>st.
      bind_act (guard_act (\<not> (fst st \<and> \<not> snd st)) (NonRegularPart partPath)) (\<lambda>_.
      bind_act (gets (\<lambda>(s, f). resumableOffset partPath item f)) (\<lambda>resumeOffset.
      bind_act (fs_open 384 partPath) (\<lambda>file.
        register_part sha itemID streamID finalPath partPath overwrite resumeOffset file))))))"

definition openFile :: "(string \<Rightarrow> string) \<Rightarrow> int \<Rightarrow> Item \<Rightarrow> unit store_act" where
  "openFile sha itemID item =
     bind_act the_store (\<lambda>s0.
     bind_act (the_item_path (st_outputDir s0) item) (\<lambda>finalPath.
     bind_act (with_fs (ensureSafeParent (st_outputDir s0) finalPath)) (\<lambda>_.
     case StreamForItem (Some (st_plan s0)) itemID of
       None \<Rightarrow> throw (NoBinding itemID)
     | Some streamID \<Rightarrow>
         bind_act (gets (\<lambda>(s, f). completedFileMatches sha finalPath item f)) (\<lambda>matches.
         if matches then
           upd_store (\<lambda>s. add_file itemID (done_file finalPath (item_size item) True False)
             (resume_entry itemID streamID (item_size item) True True '''') (claim finalPath s))
         else
           bind_act (fs_get (pathState finalPath)) (\<lambda>(exists0, regular0).
             let claimed = finalPath \<in> st_claimed s0;
                 exists = exists0 \<or> claimed;
                 regular = regular0 \<or> claimed
             in if exists \<and> st_conflict s0 = ConflictSkip then
                  upd_store (\<lambda>s. add_file itemID (done_file finalPath (item_size item) False True)
                    (resume_entry itemID streamID (item_size item) True False '''') (claim finalPath s))
                else if exists \<and> st_conflict s0 = ConflictRename then
                  bind_act (try_get (\<lambda>e. e) (\<lambda>(s, f). availableRenamePath finalPath s f)) (\<lambda>renamed.
                    open_part sha itemID item streamID renamed False)
                else if exists \<and> st_conflict s0 = ConflictOverwrite \<and> \<not> regular then
                  throw (NonRegularTarget finalPath)
                else open_part sha itemID item streamID finalPath (exists \<and> st_conflict s0 = ConflictOverwrite))))))"

definition openDirectory :: "int \<Rightarrow> Item \<Rightarrow> unit store_act" where
  "openDirectory itemID item =
     bind_act the_store (\<lambda>s0.
     bind_act (the_item_path (st_outputDir s0) item) (\<lambda>finalPath.
     bind_act (with_fs (ensureSafeParent (st_outputDir s0) finalPath)) (\<lambda>_.
     bind_act (with_fs (ensure_dir (TargetNotDirectory finalPath) finalPath)) (\<lambda>_.
       upd_store (\<lambda>s. (claim finalPath s)\<lparr>st_dirs := (st_dirs s)(itemID \<mapsto> \<lparr>rd_finalPath = finalPath\<rparr>)\<rparr>)))))"

definition plan_link :: "int \<Rightarrow> receiveSymlink \<Rightarrow> ReceiveStore \<Rightarrow> ReceiveStore" where
  "plan_link itemID link s =
     (claim (rl_finalPath link) s)\<lparr>st_symlinks := (st_symlinks s)(itemID \<mapsto> link)\<rparr>"

definition planSymlink :: "int \<Rightarrow> Item \<Rightarrow> unit store_act" where
  "planSymlink itemID item =
     bind_act the_store (\<lambda>s0.
     bind_act (the_item_path (st_outputDir s0) item) (\<lambda>finalPath.
     bind_act (try_get ManifestErr (\<lambda>_. validateSafeSymlinkTarget (item_name item) (item_target item))) (\<lambda>_.
     bind_act (with_fs (ensureSafeParent (st_outputDir s0) finalPath)) (\<lambda>_.
     bind_act (gets (\<lambda>(s, f). symlinkMatches finalPath (item_target item) f)) (\<lambda>matches.
     let link = \<lparr>rl_finalPath = finalPath, rl_target = item_target item, rl_skipped = False, rl_overwrite = False\<rparr> in
     if matches then upd_store (plan_link itemID (link\<lparr>rl_skipped := True\<rparr>))
     else
       bind_act (fs_get (pathState finalPath)) (\<lambda>(exists0, _).
         let exists = exists0 \<or> finalPath \<in> st_claimed s0
         in if exists \<and> st_conflict s0 = ConflictSkip then upd_store (plan_link itemID (link\<lparr>rl_skipped := True\<rparr>))
            else if exists \<and> st_conflict s0 = ConflictRename then
              bind_act (try_get (\<lambda>e. e) (\<lambda>(s, f). availableRenamePath finalPath s f)) (\<lambda>renamed.
                upd_store (plan_link itemID (link\<lparr>rl_finalPath := renamed\<rparr>)))
            else if exists \<and> st_conflict s0 = ConflictOverwrite then
              bind_act (fs_get (\<lambda>f. Lstat f finalPath)) (\<lambda>nd.
              bind_act (guard_act (\<not> is_dir nd) (OverwriteDirectory finalPath)) (\<lambda>_.
                upd_store (plan_link itemID (link\<lparr>rl_overwrite := True\<rparr>))))
            else upd_store (plan_link itemID link)))))))"

definition close_file :: "int \<Rightarrow> unit store_act" where
  "close_file itemID =
     bind_act the_store (\<lambda>s.
       case st_files s itemID of
         None \<Rightarrow> ret ()
       | Some rf \<Rightarrow>
           (case rf_file rf of
              None \<Rightarrow> ret ()
            | Some file \<Rightarrow>
                bind_act (if st_outOfOrder s then fs_put (Truncate file (rf_offset rf)) else ret ()) (\<lambda>_.
                  upd_store (\<lambda>s. s\<lparr>st_files := (st_files s)(itemID \<mapsto> rf\<lparr>rf_file := None\<rparr>)\<rparr>))))"

text \<open>
  \<open>Close\<close>. Cutting a file to a non-negative offset and closing it do not fail in this model, so
  there is no first error to return.
\<close>

definition Close :: "int list \<Rightarrow> unit store_act" where
  "Close ord = for_each close_file ord"

definition empty_store :: "Manifest \<Rightarrow> Plan \<Rightarrow> string \<Rightarrow> ConflictPolicy \<Rightarrow> bool \<Rightarrow> ReceiveStore" where
  "empty_store m plan outputDir conflict outOfOrder =
     \<lparr>st_manifest = m, st_plan = plan, st_outputDir = outputDir, st_files = Map.empty, st_texts = Map.empty,
      st_dirs = Map.empty, st_symlinks = Map.empty, st_resume = [], st_conflict = conflict,
      st_claimed = {}, st_reserved = {}, st_outOfOrder = outOfOrder\<rparr>"

definition reserve_item :: "Item \<Rightarrow> unit store_act" where
  "reserve_item item =
     (if has_path item then
        bind_act the_store (\<lambda>s.
        bind_act (the_item_path (st_outputDir s) item) (\<lambda>p.
          upd_store (\<lambda>s. s\<lparr>st_reserved := insert p (st_reserved s)\<rparr>)))
      else ret ())"

definition open_item :: "(string \<Rightarrow> string) \<Rightarrow> int \<times> Item \<Rightarrow> unit store_act" where
  "open_item sha entry =
     (case entry of (i, item) \<Rightarrow>
        case item_kind item of
          ItemFile \<Rightarrow> openFile sha i item
        | ItemText \<Rightarrow> upd_store (\<lambda>s. s\<lparr>st_texts := (st_texts s)(i \<mapsto> \<lparr>rt_builder = '''', rt_offset = 0\<rparr>)\<rparr>)
        | ItemDirectory \<Rightarrow> openDirectory i item
        | ItemSymlink \<Rightarrow> planSymlink i item
        | ItemOther _ \<Rightarrow> ret ())"

definition numbered :: "'a list \<Rightarrow> (int \<times> 'a) list" where
  "numbered xs = zip (map int [0..<length xs]) xs"

text \<open>The loops of the constructor over a store that exists; a failure to open closes what is open.\<close>

definition open_items :: "(string \<Rightarrow> string) \<Rightarrow> int list \<Rightarrow> unit store_act" where
  "open_items sha ord w =
     (case for_each (open_item sha) (numbered (mf_items (st_manifest (fst w)))) w of
        (Inl e, w') \<Rightarrow> (Inl e, snd (Close ord w'))
      | (Inr _, w') \<Rightarrow> (Inr (), w'))"

definition store_setup :: "Manifest option \<Rightarrow> string \<Rightarrow> (store_error, Manifest \<times> ConflictPolicy \<times> Plan) result" where
  "store_setup manifest policy =
     rbind (case validateManifest manifest of Inl e \<Rightarrow> Inl (ManifestErr e) | Inr _ \<Rightarrow> Inr ()) (\<lambda>_.
     rbind (ParseConflictPolicy policy) (\<lambda>conflict.
       case PlanFromManifest manifest of
         Inl e \<Rightarrow> Inl (PlanErr e)
       | Inr plan \<Rightarrow> Inr (the manifest, conflict, plan)))"

definition NewReceiveStoreWithOptions ::
  "(string \<Rightarrow> string) \<Rightarrow> int list \<Rightarrow> Manifest option \<Rightarrow> string \<Rightarrow> string \<Rightarrow> bool
    \<Rightarrow> (fs, store_error, ReceiveStore) act" where
  "NewReceiveStoreWithOptions sha ord manifest outputDir policy outOfOrder f =
     (case store_setup manifest policy of
        Inl e \<Rightarrow> (Inl e, f)
      | Inr (m, conflict, plan) \<Rightarrow>
          (case MkdirAll outputDir f of
             (Inl e, f1) \<Rightarrow> (Inl (OsErr e), f1)
           | (Inr _, f1) \<Rightarrow>
               (case bind_act (for_each reserve_item (mf_items m)) (\<lambda>_. open_items sha ord)
                       (empty_store m plan outputDir conflict outOfOrder, f1) of
                  (Inl e, (s, f')) \<Rightarrow> (Inl e, f')
                | (Inr _, (s, f')) \<Rightarrow> (Inr s, f'))))"

definition NewReceiveStore ::
  "(string \<Rightarrow> string) \<Rightarrow> int list \<Rightarrow> Manifest option \<Rightarrow> string \<Rightarrow> (fs, store_error, ReceiveStore) act" where
  "NewReceiveStore sha ord manifest outputDir =
     NewReceiveStoreWithOptions sha ord manifest outputDir ''overwrite'' False"

section \<open>Resume\<close>

definition ResumeEntries :: "ReceiveStore \<Rightarrow> ResumeEntry list" where
  "ResumeEntries s = st_resume s"

definition st_items :: "ReceiveStore \<Rightarrow> Item list" where
  "st_items s = mf_items (st_manifest s)"

definition set_item_sha :: "int \<Rightarrow> string \<Rightarrow> ReceiveStore \<Rightarrow> ReceiveStore" where
  "set_item_sha i h s =
     s\<lparr>st_manifest := (st_manifest s)\<lparr>mf_items :=
        (st_items s)[nat i := (st_items s ! nat i)\<lparr>item_sha256 := h\<rparr>]\<rparr>\<rparr>"

text \<open>
  The first loop: every entry is valid, no item occurs twice, and a hash the sender announces
  late agrees with the manifest's and is stored there. The result is the map \<open>accepted\<close>.
\<close>

fun accept_entries ::
  "ResumeEntry list \<Rightarrow> (int \<Rightarrow> ResumeEntry option) \<Rightarrow> (int \<Rightarrow> ResumeEntry option) store_act" where
  "accept_entries [] accepted = ret accepted"
| "accept_entries (entry # entries) accepted =
     bind_act the_store (\<lambda>s.
     bind_act (try_get PlanErr (\<lambda>_. ValidateResumeEntry (Some (st_plan s)) (st_items s) entry)) (\<lambda>offset.
     bind_act (guard_act (accepted (re_item entry) = None) (DuplicateAccept (re_item entry))) (\<lambda>_.
     bind_act
       (if re_sha256 entry \<noteq> '''' then
          let declared = ToLower (item_sha256 (st_items s ! nat (re_item entry)));
              acceptedSHA256 = ToLower (re_sha256 entry)
          in bind_act (guard_act (\<not> (declared \<noteq> '''' \<and> declared \<noteq> acceptedSHA256))
                        (AcceptConflictsSHA (item_name (st_items s ! nat (re_item entry))))) (\<lambda>_.
               upd_store (set_item_sha (re_item entry) acceptedSHA256))
        else ret ()) (\<lambda>_.
       accept_entries entries (accepted(re_item entry \<mapsto> entry\<lparr>re_offset := offset\<rparr>))))))"

definition accept_file :: "(int \<Rightarrow> ResumeEntry option) \<Rightarrow> int \<Rightarrow> unit store_act" where
  "accept_file accepted itemID =
     bind_act the_store (\<lambda>s.
       case st_files s itemID of
         None \<Rightarrow> ret ()
       | Some rf \<Rightarrow>
           (case accepted itemID of
              None \<Rightarrow> throw (AcceptMissing itemID)
            | Some entry \<Rightarrow>
                if re_offset entry > rf_offset rf then throw (AcceptOffsetTooLarge itemID)
                else if rf_skipped rf then
                  guard_act (\<not> (\<not> re_skip entry \<or> re_offset entry \<noteq> rf_offset rf)) (SkipRejected itemID)
                else if rf_complete rf then
                  guard_act (\<not> (\<not> re_skip entry \<or> re_offset entry \<noteq> rf_offset rf)) (CompletedRejected itemID)
                else if re_skip entry then throw (UnexpectedSkip itemID)
                else (case rf_file rf of
                        None \<Rightarrow> throw FileNotOpen
                      | Some file \<Rightarrow>
                          if re_offset entry \<noteq> rf_offset rf then
                            bind_act (fs_put (Truncate file (re_offset entry))) (\<lambda>_.
                              upd_store (\<lambda>s. s\<lparr>st_files := (st_files s)(itemID \<mapsto>
                                rf\<lparr>rf_offset := re_offset entry, rf_ranges := newByteRanges (re_offset entry)\<rparr>)\<rparr>))
                          else ret ())))"

definition ApplyResumeAccept :: "int list \<Rightarrow> ResumeEntry list \<Rightarrow> unit store_act" where
  "ApplyResumeAccept ord entries =
     bind_act (accept_entries entries Map.empty) (\<lambda>accepted.
     bind_act (for_each (accept_file accepted) ord) (\<lambda>_.
       upd_store (\<lambda>s. s\<lparr>st_resume := entries\<rparr>)))"

section \<open>Chunks\<close>

definition write_file_chunk :: "int \<Rightarrow> Item \<Rightarrow> int \<Rightarrow> string \<Rightarrow> unit store_act" where
  "write_file_chunk itemID item offset data =
     bind_act the_store (\<lambda>s.
       case st_files s itemID of
         None \<Rightarrow> throw FileNotOpen
       | Some rf \<Rightarrow>
           if rf_complete rf \<or> rf_skipped rf then throw (ChunkForFinished (item_name item))
           else (case rf_file rf of
                   None \<Rightarrow> throw FileNotOpen
                 | Some file \<Rightarrow>
                     bind_act (try_get ChunkBounds (\<lambda>_. validateChunkRange item offset (int (length data)))) (\<lambda>_.
                     bind_act (guard_act (\<not> (\<not> st_outOfOrder s \<and> offset \<noteq> rf_offset rf))
                                (ChunkOffset offset (rf_offset rf))) (\<lambda>_.
                     bind_act (try_get ChunkOverlap (\<lambda>_. Add (rf_ranges rf) offset (add64 offset (int (length data))))) (\<lambda>nextRanges.
                     bind_act (fs_put (WriteAt file data offset)) (\<lambda>_.
                       upd_store (\<lambda>s. s\<lparr>st_files := (st_files s)(itemID \<mapsto>
                         rf\<lparr>rf_ranges := nextRanges, rf_offset := Prefix nextRanges\<rparr>)\<rparr>)))))))"

definition write_text_chunk :: "int \<Rightarrow> Item \<Rightarrow> int \<Rightarrow> string \<Rightarrow> unit store_act" where
  "write_text_chunk itemID item offset data =
     bind_act the_store (\<lambda>s.
       case st_texts s itemID of
         None \<Rightarrow> throw TextNotOpen
       | Some rt \<Rightarrow>
           bind_act (try_get ChunkBounds (\<lambda>_. validateChunkBounds item offset (int (length data)) (rt_offset rt))) (\<lambda>_.
             upd_store (\<lambda>s. s\<lparr>st_texts := (st_texts s)(itemID \<mapsto>
               \<lparr>rt_builder = rt_builder rt @ data, rt_offset = add64 (rt_offset rt) (int (length data))\<rparr>)\<rparr>)))"

definition WriteChunk :: "int \<Rightarrow> int \<Rightarrow> string \<Rightarrow> unit store_act" where
  "WriteChunk itemID offset data =
     bind_act the_store (\<lambda>s.
       case int_nth (st_items s) itemID of
         None \<Rightarrow> throw (ChunkItemRange itemID)
       | Some item \<Rightarrow>
           (case item_kind item of
              ItemFile \<Rightarrow> write_file_chunk itemID item offset data
            | ItemText \<Rightarrow> write_text_chunk itemID item offset data
            | _ \<Rightarrow> throw UnsupportedItem))"

section \<open>Finalisation\<close>

definition verifyTextItem :: "(string \<Rightarrow> string) \<Rightarrow> string \<Rightarrow> Item \<Rightarrow> (store_error, unit) result" where
  "verifyTextItem sha txt item =
     (if int (length txt) \<noteq> item_size item then Inl (SizeMismatch (item_name item))
      else if item_sha256 item = '''' then Inr ()
      else if bytesSHA256 sha txt \<noteq> ToLower (item_sha256 item) then Inl (SHAMismatch (item_name item))
      else Inr ())"

definition verifyPartFile :: "(string \<Rightarrow> string) \<Rightarrow> string \<Rightarrow> Item \<Rightarrow> fs \<Rightarrow> (store_error, unit) result" where
  "verifyPartFile sha partPath item f =
     (case Stat f partPath of
        Inl e \<Rightarrow> Inl (OsErr e)
      | Inr nd \<Rightarrow>
          if node_size f nd \<noteq> item_size item then Inl (SizeMismatch (item_name item))
          else if item_sha256 item = '''' then Inr ()
          else (case fileSHA256 sha partPath f of
                  Inl e \<Rightarrow> Inl (OsErr e)
                | Inr got \<Rightarrow> if got \<noteq> ToLower (item_sha256 item) then Inl (SHAMismatch (item_name item)) else Inr ()))"

definition applyPathMetadata :: "string \<Rightarrow> Item \<Rightarrow> (fs, store_error, unit) act" where
  "applyPathMetadata path item =
     bind_act (if item_mode item \<noteq> 0 then try_put OsErr (Chmod path (and (item_mode item) 511)) else ret ()) (\<lambda>_.
       if item_mtime item \<noteq> 0 then try_put OsErr (Chtimes path (item_mtime item)) else ret ())"

definition finalizeReceivedFile :: "receiveFile \<Rightarrow> Item \<Rightarrow> (fs, store_error, unit) act" where
  "finalizeReceivedFile rf item =
     bind_act (applyPathMetadata (rf_partPath rf) item) (\<lambda>_.
     bind_act (try_get OsErr (pathState (rf_finalPath rf))) (\<lambda>(exists, regular).
     bind_act (guard_act (\<not> (exists \<and> \<not> rf_overwrite rf)) (DestinationAppeared (rf_finalPath rf))) (\<lambda>_.
     bind_act (guard_act (\<not> (exists \<and> \<not> regular)) (NonRegularTarget (rf_finalPath rf))) (\<lambda>_.
       try_put OsErr (Rename (rf_partPath rf) (rf_finalPath rf))))))"

definition finalizeSymlink :: "receiveSymlink \<Rightarrow> (fs, store_error, unit) act" where
  "finalizeSymlink link =
     bind_act
       (if rl_overwrite link then
          (\<lambda>f. case Lstat f (rl_finalPath link) of
             Inr nd \<Rightarrow>
               bind_act (guard_act (\<not> is_dir nd) (OverwriteDirectory (rl_finalPath link))) (\<lambda>_.
                 try_put OsErr (Remove (rl_finalPath link))) f
           | Inl e \<Rightarrow> guard_act (IsNotExist e) (OsErr e) f)
        else
          bind_act (try_get OsErr (pathState (rl_finalPath link))) (\<lambda>(exists, _).
            guard_act (\<not> exists) (DestinationAppeared (rl_finalPath link)))) (\<lambda>_.
       try_put OsErr (Symlink (rl_target link) (rl_finalPath link)))"

definition finalize_file :: "(string \<Rightarrow> string) \<Rightarrow> int \<Rightarrow> Item \<Rightarrow> unit store_act" where
  "finalize_file sha i item =
     bind_act the_store (\<lambda>s.
       case st_files s i of
         None \<Rightarrow> throw FileNotOpen
       | Some rf \<Rightarrow>
           if rf_skipped rf then ret ()
           else if rf_complete rf then with_fs (applyPathMetadata (rf_finalPath rf) item)
           else (case rf_file rf of
                   None \<Rightarrow> throw FileNotOpen
                 | Some file \<Rightarrow>
                     bind_act (guard_act (Complete (rf_ranges rf) (item_size item)) (SizeMismatch (item_name item))) (\<lambda>_.
                     bind_act (upd_store (\<lambda>s. s\<lparr>st_files := (st_files s)(i \<mapsto> rf\<lparr>rf_file := None\<rparr>)\<rparr>)) (\<lambda>_.
                     bind_act (try_get (\<lambda>e. e) (\<lambda>(s, f). verifyPartFile sha (rf_partPath rf) item f)) (\<lambda>_.
                       with_fs (finalizeReceivedFile rf item))))))"

definition finalize_item :: "(string \<Rightarrow> string) \<Rightarrow> int \<times> Item \<Rightarrow> ReceivedText list \<Rightarrow> ReceivedText list store_act" where
  "finalize_item sha entry texts =
     (case entry of (i, item) \<Rightarrow>
        case item_kind item of
          ItemFile \<Rightarrow> bind_act (finalize_file sha i item) (\<lambda>_. ret texts)
        | ItemText \<Rightarrow>
            bind_act the_store (\<lambda>s.
              case st_texts s i of
                None \<Rightarrow> throw TextNotOpen
              | Some rt \<Rightarrow>
                  bind_act (try_get (\<lambda>e. e) (\<lambda>_. verifyTextItem sha (rt_builder rt) item)) (\<lambda>_.
                    ret (texts @ [\<lparr>rtx_Name = item_name item, rtx_Text = rt_builder rt\<rparr>])))
        | _ \<Rightarrow> ret texts)"

fun finalize_items :: "(string \<Rightarrow> string) \<Rightarrow> (int \<times> Item) list \<Rightarrow> ReceivedText list \<Rightarrow> ReceivedText list store_act" where
  "finalize_items sha [] texts = ret texts"
| "finalize_items sha (e # es) texts = bind_act (finalize_item sha e texts) (finalize_items sha es)"

definition finalize_link :: "int \<times> Item \<Rightarrow> unit store_act" where
  "finalize_link entry =
     (case entry of (i, item) \<Rightarrow>
        if item_kind item \<noteq> ItemSymlink then ret ()
        else bind_act the_store (\<lambda>s.
          case st_symlinks s i of
            None \<Rightarrow> throw SymlinkNotPlanned
          | Some link \<Rightarrow> if rl_skipped link then ret () else with_fs (finalizeSymlink link)))"

definition pathDepth :: "string \<Rightarrow> nat" where
  "pathDepth path = length (elements (Clean path))"

definition dir_depth :: "ReceiveStore \<Rightarrow> int \<Rightarrow> nat" where
  "dir_depth s i = (case st_dirs s i of None \<Rightarrow> 0 | Some d \<Rightarrow> pathDepth (rd_finalPath d))"

definition finalize_dir :: "int \<Rightarrow> unit store_act" where
  "finalize_dir i =
     bind_act the_store (\<lambda>s.
       case st_dirs s i of
         None \<Rightarrow> ret ()
       | Some d \<Rightarrow> with_fs (applyPathMetadata (rd_finalPath d) (st_items s ! nat i)))"

text \<open>Directories are finished deepest first, so that setting the times of one does not follow a change below it.\<close>

definition deepest_first :: "ReceiveStore \<Rightarrow> int list \<Rightarrow> int list" where
  "deepest_first s ord = rev (sort_key (dir_depth s) ord)"

definition Finalize :: "(string \<Rightarrow> string) \<Rightarrow> int list \<Rightarrow> ReceivedText list store_act" where
  "Finalize sha ord =
     bind_act the_store (\<lambda>s.
     bind_act (finalize_items sha (numbered (st_items s)) []) (\<lambda>texts.
     bind_act (for_each finalize_link (numbered (st_items s))) (\<lambda>_.
     bind_act (for_each finalize_dir (deepest_first s ord)) (\<lambda>_.
       ret texts))))"

end
