(* ===== verification/Confinement.thy ===== *)
theory Confinement
  imports Receive_Store
begin

text \<open>
  The receiver writes inside its output directory and nowhere else, whatever the manifest says
  and whichever links the output directory already holds. The physical place of the output
  directory is \<open>r\<close>; \<open>confined r f0 f\<close> says that \<open>f\<close> differs from \<open>f0\<close> only strictly below \<open>r\<close>
  and only in inodes that were below \<open>r\<close> or are new.
\<close>

section \<open>Places below the output directory\<close>

definition below :: "phys \<Rightarrow> phys \<Rightarrow> bool" where
  "below r q \<longleftrightarrow> (\<exists>n. n \<noteq> [] \<and> q = r @ n)"

definition refers :: "node \<Rightarrow> nat \<Rightarrow> bool" where
  "refers nd i \<longleftrightarrow> nd = NReg i \<or> nd = NDir i"

definition inside :: "phys \<Rightarrow> fs \<Rightarrow> nat \<Rightarrow> bool" where
  "inside r f i \<longleftrightarrow> (\<exists>q nd. below r q \<and> fs_ents f q = Some nd \<and> refers nd i)"

definition touchable :: "phys \<Rightarrow> fs \<Rightarrow> nat \<Rightarrow> bool" where
  "touchable r f0 i \<longleftrightarrow> fs_next f0 \<le> i \<or> inside r f0 i"

definition confined :: "phys \<Rightarrow> fs \<Rightarrow> fs \<Rightarrow> bool" where
  "confined r f0 f \<longleftrightarrow>
     fs_cwd f = fs_cwd f0 \<and> fs_next f0 \<le> fs_next f
     \<and> (\<forall>q. \<not> below r q \<longrightarrow> fs_ents f q = fs_ents f0 q)
     \<and> (\<forall>i. \<not> touchable r f0 i \<longrightarrow> fs_inodes f i = fs_inodes f0 i)
     \<and> (\<forall>i. inside r f i \<longrightarrow> touchable r f0 i)"

text \<open>Directories stay, and (except for the links the receiver makes last) no link appears.\<close>

definition keeps_dirs :: "fs \<Rightarrow> fs \<Rightarrow> bool" where
  "keeps_dirs f f' \<longleftrightarrow> (\<forall>q i. fs_ents f q = Some (NDir i) \<longrightarrow> fs_ents f' q = Some (NDir i))"

definition no_new_links :: "fs \<Rightarrow> fs \<Rightarrow> bool" where
  "no_new_links f f' \<longleftrightarrow> (\<forall>q t. fs_ents f' q = Some (NLink t) \<longrightarrow> fs_ents f q = Some (NLink t))"

lemma below_append [simp]: "n \<noteq> [] \<Longrightarrow> below r (r @ n)"
  by (auto simp: below_def)

lemma confined_refl: "confined r f f"
  by (auto simp: confined_def touchable_def)

lemma keeps_refl [simp]: "keeps_dirs f f" "no_new_links f f"
  by (auto simp: keeps_dirs_def no_new_links_def)

lemma confined_set_entry:
  assumes "confined r f0 f" "below r q" "\<And>nd i. x = Some nd \<Longrightarrow> refers nd i \<Longrightarrow> touchable r f0 i"
  shows "confined r f0 (set_entry q x f)"
  using assms by (fastforce simp: confined_def set_entry_def inside_def split: if_splits)

lemma confined_set_inode:
  assumes "confined r f0 f" "touchable r f0 i"
  shows "confined r f0 (set_inode i x f)"
  using assms by (auto simp: confined_def set_inode_def inside_def)

lemma confined_fresh: "confined r f0 f \<Longrightarrow> confined r f0 (fresh mode f)"
  by (auto simp: confined_def fresh_def set_inode_def inside_def touchable_def)

lemma confined_next: "confined r f0 f \<Longrightarrow> touchable r f0 (fs_next f)"
  by (simp add: confined_def touchable_def)

lemma confined_inside: "confined r f0 f \<Longrightarrow> below r q \<Longrightarrow> fs_ents f q = Some nd \<Longrightarrow> refers nd i \<Longrightarrow> touchable r f0 i"
  unfolding confined_def inside_def by blast

lemma set_inode_ents [simp]: "fs_ents (set_inode i x f) = fs_ents f" "fs_ents (fresh mode f) = fs_ents f"
    "fs_ents (set_data i d f) = fs_ents f" "fs_ents (set_entry q nd f) = (fs_ents f)(q := nd)"
  by (simp_all add: set_inode_def fresh_def set_data_def set_entry_def)

lemma confined_set_data: "confined r f0 f \<Longrightarrow> touchable r f0 i \<Longrightarrow> confined r f0 (set_data i d f)"
  by (simp add: set_data_def confined_set_inode)

text \<open>
  The output directory: its cleaned path leads to \<open>r\<close>, and whatever lies below \<open>r\<close> plays no part
  in that.
\<close>

definition out_elements :: "string \<Rightarrow> string list" where
  "out_elements d = clean_elements (IsAbs d) (elements d)"

definition rooted_at :: "string \<Rightarrow> phys \<Rightarrow> fs \<Rightarrow> bool" where
  "rooted_at d r f0 \<longleftrightarrow>
     (\<exists>n. \<forall>ents. (\<forall>q. \<not> below r q \<longrightarrow> ents q = fs_ents f0 q) \<longrightarrow>
        walk ents symlink_limit (start_dir (fs_cwd f0) d) (out_elements d) = Inr (n, r))"

definition place :: "string \<Rightarrow> string list \<Rightarrow> string" where
  "place d ns = path_of (IsAbs d) (out_elements d @ ns)"

definition dirs_to :: "phys \<Rightarrow> fs \<Rightarrow> string list \<Rightarrow> bool" where
  "dirs_to r f ns \<longleftrightarrow> (\<forall>k. 0 < k \<and> k \<le> length ns \<longrightarrow> (\<exists>i. fs_ents f (r @ take k ns) = Some (NDir i)))"

lemma dirs_to_Nil [simp]: "dirs_to r f []"
  by (simp add: dirs_to_def)

lemma dirs_to_snoc: "dirs_to r f (ns @ [e]) \<longleftrightarrow> dirs_to r f ns \<and> (\<exists>i. fs_ents f (r @ ns @ [e]) = Some (NDir i))"
proof
  assume d: "dirs_to r f (ns @ [e])"
  have "dirs_to r f ns" unfolding dirs_to_def
  proof (intro allI impI)
    fix k assume "0 < k \<and> k \<le> length ns"
    then show "\<exists>i. fs_ents f (r @ take k ns) = Some (NDir i)" using d [unfolded dirs_to_def, rule_format, of k] by simp
  qed
  moreover have "\<exists>i. fs_ents f (r @ ns @ [e]) = Some (NDir i)"
    using d [unfolded dirs_to_def, rule_format, of "Suc (length ns)"] by simp
  ultimately show "dirs_to r f ns \<and> (\<exists>i. fs_ents f (r @ ns @ [e]) = Some (NDir i))" ..
next
  assume "dirs_to r f ns \<and> (\<exists>i. fs_ents f (r @ ns @ [e]) = Some (NDir i))"
  then show "dirs_to r f (ns @ [e])" by (auto simp: dirs_to_def le_Suc_eq)
qed

lemma dirs_to_Cons:
  "dirs_to r f (e # es) \<longleftrightarrow> (\<exists>i. fs_ents f (r @ [e]) = Some (NDir i)) \<and> dirs_to (r @ [e]) f es"
proof (induction es rule: rev_induct)
  case Nil
  then show ?case using dirs_to_snoc [of r f "[]" e] by simp
next
  case (snoc x xs)
  then show ?case using dirs_to_snoc [of r f "e # xs" x] dirs_to_snoc [of "r @ [e]" f xs x] by auto
qed

lemma dirs_to_keeps: "dirs_to r f ns \<Longrightarrow> keeps_dirs f f' \<Longrightarrow> dirs_to r f' ns"
  unfolding dirs_to_def keeps_dirs_def by blast

lemma walk_append: "walk ents n cur (xs @ ys) = rbind (walk ents n cur xs) (\<lambda>(m, p). walk ents m p ys)"
proof (induction ents n cur xs rule: walk.induct)
  case (2 ents n cur e es)
  then show ?case
    by (auto simp: walk.simps(2) [of ents n cur e] split: option.splits node.splits nat.splits)
qed simp

lemma walk_dirs: "plain_all ns \<Longrightarrow> dirs_to r f ns \<Longrightarrow> walk (fs_ents f) n r ns = Inr (n, r @ ns)"
  by (induction ns arbitrary: r) (auto simp: dirs_to_Cons walk.simps(2) plain_def)

lemma out_cleaned: "cleaned (IsAbs d) (out_elements d)"
  by (simp add: out_elements_def clean_elements_cleaned)

lemma names_place:
  assumes "plain_all ns"
  shows "names (place d ns) = out_elements d @ ns"
proof -
  have c: "cleaned (IsAbs d) (out_elements d @ ns)" using out_cleaned assms by (rule cleaned_append)
  have "filter (\<lambda>e. e \<noteq> '''' \<and> e \<noteq> ''.'') (out_elements d @ ns) = out_elements d @ ns"
  proof (rule filter_True, rule ballI)
    fix e
    assume "e \<in> set (out_elements d @ ns)"
    moreover obtain k ps where "out_elements d @ ns = replicate k ''..'' @ ps" "plain_all ps"
      using c by (auto simp: cleaned_def)
    ultimately have "e = ''..'' \<or> plain e" by (auto simp: plain_all_def split: if_splits)
    then show "e \<noteq> '''' \<and> e \<noteq> ''.''" by (auto simp: plain_def)
  qed
  then show ?thesis by (auto simp: names_def place_def elements_path_of [OF c])
qed

lemma place_abs [simp]: "plain_all ns \<Longrightarrow> IsAbs (place d ns) = IsAbs d"
  unfolding place_def by (intro IsAbs_path_of cleaned_append out_cleaned)

lemma place_nonempty: "place d ns \<noteq> []" if "plain_all ns"
proof -
  have "elements (place d ns) \<noteq> [[]]"
  proof
    assume "elements (place d ns) = [[]]"
    then have "out_elements d @ ns = [[]]"
      unfolding place_def elements_path_of [OF cleaned_append [OF out_cleaned that]] by (auto split: if_splits)
    then show False using cleaned_no_sep [OF cleaned_append [OF out_cleaned [of d] that], of "[]"] by simp
  qed
  then show ?thesis by auto
qed

text \<open>Resolution of a place: when the directories on the way are there, it is the place itself.\<close>

lemma resolve_place:
  assumes root: "rooted_at d r f0" and conf: "confined r f0 f"
    and ns: "plain_all ns" "ns \<noteq> []" and dirs: "dirs_to r f (butlast ns)"
    and nolink: "follow \<Longrightarrow> \<forall>t. fs_ents f (r @ ns) \<noteq> Some (NLink t)"
  shows "resolve f follow (place d ns) = Inr (r @ ns)"
proof -
  obtain n where n: "walk (fs_ents f) symlink_limit (start_dir (fs_cwd f0) d) (out_elements d) = Inr (n, r)"
    using root conf unfolding rooted_at_def confined_def by blast
  obtain es e where es: "ns = es @ [e]" using ns(2) by (cases ns rule: rev_cases) auto
  have w: "walk (fs_ents f) symlink_limit (start_dir (fs_cwd f) d) (butlast (out_elements d @ ns)) = Inr (n, r @ es)"
    using n ns dirs walk_dirs [of es r f n] conf
    by (simp add: es butlast_append walk_append confined_def)
  have "resolve f follow (place d ns) =
      namei (fs_ents f) follow symlink_limit (start_dir (fs_cwd f) d) (out_elements d @ ns)"
    using ns place_nonempty [OF ns(1), of d] by (simp add: resolve_def names_place start_dir_def)
  also have "\<dots> = Inr (r @ ns)"
    using w nolink ns es by (auto simp: namei.simps plain_def split: option.splits node.splits)
  finally show ?thesis .
qed

lemma place_entry: "ns \<noteq> [] \<Longrightarrow> entry_at f (r @ ns) = fs_ents f (r @ ns)"
  by (simp add: entry_at_def)

text \<open>
  The state of a call between two moments: it started in \<open>f\<close>, has changed only what it may, has
  removed no directory and made no link.
\<close>

definition grown :: "string \<Rightarrow> phys \<Rightarrow> fs \<Rightarrow> fs \<Rightarrow> fs \<Rightarrow> bool" where
  "grown d r f0 f g \<longleftrightarrow> rooted_at d r f0 \<and> confined r f0 g \<and> keeps_dirs f g \<and> no_new_links f g"

definition located :: "string \<Rightarrow> phys \<Rightarrow> fs \<Rightarrow> string list \<Rightarrow> string \<Rightarrow> bool" where
  "located d r f ns p \<longleftrightarrow> p = place d ns \<and> ns \<noteq> [] \<and> plain_all ns \<and> dirs_to r f (butlast ns)"

definition unlinked :: "phys \<Rightarrow> fs \<Rightarrow> string list \<Rightarrow> bool" where
  "unlinked r f ns \<longleftrightarrow> (\<forall>t. fs_ents f (r @ ns) \<noteq> Some (NLink t))"

lemma grown_refl: "rooted_at d r f0 \<Longrightarrow> confined r f0 f \<Longrightarrow> grown d r f0 f f"
  by (simp add: grown_def)

lemma grown_trans: "grown d r f0 f g \<Longrightarrow> grown d r f0 g h \<Longrightarrow> grown d r f0 f h"
  unfolding grown_def keeps_dirs_def no_new_links_def by blast

lemma located_grown: "located d r f ns p \<Longrightarrow> grown d r f0 f g \<Longrightarrow> located d r g ns p"
  by (auto simp: located_def grown_def intro: dirs_to_keeps)

lemma unlinked_grown: "unlinked r f ns \<Longrightarrow> grown d r f0 f g \<Longrightarrow> unlinked r g ns"
  by (auto simp: unlinked_def grown_def no_new_links_def)

lemma resolve_located:
  assumes "grown d r f0 f g" "located d r g ns p" "follow \<longrightarrow> unlinked r g ns"
  shows "resolve g follow p = Inr (r @ ns)"
  using assms resolve_place [of d r f0 g ns follow] by (auto simp: grown_def located_def unlinked_def)

lemma Lstat_located:
  assumes "grown d r f0 f g" "located d r g ns p"
  shows "Lstat g p = (case fs_ents g (r @ ns) of None \<Rightarrow> Inl ENOENT | Some nd \<Rightarrow> Inr nd)"
  using resolve_located [OF assms, of False] assms(2)
  by (simp add: Lstat_def existing_def place_entry located_def split: option.splits)

lemma existing_located:
  assumes "grown d r f0 f g" "located d r g ns p" "follow \<longrightarrow> unlinked r g ns"
  shows "existing g follow p = (case fs_ents g (r @ ns) of None \<Rightarrow> Inl ENOENT | Some nd \<Rightarrow> Inr (r @ ns, nd))"
proof -
  have "ns \<noteq> []" using assms(2) by (simp add: located_def)
  then show ?thesis using resolve_located [OF assms] by (simp add: existing_def place_entry)
qed

text \<open>Adding, replacing and removing an entry at a place that is not a directory.\<close>

lemma grown_set_entry:
  assumes "grown d r f0 f g" "ns \<noteq> []" "\<forall>i. fs_ents g (r @ ns) \<noteq> Some (NDir i)"
    and "\<And>nd i. x = Some nd \<Longrightarrow> refers nd i \<Longrightarrow> touchable r f0 i" "\<forall>t. x \<noteq> Some (NLink t)"
  shows "grown d r f0 f (set_entry (r @ ns) x g)"
proof -
  have "confined r f0 (set_entry (r @ ns) x g)"
    using assms by (intro confined_set_entry) (auto simp: grown_def)
  then show ?thesis using assms(1,3,5) by (auto simp: grown_def keeps_dirs_def no_new_links_def)
qed

lemma grown_fresh: "grown d r f0 f g \<Longrightarrow> grown d r f0 f (fresh mode g)"
  by (auto simp: grown_def confined_fresh keeps_dirs_def no_new_links_def)

lemma grown_set_inode: "grown d r f0 f g \<Longrightarrow> touchable r f0 i \<Longrightarrow> grown d r f0 f (set_inode i x g)"
  by (auto simp: grown_def confined_set_inode keeps_dirs_def no_new_links_def)

lemma grown_next: "grown d r f0 f g \<Longrightarrow> touchable r f0 (fs_next g)"
  by (simp add: grown_def confined_next)

lemma Mkdir_located:
  assumes "grown d r f0 f g" "located d r g ns p" "Mkdir mode p g = Inr h"
  shows "grown d r f0 f h" and "fs_ents h (r @ ns) = Some (NDir (fs_next g))"
proof -
  have h: "h = set_entry (r @ ns) (Some (NDir (fs_next g))) (fresh mode g)" "fs_ents g (r @ ns) = None"
    using assms resolve_located [OF assms(1,2), of False]
    by (auto simp: Mkdir_def place_entry located_def split: if_splits)
  show "fs_ents h (r @ ns) = Some (NDir (fs_next g))" by (simp add: h)
  show "grown d r f0 f h" unfolding h(1)
    using assms(1,2) h(2) grown_next [OF assms(1)]
    by (intro grown_set_entry grown_fresh) (auto simp: located_def refers_def)
qed

lemma OpenCreate_located:
  assumes "grown d r f0 f g" "located d r g ns p" "unlinked r g ns" "OpenCreate mode p g = Inr (i, h)"
  shows "grown d r f0 f h" and "touchable r f0 i" and "fs_ents h (r @ ns) = Some (NReg i)"
proof -
  have "grown d r f0 f h \<and> touchable r f0 i \<and> fs_ents h (r @ ns) = Some (NReg i)"
  proof (cases "fs_ents g (r @ ns)")
    case None
    then have h: "h = set_entry (r @ ns) (Some (NReg (fs_next g))) (fresh mode g)" and i: "i = fs_next g"
      using assms(4) resolve_located [OF assms(1,2), of True] assms(2,3)
      by (auto simp: OpenCreate_def place_entry located_def)
    show ?thesis unfolding h i
      using assms(1,2) None grown_next [OF assms(1)]
      by (intro conjI grown_set_entry grown_fresh) (auto simp: located_def refers_def)
  next
    case (Some nd)
    then have "nd = NReg i" "h = g"
      using assms(4) resolve_located [OF assms(1,2), of True] assms(2,3)
      by (auto simp: OpenCreate_def place_entry located_def split: node.splits)
    moreover have "below r (r @ ns)" using assms(2) by (simp add: located_def)
    ultimately show ?thesis
      using assms(1) Some confined_inside [of r f0 g "r @ ns" nd i] by (auto simp: grown_def refers_def)
  qed
  then show "grown d r f0 f h" and "touchable r f0 i" and "fs_ents h (r @ ns) = Some (NReg i)" by auto
qed

lemma Truncate_grown:
  assumes "grown d r f0 f g" "touchable r f0 i" "Truncate i n g = Inr h"
  shows "grown d r f0 f h" "fs_ents h = fs_ents g"
  using assms by (auto simp: Truncate_def set_data_def grown_set_inode split: if_splits)

lemma WriteAt_grown:
  assumes "grown d r f0 f g" "touchable r f0 i" "WriteAt i bs off g = Inr h"
  shows "grown d r f0 f h" "fs_ents h = fs_ents g"
  using assms by (auto simp: WriteAt_def set_data_def grown_set_inode split: if_splits)

lemma metadata_inode:
  assumes "grown d r f0 f g" "located d r g ns p" "unlinked r g ns" "existing g True p = Inr (q, nd)"
  shows "touchable r f0 (inode_of nd)" "q = r @ ns"
proof -
  have nd: "fs_ents g (r @ ns) = Some nd" "q = r @ ns"
    using existing_located [OF assms(1,2), of True] assms(3,4) by (auto split: option.splits)
  then have "refers nd (inode_of nd)" using assms(3)
    by (cases nd) (auto simp: unlinked_def refers_def inode_of_def)
  with nd show "touchable r f0 (inode_of nd)" "q = r @ ns"
    using assms(1,2) confined_inside [of r f0 g "r @ ns" nd] by (auto simp: grown_def located_def)
qed

lemma Chmod_grown:
  assumes "grown d r f0 f g" "located d r g ns p" "unlinked r g ns" "Chmod p mode g = Inr h"
  shows "grown d r f0 f h" "fs_ents h = fs_ents g"
  using assms metadata_inode [OF assms(1-3)]
  by (auto simp: Chmod_def result_simps intro!: grown_set_inode)

lemma Chtimes_grown:
  assumes "grown d r f0 f g" "located d r g ns p" "unlinked r g ns" "Chtimes p t g = Inr h"
  shows "grown d r f0 f h" "fs_ents h = fs_ents g"
  using assms metadata_inode [OF assms(1-3)]
  by (auto simp: Chtimes_def result_simps intro!: grown_set_inode)

lemma Rename_grown:
  assumes "grown d r f0 f g" "located d r g ns p" "located d r g ms q" "unlinked r g ns"
    and "Rename p q g = Inr h"
  shows "grown d r f0 f h"
proof -
  obtain nd where nd: "fs_ents g (r @ ns) = Some nd" "\<not> is_dir nd"
    using assms(5) existing_located [OF assms(1,2), of False]
    by (auto simp: Rename_def result_simps split: option.splits if_splits)
  have res: "resolve g False q = Inr (r @ ms)" using resolve_located [OF assms(1,3), of False] by simp
  have ms: "ms \<noteq> []" "ns \<noteq> []" using assms(2,3) by (auto simp: located_def)
  have "h = g \<or> (h = set_entry (r @ ns) None (set_entry (r @ ms) (Some nd) g)
      \<and> (\<forall>i. fs_ents g (r @ ms) \<noteq> Some (NDir i)))"
    using assms(5) existing_located [OF assms(1,2), of False] nd res ms
    by (auto simp: Rename_def place_entry is_dir_def result_simps split: option.splits if_splits node.splits)
  then show ?thesis
  proof
    assume h: "h = set_entry (r @ ns) None (set_entry (r @ ms) (Some nd) g)
      \<and> (\<forall>i. fs_ents g (r @ ms) \<noteq> Some (NDir i))"
    have t: "refers nd i \<Longrightarrow> touchable r f0 i" for i
      using assms(1) nd(1) ms confined_inside [of r f0 g "r @ ns" nd] by (auto simp: grown_def)
    have "\<forall>i. nd \<noteq> NDir i" "\<forall>t. nd \<noteq> NLink t" using nd assms(4) by (auto simp: is_dir_def unlinked_def)
    then show ?thesis using h t ms nd(1) assms(1)
      by (auto intro!: grown_set_entry split: if_splits)
  qed (use assms(1) in simp)
qed

end
