(* ===== verification/Confined_Receiver.thy ===== *)
theory Confined_Receiver
  imports Confinement
begin

text \<open>
  Every operation of the receive store keeps the invariant \<open>store_ok\<close>: the paths the store works
  with lie below the output directory behind directories that are no links, and its open files
  are inodes it may change. The theory \<open>Receiver_Safety\<close> draws the
  conclusion for the whole life of a store.
\<close>

section \<open>Names\<close>

lemma join_with_snoc: "join_with c (xs @ [e]) = (if xs = [] then [] else join_with c xs @ [c]) @ e"
  by (cases "xs = []") (simp_all add: join_with_append)

lemma place_split:
  obtains pre where "\<And>e. place d (es @ [e]) = pre @ e" "pre = [] \<or> last pre = Separator"
proof
  define xs where "xs = out_elements d @ es"
  define pre where "pre = (if IsAbs d then [Separator] else []) @ (if xs = [] then [] else join_with Separator xs @ [Separator])"
  show "place d (es @ [e]) = pre @ e" for e
    unfolding place_def path_of_def pre_def append_assoc [symmetric] xs_def [symmetric] by (simp add: join_with_snoc)
  show "pre = [] \<or> last pre = Separator" by (auto simp: pre_def)
qed

lemma clean_place: "plain_all ns \<Longrightarrow> clean_elements (IsAbs d) (elements (place d ns)) = out_elements d @ ns"
proof -
  assume ns: "plain_all ns"
  then have c: "cleaned (IsAbs d) (out_elements d @ ns)" by (intro cleaned_append out_cleaned)
  have "path_of (IsAbs d) (clean_elements (IsAbs d) (elements (place d ns))) = Clean (place d ns)"
    using ns by (simp add: Clean_def)
  also have "\<dots> = path_of (IsAbs d) (out_elements d @ ns)" using Clean_path_of [OF c] by (simp add: place_def)
  finally show ?thesis using path_of_inj [OF clean_elements_cleaned c] by blast
qed

lemma Join_place:
  assumes "plain_all ns" "ns \<noteq> []"
  shows "Join d (join_with Separator ns) = place d ns"
proof (cases "d = []")
  case True
  have el: "elements (join_with Separator ns) = ns"
    using assms by (intro split_join_on) (auto simp: plain_all_def plain_def)
  have "cleaned False ns" using assms(1) unfolding cleaned_def by (intro exI [of _ 0] exI [of _ ns]) simp
  then have "\<not> IsAbs (join_with Separator ns)" "clean_elements False ns = ns"
    using IsAbs_path_of [of False ns] assms clean_elements_id by (auto simp: path_of_def)
  moreover have "join_with Separator ns \<noteq> []" using el assms by (cases ns) (auto simp: plain_def)
  ultimately show ?thesis
    by (simp add: True Join_def Clean_def el place_def out_elements_def clean_elements_dot IsAbs_def [of "[]"])
next
  case False
  with assms show ?thesis by (simp add: Join_plain place_def out_elements_def)
qed

lemma Join_place_snoc:
  assumes "plain_all (xs @ [e])"
  shows "Join (if xs = [] then d else place d xs) e = place d (xs @ [e])"
proof (cases "xs = []")
  case True
  then show ?thesis using Join_place [of "[e]" d] assms by simp
next
  case False
  have "Join (place d xs) (join_with Separator [e]) = path_of (IsAbs d) ((out_elements d @ xs) @ [e])"
    using assms place_nonempty [of xs d] by (subst Join_plain) (simp_all add: clean_place)
  with False show ?thesis by (simp add: place_def)
qed

lemma Dir_place: "plain_all (es @ [e]) \<Longrightarrow> Dir (place d (es @ [e])) = place d es"
  using Dir_path_of [of "IsAbs d" "out_elements d @ es" e] cleaned_append [OF out_cleaned, of es d]
  by (simp add: place_def)

lemma Rel_place: "plain_all es \<Longrightarrow> Rel d (place d es) = Some (if es = [] then ''.'' else join_with Separator es)"
  using Rel_path_of [of es d] by (simp add: place_def out_elements_def)

section \<open>The directories on the way\<close>

lemma triple_recheck:
  assumes "located d r f ns p"
  shows "triple (grown d r f0 f) (recheck_dir err p)
    (\<lambda>_ g. grown d r f0 f g \<and> (\<exists>i. fs_ents g (r @ ns) = Some (NDir i))) (grown d r f0 f)"
  unfolding recheck_dir_def
proof (rule triple_bind [where R = "\<lambda>nd g. grown d r f0 f g \<and> fs_ents g (r @ ns) = Some nd"], goal_cases)
  case 1
  show ?case
    by (rule triple_try_get)
      (auto simp: Lstat_located [OF _ located_grown [OF assms]] split: option.splits)
next
  case (2 nd)
  show ?case by (rule triple_guard) (auto simp: is_dir_def split: node.splits)
qed

lemma triple_ensure_dir:
  assumes "located d r f ns p"
  shows "triple (grown d r f0 f) (ensure_dir err p)
    (\<lambda>_ g. grown d r f0 f g \<and> (\<exists>i. fs_ents g (r @ ns) = Some (NDir i))) (grown d r f0 f)"
  unfolding triple_def
proof (intro allI impI)
  fix g
  assume g: "grown d r f0 f g"
  note loc = located_grown [OF assms g]
  note L = Lstat_located [OF g loc]
  let ?post = "\<lambda>x. case x of (Inr a, w') \<Rightarrow> grown d r f0 f w' \<and> (\<exists>i. fs_ents w' (r @ ns) = Some (NDir i))
        | (Inl e, w') \<Rightarrow> grown d r f0 f w'"
  have re: "?post (recheck_dir err p h)" if "grown d r f0 f h" for h
    using triple_recheck [OF assms, of f0] that by (auto simp: triple_def)
  have mk: "grown d r f0 f h" if "Mkdir 493 p g = Inr h" for h using Mkdir_located [OF g loc that] by simp
  show "?post (ensure_dir err p g)"
    using L g mk re by (auto simp: ensure_dir_def guard_act_def ret_def throw_def is_dir_def
        split: option.splits sum.splits node.splits)
qed

lemma triple_parent_loop:
  assumes "plain_all (xs @ ps)" "dirs_to r f xs"
  shows "triple (grown d r f0 f) (parent_loop (if xs = [] then d else place d xs) ps)
    (\<lambda>_ g. grown d r f0 f g \<and> dirs_to r g (xs @ ps)) (grown d r f0 f)"
  using assms
proof (induction ps arbitrary: xs f)
  case Nil
  then show ?case by (auto intro!: triple_ret simp: grown_def intro: dirs_to_keeps)
next
  case (Cons e ps)
  have e: "Join (if xs = [] then d else place d xs) e = place d (xs @ [e])"
    using Cons.prems by (intro Join_place_snoc) simp
  have loc: "located d r f (xs @ [e]) (place d (xs @ [e]))" using Cons.prems by (simp add: located_def)
  show ?case unfolding parent_loop.simps e
  proof (rule triple_bind [OF triple_ensure_dir [OF loc]])
    fix a :: unit
    show "triple (\<lambda>g. grown d r f0 f g \<and> (\<exists>i. fs_ents g (r @ xs @ [e]) = Some (NDir i)))
       (parent_loop (place d (xs @ [e])) ps) (\<lambda>_ g. grown d r f0 f g \<and> dirs_to r g (xs @ e # ps)) (grown d r f0 f)"
      unfolding triple_def
    proof (intro allI impI)
      fix g
      assume g: "grown d r f0 f g \<and> (\<exists>i. fs_ents g (r @ xs @ [e]) = Some (NDir i))"
      then have "dirs_to r g (xs @ [e])"
        using Cons.prems(2) by (auto simp: dirs_to_snoc grown_def intro: dirs_to_keeps)
      then have t: "triple (grown d r f0 g) (parent_loop (place d (xs @ [e])) ps)
          (\<lambda>_ h. grown d r f0 g h \<and> dirs_to r h (xs @ e # ps)) (grown d r f0 g)"
        using Cons.IH [of "xs @ [e]" g] Cons.prems(1) by simp
      have gg: "grown d r f0 g g" using g by (auto simp: grown_def)
      show "case parent_loop (place d (xs @ [e])) ps g of
          (Inr a, h) \<Rightarrow> grown d r f0 f h \<and> dirs_to r h (xs @ e # ps) | (Inl e, h) \<Rightarrow> grown d r f0 f h"
        using t [unfolded triple_def, rule_format, OF gg] g grown_trans [of d r f0 f g]
        by (auto split: sum.splits prod.splits)
    qed
  qed
qed

lemma triple_ensureSafeParent:
  assumes "plain_all ns" "ns \<noteq> []"
  shows "triple (grown d r f0 f) (ensureSafeParent d (place d ns))
    (\<lambda>_ g. grown d r f0 f g \<and> located d r g ns (place d ns)) (grown d r f0 f)"
proof -
  obtain es e where ns: "ns = es @ [e]" using assms(2) by (cases ns rule: rev_cases) auto
  have es: "plain_all es" using assms(1) by (simp add: ns)
  have rel: "Rel d (Dir (place d ns)) = Some (if es = [] then ''.'' else join_with Separator es)"
    using assms(1) es by (simp add: ns Dir_place Rel_place)
  have post: "triple (grown d r f0 f) m (\<lambda>_ g. grown d r f0 f g \<and> dirs_to r g es) (grown d r f0 f) \<Longrightarrow>
      triple (grown d r f0 f) m (\<lambda>_ g. grown d r f0 f g \<and> located d r g ns (place d ns)) (grown d r f0 f)" for m
    by (erule triple_weaken) (use assms in \<open>auto simp: located_def ns\<close>)
  show ?thesis
  proof (rule post, cases "es = []")
    case True
    then show "triple (grown d r f0 f) (ensureSafeParent d (place d ns)) (\<lambda>_ g. grown d r f0 f g \<and> dirs_to r g es) (grown d r f0 f)"
      by (simp add: ensureSafeParent_def rel triple_ret)
  next
    case False
    have el: "elements (join_with Separator es) = es"
      using es False by (intro split_join_on) (auto simp: plain_all_def plain_def)
    have nd: "join_with Separator es \<noteq> p" if "\<not> plain p" "Separator \<notin> set p" for p
    proof
      assume "join_with Separator es = p"
      then have "es = [p]" using el split_on_single [OF that(2)] by simp
      with es that(1) show False by simp
    qed
    have "join_with Separator es \<noteq> ''.''" "join_with Separator es \<noteq> ''..''"
      by (rule nd; simp add: plain_def)+
    moreover have "\<not> is_prefix ''../'' (join_with Separator es)"
    proof
      assume "is_prefix ''../'' (join_with Separator es)"
      then have "join_with Separator es = ''../'' @ drop 3 (join_with Separator es)"
        using append_take_drop_id [of 3 "join_with Separator es"] by (simp add: is_prefix_def numeral_3_eq_3)
      then obtain x where "join_with Separator es = ''..'' @ Separator # x" by simp
      then have "''..'' \<in> set es" using el elements_append_sep [of "''..''" x] by auto
      with es show False by (auto simp: plain_all_def plain_def)
    qed
    ultimately have "ensureSafeParent d (place d ns) = parent_loop d es"
      using False by (simp add: ensureSafeParent_def rel el)
    then show "triple (grown d r f0 f) (ensureSafeParent d (place d ns)) (\<lambda>_ g. grown d r f0 f g \<and> dirs_to r g es) (grown d r f0 f)"
      using triple_parent_loop [of "[]" es r f d f0] es by simp
  qed
qed

section \<open>Names next to a name\<close>

lemma located_sibling:
  assumes "located d r f (es @ [e]) p" "plain e'"
  shows "located d r f (es @ [e']) (place d (es @ [e']))"
  using assms by (simp add: located_def)

lemma located_part:
  assumes "located d r f ns p"
  shows "\<exists>ms. located d r f ms (p @ ''.kigopart'')"
proof -
  obtain es e where ns: "ns = es @ [e]" using assms by (cases ns rule: rev_cases) (auto simp: located_def)
  obtain pre where "\<And>e. place d (es @ [e]) = pre @ e" by (rule place_split [of d es]) blast
  moreover have "plain (e @ ''.kigopart'')" using assms by (auto simp: located_def ns plain_def append_eq_Cons_conv)
  ultimately show ?thesis
    using assms located_sibling [of d r f es e p "e @ ''.kigopart''"]
    by (intro exI [of _ "es @ [e @ ''.kigopart'']"]) (simp add: ns located_def)
qed

lemma Separator_Itoa: "Separator \<notin> set (Itoa n)"
proof -
  have d: "digit_char k \<noteq> Separator" if "k < 10" for k
  proof
    assume "digit_char k = Separator"
    then have "byte_val (digit_char k) = byte_val Separator" by simp
    with that show False by (simp add: digit_char_def of_char_of take_bit_nat_def)
  qed
  have "Separator \<notin> set (nat_digits m)" for m
  proof (induction m rule: nat_digits.induct)
    case (1 m)
    have "Separator \<noteq> digit_char (m mod 10)" using d [of "m mod 10"] by (metis mod_less_divisor zero_less_numeral)
    moreover have "m < 10 \<Longrightarrow> Separator \<noteq> digit_char m" using d [of m] by metis
    ultimately show ?case using 1 by (subst nat_digits.simps) auto
  qed
  then show ?thesis by (auto simp: Itoa_def)
qed

lemma trim_suffix_append [simp]: "trim_suffix suf (p @ suf) = p"
  by (simp add: trim_suffix_def)

lemma rename_candidate_last:
  assumes "pre = [] \<or> last pre = Separator" "Separator \<notin> set e"
  obtains e' where "rename_candidate (pre @ e) n = pre @ e'" "plain e'"
proof -
  have tw: "takeWhile (\<lambda>c. c \<noteq> Separator) (rev (pre @ e)) = rev e"
  proof (cases "pre = []")
    case False
    then obtain pre' where "pre = pre' @ [Separator]" using assms(1) by (metis append_butlast_last_id)
    moreover have "takeWhile (\<lambda>c. c \<noteq> Separator) (rev e @ Separator # x) = rev e" for x
      using assms(2) by (subst takeWhile_append2) auto
    ultimately show ?thesis by simp
  qed (use assms(2) in \<open>auto simp: takeWhile_eq_all_conv\<close>)
  have "\<exists>stem. e = stem @ Ext (pre @ e)"
  proof (cases "CHR ''.'' \<in> set e")
    case True
    then have "dropWhile (\<lambda>c. c \<noteq> CHR ''.'') (rev e) \<noteq> []" by auto
    then obtain y where "dropWhile (\<lambda>c. c \<noteq> CHR ''.'') (rev e) = CHR ''.'' # y"
      using hd_dropWhile [of "\<lambda>c. c \<noteq> CHR ''.''" "rev e"] by (cases "dropWhile (\<lambda>c. c \<noteq> CHR ''.'') (rev e)") auto
    then have "rev e = takeWhile (\<lambda>c. c \<noteq> CHR ''.'') (rev e) @ CHR ''.'' # y"
      using takeWhile_dropWhile_id [of "\<lambda>c. c \<noteq> CHR ''.''" "rev e"] by simp
    then have "e = rev y @ CHR ''.'' # rev (takeWhile (\<lambda>c. c \<noteq> CHR ''.'') (rev e))"
      by (metis append.assoc append_Cons append_Nil rev.simps(2) rev_append rev_rev_ident)
    moreover have "Ext (pre @ e) = CHR ''.'' # rev (takeWhile (\<lambda>c. c \<noteq> CHR ''.'') (rev e))"
      using True unfolding Ext_def tw Let_def by simp
    ultimately show ?thesis by auto
  next
    case False
    then have "Ext (pre @ e) = []" unfolding Ext_def tw Let_def by simp
    then show ?thesis by simp
  qed
  then obtain stem where e: "e = stem @ Ext (pre @ e)" ..
  define e' where "e' = stem @ '' ('' @ Itoa n @ '')'' @ Ext (pre @ e)"
  have "trim_suffix (Ext (pre @ e)) (pre @ e) = pre @ stem"
    using trim_suffix_append [of "Ext (pre @ e)" "pre @ stem"] e by simp
  then have "rename_candidate (pre @ e) n = pre @ e'" by (simp add: rename_candidate_def Let_def e'_def)
  moreover have "Separator \<notin> set stem" "Separator \<notin> set (Ext (pre @ e))" using e assms(2) by (metis Un_iff set_append)+
  then have "plain e'" using Separator_Itoa [of n] by (auto simp: e'_def plain_def append_eq_Cons_conv)
  ultimately show ?thesis by (rule that)
qed

lemma rename_loop_candidate:
  assumes "rename_loop claimed reserved f path n = Some res"
  shows "case res of Inl _ \<Rightarrow> True | Inr c \<Rightarrow> \<exists>m. c = rename_candidate path m"
proof (induction rule: rename_loop.raw_induct [OF _ assms])
  case (1 loop claimed reserved f path n res)
  define c where "c = rename_candidate path n"
  note body = 1(2) [folded c_def, unfolded Let_def, folded c_def]
  show ?case
  proof (cases "c \<in> claimed \<or> c \<in> reserved")
    case True
    with body have "loop claimed reserved f path (n + 1) = Some res" by simp
    then show ?thesis by (rule 1(1))
  next
    case fresh: False
    show ?thesis
    proof (cases "pathState c f")
      case (Inl e)
      with fresh body have "res = Inl (OsErr e)" by simp
      then show ?thesis by simp
    next
      case (Inr st)
      obtain ex reg where st: "st = (ex, reg)" by (cases st)
      show ?thesis
      proof (cases ex)
        case True
        with fresh body Inr st have "loop claimed reserved f path (n + 1) = Some res" by simp
        then show ?thesis by (rule 1(1))
      next
        case False
        with fresh body Inr st have "res = Inr (rename_candidate path n)" by (simp add: c_def)
        then show ?thesis by auto
      qed
    qed
  qed
qed

lemma located_renamed:
  assumes "located d r f ns p" "availableRenamePath p s g = Inr q"
  shows "\<exists>ms. located d r f ms q"
proof -
  obtain es e where ns: "ns = es @ [e]" using assms(1) by (cases ns rule: rev_cases) (auto simp: located_def)
  obtain pre where pre: "\<And>e. place d (es @ [e]) = pre @ e" "pre = [] \<or> last pre = Separator"
    by (rule place_split [of d es]) blast
  obtain m where q: "q = rename_candidate p m"
  proof -
    have "rename_loop (st_claimed s) (st_reserved s) g p 1 = Some (Inr q)"
      using assms(2) by (simp add: availableRenamePath_def split: option.splits)
    from rename_loop_candidate [OF this] show ?thesis using that by auto
  qed
  have e: "Separator \<notin> set e" using assms(1) by (simp add: located_def ns plain_def)
  obtain e' where "rename_candidate (pre @ e) m = pre @ e'" "plain e'"
    using rename_candidate_last [OF pre(2) e] by blast
  then have "located d r f (es @ [e']) q"
    using assms(1) located_sibling [of d r f es e p e'] by (simp add: located_def ns pre(1) q)
  then show ?thesis ..
qed

section \<open>The invariant of the store\<close>

definition file_ok :: "string \<Rightarrow> phys \<Rightarrow> fs \<Rightarrow> fs \<Rightarrow> receiveFile \<Rightarrow> bool" where
  "file_ok d r f0 f rf \<longleftrightarrow>
     (\<exists>ns. located d r f ns (rf_finalPath rf) \<and> (rf_complete rf \<longrightarrow> unlinked r f ns))
     \<and> (\<forall>h. rf_file rf = Some h \<longrightarrow>
          touchable r f0 h \<and> (\<exists>ms. located d r f ms (rf_partPath rf) \<and> unlinked r f ms))"

definition dir_ok :: "string \<Rightarrow> phys \<Rightarrow> fs \<Rightarrow> receiveDirectory \<Rightarrow> bool" where
  "dir_ok d r f x \<longleftrightarrow> (\<exists>ns. ns \<noteq> [] \<and> plain_all ns \<and> rd_finalPath x = place d ns \<and> dirs_to r f ns)"

definition link_ok :: "string \<Rightarrow> phys \<Rightarrow> fs \<Rightarrow> receiveSymlink \<Rightarrow> bool" where
  "link_ok d r f l \<longleftrightarrow> (\<exists>ns. located d r f ns (rl_finalPath l))"

definition store_ok :: "string \<Rightarrow> phys \<Rightarrow> fs \<Rightarrow> ReceiveStore \<times> fs \<Rightarrow> bool" where
  "store_ok d r f0 w \<longleftrightarrow>
     rooted_at d r f0 \<and> confined r f0 (snd w) \<and> st_outputDir (fst w) = d
     \<and> (\<forall>i rf. st_files (fst w) i = Some rf \<longrightarrow> file_ok d r f0 (snd w) rf)
     \<and> (\<forall>i x. st_dirs (fst w) i = Some x \<longrightarrow> dir_ok d r (snd w) x)
     \<and> (\<forall>i l. st_symlinks (fst w) i = Some l \<longrightarrow> link_ok d r (snd w) l)"

lemma file_ok_grown: "file_ok d r f0 f rf \<Longrightarrow> grown d r f0 f g \<Longrightarrow> file_ok d r f0 g rf"
  unfolding file_ok_def using located_grown unlinked_grown by metis

lemma dir_ok_keeps: "dir_ok d r f x \<Longrightarrow> keeps_dirs f g \<Longrightarrow> dir_ok d r g x"
  unfolding dir_ok_def using dirs_to_keeps by blast

lemma link_ok_keeps: "link_ok d r f l \<Longrightarrow> keeps_dirs f g \<Longrightarrow> link_ok d r g l"
  unfolding link_ok_def located_def using dirs_to_keeps by blast

lemma store_ok_grown: "store_ok d r f0 (s, f) \<Longrightarrow> grown d r f0 f g \<Longrightarrow> store_ok d r f0 (s, g)"
  using file_ok_grown dir_ok_keeps link_ok_keeps unfolding store_ok_def grown_def by fastforce

lemma store_ok_self: "store_ok d r f0 (s, f) \<Longrightarrow> grown d r f0 f f"
  by (simp add: store_ok_def grown_refl)

lemma store_ok_dir: "store_ok d r f0 (s, f) \<Longrightarrow> st_outputDir s = d"
  by (simp add: store_ok_def)

text \<open>The rules for the parts of the state.\<close>

lemma triple_the_store: "triple P the_store (\<lambda>s w. P w \<and> s = fst w) E"
  by (auto simp: the_store_def intro: triple_gets)

lemma triple_upd_store: "(\<And>s f. P (s, f) \<Longrightarrow> Q () (h s, f)) \<Longrightarrow> triple P (upd_store h) Q E"
  by (auto simp: upd_store_def intro!: triple_modify)

lemma triple_fs_get:
  "(\<And>s f a. P (s, f) \<Longrightarrow> g f = Inr a \<Longrightarrow> Q a (s, f)) \<Longrightarrow> (\<And>s f. P (s, f) \<Longrightarrow> E (s, f)) \<Longrightarrow> triple P (fs_get g) Q E"
  by (auto simp: fs_get_def intro!: triple_try_get)

lemma triple_fs_put:
  "(\<And>s f f'. P (s, f) \<Longrightarrow> g f = Inr f' \<Longrightarrow> Q () (s, f')) \<Longrightarrow> (\<And>s f. P (s, f) \<Longrightarrow> E (s, f)) \<Longrightarrow> triple P (fs_put g) Q E"
  by (auto simp: triple_def fs_put_def with_fs_def try_put_def split: sum.splits)

lemma triple_with_fs:
  assumes "\<And>s f. P (s, f) \<Longrightarrow> triple (\<lambda>g. g = f) m (\<lambda>a g. Q a (s, g)) (\<lambda>g. E (s, g))"
  shows "triple P (with_fs m) Q E"
  using assms by (fastforce simp: triple_def with_fs_def split: sum.splits prod.splits)

text \<open>An action on the file system that only grows it keeps the invariant of the store.\<close>

lemma triple_with_fs_grown:
  assumes "\<And>s f. store_ok d r f0 (s, f) \<Longrightarrow> P (s, f) \<Longrightarrow>
      triple (grown d r f0 f) m (\<lambda>a g. grown d r f0 f g \<and> Q a g) (grown d r f0 f)"
  shows "triple (\<lambda>w. store_ok d r f0 w \<and> P w) (with_fs m) (\<lambda>a w. store_ok d r f0 w \<and> Q a (snd w)) (store_ok d r f0)"
proof (rule triple_with_fs)
  fix s f
  assume "store_ok d r f0 (s, f) \<and> P (s, f)"
  then have ok: "store_ok d r f0 (s, f)" and P: "P (s, f)" by auto
  show "triple (\<lambda>g. g = f) m (\<lambda>a g. store_ok d r f0 (s, g) \<and> Q a (snd (s, g))) (\<lambda>g. store_ok d r f0 (s, g))"
    using assms [OF ok P] by (rule triple_weaken) (auto intro: store_ok_self [OF ok] store_ok_grown [OF ok])
qed

lemma triple_item_path:
  "triple (store_ok d r f0) (the_item_path d item)
     (\<lambda>p w. store_ok d r f0 w \<and> (\<exists>ns. plain_all ns \<and> ns \<noteq> [] \<and> p = place d ns)) (store_ok d r f0)"
  unfolding the_item_path_def
proof (rule triple_bind [where R = "\<lambda>name w. store_ok d r f0 w \<and> safeRelativePath (item_name item) = Inr name"])
  fix name
  show "triple (\<lambda>w. store_ok d r f0 w \<and> safeRelativePath (item_name item) = Inr name) (ret (Join d name))
     (\<lambda>p w. store_ok d r f0 w \<and> (\<exists>ns. plain_all ns \<and> ns \<noteq> [] \<and> p = place d ns)) (store_ok d r f0)"
    using safeRelativePath_plain by (intro triple_ret) (metis Join_place)
qed (auto intro!: triple_try_get)

lemma triple_safe_parent:
  assumes "plain_all ns" "ns \<noteq> []"
  shows "triple (store_ok d r f0) (with_fs (ensureSafeParent d (place d ns)))
    (\<lambda>_ w. store_ok d r f0 w \<and> located d r (snd w) ns (place d ns)) (store_ok d r f0)"
  using triple_with_fs_grown [where P = "\<lambda>_. True", OF triple_ensureSafeParent [OF assms]] by simp

section \<open>Opening files, directories and links\<close>

lemma claim_ok: "store_ok d r f0 (claim p s, f) = store_ok d r f0 (s, f)"
  by (simp add: store_ok_def claim_def)

lemma add_file_ok:
  "store_ok d r f0 (s, f) \<Longrightarrow> file_ok d r f0 f rf \<Longrightarrow> store_ok d r f0 (s\<lparr>st_files := (st_files s)(i \<mapsto> rf)\<rparr>, f)"
  by (auto simp: store_ok_def)

lemma st_resume_ok [simp]: "store_ok d r f0 (s\<lparr>st_resume := x\<rparr>, f) = store_ok d r f0 (s, f)"
  "store_ok d r f0 (s\<lparr>st_reserved := y\<rparr>, f) = store_ok d r f0 (s, f)"
  "store_ok d r f0 (s\<lparr>st_texts := z\<rparr>, f) = store_ok d r f0 (s, f)"
  "store_ok d r f0 (s\<lparr>st_manifest := m\<rparr>, f) = store_ok d r f0 (s, f)"
  by (simp_all add: store_ok_def)

lemma pathState_located:
  assumes "grown d r f0 f g" "located d r g ns p" "pathState p g = Inr (ex, reg)"
  shows "ex = (fs_ents g (r @ ns) \<noteq> None)" "\<not> (ex \<and> \<not> reg) \<Longrightarrow> unlinked r g ns"
  using assms(3) Lstat_located [OF assms(1,2)]
  by (auto simp: pathState_def IsNotExist_def unlinked_def is_regular_def split: option.splits node.splits)

definition at_place :: "string \<Rightarrow> phys \<Rightarrow> fs \<Rightarrow> string \<Rightarrow> ReceiveStore \<times> fs \<Rightarrow> bool" where
  "at_place d r f0 p w \<longleftrightarrow> store_ok d r f0 w \<and> (\<exists>ns. located d r (snd w) ns p)"

lemma done_file_ok:
  "located d r f ns p \<Longrightarrow> (c \<Longrightarrow> unlinked r f ns) \<Longrightarrow> file_ok d r f0 f (done_file p sz c k)"
  by (auto simp: file_ok_def done_file_def)

definition part_ready :: "string \<Rightarrow> phys \<Rightarrow> fs \<Rightarrow> string \<Rightarrow> string \<Rightarrow> ReceiveStore \<times> fs \<Rightarrow> bool" where
  "part_ready d r f0 p q w \<longleftrightarrow> at_place d r f0 p w \<and> (\<exists>ms. located d r (snd w) ms q \<and> unlinked r (snd w) ms)"

lemma part_ready_ok: "part_ready d r f0 p q w \<Longrightarrow> store_ok d r f0 w"
  by (simp add: part_ready_def at_place_def)

lemma part_ready_grown:
  "part_ready d r f0 p q (s, f) \<Longrightarrow> grown d r f0 f g \<Longrightarrow> part_ready d r f0 p q (s, g)"
  unfolding part_ready_def at_place_def using store_ok_grown located_grown unlinked_grown by (metis snd_conv)

lemma triple_fs_open:
  "triple (part_ready d r f0 p q) (fs_open mode q) (\<lambda>i w. touchable r f0 i \<and> part_ready d r f0 p q w) (store_ok d r f0)"
  unfolding triple_def
proof (intro allI impI)
  fix w
  assume w: "part_ready d r f0 p q w"
  obtain s f where sf: "w = (s, f)" by (cases w)
  with w obtain ms where ms: "located d r f ms q" "unlinked r f ms" and ok: "store_ok d r f0 (s, f)"
    by (auto simp: part_ready_def at_place_def)
  show "case fs_open mode q w of (Inr i, w') \<Rightarrow> touchable r f0 i \<and> part_ready d r f0 p q w'
      | (Inl e, w') \<Rightarrow> store_ok d r f0 w'"
  proof (cases "OpenCreate mode q f")
    case (Inl e)
    with ok show ?thesis by (simp add: fs_open_def sf)
  next
    case (Inr a)
    obtain i f' where a: "a = (i, f')" by (cases a)
    note o = OpenCreate_located [OF store_ok_self [OF ok] ms Inr [unfolded a]]
    with part_ready_grown [OF w [unfolded sf] o(1)] Inr a show ?thesis by (simp add: fs_open_def sf)
  qed
qed

lemma triple_register_part:
  "triple (\<lambda>w. touchable r f0 i \<and> part_ready d r f0 p q w) (register_part sha itemID streamID p q overwrite off i)
     (\<lambda>_. store_ok d r f0) (store_ok d r f0)"
proof -
  let ?R = "\<lambda>w. touchable r f0 i \<and> part_ready d r f0 p q w"
  have cut: "triple ?R (fs_put (Truncate i off)) (\<lambda>_. ?R) (store_ok d r f0)"
  proof (rule triple_fs_put)
    fix s f f'
    assume a: "?R (s, f)" and "Truncate i off f = Inr f'"
    then have "grown d r f0 f f'" using Truncate_grown(1) store_ok_self [OF part_ready_ok] by blast
    with a show "?R (s, f')" using part_ready_grown by blast
  qed (blast intro: part_ready_ok)
  have "triple ?R (upd_store (\<lambda>s. s\<lparr>st_files := (st_files s)(itemID \<mapsto> part_file i p q off overwrite)\<rparr>))
      (\<lambda>_. store_ok d r f0) (store_ok d r f0)"
    by (rule triple_upd_store)
      (auto simp: part_ready_def at_place_def file_ok_def part_file_def intro!: add_file_ok)
  then show ?thesis unfolding register_part_def
    by (intro triple_bind [OF cut] triple_bind [where R = "\<lambda>_. store_ok d r f0"])
      (auto intro!: triple_fs_get triple_ret triple_upd_store)
qed

lemma part_ready_checked:
  assumes "at_place d r f0 p w" "pathState (p @ ''.kigopart'') (snd w) = Inr st" "\<not> (fst st \<and> \<not> snd st)"
  shows "part_ready d r f0 p (p @ ''.kigopart'') w"
proof -
  obtain s f where w: "w = (s, f)" by (cases w)
  with assms(1) obtain ns where ok: "store_ok d r f0 (s, f)" and ns: "located d r f ns p" by (auto simp: at_place_def)
  from located_part [OF ns] obtain ms where ms: "located d r f ms (p @ ''.kigopart'')" ..
  with pathState_located(2) [OF store_ok_self [OF ok] ms, of "fst st" "snd st"] assms w show ?thesis
    by (auto simp: part_ready_def)
qed

lemma triple_open_part:
  "triple (at_place d r f0 p) (open_part sha itemID item streamID p overwrite) (\<lambda>_. store_ok d r f0) (store_ok d r f0)"
proof -
  let ?q = "p @ ''.kigopart''"
  let ?S = "\<lambda>st w. at_place d r f0 p w \<and> pathState ?q (snd w) = Inr st"
  have 1: "triple (at_place d r f0 p) (upd_store (claim p)) (\<lambda>_. at_place d r f0 p) (store_ok d r f0)"
    by (rule triple_upd_store) (auto simp: at_place_def claim_ok)
  have 2: "triple (at_place d r f0 p) (fs_get (pathState ?q)) ?S (store_ok d r f0)"
    by (rule triple_fs_get) (auto simp: at_place_def)
  have 3: "triple (?S st) (guard_act (\<not> (fst st \<and> \<not> snd st)) e) (\<lambda>_. part_ready d r f0 p ?q) (store_ok d r f0)" for st e
    by (rule triple_guard) (blast intro: part_ready_checked, simp add: at_place_def)
  have 4: "triple (part_ready d r f0 p ?q) (gets (\<lambda>(s, f). resumableOffset ?q item f)) (\<lambda>_. part_ready d r f0 p ?q)
      (store_ok d r f0)" by (rule triple_gets)
  show ?thesis unfolding open_part_def Let_def
    by (rule triple_bind [OF 1], rule triple_bind [OF 2], rule triple_bind [OF 3], rule triple_bind [OF 4],
        rule triple_bind [OF triple_fs_open], rule triple_register_part)
qed

text \<open>The head of the three operations: the item's path and the directories on the way to it.\<close>

lemma located_unlinked_complete:
  assumes "grown d r f0 f g" "located d r g ns p" "completedFileMatches sha p item g"
  shows "unlinked r g ns"
  using assms(3) Lstat_located [OF assms(1,2)]
  by (auto simp: completedFileMatches_def unlinked_def is_regular_def split: if_splits option.splits node.splits)

definition located_in :: "string \<Rightarrow> phys \<Rightarrow> fs \<Rightarrow> string list \<Rightarrow> string \<Rightarrow> ReceiveStore \<times> fs \<Rightarrow> bool" where
  "located_in d r f0 ns p w \<longleftrightarrow> store_ok d r f0 w \<and> located d r (snd w) ns p"

lemma located_in_ok: "located_in d r f0 ns p w \<Longrightarrow> store_ok d r f0 w"
  and located_in_place: "located_in d r f0 ns p w \<Longrightarrow> at_place d r f0 p w"
  by (auto simp: located_in_def at_place_def)

lemma triple_at_item_path:
  assumes "\<And>ns. plain_all ns \<Longrightarrow> ns \<noteq> [] \<Longrightarrow>
      triple (store_ok d r f0) (k (place d ns)) (\<lambda>_. store_ok d r f0) (store_ok d r f0)"
  shows "triple (store_ok d r f0) (bind_act (the_item_path d item) k) (\<lambda>_. store_ok d r f0) (store_ok d r f0)"
proof (rule triple_bind [OF triple_item_path])
  fix p
  show "triple (\<lambda>w. store_ok d r f0 w \<and> (\<exists>ns. plain_all ns \<and> ns \<noteq> [] \<and> p = place d ns)) (k p)
    (\<lambda>_. store_ok d r f0) (store_ok d r f0)"
  proof (cases "\<exists>ns. plain_all ns \<and> ns \<noteq> [] \<and> p = place d ns")
    case True
    then obtain ns where ns: "plain_all ns" "ns \<noteq> []" "p = place d ns" by blast
    show ?thesis unfolding ns(3) by (rule triple_weaken [OF assms [OF ns(1,2)]]) auto
  next
    case False
    then show ?thesis unfolding triple_def by blast
  qed
qed

lemma triple_behind_parents:
  assumes "triple (located_in d r f0 ns (place d ns)) m (\<lambda>_. store_ok d r f0) (store_ok d r f0)"
    and "plain_all ns" "ns \<noteq> []"
  shows "triple (store_ok d r f0) (bind_act (with_fs (ensureSafeParent d (place d ns))) (\<lambda>_. m))
    (\<lambda>_. store_ok d r f0) (store_ok d r f0)"
  using assms(1) by (intro triple_bind [OF triple_safe_parent [OF assms(2,3)]]) (simp add: located_in_def [abs_def])

lemma triple_item_head:
  assumes "\<And>ns p. triple (located_in d r f0 ns p) (k p) (\<lambda>_. store_ok d r f0) (store_ok d r f0)"
  shows "triple (store_ok d r f0)
    (bind_act (the_item_path d item) (\<lambda>p. bind_act (with_fs (ensureSafeParent d p)) (\<lambda>_. k p)))
    (\<lambda>_. store_ok d r f0) (store_ok d r f0)"
  by (rule triple_at_item_path, rule triple_behind_parents, rule assms)

lemma triple_from_store:
  assumes "\<And>s0. st_outputDir s0 = d \<Longrightarrow> triple (store_ok d r f0) (k s0) (\<lambda>_. store_ok d r f0) (store_ok d r f0)"
  shows "triple (store_ok d r f0) (bind_act the_store k) (\<lambda>_. store_ok d r f0) (store_ok d r f0)"
proof -
  have "triple (\<lambda>w. store_ok d r f0 w \<and> s0 = fst w) (k s0) (\<lambda>_. store_ok d r f0) (store_ok d r f0)" for s0
  proof (cases "st_outputDir s0 = d")
    case True
    from assms [OF this] show ?thesis by (rule triple_weaken) auto
  qed (auto simp: triple_def store_ok_def)
  then show ?thesis by (rule triple_bind [OF triple_the_store])
qed

lemma triple_renamed:
  assumes "\<And>q. triple (at_place d r f0 q) (k q) (\<lambda>_. store_ok d r f0) (store_ok d r f0)"
  shows "triple (located_in d r f0 ns p) (bind_act (try_get (\<lambda>e. e) (\<lambda>(s, f). availableRenamePath p s f)) k)
    (\<lambda>_. store_ok d r f0) (store_ok d r f0)"
  by (rule triple_bind [where R = "\<lambda>q. at_place d r f0 q", OF _ assms], rule triple_try_get)
     (auto simp: located_in_def at_place_def intro: located_renamed)

lemma triple_openFile: "triple (store_ok d r f0) (openFile sha itemID item) (\<lambda>_. store_ok d r f0) (store_ok d r f0)"
  unfolding openFile_def
proof (rule triple_from_store, goal_cases)
  case (1 s0)
  have L: "located_in d r f0 ns p w \<Longrightarrow> store_ok d r f0 w" for ns p w by (rule located_in_ok)
  have finished: "triple (\<lambda>w. located_in d r f0 ns p w \<and> (c \<longrightarrow> unlinked r (snd w) ns))
      (upd_store (\<lambda>s. add_file itemID (done_file p sz c k) e (claim p s))) (\<lambda>_. store_ok d r f0) (store_ok d r f0)"
    for ns p c k e sz
    by (rule triple_upd_store)
      (auto simp: add_file_def located_in_def claim_ok intro!: add_file_ok done_file_ok)
  show ?case unfolding 1
  proof (rule triple_item_head, goal_cases)
    case (1 ns p)
    have matches: "triple (located_in d r f0 ns p) (gets (\<lambda>(s, f). completedFileMatches sha p item f))
        (\<lambda>m w. located_in d r f0 ns p w \<and> (m \<longrightarrow> unlinked r (snd w) ns)) (store_ok d r f0)"
      by (rule triple_gets) (auto simp: located_in_def intro: located_unlinked_complete [OF store_ok_self])
    have state: "triple (located_in d r f0 ns p) (fs_get (pathState p)) (\<lambda>_. located_in d r f0 ns p) (store_ok d r f0)"
      by (rule triple_fs_get) (auto intro: L)
    have finish: "triple (\<lambda>w. located_in d r f0 ns p w \<and> unlinked r (snd w) ns)
        (upd_store (\<lambda>s. add_file itemID (done_file p sz True k) e (claim p s))) (\<lambda>_. store_ok d r f0) (store_ok d r f0)"
      for k e sz using finished [of ns p True] by simp
    have open_here: "triple (located_in d r f0 ns p) (open_part sha itemID item streamID p ov)
        (\<lambda>_. store_ok d r f0) (store_ok d r f0)" for streamID ov
      using triple_open_part by (rule triple_weaken) (auto intro: located_in_place)
    have skip: "triple (located_in d r f0 ns p)
        (upd_store (\<lambda>s. add_file itemID (done_file p sz False True) e (claim p s))) (\<lambda>_. store_ok d r f0) (store_ok d r f0)"
      for e sz using finished [of ns p False] by simp
    show ?case
    proof (cases "StreamForItem (Some (st_plan s0)) itemID")
      case None
      then show ?thesis by (auto intro!: triple_throw intro: L)
    next
      case (Some streamID)
      show ?thesis unfolding Some option.case
      proof (rule triple_bind [OF matches], goal_cases)
        case (1 m)
        show ?case by (cases m)
          (auto simp: Let_def intro: L
            intro!: finish triple_bind [OF state] triple_throw skip open_here triple_renamed [OF triple_open_part])
      qed
    qed
  qed
qed

lemma triple_openDirectory:
  "triple (store_ok d r f0) (openDirectory itemID item) (\<lambda>_. store_ok d r f0) (store_ok d r f0)"
  unfolding openDirectory_def
proof (rule triple_from_store, goal_cases)
  case (1 s0)
  show ?case unfolding 1
  proof (rule triple_item_head, goal_cases)
    case (1 ns p)
    have made: "triple (\<lambda>w. store_ok d r f0 w \<and> located d r (snd w) ns p) (with_fs (ensure_dir err p))
        (\<lambda>_ w. store_ok d r f0 w \<and> (located d r (snd w) ns p \<and> (\<exists>i. fs_ents (snd w) (r @ ns) = Some (NDir i))))
        (store_ok d r f0)" for err
    proof (rule triple_with_fs_grown)
      fix s f
      assume "located d r (snd (s, f)) ns p"
      then have loc: "located d r f ns p" by simp
      show "triple (grown d r f0 f) (ensure_dir err p)
          (\<lambda>_ g. grown d r f0 f g \<and> (located d r g ns p \<and> (\<exists>i. fs_ents g (r @ ns) = Some (NDir i)))) (grown d r f0 f)"
        by (rule triple_weaken [OF triple_ensure_dir [OF loc]]) (auto intro: located_grown [OF loc])
    qed
    have dir: "dir_ok d r f \<lparr>rd_finalPath = p\<rparr>"
      if "located d r f ns p" "fs_ents f (r @ ns) = Some (NDir i)" for f i
      using that dirs_to_snoc [of r f "butlast ns" "last ns"] by (auto simp: dir_ok_def located_def)
    show ?case unfolding located_in_def [abs_def]
    proof (rule triple_bind [OF made], rule triple_upd_store, goal_cases)
      case (1 a s f)
      then show ?case using dir by (auto simp: store_ok_def claim_def)
    qed
  qed
qed

lemma plan_link_ok:
  "store_ok d r f0 (s, f) \<Longrightarrow> link_ok d r f l \<Longrightarrow> store_ok d r f0 (plan_link i l s, f)"
  by (auto simp: store_ok_def plan_link_def claim_def)

lemma triple_plan_link:
  "rl_finalPath l = p \<Longrightarrow> triple (at_place d r f0 p) (upd_store (plan_link i l)) (\<lambda>_. store_ok d r f0) (store_ok d r f0)"
  by (rule triple_upd_store) (auto simp: at_place_def link_ok_def intro!: plan_link_ok)

lemma triple_planSymlink:
  "triple (store_ok d r f0) (planSymlink itemID item) (\<lambda>_. store_ok d r f0) (store_ok d r f0)"
  unfolding planSymlink_def
proof (rule triple_from_store, goal_cases)
  case (1 s0)
  have L: "located_in d r f0 ns p w \<Longrightarrow> store_ok d r f0 w" for ns p w by (rule located_in_ok)
  have target: "triple (store_ok d r f0) (try_get ManifestErr (\<lambda>_. validateSafeSymlinkTarget n t))
      (\<lambda>_. store_ok d r f0) (store_ok d r f0)" for n t by (rule triple_try_get)
  have planned: "triple (located_in d r f0 ns p) (upd_store (plan_link itemID l)) (\<lambda>_. store_ok d r f0) (store_ok d r f0)"
    if "rl_finalPath l = p" for ns p l
    by (rule triple_weaken [OF triple_plan_link [OF that]]) (auto intro: located_in_place)
  have keep: "triple (located_in d r f0 ns p) (gets g) (\<lambda>_. located_in d r f0 ns p) (store_ok d r f0)"
    "triple (located_in d r f0 ns p) (guard_act b e) (\<lambda>_. located_in d r f0 ns p) (store_ok d r f0)" for ns p g b e
    by (rule triple_gets triple_guard; auto intro: L)+
  have keep_state: "triple (located_in d r f0 ns p) (fs_get (pathState q)) (\<lambda>_. located_in d r f0 ns p) (store_ok d r f0)"
    "triple (located_in d r f0 ns p) (fs_get (\<lambda>f. Lstat f q)) (\<lambda>_. located_in d r f0 ns p) (store_ok d r f0)" for ns p q
    by (rule triple_fs_get; auto intro: L)+
  show ?case unfolding 1
  proof (rule triple_at_item_path, rule triple_bind [OF target], rule triple_behind_parents, goal_cases)
    case (1 ns a)
    show ?case
    proof (rule triple_bind [OF keep(1)], goal_cases)
      case (1 m)
      show ?case by (cases m)
        (auto simp: Let_def intro!: triple_bind [OF keep_state(1)] triple_bind [OF keep_state(2)]
            triple_bind [OF keep(2)] planned triple_renamed triple_plan_link)
    qed
  qed
qed

lemma triple_open_item:
  "triple (store_ok d r f0) (open_item sha entry) (\<lambda>_. store_ok d r f0) (store_ok d r f0)"
  by (cases entry)
    (auto simp: open_item_def intro!: triple_openFile triple_openDirectory triple_planSymlink triple_upd_store triple_ret
      split: ItemKind.splits)

lemma triple_reserve_item:
  "triple (store_ok d r f0) (reserve_item item) (\<lambda>_. store_ok d r f0) (store_ok d r f0)"
  unfolding reserve_item_def
  by (auto intro!: triple_from_store triple_at_item_path triple_upd_store triple_ret)

section \<open>The other operations\<close>

lemma touch_handle: "store_ok d r f0 (s, f) \<Longrightarrow> st_files s i = Some rf \<Longrightarrow> rf_file rf = Some h \<Longrightarrow> touchable r f0 h"
  by (auto simp: store_ok_def file_ok_def)

lemma file_ok_of: "store_ok d r f0 (s, f) \<Longrightarrow> st_files s i = Some rf \<Longrightarrow> file_ok d r f0 f rf"
  by (auto simp: store_ok_def)

text \<open>
  Replacing the state of a file by one with the same paths and the same or no handle; cutting and
  writing through a handle of the store.
\<close>

definition same_file :: "receiveFile \<Rightarrow> receiveFile \<Rightarrow> bool" where
  "same_file rf rf' \<longleftrightarrow> rf_finalPath rf' = rf_finalPath rf \<and> rf_partPath rf' = rf_partPath rf
     \<and> rf_complete rf' = rf_complete rf \<and> (rf_file rf' = rf_file rf \<or> rf_file rf' = None)"

lemma triple_replace_file:
  assumes "st_files s i = Some rf" "same_file rf rf'"
  shows "triple (\<lambda>w. store_ok d r f0 w \<and> s = fst w) (upd_store (\<lambda>s. s\<lparr>st_files := (st_files s)(i \<mapsto> rf')\<rparr>))
    (\<lambda>_. store_ok d r f0) E"
proof (rule triple_upd_store, goal_cases)
  case (1 t f)
  then have "file_ok d r f0 f rf" using assms(1) file_ok_of by auto
  then have "file_ok d r f0 f rf'" using assms(2) by (auto simp: file_ok_def same_file_def)
  with 1 show ?case by (auto intro: add_file_ok)
qed

lemma triple_handle_put:
  assumes "st_files s i = Some rf" "rf_file rf = Some h"
    and "\<And>f f'. g f = Inr f' \<Longrightarrow> Truncate h n f = Inr f' \<or> WriteAt h bs off f = Inr f'"
  shows "triple (\<lambda>w. store_ok d r f0 w \<and> s = fst w) (fs_put g) (\<lambda>_ w. store_ok d r f0 w \<and> s = fst w) (store_ok d r f0)"
proof (rule triple_fs_put, goal_cases)
  case (1 t f f')
  then have ok: "store_ok d r f0 (s, f)" by simp
  have "grown d r f0 f f'"
    using assms(3) [OF 1(2)] Truncate_grown(1) WriteAt_grown(1) store_ok_self [OF ok] touch_handle [OF ok assms(1,2)] by blast
  then show ?case using store_ok_grown [OF ok] 1 by simp
qed simp

lemma triple_handle_truncate:
  assumes "st_files s i = Some rf" "rf_file rf = Some h"
  shows "triple (\<lambda>w. store_ok d r f0 w \<and> s = fst w) (fs_put (Truncate h n)) (\<lambda>_ w. store_ok d r f0 w \<and> s = fst w) (store_ok d r f0)"
  by (rule triple_handle_put [OF assms, where n = n]) simp

lemma triple_handle_write:
  assumes "st_files s i = Some rf" "rf_file rf = Some h"
  shows "triple (\<lambda>w. store_ok d r f0 w \<and> s = fst w) (fs_put (WriteAt h bs off)) (\<lambda>_ w. store_ok d r f0 w \<and> s = fst w) (store_ok d r f0)"
  by (rule triple_handle_put [OF assms, where bs = bs and off = off]) simp

lemma triple_close_file: "triple (store_ok d r f0) (close_file i) (\<lambda>_. store_ok d r f0) (store_ok d r f0)"
  unfolding close_file_def
proof (rule triple_bind [OF triple_the_store], goal_cases)
  case (1 s)
  show ?case
  proof (cases "st_files s i")
    case (Some rf)
    show ?thesis
    proof (cases "rf_file rf")
      case None
      with Some show ?thesis by (auto intro!: triple_ret)
    next
      case h: (Some h)
      have cut: "triple (\<lambda>w. store_ok d r f0 w \<and> s = fst w)
          (if st_outOfOrder s then fs_put (Truncate h (rf_offset rf)) else ret ())
          (\<lambda>_ w. store_ok d r f0 w \<and> s = fst w) (store_ok d r f0)"
        by (auto intro!: triple_ret triple_handle_truncate [OF Some h])
      show ?thesis unfolding Some h option.case
        by (rule triple_bind [OF cut], rule triple_replace_file [OF Some]) (simp add: same_file_def)
    qed
  qed (auto intro!: triple_ret)
qed

lemma triple_Close: "triple (store_ok d r f0) (Close ord) (\<lambda>_. store_ok d r f0) (store_ok d r f0)"
  unfolding Close_def by (rule triple_for_each) (rule triple_close_file)

lemma triple_open_items: "triple (store_ok d r f0) (open_items sha ord) (\<lambda>_. store_ok d r f0) (store_ok d r f0)"
  unfolding triple_def
proof (intro allI impI)
  fix w
  assume w: "store_ok d r f0 w"
  have "store_ok d r f0 (snd (for_each (open_item sha) (numbered (mf_items (st_manifest (fst w)))) w))"
    using triple_state [OF triple_for_each [where P = "store_ok d r f0", OF triple_open_item] w] .
  moreover have "store_ok d r f0 w' \<Longrightarrow> store_ok d r f0 (snd (Close ord w'))" for w'
    using triple_state [OF triple_Close] .
  ultimately have "store_ok d r f0 (snd (open_items sha ord w))"
    by (cases "for_each (open_item sha) (numbered (mf_items (st_manifest (fst w)))) w")
      (auto simp: open_items_def split: sum.splits)
  then show "case open_items sha ord w of (Inr a, w') \<Rightarrow> store_ok d r f0 w' | (Inl e, w') \<Rightarrow> store_ok d r f0 w'"
    by (cases "open_items sha ord w") (simp split: sum.splits)
qed

lemma triple_accept_entries:
  "triple (store_ok d r f0) (accept_entries entries accepted) (\<lambda>_. store_ok d r f0) (store_ok d r f0)"
proof (induction entries arbitrary: accepted)
  case Nil
  show ?case by (auto intro!: triple_ret)
next
  case (Cons entry entries)
  have sha: "triple (store_ok d r f0) (upd_store (set_item_sha i h)) (\<lambda>_. store_ok d r f0) (store_ok d r f0)" for i h
    by (rule triple_upd_store) (simp add: set_item_sha_def)
  have G: "triple (store_ok d r f0) (guard_act b e) (\<lambda>_. store_ok d r f0) (store_ok d r f0)" for b e
    by (rule triple_guard)
  have T: "triple (store_ok d r f0) (try_get PlanErr (\<lambda>_. v)) (\<lambda>_. store_ok d r f0) (store_ok d r f0)"
    for v :: "(mux_error, int) result" by (rule triple_try_get)
  have late: "triple (store_ok d r f0) (if b then bind_act (guard_act b' e) (\<lambda>_. upd_store (set_item_sha i h)) else ret ())
      (\<lambda>_. store_ok d r f0) (store_ok d r f0)" for b b' e i h
    by (auto intro!: triple_ret triple_bind [OF G] sha)
  show ?case unfolding accept_entries.simps Let_def
    by (rule triple_from_store, rule triple_bind [OF T], rule triple_bind [OF G],
        rule triple_bind [OF late Cons.IH])
qed

lemma triple_accept_file: "triple (store_ok d r f0) (accept_file accepted i) (\<lambda>_. store_ok d r f0) (store_ok d r f0)"
  unfolding accept_file_def
proof (rule triple_bind [OF triple_the_store], goal_cases)
  case (1 s)
  show ?case
  proof (cases "st_files s i")
    case (Some rf)
    have cut: "triple (\<lambda>w. store_ok d r f0 w \<and> s = fst w)
        (bind_act (fs_put (Truncate h n)) (\<lambda>_. upd_store (\<lambda>s. s\<lparr>st_files := (st_files s)(i \<mapsto>
           rf\<lparr>rf_offset := n, rf_ranges := newByteRanges n\<rparr>)\<rparr>))) (\<lambda>_. store_ok d r f0) (store_ok d r f0)"
      if "rf_file rf = Some h" for h n
      by (rule triple_bind [OF triple_handle_truncate [OF Some that]], rule triple_replace_file [OF Some])
        (simp add: same_file_def)
    show ?thesis
      by (auto simp: Some intro!: triple_throw triple_guard triple_ret cut split: option.split)
  qed (auto intro!: triple_ret)
qed

lemma triple_ApplyResumeAccept:
  "triple (store_ok d r f0) (ApplyResumeAccept ord entries) (\<lambda>_. store_ok d r f0) (store_ok d r f0)"
  unfolding ApplyResumeAccept_def
  by (rule triple_bind [OF triple_accept_entries],
      rule triple_bind [OF triple_for_each [where P = "store_ok d r f0", OF triple_accept_file]])
    (auto intro!: triple_upd_store)

lemma triple_write_file_chunk:
  "triple (store_ok d r f0) (write_file_chunk i item offset data) (\<lambda>_. store_ok d r f0) (store_ok d r f0)"
  unfolding write_file_chunk_def
proof (rule triple_bind [OF triple_the_store], goal_cases)
  case (1 s)
  let ?P = "\<lambda>w. store_ok d r f0 w \<and> s = fst w"
  have T1: "triple ?P (try_get ChunkBounds (\<lambda>_. v)) (\<lambda>_. ?P) (store_ok d r f0)"
    for v :: "(chunk_bounds_error, unit) result" by (rule triple_try_get) auto
  have T2: "triple ?P (try_get ChunkOverlap (\<lambda>_. v)) (\<lambda>_. ?P) (store_ok d r f0)"
    for v :: "(range_error, byteRanges) result" by (rule triple_try_get) auto
  have G: "triple ?P (guard_act b e) (\<lambda>_. ?P) (store_ok d r f0)" for b e by (rule triple_guard) auto
  show ?case
  proof (cases "st_files s i")
    case (Some rf)
    have put: "triple ?P (bind_act (fs_put (WriteAt h data offset)) (\<lambda>_. upd_store (\<lambda>s. s\<lparr>st_files := (st_files s)(i \<mapsto>
         rf\<lparr>rf_ranges := x, rf_offset := Prefix x\<rparr>)\<rparr>))) (\<lambda>_. store_ok d r f0) (store_ok d r f0)"
      if "rf_file rf = Some h" for h x
      by (rule triple_bind [OF triple_handle_write [OF Some that]], rule triple_replace_file [OF Some])
        (simp add: same_file_def)
    show ?thesis
      by (auto simp: Some intro!: triple_throw triple_bind [OF T1] triple_bind [OF G] triple_bind [OF T2] put
          split: option.split)
  qed (auto intro!: triple_throw)
qed

lemma triple_write_text_chunk:
  "triple (store_ok d r f0) (write_text_chunk i item offset data) (\<lambda>_. store_ok d r f0) (store_ok d r f0)"
  unfolding write_text_chunk_def
  by (auto intro!: triple_from_store triple_throw triple_bind [where R = "\<lambda>_. store_ok d r f0"] triple_try_get
      triple_upd_store split: option.split)

lemma triple_WriteChunk: "triple (store_ok d r f0) (WriteChunk i offset data) (\<lambda>_. store_ok d r f0) (store_ok d r f0)"
  unfolding WriteChunk_def
  by (auto intro!: triple_from_store triple_throw triple_write_file_chunk triple_write_text_chunk
      split: option.split ItemKind.split)

end
