(* ===== verification/Receiver_Safety.thy ===== *)
theory Receiver_Safety
  imports Confined_Receiver
begin

text \<open>
  Finalisation keeps to the output directory too, and with it the whole life of a receive store.
\<close>

section \<open>Finalisation\<close>

lemma triple_metadata:
  assumes "located d r f ns p" "unlinked r f ns"
  shows "triple (grown d r f0 f) (applyPathMetadata p item) (\<lambda>_. grown d r f0 f) (grown d r f0 f)"
proof -
  have mode: "triple (grown d r f0 f) (try_put OsErr (Chmod p m)) (\<lambda>_. grown d r f0 f) (grown d r f0 f)" for m
    by (rule triple_try_put) (auto intro: Chmod_grown(1) located_grown [OF assms(1)] unlinked_grown [OF assms(2)])
  have times: "triple (grown d r f0 f) (try_put OsErr (Chtimes p m)) (\<lambda>_. grown d r f0 f) (grown d r f0 f)" for m
    by (rule triple_try_put) (auto intro: Chtimes_grown(1) located_grown [OF assms(1)] unlinked_grown [OF assms(2)])
  show ?thesis unfolding applyPathMetadata_def
    by (rule triple_bind [where R = "\<lambda>_. grown d r f0 f"]) (auto intro!: mode times triple_ret)
qed

lemma triple_finalizeReceivedFile:
  assumes "located d r f ms (rf_partPath rf)" "unlinked r f ms" "located d r f ns (rf_finalPath rf)"
  shows "triple (grown d r f0 f) (finalizeReceivedFile rf item) (\<lambda>_. grown d r f0 f) (grown d r f0 f)"
proof -
  have state: "triple (grown d r f0 f) (try_get OsErr (pathState p)) (\<lambda>_. grown d r f0 f) (grown d r f0 f)" for p
    by (rule triple_try_get)
  have guard: "triple (grown d r f0 f) (guard_act b e) (\<lambda>_. grown d r f0 f) (grown d r f0 f)" for b e
    by (rule triple_guard)
  have ren: "triple (grown d r f0 f) (try_put OsErr (Rename (rf_partPath rf) (rf_finalPath rf)))
      (\<lambda>_. grown d r f0 f) (grown d r f0 f)"
    using assms
    by (intro triple_try_put) (auto intro: Rename_grown located_grown unlinked_grown)
  show ?thesis unfolding finalizeReceivedFile_def
    by (rule triple_bind [OF triple_metadata [OF assms(1,2)]], rule triple_bind [OF state])
      (auto intro!: triple_bind [OF guard] ren)
qed

lemma triple_finalize_file:
  "triple (store_ok d r f0) (finalize_file sha i item) (\<lambda>_. store_ok d r f0) (store_ok d r f0)"
  unfolding finalize_file_def
proof (rule triple_bind [OF triple_the_store], goal_cases)
  case (1 s)
  let ?P = "\<lambda>w. store_ok d r f0 w \<and> s = fst w"
  show ?case
  proof (cases "st_files s i")
    case (Some rf)
    let ?Q = "\<lambda>w. store_ok d r f0 w \<and> (\<exists>ns ms. located d r (snd w) ms (rf_partPath rf)
        \<and> unlinked r (snd w) ms \<and> located d r (snd w) ns (rf_finalPath rf))"
    have meta: "triple ?P (with_fs (applyPathMetadata (rf_finalPath rf) item)) (\<lambda>_. store_ok d r f0) (store_ok d r f0)"
      if c: "rf_complete rf"
    proof -
      have "triple (\<lambda>w. store_ok d r f0 w \<and> s = fst w) (with_fs (applyPathMetadata (rf_finalPath rf) item))
          (\<lambda>_ w. store_ok d r f0 w \<and> True) (store_ok d r f0)"
      proof (rule triple_with_fs_grown, goal_cases)
        case (1 t f)
        then obtain ns where "located d r f ns (rf_finalPath rf)" "unlinked r f ns"
          using file_ok_of [of d r f0 t f i rf] Some c by (auto simp: file_ok_def)
        then show ?case using triple_metadata by simp
      qed
      then show ?thesis by simp
    qed
    have fin: "triple ?Q (with_fs (finalizeReceivedFile rf item)) (\<lambda>_. store_ok d r f0) (store_ok d r f0)"
    proof -
      have "triple ?Q (with_fs (finalizeReceivedFile rf item)) (\<lambda>_ w. store_ok d r f0 w \<and> True) (store_ok d r f0)"
        by (rule triple_with_fs_grown) (auto intro: triple_finalizeReceivedFile)
      then show ?thesis by simp
    qed
    have closed: "triple ?P (upd_store (\<lambda>s. s\<lparr>st_files := (st_files s)(i \<mapsto> rf\<lparr>rf_file := None\<rparr>)\<rparr>)) (\<lambda>_. ?Q) (store_ok d r f0)"
      if "rf_file rf = Some h" for h
    proof (rule triple_upd_store, goal_cases)
      case (1 t f)
      then have "file_ok d r f0 f rf" using file_ok_of [of d r f0 t f i rf] Some by simp
      moreover from this have "file_ok d r f0 f (rf\<lparr>rf_file := None\<rparr>)" by (auto simp: file_ok_def)
      ultimately show ?case using 1 that by (auto simp: file_ok_def intro!: add_file_ok)
    qed
    have verify: "triple ?Q (try_get (\<lambda>e. e) (\<lambda>(s, f). verifyPartFile sha p item f)) (\<lambda>_. ?Q) (store_ok d r f0)" for p
      by (rule triple_try_get) auto
    have guard: "triple ?P (guard_act b e) (\<lambda>_. ?P) (store_ok d r f0)" for b e by (rule triple_guard) auto
    show ?thesis
      by (auto simp: Some intro!: triple_ret triple_throw meta triple_bind [OF guard] triple_bind [OF closed]
          triple_bind [OF verify] fin split: option.split)
  qed (auto intro!: triple_throw)
qed

lemma triple_finalize_items:
  "triple (store_ok d r f0) (finalize_items sha es texts) (\<lambda>_. store_ok d r f0) (store_ok d r f0)"
proof (induction es arbitrary: texts)
  case Nil
  show ?case by (auto intro!: triple_ret)
next
  case (Cons e es)
  obtain i item where e: "e = (i, item)" by (cases e)
  have verify: "triple (store_ok d r f0) (try_get (\<lambda>e. e) (\<lambda>_. verifyTextItem sha x item)) (\<lambda>_. store_ok d r f0) (store_ok d r f0)"
    for x d by (rule triple_try_get)
  have "triple (store_ok d r f0) (finalize_item sha e texts) (\<lambda>_. store_ok d r f0) (store_ok d r f0)"
    unfolding finalize_item_def e
    by (auto intro!: triple_bind [OF triple_finalize_file] triple_ret triple_from_store triple_throw triple_bind [OF verify]
        split: ItemKind.split option.split)
  then show ?case using Cons.IH by (auto intro!: triple_bind)
qed

text \<open>
  While links are made, less is known of the entries of files; what the last phase and closing
  need is this.
\<close>

definition late_ok :: "string \<Rightarrow> phys \<Rightarrow> fs \<Rightarrow> ReceiveStore \<times> fs \<Rightarrow> bool" where
  "late_ok d r f0 w \<longleftrightarrow>
     rooted_at d r f0 \<and> confined r f0 (snd w)
     \<and> (\<forall>i rf h. st_files (fst w) i = Some rf \<and> rf_file rf = Some h \<longrightarrow> touchable r f0 h)
     \<and> (\<forall>i x. st_dirs (fst w) i = Some x \<longrightarrow> dir_ok d r (snd w) x)
     \<and> (\<forall>i l. st_symlinks (fst w) i = Some l \<longrightarrow> link_ok d r (snd w) l)"

lemma store_ok_late: "store_ok d r f0 w \<Longrightarrow> late_ok d r f0 w"
  by (auto simp: store_ok_def late_ok_def file_ok_def)

lemma late_ok_keeps: "late_ok d r f0 (s, f) \<Longrightarrow> confined r f0 g \<Longrightarrow> keeps_dirs f g \<Longrightarrow> late_ok d r f0 (s, g)"
  using dir_ok_keeps link_ok_keeps unfolding late_ok_def by fastforce

lemma Remove_located:
  assumes "rooted_at d r f0" "confined r f0 f" "located d r f ns p" "Remove p f = Inr g"
  shows "confined r f0 g \<and> keeps_dirs f g"
proof -
  have "g = set_entry (r @ ns) None f \<and> (\<forall>i. fs_ents f (r @ ns) \<noteq> Some (NDir i))"
    using assms(4) existing_located [OF grown_refl [OF assms(1,2)] assms(3), of False]
    by (auto simp: Remove_def is_dir_def split: option.splits node.splits)
  moreover from this have "keeps_dirs f g" by (auto simp: keeps_dirs_def)
  ultimately show ?thesis using assms(2,3) by (auto simp: located_def intro!: confined_set_entry)
qed

lemma Symlink_located:
  assumes "rooted_at d r f0" "confined r f0 f" "located d r f ns p" "Symlink t p f = Inr g"
  shows "confined r f0 g \<and> keeps_dirs f g"
proof -
  have "g = set_entry (r @ ns) (Some (NLink t)) f \<and> fs_ents f (r @ ns) = None"
    using assms(3,4) resolve_located [OF grown_refl [OF assms(1,2)] assms(3), of False]
    by (auto simp: Symlink_def place_entry located_def split: if_splits)
  moreover from this have "keeps_dirs f g" by (auto simp: keeps_dirs_def)
  ultimately show ?thesis using assms(2,3) by (auto simp: located_def refers_def intro!: confined_set_entry)
qed

lemma triple_finalizeSymlink:
  fixes f0 :: fs
  assumes "located d r f ns (rl_finalPath l)"
  defines "P \<equiv> \<lambda>g. rooted_at d r f0 \<and> confined r f0 g \<and> keeps_dirs f g"
  shows "triple P (finalizeSymlink l) (\<lambda>_. P) P"
proof -
  have loc: "located d r g ns (rl_finalPath l)" if "P g" for g
    using assms that by (auto simp: located_def intro: dirs_to_keeps)
  have trans: "keeps_dirs f g \<Longrightarrow> keeps_dirs g h \<Longrightarrow> keeps_dirs f h" for g h
    unfolding keeps_dirs_def by blast
  have "P h" if "P g" "Remove (rl_finalPath l) g = Inr h" for g h
    using Remove_located [OF _ _ loc [OF that(1)] that(2)] that(1) trans [of g h] unfolding P_def by blast
  then have rem: "triple P (try_put OsErr (Remove (rl_finalPath l))) (\<lambda>_. P) P" by (rule triple_try_put)
  have "P h" if "P g" "Symlink (rl_target l) (rl_finalPath l) g = Inr h" for g h
    using Symlink_located [OF _ _ loc [OF that(1)] that(2)] that(1) trans [of g h] unfolding P_def by blast
  then have sym: "triple P (try_put OsErr (Symlink (rl_target l) (rl_finalPath l))) (\<lambda>_. P) P" by (rule triple_try_put)
  have over: "triple P (\<lambda>g. case Lstat g (rl_finalPath l) of
             Inr nd \<Rightarrow> bind_act (guard_act (\<not> is_dir nd) e) (\<lambda>_. try_put OsErr (Remove (rl_finalPath l))) g
           | Inl e \<Rightarrow> guard_act (IsNotExist e) (OsErr e) g) (\<lambda>_. P) P" for e
  proof -
    have "triple P (bind_act (guard_act b e) (\<lambda>_. try_put OsErr (Remove (rl_finalPath l)))) (\<lambda>_. P) P" for b
      by (rule triple_bind [OF triple_guard rem]) auto
    moreover have "triple P (guard_act b x) (\<lambda>_. P) P" for b and x :: store_error by (rule triple_guard)
    ultimately show ?thesis by (auto simp: triple_def split: sum.split)
  qed
  have st: "triple P (try_get OsErr (pathState p)) (\<lambda>_. P) P" for p by (rule triple_try_get)
  show ?thesis unfolding finalizeSymlink_def
    by (rule triple_bind [OF _ sym]) (auto intro!: over triple_bind [OF st] triple_guard)
qed

lemma triple_finalize_link: "triple (late_ok d r f0) (finalize_link entry) (\<lambda>_. late_ok d r f0) (late_ok d r f0)"
  unfolding finalize_link_def
proof (cases entry)
  case (Pair i item)
  have step: "triple (\<lambda>w. late_ok d r f0 w \<and> s = fst w) (with_fs (finalizeSymlink l)) (\<lambda>_. late_ok d r f0) (late_ok d r f0)"
    if "st_symlinks s i = Some l" for s l
  proof (rule triple_with_fs)
    fix t f
    assume "late_ok d r f0 (t, f) \<and> s = fst (t, f)"
    then have ok: "late_ok d r f0 (t, f)" and "t = s" by auto
    with that obtain ns where ns: "located d r f ns (rl_finalPath l)" by (fastforce simp: late_ok_def link_ok_def)
    show "triple (\<lambda>g. g = f) (finalizeSymlink l) (\<lambda>_ g. late_ok d r f0 (t, g)) (\<lambda>g. late_ok d r f0 (t, g))"
      by (rule triple_weaken [OF triple_finalizeSymlink [OF ns, of f0]])
        (use ok in \<open>auto simp: late_ok_def [of d r f0 "(t, f)"] intro: late_ok_keeps [OF ok]\<close>)
  qed
  show "triple (late_ok d r f0) (case entry of (i, item) \<Rightarrow>
        if item_kind item \<noteq> ItemSymlink then ret ()
        else bind_act the_store (\<lambda>s.
          case st_symlinks s i of
            None \<Rightarrow> throw SymlinkNotPlanned
          | Some link \<Rightarrow> if rl_skipped link then ret () else with_fs (finalizeSymlink link)))
      (\<lambda>_. late_ok d r f0) (late_ok d r f0)"
    by (auto simp: Pair intro!: triple_ret triple_throw triple_bind [OF triple_the_store] step split: option.split)
qed

lemma triple_finalize_dir: "triple (late_ok d r f0) (finalize_dir i) (\<lambda>_. late_ok d r f0) (late_ok d r f0)"
  unfolding finalize_dir_def
proof (rule triple_bind [OF triple_the_store], goal_cases)
  case (1 s)
  have step: "triple (\<lambda>w. late_ok d r f0 w \<and> s = fst w) (with_fs (applyPathMetadata (rd_finalPath x) item))
      (\<lambda>_. late_ok d r f0) (late_ok d r f0)" if "st_dirs s i = Some x" for x item
  proof (rule triple_with_fs)
    fix t f
    assume "late_ok d r f0 (t, f) \<and> s = fst (t, f)"
    then have ok: "late_ok d r f0 (t, f)" and "t = s" by auto
    with that have "dir_ok d r f x" by (simp add: late_ok_def)
    then obtain ns where ns: "ns \<noteq> []" "plain_all ns" "rd_finalPath x = place d ns" "dirs_to r f ns"
      unfolding dir_ok_def by blast
    then have loc: "located d r f ns (rd_finalPath x)" and un: "unlinked r f ns"
      by (cases ns rule: rev_cases; auto simp: located_def unlinked_def dirs_to_snoc)+
    have "rooted_at d r f0" "confined r f0 f" using ok by (auto simp: late_ok_def)
    then show "triple (\<lambda>g. g = f) (applyPathMetadata (rd_finalPath x) item) (\<lambda>_ g. late_ok d r f0 (t, g)) (\<lambda>g. late_ok d r f0 (t, g))"
      by (intro triple_weaken [OF triple_metadata [OF loc un, of f0]])
        (auto simp: grown_def intro: late_ok_keeps [OF ok])
  qed
  show ?case by (auto intro!: triple_ret step split: option.split)
qed

lemma triple_Finalize: "triple (store_ok d r f0) (Finalize sha ord) (\<lambda>_. late_ok d r f0) (late_ok d r f0)"
proof -
  have texts: "triple (store_ok d r f0) (finalize_items sha es ts) (\<lambda>_. late_ok d r f0) (late_ok d r f0)" for es ts
    by (rule triple_weaken [OF triple_finalize_items]) (auto intro: store_ok_late)
  show ?thesis unfolding Finalize_def
    by (rule triple_bind [where R = "\<lambda>_. store_ok d r f0"], simp add: the_store_def triple_gets,
        rule triple_bind [OF texts],
        rule triple_bind [OF triple_for_each [where P = "late_ok d r f0", OF triple_finalize_link]],
        rule triple_bind [OF triple_for_each [where P = "late_ok d r f0", OF triple_finalize_dir]], rule triple_ret)
qed

section \<open>The life of a store\<close>

text \<open>
  Between its creation and its end a store is sent acceptances of resume entries and chunks, and
  it may be closed. The receiver stops at the first error; the sequence here goes on, so that
  every way to stop is covered.
\<close>

datatype store_op = OpAccept "int list" "ResumeEntry list" | OpChunk int int string | OpClose "int list"

primrec run_op :: "store_op \<Rightarrow> unit store_act" where
  "run_op (OpAccept ord entries) = ApplyResumeAccept ord entries"
| "run_op (OpChunk itemID offset data) = WriteChunk itemID offset data"
| "run_op (OpClose ord) = Close ord"

definition run_ops :: "store_op list \<Rightarrow> ReceiveStore \<times> fs \<Rightarrow> ReceiveStore \<times> fs" where
  "run_ops ops w = fold (\<lambda>op w. snd (run_op op w)) ops w"

lemma run_op_ok: "store_ok d r f0 w \<Longrightarrow> store_ok d r f0 (snd (run_op op w))"
  by (cases op) (simp_all add: triple_state [OF triple_ApplyResumeAccept] triple_state [OF triple_WriteChunk]
      triple_state [OF triple_Close])

lemma run_ops_ok: "store_ok d r f0 w \<Longrightarrow> store_ok d r f0 (run_ops ops w)"
  unfolding run_ops_def
proof (induction ops arbitrary: w)
  case (Cons op ops)
  then show ?case using Cons.IH [OF run_op_ok [OF Cons.prems]] by simp
qed simp

lemma empty_store_ok: "rooted_at d r f0 \<Longrightarrow> store_ok d r f0 (empty_store m plan d conflict ooo, f0)"
  by (simp add: store_ok_def empty_store_def confined_refl)

lemma new_store_ok:
  assumes "MkdirAll d f = (Inr (), f1)" "rooted_at d r f1"
    and "NewReceiveStoreWithOptions sha ord manifest d policy ooo f = (res, f2)"
  shows "f2 = f \<or> confined r f1 f2" and "res = Inr s \<Longrightarrow> store_ok d r f1 (s, f2)"
proof -
  let ?m = "\<lambda>m. bind_act (for_each reserve_item (mf_items m)) (\<lambda>_. open_items sha ord)"
  have t: "triple (store_ok d r f1) (?m m) (\<lambda>_. store_ok d r f1) (store_ok d r f1)" for m
    by (rule triple_bind [OF triple_for_each [where P = "store_ok d r f1", OF triple_reserve_item] triple_open_items])
  have ok: "store_ok d r f1 (snd (?m m (empty_store m plan d conflict ooo, f1)))" for m plan conflict
    using triple_state [OF t empty_store_ok [OF assms(2)]] .
  have "(f2 = f \<or> confined r f1 f2) \<and> (res = Inr s \<longrightarrow> store_ok d r f1 (s, f2))"
  proof (cases "store_setup manifest policy")
    case (Inl e)
    with assms(3) show ?thesis by (auto simp: NewReceiveStoreWithOptions_def)
  next
    case (Inr x)
    obtain m conflict plan where x: "x = (m, conflict, plan)" by (cases x)
    obtain y t g where y: "?m m (empty_store m plan d conflict ooo, f1) = (y, (t, g))" by (metis prod.exhaust)
    have "store_ok d r f1 (t, g)" using ok [of m plan conflict] y by simp
    moreover from this have "confined r f1 g" by (simp add: store_ok_def)
    ultimately show ?thesis using assms(3) y
      by (cases y) (auto simp: NewReceiveStoreWithOptions_def assms(1) Inr x)
  qed
  then show "f2 = f \<or> confined r f1 f2" and "res = Inr s \<Longrightarrow> store_ok d r f1 (s, f2)" by auto
qed

text \<open>Closing needs no more than the handles.\<close>

lemma late_touch: "late_ok d r f0 (s, f) \<Longrightarrow> confined r f0 f"
  by (simp add: late_ok_def)

lemma close_file_late: "late_ok d r f0 w \<Longrightarrow> late_ok d r f0 (snd (close_file i w))"
proof -
  assume w: "late_ok d r f0 w"
  obtain s f where sf: "w = (s, f)" by (cases w)
  have drop: "late_ok d r f0 (s\<lparr>st_files := (st_files s)(i \<mapsto> rf\<lparr>rf_file := None\<rparr>)\<rparr>, g)"
    if "late_ok d r f0 (s, g)" for rf g using that by (auto simp: late_ok_def split: if_splits)
  have cut: "late_ok d r f0 (s, g)"
    if "st_files s i = Some rf" "rf_file rf = Some h" "Truncate h n f = Inr g" for rf h n g
  proof -
    have "touchable r f0 h" "rooted_at d r f0" "confined r f0 f"
      using w that(1,2) by (auto simp: late_ok_def sf)
    then have "grown d r f0 f g" using Truncate_grown(1) [OF grown_refl _ that(3)] by blast
    then show ?thesis using w late_ok_keeps [of d r f0 s f g] by (simp add: sf grown_def)
  qed
  show ?thesis
  proof (cases "\<exists>rf h. st_files s i = Some rf \<and> rf_file rf = Some h")
    case False
    then have "close_file i w = (Inr (), w)"
      by (auto simp: sf close_file_def the_store_def gets_def bind_act_def ret_def split: option.splits)
    with w show ?thesis by simp
  next
    case True
    then obtain rf h where rf: "st_files s i = Some rf" "rf_file rf = Some h" by blast
    have close: "close_file i w = bind_act (if st_outOfOrder s then fs_put (Truncate h (rf_offset rf)) else ret ())
        (\<lambda>_. upd_store (\<lambda>s. s\<lparr>st_files := (st_files s)(i \<mapsto> rf\<lparr>rf_file := None\<rparr>)\<rparr>)) w"
      by (simp add: sf close_file_def the_store_def gets_def bind_act_def rf)
    show ?thesis
    proof (cases "Truncate h (rf_offset rf) f")
      case (Inl e)
      with w drop [OF w [unfolded sf]] show ?thesis unfolding close
        by (simp add: sf bind_act_def ret_def fs_put_def with_fs_def try_put_def upd_store_def modify_def)
    next
      case (Inr g)
      from drop [OF cut [OF rf Inr]] drop [OF w [unfolded sf]] Inr show ?thesis unfolding close
        by (simp add: sf bind_act_def ret_def fs_put_def with_fs_def try_put_def upd_store_def modify_def)
    qed
  qed
qed

lemma Close_late: "late_ok d r f0 w \<Longrightarrow> late_ok d r f0 (snd (Close ord w))"
proof -
  have "triple (late_ok d r f0) (close_file i) (\<lambda>_. late_ok d r f0) (late_ok d r f0)" for i
    unfolding triple_def
  proof (intro allI impI)
    fix w assume "late_ok d r f0 w"
    then show "case close_file i w of (Inr a, w') \<Rightarrow> late_ok d r f0 w' | (Inl e, w') \<Rightarrow> late_ok d r f0 w'"
      using close_file_late [of d r f0 w i] by (cases "close_file i w") (auto split: sum.splits)
  qed
  then have "triple (late_ok d r f0) (Close ord) (\<lambda>_. late_ok d r f0) (late_ok d r f0)"
    unfolding Close_def by (rule triple_for_each)
  then show "late_ok d r f0 w \<Longrightarrow> late_ok d r f0 (snd (Close ord w))" by (rule triple_state)
qed

text \<open>
C4: The receiver writes only inside its output directory. Let the output directory exist (made by
MkdirAll) at a place whose resolution does not pass through its own content. Whatever manifest a
sender chooses, whatever files, directories and links the output directory already holds, and
whichever resume entries and chunks follow: creating the store, every operation on it, finalising
and closing it leave every directory entry outside unchanged, and every inode that is neither
new nor named inside the output directory unchanged, also when an operation fails.
\<close>

theorem receiver_confined:
  assumes "MkdirAll d f = (Inr (), f1)" and "rooted_at d r f1"
    and "NewReceiveStoreWithOptions sha ord manifest d policy ooo f = (res, f2)"
  shows "(f2 = f \<or> confined r f1 f2) \<and>
    (\<forall>s. res = Inr s \<longrightarrow>
       (let w = run_ops ops (s, f2); w' = snd (Finalize sha ord' w); w'' = snd (Close ord'' w')
        in confined r f1 (snd w) \<and> confined r f1 (snd w') \<and> confined r f1 (snd w'')))"
proof (intro conjI allI impI)
  show "f2 = f \<or> confined r f1 f2" using new_store_ok(1) [OF assms] .
next
  fix s
  assume "res = Inr s"
  then have w: "store_ok d r f1 (run_ops ops (s, f2))" using new_store_ok(2) [OF assms] run_ops_ok by blast
  then have w': "late_ok d r f1 (snd (Finalize sha ord' (run_ops ops (s, f2))))" by (rule triple_state [OF triple_Finalize])
  have w'': "late_ok d r f1 (snd (Close ord'' (snd (Finalize sha ord' (run_ops ops (s, f2))))))" by (rule Close_late [OF w'])
  show "let w = run_ops ops (s, f2); w' = snd (Finalize sha ord' w); w'' = snd (Close ord'' w')
        in confined r f1 (snd w) \<and> confined r f1 (snd w') \<and> confined r f1 (snd w'')"
    using w w' w'' unfolding Let_def store_ok_def late_ok_def by blast
qed

text \<open>
  A receiver in \<open>out\<close>, which holds a link \<open>l\<close> that leads outside, takes a directory with a file
  and a link of the same name \<open>l\<close>.
\<close>

definition demo_fs :: fs where
  "demo_fs =
     \<lparr>fs_ents = [[''out''] \<mapsto> NDir 1, [''out'', ''l''] \<mapsto> NLink ''/etc''],
      fs_inodes = (\<lambda>_. \<lparr>ino_data = '''', ino_mode = 0, ino_mtime = 0\<rparr>), fs_next = 2, fs_cwd = []\<rparr>"

lemma demo_root: "MkdirAll ''out'' demo_fs = (Inr (), demo_fs)" "rooted_at ''out'' [''out''] demo_fs"
proof -
  show "MkdirAll ''out'' demo_fs = (Inr (), demo_fs)"
    by (subst MkdirAll.simps)
      (simp add: Stat_def existing_def resolve_def names_def start_dir_def IsAbs_def namei.simps entry_at_def
        is_dir_def guard_act_def ret_def demo_fs_def)
  have "\<not> below [''out''] [''out'']" by (simp add: below_def)
  then show "rooted_at ''out'' [''out''] demo_fs"
    by (auto simp: rooted_at_def out_elements_def clean_elements_def clean_step_def IsAbs_def start_dir_def
        walk.simps(2) demo_fs_def)
qed

lemma demo_opens:
  "\<exists>s f2. NewReceiveStoreWithOptions (\<lambda>h. h) [] (Some tree_manifest) ''out'' '''' False demo_fs = (Inr s, f2)"
proof -
  have "(case NewReceiveStoreWithOptions (\<lambda>h. h) [] (Some tree_manifest) ''out'' '''' False demo_fs of
      (Inr _, _) \<Rightarrow> True | (Inl _, _) \<Rightarrow> False)" by code_simp
  then show ?thesis by (auto split: sum.splits prod.splits)
qed

theorem receiver_confined_witness:
  "\<exists>s f2. NewReceiveStoreWithOptions (\<lambda>h. h) [] (Some tree_manifest) ''out'' '''' False demo_fs = (Inr s, f2)
     \<and> confined [''out''] demo_fs (snd (snd (Finalize (\<lambda>h. h) [0] (run_ops [OpChunk 1 0 ''hello''] (s, f2)))))"
proof -
  obtain s f2 where new: "NewReceiveStoreWithOptions (\<lambda>h. h) [] (Some tree_manifest) ''out'' '''' False demo_fs = (Inr s, f2)"
    using demo_opens by blast
  from receiver_confined [OF demo_root new, of "[OpChunk 1 0 ''hello'']" "[0]" "[]"] new
  show ?thesis unfolding Let_def by blast
qed

end
