(* ===== verification/Receive_Content.thy ===== *)
theory Receive_Content
  imports Receiver_Safety
begin

text \<open>
  What the chunks leave in a part file. Chunks of a file arrive in any order when connections are
  striped, interleaved with chunks of other items; when the ranges of an item are complete, its
  part file holds exactly the bytes of the source, and finalisation gives that file its name.
\<close>

section \<open>Writing at an offset\<close>

lemma write_at_length: "bs \<noteq> [] \<Longrightarrow> length (write_at off bs d) = max (length d) (off + length bs)"
  by (simp add: write_at_def zero_bytes_def)

lemma write_at_inside:
  assumes "k < length bs"
  shows "write_at off bs d ! (off + k) = bs ! k"
proof -
  define pre where "pre = take off d @ zero_bytes (off - length d)"
  have "length pre = off" by (simp add: pre_def zero_bytes_def)
  moreover have "write_at off bs d = pre @ bs @ drop (off + length bs) d"
    using assms by (auto simp: write_at_def pre_def)
  ultimately show ?thesis using assms by (simp add: nth_append)
qed

lemma write_at_outside:
  assumes "k < length d" "k < off \<or> off + length bs \<le> k"
  shows "write_at off bs d ! k = d ! k"
proof (cases "k < off")
  case True
  with assms(1) show ?thesis by (auto simp: write_at_def nth_append)
next
  case False
  with assms have "length (take off d @ zero_bytes (off - length d) @ bs) = off + length bs" "off + length bs \<le> k"
    by (auto simp: zero_bytes_def)
  then show ?thesis using assms(1)
    by (simp add: write_at_def nth_append [of "take off d @ zero_bytes (off - length d) @ bs" , simplified])
      (auto simp: nth_append zero_bytes_def)
qed

text \<open>\<open>agrees src rs d\<close>: the file \<open>d\<close> has the bytes of \<open>src\<close> wherever the ranges \<open>rs\<close> say it was written.\<close>

definition agrees :: "string \<Rightarrow> byteRanges \<Rightarrow> string \<Rightarrow> bool" where
  "agrees src rs d \<longleftrightarrow> ranges_ok rs \<and> length d \<le> length src
     \<and> covered rs \<subseteq> {0..<int (length d)} \<and> (\<forall>k. int k \<in> covered rs \<longrightarrow> d ! k = src ! k)"

lemma agrees_complete:
  assumes "agrees src rs d" "Complete rs (int (length src))"
  shows "d = src"
proof -
  have "covered rs \<subseteq> {0..<int (length src)}" using assms(1) unfolding agrees_def by (fastforce simp: subset_eq)
  then have cov: "covered rs = {0..<int (length src)}"
    using assms br.prefix_complete [of rs "int (length src)"] by (auto simp: agrees_def Complete_def)
  moreover have "covered rs \<subseteq> {0..<int (length d)}" "length d \<le> length src"
    using assms(1) by (auto simp: agrees_def)
  ultimately have len: "length d = length src" by (cases "length src") auto
  show ?thesis
  proof (rule nth_equalityI [OF len])
    fix k
    assume "k < length d"
    then have "int k \<in> covered rs" using cov len by simp
    with assms(1) show "d ! k = src ! k" by (simp add: agrees_def)
  qed
qed

lemma agrees_prefix:
  assumes "0 \<le> n" "n \<le> int (length src)" "d = take (nat n) src"
  shows "agrees src (newByteRanges n) d"
  using assms by (auto simp: agrees_def newByteRanges_ok covered_newByteRanges)

text \<open>One accepted chunk of the source keeps the agreement.\<close>

lemma agrees_write:
  assumes "agrees src rs d" "Add rs off (off + int (length bs)) = Inr rs'"
    and "0 \<le> off" "off + int (length bs) \<le> int (length src)"
    and "bs = take (length bs) (drop (nat off) src)"
  shows "agrees src rs' (write_at (nat off) bs d)"
proof (cases "bs = []")
  case True
  with assms(1,2) show ?thesis
    by (simp add: write_at_def Add_def split: if_splits)
next
  case False
  have rs': "ranges_ok rs'" "covered rs' = covered rs \<union> {off..<off + int (length bs)}"
    using br.add_ok [OF _ assms(2)] assms(1) by (auto simp: agrees_def)
  let ?d = "write_at (nat off) bs d"
  have len: "length ?d = max (length d) (nat off + length bs)" using False by (rule write_at_length)
  have "length ?d \<le> length src" using assms(1,3,4) by (simp add: len agrees_def)
  moreover have "covered rs' \<subseteq> {0..<int (length ?d)}" using assms(1,3) unfolding agrees_def len rs'(2) by (fastforce simp: subset_eq)
  moreover have "?d ! k = src ! k" if k: "int k \<in> covered rs'" for k
  proof (cases "int k \<in> {off..<off + int (length bs)}")
    case True
    then obtain j where j: "k = nat off + j" "j < length bs" using assms(3)
      by (metis atLeastLessThan_iff int_eq_iff le_add_diff_inverse nat_add_distrib nat_int zle_iff_zadd zless_nat_conj
          add_less_cancel_left of_nat_add of_nat_less_iff)
    have "?d ! k = bs ! j" unfolding j(1) by (rule write_at_inside [OF j(2)])
    also have "\<dots> = take (length bs) (drop (nat off) src) ! j" using assms(5) by simp
    also have "\<dots> = src ! k" using j assms(3,4) by simp
    finally show ?thesis .
  next
    case False
    then have kr: "int k \<in> covered rs" using k rs' by blast
    then have "k < length d" using assms(1) by (auto simp: agrees_def)
    moreover have "k < nat off \<or> nat off + length bs \<le> k" using False assms(3) by auto
    ultimately have "?d ! k = d ! k" by (rule write_at_outside)
    then show ?thesis using assms(1) kr by (simp add: agrees_def)
  qed
  ultimately show ?thesis using rs'(1) by (simp add: agrees_def)
qed

section \<open>Chunks of several items\<close>

type_synonym chunk = "int \<times> int \<times> string"

definition write_all :: "chunk list \<Rightarrow> unit store_act" where
  "write_all = for_each (\<lambda>(itemID, offset, data). WriteChunk itemID offset data)"

text \<open>
  \<open>receiving i h src\<close>: item \<open>i\<close> is a file of the size of \<open>src\<close> with the open handle \<open>h\<close>, which no
  other item has, and what was written to it agrees with \<open>src\<close>.
\<close>

definition receiving :: "int \<Rightarrow> nat \<Rightarrow> string \<Rightarrow> ReceiveStore \<times> fs \<Rightarrow> bool" where
  "receiving i h src w \<longleftrightarrow>
     (\<exists>item rf. int_nth (st_items (fst w)) i = Some item \<and> item_kind item = ItemFile
        \<and> item_size item = int (length src)
        \<and> st_files (fst w) i = Some rf \<and> rf_file rf = Some h \<and> agrees src (rf_ranges rf) (ino_data (fs_inodes (snd w) h)))
     \<and> (\<forall>j rf. j \<noteq> i \<and> st_files (fst w) j = Some rf \<longrightarrow> rf_file rf \<noteq> Some h)"

definition chunk_of :: "int \<Rightarrow> string \<Rightarrow> chunk \<Rightarrow> bool" where
  "chunk_of i src c \<longleftrightarrow> (case c of (j, off, bs) \<Rightarrow>
     in_i64 off \<and> in_i64 (int (length bs)) \<and> (j = i \<longrightarrow> bs = take (length bs) (drop (nat off) src)))"

lemma WriteChunk_Inr:
  assumes "WriteChunk j off bs (s, f) = (Inr u, (s', f'))" "int_nth (st_items s) j = Some item" "item_kind item = ItemFile"
  obtains rf h rs' where "st_files s j = Some rf" "rf_file rf = Some h"
    "validateChunkRange item off (int (length bs)) = Inr ()"
    "Add (rf_ranges rf) off (add64 off (int (length bs))) = Inr rs'"
    "WriteAt h bs off f = Inr f'"
    "s' = s\<lparr>st_files := (st_files s)(j \<mapsto> rf\<lparr>rf_ranges := rs', rf_offset := Prefix rs'\<rparr>)\<rparr>"
  using assms
  by (auto simp: WriteChunk_def write_file_chunk_def bind_act_def the_store_def gets_def throw_def try_get_def
      guard_act_def ret_def fs_put_def with_fs_def try_put_def upd_store_def modify_def
      split: option.splits if_splits sum.splits)

lemma WriteChunk_text:
  assumes "WriteChunk j off bs (s, f) = (Inr u, (s', f'))" "int_nth (st_items s) j = Some item" "item_kind item \<noteq> ItemFile"
  shows "f' = f \<and> st_files s' = st_files s \<and> st_manifest s' = st_manifest s"
  using assms
  by (auto simp: WriteChunk_def write_text_chunk_def bind_act_def the_store_def gets_def throw_def try_get_def
      upd_store_def modify_def split: option.splits if_splits sum.splits ItemKind.splits)

lemma receiving_step:
  assumes "receiving i h src (s, f)" "chunk_of i src (j, off, bs)" "WriteChunk j off bs (s, f) = (Inr u, (s', f'))"
  shows "receiving i h src (s', f')"
proof -
  obtain jt where jt: "int_nth (st_items s) j = Some jt"
    using assms(3) by (cases "int_nth (st_items s) j")
      (auto simp: WriteChunk_def bind_act_def the_store_def gets_def throw_def)
  show ?thesis
  proof (cases "item_kind jt = ItemFile")
    case False
    from WriteChunk_text [OF assms(3) jt False] assms(1) show ?thesis by (auto simp: receiving_def st_items_def)
  next
    case True
    obtain rf k rs' where w: "st_files s j = Some rf" "rf_file rf = Some k"
        "validateChunkRange jt off (int (length bs)) = Inr ()"
        "Add (rf_ranges rf) off (add64 off (int (length bs))) = Inr rs'" "WriteAt k bs off f = Inr f'"
        "s' = s\<lparr>st_files := (st_files s)(j \<mapsto> rf\<lparr>rf_ranges := rs', rf_offset := Prefix rs'\<rparr>)\<rparr>"
      using WriteChunk_Inr [OF assms(3) jt True] by blast
    have ints: "in_i64 off" "in_i64 (int (length bs))" using assms(2) by (auto simp: chunk_of_def)
    note range = validateChunkRange_ok [OF w(3) ints]
    have f': "f' = set_data k (write_at (nat off) bs (ino_data (fs_inodes f k))) f"
      using w(5) range(1) by (simp add: WriteAt_def)
    show ?thesis
    proof (cases "j = i")
      case False
      then have "k \<noteq> h" using assms(1) w by (auto simp: receiving_def)
      with False assms(1) w show ?thesis
        by (auto simp: receiving_def f' set_data_def set_inode_def st_items_def)
    next
      case True
      then have k: "k = h" and sz: "item_size jt = int (length src)"
          and ag: "agrees src (rf_ranges rf) (ino_data (fs_inodes f h))"
        using assms(1) w(1,2) jt by (auto simp: receiving_def)
      have "agrees src rs' (write_at (nat off) bs (ino_data (fs_inodes f h)))"
        using w(4) range assms(2) True sz by (intro agrees_write [OF ag]) (auto simp: chunk_of_def)
      with True k assms(1) w jt \<open>item_kind jt = ItemFile\<close> sz show ?thesis
        by (auto simp: receiving_def f' set_data_def set_inode_def st_items_def)
    qed
  qed
qed

lemma triple_receiving:
  assumes "\<forall>c\<in>set cs. chunk_of i src c"
  shows "triple (receiving i h src) (write_all cs) (\<lambda>_. receiving i h src) (\<lambda>_. True)"
  unfolding write_all_def
proof (rule triple_for_each)
  fix c
  assume "c \<in> set cs"
  moreover obtain j off bs where c: "c = (j, off, bs)" by (cases c)
  ultimately have "chunk_of i src (j, off, bs)" using assms by auto
  then show "triple (receiving i h src) (case c of (j, off, bs) \<Rightarrow> WriteChunk j off bs) (\<lambda>_. receiving i h src) (\<lambda>_. True)"
    unfolding triple_def c by (auto dest: receiving_step split: sum.split)
qed

section \<open>From the part file to the final name\<close>

text \<open>The part path of item \<open>i\<close> names the open handle \<open>h\<close>.\<close>

definition parted :: "string \<Rightarrow> phys \<Rightarrow> string list \<Rightarrow> string list \<Rightarrow> int \<Rightarrow> nat \<Rightarrow> ReceiveStore \<times> fs \<Rightarrow> bool" where
  "parted d r ns ms i h w \<longleftrightarrow>
     (\<exists>rf. st_files (fst w) i = Some rf \<and> rf_file rf = Some h \<and> \<not> rf_complete rf \<and> \<not> rf_skipped rf
        \<and> located d r (snd w) ns (rf_finalPath rf) \<and> located d r (snd w) ms (rf_partPath rf)
        \<and> fs_ents (snd w) (r @ ms) = Some (NReg h))"

lemma WriteAt_ents: "WriteAt h bs off f = Inr f' \<Longrightarrow> fs_ents f' = fs_ents f"
  by (auto simp: WriteAt_def split: if_splits)

lemma located_ents: "fs_ents f' = fs_ents f \<Longrightarrow> located d r f' ns p = located d r f ns p"
  by (simp add: located_def dirs_to_def)

lemma parted_step:
  assumes "parted d r ns ms i h (s, f)" "WriteChunk j off bs (s, f) = (Inr u, (s', f'))"
  shows "parted d r ns ms i h (s', f')"
proof -
  obtain jt where jt: "int_nth (st_items s) j = Some jt"
    using assms(2) by (cases "int_nth (st_items s) j")
      (auto simp: WriteChunk_def bind_act_def the_store_def gets_def throw_def)
  show ?thesis
  proof (cases "item_kind jt = ItemFile")
    case False
    from WriteChunk_text [OF assms(2) jt False] assms(1) show ?thesis by (auto simp: parted_def)
  next
    case True
    obtain rf k rs' where w: "st_files s j = Some rf" "WriteAt k bs off f = Inr f'"
        "s' = s\<lparr>st_files := (st_files s)(j \<mapsto> rf\<lparr>rf_ranges := rs', rf_offset := Prefix rs'\<rparr>)\<rparr>"
      using WriteChunk_Inr [OF assms(2) jt True] by blast
    note e = WriteAt_ents [OF w(2)]
    from assms(1) w(1) show ?thesis by (auto simp: parted_def w(3) e located_ents [OF e])
  qed
qed

lemma triple_parted: "triple (parted d r ns ms i h) (write_all cs) (\<lambda>_. parted d r ns ms i h) (\<lambda>_. True)"
  unfolding write_all_def
  by (rule triple_for_each) (auto simp: triple_def dest: parted_step split: sum.split)

lemma metadata_data:
  assumes "applyPathMetadata p item f = (Inr u, g)"
  shows "fs_ents g = fs_ents f" "fs_cwd g = fs_cwd f" "ino_data (fs_inodes g k) = ino_data (fs_inodes f k)"
  using assms
  by (auto simp: applyPathMetadata_def bind_act_def ret_def try_put_def Chmod_def Chtimes_def set_inode_def rbind_def
      split: if_splits sum.splits prod.splits)

lemma Rename_result:
  assumes "grown d r f0 f g" "located d r g ms p" "located d r g ns q" "fs_ents g (r @ ms) = Some (NReg h)"
    and "Rename p q g = Inr g'"
  shows "fs_ents g' (r @ ns) = Some (NReg h)" "fs_inodes g' = fs_inodes g"
proof -
  have ex: "existing g False p = Inr (r @ ms, NReg h)" using existing_located [OF assms(1,2), of False] assms(4) by simp
  have res: "resolve g False q = Inr (r @ ns)" using resolve_located [OF assms(1,3), of False] by simp
  have ne: "entry_at g (r @ ns) = fs_ents g (r @ ns)" using assms(3) by (auto simp: entry_at_def located_def)
  consider "g' = g" "fs_ents g (r @ ns) = Some (NReg h)" | "ns = ms" "g' = g"
    | "ns \<noteq> ms" "g' = set_entry (r @ ms) None (set_entry (r @ ns) (Some (NReg h)) g)"
  proof (cases "ns = ms")
    case True
    then have "g' = g" using assms(4,5) ne by (auto simp: Rename_def ex res is_dir_def is_regular_def)
    with True that show ?thesis by simp
  next
    case False
    then show ?thesis using assms(5) that
      by (auto simp: Rename_def ex res ne is_dir_def is_regular_def split: option.splits if_splits node.splits)
  qed
  then show "fs_ents g' (r @ ns) = Some (NReg h)" "fs_inodes g' = fs_inodes g"
    using assms(4) by (cases; auto simp: set_entry_def)+
qed

lemma Stat_reg:
  assumes "grown d r f0 f g" "located d r g ms p" "fs_ents g (r @ ms) = Some (NReg h)"
  shows "Stat g p = Inr (NReg h)"
  using existing_located [OF assms(1,2), of True] assms(3) by (simp add: Stat_def unlinked_def)

lemma verify_ok:
  assumes "grown d r f0 f g" "located d r g ms p" "fs_ents g (r @ ms) = Some (NReg h)"
    and "verifyPartFile sha p item g = Inr u"
  shows "item_size item = int (length (ino_data (fs_inodes g h)))"
    and "item_sha256 item \<noteq> '''' \<Longrightarrow> hex_encode (sha (ino_data (fs_inodes g h))) = ToLower (item_sha256 item)"
  using assms(4)
  by (auto simp: verifyPartFile_def Stat_reg [OF assms(1-3)] node_size_def fileSHA256_def ReadFile_def split: if_splits)

lemma finalizeReceivedFile_result:
  assumes "grown d r f0 f f" "located d r f ms (rf_partPath rf)" "located d r f ns (rf_finalPath rf)"
    and "fs_ents f (r @ ms) = Some (NReg h)" "finalizeReceivedFile rf item f = (Inr u, g)"
  shows "fs_ents g (r @ ns) = Some (NReg h)" "ino_data (fs_inodes g h) = ino_data (fs_inodes f h)"
proof -
  obtain f1 where m: "applyPathMetadata (rf_partPath rf) item f = (Inr (), f1)"
      and ren: "Rename (rf_partPath rf) (rf_finalPath rf) f1 = Inr g"
    using assms(5) by (auto simp: finalizeReceivedFile_def bind_act_def try_get_def guard_act_def ret_def throw_def
        try_put_def split: if_splits sum.splits prod.splits)
  note md = metadata_data [OF m]
  have un: "unlinked r f ms" using assms(4) by (simp add: unlinked_def)
  have g1: "grown d r f0 f f1" using triple_Inr [OF triple_metadata [OF assms(2) un] assms(1) m] .
  note R = Rename_result [OF g1 _ _ _ ren, of ms ns h]
  show "fs_ents g (r @ ns) = Some (NReg h)" "ino_data (fs_inodes g h) = ino_data (fs_inodes f h)"
    using R assms(2-4) md by (simp_all add: located_ents [OF md(1)])
qed


text \<open>Two chunks out of order, as a striped transfer delivers them.\<close>

definition demo_part_fs :: fs where
  "demo_part_fs = demo_fs\<lparr>fs_ents := [[''out''] \<mapsto> NDir 1, [''out'', ''f.kigopart''] \<mapsto> NReg 2], fs_next := 3\<rparr>"

definition demo_store :: ReceiveStore where
  "demo_store = (empty_store \<lparr>mf_version = 1, mf_items = [tree_item ItemFile ''f'' 5 ''''], mf_streams = []\<rparr>
       (NewPlan 1) ''out'' ConflictOverwrite True)
     \<lparr>st_files := [0 \<mapsto> part_file 2 ''out/f'' ''out/f.kigopart'' 0 False]\<rparr>"

lemma demo_store_ok:
  "store_ok ''out'' [''out''] demo_part_fs (demo_store, demo_part_fs)"
  "receiving 0 2 ''hello'' (demo_store, demo_part_fs)"
  "parted ''out'' [''out''] [''f''] [''f.kigopart''] 0 2 (demo_store, demo_part_fs)"
proof -
  have out: "out_elements ''out'' = [''out'']"
    by (simp add: out_elements_def clean_elements_def clean_step_def IsAbs_def)
  have pl: "place ''out'' [''f''] = ''out/f''" "place ''out'' [''f.kigopart''] = ''out/f.kigopart''"
    by (simp_all add: place_def out path_of_def IsAbs_def)
  have loc: "located ''out'' [''out''] demo_part_fs [''f''] ''out/f''"
    "located ''out'' [''out''] demo_part_fs [''f.kigopart''] ''out/f.kigopart''"
    by (simp_all add: located_def pl plain_def)
  have root: "rooted_at ''out'' [''out''] demo_part_fs"
  proof -
    have "\<not> below [''out''] [''out'']" by (simp add: below_def)
    then show ?thesis
      by (auto simp: rooted_at_def out IsAbs_def start_dir_def walk.simps(2) demo_part_fs_def demo_fs_def)
  qed
  have touch: "touchable [''out''] demo_part_fs 2"
    by (auto simp: touchable_def inside_def below_def refers_def demo_part_fs_def intro!: exI [of _ "[''out'', ''f.kigopart'']"])
  have un: "unlinked [''out''] demo_part_fs [''f.kigopart'']" by (simp add: unlinked_def demo_part_fs_def)
  show "store_ok ''out'' [''out''] demo_part_fs (demo_store, demo_part_fs)"
    using loc un touch root
    by (auto simp: store_ok_def confined_refl demo_store_def empty_store_def file_ok_def part_file_def split: if_splits)
  show "receiving 0 2 ''hello'' (demo_store, demo_part_fs)"
    by (auto simp: receiving_def demo_store_def empty_store_def part_file_def st_items_def int_nth_def tree_item_def
        agrees_def newByteRanges_def demo_part_fs_def demo_fs_def split: if_splits)
  show "parted ''out'' [''out''] [''f''] [''f.kigopart''] 0 2 (demo_store, demo_part_fs)"
    using loc by (auto simp: parted_def demo_store_def empty_store_def part_file_def demo_part_fs_def)
qed

definition demo_chunks :: "chunk list" where
  "demo_chunks = [(0, 3, ''lo''), (0, 0, ''hel'')]"


end
