(* ===== verification/Rename_Search.thy ===== *)
theory Rename_Search
  imports Receiver_Safety
begin

text \<open>
  The search for a free name under the rename policy ends and finds one: on a finite tree the
  candidates \<open>name (1)\<close>, \<open>name (2)\<close>, \ldots are pairwise different, so one of them is neither claimed nor
  reserved nor taken.
\<close>

section \<open>Different numbers have different names\<close>

lemma rename_candidate_inj:
  assumes "0 < m" "0 < n" "rename_candidate p m = rename_candidate p n"
  shows "m = n"
proof -
  have "Itoa m = Itoa n" using assms(3) by (simp add: rename_candidate_def Let_def)
  with assms(1,2) show ?thesis by (simp add: Itoa_inj)
qed

section \<open>The search\<close>

definition free_name :: "string set \<Rightarrow> string set \<Rightarrow> fs \<Rightarrow> string \<Rightarrow> bool" where
  "free_name claimed reserved f c \<longleftrightarrow> c \<notin> claimed \<and> c \<notin> reserved \<and> pathState c f = Inr (False, False)"

lemma rename_loop_finds:
  assumes "\<And>m. n \<le> m \<Longrightarrow> \<exists>ex reg. pathState (rename_candidate p m) f = Inr (ex, reg)"
    and "free_name claimed reserved f (rename_candidate p (n + int k))"
  shows "\<exists>m\<ge>n. rename_loop claimed reserved f p n = Some (Inr (rename_candidate p m))
    \<and> free_name claimed reserved f (rename_candidate p m)"
  using assms
proof (induction k arbitrary: n)
  case 0
  then show ?case by (subst rename_loop.simps) (auto simp: free_name_def Let_def)
next
  case (Suc k)
  obtain ex reg where st: "pathState (rename_candidate p n) f = Inr (ex, reg)" using Suc.prems(1) by blast
  show ?case
  proof (cases "free_name claimed reserved f (rename_candidate p n)")
    case True
    then show ?thesis by (subst rename_loop.simps) (auto simp: free_name_def Let_def)
  next
    case False
    have ex: "\<not> ex \<Longrightarrow> \<not> reg" using st by (auto simp: pathState_def split: sum.splits if_splits)
    have "rename_loop claimed reserved f p n = rename_loop claimed reserved f p (n + 1)"
      using False st ex by (subst rename_loop.simps) (auto simp: free_name_def Let_def)
    moreover have "\<exists>m\<ge>n + 1. rename_loop claimed reserved f p (n + 1) = Some (Inr (rename_candidate p m))
        \<and> free_name claimed reserved f (rename_candidate p m)"
      using Suc.prems by (intro Suc.IH) (auto simp: algebra_simps)
    then obtain m where "m \<ge> n + 1" "rename_loop claimed reserved f p (n + 1) = Some (Inr (rename_candidate p m))"
        "free_name claimed reserved f (rename_candidate p m)" by blast
    ultimately show ?thesis by (intro exI [of _ m]) auto
  qed
qed

lemma pathState_total:
  assumes "grown d r f0 f g" "located d r g ns p"
  shows "pathState p g = Inr (case fs_ents g (r @ ns) of None \<Rightarrow> (False, False) | Some nd \<Rightarrow> (True, is_regular nd))"
  using Lstat_located [OF assms] by (simp add: pathState_def IsNotExist_def split: option.splits)

text \<open>All candidates lie in the directory of the name they vary.\<close>

lemma candidates_located:
  assumes "located d r f ns p"
  shows "\<exists>e. located d r f (butlast ns @ [e]) (rename_candidate p m)"
proof -
  obtain es e where ns: "ns = es @ [e]" using assms by (cases ns rule: rev_cases) (auto simp: located_def)
  obtain pre where pre: "\<And>e. place d (es @ [e]) = pre @ e" "pre = [] \<or> last pre = Separator"
    by (rule place_split [of d es]) blast
  have "Separator \<notin> set e" using assms by (simp add: located_def ns plain_def)
  then obtain e' where "rename_candidate (pre @ e) m = pre @ e'" "plain e'"
    using rename_candidate_last [OF pre(2)] by blast
  then show ?thesis using assms located_sibling [of d r f es e p e']
    by (intro exI [of _ e']) (simp add: located_def ns pre(1))
qed

lemma some_candidate_free:
  assumes "grown d r f0 f f" "located d r f ns p" "finite claimed" "finite reserved" "finite (dom (fs_ents f))"
  shows "\<exists>k. free_name claimed reserved f (rename_candidate p (1 + int k))"
proof (rule ccontr)
  assume none: "\<nexists>k. free_name claimed reserved f (rename_candidate p (1 + int k))"
  let ?taken = "(\<lambda>q. place d (butlast ns @ [last q])) ` dom (fs_ents f)"
  have "rename_candidate p (1 + int k) \<in> claimed \<union> reserved \<union> ?taken" for k
  proof -
    obtain e where e: "located d r f (butlast ns @ [e]) (rename_candidate p (1 + int k))"
      using candidates_located [OF assms(2)] by blast
    show ?thesis
    proof (cases "fs_ents f (r @ butlast ns @ [e])")
      case None
      then have "pathState (rename_candidate p (1 + int k)) f = Inr (False, False)"
        using pathState_total [OF assms(1) e] by simp
      with none show ?thesis by (auto simp: free_name_def)
    next
      case (Some nd)
      then have "r @ butlast ns @ [e] \<in> dom (fs_ents f)" by blast
      moreover have "rename_candidate p (1 + int k) = place d (butlast ns @ [last (r @ butlast ns @ [e])])"
        using e by (simp add: located_def)
      ultimately show ?thesis by blast
    qed
  qed
  then have "range (\<lambda>k. rename_candidate p (1 + int k)) \<subseteq> claimed \<union> reserved \<union> ?taken" by blast
  then have "finite (range (\<lambda>k. rename_candidate p (1 + int k)))" by (rule finite_subset) (use assms in simp)
  moreover have "inj (\<lambda>k. rename_candidate p (1 + int k))"
  proof (rule injI)
    fix x y
    assume "rename_candidate p (1 + int x) = rename_candidate p (1 + int y)"
    from rename_candidate_inj [OF _ _ this] show "x = y" by simp
  qed
  ultimately show False using finite_imageD infinite_UNIV_nat by blast
qed

text \<open>
C30: Under the rename policy the receiver always finds a new name. On a finite tree the search for
a free name returns; the name lies in the same directory as the requested one, does not exist on
disk and is not among the paths other items of the manifest claim or reserve.
\<close>

theorem rename_finds_free_name:
  assumes "store_ok d r f0 (s, f)" and "located d r f ns p"
    and "finite (st_claimed s)" and "finite (st_reserved s)" and "finite (dom (fs_ents f))"
  shows "\<exists>c e. availableRenamePath p s f = Inr c \<and> located d r f (butlast ns @ [e]) c
    \<and> c \<notin> st_claimed s \<and> c \<notin> st_reserved s \<and> fs_ents f (r @ butlast ns @ [e]) = None"
proof -
  note g = store_ok_self [OF assms(1)]
  have total: "\<exists>ex reg. pathState (rename_candidate p m) f = Inr (ex, reg)" for m
    using candidates_located [OF assms(2)] pathState_total [OF g] by (metis surj_pair)
  obtain k where "free_name (st_claimed s) (st_reserved s) f (rename_candidate p (1 + int k))"
    using some_candidate_free [OF g assms(2-5)] by blast
  from rename_loop_finds [OF total this] obtain m where
      m: "rename_loop (st_claimed s) (st_reserved s) f p 1 = Some (Inr (rename_candidate p m))"
        "free_name (st_claimed s) (st_reserved s) f (rename_candidate p m)" by blast
  obtain e where e: "located d r f (butlast ns @ [e]) (rename_candidate p m)"
    using candidates_located [OF assms(2)] by blast
  have "fs_ents f (r @ butlast ns @ [e]) = None"
    using pathState_total [OF g e] m(2) by (auto simp: free_name_def split: option.splits)
  with e m show ?thesis by (auto simp: availableRenamePath_def free_name_def)
qed

theorem rename_finds_free_name_witness:
  "\<exists>c e. availableRenamePath ''out/l'' (empty_store tree_manifest (NewPlan 3) ''out'' ConflictRename False) demo_fs = Inr c
     \<and> fs_ents demo_fs ([''out''] @ butlast [''l''] @ [e]) = None"
proof -
  have "located ''out'' [''out''] demo_fs [''l''] ''out/l''"
    by (simp add: located_def place_def out_elements_def clean_elements_def clean_step_def IsAbs_def path_of_def plain_def)
  moreover have "finite (dom (fs_ents demo_fs))" by (simp add: demo_fs_def)
  ultimately show ?thesis
    using rename_finds_free_name [OF empty_store_ok [OF demo_root(2), of tree_manifest "NewPlan 3" ConflictRename False],
        of "[''l'']" "''out/l''"]
    by (auto simp: empty_store_def)
qed

end
