(* ===== verification/Secure.thy ===== *)
theory Secure
  imports Go_Prelude Chunk_Codec
begin

text \<open>
  Pairing codes, session keys and message encryption (internal/secure/secure.go). HKDF-SHA256 is
  the parameter \<open>hkdf\<close> (secret, salt, info and the number of bytes asked for), AES-GCM the
  parameters \<open>seal\<close> and \<open>unseal\<close> (key, nonce, additional data), SHA-256 the parameter \<open>sha\<close>.
  \<open>aead_law\<close> is what GCM documents: opening what was sealed with the same key, nonce and
  additional data gives the plain text.

  Upper-casing is exact for ASCII and for the two other characters whose upper case is an ASCII
  letter (dotless i and long s); further non-ASCII letters are left alone, which matters only for
  codes \<open>ValidateCode\<close> rejects.
\<close>

section \<open>Pairing codes\<close>

definition CodeAlphabet :: string where
  "CodeAlphabet = ''ABCDEFGHJKLMNPQRSTUVWXYZ23456789''"

definition CodeLength :: nat where
  "CodeLength = 6"

definition MaxCodeLength :: nat where
  "MaxCodeLength = 64"

text \<open>The six random bytes are the argument.\<close>

definition GenerateCode :: "string \<Rightarrow> string" where
  "GenerateCode buf = map (\<lambda>b. CodeAlphabet ! (byte_val b mod length CodeAlphabet)) buf"

fun upper_runes :: "string \<Rightarrow> string" where
  "upper_runes [] = []"
| "upper_runes [c] = [upper_char c]"
| "upper_runes (b # c # cs) =
     (if byte_val b = 196 \<and> byte_val c = 177 then CHR ''I'' # upper_runes cs
      else if byte_val b = 197 \<and> byte_val c = 191 then CHR ''S'' # upper_runes cs
      else upper_char b # upper_runes (c # cs))"

text \<open>\<open>strings.Map\<close> dropping hyphens and the characters \<open>unicode.IsSpace\<close> accepts.\<close>

function compact_code :: "string \<Rightarrow> string" where
  "compact_code s =
     (let n = starts_with_space (map byte_val s)
      in if s = [] then []
         else if n > 0 then compact_code (drop n s)
         else if hd s = CHR ''-'' then compact_code (tl s)
         else hd s # compact_code (tl s))"
  by pat_completeness auto
termination
  by (relation "measure length") auto

declare compact_code.simps [simp del]

definition pairing_char :: "char \<Rightarrow> bool" where
  "pairing_char c \<longleftrightarrow> (65 \<le> byte_val c \<and> byte_val c \<le> 90) \<or> (48 \<le> byte_val c \<and> byte_val c \<le> 57)"

definition pairingAlphanumeric :: "string \<Rightarrow> bool" where
  "pairingAlphanumeric v \<longleftrightarrow> v \<noteq> [] \<and> list_all pairing_char v"

definition NormalizeCode :: "string \<Rightarrow> string" where
  "NormalizeCode code0 =
     (let code = upper_runes (TrimSpace code0); compact = compact_code code
      in if length compact = CodeLength \<and> pairingAlphanumeric compact then compact else code)"

datatype code_error = CodeLengthError | EmptySegment | BadCharacters

fun has_double_hyphen :: "string \<Rightarrow> bool" where
  "has_double_hyphen (a # b # s) = (a = CHR ''-'' \<and> b = CHR ''-'' \<or> has_double_hyphen (b # s))"
| "has_double_hyphen s = False"

definition ValidateCode :: "string \<Rightarrow> (code_error, string) result" where
  "ValidateCode code =
     (let normalized = NormalizeCode code
      in if length normalized < CodeLength \<or> length normalized > MaxCodeLength then Inl CodeLengthError
         else if CHR ''-'' \<in> set normalized then
           (if hd normalized = CHR ''-'' \<or> last normalized = CHR ''-'' \<or> has_double_hyphen normalized then Inl EmptySegment
            else if \<exists>segment\<in>set (split_on CHR ''-'' normalized). \<not> pairingAlphanumeric segment then Inl BadCharacters
            else Inr normalized)
         else if \<not> pairingAlphanumeric normalized then Inl BadCharacters
         else Inr normalized)"

definition ResolveSenderCode :: "string \<Rightarrow> string \<Rightarrow> (code_error, string) result" where
  "ResolveSenderCode random code =
     (if TrimSpace code = '''' then Inr (GenerateCode random) else ValidateCode code)"

definition RoomToken :: "(string \<Rightarrow> string) \<Rightarrow> string \<Rightarrow> string" where
  "RoomToken sha code = hex_encode (sha (''kigo-room:'' @ NormalizeCode code))"

section \<open>Sessions\<close>

record Session =
  ses_key :: string
  ses_noncePrefix :: string

type_synonym hkdf_fun = "string \<Rightarrow> string \<Rightarrow> string \<Rightarrow> nat \<Rightarrow> string"

definition NewSessionWithInfo :: "hkdf_fun \<Rightarrow> string \<Rightarrow> string \<Rightarrow> string \<Rightarrow> string \<Rightarrow> Session" where
  "NewSessionWithInfo hkdf code senderNonce receiverNonce info =
     (let salt = senderNonce @ '':'' @ receiverNonce;
          material = hkdf (NormalizeCode code) salt info 20
      in \<lparr>ses_key = take 16 material, ses_noncePrefix = take 4 (drop 16 material)\<rparr>)"

definition NewSession :: "hkdf_fun \<Rightarrow> string \<Rightarrow> string \<Rightarrow> string \<Rightarrow> Session" where
  "NewSession hkdf code senderNonce receiverNonce =
     NewSessionWithInfo hkdf code senderNonce receiverNonce ''kigo-v1 aes-128-gcm''"

text \<open>The sequence number in the last eight bytes, big-endian: byte \<open>11 - i\<close> is \<open>seq >> (8 * i)\<close>.\<close>

definition seq_bytes :: "64 word \<Rightarrow> string" where
  "seq_bytes seq = map (\<lambda>i. char_of (unat (drop_bit (8 * i) seq) mod 256)) (rev [0..<8])"

definition nonce :: "Session \<Rightarrow> 64 word \<Rightarrow> string" where
  "nonce s seq = ses_noncePrefix s @ seq_bytes seq"

definition aad :: "64 word \<Rightarrow> string" where
  "aad seq = ''kigo-v1:'' @ nat_digits (unat seq)"

type_synonym seal_fun = "string \<Rightarrow> string \<Rightarrow> string \<Rightarrow> string \<Rightarrow> string"
type_synonym unseal_fun = "string \<Rightarrow> string \<Rightarrow> string \<Rightarrow> string \<Rightarrow> string option"

definition aead_law :: "seal_fun \<Rightarrow> unseal_fun \<Rightarrow> bool" where
  "aead_law seal unseal \<longleftrightarrow> (\<forall>k n a p. unseal k n a (seal k n a p) = Some p)"

definition Encrypt :: "seal_fun \<Rightarrow> Session \<Rightarrow> 64 word \<Rightarrow> string \<Rightarrow> string" where
  "Encrypt seal s seq plaintext = seal (ses_key s) (nonce s seq) (aad seq) plaintext"

definition Decrypt :: "unseal_fun \<Rightarrow> Session \<Rightarrow> 64 word \<Rightarrow> string \<Rightarrow> string option" where
  "Decrypt unseal s seq ciphertext = unseal (ses_key s) (nonce s seq) (aad seq) ciphertext"

section \<open>Nonces never repeat\<close>

lemma char_of_inj_nat: "m < 256 \<Longrightarrow> n < 256 \<Longrightarrow> char_of m = (char_of n :: char) \<Longrightarrow> m = (n :: nat)"
  by (metis of_char_of mod_less)

lemma seq_bytes_inj:
  assumes "seq_bytes a = seq_bytes b"
  shows "a = b"
proof (rule bit_word_eqI)
  fix n
  assume n: "n < LENGTH(64)"
  define i where "i = n div 8"
  have i: "i \<in> set (rev [0..<8])" using n by (auto simp: i_def)
  have eq: "char_of (unat (drop_bit (8 * i) a) mod 256) = (char_of (unat (drop_bit (8 * i) b) mod 256) :: char)"
    using assms i unfolding seq_bytes_def by (metis (no_types, lifting) map_eq_conv)
  have "unat (drop_bit (8 * i) a) mod 256 = unat (drop_bit (8 * i) b) mod 256"
    by (rule char_of_inj_nat [OF _ _ eq]) simp_all
  then have "take_bit 8 (unat (drop_bit (8 * i) a)) = take_bit 8 (unat (drop_bit (8 * i) b))"
    by (simp add: take_bit_eq_mod)
  then have "bit (take_bit 8 (unat (drop_bit (8 * i) a))) (n mod 8) = bit (take_bit 8 (unat (drop_bit (8 * i) b))) (n mod 8)"
    by simp
  then show "bit a n = bit b n"
    by (simp add: bit_take_bit_iff bit_unsigned_iff bit_drop_bit_eq i_def)
qed

text \<open>
  A session never uses a nonce twice: the nonces of two different sequence numbers differ,
  whatever prefix was derived for the session, over the whole range of 64-bit sequence numbers.
  Reusing a nonce would break AES-GCM.
\<close>

theorem nonce_unique: "nonce s a = nonce s b \<longleftrightarrow> a = b"
  by (auto simp: nonce_def dest: seq_bytes_inj)

lemma Decrypt_Encrypt: "aead_law seal unseal \<Longrightarrow> Decrypt unseal s seq (Encrypt seal s seq p) = Some p"
  by (simp add: aead_law_def Encrypt_def Decrypt_def)

section \<open>Normalised codes\<close>

text \<open>Codes of upper-case letters, digits and hyphens are fixed points of the text operations.\<close>

definition code_char :: "char \<Rightarrow> bool" where
  "code_char c \<longleftrightarrow> pairing_char c \<or> c = CHR ''-''"

lemma code_char_range: "code_char c \<Longrightarrow> 45 \<le> byte_val c \<and> byte_val c \<le> (90 :: nat)"
  by (auto simp: code_char_def pairing_char_def)

lemma space_codes_range: "code \<in> set space_codes \<Longrightarrow>
    code \<noteq> [] \<and> (hd code < 45 \<or> hd code > 90) \<and> (last code < 45 \<or> last code > 90)"
proof -
  have "\<forall>code\<in>set space_codes. code \<noteq> [] \<and> (hd code < 45 \<or> hd code > 90) \<and> (last code < 45 \<or> last code > 90)"
    by code_simp
  then show "code \<in> set space_codes \<Longrightarrow> code \<noteq> [] \<and> (hd code < 45 \<or> hd code > 90) \<and> (last code < 45 \<or> last code > 90)"
    by blast
qed

lemma take_eq_hd: "take (length y) x = y \<Longrightarrow> y \<noteq> [] \<Longrightarrow> x \<noteq> [] \<and> hd x = hd y"
  by (cases x; cases y) auto

lemma no_space_start:
  assumes "s = [] \<or> code_char (hd s)"
  shows "starts_with_space (map byte_val s) = 0" "ends_with_space (map byte_val s) = 0"
proof -
  have hd: "s \<noteq> [] \<Longrightarrow> 45 \<le> hd (map byte_val s) \<and> hd (map byte_val s) \<le> 90"
    using assms code_char_range by (cases s) auto
  have "filter (\<lambda>code. take (length code) (map byte_val s) = code) space_codes = []"
    using space_codes_range take_eq_hd [of _ "map byte_val s"] hd by (fastforce simp: filter_empty_conv)
  then show "starts_with_space (map byte_val s) = 0" by (simp add: starts_with_space_def)
  have "filter (\<lambda>code. take (length code) (map byte_val s) = rev code) space_codes = []"
    using space_codes_range take_eq_hd [of "rev _" "map byte_val s"] hd
    by (fastforce simp: filter_empty_conv hd_rev)
  then show "ends_with_space (map byte_val s) = 0" by (simp add: ends_with_space_def)
qed

lemma TrimSpace_code:
  assumes "list_all code_char s"
  shows "TrimSpace s = s"
proof -
  have l: "s = [] \<or> code_char (hd s)" and r: "rev s = [] \<or> code_char (hd (rev s))"
  proof -
    show "s = [] \<or> code_char (hd s)" using assms hd_in_set [of s] unfolding list_all_iff by blast
    show "rev s = [] \<or> code_char (hd (rev s))" using assms hd_in_set [of "rev s"] unfolding list_all_iff set_rev by blast
  qed
  have "trim_left s = s" using no_space_start(1) [OF l] by (subst trim_left.simps) (simp only: Let_def if_True HOL.simp_thms)
  moreover have "trim_right_rev (rev s) = rev s"
    using no_space_start(2) [OF r] by (subst trim_right_rev.simps) (simp only: Let_def if_True HOL.simp_thms)
  ultimately show ?thesis by (simp add: TrimSpace_def)
qed

lemma upper_code: "list_all code_char s \<Longrightarrow> upper_runes s = s"
proof (induction s rule: upper_runes.induct)
  case (3 b c cs)
  then show ?case using code_char_range [of b] by (auto simp: upper_char_def)
next
  case (2 c)
  then show ?case using code_char_range [of c] by (auto simp: upper_char_def)
qed simp

lemma compact_plain: "list_all code_char s \<Longrightarrow> compact_code s = filter (\<lambda>c. c \<noteq> CHR ''-'') s"
proof (induction s)
  case (Cons c s)
  then have "starts_with_space (map byte_val (c # s)) = 0" by (intro no_space_start) simp
  with Cons show ?case by (subst compact_code.simps) simp
qed (simp add: compact_code.simps)

lemma NormalizeCode_idem:
  assumes "list_all code_char (NormalizeCode c)"
  shows "NormalizeCode (NormalizeCode c) = NormalizeCode c"
proof -
  define code where "code = upper_runes (TrimSpace c)"
  define n where "n = NormalizeCode c"
  have code: "list_all code_char n" using assms by (simp add: n_def)
  have n: "NormalizeCode n = (let compact = filter (\<lambda>c. c \<noteq> CHR ''-'') n
      in if length compact = CodeLength \<and> pairingAlphanumeric compact then compact else n)"
    by (simp add: NormalizeCode_def TrimSpace_code [OF code] upper_code [OF code] compact_plain [OF code])
  consider "n = compact_code code" "pairingAlphanumeric n"
    | "n = code" "\<not> (length (compact_code code) = CodeLength \<and> pairingAlphanumeric (compact_code code))"
  proof (cases "length (compact_code code) = CodeLength \<and> pairingAlphanumeric (compact_code code)")
    case True
    then have "n = compact_code code" by (simp add: n_def NormalizeCode_def code_def)
    with True that(1) show ?thesis by simp
  next
    case False
    then have "n = code" unfolding n_def NormalizeCode_def code_def Let_def by (rule if_not_P)
    with False that(2) show ?thesis by simp
  qed
  then have "NormalizeCode n = n"
  proof cases
    case 1
    then have "filter (\<lambda>c. c \<noteq> CHR ''-'') n = n"
      by (auto simp: pairingAlphanumeric_def pairing_char_def list_all_iff intro!: filter_True)
    then show ?thesis by (simp add: n Let_def)
  next
    case 2
    with code have "compact_code code = filter (\<lambda>c. c \<noteq> CHR ''-'') n" using compact_plain by simp
    with 2(2) show ?thesis unfolding n Let_def by auto
  qed
  then show ?thesis by (simp add: n_def)
qed

lemma in_split_on: "c \<in> set s \<Longrightarrow> c = sep \<or> (\<exists>p\<in>set (split_on sep s). c \<in> set p)"
proof (induction s)
  case (Cons x xs)
  obtain q qs where "split_on sep xs = q # qs" by (cases "split_on sep xs") auto
  with Cons show ?case by (cases "x = sep") auto
qed simp

lemma ValidateCode_chars:
  assumes "ValidateCode c = Inr n"
  shows "n = NormalizeCode c" "list_all code_char n" "6 \<le> length n" "length n \<le> 64"
proof -
  show n: "n = NormalizeCode c" using assms by (auto simp: ValidateCode_def Let_def split: if_splits)
  show "6 \<le> length n" "length n \<le> 64"
    using assms by (auto simp: ValidateCode_def Let_def CodeLength_def MaxCodeLength_def split: if_splits)
  have "(\<forall>p\<in>set (split_on CHR ''-'' n). pairingAlphanumeric p) \<or> pairingAlphanumeric n"
    using assms by (auto simp: ValidateCode_def Let_def split: if_splits)
  then show "list_all code_char n"
    using in_split_on [of _ n "CHR ''-''"]
    by (fastforce simp: list_all_iff code_char_def pairingAlphanumeric_def)
qed

text \<open>
C31: Both sides meet in the same room. Every code the validation accepts is returned in a form
that validation and normalisation leave as it is, has 6 to 64 characters out of the upper-case
letters, digits and hyphens, and gives the same room token as the code as it was typed.
\<close>

theorem validated_code_stable:
  assumes "ValidateCode c = Inr n"
  shows "ValidateCode n = Inr n \<and> NormalizeCode n = n \<and> RoomToken sha n = RoomToken sha c
    \<and> length n \<in> {6..64} \<and> (\<forall>ch\<in>set n. pairing_char ch \<or> ch = CHR ''-'')"
proof -
  note v = ValidateCode_chars [OF assms]
  have idem: "NormalizeCode n = n" using NormalizeCode_idem [of c] v(1,2) by simp
  then have "ValidateCode n = ValidateCode c" using v(1) by (simp add: ValidateCode_def)
  with assms idem v show ?thesis
    by (auto simp: RoomToken_def list_all_iff code_char_def)
qed

theorem validated_code_stable_witness:
  "ValidateCode '' fox-7-rain '' = Inr ''FOX-7-RAIN'' \<and> ValidateCode ''FOX-7-RAIN'' = Inr ''FOX-7-RAIN''"
proof -
  have "ValidateCode '' fox-7-rain '' = Inr ''FOX-7-RAIN''" by code_simp
  with validated_code_stable [OF this, of "\<lambda>x. x"] show ?thesis by simp
qed

section \<open>Generated codes\<close>

lemma alphabet: "list_all pairing_char CodeAlphabet" "length CodeAlphabet = 32" "distinct CodeAlphabet"
  by code_simp+

lemma residue_card:
  assumes "k < 32"
  shows "card {b :: char. byte_val b mod 32 = (k :: nat)} = 8"
proof -
  have "{b :: char. byte_val b mod 32 = k} = (\<lambda>j. char_of (32 * j + k)) ` {0..<8 :: nat}"
  proof (intro equalityI subsetI)
    fix b :: char
    assume "b \<in> {b. byte_val b mod 32 = k}"
    then have "byte_val b = 32 * (byte_val b div 32) + k" by (metis mem_Collect_eq mult_div_mod_eq)
    then have "b = char_of (32 * (byte_val b div 32) + k)" by (metis char_of_char)
    moreover have "byte_val b div 32 < (8 :: nat)" using nat_of_char_less_256 [of b] by (simp add: less_mult_imp_div_less)
    ultimately show "b \<in> (\<lambda>j. char_of (32 * j + k)) ` {0..<8}" by (intro image_eqI [of _ _ "byte_val b div 32"]) simp_all
  next
    fix b :: char
    assume "b \<in> (\<lambda>j. char_of (32 * j + k)) ` {0..<8 :: nat}"
    then show "b \<in> {b. byte_val b mod 32 = k}" using assms by (auto simp: of_char_of)
  qed
  moreover have "inj_on (\<lambda>j. char_of (32 * j + k) :: char) {0..<8 :: nat}"
    using assms by (auto intro!: inj_onI dest: char_of_inj_nat [rotated 2])
  ultimately show ?thesis by (simp add: card_image)
qed

text \<open>
C32: Generated codes are valid and unbiased. From any six random bytes the generator makes a code
that validation accepts unchanged, and each of the 32 characters of the alphabet is chosen for
exactly eight of the 256 values of a byte.
\<close>

theorem generated_code_uniform:
  assumes "length buf = CodeLength"
  shows "ValidateCode (GenerateCode buf) = Inr (GenerateCode buf)
    \<and> (\<forall>c\<in>set CodeAlphabet. card {b :: char. GenerateCode [b] = [c]} = 8)"
proof
  let ?g = "GenerateCode buf"
  have chars: "list_all pairing_char ?g"
    using alphabet by (auto simp: GenerateCode_def list_all_iff)
  have len: "length ?g = 6" using assms by (simp add: GenerateCode_def CodeLength_def)
  have code: "list_all code_char ?g" using chars by (auto simp: list_all_iff code_char_def)
  have nohy: "CHR ''-'' \<notin> set ?g" using chars by (auto simp: list_all_iff pairing_char_def)
  then have "filter (\<lambda>c. c \<noteq> CHR ''-'') ?g = ?g" by (auto intro!: filter_True)
  then have "NormalizeCode ?g = ?g"
    using TrimSpace_code [OF code] upper_code [OF code] compact_plain [OF code] by (simp add: NormalizeCode_def Let_def)
  moreover have "pairingAlphanumeric ?g" using chars len by (auto simp: pairingAlphanumeric_def)
  ultimately show "ValidateCode ?g = Inr ?g"
    using nohy len by (simp add: ValidateCode_def CodeLength_def MaxCodeLength_def)
next
  show "\<forall>c\<in>set CodeAlphabet. card {b :: char. GenerateCode [b] = [c]} = 8"
  proof
    fix c
    assume "c \<in> set CodeAlphabet"
    then obtain k where k: "k < 32" "c = CodeAlphabet ! k" using alphabet by (auto simp: in_set_conv_nth)
    have "{b :: char. GenerateCode [b] = [c]} = {b. byte_val b mod 32 = k}"
      using k alphabet nth_eq_iff_index_eq [of CodeAlphabet] by (auto simp: GenerateCode_def)
    then show "card {b :: char. GenerateCode [b] = [c]} = 8" using residue_card [OF k(1)] by simp
  qed
qed

theorem generated_code_uniform_witness:
  "ValidateCode (GenerateCode ''abcdef'') = Inr (GenerateCode ''abcdef'')"
  using generated_code_uniform [of "''abcdef''"] by (simp add: CodeLength_def)

end
