(* ===== verification/Transport.thy ===== *)
theory Transport
  imports Go_Prelude
begin

text \<open>
  Transports (internal/transport): length-prefixed frames on a byte stream (frame.go), bundles of
  channels, send metrics and the adaptive chunk size (transport.go) and the byte counters of an
  observed route (observed.go). A connection is known by its number; what travels on it is the
  business of the frames. Deadlines only bound how long a call blocks and are left out.
\<close>

section \<open>Frames\<close>

definition maxFrameSize :: nat where
  "maxFrameSize = 8 * 1024 * 1024"

datatype frame_error = FrameTooLarge | ShortRead

definition be32 :: "nat \<Rightarrow> string" where
  "be32 n = map (\<lambda>i. char_of (n div 256 ^ i mod 256)) [3, 2, 1, 0]"

definition be32_val :: "string \<Rightarrow> nat" where
  "be32_val bs = foldl (\<lambda>a b. a * 256 + byte_val b) 0 bs"

text \<open>\<open>writeFrame\<close>: what it appends to the stream.\<close>

definition writeFrame :: "string \<Rightarrow> (frame_error, string) result" where
  "writeFrame payload =
     (if length payload > maxFrameSize then Inl FrameTooLarge else Inr (be32 (length payload) @ payload))"

text \<open>\<open>io.ReadFull\<close> of \<open>n\<close> bytes: the bytes and the rest of the stream.\<close>

definition read_full :: "nat \<Rightarrow> string \<Rightarrow> (frame_error, string \<times> string) result" where
  "read_full n stream = (if length stream < n then Inl ShortRead else Inr (take n stream, drop n stream))"

definition readFrame :: "string \<Rightarrow> (frame_error, string \<times> string) result" where
  "readFrame stream =
     rbind (read_full 4 stream) (\<lambda>(header, rest).
       if be32_val header > maxFrameSize then Inl FrameTooLarge else read_full (be32_val header) rest)"

definition writeFrames :: "string list \<Rightarrow> string \<Rightarrow> (frame_error, string) result" where
  "writeFrames = foldM (\<lambda>payload stream. rbind (writeFrame payload) (\<lambda>bs. Inr (stream @ bs)))"

text \<open>Reading until the stream is used up; \<open>n\<close> bounds the number of frames.\<close>

fun readFrames :: "nat \<Rightarrow> string \<Rightarrow> (frame_error, string list \<times> string) result" where
  "readFrames 0 stream = Inr ([], stream)"
| "readFrames (Suc n) stream =
     rbind (readFrame stream) (\<lambda>(payload, rest).
     rbind (readFrames n rest) (\<lambda>(payloads, rest'). Inr (payload # payloads, rest')))"

lemma be32_length [simp]: "length (be32 n) = 4"
  by (simp add: be32_def)

lemma be32_val_be32: "n < 2 ^ 32 \<Longrightarrow> be32_val (be32 n) = n"
proof -
  assume n: "n < 2 ^ 32"
  have b: "(of_char (char_of (k mod 256) :: char) :: nat) = k mod 256" for k by (simp add: of_char_of)
  have "be32_val (be32 n) =
      ((n div 256 ^ 3 mod 256 * 256 + n div 256 ^ 2 mod 256) * 256 + n div 256 mod 256) * 256 + n mod 256"
    by (simp add: be32_def be32_val_def b)
  also have "n div 256 ^ 3 mod 256 = n div 256 div 256 div 256" using n by (simp add: div_mult2_eq [symmetric])
  also have "n div 256 ^ 2 mod 256 = n div 256 div 256 mod 256" by (simp add: div_mult2_eq [symmetric])
  finally show ?thesis by presburger
qed

lemma readFrame_writeFrame:
  assumes "writeFrame payload = Inr bs"
  shows "readFrame (bs @ rest) = Inr (payload, rest)"
proof -
  have len: "length payload \<le> maxFrameSize" and bs: "bs = be32 (length payload) @ payload"
    using assms by (auto simp: writeFrame_def split: if_splits)
  have "be32_val (be32 (length payload)) = length payload"
    using len by (intro be32_val_be32) (simp add: maxFrameSize_def)
  with len show ?thesis by (simp add: readFrame_def bs read_full_def)
qed

lemma readFrames_append:
  "list_all (\<lambda>p. length p \<le> maxFrameSize) ps \<Longrightarrow>
    readFrames (length ps) (concat (map (\<lambda>p. be32 (length p) @ p) ps) @ rest) = Inr (ps, rest)"
proof (induction ps)
  case (Cons p ps)
  then have "writeFrame p = Inr (be32 (length p) @ p)" by (simp add: writeFrame_def)
  from readFrame_writeFrame [OF this] Cons show ?case by simp
qed simp

lemma writeFrames_Inr:
  "writeFrames ps stream = Inr out \<longleftrightarrow>
     list_all (\<lambda>p. length p \<le> maxFrameSize) ps \<and> out = stream @ concat (map (\<lambda>p. be32 (length p) @ p) ps)"
proof (induction ps arbitrary: stream)
  case (Cons p ps)
  then show ?case by (auto simp: writeFrames_def writeFrame_def)
qed (auto simp: writeFrames_def)

text \<open>
C33: Frames survive the byte stream: whatever payloads are written one after another, none of more
than 8 MiB, a reader of the stream gets exactly these payloads in this order and is left with
exactly what follows them; a larger payload is refused by the writer.
\<close>

theorem frames_roundtrip:
  "(writeFrames ps stream = Inr out \<longrightarrow> (\<exists>written. out = stream @ written
      \<and> (\<forall>rest. readFrames (length ps) (written @ rest) = Inr (ps, rest))))
   \<and> (writeFrames ps stream = Inl FrameTooLarge \<longleftrightarrow> (\<exists>p\<in>set ps. length p > maxFrameSize))"
proof
  show "writeFrames ps stream = Inr out \<longrightarrow> (\<exists>written. out = stream @ written
      \<and> (\<forall>rest. readFrames (length ps) (written @ rest) = Inr (ps, rest)))"
    using readFrames_append by (auto simp: writeFrames_Inr)
next
  have "writeFrames ps stream \<noteq> Inl ShortRead"
    by (induction ps arbitrary: stream) (auto simp: writeFrames_def writeFrame_def)
  then have "writeFrames ps stream = Inl FrameTooLarge \<longleftrightarrow> (\<nexists>out. writeFrames ps stream = Inr out)"
    by (metis (full_types) frame_error.exhaust obj_sumE sum.distinct(1))
  then show "writeFrames ps stream = Inl FrameTooLarge \<longleftrightarrow> (\<exists>p\<in>set ps. length p > maxFrameSize)"
    by (auto simp: writeFrames_Inr list_all_iff not_le)
qed

theorem frames_roundtrip_witness:
  "\<exists>out. writeFrames [''ab'', '''', ''c''] '''' = Inr out \<and> readFrames 3 (out @ ''x'') = Inr ([''ab'', '''', ''c''], ''x'')"
proof -
  obtain out where w: "writeFrames [''ab'', '''', ''c''] '''' = Inr out"
    by (auto simp: writeFrames_Inr maxFrameSize_def)
  from frames_roundtrip [of "[''ab'', '''', ''c'']" "''''" out] w show ?thesis
    by (auto simp: numeral_3_eq_3)
qed

section \<open>Channels\<close>

text \<open>
  A transport is a TCP connection, known by its number, a bundle, an observed transport or a
  channel of one; the last two share a pair of counters, known by its number too. Path weights are
  floating point numbers and are left out. A nil transport is \<open>None\<close>.
\<close>

record RouteInfo =
  ri_Kind :: string
  ri_Connections :: int

datatype Transport =
    Conn nat
  | Bundle "Transport list"
  | Observed nat Transport RouteInfo
  | ObservedChannel nat Transport

definition NewBundle :: "Transport option list \<Rightarrow> Transport" where
  "NewBundle channels = Bundle (map the (filter (\<lambda>c. c \<noteq> None) channels))"

fun channels_of :: "Transport \<Rightarrow> Transport list" where
  "channels_of (Bundle cs) = (if cs \<noteq> [] then cs else [Bundle cs])"
| "channels_of (Observed k t info) = map (ObservedChannel k) (channels_of t)"
| "channels_of t = [t]"

definition Channels :: "Transport option \<Rightarrow> Transport list" where
  "Channels t = (case t of None \<Rightarrow> [] | Some t \<Rightarrow> channels_of t)"

definition Observe :: "nat \<Rightarrow> Transport option \<Rightarrow> RouteInfo \<Rightarrow> Transport option" where
  "Observe k t info =
     (case t of
        None \<Rightarrow> None
      | Some inner \<Rightarrow>
          Some (Observed k inner (if ri_Connections info \<le> 0
            then info\<lparr>ri_Connections := int (length (Channels t))\<rparr> else info)))"

text \<open>What the transports share: the bytes written to and still to be read from each connection, and the counters.\<close>

record network =
  net_written :: "nat \<Rightarrow> string"
  net_unread :: "nat \<Rightarrow> string"
  net_sent :: "nat \<Rightarrow> int"
  net_received :: "nat \<Rightarrow> int"

datatype transport_error = ErrClosed | FrameErr frame_error

definition count_sent :: "nat \<Rightarrow> string \<Rightarrow> unit \<Rightarrow> (network, transport_error, unit) act" where
  "count_sent k payload _ = modify (\<lambda>w. w\<lparr>net_sent := (net_sent w)(k := add64 (net_sent w k) (int (length payload)))\<rparr>)"

definition count_received :: "nat \<Rightarrow> string \<Rightarrow> (network, transport_error, string) act" where
  "count_received k payload w =
     (Inr payload, w\<lparr>net_received := (net_received w)(k := add64 (net_received w k) (int (length payload)))\<rparr>)"

fun Send :: "string \<Rightarrow> Transport \<Rightarrow> (network, transport_error, unit) act" where
  "Send payload (Conn c) =
     bind_act (try_get FrameErr (\<lambda>_. writeFrame payload)) (\<lambda>bs.
       modify (\<lambda>w. w\<lparr>net_written := (net_written w)(c := net_written w c @ bs)\<rparr>))"
| "Send payload (Bundle cs) = (case cs of [] \<Rightarrow> throw ErrClosed | c # _ \<Rightarrow> Send payload c)"
| "Send payload (Observed k t info) = bind_act (Send payload t) (count_sent k payload)"
| "Send payload (ObservedChannel k t) = bind_act (Send payload t) (count_sent k payload)"

fun Recv :: "Transport \<Rightarrow> (network, transport_error, string) act" where
  "Recv (Conn c) =
     bind_act (try_get FrameErr (\<lambda>w. readFrame (net_unread w c))) (\<lambda>(payload, rest).
     bind_act (modify (\<lambda>w. w\<lparr>net_unread := (net_unread w)(c := rest)\<rparr>)) (\<lambda>_. ret payload))"
| "Recv (Bundle cs) = (case cs of [] \<Rightarrow> throw ErrClosed | c # _ \<Rightarrow> Recv c)"
| "Recv (Observed k t info) = bind_act (Recv t) (count_received k)"
| "Recv (ObservedChannel k t) = bind_act (Recv t) (count_received k)"

section \<open>Send budget\<close>

text \<open>Times are in nanoseconds.\<close>

record SendMetrics =
  sm_BufferedBytes :: "64 word"
  sm_BufferLimit :: "64 word"
  sm_LastWait :: int

definition millisecond :: int where
  "millisecond = 1000000"

definition combine_metrics :: "SendMetrics \<Rightarrow> SendMetrics \<Rightarrow> SendMetrics" where
  "combine_metrics combined m =
     \<lparr>sm_BufferedBytes = sm_BufferedBytes combined + sm_BufferedBytes m,
      sm_BufferLimit = sm_BufferLimit combined + sm_BufferLimit m,
      sm_LastWait = (if sm_LastWait m > sm_LastWait combined then sm_LastWait m else sm_LastWait combined)\<rparr>"

definition SnapshotBundleSendMetrics :: "(Transport \<Rightarrow> SendMetrics) \<Rightarrow> Transport option \<Rightarrow> SendMetrics" where
  "SnapshotBundleSendMetrics snapshot t =
     foldl (\<lambda>c channel. combine_metrics c (snapshot channel))
       \<lparr>sm_BufferedBytes = 0, sm_BufferLimit = 0, sm_LastWait = 0\<rparr> (Channels t)"

definition buffer_budget :: "int \<Rightarrow> int \<Rightarrow> SendMetrics \<Rightarrow> int" where
  "buffer_budget maxBytes minBytes m =
     (let limit = sm_BufferLimit m in
      if limit > 0 then
        let quarter = limit div 4 + (if limit mod 4 \<noteq> 0 then 1 else 0);
            half = limit div 2 + (if limit mod 2 \<noteq> 0 then 1 else 0);
            threeQuarter = limit - limit div 4
        in if sm_BufferedBytes m \<ge> threeQuarter then minBytes
           else if sm_BufferedBytes m \<ge> half then max (maxBytes sdiv 4) minBytes
           else if sm_BufferedBytes m \<ge> quarter then max (maxBytes sdiv 2) minBytes
           else maxBytes
      else maxBytes)"

definition AdaptiveSendBudget :: "int \<Rightarrow> int \<Rightarrow> SendMetrics \<Rightarrow> int" where
  "AdaptiveSendBudget maxBytes minBytes0 m =
     (if maxBytes \<le> 0 then 0
      else
        let minBytes = (if minBytes0 \<le> 0 \<or> minBytes0 > maxBytes then maxBytes else minBytes0);
            budget = buffer_budget maxBytes minBytes m;
            budget' = (if sm_LastWait m \<ge> 100 * millisecond then minBytes
                       else if sm_LastWait m \<ge> 20 * millisecond then min budget (max (maxBytes sdiv 4) minBytes)
                       else if sm_LastWait m \<ge> 5 * millisecond then min budget (max (maxBytes sdiv 2) minBytes)
                       else budget)
        in max (min budget' maxBytes) minBytes)"

lemma sdiv_pos: "0 \<le> a \<Longrightarrow> 0 < b \<Longrightarrow> (a :: int) sdiv b = a div b"
  by (cases "a = 0") (simp_all add: signed_divide_int_def sgn_if)

lemma half_quarter: "0 < (x :: int) \<Longrightarrow> x sdiv 4 \<le> x sdiv 2 \<and> x sdiv 2 \<le> x"
  by (simp add: sdiv_pos) presburger

text \<open>More bytes waiting in the buffer never raise the first estimate.\<close>

definition budget_level :: "64 word \<Rightarrow> 64 word \<Rightarrow> nat" where
  "budget_level limit buffered =
     (if limit > 0 then
        (if buffered \<ge> limit - limit div 4 then 3
         else if buffered \<ge> limit div 2 + (if limit mod 2 \<noteq> 0 then 1 else 0) then 2
         else if buffered \<ge> limit div 4 + (if limit mod 4 \<noteq> 0 then 1 else 0) then 1
         else 0)
      else 0)"

definition level_budget :: "int \<Rightarrow> int \<Rightarrow> nat \<Rightarrow> int" where
  "level_budget maxBytes minBytes l =
     (if l \<ge> 3 then minBytes else if l = 2 then max (maxBytes sdiv 4) minBytes
      else if l = 1 then max (maxBytes sdiv 2) minBytes else maxBytes)"

lemma budget_level_mono: "b \<le> b' \<Longrightarrow> budget_level limit b \<le> budget_level limit b'"
  unfolding budget_level_def by (auto dest: order_trans)

lemma buffer_budget_level:
  "buffer_budget maxBytes minBytes m = level_budget maxBytes minBytes (budget_level (sm_BufferLimit m) (sm_BufferedBytes m))"
  by (simp add: buffer_budget_def level_budget_def budget_level_def Let_def)

lemma level_budget_mono:
  assumes "l \<le> k" "0 < maxBytes" "0 < minBytes" "minBytes \<le> maxBytes"
  shows "level_budget maxBytes minBytes k \<le> level_budget maxBytes minBytes l"
  using assms half_quarter [OF assms(2)] unfolding level_budget_def by auto

text \<open>How long the last send waited, as a level; each level caps the budget.\<close>

definition wait_level :: "int \<Rightarrow> nat" where
  "wait_level w = (if w \<ge> 100 * millisecond then 3 else if w \<ge> 20 * millisecond then 2
     else if w \<ge> 5 * millisecond then 1 else 0)"

lemma level_budget_bounds:
  assumes "0 < maxBytes" "0 < minBytes" "minBytes \<le> maxBytes"
  shows "minBytes \<le> level_budget maxBytes minBytes l" "level_budget maxBytes minBytes l \<le> maxBytes"
  using assms half_quarter [OF assms(1)] unfolding level_budget_def by auto

lemma level_values:
  "level_budget maxBytes minBytes 3 = minBytes" "level_budget maxBytes minBytes 2 = max (maxBytes sdiv 4) minBytes"
  "level_budget maxBytes minBytes 1 = max (maxBytes sdiv 2) minBytes" "level_budget maxBytes minBytes 0 = maxBytes"
  by (simp_all add: level_budget_def)

lemma level_budget_max:
  assumes "0 < maxBytes" "0 < minBytes" "minBytes \<le> maxBytes"
  shows "level_budget maxBytes minBytes (max l k) = min (level_budget maxBytes minBytes l) (level_budget maxBytes minBytes k)"
  using level_budget_mono [OF _ assms, of l k] level_budget_mono [OF _ assms, of k l] by (cases "l \<le> k") (auto simp: max_def min_def)

lemma AdaptiveSendBudget_levels:
  assumes "0 < maxBytes" "0 < minBytes" "minBytes \<le> maxBytes"
  shows "AdaptiveSendBudget maxBytes minBytes m =
    level_budget maxBytes minBytes (max (budget_level (sm_BufferLimit m) (sm_BufferedBytes m)) (wait_level (sm_LastWait m)))"
proof -
  define b where "b = level_budget maxBytes minBytes (budget_level (sm_BufferLimit m) (sm_BufferedBytes m))"
  define k where "k = wait_level (sm_LastWait m)"
  have bounds: "minBytes \<le> min b (level_budget maxBytes minBytes k)" "b \<le> maxBytes" "minBytes \<le> b"
    unfolding b_def using assms by (simp_all only: min.bounded_iff level_budget_bounds simp_thms)
  have if_k: "(if c then p (3 :: nat) else if d then p 2 else if e then p 1 else p 0) = p (if c then 3 else if d then 2 else if e then 1 else 0)"
    for c d e and p :: "nat \<Rightarrow> int" by simp
  have "(if sm_LastWait m \<ge> 100 * millisecond then minBytes
       else if sm_LastWait m \<ge> 20 * millisecond then min b (max (maxBytes sdiv 4) minBytes)
       else if sm_LastWait m \<ge> 5 * millisecond then min b (max (maxBytes sdiv 2) minBytes) else b)
     = min b (level_budget maxBytes minBytes k)"
    unfolding k_def wait_level_def if_k [of _ "\<lambda>l. min b (level_budget maxBytes minBytes l)", symmetric] level_values
    by (simp only: min_absorb1 [OF bounds(2)] min_absorb2 [OF bounds(3)])
  moreover have "\<not> maxBytes \<le> 0" "\<not> (minBytes \<le> 0 \<or> minBytes > maxBytes)" using assms by simp_all
  ultimately have "AdaptiveSendBudget maxBytes minBytes m = max (min (min b (level_budget maxBytes minBytes k)) maxBytes) minBytes"
    by (simp only: AdaptiveSendBudget_def buffer_budget_level b_def [symmetric] Let_def if_False)
  also have "\<dots> = min b (level_budget maxBytes minBytes k)"
    using bounds by (simp only: max_absorb1 min.absorb1 [OF min.coboundedI1])
  finally show ?thesis unfolding level_budget_max [OF assms] b_def k_def .
qed

text \<open>
C34: The adaptive chunk size stays within its bounds and backs off under pressure. For a positive
maximum and a minimum not above it, the budget lies between the two, and more bytes waiting in
the send buffer or a longer last wait never increase it; without pressure it is the maximum.
\<close>

theorem send_budget_backs_off:
  assumes "0 < minBytes" and "minBytes \<le> maxBytes"
    and "sm_BufferLimit m = sm_BufferLimit n" and "sm_BufferedBytes m \<le> sm_BufferedBytes n"
    and "sm_LastWait m \<le> sm_LastWait n"
  shows "minBytes \<le> AdaptiveSendBudget maxBytes minBytes m \<and> AdaptiveSendBudget maxBytes minBytes m \<le> maxBytes
    \<and> AdaptiveSendBudget maxBytes minBytes n \<le> AdaptiveSendBudget maxBytes minBytes m
    \<and> (sm_BufferLimit m = 0 \<and> sm_LastWait m < 5 * millisecond \<longrightarrow> AdaptiveSendBudget maxBytes minBytes m = maxBytes)"
proof -
  have pos: "0 < maxBytes" using assms(1,2) by simp
  note lv = AdaptiveSendBudget_levels [OF pos assms(1,2)]
  have "wait_level (sm_LastWait m) \<le> wait_level (sm_LastWait n)" using assms(5) by (simp add: wait_level_def)
  with budget_level_mono [OF assms(4), of "sm_BufferLimit m"] assms(3)
  have "AdaptiveSendBudget maxBytes minBytes n \<le> AdaptiveSendBudget maxBytes minBytes m"
    unfolding lv by (intro level_budget_mono [OF _ pos assms(1,2)]) auto
  moreover have "minBytes \<le> level_budget maxBytes minBytes l" "level_budget maxBytes minBytes l \<le> maxBytes" for l
    using assms(1,2) half_quarter [OF pos] by (auto simp: level_budget_def)
  moreover have "budget_level 0 b = 0" for b by (simp add: budget_level_def)
  moreover have "w < 5 * millisecond \<Longrightarrow> wait_level w = 0" for w by (simp add: wait_level_def millisecond_def)
  moreover have "level_budget maxBytes minBytes 0 = maxBytes" by (simp add: level_budget_def)
  ultimately show ?thesis unfolding lv by auto
qed

theorem send_budget_backs_off_witness:
  "AdaptiveSendBudget 65536 16384 \<lparr>sm_BufferedBytes = 900, sm_BufferLimit = 1000, sm_LastWait = 7000000\<rparr> \<le>
   AdaptiveSendBudget 65536 16384 \<lparr>sm_BufferedBytes = 300, sm_BufferLimit = 1000, sm_LastWait = 0\<rparr>"
  using send_budget_backs_off [of 16384 65536 "\<lparr>sm_BufferedBytes = 300, sm_BufferLimit = 1000, sm_LastWait = 0\<rparr>"
    "\<lparr>sm_BufferedBytes = 900, sm_BufferLimit = 1000, sm_LastWait = 7000000\<rparr>"] by simp

end
