(* ===== verification/Base64.thy ===== *)
theory Base64
  imports Go_Prelude
begin

text \<open>
  Go's \<open>base64.StdEncoding\<close>: encoding with padding, and decoding, which skips carriage returns and
  line feeds, wants the padding at the end and does not check the unused bits before it.
\<close>

definition b64_char :: "nat \<Rightarrow> char" where
  "b64_char n =
     (if n < 26 then char_of (65 + n) else if n < 52 then char_of (71 + n)
      else if n < 62 then char_of (n - 4) else if n = 62 then CHR ''+'' else CHR ''/'')"

definition b64_val :: "char \<Rightarrow> nat option" where
  "b64_val c =
     (let n = byte_val c in
      if 65 \<le> n \<and> n \<le> 90 then Some (n - 65) else if 97 \<le> n \<and> n \<le> 122 then Some (n - 71)
      else if 48 \<le> n \<and> n \<le> 57 then Some (n + 4) else if n = 43 then Some 62
      else if n = 47 then Some 63 else None)"

fun EncodeToString :: "string \<Rightarrow> string" where
  "EncodeToString [] = []"
| "EncodeToString [a] =
     [b64_char (byte_val a div 4), b64_char (byte_val a mod 4 * 16), CHR ''='', CHR ''='']"
| "EncodeToString [a, b] =
     [b64_char (byte_val a div 4), b64_char (byte_val a mod 4 * 16 + byte_val b div 16),
      b64_char (byte_val b mod 16 * 4), CHR ''='']"
| "EncodeToString (a # b # c # rest) =
     [b64_char (byte_val a div 4), b64_char (byte_val a mod 4 * 16 + byte_val b div 16),
      b64_char (byte_val b mod 16 * 4 + byte_val c div 64), b64_char (byte_val c mod 64)] @ EncodeToString rest"

definition byte_of :: "nat \<Rightarrow> char" where
  "byte_of n = char_of (n mod 256)"

fun decode_quanta :: "string \<Rightarrow> string option" where
  "decode_quanta [] = Some []"
| "decode_quanta (p # q # r # s # rest) =
     (case (b64_val p, b64_val q) of
        (Some v, Some w) \<Rightarrow>
          (if r = CHR ''='' then
             (if s = CHR ''='' \<and> rest = [] then Some [byte_of (v * 4 + w div 16)] else None)
           else if s = CHR ''='' then
             (case b64_val r of
                Some x \<Rightarrow> if rest = [] then Some [byte_of (v * 4 + w div 16), byte_of (w * 16 + x div 4)] else None
              | None \<Rightarrow> None)
           else
             (case (b64_val r, b64_val s) of
                (Some x, Some y) \<Rightarrow>
                  (case decode_quanta rest of
                     Some bs \<Rightarrow> Some (byte_of (v * 4 + w div 16) # byte_of (w * 16 + x div 4) # byte_of (x * 64 + y) # bs)
                   | None \<Rightarrow> None)
              | _ \<Rightarrow> None))
      | _ \<Rightarrow> None)"
| "decode_quanta _ = None"

definition newline :: "char \<Rightarrow> bool" where
  "newline c \<longleftrightarrow> byte_val c = 10 \<or> byte_val c = 13"

definition DecodeString :: "string \<Rightarrow> string option" where
  "DecodeString s = decode_quanta (filter (\<lambda>c. \<not> newline c) s)"

lemma b64_val_char:
  assumes "n < 64"
  shows "b64_val (b64_char n) = Some n" "b64_char n \<noteq> CHR ''=''" "\<not> newline (b64_char n)"
proof -
  have byte: "(of_char (char_of k :: char) :: nat) = k" if "k < 256" for k using that by (simp add: of_char_of)
  have v: "(of_char (b64_char n) :: nat) =
      (if n < 26 then 65 + n else if n < 52 then 71 + n else if n < 62 then n - 4 else if n = 62 then 43 else 47)"
    using assms by (auto simp: b64_char_def byte)
  show val: "b64_val (b64_char n) = Some n" using assms by (auto simp: b64_val_def v Let_def)
  show "\<not> newline (b64_char n)" using assms by (auto simp: newline_def v)
  have "b64_val (CHR ''='') = None" by (simp add: b64_val_def)
  with val show "b64_char n \<noteq> CHR ''=''" by auto
qed

lemma byte_of_eq: "n mod 256 = byte_val c \<Longrightarrow> byte_of n = c"
  by (simp add: byte_of_def)

lemma quantum_arith:
  fixes a b c :: nat
  assumes "a < 256" "b < 256" "c < 256"
  shows "a div 4 < 64" "a mod 4 * 16 + b div 16 < 64" "b mod 16 * 4 + c div 64 < 64" "c mod 64 < 64"
    "a div 4 * 4 + (a mod 4 * 16 + b div 16) div 16 = a"
    "((a mod 4 * 16 + b div 16) * 16 + (b mod 16 * 4 + c div 64) div 4) mod 256 = b"
    "((b mod 16 * 4 + c div 64) * 64 + c mod 64) mod 256 = c"
proof -
  define x where "x = a div 4" define y where "y = a mod 4"
  define u where "u = b div 16" define v where "v = b mod 16"
  define s where "s = c div 64" define t where "t = c mod 64"
  have a: "a = 4 * x + y" "y < 4" "x < 64" using assms(1) by (auto simp: x_def y_def)
  have b: "b = 16 * u + v" "v < 16" "u < 16" using assms(2) by (auto simp: u_def v_def)
  have c: "c = 64 * s + t" "t < 64" "s < 4" using assms(3) by (auto simp: s_def t_def)
  note folds = x_def [symmetric] y_def [symmetric] u_def [symmetric] v_def [symmetric] s_def [symmetric] t_def [symmetric]
  show "a div 4 < 64" "a mod 4 * 16 + b div 16 < 64" "b mod 16 * 4 + c div 64 < 64" "c mod 64 < 64"
    unfolding folds using a b c by linarith+
  show "a div 4 * 4 + (a mod 4 * 16 + b div 16) div 16 = a" unfolding folds using a b by simp
  have "(v * 4 + s) div 4 = v" using c(3) by simp
  then have "(y * 16 + u) * 16 + (v * 4 + s) div 4 = b + 256 * y" using b(1) by simp
  then show "((a mod 4 * 16 + b div 16) * 16 + (b mod 16 * 4 + c div 64) div 4) mod 256 = b"
    unfolding folds using assms(2) by (simp only: mod_mult_self2 mod_less)
  have "(v * 4 + s) * 64 + t = c + 256 * v" using c(1) by simp
  then show "((b mod 16 * 4 + c div 64) * 64 + c mod 64) mod 256 = c"
    unfolding folds using assms(3) by (simp only: mod_mult_self2 mod_less)
qed

lemma encode_chars: "c \<in> set (EncodeToString bs) \<Longrightarrow> \<not> newline c"
proof (induction bs rule: EncodeToString.induct)
  case (2 a)
  have "byte_val a < (256 :: nat)" by simp
  with 2 quantum_arith [of "byte_val a" 0 0] show ?case by (auto simp: b64_val_char newline_def [of "CHR ''=''"])
next
  case (3 a b)
  have "byte_val a < (256 :: nat)" "byte_val b < (256 :: nat)" by simp_all
  with 3 quantum_arith [of "byte_val a" "byte_val b" 0] show ?case by (auto simp: b64_val_char newline_def [of "CHR ''=''"])
next
  case (4 a b c rest)
  have "byte_val a < (256 :: nat)" "byte_val b < (256 :: nat)" "byte_val c < (256 :: nat)" by simp_all
  with 4 quantum_arith [of "byte_val a" "byte_val b" "byte_val c"] show ?case by (auto simp: b64_val_char)
qed simp

text \<open>One quantum of three bytes, of two and of one.\<close>

lemma decode_quantum:
  fixes a b c :: char
  defines "v \<equiv> byte_val a div 4" and "w \<equiv> byte_val a mod 4 * 16 + byte_val b div 16"
    and "x \<equiv> byte_val b mod 16 * 4 + byte_val c div 64" and "y \<equiv> byte_val c mod 64"
  shows "v < 64 \<and> w < 64 \<and> x < 64 \<and> y < 64 \<and> byte_of (v * 4 + w div 16) = a
    \<and> byte_of (w * 16 + x div 4) = b \<and> byte_of (x * 64 + y) = c"
proof (intro conjI)
  have abc: "byte_val a < (256 :: nat)" "byte_val b < (256 :: nat)" "byte_val c < (256 :: nat)" by simp_all
  note q = quantum_arith [OF abc]
  show "v < 64" "w < 64" "x < 64" "y < 64" unfolding v_def w_def x_def y_def by (rule q)+
  show "byte_of (v * 4 + w div 16) = a" unfolding v_def w_def q(5) by (rule byte_of_eq) simp
  show "byte_of (w * 16 + x div 4) = b" unfolding w_def x_def by (rule byte_of_eq) (rule q(6))
  show "byte_of (x * 64 + y) = c" unfolding x_def y_def by (rule byte_of_eq) (rule q(7))
qed

lemma decode_quanta_encode: "decode_quanta (EncodeToString bs) = Some bs"
proof (induction bs rule: EncodeToString.induct)
  case (2 a)
  note q = decode_quantum [of a "char_of (0 :: nat)" "char_of (0 :: nat)"]
  have z: "(of_char (char_of (0 :: nat) :: char) :: nat) = 0" by (simp add: of_char_of)
  from q show ?case
    unfolding EncodeToString.simps decode_quanta.simps z div_0 add_0_right by (elim conjE) (simp only: b64_val_char, simp)
next
  case (3 a b)
  note q = decode_quantum [of a b "char_of (0 :: nat)"]
  have z: "(of_char (char_of (0 :: nat) :: char) :: nat) = 0" by (simp add: of_char_of)
  from q show ?case
    unfolding EncodeToString.simps decode_quanta.simps z div_0 add_0_right by (elim conjE) (simp only: b64_val_char, simp)
next
  case (4 a b c rest)
  note q = decode_quantum [of a b c]
  from q 4 show ?case
    unfolding EncodeToString.simps append.simps decode_quanta.simps
    by (elim conjE) (simp only: b64_val_char option.case prod.case if_False)
qed simp

lemma DecodeString_EncodeToString [simp]: "DecodeString (EncodeToString bs) = Some bs"
proof -
  have "filter (\<lambda>c. \<not> newline c) (EncodeToString bs) = EncodeToString bs"
    using encode_chars by (intro filter_True) blast
  then show ?thesis by (simp add: DecodeString_def decode_quanta_encode)
qed

end
