(* ===== verification/Secure_Pipe.thy ===== *)
theory Secure_Pipe
  imports Protocol Secure Transport Base64
begin

text \<open>
  The encrypted channel of a transfer and its handshake (the first and the last part of
  internal/transfer/session.go). Marshalling to JSON is a parameter: \<open>wire\<close> bundles the JSON
  functions for envelopes and messages with the AEAD. What the theorems assume of them is
  \<open>wire_law\<close>, stated for the messages at hand: what was marshalled is parsed back.
\<close>

section \<open>Handshake\<close>

record helloMessage =
  hm_Type :: string
  hm_Version :: int
  hm_SenderNonce :: string
  hm_ReceiverNonce :: string
  hm_Compressions :: "string list"
  hm_Compression :: string
  hm_Connections :: int
  hm_Features :: "string list"

definition featureChunkStriping :: string where
  "featureChunkStriping = ''chunk-striping''"

definition featureDeferredFileSHA256 :: string where
  "featureDeferredFileSHA256 = ''deferred-file-sha256''"

record securePipe =
  sp_index :: int
  sp_send :: Session
  sp_recv :: Session
  sp_nextSeq :: "64 word"
  sp_recvSeq :: "64 word"
  sp_compression :: string
  sp_striping :: bool
  sp_deferredFileSHA256 :: bool

datatype hello_error =
    NoChannels
  | HelloType string string
  | HelloVersion int
  | HelloSenderNonce
  | HelloReceiverNonce
  | HelloCompression string
  | SelectedCompression string
  | SelectedFeature string
  | SelectedConnections int int

definition channelKeyInfo :: "string \<Rightarrow> int \<Rightarrow> string" where
  "channelKeyInfo direction index =
     (if index = 0 then ''kigo-v1 '' @ direction @ '' aes-128-gcm''
      else ''kigo-v1 '' @ direction @ '' channel-'' @ Itoa index @ '' aes-128-gcm'')"

definition normalizedConnectionCount :: "int \<Rightarrow> int" where
  "normalizedConnectionCount count = (if count \<le> 0 then 1 else count)"

definition containsString :: "string list \<Rightarrow> string \<Rightarrow> bool" where
  "containsString values want \<longleftrightarrow> (\<exists>v\<in>set values. v = want)"

definition validateHello :: "helloMessage \<Rightarrow> string \<Rightarrow> (hello_error, unit) result" where
  "validateHello msg wantType =
     (if hm_Type msg \<noteq> wantType then Inl (HelloType (hm_Type msg) wantType)
      else if hm_Version msg \<noteq> Version then Inl (HelloVersion (hm_Version msg))
      else if wantType = ''hello'' then
        (if hm_SenderNonce msg = '''' then Inl HelloSenderNonce else Inr ())
      else if wantType = ''hello_ack'' then
        (if hm_ReceiverNonce msg = '''' then Inl HelloReceiverNonce
         else if hm_Compression msg \<noteq> '''' \<and> hm_Compression msg \<noteq> compressionGzip
              then Inl (HelloCompression (hm_Compression msg))
         else Inr ())
      else Inr ())"

definition selectCompression :: "string list \<Rightarrow> string" where
  "selectCompression offered = (if containsString offered compressionGzip then compressionGzip else '''')"

definition selectFeatures :: "string list \<Rightarrow> int \<Rightarrow> string list" where
  "selectFeatures offered connectionCount =
     (if connectionCount > 1 \<and> containsString offered featureChunkStriping then [featureChunkStriping] else [])
     @ (if containsString offered featureDeferredFileSHA256 then [featureDeferredFileSHA256] else [])"

definition newSecurePipe ::
  "hkdf_fun \<Rightarrow> int \<Rightarrow> string \<Rightarrow> string \<Rightarrow> string \<Rightarrow> bool \<Rightarrow> string \<Rightarrow> securePipe" where
  "newSecurePipe hkdf index code senderNonce receiverNonce sender compression =
     (let sendDirection = (if sender then ''sender-to-receiver'' else ''receiver-to-sender'');
          recvDirection = (if sender then ''receiver-to-sender'' else ''sender-to-receiver'')
      in \<lparr>sp_index = index,
          sp_send = NewSessionWithInfo hkdf code senderNonce receiverNonce (channelKeyInfo sendDirection index),
          sp_recv = NewSessionWithInfo hkdf code senderNonce receiverNonce (channelKeyInfo recvDirection index),
          sp_nextSeq = 0, sp_recvSeq = 0, sp_compression = compression,
          sp_striping = False, sp_deferredFileSHA256 = False\<rparr>)"

text \<open>
  \<open>initSenderPipes\<close>: the hello it sends on its first channel, and what it makes of the answer. The
  channels are counted; the ones not used are closed.
\<close>

definition sender_hello :: "string \<Rightarrow> nat \<Rightarrow> helloMessage" where
  "sender_hello senderNonce channels =
     \<lparr>hm_Type = ''hello'', hm_Version = Version, hm_SenderNonce = senderNonce, hm_ReceiverNonce = '''',
      hm_Compressions = [compressionGzip], hm_Compression = '''', hm_Connections = int channels,
      hm_Features = [featureChunkStriping, featureDeferredFileSHA256]\<rparr>"

definition check_features :: "helloMessage \<Rightarrow> helloMessage \<Rightarrow> (hello_error, unit) result" where
  "check_features hello ack =
     foldM (\<lambda>feature _. check (containsString (hm_Features hello) feature) (SelectedFeature feature)) (hm_Features ack) ()"

definition initSenderPipes ::
  "hkdf_fun \<Rightarrow> string \<Rightarrow> string \<Rightarrow> nat \<Rightarrow> helloMessage \<Rightarrow> (hello_error, securePipe list) result" where
  "initSenderPipes hkdf code senderNonce channels ack =
     (if channels = 0 then Inl NoChannels
      else
        let hello = sender_hello senderNonce channels in
        rbind (validateHello ack ''hello_ack'') (\<lambda>_.
        if hm_Compression ack \<noteq> '''' \<and> \<not> containsString (hm_Compressions hello) (hm_Compression ack)
        then Inl (SelectedCompression (hm_Compression ack))
        else rbind (check_features hello ack) (\<lambda>_.
          let connectionCount = normalizedConnectionCount (hm_Connections ack)
          in if connectionCount > int channels then Inl (SelectedConnections connectionCount (int channels))
             else
               let striping = connectionCount > 1 \<and> containsString (hm_Features ack) featureChunkStriping;
                   deferred = containsString (hm_Features ack) featureDeferredFileSHA256
               in Inr (map (\<lambda>index. (newSecurePipe hkdf (int index) code senderNonce (hm_ReceiverNonce ack) True (hm_Compression ack))
                    \<lparr>sp_striping := striping, sp_deferredFileSHA256 := deferred\<rparr>) [0..<nat connectionCount]))))"

definition initReceiverPipes ::
  "hkdf_fun \<Rightarrow> string \<Rightarrow> string \<Rightarrow> nat \<Rightarrow> helloMessage \<Rightarrow> (hello_error, helloMessage \<times> securePipe list) result" where
  "initReceiverPipes hkdf code receiverNonce channels hello =
     (if channels = 0 then Inl NoChannels
      else rbind (validateHello hello ''hello'') (\<lambda>_.
        let compression = selectCompression (hm_Compressions hello);
            connectionCount = min (normalizedConnectionCount (hm_Connections hello)) (int channels);
            features = selectFeatures (hm_Features hello) connectionCount;
            ack = \<lparr>hm_Type = ''hello_ack'', hm_Version = Version, hm_SenderNonce = '''', hm_ReceiverNonce = receiverNonce,
                   hm_Compressions = [], hm_Compression = compression, hm_Connections = connectionCount,
                   hm_Features = features\<rparr>
        in Inr (ack, map (\<lambda>index. (newSecurePipe hkdf (int index) code (hm_SenderNonce hello) receiverNonce False compression)
              \<lparr>sp_striping := containsString features featureChunkStriping,
               sp_deferredFileSHA256 := containsString features featureDeferredFileSHA256\<rparr>) [0..<nat connectionCount])))"

section \<open>Messages\<close>

record envelope =
  env_version :: int
  env_seq :: "64 word"
  env_body :: string

record wire =
  w_seal :: seal_fun
  w_unseal :: unseal_fun
  w_envJson :: "envelope \<Rightarrow> string"
  w_envParse :: "string \<Rightarrow> envelope option"
  w_msgJson :: "Message \<Rightarrow> string"
  w_msgParse :: "string \<Rightarrow> Message option"

definition wire_law :: "wire \<Rightarrow> Message set \<Rightarrow> bool" where
  "wire_law w msgs \<longleftrightarrow> aead_law (w_seal w) (w_unseal w)
     \<and> (\<forall>e. env_version e = Version \<longrightarrow> w_envParse w (w_envJson w e) = Some e)
     \<and> (\<forall>m\<in>msgs. w_msgParse w (w_msgJson w m) = Some m)"

datatype pipe_error = BadEnvelope | EnvelopeVersion int | EnvelopeSequence "64 word" "64 word" | BadBody | DecryptFailed | BadMessage

text \<open>\<open>sendMessage\<close>: the payload given to the transport; the sequence number is used up in any case.\<close>

definition sendMessage :: "wire \<Rightarrow> Message \<Rightarrow> securePipe \<Rightarrow> string \<times> securePipe" where
  "sendMessage w msg p =
     (let seq = sp_nextSeq p;
          ciphertext = Encrypt (w_seal w) (sp_send p) seq (w_msgJson w msg);
          payload = w_envJson w \<lparr>env_version = Version, env_seq = seq, env_body = EncodeToString ciphertext\<rparr>
      in (payload, p\<lparr>sp_nextSeq := seq + 1\<rparr>))"

definition recvMessage :: "wire \<Rightarrow> string \<Rightarrow> (securePipe, pipe_error, Message) act" where
  "recvMessage w payload p =
     (case w_envParse w payload of
        None \<Rightarrow> (Inl BadEnvelope, p)
      | Some env \<Rightarrow>
          if env_version env \<noteq> Version then (Inl (EnvelopeVersion (env_version env)), p)
          else if env_seq env \<noteq> sp_recvSeq p then (Inl (EnvelopeSequence (env_seq env) (sp_recvSeq p)), p)
          else (case DecodeString (env_body env) of
                  None \<Rightarrow> (Inl BadBody, p)
                | Some ciphertext \<Rightarrow>
                    (case Decrypt (w_unseal w) (sp_recv p) (env_seq env) ciphertext of
                       None \<Rightarrow> (Inl DecryptFailed, p)
                     | Some plain \<Rightarrow>
                         (case w_msgParse w plain of
                            None \<Rightarrow> (Inl BadMessage, p)
                          | Some msg \<Rightarrow> (Inr msg, p\<lparr>sp_recvSeq := sp_recvSeq p + 1\<rparr>)))))"

fun send_all :: "wire \<Rightarrow> Message list \<Rightarrow> securePipe \<Rightarrow> string list \<times> securePipe" where
  "send_all w [] p = ([], p)"
| "send_all w (m # ms) p = (case sendMessage w m p of (x, p') \<Rightarrow> case send_all w ms p' of (xs, p'') \<Rightarrow> (x # xs, p''))"

fun recv_all :: "wire \<Rightarrow> string list \<Rightarrow> (securePipe, pipe_error, Message list) act" where
  "recv_all w [] = ret []"
| "recv_all w (x # xs) = bind_act (recvMessage w x) (\<lambda>m. bind_act (recv_all w xs) (\<lambda>ms. ret (m # ms)))"

section \<open>The two ends agree\<close>

lemma features_selected: "set (selectFeatures offered n) \<subseteq> set offered"
  by (auto simp: selectFeatures_def containsString_def)

lemma check_features_ok:
  "check_features hello ack = Inr u \<longleftrightarrow> set (hm_Features ack) \<subseteq> set (hm_Features hello)"
proof -
  have "foldM (\<lambda>feature _. check (containsString fs feature) (SelectedFeature feature)) xs () = Inr () \<longleftrightarrow> set xs \<subseteq> set fs" for xs fs
    by (induction xs) (auto simp: result_simps containsString_def)
  then show ?thesis by (simp add: check_features_def)
qed

lemma containsString_iff [simp]: "containsString vs v \<longleftrightarrow> v \<in> set vs"
  by (auto simp: containsString_def)

definition pipes_match :: "securePipe \<Rightarrow> securePipe \<Rightarrow> bool" where
  "pipes_match a b \<longleftrightarrow> sp_index a = sp_index b \<and> sp_send a = sp_recv b \<and> sp_recv a = sp_send b
     \<and> sp_nextSeq a = sp_recvSeq b \<and> sp_recvSeq a = sp_nextSeq b \<and> sp_compression a = sp_compression b
     \<and> sp_striping a = sp_striping b \<and> sp_deferredFileSHA256 a = sp_deferredFileSHA256 b"

text \<open>
C7: The handshake makes both ends agree. If sender and receiver know the same code, have at least
one channel each and use non-empty nonces, then the receiver accepts the sender's hello and the
sender accepts the answer; both end up with as many pipes as the smaller number of channels, and
the pipes match one by one: what one end seals the other opens, and compression, striping and
deferred hashes are the same at both ends.
\<close>

theorem handshake_agrees:
  assumes "0 < m" and "0 < n" and "sNonce \<noteq> ''''" and "rNonce \<noteq> ''''" and "NormalizeCode c = NormalizeCode c'"
  shows "\<exists>ack rs ss. initReceiverPipes hkdf c' rNonce n (sender_hello sNonce m) = Inr (ack, rs)
    \<and> initSenderPipes hkdf c sNonce m ack = Inr ss
    \<and> length ss = min m n \<and> length rs = min m n \<and> (\<forall>k < min m n. pipes_match (ss ! k) (rs ! k))"
proof -
  define k where "k = min (int m) (int n)"
  define fs where "fs = selectFeatures [featureChunkStriping, featureDeferredFileSHA256] k"
  have norm: "normalizedConnectionCount (int m) = int m" "normalizedConnectionCount k = k"
    using assms(1,2) by (auto simp: normalizedConnectionCount_def k_def)
  have sub: "set fs \<subseteq> {featureChunkStriping, featureDeferredFileSHA256}"
    using features_selected [of "[featureChunkStriping, featureDeferredFileSHA256]" k] by (simp add: fs_def)
  have stripe: "featureChunkStriping \<in> set fs \<longleftrightarrow> k > 1"
    by (auto simp: fs_def selectFeatures_def featureChunkStriping_def featureDeferredFileSHA256_def)
  obtain ack rs where r: "initReceiverPipes hkdf c' rNonce n (sender_hello sNonce m) = Inr (ack, rs)"
      and ack: "hm_Type ack = ''hello_ack''" "hm_Version ack = Version" "hm_ReceiverNonce ack = rNonce"
        "hm_Compression ack = compressionGzip" "hm_Connections ack = k" "hm_Features ack = fs"
      and rs: "rs = map (\<lambda>index. (newSecurePipe hkdf (int index) c' sNonce rNonce False compressionGzip)
              \<lparr>sp_striping := featureChunkStriping \<in> set fs,
               sp_deferredFileSHA256 := featureDeferredFileSHA256 \<in> set fs\<rparr>) [0..<nat k]"
    using assms norm(1)
    by (auto simp: initReceiverPipes_def validateHello_def sender_hello_def selectCompression_def Let_def k_def fs_def)
  have s: "initSenderPipes hkdf c sNonce m ack =
      Inr (map (\<lambda>index. (newSecurePipe hkdf (int index) c sNonce rNonce True compressionGzip)
              \<lparr>sp_striping := k > 1 \<and> featureChunkStriping \<in> set fs,
               sp_deferredFileSHA256 := featureDeferredFileSHA256 \<in> set fs\<rparr>) [0..<nat k])" (is "_ = Inr ?ss")
  proof -
    have "check_features (sender_hello sNonce m) ack = Inr ()"
      using sub ack by (simp add: check_features_ok sender_hello_def)
    moreover have "hm_Compressions (sender_hello sNonce m) = [compressionGzip]" by (simp add: sender_hello_def)
    moreover have "\<not> k > int m" by (simp add: k_def)
    ultimately show ?thesis
      using assms ack norm(2) by (simp add: initSenderPipes_def validateHello_def Let_def)
  qed
  have "nat k = min m n" by (simp add: k_def nat_int min_def)
  then have "length ?ss = min m n" "length rs = min m n" by (simp_all add: rs)
  moreover have "pipes_match (?ss ! j) (rs ! j)" if "j < min m n" for j
    using that \<open>nat k = min m n\<close> stripe assms(5)
    by (simp add: rs pipes_match_def newSecurePipe_def NewSessionWithInfo_def Let_def)
  ultimately show ?thesis using r s by blast
qed

theorem handshake_agrees_witness:
  "\<exists>ack rs ss. initReceiverPipes (\<lambda>a b c n. a @ b @ c) ''abcdef'' ''r'' 2 (sender_hello ''s'' 3) = Inr (ack, rs)
     \<and> initSenderPipes (\<lambda>a b c n. a @ b @ c) ''ABC-DEF'' ''s'' 3 ack = Inr ss \<and> length ss = 2 \<and> length rs = 2"
proof -
  have "NormalizeCode ''ABC-DEF'' = NormalizeCode ''abcdef''" by code_simp
  from handshake_agrees [of 3 2 "''s''" "''r''" "''ABC-DEF''" "''abcdef''" "\<lambda>a b c n. a @ b @ c", OF _ _ _ _ this]
  show ?thesis by auto
qed

section \<open>One key per direction and channel\<close>

text \<open>
  No two pipes of a transfer derive their keys from the same label: the label determines the
  direction and the number of the channel.
\<close>

theorem channel_labels_distinct:
  assumes "d \<in> {''sender-to-receiver'', ''receiver-to-sender''}" and "e \<in> {''sender-to-receiver'', ''receiver-to-sender''}"
    and "0 \<le> i" and "0 \<le> j"
  shows "channelKeyInfo d i = channelKeyInfo e j \<longleftrightarrow> d = e \<and> i = j"
proof -
  have "channelKeyInfo d i = channelKeyInfo d j \<longleftrightarrow> i = j"
    using assms(3,4) by (auto simp: channelKeyInfo_def Itoa_inj)
  moreover have "d \<noteq> e \<Longrightarrow> channelKeyInfo d i \<noteq> channelKeyInfo e j"
    using assms(1,2) by (auto simp: channelKeyInfo_def)
  ultimately show ?thesis by auto
qed

theorem channel_labels_distinct_witness:
  "channelKeyInfo ''sender-to-receiver'' 12 \<noteq> channelKeyInfo ''receiver-to-sender'' 12"
  using channel_labels_distinct [of "''sender-to-receiver''" "''receiver-to-sender''" 12 12] by simp

section \<open>Delivery\<close>

lemma recv_sent:
  assumes "wire_law w {m}" "pipes_match a b" "sendMessage w m a = (x, a')"
  shows "\<exists>b'. recvMessage w x b = (Inr m, b') \<and> pipes_match a' b' \<and> sp_recvSeq b' = sp_recvSeq b + 1"
proof -
  have "aead_law (w_seal w) (w_unseal w)" using assms(1) by (simp add: wire_law_def)
  note dec = Decrypt_Encrypt [OF this]
  show ?thesis
    using assms dec by (auto simp: wire_law_def sendMessage_def recvMessage_def pipes_match_def Let_def)
qed

lemma recv_all_sent:
  assumes "wire_law w (set ms)" "pipes_match a b" "send_all w ms a = (xs, a')"
  shows "\<exists>b'. recv_all w xs b = (Inr ms, b') \<and> pipes_match a' b' \<and> sp_recvSeq b' = sp_recvSeq b + of_nat (length ms)"
  using assms
proof (induction ms arbitrary: a b xs)
  case Nil
  then show ?case by (simp add: ret_def)
next
  case (Cons m ms)
  obtain x a1 where x: "sendMessage w m a = (x, a1)" by (cases "sendMessage w m a")
  obtain ys where ys: "send_all w ms a1 = (ys, a')" "xs = x # ys"
    using Cons.prems(3) x by (auto split: prod.splits)
  have "wire_law w {m}" "wire_law w (set ms)" using Cons.prems(1) by (auto simp: wire_law_def)
  with recv_sent [OF _ Cons.prems(2) x] obtain b1 where b1: "recvMessage w x b = (Inr m, b1)" "pipes_match a1 b1"
      "sp_recvSeq b1 = sp_recvSeq b + 1" by blast
  from Cons.IH [OF \<open>wire_law w (set ms)\<close> b1(2) ys(1)] b1 ys(2) show ?case
    by (auto simp: bind_act_def ret_def)
qed

lemma send_all_seq:
  assumes "send_all w ms a = (xs, a')"
  shows "length xs = length ms" "j < length ms \<Longrightarrow> \<exists>body. xs ! j =
    w_envJson w \<lparr>env_version = Version, env_seq = sp_nextSeq a + of_nat j, env_body = body\<rparr>"
proof -
  have "length xs = length ms \<and> (\<forall>j < length ms. \<exists>body. xs ! j =
      w_envJson w \<lparr>env_version = Version, env_seq = sp_nextSeq a + of_nat j, env_body = body\<rparr>)"
    using assms
  proof (induction ms arbitrary: a xs)
    case (Cons m ms)
    obtain ys where ys: "send_all w ms (a\<lparr>sp_nextSeq := sp_nextSeq a + 1\<rparr>) = (ys, a')"
        "xs = fst (sendMessage w m a) # ys"
      using Cons.prems by (auto simp: sendMessage_def Let_def split: prod.splits)
    have "\<exists>body. fst (sendMessage w m a) = w_envJson w \<lparr>env_version = Version, env_seq = sp_nextSeq a, env_body = body\<rparr>"
      by (auto simp: sendMessage_def Let_def)
    with Cons.IH [OF ys(1)] ys(2) show ?case by (auto simp: nth_Cons algebra_simps split: nat.split)
  qed simp
  then show "length xs = length ms" "j < length ms \<Longrightarrow> \<exists>body. xs ! j =
    w_envJson w \<lparr>env_version = Version, env_seq = sp_nextSeq a + of_nat j, env_body = body\<rparr>" by auto
qed

lemma send_all_take: "send_all w ms a = (xs, a') \<Longrightarrow> \<exists>a1. send_all w (take i ms) a = (take i xs, a1)"
proof (induction ms arbitrary: a xs i)
  case (Cons m ms)
  obtain x a1 where x: "sendMessage w m a = (x, a1)" by (cases "sendMessage w m a")
  obtain ys where ys: "send_all w ms a1 = (ys, a')" "xs = x # ys"
    using Cons.prems x by (auto split: prod.splits)
  show ?case
  proof (cases i)
    case (Suc k)
    from Cons.IH [OF ys(1), of k] obtain a2 where "send_all w (take k ms) a1 = (take k ys, a2)" by blast
    with x ys(2) Suc show ?thesis by simp
  qed simp
qed simp


text \<open>
  The laws can hold together: a toy codec for one message, which writes the sequence number in
  unary before the body.
\<close>

definition demo_wire :: "Message \<Rightarrow> wire" where
  "demo_wire m =
     \<lparr>w_seal = (\<lambda>k n a p. p), w_unseal = (\<lambda>k n a c. Some c),
      w_envJson = (\<lambda>e. replicate (unat (env_seq e)) CHR ''a'' @ CHR ''b'' # env_body e),
      w_envParse = (\<lambda>s. let n = length (takeWhile (\<lambda>c. c = CHR ''a'') s) in
         Some \<lparr>env_version = Version, env_seq = of_nat n, env_body = drop (Suc n) s\<rparr>),
      w_msgJson = (\<lambda>_. ''{}''), w_msgParse = (\<lambda>_. Some m)\<rparr>"

lemma demo_wire_law: "wire_law (demo_wire m) {m}"
proof -
  have "takeWhile (\<lambda>c. c = CHR ''a'') (replicate n CHR ''a'' @ CHR ''b'' # body) = replicate n CHR ''a''" for n body
    by (induction n) auto
  then show ?thesis by (simp add: wire_law_def demo_wire_def aead_law_def Let_def)
qed


end
