(* ===== verification/Transfer_Session.thy ===== *)
theory Transfer_Session
  imports Mux_Plan Byte_Ranges Manifest_Check Secure_Pipe
begin

text \<open>
  A transfer session (internal/transfer/session.go): sending the manifest, streams and chunks, and
  turning what arrives on the pipes into events. The state is the session. The messages that the
  goroutines \<open>receivePipe\<close> put into the channel \<open>receiveMessages\<close>, in the order in which they come
  out of it, are the list \<open>ts_receiveMessages\<close>; when it is used up the session waits until its
  context ends, which is the error \<open>CtxDone\<close>. What the session hands to its transports is the list
  \<open>ts_out\<close> of connection numbers and payloads. The time stamp of a message is the argument \<open>now\<close>.
  Path weights are floating point numbers and are not modelled.
\<close>

section \<open>State\<close>

record receivedPipeMessage =
  rp_pipeIndex :: int
  rp_message :: Message
  rp_err :: "pipe_error option"

record TransferSession =
  ts_pipes :: "securePipe list"
  ts_sendManifest :: "Manifest option"
  ts_sendPlan :: "Plan option"
  ts_receiveManifest :: "Manifest option"
  ts_receivePlan :: "Plan option"
  ts_receiveStreams :: Tracker
  ts_compressionState :: "int \<Rightarrow> chunkCompressionState option"
  ts_compressionStats :: CompressionStats
  ts_receiveMessages :: "receivedPipeMessage list"
  ts_deferredMessages :: "receivedPipeMessage list"
  ts_pendingDone :: bool
  ts_receiveEnded :: int
  ts_receiveCoverage :: "int \<Rightarrow> byteRanges option"
  ts_sendChunkCursor :: "int \<Rightarrow> int option"
  ts_striping :: bool
  ts_deferredFileSHA256 :: bool
  ts_out :: "(int \<times> string) list"

datatype sess_error =
    CtxDone
  | PipeErr pipe_error
  | MuxErr mux_error
  | CodecErr chunk_error
  | RangeErr chunk_bounds_error
  | CoverageErr range_error
  | PeerError string
  | UnexpectedMessage string
  | BeforeManifest string
  | ManifestMissingBody
  | ManifestTwice
  | ItemIndexRange int
  | ItemUnboundStream int
  | DuplicateResume int
  | BadChunkData
  | WrongConnection int int
  | ControlOnData string int
  | UnknownMessage string
  | IndexPanic

type_synonym 'a sess_act = "(TransferSession, sess_error, 'a) act"

record TransferEvent =
  ev_Kind :: string
  ev_Manifest :: "Manifest option"
  ev_Resume :: "ResumeEntry list"
  ev_StreamID :: int
  ev_ItemID :: int
  ev_Offset :: int
  ev_Data :: string
  ev_Error :: string
  ev_At :: int

definition newTransferSessionWithPipes :: "securePipe list \<Rightarrow> receivedPipeMessage list \<Rightarrow> TransferSession" where
  "newTransferSessionWithPipes pipes arrivals =
     \<lparr>ts_pipes = pipes, ts_sendManifest = None, ts_sendPlan = None, ts_receiveManifest = None,
      ts_receivePlan = None, ts_receiveStreams = NewTracker None, ts_compressionState = Map.empty,
      ts_compressionStats = \<lparr>cs_OriginalBytes = 0, cs_WireBytes = 0, cs_CompressedChunks = 0\<rparr>,
      ts_receiveMessages = arrivals, ts_deferredMessages = [], ts_pendingDone = False, ts_receiveEnded = 0,
      ts_receiveCoverage = Map.empty, ts_sendChunkCursor = Map.empty,
      ts_striping = (case pipes of [] \<Rightarrow> False | p # _ \<Rightarrow> sp_striping p),
      ts_deferredFileSHA256 = (case pipes of [] \<Rightarrow> False | p # _ \<Rightarrow> sp_deferredFileSHA256 p), ts_out = []\<rparr>"

section \<open>Sending\<close>

text \<open>\<open>Compression\<close>; without a pipe it is the empty string.\<close>

definition Compression :: "TransferSession \<Rightarrow> string" where
  "Compression s = (case ts_pipes s of [] \<Rightarrow> '''' | p # _ \<Rightarrow> sp_compression p)"

definition ConnectionCount :: "TransferSession \<Rightarrow> int" where
  "ConnectionCount s = int (length (ts_pipes s))"

definition StripesChunks :: "TransferSession \<Rightarrow> bool" where
  "StripesChunks s = ts_striping s"

definition DeferredFileSHA256 :: "TransferSession \<Rightarrow> bool" where
  "DeferredFileSHA256 s = ts_deferredFileSHA256 s"

text \<open>
  The position in \<open>pipes\<close> of the pipe for an item. Go's remainder has the sign of the dividend, and
  an index out of range is a run-time panic.
\<close>

definition pipeForItem :: "TransferSession \<Rightarrow> int \<Rightarrow> int option" where
  "pipeForItem s itemID =
     (let n = int (length (ts_pipes s)) in
      if n \<le> 1 then Some 0
      else let k = 1 + itemID smod (n - 1) in if 0 \<le> k \<and> k < n then Some k else None)"

definition chunkPipeForItem :: "int \<Rightarrow> int sess_act" where
  "chunkPipeForItem itemID s =
     (let n = int (length (ts_pipes s)) in
      if \<not> ts_striping s \<or> n \<le> 1 then
        (case pipeForItem s itemID of None \<Rightarrow> (Inl IndexPanic, s) | Some k \<Rightarrow> (Inr k, s))
      else
        let cursor = (case ts_sendChunkCursor s itemID of None \<Rightarrow> itemID | Some c \<Rightarrow> c);
            k = 1 + cursor smod (n - 1)
        in if 0 \<le> k \<and> k < n
           then (Inr k, s\<lparr>ts_sendChunkCursor := (ts_sendChunkCursor s)(itemID \<mapsto> add64 cursor 1)\<rparr>)
           else (Inl IndexPanic, s))"

definition sendStreamForItem :: "TransferSession \<Rightarrow> int \<Rightarrow> (sess_error, int) result" where
  "sendStreamForItem s itemID =
     (case (ts_sendManifest s, ts_sendPlan s) of
        (Some m, Some plan) \<Rightarrow>
          if itemID < 0 \<or> itemID \<ge> int (length (mf_items m)) then Inl (ItemIndexRange itemID)
          else (case StreamForItem (Some plan) itemID of
                  None \<Rightarrow> Inl (ItemUnboundStream itemID)
                | Some streamID \<Rightarrow> Inr streamID)
      | _ \<Rightarrow> Inl (BeforeManifest ''stream operation''))"

definition StreamIDForItem :: "TransferSession \<Rightarrow> int \<Rightarrow> (sess_error, int) result" where
  "StreamIDForItem s itemID = sendStreamForItem s itemID"

definition send_on :: "wire \<Rightarrow> int \<Rightarrow> Message \<Rightarrow> unit sess_act" where
  "send_on w k msg s =
     (case int_nth (ts_pipes s) k of
        None \<Rightarrow> (Inl IndexPanic, s)
      | Some p \<Rightarrow>
          (case sendMessage w msg p of (payload, p') \<Rightarrow>
             (Inr (), s\<lparr>ts_pipes := (ts_pipes s)[nat k := p'], ts_out := ts_out s @ [(k, payload)]\<rparr>)))"

definition SendManifest :: "wire \<Rightarrow> Item list \<Rightarrow> unit sess_act" where
  "SendManifest w items =
     (let plan = NewPlan (length items);
          manifest = the (Apply (Some plan) (Some (NewManifest items)))
      in bind_act (modify (\<lambda>s. s\<lparr>ts_sendManifest := Some manifest, ts_sendPlan := Some plan\<rparr>)) (\<lambda>_.
           send_on w 0 (zero_message\<lparr>msg_type := ''manifest'', msg_version := Version, msg_manifest := Some manifest\<rparr>)))"

definition SendResume :: "wire \<Rightarrow> int \<Rightarrow> ResumeEntry list \<Rightarrow> unit sess_act" where
  "SendResume w now entries =
     send_on w 0 (zero_message\<lparr>msg_type := ''resume'', msg_resume := entries, msg_at := now\<rparr>)"

definition SendResumeAccept :: "wire \<Rightarrow> int \<Rightarrow> ResumeEntry list \<Rightarrow> unit sess_act" where
  "SendResumeAccept w now entries =
     send_on w 0 (zero_message\<lparr>msg_type := ''resume_accept'', msg_resume := entries, msg_at := now\<rparr>)"

definition SendDone :: "wire \<Rightarrow> int \<Rightarrow> unit sess_act" where
  "SendDone w now = send_on w 0 (zero_message\<lparr>msg_type := ''done'', msg_at := now\<rparr>)"

definition SendComplete :: "wire \<Rightarrow> int \<Rightarrow> unit sess_act" where
  "SendComplete w now = send_on w 0 (zero_message\<lparr>msg_type := ''complete'', msg_at := now\<rparr>)"

text \<open>\<open>OpenStream\<close> and \<open>EndStream\<close> differ in the type of their message.\<close>

definition send_stream_frame :: "wire \<Rightarrow> int \<Rightarrow> string \<Rightarrow> int \<Rightarrow> unit sess_act" where
  "send_stream_frame w now kind itemID s =
     (case sendStreamForItem s itemID of
        Inl e \<Rightarrow> (Inl e, s)
      | Inr streamID \<Rightarrow>
          (case pipeForItem s itemID of
             None \<Rightarrow> (Inl IndexPanic, s)
           | Some k \<Rightarrow> send_on w k (zero_message\<lparr>msg_type := kind, msg_item := itemID,
                         msg_stream := Some streamID, msg_at := now\<rparr>) s))"

definition OpenStream :: "wire \<Rightarrow> int \<Rightarrow> int \<Rightarrow> unit sess_act" where
  "OpenStream w now itemID = send_stream_frame w now ''stream_open'' itemID"

definition EndStream :: "wire \<Rightarrow> int \<Rightarrow> int \<Rightarrow> unit sess_act" where
  "EndStream w now itemID = send_stream_frame w now ''stream_end'' itemID"

definition add_stats :: "int \<Rightarrow> int \<Rightarrow> int \<Rightarrow> TransferSession \<Rightarrow> TransferSession" where
  "add_stats original wire chunks s =
     s\<lparr>ts_compressionStats :=
        \<lparr>cs_OriginalBytes = add64 (cs_OriginalBytes (ts_compressionStats s)) original,
         cs_WireBytes = add64 (cs_WireBytes (ts_compressionStats s)) wire,
         cs_CompressedChunks = add64 (cs_CompressedChunks (ts_compressionStats s)) chunks\<rparr>\<rparr>"

definition encodeChunk :: "(string \<Rightarrow> string) \<Rightarrow> int \<Rightarrow> string \<Rightarrow> (string \<times> string) sess_act" where
  "encodeChunk gz itemID data s0 =
     (let len = int (length data); s = add_stats len 0 0 s0 in
      if Compression s \<noteq> compressionGzip then (Inr (data, ''''), add_stats 0 len 0 s)
      else
        let state = (case ts_compressionState s itemID of
                       None \<Rightarrow> \<lparr>ccs_attempts = 0, ccs_misses = 0, ccs_disabled = False\<rparr> | Some st \<Rightarrow> st);
            s1 = s\<lparr>ts_compressionState := (ts_compressionState s)(itemID \<mapsto> state)\<rparr>
        in if ccs_disabled state then (Inr (data, ''''), add_stats 0 len 0 s1)
           else
             case compressGzipChunk gz data of
               Inl e \<Rightarrow> (Inl (CodecErr e), s1)
             | Inr encoded \<Rightarrow>
                 let tried = state\<lparr>ccs_attempts := add64 (ccs_attempts state) 1\<rparr>;
                     elen = int (length encoded)
                 in if compressionWorthwhile len elen then
                      (Inr (encoded, compressionGzip),
                       add_stats 0 elen 1 (s1\<lparr>ts_compressionState := (ts_compressionState s1)(itemID \<mapsto> tried)\<rparr>))
                    else
                      let missed = tried\<lparr>ccs_misses := add64 (ccs_misses tried) 1\<rparr>;
                          final = (if ccs_attempts missed \<ge> 3 \<and> ccs_misses missed = ccs_attempts missed
                                   then missed\<lparr>ccs_disabled := True\<rparr> else missed)
                      in (Inr (data, ''''),
                          add_stats 0 len 0 (s1\<lparr>ts_compressionState := (ts_compressionState s1)(itemID \<mapsto> final)\<rparr>)))"

definition buildChunkMessage :: "(string \<Rightarrow> string) \<Rightarrow> int \<Rightarrow> int \<Rightarrow> int \<Rightarrow> string \<Rightarrow> Message sess_act" where
  "buildChunkMessage gz now itemID offset data =
     bind_act (try_get (\<lambda>e. e) (\<lambda>s. sendStreamForItem s itemID)) (\<lambda>streamID.
     bind_act (encodeChunk gz itemID data) (\<lambda>(payload, encoding).
       ret (zero_message\<lparr>msg_type := ''chunk'', msg_item := itemID, msg_stream := Some streamID,
              msg_offset := offset, msg_data := EncodeToString payload, msg_encoding := encoding, msg_at := now\<rparr>)))"

definition SendChunk :: "wire \<Rightarrow> (string \<Rightarrow> string) \<Rightarrow> int \<Rightarrow> int \<Rightarrow> int \<Rightarrow> string \<Rightarrow> unit sess_act" where
  "SendChunk w gz now itemID offset data =
     bind_act (buildChunkMessage gz now itemID offset data) (\<lambda>message.
     bind_act (chunkPipeForItem itemID) (\<lambda>k. send_on w k message))"

section \<open>Receiving\<close>

definition receiveReady :: "TransferSession \<Rightarrow> bool" where
  "receiveReady s =
     (case ts_receiveManifest s of
        None \<Rightarrow> False
      | Some m \<Rightarrow>
          ts_receiveEnded s = int (length (mf_items m))
          \<and> (\<forall>i\<in>set [0..<length (mf_items m)].
               case ts_receiveCoverage s (int i) of
                 None \<Rightarrow> False | Some ranges \<Rightarrow> Complete ranges (item_size (mf_items m ! i))))"

definition applyReceiveResume :: "ResumeEntry list \<Rightarrow> TransferSession \<Rightarrow> TransferSession" where
  "applyReceiveResume entries s =
     (if ts_receiveManifest s = None then s
      else fold (\<lambda>entry s. s\<lparr>ts_receiveCoverage := (ts_receiveCoverage s)(re_item entry \<mapsto> newByteRanges (re_offset entry))\<rparr>)
             entries s)"

definition receiveFreshMessage :: "receivedPipeMessage sess_act" where
  "receiveFreshMessage s =
     (case ts_receiveMessages s of
        [] \<Rightarrow> (Inl CtxDone, s)
      | r # rs \<Rightarrow>
          (case rp_err r of
             None \<Rightarrow> (Inr r, s\<lparr>ts_receiveMessages := rs\<rparr>)
           | Some e \<Rightarrow> (Inl (PipeErr e), s\<lparr>ts_receiveMessages := rs\<rparr>)))"

definition receiveMessage :: "receivedPipeMessage sess_act" where
  "receiveMessage s =
     (case (ts_receiveManifest s, ts_deferredMessages s) of
        (Some _, r # rs) \<Rightarrow>
          (case rp_err r of
             None \<Rightarrow> (Inr r, s\<lparr>ts_deferredMessages := rs\<rparr>)
           | Some e \<Rightarrow> (Inl (PipeErr e), s\<lparr>ts_deferredMessages := rs\<rparr>))
      | _ \<Rightarrow> receiveFreshMessage s)"

definition pipe_index_for :: "TransferSession \<Rightarrow> int \<Rightarrow> (sess_error, int) result" where
  "pipe_index_for s itemID =
     (case pipeForItem s itemID of
        None \<Rightarrow> Inl IndexPanic
      | Some k \<Rightarrow> (case int_nth (ts_pipes s) k of None \<Rightarrow> Inl IndexPanic | Some p \<Rightarrow> Inr (sp_index p)))"

definition validateMessageChannel :: "TransferSession \<Rightarrow> int \<Rightarrow> Message \<Rightarrow> (sess_error, unit) result" where
  "validateMessageChannel s pipeIndex msg =
     (if msg_type msg = ''chunk'' \<and> ts_striping s \<and> length (ts_pipes s) > 1 then
        (if pipeIndex = 0 \<or> pipeIndex \<ge> int (length (ts_pipes s)) then Inl (WrongConnection pipeIndex (msg_item msg))
         else Inr ())
      else if msg_type msg \<in> {''chunk'', ''stream_open'', ''stream_end''} then
        rbind (pipe_index_for s (msg_item msg)) (\<lambda>expected.
          if pipeIndex \<noteq> expected then Inl (WrongConnection pipeIndex expected) else Inr ())
      else if pipeIndex \<noteq> 0 then Inl (ControlOnData (msg_type msg) pipeIndex)
      else Inr ())"

text \<open>The cases of the switch over the message type; \<open>event\<close> is the event prepared before it.\<close>

definition accept_manifest :: "Message \<Rightarrow> TransferEvent \<Rightarrow> TransferEvent sess_act" where
  "accept_manifest msg event s =
     (case msg_manifest msg of
        None \<Rightarrow> (Inl ManifestMissingBody, s)
      | Some m \<Rightarrow>
          if ts_receiveManifest s \<noteq> None then (Inl ManifestTwice, s)
          else case PlanFromManifest (Some m) of
            Inl e \<Rightarrow> (Inl (MuxErr e), s)
          | Inr plan \<Rightarrow>
              (Inr (event\<lparr>ev_Manifest := Some m\<rparr>),
               s\<lparr>ts_receiveManifest := Some m, ts_receivePlan := Some plan,
                 ts_receiveStreams := NewTracker (Some plan),
                 ts_receiveCoverage := (\<lambda>i. if 0 \<le> i \<and> i < int (length (mf_items m)) then Some (newByteRanges 0) else None)\<rparr>))"

definition bound :: "StreamBinding \<Rightarrow> TransferEvent \<Rightarrow> TransferEvent" where
  "bound b event = event\<lparr>ev_StreamID := sb_id b, ev_ItemID := sb_item b\<rparr>"

definition accept_open :: "Message \<Rightarrow> TransferEvent \<Rightarrow> TransferEvent sess_act" where
  "accept_open msg event s =
     (if ts_receiveManifest s = None then (Inl (BeforeManifest ''stream_open''), s)
      else case AcceptOpen (ts_receiveManifest s) msg (ts_receiveStreams s) of
        Inl e \<Rightarrow> (Inl (MuxErr e), s)
      | Inr (t, b) \<Rightarrow> (Inr (bound b event), s\<lparr>ts_receiveStreams := t\<rparr>))"

definition accept_end :: "Message \<Rightarrow> TransferEvent \<Rightarrow> TransferEvent sess_act" where
  "accept_end msg event s =
     (if ts_receiveManifest s = None then (Inl (BeforeManifest ''stream_end''), s)
      else case AcceptEnd (ts_receiveManifest s) msg (ts_receiveStreams s) of
        Inl e \<Rightarrow> (Inl (MuxErr e), s)
      | Inr (t, b) \<Rightarrow>
          (Inr (bound b event), s\<lparr>ts_receiveStreams := t, ts_receiveEnded := add64 (ts_receiveEnded s) 1\<rparr>))"

definition accept_chunk :: "gunzip_fun \<Rightarrow> Message \<Rightarrow> TransferEvent \<Rightarrow> TransferEvent sess_act" where
  "accept_chunk gunzip msg event s =
     (case ts_receiveManifest s of
        None \<Rightarrow> (Inl (BeforeManifest ''chunk''), s)
      | Some m \<Rightarrow>
          (case (if ts_striping s then AcceptChunkAfterEnd (Some m) msg (ts_receiveStreams s)
                 else AcceptChunk (Some m) msg (ts_receiveStreams s)) of
             Inl e \<Rightarrow> (Inl (MuxErr e), s)
           | Inr b \<Rightarrow>
               (case DecodeString (msg_data msg) of
                  None \<Rightarrow> (Inl BadChunkData, s)
                | Some raw \<Rightarrow>
                    (case decodeTransferChunk gunzip (Compression s) (msg_encoding msg) raw of
                       Inl e \<Rightarrow> (Inl (CodecErr e), s)
                     | Inr data \<Rightarrow>
                         let len = int (length data) in
                         (case validateChunkRange (mf_items m ! nat (sb_item b)) (msg_offset msg) len of
                            Inl e \<Rightarrow> (Inl (RangeErr e), s)
                          | Inr _ \<Rightarrow>
                              (case ts_receiveCoverage s (sb_item b) of
                                 None \<Rightarrow> (Inl IndexPanic, s)
                               | Some ranges \<Rightarrow>
                                   (case Add ranges (msg_offset msg) (add64 (msg_offset msg) len) of
                                      Inl e \<Rightarrow> (Inl (CoverageErr e), s)
                                    | Inr ranges' \<Rightarrow>
                                        (Inr ((bound b event)\<lparr>ev_Data := data\<rparr>),
                                         s\<lparr>ts_receiveCoverage := (ts_receiveCoverage s)(sb_item b \<mapsto> ranges')\<rparr>)))))))) "

definition dispatch :: "gunzip_fun \<Rightarrow> Message \<Rightarrow> TransferEvent sess_act" where
  "dispatch gunzip msg =
     (let event = \<lparr>ev_Kind = msg_type msg, ev_Manifest = None, ev_Resume = [], ev_StreamID = msg_item msg,
                   ev_ItemID = msg_item msg, ev_Offset = msg_offset msg, ev_Data = '''', ev_Error = '''',
                   ev_At = msg_at msg\<rparr>
      in if msg_type msg = ''manifest'' then accept_manifest msg event
         else if msg_type msg = ''resume'' \<or> msg_type msg = ''resume_accept'' then ret (event\<lparr>ev_Resume := msg_resume msg\<rparr>)
         else if msg_type msg = ''stream_open'' then accept_open msg event
         else if msg_type msg = ''chunk'' then accept_chunk gunzip msg event
         else if msg_type msg = ''stream_end'' then accept_end msg event
         else if msg_type msg = ''done'' then
           bind_act (gets ts_receiveManifest) (\<lambda>m. if m = None then throw (BeforeManifest ''done'') else ret event)
         else if msg_type msg = ''complete'' then ret event
         else if msg_type msg = ''error'' then ret (event\<lparr>ev_Error := msg_error msg\<rparr>)
         else throw (UnknownMessage (msg_type msg)))"

text \<open>One round of the loop behind the receipt of a message: \<open>None\<close> is \<open>continue\<close>.\<close>

definition handle_received :: "gunzip_fun \<Rightarrow> receivedPipeMessage \<Rightarrow> TransferEvent option sess_act" where
  "handle_received gunzip r s =
     (let msg = rp_message r in
      if ts_receiveManifest s = None \<and> rp_pipeIndex r \<noteq> 0 then
        (Inr None, s\<lparr>ts_deferredMessages := ts_deferredMessages s @ [r]\<rparr>)
      else case validateMessageChannel s (rp_pipeIndex r) msg of
        Inl e \<Rightarrow> (Inl e, s)
      | Inr _ \<Rightarrow>
          if msg_type msg = ''done'' \<and> ts_receiveManifest s \<noteq> None \<and> \<not> receiveReady s then
            (Inr None, s\<lparr>ts_pendingDone := True\<rparr>)
          else (case dispatch gunzip msg s of (Inl e, s') \<Rightarrow> (Inl e, s') | (Inr ev, s') \<Rightarrow> (Inr (Some ev), s')))"

definition backlog :: "TransferSession \<Rightarrow> nat" where
  "backlog s = 2 * length (ts_receiveMessages s) + length (ts_deferredMessages s)"

definition receive_step :: "gunzip_fun \<Rightarrow> TransferEvent option sess_act" where
  "receive_step gunzip = bind_act receiveMessage (handle_received gunzip)"

lemma receive_step_backlog:
  assumes "receive_step gunzip s = (Inr None, s')"
  shows "backlog s' < backlog s"
proof -
  obtain r s1 where r: "receiveMessage s = (Inr r, s1)" and h: "handle_received gunzip r s1 = (Inr None, s')"
    using assms by (auto simp: receive_step_def bind_act_def split: prod.splits sum.splits)
  have "backlog s1 < backlog s" "ts_receiveManifest s1 = ts_receiveManifest s"
      "ts_receiveManifest s = None \<Longrightarrow> Suc (backlog s1) < backlog s"
    using r by (auto simp: receiveMessage_def receiveFreshMessage_def backlog_def split: option.splits list.splits)
  moreover have "backlog s' = backlog s1 \<or> (ts_receiveManifest s1 = None \<and> backlog s' = Suc (backlog s1))"
    using h by (auto simp: handle_received_def Let_def backlog_def split: if_splits sum.splits prod.splits)
  ultimately show ?thesis by auto
qed

function ReceiveEvent :: "gunzip_fun \<Rightarrow> int \<Rightarrow> TransferEvent sess_act" where
  "ReceiveEvent gunzip now s =
     (if ts_pendingDone s \<and> receiveReady s then
        (Inr \<lparr>ev_Kind = ''done'', ev_Manifest = None, ev_Resume = [], ev_StreamID = 0, ev_ItemID = 0,
              ev_Offset = 0, ev_Data = '''', ev_Error = '''', ev_At = now\<rparr>, s\<lparr>ts_pendingDone := False\<rparr>)
      else case receive_step gunzip s of
        (Inl e, s') \<Rightarrow> (Inl e, s')
      | (Inr (Some ev), s') \<Rightarrow> (Inr ev, s')
      | (Inr None, s') \<Rightarrow> ReceiveEvent gunzip now s')"
  by pat_completeness auto
termination
  by (relation "measure (\<lambda>(gunzip, now, s). backlog s)") (auto intro: receive_step_backlog)

declare ReceiveEvent.simps [simp del]

text \<open>\<open>receiveControlMessage\<close>: what arrives on data connections meanwhile is kept for later.\<close>

fun control_loop :: "receivedPipeMessage list \<Rightarrow> receivedPipeMessage sess_act" where
  "control_loop [] s = (Inl CtxDone, s\<lparr>ts_receiveMessages := []\<rparr>)"
| "control_loop (r # rs) s =
     (case rp_err r of
        Some e \<Rightarrow> (Inl (PipeErr e), s\<lparr>ts_receiveMessages := rs\<rparr>)
      | None \<Rightarrow>
          if rp_pipeIndex r = 0 then
            (case validateMessageChannel s 0 (rp_message r) of
               Inl e \<Rightarrow> (Inl e, s\<lparr>ts_receiveMessages := rs\<rparr>)
             | Inr _ \<Rightarrow> (Inr r, s\<lparr>ts_receiveMessages := rs\<rparr>))
          else control_loop rs (s\<lparr>ts_deferredMessages := ts_deferredMessages s @ [r]\<rparr>))"

definition receiveControlMessage :: "receivedPipeMessage sess_act" where
  "receiveControlMessage s = control_loop (ts_receiveMessages s) s"

text \<open>The loop over resume entries that \<open>WaitResume\<close> and \<open>WaitResumeAccept\<close> share.\<close>

fun resume_loop :: "Plan option \<Rightarrow> string \<Rightarrow> Item list \<Rightarrow> ResumeEntry list \<Rightarrow> int set \<Rightarrow> (sess_error, ResumeEntry list) result" where
  "resume_loop plan what items [] seen = Inr []"
| "resume_loop plan what items (entry # entries) seen =
     (if plan = None then Inl (BeforeManifest what)
      else case ValidateResumeEntry plan items entry of
        Inl e \<Rightarrow> Inl (MuxErr e)
      | Inr offset \<Rightarrow>
          if re_item entry \<in> seen then Inl (DuplicateResume (re_item entry))
          else rbind (resume_loop plan what items entries (insert (re_item entry) seen)) (\<lambda>rest.
            Inr (entry\<lparr>re_offset := offset\<rparr> # rest)))"

definition WaitResume :: "gunzip_fun \<Rightarrow> int \<Rightarrow> Item list \<Rightarrow> ResumeEntry list sess_act" where
  "WaitResume gunzip now items =
     bind_act (ReceiveEvent gunzip now) (\<lambda>event.
       if ev_Kind event = ''error'' then throw (PeerError (ev_Error event))
       else if ev_Kind event \<noteq> ''resume'' then throw (UnexpectedMessage (ev_Kind event))
       else try_get (\<lambda>e. e) (\<lambda>s. resume_loop (ts_sendPlan s) ''resume'' items (ev_Resume event) {}))"

definition WaitResumeAccept :: "Item list \<Rightarrow> ResumeEntry list sess_act" where
  "WaitResumeAccept items =
     bind_act receiveControlMessage (\<lambda>received.
       let msg = rp_message received in
       if msg_type msg = ''error'' then throw (PeerError (msg_error msg))
       else if msg_type msg \<noteq> ''resume_accept'' then throw (UnexpectedMessage (msg_type msg))
       else bind_act (try_get (\<lambda>e. e) (\<lambda>s. resume_loop (ts_receivePlan s) ''resume_accept'' items (msg_resume msg) {})) (\<lambda>entries.
         bind_act (modify (applyReceiveResume entries)) (\<lambda>_. ret entries)))"

definition WaitComplete :: "gunzip_fun \<Rightarrow> int \<Rightarrow> unit sess_act" where
  "WaitComplete gunzip now =
     bind_act (ReceiveEvent gunzip now) (\<lambda>event.
       if ev_Kind event = ''error'' then throw (PeerError (ev_Error event))
       else guard_act (ev_Kind event = ''complete'') (UnexpectedMessage (ev_Kind event)))"

end
