(* ===== verification/Session_Safety.thy ===== *)
theory Session_Safety
  imports Transfer_Session
begin

text \<open>
  What a receiving session guarantees about the events it hands out. A receiver calls
  \<open>ReceiveEvent\<close> and \<open>WaitResumeAccept\<close>; the log records what the calls returned. The invariant
  relates the log to the session's tracker, its counter of ended streams and its coverage.
\<close>

section \<open>Runs of a receiving session\<close>

datatype sess_call = CallEvent int | CallAccept

datatype sess_answer = Got TransferEvent | Accepted "ResumeEntry list"

text \<open>\<open>WaitResumeAccept\<close> is called with the items of the manifest that was received.\<close>

definition manifest_items :: "TransferSession \<Rightarrow> Item list" where
  "manifest_items s = (case ts_receiveManifest s of None \<Rightarrow> [] | Some m \<Rightarrow> mf_items m)"

primrec call_session :: "gunzip_fun \<Rightarrow> sess_call \<Rightarrow> sess_answer sess_act" where
  "call_session gunzip (CallEvent now) = bind_act (ReceiveEvent gunzip now) (\<lambda>ev. ret (Got ev))"
| "call_session gunzip CallAccept =
     bind_act (gets manifest_items) (\<lambda>items. bind_act (WaitResumeAccept items) (\<lambda>es. ret (Accepted es)))"

fun run_session :: "gunzip_fun \<Rightarrow> sess_call list \<Rightarrow> sess_answer list sess_act" where
  "run_session gunzip [] = ret []"
| "run_session gunzip (c # cs) =
     bind_act (call_session gunzip c) (\<lambda>a. bind_act (run_session gunzip cs) (\<lambda>as. ret (a # as)))"

definition is_event :: "string \<Rightarrow> int \<Rightarrow> sess_answer \<Rightarrow> bool" where
  "is_event kind i a \<longleftrightarrow> (case a of Got ev \<Rightarrow> ev_Kind ev = kind \<and> ev_ItemID ev = i | Accepted _ \<Rightarrow> False)"

definition times :: "string \<Rightarrow> int \<Rightarrow> sess_answer list \<Rightarrow> nat" where
  "times kind i log = length (filter (is_event kind i) log)"

text \<open>The offset item \<open>i\<close> was last resumed at and the byte ranges its chunks carried since.\<close>

definition log_step :: "int \<Rightarrow> int \<times> (int \<times> int) list \<Rightarrow> sess_answer \<Rightarrow> int \<times> (int \<times> int) list" where
  "log_step i acc a =
     (case a of
        Got ev \<Rightarrow>
          if ev_Kind ev = ''chunk'' \<and> ev_ItemID ev = i
          then (fst acc, snd acc @ [(ev_Offset ev, add64 (ev_Offset ev) (int (length (ev_Data ev))))]) else acc
      | Accepted es \<Rightarrow>
          let mine = filter (\<lambda>e. re_item e = i) es in if mine = [] then acc else (re_offset (last mine), []))"

definition resumed_chunks :: "int \<Rightarrow> sess_answer list \<Rightarrow> int \<times> (int \<times> int) list" where
  "resumed_chunks i log = foldl (log_step i) (0, []) log"

lemma times_snoc [simp]: "times kind i (log @ [a]) = times kind i log + (if is_event kind i a then 1 else 0)"
  by (simp add: times_def)

lemma times_Nil [simp]: "times kind i [] = 0"
  by (simp add: times_def)

lemma resumed_chunks_snoc [simp]: "resumed_chunks i (log @ [a]) = log_step i (resumed_chunks i log) a"
  by (simp add: resumed_chunks_def)

lemma resumed_chunks_Nil [simp]: "resumed_chunks i [] = (0, [])"
  by (simp add: resumed_chunks_def)

section \<open>Invariant\<close>

lemma wrap64_add1: "wrap64 (1 + wrap64 x) = wrap64 (1 + x)" "wrap64 (wrap64 x + 1) = wrap64 (x + 1)"
  by (simp_all add: wrap64_def algebra_simps mod_simps)

definition stream_of :: "TransferSession \<Rightarrow> int \<Rightarrow> StreamState" where
  "stream_of s i = tracker_state (ts_receiveStreams s) (the (StreamForItem (ts_receivePlan s) i))"

definition item_ok :: "sess_answer list \<Rightarrow> TransferSession \<Rightarrow> Item \<Rightarrow> int \<Rightarrow> bool" where
  "item_ok log s item i \<longleftrightarrow>
     times ''stream_open'' i log = of_bool (ss_opened (stream_of s i))
     \<and> times ''stream_end'' i log = of_bool (ss_ended (stream_of s i))
     \<and> (ss_ended (stream_of s i) \<longrightarrow> ss_opened (stream_of s i))
     \<and> (\<exists>rs. ts_receiveCoverage s i = Some rs \<and>
          (case resumed_chunks i log of (n, cs) \<Rightarrow>
             foldM (\<lambda>(b, e) rs. Add rs b e) cs (newByteRanges n) = Inr rs
             \<and> n \<le> max 0 (item_size item) \<and> (\<forall>(b, e)\<in>set cs. e \<le> item_size item)))"

definition quiet :: "sess_answer list \<Rightarrow> bool" where
  "quiet log \<longleftrightarrow> (\<forall>i. times ''stream_open'' i log = 0 \<and> times ''stream_end'' i log = 0 \<and> resumed_chunks i log = (0, []))"

definition sess_inv :: "sess_answer list \<Rightarrow> TransferSession \<Rightarrow> bool" where
  "sess_inv log s \<longleftrightarrow>
     (case ts_receiveManifest s of
        None \<Rightarrow> quiet log \<and> ts_receiveEnded s = 0 \<and> ts_receivePlan s = None
      | Some m \<Rightarrow>
          \<exists>plan. plan_ok (length (mf_items m)) plan \<and> ts_receivePlan s = Some plan \<and> tr_plan (ts_receiveStreams s) = Some plan
            \<and> ts_receiveEnded s = wrap64 (int (card {i \<in> {0..<int (length (mf_items m))}. ss_ended (stream_of s i)}))
            \<and> (\<forall>i\<in>{0..<int (length (mf_items m))}. item_ok log s (mf_items m ! nat i) i))"

text \<open>The fields of a session the invariant reads.\<close>

definition same_receiver :: "TransferSession \<Rightarrow> TransferSession \<Rightarrow> bool" where
  "same_receiver s t \<longleftrightarrow> ts_receiveManifest t = ts_receiveManifest s \<and> ts_receivePlan t = ts_receivePlan s
     \<and> ts_receiveStreams t = ts_receiveStreams s \<and> ts_receiveEnded t = ts_receiveEnded s
     \<and> ts_receiveCoverage t = ts_receiveCoverage s \<and> ts_striping t = ts_striping s"

lemma same_receiver_trans: "same_receiver s t \<Longrightarrow> same_receiver t u \<Longrightarrow> same_receiver s u"
  by (simp add: same_receiver_def)

lemma sess_inv_same: "same_receiver s t \<Longrightarrow> sess_inv log t = sess_inv log s"
  by (simp add: same_receiver_def sess_inv_def item_ok_def stream_of_def cong: option.case_cong)

lemma receiveReady_same: "same_receiver s t \<Longrightarrow> receiveReady t = receiveReady s"
  by (simp add: same_receiver_def receiveReady_def cong: option.case_cong)

lemma receiveMessage_same: "receiveMessage s = (r, t) \<Longrightarrow> same_receiver s t"
  by (auto simp: receiveMessage_def receiveFreshMessage_def same_receiver_def split: option.splits list.splits)

lemma control_loop_same: "control_loop rs s = (r, t) \<Longrightarrow> same_receiver s t"
proof (induction rs arbitrary: s)
  case (Cons x rs)
  show ?case
  proof (cases "rp_err x = None \<and> rp_pipeIndex x \<noteq> 0")
    case True
    with Cons.prems have "control_loop rs (s\<lparr>ts_deferredMessages := ts_deferredMessages s @ [x]\<rparr>) = (r, t)" by simp
    from Cons.IH [OF this] show ?thesis by (simp add: same_receiver_def)
  next
    case False
    with Cons.prems show ?thesis by (auto simp: same_receiver_def split: option.splits sum.splits if_splits)
  qed
qed (auto simp: same_receiver_def)

text \<open>An answer that is neither a chunk nor an opened or ended stream changes nothing in the log's summary.\<close>

lemma item_ok_silent:
  assumes "\<forall>i. \<not> is_event ''stream_open'' i a \<and> \<not> is_event ''stream_end'' i a \<and> log_step i (resumed_chunks i log) a = resumed_chunks i log"
  shows "item_ok (log @ [a]) s item i = item_ok log s item i" "quiet (log @ [a]) = quiet log"
  using assms by (simp_all add: item_ok_def quiet_def)

lemma sess_inv_silent:
  assumes "\<forall>i. \<not> is_event ''stream_open'' i a \<and> \<not> is_event ''stream_end'' i a \<and> log_step i (resumed_chunks i log) a = resumed_chunks i log"
  shows "sess_inv (log @ [a]) s = sess_inv log s"
  using item_ok_silent [OF assms] by (simp add: sess_inv_def cong: option.case_cong)

lemma silent_kind:
  "ev_Kind ev \<notin> {''stream_open'', ''stream_end'', ''chunk''} \<Longrightarrow>
     \<forall>i. \<not> is_event ''stream_open'' i (Got ev) \<and> \<not> is_event ''stream_end'' i (Got ev) \<and> log_step i (acc i) (Got ev) = acc i"
  by (simp add: is_event_def log_step_def)

text \<open>Only opened streams are ended.\<close>

lemma ended_opened:
  "sess_inv log s \<Longrightarrow> ts_receiveManifest s = Some m \<Longrightarrow> 0 \<le> i \<Longrightarrow> i < int (length (mf_items m))
    \<Longrightarrow> ss_ended (stream_of s i) \<Longrightarrow> ss_opened (stream_of s i)"
  by (auto simp: sess_inv_def item_ok_def)

section \<open>Every event keeps the invariant\<close>

lemma plan_stream_inj:
  assumes "plan_ok n plan" "StreamForItem (Some plan) i = Some k" "StreamForItem (Some plan) j = Some k"
  shows "i = j"
  using assms by (metis StreamForItem_def option.inject option.simps(5) plan_ok_def)

lemma accept_manifest_inv:
  assumes "accept_manifest msg ev s = (Inr ev', s')" and inv: "sess_inv log s" and kind: "ev_Kind ev = ''manifest''"
  shows "sess_inv (log @ [Got ev']) s'"
proof -
  obtain m plan where m: "ts_receiveManifest s = None" "msg_manifest msg = Some m" "PlanFromManifest (Some m) = Inr plan"
      "ev' = ev\<lparr>ev_Manifest := Some m\<rparr>"
      "s' = s\<lparr>ts_receiveManifest := Some m, ts_receivePlan := Some plan, ts_receiveStreams := NewTracker (Some plan),
           ts_receiveCoverage := (\<lambda>i. if 0 \<le> i \<and> i < int (length (mf_items m)) then Some (newByteRanges 0) else None)\<rparr>"
    using assms(1) by (auto simp: accept_manifest_def split: option.splits if_splits sum.splits)
  have q: "quiet log" "ts_receiveEnded s = 0" using inv m(1) by (auto simp: sess_inv_def)
  have "quiet (log @ [Got ev'])"
    using q(1) kind by (subst item_ok_silent) (simp_all add: m(4) is_event_def log_step_def)
  then show ?thesis
    using q(2) PlanFromManifest_plan_ok [OF m(3)]
    by (auto simp: m(5) sess_inv_def item_ok_def quiet_def stream_of_def NewTracker_def tracker_state_def wrap64_def)
qed

text \<open>
  A frame for item \<open>j\<close> that replaces the state of its stream by \<open>st\<close>: what is left of the other
  items is as before.
\<close>

lemma frame_stream:
  assumes "plan_ok n plan" "ts_receivePlan s = Some plan" "StreamForItem (Some plan) j = Some k" "i \<in> {0..<int n}"
    and "s' = s\<lparr>ts_receiveStreams := (ts_receiveStreams s)\<lparr>tr_states := (tr_states (ts_receiveStreams s))(k \<mapsto> st)\<rparr>,
                 ts_receiveEnded := ended\<rparr>"
  shows "stream_of s' i = (if i = j then st else stream_of s i)"
proof -
  have "byItem plan i \<noteq> None" using assms(1,4) unfolding plan_ok_def by blast
  then obtain l where l: "StreamForItem (Some plan) i = Some l" by (auto simp: StreamForItem_def)
  with plan_stream_inj [OF assms(1,3), of i] have "l = k \<longleftrightarrow> i = j" using assms(3) by auto
  then show ?thesis using assms(2,3,5) l by (simp add: stream_of_def)
qed

lemma frame_inv:
  assumes inv: "sess_inv log s" and m: "ts_receiveManifest s = Some m" and plan: "ts_receivePlan s = Some plan"
    and j: "0 \<le> j" "j < int (length (mf_items m))" "StreamForItem (Some plan) j = Some k"
    and s': "s' = s\<lparr>ts_receiveStreams := (ts_receiveStreams s)\<lparr>tr_states := (tr_states (ts_receiveStreams s))(k \<mapsto> st)\<rparr>,
                 ts_receiveEnded := ended\<rparr>"
    and a: "\<And>i. log_step i (resumed_chunks i log) a = resumed_chunks i log"
      "\<And>i. i \<noteq> j \<Longrightarrow> \<not> is_event ''stream_open'' i a \<and> \<not> is_event ''stream_end'' i a"
    and opn: "of_bool (ss_opened st) = of_bool (ss_opened (stream_of s j)) + (if is_event ''stream_open'' j a then 1 else 0 :: nat)"
    and clo: "of_bool (ss_ended st) = of_bool (ss_ended (stream_of s j)) + (if is_event ''stream_end'' j a then 1 else 0 :: nat)"
    and lawful: "ss_ended st \<Longrightarrow> ss_opened st"
    and ended: "ended = (if is_event ''stream_end'' j a then add64 (ts_receiveEnded s) 1 else ts_receiveEnded s)"
  shows "sess_inv (log @ [a]) s'"
proof -
  let ?n = "length (mf_items m)"
  have p: "plan_ok ?n plan" "tr_plan (ts_receiveStreams s) = Some plan"
      "ts_receiveEnded s = wrap64 (int (card {i \<in> {0..<int ?n}. ss_ended (stream_of s i)}))"
      "\<forall>i\<in>{0..<int ?n}. item_ok log s (mf_items m ! nat i) i"
    using inv m plan by (auto simp: sess_inv_def)
  have st: "stream_of s' i = (if i = j then st else stream_of s i)" if "i \<in> {0..<int ?n}" for i
    by (rule frame_stream [OF p(1) plan j(3) that s'])
  have items: "item_ok (log @ [a]) s' (mf_items m ! nat i) i" if "i \<in> {0..<int ?n}" for i
    using p(4) [rule_format, OF that] st [OF that] a(1) a(2) [of i] opn clo lawful
    by (auto simp: item_ok_def s')
  have "ts_receiveEnded s' = wrap64 (int (card {i \<in> {0..<int ?n}. ss_ended (stream_of s' i)}))"
  proof (cases "is_event ''stream_end'' j a")
    case True
    then have e: "ss_ended st" "\<not> ss_ended (stream_of s j)" using clo by (auto simp: of_bool_def split: if_splits)
    have "{i \<in> {0..<int ?n}. ss_ended (stream_of s' i)} = insert j {i \<in> {0..<int ?n}. ss_ended (stream_of s i)}"
      using st e(1) j(1,2) by auto
    moreover have "finite {i \<in> {0..<int ?n}. ss_ended (stream_of s i)}" by (rule finite_Collect_conjI) simp
    ultimately have "card {i \<in> {0..<int ?n}. ss_ended (stream_of s' i)} = Suc (card {i \<in> {0..<int ?n}. ss_ended (stream_of s i)})"
      using e(2) card_insert_disjoint by (metis (no_types, lifting) mem_Collect_eq)
    then show ?thesis using True ended p(3) s' by (simp add: add64_def wrap64_add1 add.commute)
  next
    case False
    then have "ss_ended st = ss_ended (stream_of s j)" using clo by (auto simp: of_bool_def split: if_splits)
    then have "{i \<in> {0..<int ?n}. ss_ended (stream_of s' i)} = {i \<in> {0..<int ?n}. ss_ended (stream_of s i)}"
      using st by (auto split: if_splits)
    then show ?thesis using False ended p(3) s' by simp
  qed
  with items p m plan show ?thesis by (auto simp: sess_inv_def s')
qed

lemma accept_open_inv:
  assumes "accept_open msg ev s = (Inr ev', s')" and inv: "sess_inv log s" and kind: "ev_Kind ev = ''stream_open''"
  shows "sess_inv (log @ [Got ev']) s'"
proof -
  obtain m where m: "ts_receiveManifest s = Some m"
    using assms(1) by (auto simp: accept_open_def split: if_splits)
  obtain plan where plan: "ts_receivePlan s = Some plan" "tr_plan (ts_receiveStreams s) = Some plan"
    using inv m by (auto simp: sess_inv_def)
  obtain t b where acc: "AcceptOpen (Some m) msg (ts_receiveStreams s) = Inr (t, b)"
      and ev': "ev' = bound b ev" "s' = s\<lparr>ts_receiveStreams := t\<rparr>"
    using assms(1) m by (auto simp: accept_open_def split: sum.splits)
  note o = AcceptOpen_Inr [OF acc, unfolded ResolveFrame_Inr plan(2)]
  have j: "0 \<le> sb_item b" "sb_item b < int (length (mf_items m))" "StreamForItem (Some plan) (sb_item b) = Some (sb_id b)"
    using o by auto
  show ?thesis
  proof (rule frame_inv [OF inv m plan(1) j])
    show "s' = s\<lparr>ts_receiveStreams := (ts_receiveStreams s)\<lparr>tr_states := (tr_states (ts_receiveStreams s))(sb_id b \<mapsto>
        \<lparr>ss_item = sb_item b, ss_opened = True, ss_ended = False\<rparr>)\<rparr>, ts_receiveEnded := ts_receiveEnded s\<rparr>"
      using o ev'(2) by simp
    have "\<not> ss_ended (stream_of s (sb_item b))"
    proof
      assume "ss_ended (stream_of s (sb_item b))"
      moreover have "\<not> ss_opened (stream_of s (sb_item b))" using o plan(1) j(3) by (simp add: stream_of_def)
      ultimately show False using ended_opened [OF inv m] j(1,2) by simp
    qed
    then show "of_bool (ss_ended \<lparr>ss_item = sb_item b, ss_opened = True, ss_ended = False\<rparr>) =
        of_bool (ss_ended (stream_of s (sb_item b))) + (if is_event ''stream_end'' (sb_item b) (Got ev') then 1 else 0 :: nat)"
      by (simp add: ev'(1) bound_def is_event_def kind)
  qed (use o plan(1) j(3) in \<open>auto simp: ev'(1) bound_def is_event_def log_step_def kind stream_of_def\<close>)
qed

lemma accept_end_inv:
  assumes "accept_end msg ev s = (Inr ev', s')" and inv: "sess_inv log s" and kind: "ev_Kind ev = ''stream_end''"
  shows "sess_inv (log @ [Got ev']) s'"
proof -
  obtain m where m: "ts_receiveManifest s = Some m"
    using assms(1) by (auto simp: accept_end_def split: if_splits)
  obtain plan where plan: "ts_receivePlan s = Some plan" "tr_plan (ts_receiveStreams s) = Some plan"
    using inv m by (auto simp: sess_inv_def)
  obtain t b where acc: "AcceptEnd (Some m) msg (ts_receiveStreams s) = Inr (t, b)"
      and ev': "ev' = bound b ev" "s' = s\<lparr>ts_receiveStreams := t, ts_receiveEnded := add64 (ts_receiveEnded s) 1\<rparr>"
    using assms(1) m by (auto simp: accept_end_def split: sum.splits)
  note o = AcceptEnd_Inr [OF acc, unfolded ResolveFrame_Inr plan(2)]
  have j: "0 \<le> sb_item b" "sb_item b < int (length (mf_items m))" "StreamForItem (Some plan) (sb_item b) = Some (sb_id b)"
    using o by auto
  show ?thesis
    by (rule frame_inv [OF inv m plan(1) j,
          where st = "(tracker_state (ts_receiveStreams s) (sb_id b))\<lparr>ss_ended := True\<rparr>" and ended = "add64 (ts_receiveEnded s) 1"])
      (use o plan(1) j(3) in \<open>auto simp: ev' bound_def is_event_def log_step_def kind stream_of_def\<close>)
qed

lemma accept_chunk_inv:
  assumes "accept_chunk gunzip msg ev s = (Inr ev', s')" and inv: "sess_inv log s"
    and kind: "ev_Kind ev = ''chunk''" "ev_Offset ev = msg_offset msg"
  shows "sess_inv (log @ [Got ev']) s'"
proof -
  obtain m where m: "ts_receiveManifest s = Some m"
    using assms(1) by (auto simp: accept_chunk_def split: option.splits)
  obtain plan where plan: "ts_receivePlan s = Some plan" "tr_plan (ts_receiveStreams s) = Some plan"
    using inv m by (auto simp: sess_inv_def)
  obtain b data rs rs' where
      acc: "acceptChunk (ts_striping s) (Some m) msg (ts_receiveStreams s) = Inr b"
      and range: "validateChunkRange (mf_items m ! nat (sb_item b)) (msg_offset msg) (int (length data)) = Inr ()"
      and cov: "ts_receiveCoverage s (sb_item b) = Some rs"
      and add: "Add rs (msg_offset msg) (add64 (msg_offset msg) (int (length data))) = Inr rs'"
      and ev': "ev' = (bound b ev)\<lparr>ev_Data := data\<rparr>"
      and s': "s' = s\<lparr>ts_receiveCoverage := (ts_receiveCoverage s)(sb_item b \<mapsto> rs')\<rparr>"
    using assms(1) m by (cases "ts_striping s") (auto simp: accept_chunk_def AcceptChunk_def AcceptChunkAfterEnd_def Let_def
        split: option.splits sum.splits)
  have j: "0 \<le> sb_item b" "sb_item b < int (length (mf_items m))"
    using acceptChunk_Inr [OF acc] by (auto simp: ResolveFrame_Inr)
  have stop: "add64 (msg_offset msg) (int (length data)) \<le> item_size (mf_items m ! nat (sb_item b))"
    using range by (auto simp: validateChunkRange_def Let_def split: if_splits)
  have st: "stream_of s' i = stream_of s i" for i by (simp add: s' stream_of_def)
  have cov': "ts_receiveCoverage s' = (ts_receiveCoverage s)(sb_item b \<mapsto> rs')" by (simp add: s')
  have "item_ok (log @ [Got ev']) s' (mf_items m ! nat i) i" if "item_ok log s (mf_items m ! nat i) i" for i
    using that cov add stop
    by (cases "resumed_chunks i log")
      (auto simp: item_ok_def st cov' ev' bound_def is_event_def log_step_def kind foldM_snoc)
  moreover have "ts_receiveManifest s' = Some m" "ts_receivePlan s' = ts_receivePlan s"
      "ts_receiveStreams s' = ts_receiveStreams s" "ts_receiveEnded s' = ts_receiveEnded s"
    by (simp_all add: s' m)
  ultimately show ?thesis using inv m plan by (auto simp: sess_inv_def st)
qed

lemma dispatch_inv:
  assumes "dispatch gunzip msg s = (Inr ev, s')" and "sess_inv log s"
  shows "sess_inv (log @ [Got ev]) s' \<and> ev_Kind ev = msg_type msg \<and> (msg_type msg = ''done'' \<longrightarrow> s' = s)"
proof -
  define ev0 where "ev0 = \<lparr>ev_Kind = msg_type msg, ev_Manifest = None, ev_Resume = [], ev_StreamID = msg_item msg,
      ev_ItemID = msg_item msg, ev_Offset = msg_offset msg, ev_Data = '''', ev_Error = '''', ev_At = msg_at msg\<rparr>"
  have ev0: "ev_Kind ev0 = msg_type msg" "ev_Offset ev0 = msg_offset msg" by (simp_all add: ev0_def)
  note d = assms(1) [unfolded dispatch_def Let_def ev0_def [symmetric]]
  consider (manifest) "msg_type msg = ''manifest''" "accept_manifest msg ev0 s = (Inr ev, s')"
    | (opened) "msg_type msg = ''stream_open''" "accept_open msg ev0 s = (Inr ev, s')"
    | (chunk) "msg_type msg = ''chunk''" "accept_chunk gunzip msg ev0 s = (Inr ev, s')"
    | (ended) "msg_type msg = ''stream_end''" "accept_end msg ev0 s = (Inr ev, s')"
    | (other) "msg_type msg \<notin> {''stream_open'', ''stream_end'', ''chunk''}" "s' = s" "ev_Kind ev = msg_type msg"
    using d ev0 by (auto simp: ret_def throw_def bind_act_def gets_def split: if_splits)
  then show ?thesis
  proof cases
    case manifest
    with accept_manifest_inv [OF _ assms(2)] ev0 show ?thesis
      by (auto simp: accept_manifest_def split: option.splits if_splits sum.splits)
  next
    case opened
    with accept_open_inv [OF _ assms(2)] ev0 show ?thesis
      by (auto simp: accept_open_def bound_def split: if_splits sum.splits)
  next
    case chunk
    with accept_chunk_inv [OF chunk(2) assms(2)] ev0 show ?thesis
      by (auto simp: accept_chunk_def bound_def Let_def split: option.splits if_splits sum.splits)
  next
    case ended
    with accept_end_inv [OF _ assms(2)] ev0 show ?thesis
      by (auto simp: accept_end_def bound_def split: if_splits sum.splits)
  next
    case other
    then show ?thesis using sess_inv_silent [OF silent_kind] assms(2) by simp
  qed
qed

lemma handle_received_inv:
  assumes "handle_received gunzip r s = (Inr res, s')" and "sess_inv log s"
  shows "case res of None \<Rightarrow> same_receiver s s'
    | Some ev \<Rightarrow> sess_inv (log @ [Got ev]) s' \<and> (ev_Kind ev = ''done'' \<longrightarrow> receiveReady s')"
proof (cases res)
  case None
  with assms(1) show ?thesis
    by (auto simp: handle_received_def Let_def same_receiver_def split: if_splits sum.splits prod.splits)
next
  case (Some ev)
  then have d: "dispatch gunzip (rp_message r) s = (Inr ev, s')"
      and ready: "msg_type (rp_message r) = ''done'' \<Longrightarrow> ts_receiveManifest s \<noteq> None \<Longrightarrow> receiveReady s"
    using assms(1) by (auto simp: handle_received_def Let_def split: if_splits sum.splits prod.splits)
  have "ts_receiveManifest s \<noteq> None" if "msg_type (rp_message r) = ''done''"
    using d that by (auto simp: dispatch_def bind_act_def gets_def throw_def split: if_splits)
  with dispatch_inv [OF d assms(2)] ready Some show ?thesis by auto
qed

lemma ReceiveEvent_inv:
  assumes "ReceiveEvent gunzip now s = (Inr ev, s')" and "sess_inv log s"
  shows "sess_inv (log @ [Got ev]) s' \<and> (ev_Kind ev = ''done'' \<longrightarrow> receiveReady s')"
  using assms
proof (induction gunzip now s rule: ReceiveEvent.induct)
  case (1 gunzip now s)
  show ?case
  proof (cases "ts_pendingDone s \<and> receiveReady s")
    case True
    with "1.prems"(1) have ev: "ev_Kind ev = ''done''" and s': "s' = s\<lparr>ts_pendingDone := False\<rparr>"
      by (auto simp: ReceiveEvent.simps [of gunzip now s])
    have same: "same_receiver s s'" by (simp add: s' same_receiver_def)
    have "sess_inv (log @ [Got ev]) s' = sess_inv log s'" by (rule sess_inv_silent [OF silent_kind]) (simp add: ev)
    then show ?thesis
      using True "1.prems"(2) sess_inv_same [OF same] receiveReady_same [OF same] by simp
  next
    case False
    note body = "1.prems"(1) [unfolded ReceiveEvent.simps [of gunzip now s] if_not_P [OF False]]
    obtain res s1 where step: "receive_step gunzip s = (Inr res, s1)"
      using body by (auto split: sum.splits prod.splits)
    then obtain r s0 where r: "receiveMessage s = (Inr r, s0)" and h: "handle_received gunzip r s0 = (Inr res, s1)"
      by (auto simp: receive_step_def bind_act_def split: sum.splits prod.splits)
    have inv0: "sess_inv log s0" using "1.prems"(2) sess_inv_same [OF receiveMessage_same [OF r]] by simp
    note hi = handle_received_inv [OF h inv0]
    show ?thesis
    proof (cases res)
      case None
      with step body have again: "ReceiveEvent gunzip now s1 = (Inr ev, s')" by simp
      have "sess_inv log s1" using hi None inv0 sess_inv_same by auto
      from "1.IH" [OF False step [symmetric] refl _ again this] None show ?thesis by simp
    next
      case (Some ev1)
      with step body have "ev1 = ev" "s1 = s'" by simp_all
      with hi Some show ?thesis by simp
    qed
  qed
qed

section \<open>Accepted resume entries\<close>

lemma resume_loop_entries:
  assumes "resume_loop plan what items es seen = Inr es'" and "e \<in> set es'"
  shows "\<exists>e0. ValidateResumeEntry plan items e0 = Inr (re_offset e) \<and> re_item e0 = re_item e \<and> plan \<noteq> None"
  using assms
proof (induction es arbitrary: es' seen)
  case (Cons x es)
  then show ?case by (fastforce simp: result_simps split: if_splits sum.splits)
qed simp

lemma resumed_coverage:
  assumes "ts_receiveManifest s = Some m"
  shows "ts_receiveCoverage (applyReceiveResume es s) i =
    (let mine = filter (\<lambda>e. re_item e = i) es
     in if mine = [] then ts_receiveCoverage s i else Some (newByteRanges (re_offset (last mine))))"
  using assms by (induction es rule: rev_induct) (auto simp: applyReceiveResume_def Let_def)

lemma applyReceiveResume_same:
  "ts_receiveManifest (applyReceiveResume es s) = ts_receiveManifest s"
  "ts_receivePlan (applyReceiveResume es s) = ts_receivePlan s"
  "ts_receiveStreams (applyReceiveResume es s) = ts_receiveStreams s"
  "ts_receiveEnded (applyReceiveResume es s) = ts_receiveEnded s"
proof -
  have "ts_receiveManifest (applyReceiveResume es s) = ts_receiveManifest s
    \<and> ts_receivePlan (applyReceiveResume es s) = ts_receivePlan s
    \<and> ts_receiveStreams (applyReceiveResume es s) = ts_receiveStreams s
    \<and> ts_receiveEnded (applyReceiveResume es s) = ts_receiveEnded s"
    by (induction es rule: rev_induct) (auto simp: applyReceiveResume_def)
  then show "ts_receiveManifest (applyReceiveResume es s) = ts_receiveManifest s"
    "ts_receivePlan (applyReceiveResume es s) = ts_receivePlan s"
    "ts_receiveStreams (applyReceiveResume es s) = ts_receiveStreams s"
    "ts_receiveEnded (applyReceiveResume es s) = ts_receiveEnded s" by auto
qed

lemma WaitResumeAccept_Inr:
  assumes "WaitResumeAccept items s = (Inr es, s')"
  obtains s1 es0 where "same_receiver s s1" "resume_loop (ts_receivePlan s1) ''resume_accept'' items es0 {} = Inr es"
    "s' = applyReceiveResume es s1"
proof -
  obtain r s1 where r: "receiveControlMessage s = (Inr r, s1)"
    using assms by (auto simp: WaitResumeAccept_def bind_act_def split: sum.splits prod.splits)
  have "same_receiver s s1" using r control_loop_same by (simp add: receiveControlMessage_def)
  moreover have "resume_loop (ts_receivePlan s1) ''resume_accept'' items (msg_resume (rp_message r)) {} = Inr es"
      "s' = applyReceiveResume es s1"
    using assms r by (auto simp: WaitResumeAccept_def bind_act_def Let_def throw_def try_get_def modify_def ret_def
        split: sum.splits prod.splits if_splits)
  ultimately show ?thesis by (rule that)
qed

lemma WaitResumeAccept_inv:
  assumes "WaitResumeAccept (manifest_items s) s = (Inr es, s')" and inv: "sess_inv log s"
  shows "sess_inv (log @ [Accepted es]) s'"
proof -
  obtain s1 es0 where s1: "same_receiver s s1" "resume_loop (ts_receivePlan s1) ''resume_accept'' (manifest_items s) es0 {} = Inr es"
      "s' = applyReceiveResume es s1"
    by (rule WaitResumeAccept_Inr [OF assms(1)])
  have inv1: "sess_inv log s1" using inv sess_inv_same [OF s1(1)] by simp
  have silent: "\<not> is_event k i (Accepted es)" for k i by (simp add: is_event_def)
  show ?thesis
  proof (cases "ts_receiveManifest s")
    case None
    then have "ts_receivePlan s1 = None" using inv s1(1) by (simp add: sess_inv_def same_receiver_def)
    then have "es = []" using resume_loop_entries [OF s1(2)] by (cases es) auto
    then have "sess_inv (log @ [Accepted es]) s1" using inv1 by (subst sess_inv_silent) (simp_all add: is_event_def log_step_def)
    with \<open>es = []\<close> s1(3) show ?thesis by (simp add: applyReceiveResume_def)
  next
    case (Some m)
    have m: "ts_receiveManifest s1 = Some m" using Some s1(1) by (simp add: same_receiver_def)
    have "re_offset e \<le> max 0 (item_size (mf_items m ! nat (re_item e)))" if mem: "e \<in> set es" for e
    proof -
      obtain e0 where "ValidateResumeEntry (ts_receivePlan s1) (mf_items m) e0 = Inr (re_offset e)" "re_item e0 = re_item e"
        using resume_loop_entries [OF s1(2) mem] by (auto simp: manifest_items_def Some)
      from ValidateResumeEntry_Inr(4) [OF this(1)] this(2) show ?thesis by (simp add: clampInt64_def)
    qed
    then have bound: "re_offset (last (filter (\<lambda>e. re_item e = i) es)) \<le> max 0 (item_size (mf_items m ! nat i))"
      if "filter (\<lambda>e. re_item e = i) es \<noteq> []" for i
      using last_in_set [OF that] by fastforce
    have items: "item_ok (log @ [Accepted es]) s' (mf_items m ! nat i) i" if "item_ok log s1 (mf_items m ! nat i) i" for i
      using that bound [of i]
      by (auto simp: item_ok_def silent log_step_def Let_def s1(3) resumed_coverage [OF m] stream_of_def applyReceiveResume_same)
    then show ?thesis
      using inv1 m by (auto simp: sess_inv_def s1(3) applyReceiveResume_same stream_of_def)
  qed
qed

section \<open>Runs\<close>

lemma new_session_inv: "sess_inv [] (newTransferSessionWithPipes pipes arrivals)"
  by (simp add: sess_inv_def newTransferSessionWithPipes_def quiet_def)

lemma call_session_inv:
  assumes "call_session gunzip c s = (Inr a, s')" and "sess_inv log s"
  shows "sess_inv (log @ [a]) s' \<and> (\<forall>ev. a = Got ev \<and> ev_Kind ev = ''done'' \<longrightarrow> receiveReady s')"
proof (cases c)
  case (CallEvent now)
  with assms(1) obtain ev where "ReceiveEvent gunzip now s = (Inr ev, s')" "a = Got ev"
    by (auto simp: bind_act_def ret_def split: sum.splits prod.splits)
  with ReceiveEvent_inv [OF this(1) assms(2)] show ?thesis by auto
next
  case CallAccept
  with assms(1) obtain es where "WaitResumeAccept (manifest_items s) s = (Inr es, s')" "a = Accepted es"
    by (auto simp: bind_act_def ret_def gets_def split: sum.splits prod.splits)
  with WaitResumeAccept_inv [OF this(1) assms(2)] show ?thesis by auto
qed

lemma run_session_inv:
  assumes "run_session gunzip cs s = (Inr as, s')" and "sess_inv log s"
  shows "sess_inv (log @ as) s' \<and> (\<forall>ev. as \<noteq> [] \<and> last as = Got ev \<and> ev_Kind ev = ''done'' \<longrightarrow> receiveReady s')"
  using assms
proof (induction cs arbitrary: s as log)
  case (Cons c cs)
  from Cons.prems(1) obtain a s1 as1 where a: "call_session gunzip c s = (Inr a, s1)"
      and rest: "run_session gunzip cs s1 = (Inr as1, s')" and as: "as = a # as1"
    by (auto simp: bind_act_def ret_def split: sum.splits prod.splits)
  note a1 = call_session_inv [OF a Cons.prems(2)]
  show ?case
  proof (cases "as1 = []")
    case True
    with rest have "s' = s1" by (cases cs) (auto simp: ret_def bind_act_def split: sum.splits prod.splits)
    with True a1 as show ?thesis by auto
  next
    case False
    from Cons.IH [OF rest, of "log @ [a]"] a1 False show ?thesis by (simp add: as)
  qed
qed (simp add: ret_def)

section \<open>Properties\<close>

lemma ready_items:
  assumes "sess_inv log s" and "receiveReady s"
  obtains m where "ts_receiveManifest s = Some m"
    "\<And>i. i < length (mf_items m) \<Longrightarrow> item_ok log s (mf_items m ! i) (int i) \<and> ss_ended (stream_of s (int i))
       \<and> (\<exists>rs. ts_receiveCoverage s (int i) = Some rs \<and> Complete rs (item_size (mf_items m ! i)))"
proof -
  obtain m where m: "ts_receiveManifest s = Some m" "ts_receiveEnded s = int (length (mf_items m))"
      "\<And>i. i < length (mf_items m) \<Longrightarrow>
        \<exists>rs. ts_receiveCoverage s (int i) = Some rs \<and> Complete rs (item_size (mf_items m ! i))"
    using assms(2) by (force simp: receiveReady_def split: option.splits)
  let ?I = "{0..<int (length (mf_items m))}" and ?E = "{i \<in> {0..<int (length (mf_items m))}. ss_ended (stream_of s i)}"
  have inv: "ts_receiveEnded s = wrap64 (int (card ?E))" "\<forall>i\<in>?I. item_ok log s (mf_items m ! nat i) i"
    using assms(1) m(1) by (auto simp: sess_inv_def)
  have "?E \<subseteq> ?I" by blast
  then have "card ?E \<le> card ?I" by (rule card_mono [rotated]) simp
  moreover have "in_i64 (int (length (mf_items m)))" using inv(1) m(2) in_i64_wrap64 by metis
  ultimately have "in_i64 (int (card ?E))" by (simp add: in_i64_def)
  then have "card ?E = card ?I" using inv(1) m(2) wrap64_id by simp
  then have "?E = ?I" using card_subset_eq [OF _ \<open>?E \<subseteq> ?I\<close>] by simp
  then have all: "\<And>j. j \<in> ?I \<Longrightarrow> ss_ended (stream_of s j)" by blast
  have "ss_ended (stream_of s (int i))" if "i < length (mf_items m)" for i by (rule all) (simp add: that)
  moreover have "item_ok log s (mf_items m ! i) (int i)" if "i < length (mf_items m)" for i
    using inv(2) [rule_format, of "int i"] that by simp
  ultimately show ?thesis using m(1,3) that by blast
qed

lemma delivered_once:
  assumes "foldM (\<lambda>(b, e) rs. Add rs b e) cs (newByteRanges n) = Inr rs" "Complete rs sz"
    and "n \<le> max 0 sz" "\<forall>(b, e)\<in>set cs. e \<le> sz"
  shows "{0..<n} \<union> (\<Union>(b, e)\<in>set cs. {b..<e}) = {0..<sz} \<and> max 0 n + (\<Sum>(b, e)\<leftarrow>cs. e - b) = sz"
proof -
  have "br.adds cs (newByteRanges n) = Inr rs" using assms(1) by (simp add: br.adds_def)
  note added = br.adds_ok [OF newByteRanges_ok this]
  then have ok: "ranges_ok rs" and bytes: "covered rs = {0..<n} \<union> (\<Union>(b, e)\<in>set cs. {b..<e})"
    and total: "int (card (covered rs)) = int (card {0..<n}) + (\<Sum>(b, e)\<leftarrow>cs. e - b)"
    unfolding br.chunk_bytes_def covered_newByteRanges by blast+
  have sz: "0 \<le> sz" using Prefix_spec [OF ok] assms(2) by (simp add: Complete_def)
  have "x < sz" if "x \<in> covered rs" for x using that assms(3,4) sz unfolding bytes by fastforce
  with covered_nonneg [OF ok] have "covered rs \<subseteq> {0..<sz}" by auto
  with ok sz assms(2) have all: "covered rs = {0..<sz}" unfolding Complete_def using br.prefix_complete by blast
  have "sz = max 0 n + (\<Sum>(b, e)\<leftarrow>cs. e - b)" using total sz unfolding all by simp
  with all bytes show ?thesis by simp
qed

lemma ready_delivered:
  assumes "sess_inv log s" "receiveReady s"
  shows "\<exists>m. ts_receiveManifest s = Some m \<and> (\<forall>i < length (mf_items m).
    times ''stream_open'' (int i) log = 1 \<and> times ''stream_end'' (int i) log = 1
    \<and> (case resumed_chunks (int i) log of (n, chunks) \<Rightarrow>
         {0..<n} \<union> (\<Union>(b, e)\<in>set chunks. {b..<e}) = {0..<item_size (mf_items m ! i)}
         \<and> max 0 n + (\<Sum>(b, e)\<leftarrow>chunks. e - b) = item_size (mf_items m ! i)))"
proof -
  from ready_items [OF assms] obtain m where m: "ts_receiveManifest s = Some m"
    "\<And>i. i < length (mf_items m) \<Longrightarrow> item_ok log s (mf_items m ! i) (int i) \<and> ss_ended (stream_of s (int i))
       \<and> (\<exists>rs. ts_receiveCoverage s (int i) = Some rs \<and> Complete rs (item_size (mf_items m ! i)))" by blast
  show ?thesis
  proof (intro exI conjI allI impI, rule m(1))
    fix i assume "i < length (mf_items m)"
    note i = m(2) [OF this]
    show "times ''stream_open'' (int i) log = 1" "times ''stream_end'' (int i) log = 1"
      using i by (auto simp: item_ok_def)
    show "case resumed_chunks (int i) log of (n, chunks) \<Rightarrow>
         {0..<n} \<union> (\<Union>(b, e)\<in>set chunks. {b..<e}) = {0..<item_size (mf_items m ! i)}
         \<and> max 0 n + (\<Sum>(b, e)\<leftarrow>chunks. e - b) = item_size (mf_items m ! i)"
    proof (cases "resumed_chunks (int i) log")
      case (Pair n chunks)
      with i obtain rs where "foldM (\<lambda>(b, e) rs. Add rs b e) chunks (newByteRanges n) = Inr rs"
          "Complete rs (item_size (mf_items m ! i))" "n \<le> max 0 (item_size (mf_items m ! i))"
          "\<forall>(b, e)\<in>set chunks. e \<le> item_size (mf_items m ! i)"
        by (auto simp: item_ok_def)
      from delivered_once [OF this] Pair show ?thesis by simp
    qed
  qed
qed

text \<open>
C9: A receiving session reports \<open>done\<close> only when everything has been delivered, whatever arrives
on its connections and in whatever order, data ahead of the manifest and \<open>done\<close> ahead of the data
included. When a run of the session ends with that event, a manifest was received, every item's
stream was opened and ended exactly once, and the chunks handed out for an item since it was last
resumed, together with the resumed prefix, are exactly the bytes of the item, each delivered once:
they cover the item, and their lengths add up to its size.
\<close>

theorem done_means_delivered:
  assumes "run_session gunzip cs (newTransferSessionWithPipes pipes arrivals) = (Inr (log @ [Got ev]), s)"
    and "ev_Kind ev = ''done''"
  shows "\<exists>m. ts_receiveManifest s = Some m \<and> (\<forall>i < length (mf_items m).
    times ''stream_open'' (int i) log = 1 \<and> times ''stream_end'' (int i) log = 1
    \<and> (case resumed_chunks (int i) log of (n, chunks) \<Rightarrow>
         {0..<n} \<union> (\<Union>(b, e)\<in>set chunks. {b..<e}) = {0..<item_size (mf_items m ! i)}
         \<and> max 0 n + (\<Sum>(b, e)\<leftarrow>chunks. e - b) = item_size (mf_items m ! i)))"
proof -
  have run: "sess_inv (log @ [Got ev]) s" "receiveReady s"
    using run_session_inv [OF assms(1) new_session_inv] assms(2) by auto
  then have "sess_inv log s" using sess_inv_silent [OF silent_kind, of ev log s] assms(2) by simp
  from ready_delivered [OF this run(2)] show ?thesis .
qed

text \<open>
  One file of three bytes over two connections: the stream is opened ahead of the manifest, and
  \<open>done\<close> comes ahead of the chunk and of the end of the stream.
\<close>

definition demo_pipe :: "int \<Rightarrow> securePipe" where
  "demo_pipe k = \<lparr>sp_index = k, sp_send = \<lparr>ses_key = '''', ses_noncePrefix = ''''\<rparr>,
     sp_recv = \<lparr>ses_key = '''', ses_noncePrefix = ''''\<rparr>, sp_nextSeq = 0, sp_recvSeq = 0, sp_compression = '''',
     sp_striping = False, sp_deferredFileSHA256 = False\<rparr>"

definition demo_arrival :: "int \<Rightarrow> Message \<Rightarrow> receivedPipeMessage" where
  "demo_arrival k msg = \<lparr>rp_pipeIndex = k, rp_message = msg, rp_err = None\<rparr>"

definition demo_arrivals :: "receivedPipeMessage list" where
  "demo_arrivals =
     [demo_arrival 1 (zero_message\<lparr>msg_type := ''stream_open'', msg_stream := Some 0\<rparr>),
      demo_arrival 0 (zero_message\<lparr>msg_type := ''manifest'', msg_manifest := Some (NewManifest [tree_item ItemFile ''f'' 3 ''''])\<rparr>),
      demo_arrival 0 (zero_message\<lparr>msg_type := ''done''\<rparr>),
      demo_arrival 1 (zero_message\<lparr>msg_type := ''chunk'', msg_stream := Some 0, msg_data := ''YWJj''\<rparr>),
      demo_arrival 1 (zero_message\<lparr>msg_type := ''stream_end'', msg_stream := Some 0\<rparr>)]"

definition demo_run :: "(sess_error, sess_answer list) result \<times> TransferSession" where
  "demo_run = run_session (\<lambda>_. None) (map CallEvent [0, 0, 0, 0, 0])
     (newTransferSessionWithPipes [demo_pipe 0, demo_pipe 1] demo_arrivals)"

lemma demo_run_kinds:
  "(case fst demo_run of Inl _ \<Rightarrow> False
    | Inr as \<Rightarrow> map (\<lambda>a. case a of Got ev \<Rightarrow> ev_Kind ev | Accepted _ \<Rightarrow> '''') as =
        [''manifest'', ''stream_open'', ''chunk'', ''stream_end'', ''done''])"
  by code_simp

theorem done_means_delivered_witness:
  "\<exists>log s m. demo_run = (Inr log, s) \<and> ts_receiveManifest s = Some m
     \<and> (\<forall>i < length (mf_items m). times ''stream_end'' (int i) (butlast log) = 1)"
proof -
  obtain r s where r: "demo_run = (r, s)" by (cases demo_run)
  obtain as where as: "demo_run = (Inr as, s)"
      "map (\<lambda>a. case a of Got ev \<Rightarrow> ev_Kind ev | Accepted _ \<Rightarrow> '''') as =
        [''manifest'', ''stream_open'', ''chunk'', ''stream_end'', ''done'']"
    using demo_run_kinds unfolding r by (cases r) (simp_all only: fst_conv sum.case)
  then have ne: "as \<noteq> []" by auto
  have "last (map (\<lambda>a. case a of Got ev \<Rightarrow> ev_Kind ev | Accepted _ \<Rightarrow> '''') as) = ''done''" using as(2) by simp
  then have "(case last as of Got ev \<Rightarrow> ev_Kind ev | Accepted _ \<Rightarrow> '''') = ''done''" using ne by (simp add: last_map)
  then obtain ev where ev: "last as = Got ev" "ev_Kind ev = ''done''" by (auto split: sess_answer.splits)
  then have split: "as = butlast as @ [Got ev]" using ne append_butlast_last_id by metis
  have "run_session (\<lambda>_. None) (map CallEvent [0, 0, 0, 0, 0])
      (newTransferSessionWithPipes [demo_pipe 0, demo_pipe 1] demo_arrivals) = (Inr (butlast as @ [Got ev]), s)"
    using as(1) split by (simp only: demo_run_def)
  from done_means_delivered [OF this ev(2)] as(1) show ?thesis by blast
qed

end
