(* ===== verification/Session_Wire.thy ===== *)
theory Session_Wire
  imports Transfer_Session
begin

text \<open>
  What the two ends of a transfer agree on: a chunk survives encoding, base64 and decoding, and
  every frame a sender puts on a connection arrives on a connection the receiver accepts it on.
\<close>

section \<open>Encoding of chunks\<close>

lemma Compression_add_stats [simp]: "Compression (add_stats a b c s) = Compression s"
  by (simp add: Compression_def add_stats_def)

text \<open>What a chunk is encoded to, and what that says about the session.\<close>

lemma encodeChunk_cases:
  assumes "encodeChunk gz item data s = (Inr (payload, encoding), s')"
  obtains (plain) "payload = data" "encoding = ''''"
  | (gzip) "payload = gz data" "encoding = compressionGzip" "Compression s = compressionGzip"
      "compressionWorthwhile (int (length data)) (int (length (gz data)))"
  using assms
  by (auto simp: encodeChunk_def Let_def compressGzipChunk_def split: if_splits)

definition wire_added :: "TransferSession \<Rightarrow> TransferSession \<Rightarrow> int \<Rightarrow> int \<Rightarrow> bool" where
  "wire_added s s' original wire \<longleftrightarrow>
     cs_OriginalBytes (ts_compressionStats s') = add64 (cs_OriginalBytes (ts_compressionStats s)) original
     \<and> cs_WireBytes (ts_compressionStats s') = add64 (cs_WireBytes (ts_compressionStats s)) wire"

lemma add64_wrap [simp]: "add64 (add64 a b) 0 = add64 a b" "add64 (add64 a 0) b = add64 a b"
  by (simp_all add: add64_def wrap64_def mod_simps algebra_simps)

lemma encodeChunk_stats:
  assumes "encodeChunk gz item data s = (Inr (payload, encoding), s')"
  shows "wire_added s s' (int (length data)) (int (length payload))"
  using assms
  by (auto simp: encodeChunk_def Let_def compressGzipChunk_def wire_added_def add_stats_def split: if_splits)

lemma encodeChunk_length:
  assumes "encodeChunk gz item data s = (Inr (payload, encoding), s')"
  shows "length payload \<le> length data"
  using assms by (cases rule: encodeChunk_cases) (auto dest: compressionWorthwhile_smaller)

lemma buildChunkMessage_Inr:
  assumes "buildChunkMessage gz now item offset data s = (Inr msg, s')"
  obtains streamID payload encoding where "sendStreamForItem s item = Inr streamID"
    "encodeChunk gz item data s = (Inr (payload, encoding), s')"
    "msg = zero_message\<lparr>msg_type := ''chunk'', msg_item := item, msg_stream := Some streamID,
       msg_offset := offset, msg_data := EncodeToString payload, msg_encoding := encoding, msg_at := now\<rparr>"
  using assms by (auto simp: buildChunkMessage_def bind_act_def try_get_def ret_def split: sum.splits prod.splits)

text \<open>
C25: A chunk arrives as it was sent. For a chunk message the sender builds from data of at most the
protocol's chunk size, whatever it decided about compression, the receiver that negotiated the
same compression decodes exactly the data, from a payload that is never longer than the data; the
sender's statistics count the data and the payload.
\<close>

theorem chunk_roundtrip:
  assumes "gzip_law gz gunzip" and "buildChunkMessage gz now item offset data s = (Inr msg, s')"
    and "int (length data) \<le> ChunkSize"
  shows "\<exists>payload. DecodeString (msg_data msg) = Some payload
    \<and> decodeTransferChunk gunzip (Compression s) (msg_encoding msg) payload = Inr data
    \<and> length payload \<le> length data
    \<and> wire_added s s' (int (length data)) (int (length payload))"
proof -
  obtain streamID payload encoding where
      enc: "encodeChunk gz item data s = (Inr (payload, encoding), s')"
      and msg: "msg = zero_message\<lparr>msg_type := ''chunk'', msg_item := item, msg_stream := Some streamID,
       msg_offset := offset, msg_data := EncodeToString payload, msg_encoding := encoding, msg_at := now\<rparr>"
    by (rule buildChunkMessage_Inr [OF assms(2)])
  have "decodeTransferChunk gunzip (Compression s) encoding payload = Inr data"
    using enc
  proof (cases rule: encodeChunk_cases)
    case gzip
    then have "int (length (gz data)) \<le> ChunkSize * 2"
      using assms(3) compressionWorthwhile_smaller [OF gzip(4)] by simp
    with gzip decompress_compressed [OF assms(1,3)] show ?thesis
      by (simp add: decodeTransferChunk_def compressionGzip_def)
  qed (simp add: decodeTransferChunk_def)
  with encodeChunk_stats [OF enc] encodeChunk_length [OF enc] msg show ?thesis
    by auto
qed

text \<open>A compressor that knows one long run of letters, and a session that uses it.\<close>

definition run_gz :: "string \<Rightarrow> string" where
  "run_gz d = (if d = replicate 300 CHR ''a'' then ''z'' else CHR ''g'' # d)"

definition run_gunzip :: gunzip_fun where
  "run_gunzip x = (if x = ''z'' then Some (replicate 300 CHR ''a'', False) else Some (tl x, False))"

lemma run_gzip_law: "gzip_law run_gz run_gunzip"
  by (simp add: gzip_law_def run_gz_def run_gunzip_def)

definition gzip_session :: TransferSession where
  "gzip_session =
     (newTransferSessionWithPipes [(newSecurePipe (\<lambda>_ _ _ n. replicate n CHR ''k'') 0 ''c'' ''s'' ''r'' True compressionGzip)] [])
     \<lparr>ts_sendManifest := Some (NewManifest [tree_item ItemFile ''f'' 300 '''']), ts_sendPlan := Some (NewPlan 1)\<rparr>"

lemma gzip_session_chunk:
  "\<exists>msg s'. buildChunkMessage run_gz 0 0 0 (replicate 300 CHR ''a'') gzip_session = (Inr msg, s') \<and> msg_encoding msg = ''gzip''"
  by (simp add: buildChunkMessage_def bind_act_def try_get_def ret_def sendStreamForItem_def gzip_session_def
      newTransferSessionWithPipes_def NewManifest_def StreamForItem_def NewPlan_def newPlan_def bind_maps_def
      encodeChunk_def Compression_def newSecurePipe_def compressGzipChunk_def run_gz_def compressionWorthwhile_def
      maxInt_def signed_divide_int_def compressionGzip_def add_stats_def Let_def zero_message_def)

theorem chunk_roundtrip_witness:
  "\<exists>(msg :: Message) payload. msg_encoding msg = ''gzip'' \<and> DecodeString (msg_data msg) = Some payload
     \<and> decodeTransferChunk run_gunzip (Compression gzip_session) (msg_encoding msg) payload = Inr (replicate 300 CHR ''a'')"
proof -
  obtain msg s' where b: "buildChunkMessage run_gz 0 0 0 (replicate 300 CHR ''a'') gzip_session = (Inr msg, s')"
      and e: "msg_encoding msg = ''gzip''" using gzip_session_chunk by blast
  have "int (length (replicate 300 CHR ''a'')) \<le> ChunkSize" by (simp add: ChunkSize_def)
  from chunk_roundtrip [OF run_gzip_law b this] obtain payload where
      "DecodeString (msg_data msg) = Some payload"
      "decodeTransferChunk run_gunzip (Compression gzip_session) (msg_encoding msg) payload = Inr (replicate 300 CHR ''a'')"
    by (elim exE conjE)
  with e show ?thesis by (intro exI [of _ msg] exI [of _ payload] conjI)
qed

section \<open>Connections\<close>

datatype send_call =
    SManifest "Item list"
  | SOpen int
  | SChunk int int string
  | SEnd int
  | SDone
  | SResume "ResumeEntry list"
  | SResumeAccept "ResumeEntry list"
  | SComplete

primrec do_send :: "wire \<Rightarrow> (string \<Rightarrow> string) \<Rightarrow> int \<Rightarrow> send_call \<Rightarrow> unit sess_act" where
  "do_send w gz now (SManifest items) = SendManifest w items"
| "do_send w gz now (SOpen item) = OpenStream w now item"
| "do_send w gz now (SChunk item offset data) = SendChunk w gz now item offset data"
| "do_send w gz now (SEnd item) = EndStream w now item"
| "do_send w gz now SDone = SendDone w now"
| "do_send w gz now (SResume entries) = SendResume w now entries"
| "do_send w gz now (SResumeAccept entries) = SendResumeAccept w now entries"
| "do_send w gz now SComplete = SendComplete w now"

definition ends_agree :: "TransferSession \<Rightarrow> TransferSession \<Rightarrow> bool" where
  "ends_agree s r \<longleftrightarrow> length (ts_pipes s) = length (ts_pipes r) \<and> ts_striping s = ts_striping r
     \<and> (\<forall>k < length (ts_pipes r). sp_index (ts_pipes r ! k) = int k)"

text \<open>No chunk cursor has wrapped around, which takes a stream of \<open>2 ^ 63\<close> chunks.\<close>

definition cursors_ok :: "TransferSession \<Rightarrow> bool" where
  "cursors_ok s \<longleftrightarrow> (\<forall>i c. ts_sendChunkCursor s i = Some c \<longrightarrow> 0 \<le> c)"

text \<open>The send call put exactly the message \<open>msg\<close> on connection \<open>k\<close>.\<close>

definition emitted :: "wire \<Rightarrow> TransferSession \<Rightarrow> TransferSession \<Rightarrow> int \<Rightarrow> Message \<Rightarrow> bool" where
  "emitted w s s' k msg \<longleftrightarrow>
     (\<exists>p. int_nth (ts_pipes s) k = Some p \<and> ts_out s' = ts_out s @ [(k, fst (sendMessage w msg p))]
        \<and> ts_pipes s' = (ts_pipes s)[nat k := snd (sendMessage w msg p)])"

lemma send_on_emitted:
  assumes "send_on w k msg s1 = (Inr (), s')" and "ts_pipes s1 = ts_pipes s" "ts_out s1 = ts_out s"
  shows "emitted w s s' k msg"
  using assms by (auto simp: send_on_def emitted_def split: option.splits prod.splits)

lemma pipeForItem_accepted:
  assumes "ends_agree s r" "pipeForItem s item = Some k" "msg_item msg = item"
    and "msg_type msg \<in> {''stream_open'', ''stream_end''} \<or> msg_type msg = ''chunk'' \<and> \<not> (ts_striping s \<and> length (ts_pipes s) > 1)"
    and "int_nth (ts_pipes s) k = Some p"
  shows "validateMessageChannel r k msg = Inr ()"
proof -
  have k: "pipeForItem r item = Some k" "0 \<le> k" "k < int (length (ts_pipes r))"
    using assms(1,2,5) by (auto simp: ends_agree_def pipeForItem_def int_nth_Some_iff Let_def)
  then have "pipe_index_for r item = Inr k"
    using assms(1) by (auto simp: pipe_index_for_def int_nth_def ends_agree_def)
  with assms(1,3,4) show ?thesis by (auto simp: validateMessageChannel_def ends_agree_def)
qed

lemma encodeChunk_pipes:
  assumes "encodeChunk gz item data s = (r, s')"
  shows "ts_pipes s' = ts_pipes s \<and> ts_out s' = ts_out s \<and> ts_striping s' = ts_striping s"
  using assms by (auto simp: encodeChunk_def Let_def compressGzipChunk_def add_stats_def split: if_splits)

text \<open>The connection of a chunk: the item's own, or with striping any data connection.\<close>

lemma chunk_accepted:
  assumes "ends_agree s r" "chunkPipeForItem item s = (Inr k, s')" "msg_item msg = item" "msg_type msg = ''chunk''"
    and "int_nth (ts_pipes s) k = Some p" "0 \<le> item" "cursors_ok s"
  shows "validateMessageChannel r k msg = Inr ()"
proof (cases "ts_striping s \<and> length (ts_pipes s) > 1")
  case True
  then have n: "0 < int (length (ts_pipes s)) - 1" by simp
  define cursor where "cursor = (case ts_sendChunkCursor s item of None \<Rightarrow> item | Some c \<Rightarrow> c)"
  have k: "k = 1 + cursor smod (int (length (ts_pipes s)) - 1)"
    using assms(2) True by (auto simp: chunkPipeForItem_def Let_def cursor_def split: if_splits option.splits)
  have "0 \<le> cursor" using assms(6,7) by (auto simp: cursor_def cursors_ok_def split: option.splits)
  with n have "0 \<le> cursor smod (int (length (ts_pipes s)) - 1)" by (simp add: smod_int_range signed_modulo_int_def sgn_if)
  then have "k \<noteq> 0" using k by simp
  then show ?thesis
    using True assms(1,4,5) by (auto simp: validateMessageChannel_def ends_agree_def int_nth_Some_iff)
next
  case False
  then have "pipeForItem s item = Some k"
    using assms(2) by (auto simp: chunkPipeForItem_def Let_def split: if_splits option.splits)
  from pipeForItem_accepted [OF assms(1) this assms(3) _ assms(5)] False assms(4) show ?thesis by simp
qed

lemma send_stream_frame_accepted:
  assumes "ends_agree s r" "send_stream_frame w now kind item s = (Inr (), s')" "kind \<in> {''stream_open'', ''stream_end''}"
  shows "\<exists>k msg. emitted w s s' k msg \<and> validateMessageChannel r k msg = Inr ()"
proof -
  obtain streamID k where k: "pipeForItem s item = Some k"
      and sent: "send_on w k (zero_message\<lparr>msg_type := kind, msg_item := item, msg_stream := Some streamID, msg_at := now\<rparr>) s = (Inr (), s')"
    using assms(2) by (auto simp: send_stream_frame_def split: sum.splits option.splits)
  have e: "emitted w s s' k (zero_message\<lparr>msg_type := kind, msg_item := item, msg_stream := Some streamID, msg_at := now\<rparr>)"
    by (rule send_on_emitted [OF sent]) simp_all
  then obtain p where "int_nth (ts_pipes s) k = Some p" by (auto simp: emitted_def)
  from pipeForItem_accepted [OF assms(1) k _ _ this] assms(3) e show ?thesis by fastforce
qed

lemma SendChunk_accepted:
  assumes "ends_agree s r" "SendChunk w gz now item offset data s = (Inr (), s')" "cursors_ok s"
  shows "\<exists>k msg. emitted w s s' k msg \<and> validateMessageChannel r k msg = Inr ()"
proof -
  obtain msg s1 k s2 where b: "buildChunkMessage gz now item offset data s = (Inr msg, s1)"
      and c: "chunkPipeForItem item s1 = (Inr k, s2)" and sent: "send_on w k msg s2 = (Inr (), s')"
    using assms(2) by (auto simp: SendChunk_def bind_act_def split: sum.splits prod.splits)
  obtain streamID payload encoding where st: "sendStreamForItem s item = Inr streamID"
      and enc: "encodeChunk gz item data s = (Inr (payload, encoding), s1)"
      and msg: "msg = zero_message\<lparr>msg_type := ''chunk'', msg_item := item, msg_stream := Some streamID,
       msg_offset := offset, msg_data := EncodeToString payload, msg_encoding := encoding, msg_at := now\<rparr>"
    by (rule buildChunkMessage_Inr [OF b])
  note same = encodeChunk_pipes [OF enc]
  have item: "0 \<le> item" using st by (auto simp: sendStreamForItem_def split: option.splits if_splits)
  have "cursors_ok s1" using assms(3) enc
    by (auto simp: cursors_ok_def encodeChunk_def Let_def compressGzipChunk_def add_stats_def split: if_splits)
  moreover have "ends_agree s1 r" using assms(1) same by (simp add: ends_agree_def)
  moreover have s2: "ts_pipes s2 = ts_pipes s \<and> ts_out s2 = ts_out s"
    using c same by (auto simp: chunkPipeForItem_def Let_def split: if_splits option.splits)
  then have e: "emitted w s s' k msg" using send_on_emitted [OF sent, of s] by simp
  then obtain p where "int_nth (ts_pipes s1) k = Some p" using same by (auto simp: emitted_def)
  ultimately have "validateMessageChannel r k msg = Inr ()"
    using chunk_accepted [OF _ c, of r msg p] item by (simp add: msg)
  with e show ?thesis by blast
qed

lemma control_accepted:
  assumes "send_on w 0 msg s1 = (Inr (), s')" "ts_pipes s1 = ts_pipes s" "ts_out s1 = ts_out s"
    and "msg_type msg \<notin> {''chunk'', ''stream_open'', ''stream_end''}"
  shows "\<exists>k msg. emitted w s s' k msg \<and> validateMessageChannel r k msg = Inr ()"
  using send_on_emitted [OF assms(1-3)] assms(4) by (fastforce simp: validateMessageChannel_def)

lemmas control_sends = SendManifest_def SendDone_def SendResume_def SendResumeAccept_def SendComplete_def



section \<open>A negative item index\<close>

text \<open>
C28: A peer can make the receiver panic. With at least four pipes and no striping, a chunk, or with
or without striping the opening or the end of a stream, whose item is -2 makes the channel check
compute the pipe index -1: the item index is checked only behind it.
\<close>

theorem negative_item_panics:
  assumes "length (ts_pipes s) \<ge> 4" and "msg_item msg = -2"
    and "msg_type msg \<in> {''stream_open'', ''stream_end''} \<or> (msg_type msg = ''chunk'' \<and> \<not> ts_striping s)"
  shows "validateMessageChannel s pipeIndex msg = Inl IndexPanic"
proof -
  have "(- 2) smod (int (length (ts_pipes s)) - 1) = - (2 :: int)"
    using assms(1) by (simp add: signed_modulo_int_def sgn_if mod_pos_pos_trivial)
  then have "pipe_index_for s (-2) = Inl IndexPanic" using assms(1) by (simp add: pipe_index_for_def pipeForItem_def Let_def)
  with assms(2,3) show ?thesis by (auto simp: validateMessageChannel_def)
qed

theorem negative_item_panics_witness:
  "validateMessageChannel
     (newTransferSessionWithPipes (map (\<lambda>k. newSecurePipe (\<lambda>_ _ _ n. replicate n CHR ''k'') k ''c'' ''s'' ''r'' False '''') [0, 1, 2, 3]) [])
     1 (zero_message\<lparr>msg_type := ''stream_open'', msg_item := -2\<rparr>) = Inl IndexPanic"
  by (rule negative_item_panics) (simp_all add: newTransferSessionWithPipes_def)

end
