(* ===== verification/Progress.thy ===== *)
theory Progress
  imports Mux_Plan
begin

text \<open>
  Progress accounting (the reporter of internal/transfer/transfer.go): how many bytes of all items
  and of each stream are done. Printing, which uses floating point rates and the clock, is left
  out; \<open>percent\<close> is the integer percentage it prints. Streams are kept in the order in which they
  were added, as an association list that stands for the Go map; no stream is added twice.
\<close>

section \<open>Sums over items and entries\<close>

definition maxInt64 :: "int \<Rightarrow> int \<Rightarrow> int" where
  "maxInt64 a b = (if a > b then a else b)"

definition totalItemSize :: "Item list \<Rightarrow> int" where
  "totalItemSize items = foldl (\<lambda>total item. if item_size item > 0 then add64 total (item_size item) else total) 0 items"

text \<open>The map is walked in some order, given as the list of its keys.\<close>

definition totalResumeOffset :: "int list \<Rightarrow> Item list \<Rightarrow> (int \<Rightarrow> int option) \<Rightarrow> int" where
  "totalResumeOffset ord items offsets =
     foldl (\<lambda>total i. if i < 0 \<or> i \<ge> int (length items) then total
                    else add64 total (clampInt64 (the (offsets i)) 0 (item_size (items ! nat i)))) 0 ord"

definition totalResumeEntries :: "ResumeEntry list \<Rightarrow> int" where
  "totalResumeEntries entries =
     foldl (\<lambda>total entry. if re_offset entry > 0 then add64 total (re_offset entry) else total) 0 entries"

definition resumeEntriesToOffsets :: "ResumeEntry list \<Rightarrow> int \<Rightarrow> int option" where
  "resumeEntriesToOffsets entries = foldl (\<lambda>offsets entry. offsets(re_item entry \<mapsto> re_offset entry)) Map.empty entries"

section \<open>The reporter\<close>

record progressStream =
  ps_name :: string
  ps_size :: int
  ps_done :: int

record progressReporter =
  pr_total :: int
  pr_done :: int
  pr_transferred :: int
  pr_streams :: "(int \<times> progressStream) list"

definition newProgressReporter :: "int \<Rightarrow> int \<Rightarrow> progressReporter" where
  "newProgressReporter bytes initial =
     \<lparr>pr_total = maxInt64 bytes 0, pr_done = clampInt64 initial 0 (maxInt64 bytes 0), pr_transferred = 0, pr_streams = []\<rparr>"

text \<open>The loop body: a missing entry of the map \<open>initial\<close> reads as zero.\<close>

definition stream_for :: "(int \<Rightarrow> int option) \<Rightarrow> int \<Rightarrow> Item \<Rightarrow> progressStream" where
  "stream_for initial i item =
     (let sz = maxInt64 (item_size item) 0;
          offset = (case initial i of None \<Rightarrow> 0 | Some n \<Rightarrow> n)
      in \<lparr>ps_name = item_name item, ps_size = sz, ps_done = clampInt64 offset 0 sz\<rparr>)"

definition with_streams :: "(int \<times> progressStream) list \<Rightarrow> progressReporter \<Rightarrow> progressReporter" where
  "with_streams streams p =
     p\<lparr>pr_streams := streams,
       pr_done := clampInt64 (foldl (\<lambda>d (_, st). add64 d (ps_done st)) 0 streams) 0 (pr_total p)\<rparr>"

definition newStreamProgressReporter :: "Item list \<Rightarrow> (int \<Rightarrow> int option) \<Rightarrow> progressReporter" where
  "newStreamProgressReporter items initial =
     with_streams (map (\<lambda>i. (int i, stream_for initial (int i) (items ! i))) [0..<length items])
       (newProgressReporter (totalItemSize items) 0)"

definition manifest_stream ::
  "Plan \<Rightarrow> Item list \<Rightarrow> (int \<Rightarrow> int option) \<Rightarrow> nat \<Rightarrow> (int \<times> progressStream) list \<Rightarrow> (mux_error, (int \<times> progressStream) list) result" where
  "manifest_stream plan items initial i streams =
     (case StreamForItem (Some plan) (int i) of
        None \<Rightarrow> Inl (ItemUnbound (int i))
      | Some streamID \<Rightarrow> Inr (streams @ [(streamID, stream_for initial (int i) (items ! i))]))"

definition newManifestProgressReporter :: "Manifest option \<Rightarrow> (int \<Rightarrow> int option) \<Rightarrow> (mux_error, progressReporter) result" where
  "newManifestProgressReporter manifest initial =
     rbind (PlanFromManifest manifest) (\<lambda>plan.
       let items = mf_items (the manifest) in
       rbind (foldM (manifest_stream plan items initial) [0..<length items] []) (\<lambda>streams.
         Inr (with_streams streams (newProgressReporter (totalItemSize items) 0))))"

text \<open>The methods do nothing on a nil reporter.\<close>

definition progress_add :: "int \<Rightarrow> progressReporter \<Rightarrow> progressReporter" where
  "progress_add delta p =
     (let d = clampInt64 (add64 (pr_done p) delta) 0 (pr_total p)
      in p\<lparr>pr_done := d,
           pr_transferred := (if d > pr_done p then add64 (pr_transferred p) (sub64 d (pr_done p)) else pr_transferred p)\<rparr>)"

definition AddStream :: "int \<Rightarrow> int \<Rightarrow> progressReporter \<Rightarrow> progressReporter" where
  "AddStream streamID delta p =
     (case map_of (pr_streams p) streamID of
        None \<Rightarrow> progress_add delta p
      | Some st \<Rightarrow>
          let d = clampInt64 (add64 (ps_done st) delta) 0 (ps_size st);
              advanced = sub64 d (ps_done st)
          in p\<lparr>pr_streams := map (\<lambda>(k, x). (k, if k = streamID then x\<lparr>ps_done := d\<rparr> else x)) (pr_streams p),
               pr_done := clampInt64 (add64 (pr_done p) advanced) 0 (pr_total p),
               pr_transferred := (if advanced > 0 then add64 (pr_transferred p) advanced else pr_transferred p)\<rparr>)"

definition percent :: "progressReporter \<Rightarrow> int" where
  "percent p = (if pr_total p > 0 then mul64 (pr_done p) 100 sdiv pr_total p else 100)"

section \<open>The total is the sum of the streams\<close>

text \<open>
  The invariant: every stream is between nothing and its size, the sizes add up to the total, and
  what is done in total is what the streams have done together.
\<close>

definition progress_ok :: "progressReporter \<Rightarrow> bool" where
  "progress_ok p \<longleftrightarrow> distinct (map fst (pr_streams p))
     \<and> (\<forall>(k, st)\<in>set (pr_streams p). 0 \<le> ps_done st \<and> ps_done st \<le> ps_size st)
     \<and> pr_total p = (\<Sum>(k, st)\<leftarrow>pr_streams p. ps_size st)
     \<and> pr_done p = (\<Sum>(k, st)\<leftarrow>pr_streams p. ps_done st)
     \<and> pr_total p < 2 ^ 63"

definition sizes_fit :: "Item list \<Rightarrow> bool" where
  "sizes_fit items \<longleftrightarrow> (\<Sum>item\<leftarrow>items. max 0 (item_size item)) < 2 ^ 63"

lemma totalItemSize_sum:
  assumes "0 \<le> a" "a + (\<Sum>item\<leftarrow>items. max 0 (item_size item)) < 2 ^ 63"
  shows "foldl (\<lambda>total item. if item_size item > 0 then add64 total (item_size item) else total) a items
    = a + (\<Sum>item\<leftarrow>items. max 0 (item_size item))"
  using assms
proof (induction items arbitrary: a)
  case (Cons item items)
  have nn: "0 \<le> (\<Sum>item\<leftarrow>items. max 0 (item_size item))" by (rule sum_list_nonneg) auto
  show ?case
  proof (cases "item_size item > 0")
    case True
    then have "add64 a (item_size item) = a + item_size item"
      using Cons.prems nn by (intro add64_id) (simp add: in_i64_def)
    with True Cons.IH [of "a + item_size item"] Cons.prems show ?thesis by simp
  next
    case False
    with Cons.IH [of a] Cons.prems show ?thesis by simp
  qed
qed simp

lemma sum_done_fits:
  assumes "\<forall>(k, st)\<in>set streams. 0 \<le> ps_done st \<and> ps_done st \<le> ps_size st" "0 \<le> a"
    and "a + (\<Sum>(k, st)\<leftarrow>streams. ps_size st) < 2 ^ 63"
  shows "foldl (\<lambda>d (_, st). add64 d (ps_done st)) a streams = a + (\<Sum>(k, st)\<leftarrow>streams. ps_done st)
    \<and> 0 \<le> (\<Sum>(k, st)\<leftarrow>streams. ps_done st) \<and> (\<Sum>(k, st)\<leftarrow>streams. ps_done st) \<le> (\<Sum>(k, st)\<leftarrow>streams. ps_size st)"
  using assms
proof (induction streams arbitrary: a)
  case (Cons x streams)
  obtain k st where x: "x = (k, st)" by (cases x)
  have st: "0 \<le> ps_done st" "ps_done st \<le> ps_size st" using Cons.prems(1) x by auto
  have nn: "0 \<le> (\<Sum>(k, st)\<leftarrow>streams. ps_size st)" using Cons.prems(1) by (intro sum_list_nonneg) fastforce
  have "add64 a (ps_done st) = a + ps_done st"
    using Cons.prems nn st x by (intro add64_id) (simp add: in_i64_def)
  with Cons.IH [of "a + ps_done st"] Cons.prems st x show ?case by auto
qed simp

lemma with_streams_ok:
  assumes "distinct (map fst streams)" "\<forall>(k, st)\<in>set streams. 0 \<le> ps_done st \<and> ps_done st \<le> ps_size st"
    and "pr_total p = (\<Sum>(k, st)\<leftarrow>streams. ps_size st)" "pr_total p < 2 ^ 63"
  shows "progress_ok (with_streams streams p)"
  using sum_done_fits [OF assms(2), of 0] assms
  by (auto simp: progress_ok_def with_streams_def clampInt64_id)

lemma stream_for_bounds: "0 \<le> ps_done (stream_for initial i item) \<and> ps_done (stream_for initial i item) \<le> ps_size (stream_for initial i item)
    \<and> ps_size (stream_for initial i item) = max 0 (item_size item)"
  by (auto simp: stream_for_def Let_def clampInt64_def maxInt64_def)

lemma new_total:
  assumes "sizes_fit items"
  shows "pr_total (newProgressReporter (totalItemSize items) n) = (\<Sum>item\<leftarrow>items. max 0 (item_size item))"
proof -
  have "0 \<le> (\<Sum>item\<leftarrow>items. max 0 (item_size item))" by (rule sum_list_nonneg) auto
  with totalItemSize_sum [of 0 items] assms show ?thesis
    by (simp add: newProgressReporter_def totalItemSize_def maxInt64_def sizes_fit_def)
qed

lemma sum_over_items: "(\<Sum>i\<leftarrow>[0..<length items]. f (items ! i)) = (\<Sum>item\<leftarrow>items. (f item :: int))"
  using arg_cong [OF map_nth [of items], of "\<lambda>xs. sum_list (map f xs)"] by (simp add: comp_def)

lemma new_stream_reporter_ok:
  assumes "sizes_fit items"
  shows "progress_ok (newStreamProgressReporter items initial)"
  unfolding newStreamProgressReporter_def
proof (rule with_streams_ok)
  show "distinct (map fst (map (\<lambda>i. (int i, stream_for initial (int i) (items ! i))) [0..<length items]))"
    by (simp add: comp_def distinct_map inj_on_def)
  show "pr_total (newProgressReporter (totalItemSize items) 0) =
      (\<Sum>(k, st)\<leftarrow>map (\<lambda>i. (int i, stream_for initial (int i) (items ! i))) [0..<length items]. ps_size st)"
    using sum_over_items [of "\<lambda>item. max 0 (item_size item)" items]
    by (simp add: new_total [OF assms] comp_def stream_for_bounds)
  show "pr_total (newProgressReporter (totalItemSize items) 0) < 2 ^ 63"
    using assms by (simp add: new_total [OF assms] sizes_fit_def)
  show "\<forall>(k, st)\<in>set (map (\<lambda>i. (int i, stream_for initial (int i) (items ! i))) [0..<length items]).
      0 \<le> ps_done st \<and> ps_done st \<le> ps_size st"
    using stream_for_bounds by fastforce
qed

lemma manifest_streams:
  assumes "foldM (manifest_stream plan items initial) is streams0 = Inr streams"
  shows "\<exists>ids. streams = streams0 @ map (\<lambda>(k, i). (k, stream_for initial (int i) (items ! i))) (zip ids is)
    \<and> length ids = length is \<and> (\<forall>(k, i)\<in>set (zip ids is). StreamForItem (Some plan) (int i) = Some k)"
  using assms
proof (induction "is" arbitrary: streams0)
  case (Cons i "is")
  then obtain s1 where s1: "manifest_stream plan items initial i streams0 = Inr s1"
      and rest: "foldM (manifest_stream plan items initial) is s1 = Inr streams" by (auto simp: result_simps)
  then obtain k where k: "StreamForItem (Some plan) (int i) = Some k"
      and s1': "s1 = streams0 @ [(k, stream_for initial (int i) (items ! i))]"
    by (auto simp: manifest_stream_def split: option.splits)
  from Cons.IH [OF rest [unfolded s1']] obtain ids where "streams = streams0 @ [(k, stream_for initial (int i) (items ! i))]
      @ map (\<lambda>(k, i). (k, stream_for initial (int i) (items ! i))) (zip ids is)"
      "length ids = length is" "\<forall>(k, i)\<in>set (zip ids is). StreamForItem (Some plan) (int i) = Some k" by auto
  with k show ?case by (intro exI [of _ "k # ids"]) auto
qed simp

lemma new_manifest_reporter_ok:
  assumes "newManifestProgressReporter (Some m) initial = Inr p" and "sizes_fit (mf_items m)"
  shows "progress_ok p"
proof -
  let ?items = "mf_items m" and ?n = "length (mf_items m)"
  obtain plan streams where plan: "PlanFromManifest (Some m) = Inr plan"
      and streams: "foldM (manifest_stream plan ?items initial) [0..<?n] [] = Inr streams"
      and p: "p = with_streams streams (newProgressReporter (totalItemSize ?items) 0)"
    using assms(1) by (auto simp: newManifestProgressReporter_def Let_def result_simps)
  from manifest_streams [OF streams] obtain ids where
      ids: "streams = map (\<lambda>(k, i). (k, stream_for initial (int i) (?items ! i))) (zip ids [0..<?n])" "length ids = ?n"
      "\<forall>(k, i)\<in>set (zip ids [0..<?n]). StreamForItem (Some plan) (int i) = Some k" by auto
  have bound: "StreamForItem (Some plan) (int i) = Some (ids ! i)" if "i < ?n" for i
    using ids(2,3) that by (force simp: set_zip)
  have fst_eq: "map fst streams = ids" using ids(1,2) by (simp add: comp_def case_prod_beta)
  have snd_eq: "map snd streams = map (\<lambda>i. stream_for initial (int i) (?items ! i)) [0..<?n]"
    unfolding ids(1) using ids(2) by (intro nth_equalityI) simp_all
  have "distinct ids"
  proof (rule distinct_conv_nth [THEN iffD2], intro allI impI)
    fix i j assume "i < length ids" "j < length ids" "i \<noteq> j"
    then have ij: "i < ?n" "j < ?n" "int i \<noteq> int j" using ids(2) by auto
    have pk: "plan_ok ?n plan" by (rule PlanFromManifest_plan_ok [OF plan])
    have "byStream plan (ids ! i) = Some (int i)" "byStream plan (ids ! j) = Some (int j)"
      using pk bound [OF ij(1)] bound [OF ij(2)] by (auto simp: plan_ok_def StreamForItem_def)
    with ij(3) show "ids ! i \<noteq> ids ! j" by auto
  qed
  have all: "\<forall>st\<in>set (map snd streams). 0 \<le> ps_done st \<and> ps_done st \<le> ps_size st"
    unfolding snd_eq using stream_for_bounds by (simp only: set_map ball_simps) metis
  have "(\<Sum>(k, st)\<leftarrow>streams. ps_size st) = sum_list (map ps_size (map snd streams))"
    by (induction streams) auto
  also have "\<dots> = (\<Sum>item\<leftarrow>?items. max 0 (item_size item))"
    unfolding snd_eq using sum_over_items [of "\<lambda>item. max 0 (item_size item)" ?items]
    by (simp add: comp_def stream_for_bounds)
  finally have "(\<Sum>(k, st)\<leftarrow>streams. ps_size st) = (\<Sum>item\<leftarrow>?items. max 0 (item_size item))" .
  with \<open>distinct ids\<close> all show ?thesis
    unfolding p using assms(2)
    by (intro with_streams_ok) (auto simp: fst_eq new_total sizes_fit_def)
qed

lemma sum_update:
  fixes f :: "progressStream \<Rightarrow> int"
  assumes "distinct (map fst streams)" "map_of streams k = Some st"
  shows "(\<Sum>(j, x)\<leftarrow>map (\<lambda>(j, x). (j, if j = k then h x else x)) streams. f x) = (\<Sum>(j, x)\<leftarrow>streams. f x) + f (h st) - f st"
  using assms
proof (induction streams)
  case (Cons y streams)
  obtain j x where y: "y = (j, x)" by (cases y)
  show ?case
  proof (cases "j = k")
    case True
    then have notin: "k \<notin> fst ` set streams" using Cons.prems(1) y by auto
    have "map (\<lambda>(j, x). (j, if j = k then h x else x)) streams = streams"
      using notin by (intro map_idI) force
    with True Cons.prems y show ?thesis by simp
  next
    case False
    with Cons y show ?thesis by simp
  qed
qed simp

lemma sum_bounds:
  assumes "\<forall>(k, st)\<in>set streams. 0 \<le> ps_done st \<and> ps_done st \<le> ps_size st"
  shows "0 \<le> (\<Sum>(k, st)\<leftarrow>streams. ps_done st) \<and> (\<Sum>(k, st)\<leftarrow>streams. ps_done st) \<le> (\<Sum>(k, st)\<leftarrow>streams. ps_size st)"
  using assms by (induction streams) auto

lemma AddStream_ok:
  assumes "progress_ok p" and "k \<in> fst ` set (pr_streams p)"
  shows "progress_ok (AddStream k delta p) \<and> fst ` set (pr_streams (AddStream k delta p)) = fst ` set (pr_streams p)
    \<and> pr_total (AddStream k delta p) = pr_total p"
proof -
  let ?ss = "pr_streams p"
  have dist: "distinct (map fst ?ss)" and bounds: "\<forall>(k, st)\<in>set ?ss. 0 \<le> ps_done st \<and> ps_done st \<le> ps_size st"
      and total: "pr_total p = (\<Sum>(k, st)\<leftarrow>?ss. ps_size st)" and don: "pr_done p = (\<Sum>(k, st)\<leftarrow>?ss. ps_done st)"
      and fit: "pr_total p < 2 ^ 63"
    using assms(1) by (auto simp: progress_ok_def)
  obtain st where st: "map_of ?ss k = Some st" using assms(2) by (cases "map_of ?ss k") (auto simp: map_of_eq_None_iff)
  then have mem: "(k, st) \<in> set ?ss" by (rule map_of_SomeD)
  define d where "d = clampInt64 (add64 (ps_done st) delta) 0 (ps_size st)"
  define ss' where "ss' = map (\<lambda>(j, x). (j, if j = k then x\<lparr>ps_done := d\<rparr> else x)) ?ss"
  have stb: "0 \<le> ps_done st" "ps_done st \<le> ps_size st" using bounds mem by auto
  then have d: "0 \<le> d" "d \<le> ps_size st" using clampInt64_bounds [of 0 "ps_size st"] by (auto simp: d_def)
  have "ps_size st \<le> pr_total p"
    unfolding total using mem bounds by (intro order_trans [OF _ member_le_sum_list]) (auto intro!: rev_image_eqI)
  then have adv: "sub64 d (ps_done st) = d - ps_done st" using d stb fit by (intro sub64_id) (simp add: in_i64_def)
  have uniq: "x = st" if "(k, x) \<in> set ?ss" for x using that st dist by (simp add: map_of_eq_Some_iff)
  have bounds': "\<forall>(j, x)\<in>set ss'. 0 \<le> ps_done x \<and> ps_done x \<le> ps_size x"
    using bounds d uniq by (auto simp: ss'_def split: if_splits)
  have sum: "(\<Sum>(j, x)\<leftarrow>ss'. ps_done x) = pr_done p + d - ps_done st"
    using sum_update [OF dist st, of ps_done "\<lambda>x. x\<lparr>ps_done := d\<rparr>"] by (simp add: ss'_def don)
  have size: "(\<Sum>(j, x)\<leftarrow>ss'. ps_size x) = pr_total p"
    using sum_update [OF dist st, of ps_size "\<lambda>x. x\<lparr>ps_done := d\<rparr>"] by (simp add: ss'_def total)
  have range: "0 \<le> pr_done p + (d - ps_done st)" "pr_done p + (d - ps_done st) \<le> pr_total p"
    using sum_bounds [OF bounds'] sum size by simp_all
  then have "add64 (pr_done p) (d - ps_done st) = pr_done p + (d - ps_done st)"
    using fit by (intro add64_id) (simp add: in_i64_def)
  with range have done': "clampInt64 (add64 (pr_done p) (sub64 d (ps_done st))) 0 (pr_total p) = pr_done p + (d - ps_done st)"
    by (simp add: adv clampInt64_id)
  have p': "pr_streams (AddStream k delta p) = ss'" "pr_done (AddStream k delta p) = pr_done p + (d - ps_done st)"
      "pr_total (AddStream k delta p) = pr_total p"
    using st done' by (simp_all add: AddStream_def Let_def flip: d_def ss'_def)
  have fsts: "map fst ss' = map fst ?ss" by (simp add: ss'_def case_prod_beta comp_def)
  then have "fst ` set ss' = fst ` set ?ss" by (metis list.set_map)
  with fsts bounds' sum size fit dist p' show ?thesis by (simp add: progress_ok_def)
qed

lemma complete_iff:
  assumes "\<forall>(k, st)\<in>set streams. 0 \<le> ps_done st \<and> ps_done st \<le> ps_size st"
  shows "(\<Sum>(k, st)\<leftarrow>streams. ps_done st) = (\<Sum>(k, st)\<leftarrow>streams. ps_size st)
    \<longleftrightarrow> (\<forall>(k, st)\<in>set streams. ps_done st = ps_size st)"
  using assms
proof (induction streams)
  case (Cons x streams)
  obtain k st where x: "x = (k, st)" by (cases x)
  have "(\<Sum>(k, st)\<leftarrow>streams. ps_done st) \<le> (\<Sum>(k, st)\<leftarrow>streams. ps_size st)" "ps_done st \<le> ps_size st"
    using sum_bounds [of streams] Cons.prems x by auto
  then have "ps_done st + (\<Sum>(k, st)\<leftarrow>streams. ps_done st) = ps_size st + (\<Sum>(k, st)\<leftarrow>streams. ps_size st)
      \<longleftrightarrow> ps_done st = ps_size st \<and> (\<Sum>(k, st)\<leftarrow>streams. ps_done st) = (\<Sum>(k, st)\<leftarrow>streams. ps_size st)" by linarith
  with Cons x show ?case by simp
qed simp

lemma pos_zle_div_100: "0 < t \<Longrightarrow> 100 \<le> d * 100 div t \<longleftrightarrow> t \<le> (d :: int)"
proof -
  assume t: "0 < t"
  define q where "q = d * 100 div t"
  have eq: "d * 100 = q * t + d * 100 mod t" and r: "0 \<le> d * 100 mod t" "d * 100 mod t < t"
    using t by (simp_all add: q_def)
  show ?thesis unfolding q_def [symmetric]
  proof
    assume "100 \<le> q"
    then have "100 * t \<le> q * t" using t by simp
    with eq r show "t \<le> d" by linarith
  next
    assume "t \<le> d"
    with eq r have "100 * t < q * t + t" by linarith
    then have "100 * t < (q + 1) * t" by (simp only: distrib_right mult_1)
    then have "100 < q + 1" using t by (rule mult_right_less_imp_less [OF _ less_imp_le])
    then show "100 \<le> q" by simp
  qed
qed

lemma zdiv_mono1_100: "0 < t \<Longrightarrow> d \<le> t \<Longrightarrow> d * 100 div t \<le> (100 :: int)"
  by (metis zdiv_mono1 mult_right_mono nonzero_mult_div_cancel_left less_irrefl zero_le_numeral)

section \<open>Properties\<close>

text \<open>What the two constructors make from the items of a transfer.\<close>

definition reporter_for :: "Item list \<Rightarrow> progressReporter \<Rightarrow> bool" where
  "reporter_for items p \<longleftrightarrow>
     (\<exists>initial. p = newStreamProgressReporter items initial)
     \<or> (\<exists>m initial. mf_items m = items \<and> newManifestProgressReporter (Some m) initial = Inr p)"

lemma AddStreams_ok:
  assumes "progress_ok p" "fst ` set ds \<subseteq> fst ` set (pr_streams p)"
  shows "progress_ok (fold (\<lambda>(k, delta). AddStream k delta) ds p)"
  using assms
proof (induction ds arbitrary: p)
  case (Cons x ds)
  obtain k delta where x: "x = (k, delta)" by (cases x)
  with Cons.prems AddStream_ok [of p k delta] Cons.IH [of "AddStream k delta p"] show ?case by simp
qed simp

definition zero_item :: Item where
  "zero_item = \<lparr>item_kind = ItemFile, item_name = '''', item_size = 0, item_mtime = 0, item_mode = 0, item_sha256 = '''',
     item_sample = '''', item_target = '''', item_chunk_size = 0, item_resume = False\<rparr>"

text \<open>
C29: Progress adds up. Whichever chunks are reported for the streams of a transfer, by whatever
amounts, the bytes done are the sum of what the streams have done, never negative and never more
than the total; the printed percentage is between 0 and 100, and is 100 exactly when every stream
is complete.
\<close>

theorem progress_adds_up:
  assumes "reporter_for items p0" and "sizes_fit items"
    and "fst ` set ds \<subseteq> fst ` set (pr_streams p0)" and "p = fold (\<lambda>(k, delta). AddStream k delta) ds p0"
    and "pr_total p * 100 < 2 ^ 63"
  shows "pr_done p = (\<Sum>(k, st)\<leftarrow>pr_streams p. ps_done st) \<and> 0 \<le> pr_done p \<and> pr_done p \<le> pr_total p
    \<and> 0 \<le> percent p \<and> percent p \<le> 100
    \<and> (percent p = 100 \<longleftrightarrow> (\<forall>(k, st)\<in>set (pr_streams p). ps_done st = ps_size st))"
proof -
  have "progress_ok p0"
    using assms(1,2) new_stream_reporter_ok new_manifest_reporter_ok by (auto simp: reporter_for_def)
  from AddStreams_ok [OF this assms(3)] have ok: "progress_ok p" by (simp add: assms(4))
  have bounds: "\<forall>(k, st)\<in>set (pr_streams p). 0 \<le> ps_done st \<and> ps_done st \<le> ps_size st"
      and total: "pr_total p = (\<Sum>(k, st)\<leftarrow>pr_streams p. ps_size st)"
      and don: "pr_done p = (\<Sum>(k, st)\<leftarrow>pr_streams p. ps_done st)"
    using ok by (auto simp: progress_ok_def)
  have range: "0 \<le> pr_done p" "pr_done p \<le> pr_total p" using sum_bounds [OF bounds] total don by simp_all
  have all: "pr_done p = pr_total p \<longleftrightarrow> (\<forall>(k, st)\<in>set (pr_streams p). ps_done st = ps_size st)"
    unfolding total don using bounds by (rule complete_iff)
  have pct: "percent p = (if pr_total p > 0 then pr_done p * 100 div pr_total p else 100)"
    using range assms(5) by (simp add: percent_def mul64_id in_i64_def signed_divide_int_def sgn_if)
  have "percent p = 100 \<longleftrightarrow> pr_done p = pr_total p"
  proof (cases "pr_total p > 0")
    case True
    have "pr_done p * 100 div pr_total p \<ge> 100 \<longleftrightarrow> 100 * pr_total p \<le> pr_done p * 100"
      using True pos_zle_div_100 by simp
    moreover have "pr_done p * 100 div pr_total p \<le> 100" using True range by (simp add: zdiv_mono1_100)
    ultimately show ?thesis using True range pct by auto
  qed (use range pct in auto)
  moreover have "0 \<le> percent p \<and> percent p \<le> 100"
    using range by (simp add: pct pos_imp_zdiv_nonneg_iff zdiv_mono1_100)
  ultimately show ?thesis using range don all by simp
qed

theorem progress_adds_up_witness:
  "percent (fold (\<lambda>(k, delta). AddStream k delta) [(0, 3), (1, 900)]
     (newStreamProgressReporter [zero_item\<lparr>item_size := 6\<rparr>, zero_item\<lparr>item_size := 4\<rparr>] (\<lambda>_. None))) \<noteq> 100"
proof -
  let ?items = "[zero_item\<lparr>item_size := 6\<rparr>, zero_item\<lparr>item_size := 4\<rparr>]"
  let ?start = "newStreamProgressReporter ?items (\<lambda>_. None)"
  let ?p = "fold (\<lambda>(k, delta). AddStream k delta) [(0, 3), (1, 900)] ?start"
  have fit: "sizes_fit ?items" by (simp add: sizes_fit_def)
  have p: "pr_streams ?p = [(0, \<lparr>ps_name = '''', ps_size = 6, ps_done = 3\<rparr>), (1, \<lparr>ps_name = '''', ps_size = 4, ps_done = 4\<rparr>)]"
      "pr_total ?p = 10" "fst ` set (pr_streams ?start) = {0, 1}"
    by (simp_all add: newStreamProgressReporter_def with_streams_def newProgressReporter_def totalItemSize_def stream_for_def
        AddStream_def Let_def maxInt64_def clampInt64_def add64_def sub64_def wrap64_def zero_item_def)
  have rep: "reporter_for ?items ?start" unfolding reporter_for_def by blast
  have "fst ` set [(0, 3), (1, 900 :: int)] \<subseteq> fst ` set (pr_streams ?start)" "pr_total ?p * 100 < 2 ^ 63"
    unfolding p by simp_all
  from progress_adds_up [OF rep fit this(1) refl this(2)] show ?thesis unfolding p by simp
qed

end
