(* ===== verification/Sender.thy ===== *)
theory Sender
  imports Transfer_Session Mux_Scheduler Receive_Store Transport Progress
begin

text \<open>
  Sending prepared files and text (the sender's half of internal/transfer/transfer.go, with the
  dispatch of chunks to connections of parallel_sender.go). The source tree is a file system \<open>f\<close>
  that does not change while it is sent. A read of a regular file returns as many bytes as the
  buffer takes and the file has left, and end of file when it has none. The send metrics of the
  transports and, with striping, the data connection each chunk is queued on (a choice the code
  makes by floating point scores) are the parameters \<open>metrics\<close> and \<open>pick\<close>, by the number of chunks
  sent so far. Log output is left out. Beside the session, the sender's state keeps \<open>sw_sent\<close>, the
  chunks handed to the session so far; no operation reads it.
\<close>

section \<open>Prepared paths\<close>

record sendFileEntry =
  sf_Path :: string
  sf_ItemID :: int
  sf_Item :: Item

record PreparedPath =
  pp_files :: "sendFileEntry list"
  pp_items :: "Item list"
  pp_ignored :: int

record PreparedSummary =
  sum_Files :: int
  sum_Directories :: int
  sum_Symlinks :: int
  sum_Bytes :: int
  sum_Ignored :: int

datatype send_error =
    SessErr sess_error
  | SchedErr sched_error
  | FileErr os_error
  | FileItemRange int
  | FileNoSource int
  | ResumeItemRange int
  | ResumeNonFile string
  | SkipInvalidOffset string int
  | NegativePrefix
  | PrefixEOF
  | UnknownStream int
  | SendNoProgress
  | PreparedEmpty
  | SchedulerStuck
  | TurnsUsedUp

definition Summary :: "PreparedPath \<Rightarrow> PreparedSummary" where
  "Summary p =
     foldl (\<lambda>s item.
        if item_kind item = ItemFile then s\<lparr>sum_Files := add64 (sum_Files s) 1, sum_Bytes := add64 (sum_Bytes s) (item_size item)\<rparr>
        else if item_kind item = ItemDirectory then s\<lparr>sum_Directories := add64 (sum_Directories s) 1\<rparr>
        else if item_kind item = ItemSymlink then s\<lparr>sum_Symlinks := add64 (sum_Symlinks s) 1\<rparr>
        else s)
       \<lparr>sum_Files = 0, sum_Directories = 0, sum_Symlinks = 0, sum_Bytes = 0, sum_Ignored = pp_ignored p\<rparr> (pp_items p)"

definition hasResumableFiles :: "PreparedPath \<Rightarrow> bool" where
  "hasResumableFiles p \<longleftrightarrow> (\<exists>item\<in>set (pp_items p). item_kind item = ItemFile \<and> item_resume item)"

text \<open>The first file with the item's number, by its position.\<close>

definition file_index :: "sendFileEntry list \<Rightarrow> int \<Rightarrow> nat option" where
  "file_index files itemID =
     (let k = length (takeWhile (\<lambda>file. sf_ItemID file \<noteq> itemID) files) in if k < length files then Some k else None)"

definition ensureFileSHA256 :: "(string \<Rightarrow> string) \<Rightarrow> fs \<Rightarrow> int \<Rightarrow> (PreparedPath, send_error, string) act" where
  "ensureFileSHA256 sha f itemID p =
     (case int_nth (pp_items p) itemID of
        None \<Rightarrow> (Inl (FileItemRange itemID), p)
      | Some item \<Rightarrow>
          if item_sha256 item \<noteq> '''' then (Inr (ToLower (item_sha256 item)), p)
          else (case file_index (pp_files p) itemID of
                  None \<Rightarrow> (Inl (FileNoSource itemID), p)
                | Some k \<Rightarrow>
                    let file = pp_files p ! k in
                    (case fileSHA256 sha (sf_Path file) f of
                       Inl e \<Rightarrow> (Inl (FileErr e), p)
                     | Inr hash \<Rightarrow>
                         (Inr hash,
                          p\<lparr>pp_files := (pp_files p)[k := file\<lparr>sf_Item := (sf_Item file)\<lparr>item_sha256 := hash\<rparr>\<rparr>],
                            pp_items := (pp_items p)[nat itemID := item\<lparr>item_sha256 := hash\<rparr>]\<rparr>))))"

definition manifestItems :: "(string \<Rightarrow> string) \<Rightarrow> fs \<Rightarrow> bool \<Rightarrow> (PreparedPath, send_error, Item list) act" where
  "manifestItems sha f deferredSHA256 =
     bind_act (if deferredSHA256 then ret ()
               else bind_act (gets pp_files) (for_each (\<lambda>file. bind_act (ensureFileSHA256 sha f (sf_ItemID file)) (\<lambda>_. ret ())))) (\<lambda>_.
     bind_act (gets pp_items) (\<lambda>items.
       ret (if deferredSHA256 then map (\<lambda>item. if item_kind item = ItemFile then item\<lparr>item_sha256 := ''''\<rparr> else item) items
            else items)))"

definition filePrefixSHA256 :: "(string \<Rightarrow> string) \<Rightarrow> fs \<Rightarrow> string \<Rightarrow> int \<Rightarrow> (send_error, string) result" where
  "filePrefixSHA256 sha f path sz =
     (if sz < 0 then Inl NegativePrefix
      else case ReadFile f path of
        Inl e \<Rightarrow> Inl (FileErr e)
      | Inr d \<Rightarrow> if int (length d) < sz then Inl PrefixEOF else Inr (hex_encode (sha (take (nat sz) d))))"

text \<open>One resume request: the accepted offset; \<open>entry\<close> is the file of its item.\<close>

definition accept_offset :: "(string \<Rightarrow> string) \<Rightarrow> fs \<Rightarrow> sendFileEntry \<Rightarrow> ResumeEntry \<Rightarrow> (PreparedPath, send_error, int \<times> string) act" where
  "accept_offset sha f entry request =
     (let item = sf_Item entry; offset = clampInt64 (re_offset request) 0 (item_size item) in
      if re_skip request then
        (if re_complete request \<and> re_offset request \<noteq> item_size item
         then throw (SkipInvalidOffset (item_name item) (re_offset request))
         else ret (item_size item, item_sha256 item))
      else
        bind_act (ensureFileSHA256 sha f (re_item request)) (\<lambda>sourceSHA256.
          if offset > 0 \<and> re_prefix request \<noteq> '''' then
            bind_act (if offset \<noteq> item_size item \<or> sourceSHA256 = ''''
                      then try_get (\<lambda>e. e) (\<lambda>_. filePrefixSHA256 sha f (sf_Path entry) offset) else ret sourceSHA256) (\<lambda>sourcePrefix.
              ret (if sourcePrefix \<noteq> ToLower (re_prefix request) then 0 else offset, sourceSHA256))
          else ret (offset, sourceSHA256)))"

text \<open>The loop; \<open>files\<close> is the map of the files by item that is built before it.\<close>

fun accept_loop ::
  "(string \<Rightarrow> string) \<Rightarrow> fs \<Rightarrow> (int \<Rightarrow> sendFileEntry option) \<Rightarrow> ResumeEntry list \<Rightarrow> ResumeEntry list \<Rightarrow> (int \<Rightarrow> int option)
     \<Rightarrow> (PreparedPath, send_error, ResumeEntry list \<times> (int \<Rightarrow> int option)) act" where
  "accept_loop sha f files [] accepted offsets = ret (accepted, offsets)"
| "accept_loop sha f files (request # requests) accepted offsets =
     bind_act (gets pp_items) (\<lambda>items.
     if re_item request < 0 \<or> re_item request \<ge> int (length items) then throw (ResumeItemRange (re_item request))
     else case files (re_item request) of
       None \<Rightarrow> throw (ResumeNonFile (item_name (items ! nat (re_item request))))
     | Some entry \<Rightarrow>
         if item_kind (sf_Item entry) \<noteq> ItemFile then throw (ResumeNonFile (item_name (sf_Item entry)))
         else bind_act (accept_offset sha f entry request) (\<lambda>(offset, hash).
           accept_loop sha f files requests
             (accepted @ [\<lparr>re_item = re_item request, re_stream = re_stream request, re_offset = offset, re_prefix = '''',
                           re_sha256 = (if re_skip request then '''' else ToLower hash),
                           re_skip = re_skip request, re_complete = re_complete request\<rparr>])
             (offsets(re_item request \<mapsto> offset))))"

definition files_by_item :: "sendFileEntry list \<Rightarrow> int \<Rightarrow> sendFileEntry option" where
  "files_by_item files = foldl (\<lambda>m file. m(sf_ItemID file \<mapsto> file)) Map.empty files"

definition acceptResumeRequests ::
  "(string \<Rightarrow> string) \<Rightarrow> fs \<Rightarrow> ResumeEntry list \<Rightarrow> (PreparedPath, send_error, ResumeEntry list \<times> (int \<Rightarrow> int option)) act" where
  "acceptResumeRequests sha f requests =
     bind_act (gets pp_files) (\<lambda>files. accept_loop sha f (files_by_item files) requests [] Map.empty)"

section \<open>File streams\<close>

record fileSendState =
  ss_index :: int
  ss_streamID :: int
  ss_entry :: sendFileEntry
  ss_file :: "string option"
  ss_offset :: int
  ss_done :: bool
  ss_end :: bool

record sendWorld =
  sw_session :: TransferSession
  sw_states :: "fileSendState list"
  sw_scheduler :: WeightedScheduler
  sw_progress :: progressReporter
  sw_sent :: "(int \<times> int \<times> string) list"

definition fileStreamWeight :: "int \<Rightarrow> int" where
  "fileStreamWeight remaining = (if remaining \<le> 2 ^ 20 then 4 else if remaining \<le> 16 * 2 ^ 20 then 2 else 1)"

definition minimumAdaptiveChunkSize :: int where
  "minimumAdaptiveChunkSize = 16 * 1024"

text \<open>
  The first loop of \<open>sendPathItemsWeighted\<close>: the state of a file stream, whose \<open>ss_file\<close> is the
  opened file, read from \<open>ss_offset\<close> on; a stream with nothing to send is done and not opened.
\<close>

definition open_stream_state ::
  "fs \<Rightarrow> TransferSession \<Rightarrow> (int \<Rightarrow> int option) \<Rightarrow> sendFileEntry \<Rightarrow> (send_error, fileSendState) result" where
  "open_stream_state f s resumeOffsets entry =
     (let item = sf_Item entry;
          resumeOffset = clampInt64 (case resumeOffsets (sf_ItemID entry) of None \<Rightarrow> 0 | Some n \<Rightarrow> n) 0 (item_size item)
      in case StreamIDForItem s (sf_ItemID entry) of
           Inl e \<Rightarrow> Inl (SessErr e)
         | Inr streamID \<Rightarrow>
             let state = \<lparr>ss_index = sf_ItemID entry, ss_streamID = streamID, ss_entry = entry, ss_file = None,
                          ss_offset = resumeOffset, ss_done = resumeOffset \<ge> item_size item, ss_end = False\<rparr>
             in if ss_done state then Inr state
                else case ReadFile f (sf_Path entry) of
                  Inl e \<Rightarrow> Inl (FileErr e)
                | Inr content \<Rightarrow> Inr (state\<lparr>ss_file := Some content\<rparr>))"

fun open_states ::
  "fs \<Rightarrow> TransferSession \<Rightarrow> (int \<Rightarrow> int option) \<Rightarrow> sendFileEntry list \<Rightarrow> (send_error, fileSendState list) result" where
  "open_states f s resumeOffsets [] = Inr []"
| "open_states f s resumeOffsets (entry # files) =
     rbind (open_stream_state f s resumeOffsets entry) (\<lambda>state.
     rbind (open_states f s resumeOffsets files) (\<lambda>states. Inr (state # states)))"

definition weighted_streams :: "fileSendState list \<Rightarrow> WeightedStream list" where
  "weighted_streams states =
     map (\<lambda>st. \<lparr>wstream_id = ss_streamID st,
                wstream_weight = fileStreamWeight (sub64 (item_size (sf_Item (ss_entry st))) (ss_offset st))\<rparr>)
       (filter (\<lambda>st. \<not> ss_done st) states)"

text \<open>\<open>stateByStream\<close>: the last opened stream with the number; streams have different numbers.\<close>

definition state_by_stream :: "fileSendState list \<Rightarrow> int \<Rightarrow> nat option" where
  "state_by_stream states streamID =
     (case filter (\<lambda>k. ss_streamID (states ! k) = streamID \<and> ss_file (states ! k) \<noteq> None) [0..<length states] of
        [] \<Rightarrow> None | ks \<Rightarrow> Some (last ks))"

definition on_session :: "'a sess_act \<Rightarrow> (sendWorld, send_error, 'a) act" where
  "on_session m w =
     (case m (sw_session w) of
        (Inl e, s) \<Rightarrow> (Inl (SessErr e), w\<lparr>sw_session := s\<rparr>)
      | (Inr a, s) \<Rightarrow> (Inr a, w\<lparr>sw_session := s\<rparr>))"

text \<open>
  \<open>SendChunk\<close> of the session or, with striping, of the parallel sender: the message is queued on a
  data connection, whose worker sends its queue in order.
\<close>

definition parallel_send :: "wire \<Rightarrow> (string \<Rightarrow> string) \<Rightarrow> int \<Rightarrow> int \<Rightarrow> int \<Rightarrow> int \<Rightarrow> string \<Rightarrow> unit sess_act" where
  "parallel_send w gz now k itemID offset data =
     bind_act (buildChunkMessage gz now itemID offset data) (\<lambda>message. send_on w k message)"

definition send_file_chunk ::
  "wire \<Rightarrow> (string \<Rightarrow> string) \<Rightarrow> int \<Rightarrow> (nat \<Rightarrow> int) \<Rightarrow> int \<Rightarrow> int \<Rightarrow> string \<Rightarrow> (sendWorld, send_error, unit) act" where
  "send_file_chunk w gz now pick itemID offset data =
     bind_act (gets (\<lambda>sw. (StripesChunks (sw_session sw), length (sw_sent sw)))) (\<lambda>(striped, n).
     bind_act (on_session (if striped then parallel_send w gz now (pick n) itemID offset data
                           else SendChunk w gz now itemID offset data)) (\<lambda>_.
       modify (\<lambda>sw. sw\<lparr>sw_sent := sw_sent sw @ [(itemID, offset, data)]\<rparr>)))"

definition set_state :: "nat \<Rightarrow> fileSendState \<Rightarrow> sendWorld \<Rightarrow> sendWorld" where
  "set_state k st sw = sw\<lparr>sw_states := (sw_states sw)[k := st]\<rparr>"

definition file_read :: "fileSendState \<Rightarrow> int \<Rightarrow> string" where
  "file_read st budget = take (nat budget) (drop (nat (ss_offset st)) (the (ss_file st)))"

definition sendNextFileChunk ::
  "(int \<Rightarrow> int \<Rightarrow> string \<Rightarrow> (sendWorld, send_error, unit) act) \<Rightarrow> nat \<Rightarrow> int \<Rightarrow> (sendWorld, send_error, int \<times> bool) act" where
  "sendNextFileChunk send k budget =
     bind_act (gets (\<lambda>sw. sw_states sw ! k)) (\<lambda>st.
       let data = file_read st budget; n = int (length data); st1 = st\<lparr>ss_offset := add64 (ss_offset st) n\<rparr> in
       bind_act (if n > 0 then
                   bind_act (send (ss_index st) (ss_offset st) data) (\<lambda>_.
                     modify (\<lambda>sw. (set_state k st1 sw)\<lparr>sw_progress := AddStream (ss_index st) n (sw_progress sw)\<rparr>))
                 else ret ()) (\<lambda>_.
       if n = 0 \<and> budget > 0 then
         bind_act (modify (set_state k (st\<lparr>ss_done := True\<rparr>))) (\<lambda>_. ret (n, True))
       else if (if n > 0 then ss_offset st1 else ss_offset st) \<ge> item_size (sf_Item (ss_entry st)) then
         bind_act (modify (set_state k ((if n > 0 then st1 else st)\<lparr>ss_done := True\<rparr>))) (\<lambda>_. ret (n, True))
       else if n = 0 then throw SendNoProgress
       else ret (n, False)))"

text \<open>
  The send loop, with at most \<open>fuel\<close> turns. \<open>SchedulerStuck\<close> stands for a search of the scheduler
  that does not return.
\<close>

definition sched_next :: "int \<Rightarrow> (sendWorld, send_error, Turn) act" where
  "sched_next maxChunk sw =
     (case Next (sw_scheduler sw) maxChunk of
        None \<Rightarrow> (Inl SchedulerStuck, sw)
      | Some (Inl e) \<Rightarrow> (Inl (SchedErr e), sw)
      | Some (Inr (sched, t)) \<Rightarrow> (Inr t, sw\<lparr>sw_scheduler := sched\<rparr>))"

definition sched_commit :: "int \<Rightarrow> int \<Rightarrow> bool \<Rightarrow> (sendWorld, send_error, unit) act" where
  "sched_commit streamID used fin =
     try_put SchedErr (\<lambda>sw. rbind (Commit (sw_scheduler sw) streamID used fin) (\<lambda>sched. Inr (sw\<lparr>sw_scheduler := sched\<rparr>)))"

fun send_loop ::
  "(int \<Rightarrow> int \<Rightarrow> string \<Rightarrow> (sendWorld, send_error, unit) act) \<Rightarrow> (nat \<Rightarrow> SendMetrics) \<Rightarrow> nat \<Rightarrow> (sendWorld, send_error, unit) act" where
  "send_loop send metrics 0 = throw TurnsUsedUp"
| "send_loop send metrics (Suc fuel) =
     bind_act (gets (\<lambda>sw. metrics (length (sw_sent sw)))) (\<lambda>m.
     bind_act (sched_next (AdaptiveSendBudget ChunkSize minimumAdaptiveChunkSize m)) (\<lambda>t.
       if \<not> turn_ok t then ret ()
       else bind_act (gets (\<lambda>sw. state_by_stream (sw_states sw) (turn_stream t))) (\<lambda>found.
         case found of
           None \<Rightarrow> throw (UnknownStream (turn_stream t))
         | Some k \<Rightarrow>
             bind_act (sendNextFileChunk send k (turn_budget t)) (\<lambda>(used, fin).
             bind_act (sched_commit (turn_stream t) used fin) (\<lambda>_. send_loop send metrics fuel)))))"

definition sendFileStreamEnd :: "wire \<Rightarrow> int \<Rightarrow> nat \<Rightarrow> (sendWorld, send_error, unit) act" where
  "sendFileStreamEnd w now k =
     bind_act (gets (\<lambda>sw. sw_states sw ! k)) (\<lambda>st.
       if ss_end st then ret ()
       else bind_act (modify (set_state k (st\<lparr>ss_end := True\<rparr>))) (\<lambda>_. on_session (EndStream w now (ss_index st))))"

text \<open>Enough turns: every turn sends a byte or finishes a stream.\<close>

definition turns_needed :: "fileSendState list \<Rightarrow> nat" where
  "turns_needed states =
     Suc (\<Sum>st\<leftarrow>states. Suc (length (case ss_file st of None \<Rightarrow> '''' | Some d \<Rightarrow> d)))"

definition sendPathItemsWeighted ::
  "wire \<Rightarrow> (string \<Rightarrow> string) \<Rightarrow> int \<Rightarrow> (nat \<Rightarrow> int) \<Rightarrow> (nat \<Rightarrow> SendMetrics) \<Rightarrow> fs \<Rightarrow> Item list \<Rightarrow> sendFileEntry list
     \<Rightarrow> (int \<Rightarrow> int option) \<Rightarrow> (sendWorld, send_error, unit) act" where
  "sendPathItemsWeighted w gz now pick metrics f items files resumeOffsets =
     bind_act (try_get (\<lambda>e. e) (\<lambda>sw. open_states f (sw_session sw) resumeOffsets files)) (\<lambda>states.
     bind_act (modify (\<lambda>sw. sw\<lparr>sw_states := states\<rparr>)) (\<lambda>_.
     bind_act (for_each (\<lambda>itemID. bind_act (on_session (OpenStream w now itemID)) (\<lambda>_. on_session (EndStream w now itemID)))
                 (filter (\<lambda>i. i \<notin> set (map sf_ItemID files)) (map int [0..<length items]))) (\<lambda>_.
     bind_act (for_each (\<lambda>k. bind_act (on_session (OpenStream w now (ss_index (states ! k)))) (\<lambda>_.
                   if ss_done (states ! k) then sendFileStreamEnd w now k else ret ()))
                 [0..<length states]) (\<lambda>_.
     bind_act (try_put SchedErr (\<lambda>sw. rbind (NewWeightedScheduler (weighted_streams states) ChunkSize) (\<lambda>sched. Inr (sw\<lparr>sw_scheduler := sched\<rparr>)))) (\<lambda>_.
     bind_act (send_loop (send_file_chunk w gz now pick) metrics (turns_needed states)) (\<lambda>_.
       for_each (sendFileStreamEnd w now) [0..<length states]))))))"

section \<open>Sending a prepared path and a text\<close>

definition no_scheduler :: WeightedScheduler where
  "no_scheduler = \<lparr>sc_streams = [], sc_byID = Map.empty, sc_quantum = 0, sc_cursor = 0, sc_active = 0, sc_current = None, sc_budget = 0\<rparr>"

definition new_world :: "TransferSession \<Rightarrow> progressReporter \<Rightarrow> sendWorld" where
  "new_world s progress = \<lparr>sw_session = s, sw_states = [], sw_scheduler = no_scheduler, sw_progress = progress, sw_sent = []\<rparr>"

text \<open>\<open>Send\<close> from the point where the session is established: the session, the prepared path and what was sent.\<close>

definition Send ::
  "wire \<Rightarrow> (string \<Rightarrow> string) \<Rightarrow> gunzip_fun \<Rightarrow> (string \<Rightarrow> string) \<Rightarrow> int \<Rightarrow> (nat \<Rightarrow> int) \<Rightarrow> (nat \<Rightarrow> SendMetrics) \<Rightarrow> fs
     \<Rightarrow> PreparedPath \<Rightarrow> (sendWorld, send_error, PreparedPath) act" where
  "Send w gz gunzip sha now pick metrics f p =
     (if pp_items p = [] then throw PreparedEmpty
      else
        bind_act (gets (\<lambda>sw. DeferredFileSHA256 (sw_session sw))) (\<lambda>deferred.
        bind_act (try_get (\<lambda>e. e) (\<lambda>_. case manifestItems sha f deferred p of (Inl e, _) \<Rightarrow> Inl e | (Inr items, p') \<Rightarrow> Inr (items, p'))) (\<lambda>(items, p1).
        bind_act (on_session (SendManifest w items)) (\<lambda>_.
        bind_act (if hasResumableFiles p1 then
                    bind_act (on_session (WaitResume gunzip now items)) (\<lambda>requests.
                    bind_act (try_get (\<lambda>e. e) (\<lambda>_. case acceptResumeRequests sha f requests p1 of
                                 (Inl e, _) \<Rightarrow> Inl e | (Inr (accepted, offsets), p') \<Rightarrow> Inr (accepted, offsets, p'))) (\<lambda>(accepted, offsets, p2).
                    bind_act (on_session (SendResumeAccept w now accepted)) (\<lambda>_. ret (offsets, p2))))
                  else ret (Map.empty, p1)) (\<lambda>(resumeOffsets, p2).
        bind_act (modify (\<lambda>sw. sw\<lparr>sw_progress := newStreamProgressReporter items resumeOffsets\<rparr>)) (\<lambda>_.
        bind_act (sendPathItemsWeighted w gz now pick metrics f items (pp_files p2) resumeOffsets) (\<lambda>_.
        bind_act (on_session (SendDone w now)) (\<lambda>_.
        bind_act (on_session (WaitComplete gunzip now)) (\<lambda>_. ret p2)))))))))"

definition text_item :: "(string \<Rightarrow> string) \<Rightarrow> string \<Rightarrow> Item" where
  "text_item sha text =
     \<lparr>item_kind = ItemText, item_name = ''message.txt'', item_size = int (length text), item_mtime = 0, item_mode = 0,
      item_sha256 = bytesSHA256 sha text, item_sample = '''', item_target = '''', item_chunk_size = ChunkSize, item_resume = False\<rparr>"

text \<open>\<open>SendText\<close> from the point where the session is established.\<close>

definition SendText :: "wire \<Rightarrow> (string \<Rightarrow> string) \<Rightarrow> gunzip_fun \<Rightarrow> (string \<Rightarrow> string) \<Rightarrow> int \<Rightarrow> string \<Rightarrow> unit sess_act" where
  "SendText w gz gunzip sha now text =
     bind_act (SendManifest w [text_item sha text]) (\<lambda>_.
     bind_act (OpenStream w now 0) (\<lambda>_.
     bind_act (SendChunk w gz now 0 0 text) (\<lambda>_.
     bind_act (EndStream w now 0) (\<lambda>_.
     bind_act (SendDone w now) (\<lambda>_.
       WaitComplete gunzip now)))))"

end
