(* ===== verification/Sender_Loop.thy ===== *)
theory Sender_Loop
  imports Sender
begin

text \<open>
  The send loop of \<open>sendPathItemsWeighted\<close>. What it relies on is stated as two interfaces: a
  scheduler that grants turns to live streams until none is left, and a chunk sender (the Go
  interface \<open>chunkMessageSender\<close>), which takes one chunk and touches nothing of the loop's own state.
  Under them the loop ends, and the chunks of every file are its bytes, in order and without gaps.
\<close>

section \<open>Schedulers\<close>

locale stream_scheduler =
  fixes next_turn :: "'s \<Rightarrow> int \<Rightarrow> ('e, 's \<times> Turn) result option"
    and commit :: "'s \<Rightarrow> int \<Rightarrow> int \<Rightarrow> bool \<Rightarrow> ('e, 's) result"
    and idle :: "'s \<Rightarrow> bool"
    and live :: "'s \<Rightarrow> int set"
  assumes next_none: "idle s \<Longrightarrow> 0 < m \<Longrightarrow> live s = {} \<Longrightarrow> \<exists>t. next_turn s m = Some (Inr (s, t)) \<and> \<not> turn_ok t"
    and next_some: "idle s \<Longrightarrow> 0 < m \<Longrightarrow> live s \<noteq> {} \<Longrightarrow>
      \<exists>s' t. next_turn s m = Some (Inr (s', t)) \<and> turn_ok t \<and> turn_stream t \<in> live s \<and> 0 < turn_budget t \<and> turn_budget t \<le> m
        \<and> (\<forall>used fin. 0 \<le> used \<and> used \<le> turn_budget t \<and> (used = 0 \<longrightarrow> fin) \<longrightarrow>
             (\<exists>s''. commit s' (turn_stream t) used fin = Inr s'' \<and> idle s''
                \<and> live s'' = (if fin then live s - {turn_stream t} else live s)))"
begin

text \<open>A scheduler always answers, and a refused turn means that every stream is finished.\<close>

lemma next_answers:
  assumes "idle s" "0 < m"
  obtains s' t where "next_turn s m = Some (Inr (s', t))" "turn_ok t \<longleftrightarrow> live s \<noteq> {}"
proof (cases "live s = {}")
  case True
  with next_none [OF assms] that show ?thesis by blast
next
  case False
  with next_some [OF assms False] that show ?thesis by blast
qed

end

definition sched_idle :: "WeightedScheduler \<Rightarrow> bool" where
  "sched_idle s \<longleftrightarrow> sched_inv s \<and> sc_current s = None"

definition live_streams :: "WeightedScheduler \<Rightarrow> int set" where
  "live_streams s = ws_id ` {st \<in> set (sc_streams s). ws_active st}"

lemma live_none: "sched_inv s \<Longrightarrow> live_streams s = {} \<longleftrightarrow> sc_active s = 0"
  by (auto simp: live_streams_def sched_inv_def filter_empty_conv)

lemma ids_upd:
  assumes "distinct (map ws_id ss)" "c < length ss" "ws_id st = ws_id (ss ! c)"
  shows "ws_id ` {x \<in> set (ss[c := st]). ws_active x} =
    (if ws_active st then insert (ws_id st) (ws_id ` {x \<in> set ss. ws_active x}) else ws_id ` {x \<in> set ss. ws_active x} - {ws_id st})"
proof -
  have nth: "ws_id (ss ! i) = ws_id (ss ! c) \<longleftrightarrow> i = c" if "i < length ss" for i
    using assms(1,2) that by (metis distinct_conv_nth length_map nth_map)
  have "k \<in> ws_id ` {x \<in> set (ss[c := st]). ws_active x} \<longleftrightarrow>
      (\<exists>i < length ss. k = ws_id (ss[c := st] ! i) \<and> ws_active (ss[c := st] ! i))" for k
    by (auto simp: in_set_conv_nth image_iff)
  moreover have "k \<in> ws_id ` {x \<in> set ss. ws_active x} \<longleftrightarrow> (\<exists>i < length ss. k = ws_id (ss ! i) \<and> ws_active (ss ! i))" for k
    by (auto simp: in_set_conv_nth image_iff)
  ultimately show ?thesis using assms(2,3) nth
    by (intro set_eqI) (auto simp: nth_list_update split: if_splits; metis)
qed

lemma Commit_live:
  assumes "sched_inv s" "sc_current s = Some c" "0 \<le> used" "used \<le> sc_budget s" "used = 0 \<longrightarrow> fin"
  shows "\<exists>s'. Commit s (ws_id (sc_streams s ! c)) used fin = Inr s' \<and> sched_idle s'
    \<and> live_streams s' = (if fin then live_streams s - {ws_id (sc_streams s ! c)} else live_streams s)"
proof -
  let ?st = "sc_streams s ! c"
  obtain s' where s': "Commit s (ws_id ?st) used fin = Inr s'"
    using assms by (auto simp: Commit_def Let_def)
  have c: "c < length (sc_streams s)" "ws_active ?st" "distinct (map ws_id (sc_streams s))"
    using assms(1,2) by (auto simp: sched_inv_def)
  define st' where "st' = (if fin then ?st\<lparr>ws_active := False, ws_deficit := 0\<rparr> else ?st\<lparr>ws_deficit := sub64 (ws_deficit ?st) used\<rparr>)"
  have st': "ws_id st' = ws_id ?st" "ws_active st' \<longleftrightarrow> \<not> fin" using c(2) by (auto simp: st'_def)
  have "sc_streams s' = (sc_streams s)[c := st']"
    using Commit_Inr(5) [OF s' assms(2)] by (auto simp: Let_def st'_def advance_def)
  then have "live_streams s' = (if fin then live_streams s - {ws_id ?st} else insert (ws_id ?st) (live_streams s))"
    using ids_upd [OF c(3,1) st'(1)] st' by (simp add: live_streams_def)
  moreover have "ws_id ?st \<in> live_streams s" using c by (auto simp: live_streams_def)
  moreover have "sched_idle s'" using commit_inv [OF assms(1,2) s'] by (simp add: sched_idle_def)
  ultimately show ?thesis using s' by (auto simp: insert_absorb)
qed

interpretation ws: stream_scheduler Next Commit sched_idle live_streams
proof
  fix s :: WeightedScheduler and m :: int
  assume idle: "sched_idle s" and m: "0 < m"
  then have inv: "sched_inv s" "sc_current s = None" by (auto simp: sched_idle_def)
  show "\<exists>t. Next s m = Some (Inr (s, t)) \<and> \<not> turn_ok t" if "live_streams s = {}"
    using that inv m live_none by (simp add: Next_def)
  assume "live_streams s \<noteq> {}"
  then have act: "sc_active s \<noteq> 0" using inv live_none by blast
  obtain k s' t where n: "Next s m = Some (Inr (s', t))"
    and g: "grant (s\<lparr>sc_cursor := (sc_cursor s + k) mod length (sc_streams s)\<rparr>) m = (s', t)"
    and k: "(sc_cursor s + k) mod length (sc_streams s) < length (sc_streams s)"
      "ws_active (sc_streams s ! ((sc_cursor s + k) mod length (sc_streams s)))"
    using Next_active [OF inv m act] by metis
  define c where "c = (sc_cursor s + k) mod length (sc_streams s)"
  let ?s = "s\<lparr>sc_cursor := c\<rparr>" and ?st = "sc_streams s ! c"
  have inv': "sched_inv ?s" using inv k(1) by (intro sched_inv_cursor) (auto simp: c_def)
  have pre: "sc_current ?s = None" "sc_cursor ?s < length (sc_streams ?s)" "ws_active (sc_streams ?s ! sc_cursor ?s)"
    using inv(2) k by (simp_all add: c_def)
  note gr = grant_ok [OF inv' pre(1) m pre(2,3) g [folded c_def]]
  have t: "sched_inv s'" "sc_current s' = Some c" "turn_ok t" "turn_stream t = ws_id ?st"
      "turn_budget t = min m (left_over (sc_quantum s) ?st)"
    using gr(1) by simp_all
  have budget: "sc_budget s' = turn_budget t" using gr(2) by simp
  have st: "sc_streams s' = (sc_streams s)[c := ?st\<lparr>ws_deficit := left_over (sc_quantum s) ?st\<rparr>]" using gr(2) by simp
  have c: "c < length (sc_streams s)" "ws_active ?st" using k by (simp_all add: c_def)
  have "distinct (map ws_id (sc_streams s))" using inv by (simp add: sched_inv_def)
  from ids_upd [OF this c(1), of "?st\<lparr>ws_deficit := left_over (sc_quantum s) ?st\<rparr>"]
  have live: "live_streams s' = insert (ws_id ?st) (live_streams s)" using c(2) by (simp add: live_streams_def st)
  have mem: "ws_id ?st \<in> live_streams s" using c by (auto simp: live_streams_def)
  have pos: "0 < turn_budget t" using t(1,2) budget by (simp add: sched_inv_def)
  have id: "ws_id (sc_streams s' ! c) = ws_id ?st" using c(1) by (simp add: st)
  have "\<exists>s''. Commit s' (turn_stream t) used fin = Inr s'' \<and> sched_idle s''
      \<and> live_streams s'' = (if fin then live_streams s - {turn_stream t} else live_streams s)"
    if "0 \<le> used \<and> used \<le> turn_budget t \<and> (used = 0 \<longrightarrow> fin)" for used fin
    using Commit_live [OF t(1,2), of used fin] that live mem t(4) budget id by (cases fin) (simp_all add: insert_absorb)
  with n t mem pos show "\<exists>s' t. Next s m = Some (Inr (s', t)) \<and> turn_ok t \<and> turn_stream t \<in> live_streams s \<and> 0 < turn_budget t
      \<and> turn_budget t \<le> m
      \<and> (\<forall>used fin. 0 \<le> used \<and> used \<le> turn_budget t \<and> (used = 0 \<longrightarrow> fin) \<longrightarrow>
           (\<exists>s''. Commit s' (turn_stream t) used fin = Inr s'' \<and> sched_idle s''
              \<and> live_streams s'' = (if fin then live_streams s - {turn_stream t} else live_streams s)))"
    by (intro exI [of _ s'] exI [of _ t]) auto
qed

section \<open>The chunks of a file\<close>

text \<open>Chunks that are the bytes of \<open>d\<close> from offset \<open>b\<close> to offset \<open>e\<close>, in order, each within the chunk size.\<close>

fun tiles :: "string \<Rightarrow> int \<Rightarrow> (int \<times> string) list \<Rightarrow> int \<Rightarrow> bool" where
  "tiles d b [] e \<longleftrightarrow> b = e"
| "tiles d b ((offset, bs) # cs) e \<longleftrightarrow> offset = b \<and> bs \<noteq> [] \<and> int (length bs) \<le> ChunkSize
     \<and> bs = take (length bs) (drop (nat b) d) \<and> tiles d (b + int (length bs)) cs e"

lemma tiles_snoc:
  "tiles d b (cs @ [(offset, bs)]) e \<longleftrightarrow> tiles d b cs offset \<and> bs \<noteq> [] \<and> int (length bs) \<le> ChunkSize
     \<and> bs = take (length bs) (drop (nat offset) d) \<and> e = offset + int (length bs)"
  by (induction cs arbitrary: b) auto

lemma tiles_data:
  assumes "tiles d b cs e" "0 \<le> b" "e \<le> int (length d)"
  shows "concat (map snd cs) = take (nat (e - b)) (drop (nat b) d) \<and> b \<le> e"
  using assms
proof (induction cs arbitrary: b)
  case (Cons x cs)
  obtain offset bs where x: "x = (offset, bs)" by (cases x)
  with Cons.prems have c: "bs = take (length bs) (drop (nat b) d)" "tiles d (b + int (length bs)) cs e" by auto
  from Cons.IH [OF c(2)] Cons.prems have IH: "concat (map snd cs) = take (nat (e - (b + int (length bs)))) (drop (nat (b + int (length bs))) d)"
      "b + int (length bs) \<le> e" by auto
  have n: "nat (e - b) = length bs + nat (e - (b + int (length bs)))" "nat (b + int (length bs)) = nat b + length bs"
    using IH(2) Cons.prems(2) by auto
  have "take (nat (e - b)) (drop (nat b) d) = take (length bs) (drop (nat b) d) @ take (nat (e - (b + int (length bs)))) (drop (nat b + length bs) d)"
    unfolding n(1) by (simp add: take_add add.commute)
  with IH(1,2) c(1) x n(2) show ?case by simp
qed simp

definition chunks_for :: "int \<Rightarrow> (int \<times> int \<times> string) list \<Rightarrow> (int \<times> string) list" where
  "chunks_for i sent = map snd (filter (\<lambda>c. fst c = i) sent)"

lemma chunks_for_snoc [simp]: "chunks_for i (sent @ [(j, offset, bs)]) = chunks_for i sent @ (if j = i then [(offset, bs)] else [])"
  by (simp add: chunks_for_def)

lemma send_budget_range: "0 < AdaptiveSendBudget ChunkSize minimumAdaptiveChunkSize m
    \<and> AdaptiveSendBudget ChunkSize minimumAdaptiveChunkSize m \<le> ChunkSize"
  by (simp add: AdaptiveSendBudget_levels ChunkSize_def minimumAdaptiveChunkSize_def level_budget_def sdiv_pos)

section \<open>Loop invariant\<close>

text \<open>A stream that is open and not done has bytes left; the source has the size of its item.\<close>

definition state_ok :: "fileSendState \<Rightarrow> bool" where
  "state_ok st \<longleftrightarrow>
     (case ss_file st of
        None \<Rightarrow> ss_done st
      | Some d \<Rightarrow> item_size (sf_Item (ss_entry st)) = int (length d) \<and> in_i64 (int (length d))
          \<and> 0 \<le> ss_offset st \<and> ss_offset st \<le> int (length d) \<and> (ss_done st \<longleftrightarrow> ss_offset st = int (length d)))"

definition moved :: "fileSendState \<Rightarrow> fileSendState \<Rightarrow> bool" where
  "moved st0 st \<longleftrightarrow> ss_index st = ss_index st0 \<and> ss_streamID st = ss_streamID st0 \<and> ss_entry st = ss_entry st0
     \<and> ss_file st = ss_file st0 \<and> ss_end st = ss_end st0"

definition progressed :: "fileSendState list \<Rightarrow> sendWorld \<Rightarrow> nat \<Rightarrow> bool" where
  "progressed states0 sw k \<longleftrightarrow>
     moved (states0 ! k) (sw_states sw ! k) \<and> state_ok (sw_states sw ! k)
     \<and> (\<forall>d. ss_file (states0 ! k) = Some d \<longrightarrow>
          tiles d (ss_offset (states0 ! k)) (chunks_for (ss_index (states0 ! k)) (sw_sent sw)) (ss_offset (sw_states sw ! k)))
     \<and> (ss_file (states0 ! k) = None \<longrightarrow> chunks_for (ss_index (states0 ! k)) (sw_sent sw) = [])"

definition loop_inv :: "fileSendState list \<Rightarrow> sendWorld \<Rightarrow> bool" where
  "loop_inv states0 sw \<longleftrightarrow>
     length (sw_states sw) = length states0 \<and> distinct (map ss_index states0) \<and> distinct (map ss_streamID states0)
     \<and> sched_idle (sw_scheduler sw)
     \<and> live_streams (sw_scheduler sw) = {ss_streamID st |st. st \<in> set (sw_states sw) \<and> \<not> ss_done st}
     \<and> (\<forall>k < length states0. progressed states0 sw k)"

definition left_to_send :: "sendWorld \<Rightarrow> nat" where
  "left_to_send sw = (\<Sum>st\<leftarrow>sw_states sw. case ss_file st of None \<Rightarrow> 0 | Some d \<Rightarrow> length d - nat (ss_offset st))"

lemma filter_single: "k < n \<Longrightarrow> filter (\<lambda>j. j = k) [0..<n] = [k]"
  by (induction n) (auto simp: less_Suc_eq filter_empty_conv)

lemma state_by_stream_unique:
  assumes "distinct (map ss_streamID states)" "k < length states" "ss_file (states ! k) \<noteq> None"
  shows "state_by_stream states (ss_streamID (states ! k)) = Some k"
proof -
  have eq: "j < length states \<Longrightarrow> ss_streamID (states ! j) = ss_streamID (states ! k) \<longleftrightarrow> j = k" for j
    using assms(1,2) by (metis distinct_conv_nth length_map nth_map)
  have "filter (\<lambda>j. ss_streamID (states ! j) = ss_streamID (states ! k) \<and> ss_file (states ! j) \<noteq> None) [0..<length states]
      = filter (\<lambda>j. j = k) [0..<length states]"
    using eq assms(3) by (intro filter_cong) auto
  also have "\<dots> = [k]" by (rule filter_single [OF assms(2)])
  finally show ?thesis by (simp add: state_by_stream_def)
qed

section \<open>Chunk senders\<close>

lemma not_done: "\<not> ss_done st \<Longrightarrow> st\<lparr>ss_offset := x, ss_done := False\<rparr> = st\<lparr>ss_offset := x\<rparr>" for st :: fileSendState
  by (cases st) simp

locale chunk_sender =
  fixes send :: "int \<Rightarrow> int \<Rightarrow> string \<Rightarrow> (sendWorld, send_error, unit) act"
  assumes sends: "send i offset bs sw = (Inr u, sw') \<Longrightarrow> sw_states sw' = sw_states sw \<and> sw_scheduler sw' = sw_scheduler sw
      \<and> sw_progress sw' = sw_progress sw \<and> sw_sent sw' = sw_sent sw @ [(i, offset, bs)]"
    and fails: "send i offset bs sw = (Inl e, sw') \<Longrightarrow> \<exists>e'. e = SessErr e'"
begin

lemma next_chunk:
  assumes st: "sw_states sw ! k = st" "state_ok st" "\<not> ss_done st" "ss_file st = Some d" and budget: "0 < budget"
    and run: "sendNextFileChunk send k budget sw = (r, sw')"
  shows "case r of Inl e \<Rightarrow> \<exists>e'. e = SessErr e'
    | Inr (used, fin) \<Rightarrow> (let bs = take (nat budget) (drop (nat (ss_offset st)) d); st' = st\<lparr>ss_offset := ss_offset st + int (length bs), ss_done := fin\<rparr>
        in used = int (length bs) \<and> bs \<noteq> [] \<and> state_ok st' \<and> sw_states sw' = (sw_states sw)[k := st']
          \<and> sw_scheduler sw' = sw_scheduler sw \<and> sw_sent sw' = sw_sent sw @ [(ss_index st, ss_offset st, bs)])"
proof -
  define bs where "bs = take (nat budget) (drop (nat (ss_offset st)) d)"
  have ok: "item_size (sf_Item (ss_entry st)) = int (length d)" "in_i64 (int (length d))" "0 \<le> ss_offset st"
      "ss_offset st < int (length d)" using st(2-4) by (auto simp: state_ok_def)
  have n: "length bs = min (nat budget) (length d - nat (ss_offset st))" by (simp add: bs_def min.commute)
  then have pos: "0 < length bs" using ok(3,4) budget by simp
  have le: "ss_offset st + int (length bs) \<le> int (length d)" using n ok(3,4) by simp
  then have off: "add64 (ss_offset st) (int (length bs)) = ss_offset st + int (length bs)"
    using ok by (intro add64_id) (simp add: in_i64_def)
  have read: "file_read st budget = bs" by (simp add: file_read_def st(4) bs_def)
  show ?thesis
  proof (cases "send (ss_index st) (ss_offset st) bs sw")
    case (Pair res sw1)
    show ?thesis
    proof (cases res)
      case (Inl e)
      with Pair run pos have "r = Inl e"
        by (auto simp: sendNextFileChunk_def bind_act_def gets_def Let_def st(1) read)
      with fails [OF Pair [unfolded Inl]] show ?thesis by simp
    next
      case (Inr u)
      note same = sends [OF Pair [unfolded Inr]]
      define fin where "fin \<longleftrightarrow> ss_offset st + int (length bs) \<ge> int (length d)"
      define st' where "st' = st\<lparr>ss_offset := ss_offset st + int (length bs), ss_done := fin\<rparr>"
      have "r = Inr (int (length bs), fin) \<and> sw_states sw' = (sw_states sw)[k := st'] \<and> sw_scheduler sw' = sw_scheduler sw
          \<and> sw_sent sw' = sw_sent sw @ [(ss_index st, ss_offset st, bs)]"
        using run Pair Inr pos same ok(1) not_done [OF st(3)]
        by (auto simp: sendNextFileChunk_def bind_act_def gets_def Let_def st(1) read off modify_def ret_def set_state_def
            fin_def st'_def split: if_splits)
      moreover have "state_ok st'" using ok le st(4) by (auto simp: state_ok_def st'_def fin_def)
      ultimately show ?thesis using pos by (simp add: Let_def bs_def [symmetric] st'_def)
    qed
  qed
qed

end

lemma live_update:
  assumes "distinct (map ss_streamID ss)" "k < length ss" "\<not> ss_done (ss ! k)" "ss_streamID st = ss_streamID (ss ! k)"
  shows "{ss_streamID x |x. x \<in> set (ss[k := st]) \<and> \<not> ss_done x} =
    (if ss_done st then {ss_streamID x |x. x \<in> set ss \<and> \<not> ss_done x} - {ss_streamID st}
     else {ss_streamID x |x. x \<in> set ss \<and> \<not> ss_done x})"
proof -
  have nth: "ss_streamID (ss ! i) = ss_streamID (ss ! k) \<longleftrightarrow> i = k" if "i < length ss" for i
    using assms(1,2) that by (metis distinct_conv_nth length_map nth_map)
  have "s \<in> {ss_streamID x |x. x \<in> set (ss[k := st]) \<and> \<not> ss_done x} \<longleftrightarrow>
      (\<exists>i < length ss. s = ss_streamID (ss[k := st] ! i) \<and> \<not> ss_done (ss[k := st] ! i))" for s
    by (auto simp: in_set_conv_nth)
  moreover have "s \<in> {ss_streamID x |x. x \<in> set ss \<and> \<not> ss_done x} \<longleftrightarrow> (\<exists>i < length ss. s = ss_streamID (ss ! i) \<and> \<not> ss_done (ss ! i))" for s
    by (auto simp: in_set_conv_nth)
  ultimately show ?thesis using assms(2-4) nth
    by (intro set_eqI) (auto simp: nth_list_update split: if_splits; metis)
qed

lemma left_update:
  assumes "k < length (sw_states sw)" "ss_file (sw_states sw ! k) = Some d"
    and "sw_states sw' = (sw_states sw)[k := (sw_states sw ! k)\<lparr>ss_offset := ss_offset (sw_states sw ! k) + int n, ss_done := fin\<rparr>]"
    and "0 \<le> ss_offset (sw_states sw ! k)" "ss_offset (sw_states sw ! k) + int n \<le> int (length d)" "0 < n"
  shows "left_to_send sw' < left_to_send sw"
proof -
  let ?f = "\<lambda>st. case ss_file st of None \<Rightarrow> 0 | Some d \<Rightarrow> length d - nat (ss_offset st)"
  let ?ss = "sw_states sw"
  have split: "sum_list (map ?f (?ss[k := x])) + ?f (?ss ! k) = sum_list (map ?f ?ss) + ?f x" for x
    using assms(1) elem_le_sum_list [of k "map ?f ?ss"] by (simp add: map_update sum_list_update)
  have "length d - nat (ss_offset (?ss ! k) + int n) < length d - nat (ss_offset (?ss ! k))" using assms(4-6) by linarith
  with split [of "(?ss ! k)\<lparr>ss_offset := ss_offset (?ss ! k) + int n, ss_done := fin\<rparr>"] assms(2,3)
  show ?thesis by (simp add: left_to_send_def)
qed

context chunk_sender
begin

text \<open>One turn keeps the invariant and sends something.\<close>

lemma turn_step:
  assumes inv: "loop_inv states0 sw" and k: "k < length states0" "\<not> ss_done (sw_states sw ! k)"
    and budget: "0 < budget" "budget \<le> ChunkSize"
    and run: "sendNextFileChunk send k budget (sw\<lparr>sw_scheduler := sc\<rparr>) = (r, sw1)"
  shows "case r of Inl e \<Rightarrow> \<exists>e'. e = SessErr e'
    | Inr (used, fin) \<Rightarrow> 0 < used \<and> used \<le> budget \<and> sw_scheduler sw1 = sc \<and> left_to_send sw1 < left_to_send sw
        \<and> {ss_streamID st |st. st \<in> set (sw_states sw1) \<and> \<not> ss_done st} =
            (if fin then live_streams (sw_scheduler sw) - {ss_streamID (states0 ! k)} else live_streams (sw_scheduler sw))
        \<and> length (sw_states sw1) = length states0 \<and> (\<forall>j < length states0. progressed states0 sw1 j)"
proof -
  let ?st = "sw_states sw ! k"
  have l: "length (sw_states sw) = length states0" and d: "distinct (map ss_index states0)" "distinct (map ss_streamID states0)"
      and pr: "\<And>j. j < length states0 \<Longrightarrow> progressed states0 sw j"
      and lv: "live_streams (sw_scheduler sw) = {ss_streamID st |st. st \<in> set (sw_states sw) \<and> \<not> ss_done st}"
    using inv by (auto simp: loop_inv_def)
  have st: "moved (states0 ! k) ?st" "state_ok ?st" using pr [OF k(1)] by (auto simp: progressed_def)
  obtain c where c: "ss_file ?st = Some c" using st(2) k(2) by (auto simp: state_ok_def split: option.splits)
  show ?thesis
  proof (cases r)
    case (Inl e)
    with next_chunk [OF _ st(2) k(2) c budget(1) run] show ?thesis by simp
  next
    case (Inr uf)
    obtain used fin where uf: "uf = (used, fin)" by (cases uf)
    define bs where "bs = take (nat budget) (drop (nat (ss_offset ?st)) c)"
    define st' where "st' = ?st\<lparr>ss_offset := ss_offset ?st + int (length bs), ss_done := fin\<rparr>"
    have res: "used = int (length bs)" "bs \<noteq> []" "state_ok st'" "sw_states sw1 = (sw_states sw)[k := st']"
        "sw_scheduler sw1 = sc" "sw_sent sw1 = sw_sent sw @ [(ss_index ?st, ss_offset ?st, bs)]"
      using next_chunk [OF _ st(2) k(2) c budget(1) run] by (simp_all add: Inr uf Let_def bs_def [symmetric] st'_def)
    have self: "bs = take (length bs) (drop (nat (ss_offset ?st)) c)" by (simp add: bs_def min_def)
    have len: "int (length bs) \<le> budget" using budget(1) by (simp add: bs_def)
    have off: "0 \<le> ss_offset ?st" "ss_offset ?st + int (length bs) \<le> int (length c)"
      using st(2) res(3) c by (auto simp: state_ok_def st'_def)
    have prog: "progressed states0 sw1 j" if j: "j < length states0" for j
    proof (cases "j = k")
      case True
      have "tiles c (ss_offset (states0 ! k)) (chunks_for (ss_index (states0 ! k)) (sw_sent sw1)) (ss_offset st')"
        if "ss_file (states0 ! k) = Some c"
        using pr [OF k(1)] that st(1) res(2,6) len budget(2) self
        by (auto simp: progressed_def moved_def tiles_snoc st'_def)
      with True st(1) res(3,4) l k(1) c show ?thesis
        by (auto simp: progressed_def moved_def st'_def)
    next
      case False
      then have "ss_index ?st \<noteq> ss_index (states0 ! j)"
        using d(1) k(1) j st(1) by (metis moved_def distinct_conv_nth length_map nth_map)
      with False pr [OF j] res(4,6) show ?thesis by (auto simp: progressed_def)
    qed
    have ids: "map ss_streamID (sw_states sw) = map ss_streamID states0"
      using l pr by (intro nth_equalityI) (auto simp: progressed_def moved_def)
    have "{ss_streamID st |st. st \<in> set (sw_states sw1) \<and> \<not> ss_done st} =
        (if fin then live_streams (sw_scheduler sw) - {ss_streamID (states0 ! k)} else live_streams (sw_scheduler sw))"
      using live_update [of "sw_states sw" k st'] ids d(2) k l st(1) unfolding lv res(4) by (simp add: st'_def moved_def)
    moreover have "left_to_send sw1 < left_to_send sw"
      using left_update [of k sw c sw1 fin "length bs"] k(1) l c res(2,4) off by (simp add: st'_def)
    ultimately show ?thesis using res len prog l by (simp add: Inr uf)
  qed
qed

lemma send_loop_ends:
  assumes "loop_inv states0 sw" "left_to_send sw < fuel" "send_loop send metrics fuel sw = (r, sw')"
  shows "case r of Inl e \<Rightarrow> \<exists>e'. e = SessErr e'
    | Inr _ \<Rightarrow> loop_inv states0 sw' \<and> (\<forall>st\<in>set (sw_states sw'). ss_done st)"
  using assms
proof (induction fuel arbitrary: sw)
  case (Suc fuel)
  define m where "m = AdaptiveSendBudget ChunkSize minimumAdaptiveChunkSize (metrics (length (sw_sent sw)))"
  have m: "0 < m" "m \<le> ChunkSize" using send_budget_range by (simp_all add: m_def)
  have idle: "sched_idle (sw_scheduler sw)" and l: "length (sw_states sw) = length states0"
      and ds: "distinct (map ss_streamID states0)" and pr: "\<And>j. j < length states0 \<Longrightarrow> progressed states0 sw j"
      and lv: "live_streams (sw_scheduler sw) = {ss_streamID st |st. st \<in> set (sw_states sw) \<and> \<not> ss_done st}"
    using Suc.prems(1) by (auto simp: loop_inv_def)
  note body = Suc.prems(3) [unfolded send_loop.simps bind_act_def gets_def, simplified, folded m_def]
  show ?case
  proof (cases "live_streams (sw_scheduler sw) = {}")
    case True
    obtain t where "Next (sw_scheduler sw) m = Some (Inr (sw_scheduler sw, t))" "\<not> turn_ok t"
      using ws.next_none [OF idle m(1) True] by blast
    with body have "r = Inr ()" "sw' = sw" by (auto simp: sched_next_def ret_def)
    with Suc.prems(1) True lv show ?thesis by auto
  next
    case False
    obtain sc t where n: "Next (sw_scheduler sw) m = Some (Inr (sc, t))" "turn_ok t" "turn_stream t \<in> live_streams (sw_scheduler sw)"
        "0 < turn_budget t" "turn_budget t \<le> m"
        and com: "\<And>used fin. 0 \<le> used \<and> used \<le> turn_budget t \<and> (used = 0 \<longrightarrow> fin) \<Longrightarrow>
          \<exists>s''. Commit sc (turn_stream t) used fin = Inr s'' \<and> sched_idle s''
            \<and> live_streams s'' = (if fin then live_streams (sw_scheduler sw) - {turn_stream t} else live_streams (sw_scheduler sw))"
      using ws.next_some [OF idle m(1) False] by blast
    obtain k where k: "k < length states0" "ss_streamID (sw_states sw ! k) = turn_stream t" "\<not> ss_done (sw_states sw ! k)"
      using n(3) l unfolding lv by (auto simp: in_set_conv_nth)
    have mv: "moved (states0 ! j) (sw_states sw ! j)" "state_ok (sw_states sw ! j)" if "j < length states0" for j
      using pr [OF that] by (simp_all add: progressed_def)
    have ids: "map ss_streamID (sw_states sw) = map ss_streamID states0"
      using l mv(1) by (intro nth_equalityI) (auto simp: moved_def)
    have src: "ss_file (sw_states sw ! k) \<noteq> None" using mv(2) [OF k(1)] k(3) by (auto simp: state_ok_def split: option.splits)
    have found: "state_by_stream (sw_states sw) (turn_stream t) = Some k"
      using state_by_stream_unique [of "sw_states sw" k] ids ds k(1,2) l src by simp
    obtain r1 sw1 where run: "sendNextFileChunk send k (turn_budget t) (sw\<lparr>sw_scheduler := sc\<rparr>) = (r1, sw1)"
      by (cases "sendNextFileChunk send k (turn_budget t) (sw\<lparr>sw_scheduler := sc\<rparr>)")
    note step = turn_step [OF Suc.prems(1) k(1,3) n(4) order_trans [OF n(5) m(2)] run]
    show ?thesis
    proof (cases r1)
      case (Inl e)
      with body n(1,2) found run have "r = Inl e" by (auto simp: sched_next_def)
      with step Inl show ?thesis by simp
    next
      case (Inr uf)
      obtain used fin where uf: "uf = (used, fin)" by (cases uf)
      have st: "0 < used" "used \<le> turn_budget t" "sw_scheduler sw1 = sc" "left_to_send sw1 < left_to_send sw"
          "{ss_streamID st |st. st \<in> set (sw_states sw1) \<and> \<not> ss_done st} =
            (if fin then live_streams (sw_scheduler sw) - {ss_streamID (states0 ! k)} else live_streams (sw_scheduler sw))"
          "length (sw_states sw1) = length states0" "\<forall>j < length states0. progressed states0 sw1 j"
        using step by (simp_all add: Inr uf)
      obtain s2 where s2: "Commit sc (turn_stream t) used fin = Inr s2" "sched_idle s2"
          "live_streams s2 = (if fin then live_streams (sw_scheduler sw) - {turn_stream t} else live_streams (sw_scheduler sw))"
        using com [of used fin] st(1,2) by auto
      have again: "send_loop send metrics fuel (sw1\<lparr>sw_scheduler := s2\<rparr>) = (r, sw')"
        using body n(1,2) found run Inr uf s2(1) st(3) by (auto simp: sched_next_def sched_commit_def try_put_def)
      have "ss_streamID (states0 ! k) = turn_stream t" using mv(1) [OF k(1)] k(2) by (simp add: moved_def)
      then have "loop_inv states0 (sw1\<lparr>sw_scheduler := s2\<rparr>)"
        using Suc.prems(1) s2(2,3) st(5-7) by (auto simp: loop_inv_def progressed_def)
      moreover have "left_to_send (sw1\<lparr>sw_scheduler := s2\<rparr>) < fuel"
        using st(4) Suc.prems(2) by (simp add: left_to_send_def)
      ultimately show ?thesis using Suc.IH again by blast
    qed
  qed
qed simp

end

section \<open>The whole transfer of a prepared path\<close>

lemma bind_act_run:
  assumes "bind_act m k w = (r, w')"
  obtains (failed) e where "m w = (Inl e, w')" "r = Inl e" | (went_on) a w1 where "m w = (Inr a, w1)" "k a w1 = (r, w')"
  using assms by (auto simp: bind_act_def split: sum.splits prod.splits)

text \<open>Actions whose only failures are those of the session.\<close>

definition sess_fails :: "('w, send_error, 'a) act \<Rightarrow> bool" where
  "sess_fails m \<longleftrightarrow> (\<forall>w e w'. m w = (Inl e, w') \<longrightarrow> (\<exists>e'. e = SessErr e'))"

lemma sess_fails_bind: "sess_fails m \<Longrightarrow> (\<And>a. sess_fails (k a)) \<Longrightarrow> sess_fails (bind_act m k)"
  by (fastforce simp: sess_fails_def bind_act_def split: sum.splits prod.splits)

lemma sess_fails_basic: "sess_fails (ret a)" "sess_fails (modify h)" "sess_fails (gets g)" "sess_fails (on_session s)"
  by (auto simp: sess_fails_def ret_def modify_def gets_def on_session_def split: prod.splits sum.splits)

lemma sess_fails_for_each: "(\<And>x. sess_fails (m x)) \<Longrightarrow> sess_fails (for_each m xs)"
  by (induction xs) (auto intro: sess_fails_bind sess_fails_basic)

lemmas sess_fails_rules = sess_fails_bind sess_fails_basic sess_fails_for_each

interpretation fc: chunk_sender "send_file_chunk w gz now pick" for w gz now pick
proof
  fix i offset bs sw u sw' e
  show "send_file_chunk w gz now pick i offset bs sw = (Inr u, sw') \<Longrightarrow>
      sw_states sw' = sw_states sw \<and> sw_scheduler sw' = sw_scheduler sw \<and> sw_progress sw' = sw_progress sw
      \<and> sw_sent sw' = sw_sent sw @ [(i, offset, bs)]"
    by (auto simp: send_file_chunk_def bind_act_def gets_def on_session_def modify_def split: prod.splits sum.splits)
  have "sess_fails (send_file_chunk w gz now pick i offset bs)"
    unfolding send_file_chunk_def by (intro sess_fails_rules) (auto intro: sess_fails_rules)
  then show "send_file_chunk w gz now pick i offset bs sw = (Inl e, sw') \<Longrightarrow> \<exists>e'. e = SessErr e'"
    by (auto simp: sess_fails_def)
qed

text \<open>What the frames around the loop leave alone: everything but the session and the marks of ended streams.\<close>

definition same_files :: "fileSendState list \<Rightarrow> sendWorld \<Rightarrow> bool" where
  "same_files states sw \<longleftrightarrow> length (sw_states sw) = length states
     \<and> (\<forall>k < length states. \<exists>b. sw_states sw ! k = (states ! k)\<lparr>ss_end := b\<rparr>)"

lemma on_session_keeps: "triple (\<lambda>sw. same_files states sw \<and> sw_sent sw = sent) (on_session m) (\<lambda>_ sw. same_files states sw \<and> sw_sent sw = sent) (\<lambda>_. True)"
  by (auto simp: triple_def on_session_def same_files_def split: prod.splits sum.splits)

lemma stream_end_keeps:
  "triple (\<lambda>sw. same_files states sw \<and> sw_sent sw = sent) (sendFileStreamEnd w now k) (\<lambda>_ sw. same_files states sw \<and> sw_sent sw = sent) (\<lambda>_. True)"
proof -
  have "same_files states (set_state k ((sw_states sw ! k)\<lparr>ss_end := True\<rparr>) sw)" if "same_files states sw" for sw
  proof -
    have "\<exists>b. (sw_states sw)[k := (sw_states sw ! k)\<lparr>ss_end := True\<rparr>] ! j = (states ! j)\<lparr>ss_end := b\<rparr>" if j: "j < length states" for j
    proof -
      obtain b where "sw_states sw ! j = (states ! j)\<lparr>ss_end := b\<rparr>" using \<open>same_files states sw\<close> j unfolding same_files_def by blast
      then show ?thesis using \<open>same_files states sw\<close> j
        by (cases "j = k") (auto simp: same_files_def intro: exI [of _ True] exI [of _ b])
    qed
    with that show ?thesis by (simp add: same_files_def set_state_def)
  qed
  then show ?thesis
    by (auto simp: triple_def sendFileStreamEnd_def bind_act_def gets_def ret_def modify_def on_session_def same_files_def set_state_def
        split: prod.splits sum.splits if_splits)
qed

lemma stream_end_fails: "sess_fails (sendFileStreamEnd w now k)"
  unfolding sendFileStreamEnd_def by (intro sess_fails_rules) (auto intro: sess_fails_rules)

lemma new_scheduler_ok:
  assumes "0 < q" "distinct (map wstream_id streams)" "\<forall>w\<in>set streams. 0 \<le> wstream_id w \<and> 0 < wstream_weight w"
  shows "\<exists>s. NewWeightedScheduler streams q = Inr s \<and> dom (sc_byID s) = set (map wstream_id streams)
    \<and> live_streams s = set (map wstream_id streams)"
  using assms(2,3)
proof (induction streams rule: rev_induct)
  case Nil
  then show ?case using assms(1) by (simp add: NewWeightedScheduler_def live_streams_def)
next
  case (snoc w streams)
  then obtain s where s: "NewWeightedScheduler streams q = Inr s" "dom (sc_byID s) = set (map wstream_id streams)"
      "live_streams s = set (map wstream_id streams)" by auto
  have "sc_byID s (wstream_id w) = None" using s(2) snoc.prems(1) by auto
  with s(1) snoc.prems(2) assms(1) have "NewWeightedScheduler (streams @ [w]) q = Inr (s\<lparr>sc_streams := sc_streams s @
      [\<lparr>ws_id = wstream_id w, ws_weight = wstream_weight w, ws_deficit = 0, ws_active = True\<rparr>],
      sc_byID := (sc_byID s)(wstream_id w \<mapsto> length (sc_streams s)), sc_active := sc_active s + 1\<rparr>)"
    by (simp add: NewWeightedScheduler_def foldM_snoc add_stream_def)
  moreover have "{st \<in> set (ss @ [x]). ws_active st} = insert x {st \<in> set ss. ws_active st}" if "ws_active x" for x :: weightedState and ss
    using that by auto
  ultimately show ?case using s(2,3) by (simp add: live_streams_def)
qed

lemma NewPlan_stream: "0 \<le> i \<Longrightarrow> i < int n \<Longrightarrow> StreamForItem (Some (NewPlan n)) i = Some (i + 1)"
proof -
  let ?bs = "map (\<lambda>item. \<lparr>sb_id = int item + 1, sb_item = int item\<rparr>) [0..<n]"
  assume i: "0 \<le> i" "i < int n"
  have "bindings_ok n ?bs" by (rule bindings_ok_default(2))
  then have "fst (bind_maps ?bs) i = Some (i + 1) \<longleftrightarrow> (\<exists>b\<in>set ?bs. sb_item b = i \<and> sb_id b = i + 1)"
    by (intro bind_maps_lookup(1)) (auto simp: bindings_ok_def)
  moreover have "\<exists>b\<in>set ?bs. sb_item b = i \<and> sb_id b = i + 1" using i by (auto intro!: bexI [of _ "nat i"])
  ultimately show ?thesis by (simp add: StreamForItem_def NewPlan_def newPlan_def)
qed

section \<open>Properties\<close>

text \<open>A session whose manifest of \<open>n\<close> items has been sent, and files that are as they were when prepared.\<close>

definition manifest_sent :: "nat \<Rightarrow> TransferSession \<Rightarrow> bool" where
  "manifest_sent n s \<longleftrightarrow> (\<exists>m. ts_sendManifest s = Some m \<and> length (mf_items m) = n) \<and> ts_sendPlan s = Some (NewPlan n)"

definition source_of :: "fs \<Rightarrow> sendFileEntry \<Rightarrow> string" where
  "source_of f entry = (case ReadFile f (sf_Path entry) of Inl _ \<Rightarrow> '''' | Inr d \<Rightarrow> d)"

definition files_unchanged :: "fs \<Rightarrow> nat \<Rightarrow> sendFileEntry list \<Rightarrow> bool" where
  "files_unchanged f n files \<longleftrightarrow> distinct (map sf_ItemID files)
     \<and> (\<forall>entry\<in>set files. 0 \<le> sf_ItemID entry \<and> sf_ItemID entry < int n \<and> ReadFile f (sf_Path entry) = Inr (source_of f entry)
          \<and> item_size (sf_Item entry) = int (length (source_of f entry)) \<and> in_i64 (item_size (sf_Item entry)))"

definition resume_at :: "(int \<Rightarrow> int option) \<Rightarrow> sendFileEntry \<Rightarrow> int" where
  "resume_at offsets entry = clampInt64 (case offsets (sf_ItemID entry) of None \<Rightarrow> 0 | Some n \<Rightarrow> n) 0 (item_size (sf_Item entry))"

definition first_state :: "fs \<Rightarrow> (int \<Rightarrow> int option) \<Rightarrow> sendFileEntry \<Rightarrow> fileSendState" where
  "first_state f offsets entry =
     \<lparr>ss_index = sf_ItemID entry, ss_streamID = sf_ItemID entry + 1, ss_entry = entry,
      ss_file = (if resume_at offsets entry \<ge> item_size (sf_Item entry) then None else Some (source_of f entry)),
      ss_offset = resume_at offsets entry, ss_done = resume_at offsets entry \<ge> item_size (sf_Item entry), ss_end = False\<rparr>"

lemma open_states_ok:
  assumes "manifest_sent n s" "files_unchanged f n files"
  shows "open_states f s offsets files = Inr (map (first_state f offsets) files)"
  using assms(2)
proof (induction files)
  case (Cons entry files)
  then have e: "0 \<le> sf_ItemID entry" "sf_ItemID entry < int n" "ReadFile f (sf_Path entry) = Inr (source_of f entry)"
    by (auto simp: files_unchanged_def)
  have "StreamIDForItem s (sf_ItemID entry) = Inr (sf_ItemID entry + 1)"
    using assms(1) e NewPlan_stream [OF e(1,2)] by (auto simp: StreamIDForItem_def sendStreamForItem_def manifest_sent_def)
  then have "open_stream_state f s offsets entry = Inr (first_state f offsets entry)"
    using e(3) by (simp add: open_stream_state_def first_state_def resume_at_def Let_def)
  moreover have "files_unchanged f n files" using Cons.prems by (auto simp: files_unchanged_def)
  ultimately show ?case using Cons.IH by simp
qed simp

lemma resume_at_bounds:
  "files_unchanged f n files \<Longrightarrow> entry \<in> set files \<Longrightarrow> 0 \<le> resume_at offsets entry \<and> resume_at offsets entry \<le> item_size (sf_Item entry)"
  unfolding resume_at_def files_unchanged_def by (intro clampInt64_bounds) auto

lemma scheduler_made:
  assumes "files_unchanged f n files"
  shows "\<exists>sched. NewWeightedScheduler (weighted_streams (map (first_state f offsets) files)) ChunkSize = Inr sched"
proof -
  let ?ss = "map (first_state f offsets) files"
  have "distinct (map ss_streamID ?ss)"
    using assms by (simp add: files_unchanged_def first_state_def comp_def distinct_map inj_on_def)
  then have "distinct (map wstream_id (weighted_streams ?ss))"
    by (simp add: weighted_streams_def comp_def distinct_map_filter)
  moreover have "\<forall>w\<in>set (weighted_streams ?ss). 0 \<le> wstream_id w \<and> 0 < wstream_weight w"
    using assms by (auto simp: weighted_streams_def first_state_def files_unchanged_def fileStreamWeight_def)
  moreover have "0 < ChunkSize" by (simp add: ChunkSize_def)
  ultimately show ?thesis using new_scheduler_ok by blast
qed

lemma same_end: "\<exists>b. st = st\<lparr>ss_end := b\<rparr>" for st :: fileSendState
  by (cases st) auto

lemma ends_keep_sent: "for_each (sendFileStreamEnd w now) ks sw = (Inr u, sw') \<Longrightarrow> sw_sent sw' = sw_sent sw"
proof -
  have "triple (\<lambda>s. sw_sent s = sw_sent sw) (for_each (sendFileStreamEnd w now) ks) (\<lambda>_ s. sw_sent s = sw_sent sw) (\<lambda>_. True)"
    by (rule triple_for_each)
      (auto simp: triple_def sendFileStreamEnd_def bind_act_def gets_def ret_def modify_def on_session_def set_state_def
        split: prod.splits sum.splits if_splits)
  from triple_Inr [OF this, of sw u sw'] show "for_each (sendFileStreamEnd w now) ks sw = (Inr u, sw') \<Longrightarrow> sw_sent sw' = sw_sent sw"
    by simp
qed

text \<open>The loop starts in its invariant, and the turns foreseen are enough.\<close>

lemma loop_starts:
  assumes files: "files_unchanged f n files" and states: "states = map (first_state f offsets) files"
    and sw: "same_files states sw" "sw_sent sw = []"
    and sched: "NewWeightedScheduler (weighted_streams states) ChunkSize = Inr sched"
  shows "loop_inv (sw_states sw) (sw\<lparr>sw_scheduler := sched\<rparr>) \<and> left_to_send (sw\<lparr>sw_scheduler := sched\<rparr>) < turns_needed states"
proof -
  have l: "length (sw_states sw) = length states" and nth: "\<And>k. k < length states \<Longrightarrow> \<exists>b. sw_states sw ! k = (states ! k)\<lparr>ss_end := b\<rparr>"
    using sw(1) by (auto simp: same_files_def)
  have same: "ss_index (sw_states sw ! k) = ss_index (states ! k)" "ss_streamID (sw_states sw ! k) = ss_streamID (states ! k)"
      "ss_file (sw_states sw ! k) = ss_file (states ! k)" "ss_offset (sw_states sw ! k) = ss_offset (states ! k)"
      "ss_done (sw_states sw ! k) = ss_done (states ! k)" "ss_entry (sw_states sw ! k) = ss_entry (states ! k)"
    if "k < length states" for k using nth [OF that] by auto
  have maps: "map ss_index (sw_states sw) = map sf_ItemID files" "map ss_streamID (sw_states sw) = map (\<lambda>e. sf_ItemID e + 1) files"
      "map ss_file (sw_states sw) = map ss_file states" "map ss_offset (sw_states sw) = map ss_offset states"
      "map ss_done (sw_states sw) = map ss_done states"
    using l same by (auto intro!: nth_equalityI simp: states first_state_def)
  have d: "distinct (map sf_ItemID files)" using files by (simp add: files_unchanged_def)
  then have d2: "distinct (map (\<lambda>e. sf_ItemID e + 1) files)" by (simp add: distinct_map inj_on_def)
  let ?live = "filter (\<lambda>st. \<not> ss_done st) states"
  have ids: "map wstream_id (weighted_streams states) = map ss_streamID ?live" by (simp add: weighted_streams_def comp_def)
  have "distinct (map ss_streamID states)" using d2 by (simp add: states first_state_def comp_def)
  then have "distinct (map wstream_id (weighted_streams states))" unfolding ids by (rule distinct_map_filter)
  moreover have "\<forall>w\<in>set (weighted_streams states). 0 \<le> wstream_id w \<and> 0 < wstream_weight w \<and> ChunkSize * wstream_weight w \<le> max_i64"
    using files by (auto simp: weighted_streams_def states first_state_def files_unchanged_def fileStreamWeight_def ChunkSize_def)
  ultimately have sc: "sched_idle sched" "live_streams sched = set (map ss_streamID ?live)"
    using new_scheduler_ok [of ChunkSize "weighted_streams states"] new_scheduler_inv [OF sched] sched ids
    by (auto simp: sched_idle_def ChunkSize_def)
  have "set (map ss_streamID ?live) = {ss_streamID st |st. st \<in> set (sw_states sw) \<and> \<not> ss_done st}"
    using l same by (auto simp: in_set_conv_nth) metis+
  moreover have "progressed (sw_states sw) (sw\<lparr>sw_scheduler := sched\<rparr>) k" if "k < length states" for k
  proof -
    have e: "files ! k \<in> set files" using that states by simp
    then have "item_size (sf_Item (files ! k)) = int (length (source_of f (files ! k)))" "in_i64 (item_size (sf_Item (files ! k)))"
      using files by (auto simp: files_unchanged_def)
    then have "state_ok (states ! k)"
      using resume_at_bounds [OF files e, of offsets] that by (auto simp: states first_state_def state_ok_def)
    then show ?thesis using same [OF that] sw(2)
      by (simp add: progressed_def moved_def state_ok_def chunks_for_def cong: option.case_cong)
  qed
  ultimately have "loop_inv (sw_states sw) (sw\<lparr>sw_scheduler := sched\<rparr>)"
    using l d d2 sc maps(1,2) by (simp add: loop_inv_def)
  moreover have "left_to_send (sw\<lparr>sw_scheduler := sched\<rparr>) = (\<Sum>st\<leftarrow>states. case ss_file st of None \<Rightarrow> 0 | Some d \<Rightarrow> length d - nat (ss_offset st))"
    unfolding left_to_send_def using l same
    by (intro arg_cong [of _ _ sum_list] nth_equalityI) (simp_all cong: option.case_cong)
  moreover have "\<dots> < turns_needed states"
    unfolding turns_needed_def less_Suc_eq_le by (intro sum_list_mono) (auto split: option.splits)
  ultimately show ?thesis by simp
qed

lemma loop_delivers:
  assumes "files_unchanged f n files" "loop_inv states sw" "\<forall>st\<in>set (sw_states sw). ss_done st"
    and "k < length files" "length states = length files" "\<exists>b. states ! k = (first_state f offsets (files ! k))\<lparr>ss_end := b\<rparr>"
  shows "tiles (source_of f (files ! k)) (resume_at offsets (files ! k)) (chunks_for (sf_ItemID (files ! k)) (sw_sent sw))
    (int (length (source_of f (files ! k))))"
proof -
  let ?e = "files ! k" and ?st = "sw_states sw ! k"
  have e: "?e \<in> set files" using assms(4) by simp
  have sz: "item_size (sf_Item ?e) = int (length (source_of f ?e))" using assms(1) e by (auto simp: files_unchanged_def)
  have pr: "progressed states sw k" "ss_done ?st" using assms(2-5) by (auto simp: loop_inv_def)
  show ?thesis
  proof (cases "resume_at offsets ?e \<ge> item_size (sf_Item ?e)")
    case True
    then have "resume_at offsets ?e = int (length (source_of f ?e))" using resume_at_bounds [OF assms(1) e, of offsets] sz by simp
    moreover have "chunks_for (sf_ItemID ?e) (sw_sent sw) = []"
      using pr(1) assms(6) True by (auto simp: progressed_def first_state_def)
    ultimately show ?thesis by simp
  next
    case False
    then have src: "ss_file (states ! k) = Some (source_of f ?e)" and st: "ss_index (states ! k) = sf_ItemID ?e" "ss_offset (states ! k) = resume_at offsets ?e"
      using assms(6) by (auto simp: first_state_def)
    have "ss_offset ?st = int (length (source_of f ?e))"
      using pr src by (auto simp: progressed_def moved_def state_ok_def)
    with pr(1) src st show ?thesis by (auto simp: progressed_def)
  qed
qed

text \<open>
C3: Sending ends, and sends every file exactly. Let the manifest be sent and the files be as they
were when the path was prepared. Whatever budgets the transports' metrics lead to and whichever
data connections are chosen, sending the items ends; it fails only when the session fails, and
otherwise the chunks sent for a file are its bytes from the accepted resume offset to its end: in
order, without gap or overlap, none empty and none longer than the protocol's chunk size.
\<close>

theorem send_path_complete:
  assumes "manifest_sent n (sw_session sw)" and "files_unchanged f n files" and "sw_sent sw = []"
    and "sendPathItemsWeighted w gz now pick metrics f items files offsets sw = (r, sw')"
  shows "case r of
      Inl e \<Rightarrow> \<exists>e'. e = SessErr e'
    | Inr _ \<Rightarrow> \<forall>entry\<in>set files.
        tiles (source_of f entry) (resume_at offsets entry) (chunks_for (sf_ItemID entry) (sw_sent sw')) (int (length (source_of f entry)))"
proof -
  define states where "states = map (first_state f offsets) files"
  note opened = open_states_ok [OF assms(1,2), of offsets, folded states_def]
  define sw0 where "sw0 = sw\<lparr>sw_states := states\<rparr>"
  have sw0: "same_files states sw0" "sw_sent sw0 = []"
    using assms(3) by (auto simp: sw0_def same_files_def intro: same_end)
  let ?keep = "\<lambda>sent m. triple (\<lambda>sw. same_files states sw \<and> sw_sent sw = sent) m (\<lambda>_ sw. same_files states sw \<and> sw_sent sw = sent) (\<lambda>_. True)"
  let ?others = "for_each (\<lambda>itemID. bind_act (on_session (OpenStream w now itemID)) (\<lambda>_. on_session (EndStream w now itemID)))
      (filter (\<lambda>i. i \<notin> set (map sf_ItemID files)) (map int [0..<length items]))"
  let ?opens = "for_each (\<lambda>k. bind_act (on_session (OpenStream w now (ss_index (states ! k)))) (\<lambda>_.
      if ss_done (states ! k) then sendFileStreamEnd w now k else ret ())) [0..<length states]"
  have keep: "?keep sent ?others" "?keep sent ?opens" "?keep sent (for_each (sendFileStreamEnd w now) [0..<length states])" for sent
    by (auto intro!: triple_for_each triple_bind [OF on_session_keeps] on_session_keeps stream_end_keeps triple_ret)
  have fails: "sess_fails ?others" "sess_fails ?opens" "sess_fails (for_each (sendFileStreamEnd w now) [0..<length states])"
    by (auto intro!: sess_fails_rules stream_end_fails)
  let ?rest = "bind_act ?others (\<lambda>_. bind_act ?opens (\<lambda>_.
     bind_act (try_put SchedErr (\<lambda>sw. rbind (NewWeightedScheduler (weighted_streams states) ChunkSize) (\<lambda>sched. Inr (sw\<lparr>sw_scheduler := sched\<rparr>)))) (\<lambda>_.
     bind_act (send_loop (send_file_chunk w gz now pick) metrics (turns_needed states)) (\<lambda>_.
       for_each (sendFileStreamEnd w now) [0..<length states]))))"
  have run: "?rest sw0 = (r, sw')"
    using assms(4) opened by (simp add: sendPathItemsWeighted_def bind_act_def [of "try_get _ _"] bind_act_def [of "modify _"]
        try_get_def modify_def sw0_def)
  show ?thesis
  proof (rule bind_act_run [OF run], goal_cases failed went_on)
    case (failed e)
    with fails(1) show ?thesis by (auto simp: sess_fails_def)
  next
    case (went_on u sw1)
    have sw1: "same_files states sw1" "sw_sent sw1 = []" using triple_Inr [OF keep(1) _ went_on(1)] sw0 by auto
    show ?thesis
    proof (rule bind_act_run [OF went_on(2)], goal_cases failed went_on)
      case (failed e)
      with fails(2) show ?thesis by (auto simp: sess_fails_def)
    next
      case (went_on u sw2)
      have sw2: "same_files states sw2" "sw_sent sw2 = []" using triple_Inr [OF keep(2) _ went_on(1)] sw1 by auto
      obtain sched where sched: "NewWeightedScheduler (weighted_streams states) ChunkSize = Inr sched"
        using scheduler_made [OF assms(2), of offsets] by (auto simp: states_def)
      let ?sw3 = "sw2\<lparr>sw_scheduler := sched\<rparr>"
      note start = loop_starts [OF assms(2) states_def sw2 sched]
      have "bind_act (send_loop (send_file_chunk w gz now pick) metrics (turns_needed states)) (\<lambda>_.
          for_each (sendFileStreamEnd w now) [0..<length states]) ?sw3 = (r, sw')"
        using went_on(2) sched by (simp add: bind_act_def [of "try_put _ _"] try_put_def)
      then show ?thesis
      proof (rule bind_act_run, goal_cases failed went_on)
        case (failed e)
        with fc.send_loop_ends [OF conjunct1 [OF start] conjunct2 [OF start] failed(1)] show ?thesis by simp
      next
        case (went_on u sw4)
        have sw4: "loop_inv (sw_states sw2) sw4" "\<forall>st\<in>set (sw_states sw4). ss_done st"
          using fc.send_loop_ends [OF conjunct1 [OF start] conjunct2 [OF start] went_on(1)] by simp_all
        show ?thesis
        proof (cases r)
          case (Inl e)
          with went_on(2) fails(3) show ?thesis by (auto simp: sess_fails_def)
        next
          case (Inr u)
          have "sw_sent sw' = sw_sent sw4" by (rule ends_keep_sent [OF went_on(2) [unfolded Inr]])
          moreover have "tiles (source_of f (files ! k)) (resume_at offsets (files ! k)) (chunks_for (sf_ItemID (files ! k)) (sw_sent sw4))
              (int (length (source_of f (files ! k))))" if "k < length files" for k
            using loop_delivers [OF assms(2) sw4 that] sw2(1) that by (auto simp: same_files_def states_def)
          ultimately show ?thesis by (auto simp: Inr in_set_conv_nth)
        qed
      qed
    qed
  qed
qed

definition demo_source :: fs where
  "demo_source =
     \<lparr>fs_ents = [[''f''] \<mapsto> NReg 2], fs_inodes = (\<lambda>_. \<lparr>ino_data = ''abc'', ino_mode = 0, ino_mtime = 0\<rparr>), fs_next = 3, fs_cwd = []\<rparr>"

definition demo_file :: sendFileEntry where
  "demo_file = \<lparr>sf_Path = ''f'', sf_ItemID = 0, sf_Item = text_item (\<lambda>_. '''') ''abc''\<rparr>"

definition demo_sending :: sendWorld where
  "demo_sending = new_world
     ((newTransferSessionWithPipes [newSecurePipe (\<lambda>_ _ _ n. replicate n CHR ''k'') 0 ''c'' ''s'' ''r'' True ''''] [])
      \<lparr>ts_sendManifest := Some (NewManifest [sf_Item demo_file]), ts_sendPlan := Some (NewPlan 1)\<rparr>)
     (newStreamProgressReporter [sf_Item demo_file] Map.empty)"

lemma demo_sending_ok:
  "manifest_sent 1 (sw_session demo_sending)" "files_unchanged demo_source 1 [demo_file]" "sw_sent demo_sending = []"
proof -
  have "ReadFile demo_source ''f'' = Inr ''abc''" by code_simp
  then show "files_unchanged demo_source 1 [demo_file]"
    by (simp add: files_unchanged_def demo_file_def source_of_def text_item_def in_i64_def)
qed (simp_all add: manifest_sent_def demo_sending_def new_world_def NewManifest_def)

theorem send_path_complete_witness:
  "\<exists>r sw'. sendPathItemsWeighted (demo_wire zero_message) (\<lambda>d. d) 0 (\<lambda>_. 1)
        (\<lambda>_. \<lparr>sm_BufferedBytes = 0, sm_BufferLimit = 0, sm_LastWait = 0\<rparr>) demo_source [sf_Item demo_file] [demo_file] [0 \<mapsto> 1] demo_sending = (r, sw')
     \<and> (case r of
          Inl e \<Rightarrow> \<exists>e'. e = SessErr e'
        | Inr _ \<Rightarrow> tiles (source_of demo_source demo_file) (resume_at [0 \<mapsto> 1] demo_file) (chunks_for (sf_ItemID demo_file) (sw_sent sw'))
            (int (length (source_of demo_source demo_file))))"
proof -
  obtain r sw' where run: "sendPathItemsWeighted (demo_wire zero_message) (\<lambda>d. d) 0 (\<lambda>_. 1)
        (\<lambda>_. \<lparr>sm_BufferedBytes = 0, sm_BufferLimit = 0, sm_LastWait = 0\<rparr>) demo_source [sf_Item demo_file] [demo_file] [0 \<mapsto> 1] demo_sending = (r, sw')"
    by fastforce
  from send_path_complete [OF demo_sending_ok run] have "case r of
          Inl e \<Rightarrow> \<exists>e'. e = SessErr e'
        | Inr _ \<Rightarrow> tiles (source_of demo_source demo_file) (resume_at [0 \<mapsto> 1] demo_file) (chunks_for (sf_ItemID demo_file) (sw_sent sw'))
            (int (length (source_of demo_source demo_file)))"
    by (simp split: sum.splits)
  with run show ?thesis by blast
qed

end
