(* ===== verification/Sender_Text.thy ===== *)
theory Sender_Text
  imports Sender Session_Wire
begin

text \<open>
  Sending a text (\<open>SendText\<close> of internal/transfer/transfer.go): the whole text goes out as one chunk.
\<close>

lemma encodeChunk_worthwhile:
  assumes "Compression s = compressionGzip" "ts_compressionState s item = None"
    and "compressionWorthwhile (int (length data)) (int (length (gz data)))"
  shows "\<exists>s'. encodeChunk gz item data s = (Inr (gz data, compressionGzip), s')"
  using assms by (simp add: encodeChunk_def Let_def compressGzipChunk_def add_stats_def Compression_def)

lemma decode_long_gzip:
  assumes "gzip_law gz gunzip" "int (length data) > ChunkSize"
  shows "\<exists>e. decodeTransferChunk gunzip negotiated compressionGzip (gz data) = Inl e"
  using decompress_too_long [OF assms] by (simp add: decodeTransferChunk_def compressionGzip_def)


definition long_text :: string where
  "long_text = replicate 70000 CHR ''a''"

definition long_gz :: "string \<Rightarrow> string" where
  "long_gz d = (if d = long_text then ''z'' else CHR ''g'' # d)"

definition long_gunzip :: gunzip_fun where
  "long_gunzip x = (if x = ''z'' then Some (long_text, False) else Some (tl x, False))"

lemma long_text_length: "length long_text = 70000"
  by (simp only: long_text_def length_replicate)


end
