(* ===== verification/Parallel_Sender.thy ===== *)
theory Parallel_Sender
  imports Transfer_Session "HOL-Library.Sublist" "HOL-Library.Multiset"
begin

text \<open>
  The parallel chunk sender (internal/transfer/parallel_sender.go): one worker goroutine and one
  queue per data connection, and the sending goroutine that distributes the chunks. The goroutines
  are interleaved by a step relation. The caller's goroutine runs \<open>SendChunk\<close> and at the end
  \<open>Close\<close> or \<open>Abort\<close>; a step is what it does between two operations on a shared channel or lock. The
  scores by which \<open>orderedWorkers\<close> sorts are floating point numbers that depend on the time the
  sends took; they are left open, any \<open>score\<close> may come up. A write to a connection may fail at any
  time and the surrounding context may end at any time.
\<close>

section \<open>State\<close>

definition chunkPathQueueDepth :: nat where
  "chunkPathQueueDepth = 8"

record chunkSendJob =
  job_message :: Message
  job_bytes :: int

datatype path_error = ContextCanceled | WriteFailed string

text \<open>Where a worker is in the loop of \<open>runWorker\<close>.\<close>

datatype worker_phase = Receiving | Took chunkSendJob | Writing chunkSendJob | Exited

text \<open>
  \<open>cw_jobs\<close> is the buffer of the channel. The last two fields record what was queued and what was
  written; no operation reads them.
\<close>

record chunkPathWorker =
  cw_index :: int
  cw_jobs :: "chunkSendJob list"
  cw_phase :: worker_phase
  cw_pendingBytes :: int
  cw_scheduledBytes :: int
  cw_sentBytes :: int
  cw_sentChunks :: int
  cw_sendNanos :: int
  cw_queued :: "chunkSendJob list"
  cw_written :: "chunkSendJob list"

text \<open>
  Where the caller is: outside, in \<open>SendChunk\<close> with the workers it has yet to try, blocked in the
  second \<open>select\<close> of \<open>SendChunk\<close>, waiting for the workers in \<open>finishWorkers\<close>, or finished.
\<close>

datatype caller = Outside | Trying chunkSendJob "nat list" | Blocked chunkSendJob | Finishing | Finished "path_error option"

text \<open>\<open>pc_accepted\<close> records the jobs for which \<open>SendChunk\<close> returned no error; no operation reads it.\<close>

record parallelChunkSender =
  pc_workers :: "chunkPathWorker list"
  pc_cursor :: int
  pc_available :: bool
  pc_canceled :: bool
  pc_firstErr :: "path_error option"
  pc_closed :: bool
  pc_caller :: caller
  pc_accepted :: "chunkSendJob list"

definition new_worker :: "int \<Rightarrow> chunkPathWorker" where
  "new_worker index =
     \<lparr>cw_index = index, cw_jobs = [], cw_phase = Receiving, cw_pendingBytes = 0, cw_scheduledBytes = 0, cw_sentBytes = 0,
      cw_sentChunks = 0, cw_sendNanos = 0, cw_queued = [], cw_written = []\<rparr>"

definition newParallelChunkSender :: "TransferSession \<Rightarrow> parallelChunkSender" where
  "newParallelChunkSender s =
     \<lparr>pc_workers = map (\<lambda>p. new_worker (sp_index p)) (tl (ts_pipes s)), pc_cursor = 0, pc_available = False,
      pc_canceled = False, pc_firstErr = None, pc_closed = False, pc_caller = Outside, pc_accepted = []\<rparr>"

section \<open>The caller\<close>

text \<open>The stable sort by score and, for equal scores, by the distance from the cursor.\<close>

definition worker_rank :: "parallelChunkSender \<Rightarrow> nat \<Rightarrow> int" where
  "worker_rank s k =
     (let n = int (length (pc_workers s)) in (cw_index (pc_workers s ! k) - 1 - pc_cursor s + n) smod n)"

definition orderedWorkers :: "(nat \<Rightarrow> int) \<Rightarrow> parallelChunkSender \<Rightarrow> nat list" where
  "orderedWorkers score s = sort_key score (sort_key (worker_rank s) [0..<length (pc_workers s)])"

definition set_worker :: "nat \<Rightarrow> chunkPathWorker \<Rightarrow> parallelChunkSender \<Rightarrow> parallelChunkSender" where
  "set_worker k v s = s\<lparr>pc_workers := (pc_workers s)[k := v]\<rparr>"

definition queue_full :: "chunkPathWorker \<Rightarrow> bool" where
  "queue_full v \<longleftrightarrow> length (cw_jobs v) \<ge> chunkPathQueueDepth"

text \<open>One turn of the loop over the ordered workers: the non-blocking send of the job to a worker.\<close>

definition try_worker :: "chunkSendJob \<Rightarrow> nat \<Rightarrow> nat list \<Rightarrow> parallelChunkSender \<Rightarrow> parallelChunkSender" where
  "try_worker job k ks s =
     (let v = pc_workers s ! k; v1 = v\<lparr>cw_pendingBytes := add64 (cw_pendingBytes v) (job_bytes job)\<rparr> in
      if queue_full v
      then (set_worker k (v1\<lparr>cw_pendingBytes := sub64 (cw_pendingBytes v1) (job_bytes job)\<rparr>) s)\<lparr>pc_caller := Trying job ks\<rparr>
      else (set_worker k (v1\<lparr>cw_jobs := cw_jobs v @ [job], cw_queued := cw_queued v @ [job],
              cw_scheduledBytes := add64 (cw_scheduledBytes v) (job_bytes job)\<rparr>) s)
           \<lparr>pc_cursor := cw_index v smod int (length (pc_workers s)), pc_caller := Outside,
             pc_accepted := pc_accepted s @ [job]\<rparr>)"

section \<open>The workers\<close>

definition recordError :: "path_error \<Rightarrow> parallelChunkSender \<Rightarrow> parallelChunkSender" where
  "recordError e s = (if pc_firstErr s = None then s\<lparr>pc_firstErr := Some e, pc_canceled := True\<rparr> else s)"

definition sender_error :: "parallelChunkSender \<Rightarrow> path_error option" where
  "sender_error s = pc_firstErr s"

text \<open>A job leaves the channel and \<open>available\<close> is signalled.\<close>

definition take_job :: "nat \<Rightarrow> chunkSendJob \<Rightarrow> parallelChunkSender \<Rightarrow> parallelChunkSender" where
  "take_job k job s =
     (let v = pc_workers s ! k in
      (set_worker k (v\<lparr>cw_jobs := tl (cw_jobs v), cw_phase := Took job\<rparr>) s)\<lparr>pc_available := True\<rparr>)"

definition job_failed :: "nat \<Rightarrow> chunkSendJob \<Rightarrow> path_error \<Rightarrow> parallelChunkSender \<Rightarrow> parallelChunkSender" where
  "job_failed k job e s =
     (let v = pc_workers s ! k in
      recordError e (set_worker k (v\<lparr>cw_phase := Receiving, cw_pendingBytes := sub64 (cw_pendingBytes v) (job_bytes job)\<rparr>) s))"

definition job_written :: "nat \<Rightarrow> chunkSendJob \<Rightarrow> int \<Rightarrow> parallelChunkSender \<Rightarrow> parallelChunkSender" where
  "job_written k job elapsed s =
     (let v = pc_workers s ! k in
      set_worker k (v\<lparr>cw_phase := Receiving, cw_pendingBytes := sub64 (cw_pendingBytes v) (job_bytes job),
        cw_sentBytes := add64 (cw_sentBytes v) (job_bytes job), cw_sentChunks := add64 (cw_sentChunks v) 1,
        cw_sendNanos := add64 (cw_sendNanos v) elapsed, cw_written := cw_written v @ [job]\<rparr>) s)"

text \<open>The steps of \<open>runWorker\<close> in worker \<open>k\<close>.\<close>

inductive worker_step :: "nat \<Rightarrow> parallelChunkSender \<Rightarrow> parallelChunkSender \<Rightarrow> bool" where
  Take: "k < length (pc_workers s) \<Longrightarrow> cw_phase (pc_workers s ! k) = Receiving \<Longrightarrow> cw_jobs (pc_workers s ! k) = job # js
    \<Longrightarrow> worker_step k s (take_job k job s)"
| Canceled: "k < length (pc_workers s) \<Longrightarrow> cw_phase (pc_workers s ! k) = Took job \<Longrightarrow> pc_canceled s
    \<Longrightarrow> worker_step k s (job_failed k job ContextCanceled s)"
| Start: "k < length (pc_workers s) \<Longrightarrow> cw_phase (pc_workers s ! k) = Took job \<Longrightarrow> \<not> pc_canceled s
    \<Longrightarrow> worker_step k s (set_worker k ((pc_workers s ! k)\<lparr>cw_phase := Writing job\<rparr>) s)"
| Written: "k < length (pc_workers s) \<Longrightarrow> cw_phase (pc_workers s ! k) = Writing job
    \<Longrightarrow> worker_step k s (job_written k job elapsed s)"
| Failed: "k < length (pc_workers s) \<Longrightarrow> cw_phase (pc_workers s ! k) = Writing job
    \<Longrightarrow> worker_step k s (job_failed k job e s)"
| Exit: "k < length (pc_workers s) \<Longrightarrow> cw_phase (pc_workers s ! k) = Receiving \<Longrightarrow> cw_jobs (pc_workers s ! k) = []
    \<Longrightarrow> pc_closed s \<Longrightarrow> worker_step k s (set_worker k ((pc_workers s ! k)\<lparr>cw_phase := Exited\<rparr>) s)"

text \<open>
  The steps of the caller: \<open>SendChunk\<close>, which returns the first error, an error of the context or
  nothing, and \<open>finishWorkers\<close>, once.
\<close>

inductive caller_step :: "parallelChunkSender \<Rightarrow> parallelChunkSender \<Rightarrow> bool" where
  Call: "pc_caller s = Outside \<Longrightarrow> sender_error s = None
    \<Longrightarrow> caller_step s (s\<lparr>pc_caller := Trying job (orderedWorkers score s)\<rparr>)"
| Try: "pc_caller s = Trying job (k # ks) \<Longrightarrow> caller_step s (try_worker job k ks s)"
| Block: "pc_caller s = Trying job [] \<Longrightarrow> caller_step s (s\<lparr>pc_caller := Blocked job\<rparr>)"
| Again: "pc_caller s = Blocked job \<Longrightarrow> pc_available s
    \<Longrightarrow> caller_step s (s\<lparr>pc_available := False, pc_caller := Trying job (orderedWorkers score s)\<rparr>)"
| GiveUp: "pc_caller s = Blocked job \<Longrightarrow> pc_canceled s \<Longrightarrow> caller_step s (s\<lparr>pc_caller := Outside\<rparr>)"
| Finish: "pc_caller s = Outside
    \<Longrightarrow> caller_step s (s\<lparr>pc_canceled := pc_canceled s \<or> abort, pc_closed := True, pc_caller := Finishing\<rparr>)"
| Finish_end: "pc_caller s = Finishing \<Longrightarrow> \<forall>v\<in>set (pc_workers s). cw_phase v = Exited
    \<Longrightarrow> caller_step s (s\<lparr>pc_canceled := True, pc_caller := Finished (sender_error s)\<rparr>)"

text \<open>A step of the whole; the surrounding context may be cancelled at any time.\<close>

inductive sender_step :: "parallelChunkSender \<Rightarrow> parallelChunkSender \<Rightarrow> bool" where
  Worker: "worker_step k s s' \<Longrightarrow> sender_step s s'"
| Caller: "caller_step s s' \<Longrightarrow> sender_step s s'"
| Cancel: "sender_step s (s\<lparr>pc_canceled := True\<rparr>)"

inductive reaches :: "TransferSession \<Rightarrow> parallelChunkSender \<Rightarrow> bool" for t where
  Start: "reaches t (newParallelChunkSender t)"
| Step: "reaches t s \<Longrightarrow> sender_step s s' \<Longrightarrow> reaches t s'"

section \<open>Statistics\<close>

record chunkPathStats =
  ps_Connection :: int
  ps_Bytes :: int
  ps_Chunks :: int
  ps_SendTime :: int

definition Stats :: "parallelChunkSender \<Rightarrow> chunkPathStats list" where
  "Stats s = map (\<lambda>v. \<lparr>ps_Connection = cw_index v, ps_Bytes = cw_sentBytes v, ps_Chunks = cw_sentChunks v, ps_SendTime = cw_sendNanos v\<rparr>)
     (pc_workers s)"

record PhysicalPathStats =
  pp_Connection :: int
  pp_SentBytes :: int
  pp_SentChunks :: int
  pp_SendNanos :: int

definition physicalPathStats :: "chunkPathStats list \<Rightarrow> PhysicalPathStats list" where
  "physicalPathStats stats =
     map (\<lambda>st. \<lparr>pp_Connection = ps_Connection st, pp_SentBytes = ps_Bytes st, pp_SentChunks = ps_Chunks st, pp_SendNanos = ps_SendTime st\<rparr>) stats"

section \<open>What a worker's queue and counters say\<close>

lemma wrap64_add [simp]:
  "wrap64 (wrap64 a + b) = wrap64 (a + b)" "wrap64 (b + wrap64 a) = wrap64 (b + a)" "wrap64 (wrap64 a - b) = wrap64 (a - b)"
  by (simp_all add: wrap64_def algebra_simps mod_simps)

definition in_flight :: "chunkPathWorker \<Rightarrow> chunkSendJob list" where
  "in_flight v = (case cw_phase v of Took job \<Rightarrow> [job] | Writing job \<Rightarrow> [job] | _ \<Rightarrow> [])"

definition bytes_of :: "chunkSendJob list \<Rightarrow> int" where
  "bytes_of jobs = (\<Sum>job\<leftarrow>jobs. job_bytes job)"

lemma bytes_of_simps [simp]:
  "bytes_of [] = 0" "bytes_of (j # js) = job_bytes j + bytes_of js" "bytes_of (js @ js') = bytes_of js + bytes_of js'"
  by (simp_all add: bytes_of_def)

text \<open>
  The jobs taken from the queue are those queued first; all of them were written unless an error
  is recorded.
\<close>

definition fifo :: "bool \<Rightarrow> chunkPathWorker \<Rightarrow> bool" where
  "fifo failed v \<longleftrightarrow> (\<exists>taken. cw_queued v = taken @ in_flight v @ cw_jobs v \<and> subseq (cw_written v) taken
     \<and> (\<not> failed \<longrightarrow> cw_written v = taken))"

definition counted :: "chunkPathWorker \<Rightarrow> bool" where
  "counted v \<longleftrightarrow> length (cw_jobs v) \<le> chunkPathQueueDepth
     \<and> cw_pendingBytes v = wrap64 (bytes_of (in_flight v @ cw_jobs v)) \<and> cw_scheduledBytes v = wrap64 (bytes_of (cw_queued v))
     \<and> cw_sentBytes v = wrap64 (bytes_of (cw_written v)) \<and> cw_sentChunks v = wrap64 (int (length (cw_written v)))"

definition worker_ok :: "bool \<Rightarrow> bool \<Rightarrow> chunkPathWorker \<Rightarrow> bool" where
  "worker_ok failed closed v \<longleftrightarrow> fifo failed v \<and> counted v \<and> (cw_phase v = Exited \<longrightarrow> cw_jobs v = [] \<and> closed)"

definition spread :: "parallelChunkSender \<Rightarrow> bool" where
  "spread s \<longleftrightarrow> (\<Sum>v\<leftarrow>pc_workers s. mset (cw_queued v)) = mset (pc_accepted s)
     \<and> (\<forall>v\<in>set (pc_workers s). subseq (cw_queued v) (pc_accepted s))"

definition sender_inv :: "parallelChunkSender \<Rightarrow> bool" where
  "sender_inv s \<longleftrightarrow> (\<forall>v\<in>set (pc_workers s). worker_ok (pc_firstErr s \<noteq> None) (pc_closed s) v) \<and> spread s
     \<and> (pc_closed s \<longleftrightarrow> (pc_caller s = Finishing \<or> (\<exists>r. pc_caller s = Finished r)))
     \<and> (\<forall>r. pc_caller s = Finished r \<longrightarrow> r = pc_firstErr s \<and> (\<forall>v\<in>set (pc_workers s). cw_phase v = Exited))
     \<and> (\<forall>job ks. pc_caller s = Trying job ks \<longrightarrow> set ks \<subseteq> {..<length (pc_workers s)})"

lemma set_orderedWorkers [simp]: "set (orderedWorkers score s) = {..<length (pc_workers s)}"
  by (auto simp: orderedWorkers_def)

lemma worker_ok_phases:
  assumes "worker_ok failed closed v"
  shows "cw_phase v = Receiving \<Longrightarrow> cw_jobs v = job # js \<Longrightarrow> worker_ok failed closed (v\<lparr>cw_jobs := js, cw_phase := Took job\<rparr>)"
    and "cw_phase v = Took job \<Longrightarrow> worker_ok failed closed (v\<lparr>cw_phase := Writing job\<rparr>)"
    and "in_flight v = [job] \<Longrightarrow> worker_ok True closed (v\<lparr>cw_phase := Receiving, cw_pendingBytes := sub64 (cw_pendingBytes v) (job_bytes job)\<rparr>)"
    and "in_flight v = [job] \<Longrightarrow> worker_ok failed closed
          (v\<lparr>cw_phase := Receiving, cw_pendingBytes := sub64 (cw_pendingBytes v) (job_bytes job),
             cw_sentBytes := add64 (cw_sentBytes v) (job_bytes job), cw_sentChunks := add64 (cw_sentChunks v) 1,
             cw_sendNanos := n, cw_written := cw_written v @ [job]\<rparr>)"
    and "cw_phase v = Receiving \<Longrightarrow> cw_jobs v = [] \<Longrightarrow> worker_ok failed True (v\<lparr>cw_phase := Exited\<rparr>)"
proof -
  from assms obtain taken where v: "cw_queued v = taken @ in_flight v @ cw_jobs v" "subseq (cw_written v) taken"
      "\<not> failed \<longrightarrow> cw_written v = taken" "counted v" "cw_phase v = Exited \<longrightarrow> cw_jobs v = [] \<and> closed"
    by (auto simp: worker_ok_def fifo_def)
  show "cw_phase v = Receiving \<Longrightarrow> cw_jobs v = job # js \<Longrightarrow> worker_ok failed closed (v\<lparr>cw_jobs := js, cw_phase := Took job\<rparr>)"
    using v by (auto simp: worker_ok_def fifo_def counted_def in_flight_def)
  show "cw_phase v = Took job \<Longrightarrow> worker_ok failed closed (v\<lparr>cw_phase := Writing job\<rparr>)"
    using v by (auto simp: worker_ok_def fifo_def counted_def in_flight_def)
  show "in_flight v = [job] \<Longrightarrow> worker_ok True closed (v\<lparr>cw_phase := Receiving, cw_pendingBytes := sub64 (cw_pendingBytes v) (job_bytes job)\<rparr>)"
    using v by (auto simp: worker_ok_def fifo_def counted_def sub64_def in_flight_def [of "v\<lparr>cw_phase := Receiving, cw_pendingBytes := _\<rparr>"] intro!: exI [of _ "taken @ [job]"])
  show "in_flight v = [job] \<Longrightarrow> worker_ok failed closed
          (v\<lparr>cw_phase := Receiving, cw_pendingBytes := sub64 (cw_pendingBytes v) (job_bytes job),
             cw_sentBytes := add64 (cw_sentBytes v) (job_bytes job), cw_sentChunks := add64 (cw_sentChunks v) 1,
             cw_sendNanos := n, cw_written := cw_written v @ [job]\<rparr>)"
    using v by (auto simp: worker_ok_def fifo_def counted_def sub64_def add64_def add.commute in_flight_def [of "v\<lparr>cw_phase := Receiving, cw_pendingBytes := _, cw_sentBytes := _, cw_sentChunks := _, cw_sendNanos := _, cw_written := _\<rparr>"] intro!: exI [of _ "taken @ [job]"])
  show "cw_phase v = Receiving \<Longrightarrow> cw_jobs v = [] \<Longrightarrow> worker_ok failed True (v\<lparr>cw_phase := Exited\<rparr>)"
    using v by (auto simp: worker_ok_def fifo_def counted_def in_flight_def)
qed

lemma worker_ok_try:
  assumes "worker_ok failed closed v" "\<not> closed"
  shows "\<not> queue_full v \<Longrightarrow> worker_ok failed closed
      (v\<lparr>cw_pendingBytes := add64 (cw_pendingBytes v) (job_bytes job), cw_jobs := cw_jobs v @ [job], cw_queued := cw_queued v @ [job],
         cw_scheduledBytes := add64 (cw_scheduledBytes v) (job_bytes job)\<rparr>)"
    and "worker_ok failed closed (v\<lparr>cw_pendingBytes := sub64 (add64 (cw_pendingBytes v) n) n\<rparr>)"
  using assms by (auto simp: worker_ok_def fifo_def counted_def queue_full_def in_flight_def add64_def sub64_def add.assoc
      split: worker_phase.splits)

lemma worker_ok_mono: "worker_ok failed closed v \<Longrightarrow> (failed \<longrightarrow> failed') \<Longrightarrow> (closed \<longrightarrow> closed') \<Longrightarrow> worker_ok failed' closed' v"
  by (auto simp: worker_ok_def fifo_def)

lemma workers_updated:
  assumes "\<forall>v\<in>set (pc_workers s). worker_ok (pc_firstErr s \<noteq> None) (pc_closed s) v" "worker_ok failed closed v'"
    and "pc_firstErr s \<noteq> None \<longrightarrow> failed" "pc_closed s \<longrightarrow> closed"
  shows "\<forall>v\<in>set ((pc_workers s)[k := v']). worker_ok failed closed v"
  using assms set_update_subset_insert [of "pc_workers s" k v'] by (blast intro: worker_ok_mono)

lemma spread_update:
  assumes "spread s" "k < length (pc_workers s)" "cw_queued v = cw_queued (pc_workers s ! k)" "pc_workers s' = (pc_workers s)[k := v]"
    and "pc_accepted s' = pc_accepted s"
  shows "spread s'"
proof -
  have "map cw_queued ((pc_workers s)[k := v]) = map cw_queued (pc_workers s)"
    using assms(2,3) by (metis list_update_id map_update)
  then have "map (\<lambda>v. mset (cw_queued v)) (pc_workers s') = map (\<lambda>v. mset (cw_queued v)) (pc_workers s)"
      "cw_queued ` set (pc_workers s') = cw_queued ` set (pc_workers s)"
    using assms(4) by (metis (no_types, lifting) list.map_comp comp_apply map_cong, metis list.set_map)
  with assms(1,5) show ?thesis unfolding spread_def by (metis (no_types, lifting) image_iff imageI)
qed

lemma spread_push:
  assumes "spread s" "k < length (pc_workers s)" "cw_queued v = cw_queued (pc_workers s ! k) @ [job]"
    and "pc_workers s' = (pc_workers s)[k := v]" "pc_accepted s' = pc_accepted s @ [job]"
  shows "spread s'"
proof -
  have "(\<Sum>v\<leftarrow>pc_workers s'. mset (cw_queued v)) = add_mset job (\<Sum>v\<leftarrow>pc_workers s. mset (cw_queued v))"
  proof -
    have "pc_workers s = take k (pc_workers s) @ pc_workers s ! k # drop (Suc k) (pc_workers s)" by (rule id_take_nth_drop [OF assms(2)])
    then have "(\<Sum>v\<leftarrow>pc_workers s. mset (cw_queued v))
        = (\<Sum>v\<leftarrow>take k (pc_workers s) @ pc_workers s ! k # drop (Suc k) (pc_workers s). mset (cw_queued v))" by simp
    then show ?thesis using assms(2-4) by (simp add: upd_conv_take_nth_drop)
  qed
  moreover have "subseq (cw_queued u) (pc_accepted s @ [job])" if "u \<in> set (pc_workers s')" for u
  proof -
    have "u = v \<or> u \<in> set (pc_workers s)" using that assms(4) set_update_subset_insert [of "pc_workers s" k v] by auto
    then show ?thesis using assms(1-3) by (auto simp: spread_def intro: list_emb_append2)
  qed
  ultimately show ?thesis using assms(1,5) by (simp add: spread_def)
qed

text \<open>A step of a worker replaces that worker, which has not ended, and changes no other part but \<open>available\<close> and the error.\<close>

definition replaces :: "nat \<Rightarrow> parallelChunkSender \<Rightarrow> parallelChunkSender \<Rightarrow> chunkPathWorker \<Rightarrow> bool" where
  "replaces k s s' v \<longleftrightarrow> cw_queued v = cw_queued (pc_workers s ! k) \<and> pc_workers s' = (pc_workers s)[k := v]
     \<and> pc_caller s' = pc_caller s \<and> pc_closed s' = pc_closed s \<and> pc_accepted s' = pc_accepted s
     \<and> (pc_firstErr s \<noteq> None \<longrightarrow> pc_firstErr s' \<noteq> None) \<and> k < length (pc_workers s) \<and> cw_phase (pc_workers s ! k) \<noteq> Exited"

lemma worker_step_replaces:
  assumes "worker_step k s s'" "worker_ok (pc_firstErr s \<noteq> None) (pc_closed s) (pc_workers s ! k)"
  shows "replaces k s s' (pc_workers s' ! k) \<and> worker_ok (pc_firstErr s' \<noteq> None) (pc_closed s') (pc_workers s' ! k)"
  using assms(1)
proof cases
  case (Take job js)
  then show ?thesis using worker_ok_phases(1) [OF assms(2)] by (auto simp: replaces_def take_job_def set_worker_def Let_def)
next
  case (Canceled job)
  then show ?thesis using worker_ok_phases(3) [OF assms(2)]
    by (auto simp: replaces_def job_failed_def set_worker_def recordError_def Let_def in_flight_def)
next
  case (Start job)
  then show ?thesis using worker_ok_phases(2) [OF assms(2)] by (auto simp: replaces_def set_worker_def)
next
  case (Written job elapsed)
  then show ?thesis using worker_ok_phases(4) [OF assms(2)] by (auto simp: replaces_def job_written_def set_worker_def Let_def in_flight_def)
next
  case (Failed job e)
  then show ?thesis using worker_ok_phases(3) [OF assms(2)]
    by (auto simp: replaces_def job_failed_def set_worker_def recordError_def Let_def in_flight_def)
next
  case Exit
  then show ?thesis using worker_ok_phases(5) [OF assms(2)] by (auto simp: replaces_def set_worker_def)
qed

lemma worker_step_inv:
  assumes "worker_step k s s'" "sender_inv s"
  shows "sender_inv s'"
proof -
  have w: "\<forall>v\<in>set (pc_workers s). worker_ok (pc_firstErr s \<noteq> None) (pc_closed s) v" and sp: "spread s"
    and rest: "\<And>r. pc_caller s = Finished r \<Longrightarrow> r = pc_firstErr s \<and> (\<forall>v\<in>set (pc_workers s). cw_phase v = Exited)"
    using assms(2) unfolding sender_inv_def by blast+
  have k: "k < length (pc_workers s)" using assms(1) by cases
  then have mem: "pc_workers s ! k \<in> set (pc_workers s)" by simp
  obtain v where v: "replaces k s s' v" "worker_ok (pc_firstErr s' \<noteq> None) (pc_closed s') v"
    using worker_step_replaces [OF assms(1)] w mem by blast
  then have v': "cw_queued v = cw_queued (pc_workers s ! k)" "pc_workers s' = (pc_workers s)[k := v]" "pc_accepted s' = pc_accepted s"
    by (simp_all add: replaces_def)
  have "\<forall>v\<in>set (pc_workers s'). worker_ok (pc_firstErr s' \<noteq> None) (pc_closed s') v"
    unfolding v'(2) by (rule workers_updated [OF w v(2)]) (use v(1) in \<open>simp_all add: replaces_def\<close>)
  moreover have "spread s'" by (rule spread_update [OF sp k v'])
  moreover have "\<nexists>r. pc_caller s = Finished r" using rest mem v(1) by (auto simp: replaces_def)
  ultimately show ?thesis using assms(2) v(1) by (simp add: sender_inv_def replaces_def)
qed

lemma try_worker_inv:
  assumes "sender_inv s" "pc_caller s = Trying job (k # ks)"
  shows "sender_inv (try_worker job k ks s)"
proof -
  let ?v = "pc_workers s ! k" and ?s = "try_worker job k ks s"
  have w: "\<forall>v\<in>set (pc_workers s). worker_ok (pc_firstErr s \<noteq> None) (pc_closed s) v" and sp: "spread s"
    and k: "k < length (pc_workers s)" "set ks \<subseteq> {..<length (pc_workers s)}" and open_: "\<not> pc_closed s"
    using assms by (auto simp: sender_inv_def)
  have ok: "worker_ok (pc_firstErr s \<noteq> None) (pc_closed s) ?v" using w k(1) by simp
  show ?thesis
  proof (cases "queue_full ?v")
    case True
    let ?w = "?v\<lparr>cw_pendingBytes := sub64 (add64 (cw_pendingBytes ?v) (job_bytes job)) (job_bytes job)\<rparr>"
    have s: "?s = s\<lparr>pc_workers := (pc_workers s)[k := ?w], pc_caller := Trying job ks\<rparr>"
      using True by (simp add: try_worker_def set_worker_def Let_def)
    have "spread ?s" unfolding s by (rule spread_update [OF sp k(1), of ?w]) simp_all
    moreover have "\<forall>v\<in>set ((pc_workers s)[k := ?w]). worker_ok (pc_firstErr s \<noteq> None) (pc_closed s) v"
      by (rule workers_updated [OF w worker_ok_try(2) [OF ok open_]]) auto
    ultimately show ?thesis using s open_ k(2) by (simp add: sender_inv_def)
  next
    case False
    let ?w = "?v\<lparr>cw_pendingBytes := add64 (cw_pendingBytes ?v) (job_bytes job), cw_jobs := cw_jobs ?v @ [job], cw_queued := cw_queued ?v @ [job],
         cw_scheduledBytes := add64 (cw_scheduledBytes ?v) (job_bytes job)\<rparr>"
    have s: "?s = s\<lparr>pc_workers := (pc_workers s)[k := ?w], pc_cursor := pc_cursor ?s, pc_caller := Outside, pc_accepted := pc_accepted s @ [job]\<rparr>"
      using False by (simp add: try_worker_def set_worker_def Let_def)
    have "spread ?s" by (subst s) (rule spread_push [OF sp k(1), of ?w job]; simp)
    moreover have "\<forall>v\<in>set ((pc_workers s)[k := ?w]). worker_ok (pc_firstErr s \<noteq> None) (pc_closed s) v"
      by (rule workers_updated [OF w worker_ok_try(1) [OF ok open_ False]]) auto
    moreover have "pc_workers ?s = (pc_workers s)[k := ?w]" "pc_caller ?s = Outside" "pc_closed ?s = pc_closed s" "pc_firstErr ?s = pc_firstErr s"
      by (subst s, simp)+
    ultimately show ?thesis using open_ by (simp add: sender_inv_def)
  qed
qed

lemma caller_step_inv:
  assumes "caller_step s s'" "sender_inv s"
  shows "sender_inv s'"
  using assms(1)
proof cases
  case (Try job k ks)
  then show ?thesis using try_worker_inv [OF assms(2)] by simp
next
  case (Finish abort)
  have "\<forall>v\<in>set (pc_workers s). worker_ok (pc_firstErr s \<noteq> None) True v"
    using assms(2) unfolding sender_inv_def by (blast intro: worker_ok_mono)
  then show ?thesis using assms(2) Finish by (simp add: sender_inv_def spread_def)
qed (use assms(2) in \<open>auto simp: sender_inv_def spread_def sender_error_def\<close>)

lemma sender_inv_canceled [simp]: "sender_inv (s\<lparr>pc_canceled := b\<rparr>) \<longleftrightarrow> sender_inv s"
  by (simp add: sender_inv_def spread_def)

lemma new_worker_ok: "worker_ok False False (new_worker i)"
  by (simp add: worker_ok_def fifo_def counted_def in_flight_def new_worker_def wrap64_def)

lemma reaches_inv: "reaches t s \<Longrightarrow> sender_inv s"
proof (induction rule: reaches.induct)
  case Start
  have "(\<Sum>p\<leftarrow>tl (ts_pipes t). mset (cw_queued (new_worker (sp_index p)))) = {#}" by (simp add: new_worker_def)
  then show ?case using new_worker_ok by (auto simp: sender_inv_def newParallelChunkSender_def spread_def new_worker_def comp_def)
next
  case (Step s s')
  from Step.hyps(2) show ?case
  proof cases
    case Cancel
    then show ?thesis using Step.IH by simp
  qed (use Step.IH in \<open>blast intro: worker_step_inv caller_step_inv\<close>)+
qed

text \<open>
C10: The parallel sender delivers. However the goroutines are interleaved and wherever each chunk is
queued, when \<open>Close\<close> returns no error every chunk that \<open>SendChunk\<close> accepted was written to exactly
one connection, once; each connection got its chunks in the order of the calls; and the statistics
count the bytes and chunks that were written (modulo the width of the counters).
\<close>

theorem close_means_written:
  assumes "reaches t s" and "pc_caller s = Finished None"
  shows "(\<Sum>v\<leftarrow>pc_workers s. mset (cw_written v)) = mset (pc_accepted s)
    \<and> (\<forall>v\<in>set (pc_workers s). subseq (cw_written v) (pc_accepted s))
    \<and> map ps_Bytes (Stats s) = map (\<lambda>v. wrap64 (bytes_of (cw_written v))) (pc_workers s)
    \<and> map ps_Chunks (Stats s) = map (\<lambda>v. wrap64 (int (length (cw_written v)))) (pc_workers s)"
proof -
  note inv = reaches_inv [OF assms(1), unfolded sender_inv_def]
  have "cw_written v = cw_queued v" if "v \<in> set (pc_workers s)" for v
    using inv assms(2) that by (fastforce simp: worker_ok_def fifo_def in_flight_def)
  then have "(\<Sum>v\<leftarrow>pc_workers s. mset (cw_written v)) = (\<Sum>v\<leftarrow>pc_workers s. mset (cw_queued v))"
      "\<forall>v\<in>set (pc_workers s). subseq (cw_written v) (pc_accepted s)"
    using inv by (auto simp: spread_def cong: map_cong)
  moreover have "map ps_Bytes (Stats s) = map (\<lambda>v. wrap64 (bytes_of (cw_written v))) (pc_workers s)"
      "map ps_Chunks (Stats s) = map (\<lambda>v. wrap64 (int (length (cw_written v)))) (pc_workers s)"
    using inv by (auto simp: Stats_def worker_ok_def counted_def)
  ultimately show ?thesis using inv by (simp add: spread_def)
qed

section \<open>Calls return\<close>

definition busy :: "parallelChunkSender \<Rightarrow> bool" where
  "busy s \<longleftrightarrow> (case pc_caller s of Outside \<Rightarrow> False | Finished _ \<Rightarrow> False | _ \<Rightarrow> True)"

definition phase_work :: "worker_phase \<Rightarrow> nat" where
  "phase_work p = (case p of Took _ \<Rightarrow> 3 | Writing _ \<Rightarrow> 2 | Receiving \<Rightarrow> 1 | Exited \<Rightarrow> 0)"

definition worker_work :: "chunkPathWorker \<Rightarrow> nat" where
  "worker_work v = 4 * length (cw_jobs v) + phase_work (cw_phase v)"

definition work_left :: "parallelChunkSender \<Rightarrow> nat" where
  "work_left s = (\<Sum>v\<leftarrow>pc_workers s. worker_work v)"

definition caller_work :: "parallelChunkSender \<Rightarrow> nat" where
  "caller_work s = (case pc_caller s of Trying _ ks \<Rightarrow> Suc (length ks) | _ \<Rightarrow> 0)"

lemma sum_list_update_less:
  fixes h :: "'a \<Rightarrow> nat"
  assumes "k < length xs"
  shows "(\<Sum>x\<leftarrow>xs[k := y]. h x) + h (xs ! k) = (\<Sum>x\<leftarrow>xs. h x) + h y"
proof -
  have "xs = take k xs @ xs ! k # drop (Suc k) xs" by (rule id_take_nth_drop [OF assms])
  then have "(\<Sum>x\<leftarrow>xs. h x) = (\<Sum>x\<leftarrow>take k xs @ xs ! k # drop (Suc k) xs. h x)" by simp
  then show ?thesis using assms by (simp add: upd_conv_take_nth_drop)
qed

lemma worker_step_works:
  assumes "worker_step k s s'"
  shows "work_left s' < work_left s"
proof -
  have k: "k < length (pc_workers s)" using assms by cases
  have "pc_workers s' = (pc_workers s)[k := pc_workers s' ! k] \<and> worker_work (pc_workers s' ! k) < worker_work (pc_workers s ! k)"
    using assms by cases (simp_all add: take_job_def job_failed_def job_written_def set_worker_def recordError_def Let_def
      worker_work_def phase_work_def)
  then show ?thesis using sum_list_update_less [OF k, of worker_work "pc_workers s' ! k"] by (simp add: work_left_def)
qed

lemma caller_step_works:
  assumes "caller_step s s'" "sender_inv s" "busy s" "busy s'"
  shows "work_left s' = work_left s \<and> (pc_available s \<and> \<not> pc_available s' \<or> pc_available s' = pc_available s \<and> caller_work s' < caller_work s)"
  using assms(1)
proof cases
  case (Try job k ks)
  let ?v = "pc_workers s ! k"
  have k: "k < length (pc_workers s)" using assms(2) Try by (simp add: sender_inv_def)
  have full: "queue_full ?v" using assms(4) Try by (auto simp: busy_def try_worker_def set_worker_def Let_def split: if_splits)
  have "(\<Sum>v\<leftarrow>(pc_workers s)[k := ?v\<lparr>cw_pendingBytes := n\<rparr>]. worker_work v) = (\<Sum>v\<leftarrow>pc_workers s. worker_work v)" for n
    using sum_list_update_less [OF k, of worker_work "?v\<lparr>cw_pendingBytes := n\<rparr>"] by (simp add: worker_work_def)
  with Try full show ?thesis
    by (simp add: try_worker_def set_worker_def Let_def work_left_def caller_work_def)
qed (use assms(3,4) in \<open>auto simp: busy_def work_left_def caller_work_def\<close>)

text \<open>The signal \<open>available\<close> is not lost: without it, every queue the caller has tried is full.\<close>

definition tried_full :: "parallelChunkSender \<Rightarrow> bool" where
  "tried_full s \<longleftrightarrow> (\<not> pc_available s \<longrightarrow> (\<forall>k<length (pc_workers s).
     (case pc_caller s of Trying _ ks \<Rightarrow> k \<notin> set ks | Blocked _ \<Rightarrow> True | _ \<Rightarrow> False) \<longrightarrow> queue_full (pc_workers s ! k)))"

lemma worker_step_tried:
  assumes "worker_step k s s'" "tried_full s"
  shows "tried_full s'"
  using assms(1)
proof cases
  case (Take job js)
  then show ?thesis by (simp add: tried_full_def take_job_def Let_def)
qed (use assms(2) in \<open>auto simp: tried_full_def job_failed_def job_written_def set_worker_def recordError_def Let_def
    queue_full_def nth_list_update\<close>)

lemma try_worker_tried:
  assumes "tried_full s" "sender_inv s" "pc_caller s = Trying job (k # ks)"
  shows "tried_full (try_worker job k ks s)"
  using assms by (auto simp: tried_full_def try_worker_def set_worker_def Let_def nth_list_update queue_full_def sender_inv_def)

lemma caller_step_tried:
  assumes "caller_step s s'" "tried_full s" "sender_inv s"
  shows "tried_full s'"
  using assms(1)
proof cases
  case (Try job k ks)
  then show ?thesis using try_worker_tried [OF assms(2,3)] by simp
qed (use assms(2) in \<open>auto simp: tried_full_def\<close>)

lemma reaches_tried: "reaches t s \<Longrightarrow> tried_full s"
proof (induction rule: reaches.induct)
  case Start
  then show ?case by (simp add: tried_full_def newParallelChunkSender_def)
next
  case (Step s s')
  from Step.hyps(2) show ?case
  proof cases
    case (Caller)
    then show ?thesis using Step.IH reaches_inv [OF Step.hyps(1)] caller_step_tried by blast
  next
    case Cancel
    then show ?thesis using Step.IH by (simp add: tried_full_def)
  qed (use Step.IH in \<open>blast intro: worker_step_tried\<close>)
qed

lemma worker_can_step:
  assumes "k < length (pc_workers s)" "cw_phase (pc_workers s ! k) \<noteq> Exited" "cw_jobs (pc_workers s ! k) \<noteq> [] \<or> pc_closed s"
  shows "\<exists>s'. worker_step k s s'"
proof (cases "cw_phase (pc_workers s ! k)")
  case Receiving
  then show ?thesis using assms by (cases "cw_jobs (pc_workers s ! k)") (auto intro: worker_step.Take worker_step.Exit)
next
  case (Took job)
  then show ?thesis using assms(1) by (cases "pc_canceled s") (auto intro: worker_step.Canceled worker_step.Start)
qed (use assms in \<open>auto intro: worker_step.Written\<close>)

lemma reaches_workers: "reaches t s \<Longrightarrow> length (pc_workers s) = length (ts_pipes t) - 1"
proof (induction rule: reaches.induct)
  case (Step s s')
  have "length (pc_workers s') = length (pc_workers s)"
    using Step.hyps(2) by (auto elim!: sender_step.cases worker_step.cases caller_step.cases
        simp: take_job_def job_failed_def job_written_def try_worker_def set_worker_def recordError_def Let_def)
  with Step.IH show ?case by simp
qed (simp add: newParallelChunkSender_def)

lemma busy_can_step:
  assumes "reaches t s" "length (ts_pipes t) > 1" "busy s"
  shows "(\<exists>k s'. worker_step k s s') \<or> (\<exists>s'. caller_step s s')"
proof -
  note inv = reaches_inv [OF assms(1), unfolded sender_inv_def]
  show ?thesis
  proof (cases "pc_caller s")
    case (Trying job ks)
    then show ?thesis by (cases ks) (auto intro: caller_step.Try caller_step.Block)
  next
    case (Blocked job)
    have n: "0 < length (pc_workers s)" using reaches_workers [OF assms(1)] assms(2) by simp
    show ?thesis
    proof (cases "pc_available s")
      case True
      then show ?thesis using Blocked by (auto intro: caller_step.Again)
    next
      case False
      then have "queue_full (pc_workers s ! 0)" using reaches_tried [OF assms(1)] Blocked n by (simp add: tried_full_def)
      then have "cw_jobs (pc_workers s ! 0) \<noteq> []" by (auto simp: queue_full_def chunkPathQueueDepth_def)
      moreover from this have "cw_phase (pc_workers s ! 0) \<noteq> Exited" using inv n by (force simp: worker_ok_def)
      ultimately show ?thesis using worker_can_step [OF n] by blast
    qed
  next
    case Finishing
    show ?thesis
    proof (cases "\<forall>v\<in>set (pc_workers s). cw_phase v = Exited")
      case True
      then show ?thesis using Finishing by (auto intro: caller_step.Finish_end)
    next
      case False
      then obtain k where "k < length (pc_workers s)" "cw_phase (pc_workers s ! k) \<noteq> Exited" by (auto simp: in_set_conv_nth)
      then show ?thesis using worker_can_step inv Finishing by blast
    qed
  qed (use assms(3) in \<open>simp_all add: busy_def\<close>)
qed

text \<open>A session with one data connection, and a run that sends one chunk on it.\<close>

definition demo_striped :: TransferSession where
  "demo_striped =
     newTransferSessionWithPipes (map (\<lambda>k. newSecurePipe (\<lambda>_ _ _ n. replicate n CHR ''k'') k ''c'' ''s'' ''r'' True '''') [0, 1]) []"

definition demo_job :: chunkSendJob where
  "demo_job = \<lparr>job_message = zero_message, job_bytes = 5\<rparr>"

definition demo_closed :: parallelChunkSender where
  "demo_closed = \<lparr>pc_workers = [\<lparr>cw_index = 1, cw_jobs = [], cw_phase = Exited, cw_pendingBytes = 0, cw_scheduledBytes = 5, cw_sentBytes = 5,
      cw_sentChunks = 1, cw_sendNanos = 7, cw_queued = [demo_job], cw_written = [demo_job]\<rparr>], pc_cursor = 0, pc_available = True,
      pc_canceled = True, pc_firstErr = None, pc_closed = True, pc_caller = Finished None, pc_accepted = [demo_job]\<rparr>"

lemma demo_closed_reached: "reaches demo_striped demo_closed"
proof -
  let ?s0 = "newParallelChunkSender demo_striped"
  let ?s1 = "?s0\<lparr>pc_caller := Trying demo_job (orderedWorkers (\<lambda>_. 0) ?s0)\<rparr>"
  let ?s2 = "try_worker demo_job 0 [] ?s1"
  let ?s3 = "take_job 0 demo_job ?s2"
  let ?s4 = "set_worker 0 ((pc_workers ?s3 ! 0)\<lparr>cw_phase := Writing demo_job\<rparr>) ?s3"
  let ?s5 = "job_written 0 demo_job 7 ?s4"
  let ?s6 = "?s5\<lparr>pc_canceled := pc_canceled ?s5 \<or> False, pc_closed := True, pc_caller := Finishing\<rparr>"
  let ?s7 = "set_worker 0 ((pc_workers ?s6 ! 0)\<lparr>cw_phase := Exited\<rparr>) ?s6"
  let ?s8 = "?s7\<lparr>pc_canceled := True, pc_caller := Finished (sender_error ?s7)\<rparr>"
  note unfold = newParallelChunkSender_def demo_striped_def newTransferSessionWithPipes_def newSecurePipe_def new_worker_def
    orderedWorkers_def worker_rank_def try_worker_def take_job_def job_written_def set_worker_def queue_full_def
    chunkPathQueueDepth_def demo_job_def add64_def sub64_def wrap64_def sender_error_def
  have "reaches demo_striped ?s0" by (rule reaches.Start)
  then have "reaches demo_striped ?s1" by (rule reaches.Step) (rule sender_step.Caller, rule caller_step.Call, simp_all add: unfold)
  then have "reaches demo_striped ?s2" by (rule reaches.Step) (rule sender_step.Caller, rule caller_step.Try, simp add: unfold)
  then have "reaches demo_striped ?s3"
    by (rule reaches.Step) (rule sender_step.Worker, rule worker_step.Take [of _ _ _ "[]"], simp_all add: unfold)
  then have "reaches demo_striped ?s4" by (rule reaches.Step) (rule sender_step.Worker, rule worker_step.Start, simp_all add: unfold)
  then have "reaches demo_striped ?s5" by (rule reaches.Step) (rule sender_step.Worker, rule worker_step.Written, simp_all add: unfold)
  then have "reaches demo_striped ?s6" by (rule reaches.Step) (rule sender_step.Caller, rule caller_step.Finish, simp add: unfold)
  then have "reaches demo_striped ?s7" by (rule reaches.Step) (rule sender_step.Worker, rule worker_step.Exit, simp_all add: unfold)
  then have "reaches demo_striped ?s8" by (rule reaches.Step) (rule sender_step.Caller, rule caller_step.Finish_end, simp_all add: unfold)
  moreover have "?s8 = demo_closed" by (simp add: unfold demo_closed_def signed_modulo_int_def)
  ultimately show ?thesis by simp
qed

theorem close_means_written_witness:
  "reaches demo_striped demo_closed \<and> (\<Sum>v\<leftarrow>pc_workers demo_closed. mset (cw_written v)) = mset (pc_accepted demo_closed)
     \<and> map ps_Bytes (Stats demo_closed) = [5]"
  using close_means_written [OF demo_closed_reached] demo_closed_reached
  by (simp add: demo_closed_def demo_job_def wrap64_def)

section \<open>No deadlock\<close>

text \<open>
C11: \<open>SendChunk\<close> and \<open>Close\<close> return. With at least one data connection the sender never deadlocks: as
long as a call is under way, some goroutine can take a step, however full the queues are; and the
goroutines cannot keep a call going forever, the steps inside a call are well founded.
\<close>

theorem parallel_calls_return:
  assumes "length (ts_pipes t) > 1"
  shows "(\<forall>s. reaches t s \<and> busy s \<longrightarrow> (\<exists>k s'. worker_step k s s') \<or> (\<exists>s'. caller_step s s'))
    \<and> wf {(s', s). reaches t s \<and> busy s \<and> busy s' \<and> ((\<exists>k. worker_step k s s') \<or> caller_step s s')}"
proof (intro conjI allI impI)
  show "(\<exists>k s'. worker_step k s s') \<or> (\<exists>s'. caller_step s s')" if "reaches t s \<and> busy s" for s
    using busy_can_step [of t s] assms that by blast
  let ?m = "[work_left, \<lambda>s. if pc_available s then 1 else 0, caller_work]"
  have "{(s', s). reaches t s \<and> busy s \<and> busy s' \<and> ((\<exists>k. worker_step k s s') \<or> caller_step s s')} \<subseteq> measures ?m"
    using worker_step_works caller_step_works reaches_inv by fastforce
  then show "wf {(s', s). reaches t s \<and> busy s \<and> busy s' \<and> ((\<exists>k. worker_step k s s') \<or> caller_step s s')}"
    by (rule wf_subset [OF wf_measures])
qed

theorem parallel_calls_return_witness:
  "length (ts_pipes demo_striped) > 1
     \<and> wf {(s', s). reaches demo_striped s \<and> busy s \<and> busy s' \<and> ((\<exists>k. worker_step k s s') \<or> caller_step s s')}"
proof -
  have "length (ts_pipes demo_striped) > 1" by (simp add: demo_striped_def newTransferSessionWithPipes_def)
  with parallel_calls_return [OF this] show ?thesis by blast
qed

end
