(* ===== verification/Receiver.thy ===== *)
theory Receiver
  imports Session_Safety Receiver_Safety Progress
begin

text \<open>
  Receiving a transfer (\<open>Receive\<close> of internal/transfer/transfer.go from the point where the session
  is established): the session's events drive the receive store and the progress reporter. The
  orders in which Go iterates over maps are the record \<open>map_orders\<close>; log output and the texts
  returned beside an error are left out. \<open>rw_log\<close> records what the session handed out; no operation
  reads it.
\<close>

section \<open>State\<close>

record map_orders =
  mo_open :: "int list"
  mo_accept :: "int list"
  mo_finalize :: "int list"
  mo_close :: "int list"

record receiveWorld =
  rw_session :: TransferSession
  rw_store :: "ReceiveStore option"
  rw_fs :: fs
  rw_progress :: "progressReporter option"
  rw_log :: "sess_answer list"

datatype recv_error =
    RecvSession sess_error
  | RecvStore store_error
  | RecvMux mux_error
  | ChunkBeforeStore
  | DoneBeforeStore
  | MissingDeferredSHA string
  | RecvPeer string
  | UnexpectedEvent string

type_synonym 'a recv_act = "(receiveWorld, recv_error, 'a) act"

definition recv_session :: "'a sess_act \<Rightarrow> 'a recv_act" where
  "recv_session m w =
     (case m (rw_session w) of
        (Inl e, s) \<Rightarrow> (Inl (RecvSession e), w\<lparr>rw_session := s\<rparr>)
      | (Inr a, s) \<Rightarrow> (Inr a, w\<lparr>rw_session := s\<rparr>))"

definition recv_logged :: "('a \<Rightarrow> sess_answer) \<Rightarrow> 'a sess_act \<Rightarrow> 'a recv_act" where
  "recv_logged answer m =
     bind_act (recv_session m) (\<lambda>a. bind_act (modify (\<lambda>w. w\<lparr>rw_log := rw_log w @ [answer a]\<rparr>)) (\<lambda>_. ret a))"

text \<open>An operation of the store; \<open>missing\<close> is the error when there is none yet.\<close>

definition recv_store :: "recv_error \<Rightarrow> 'a store_act \<Rightarrow> 'a recv_act" where
  "recv_store missing m w =
     (case rw_store w of
        None \<Rightarrow> (Inl missing, w)
      | Some s \<Rightarrow>
          (case m (s, rw_fs w) of
             (Inl e, (s', f)) \<Rightarrow> (Inl (RecvStore e), w\<lparr>rw_store := Some s', rw_fs := f\<rparr>)
           | (Inr a, (s', f)) \<Rightarrow> (Inr a, w\<lparr>rw_store := Some s', rw_fs := f\<rparr>)))"

section \<open>Events\<close>

definition new_store :: "(string \<Rightarrow> string) \<Rightarrow> map_orders \<Rightarrow> string \<Rightarrow> string \<Rightarrow> Manifest option \<Rightarrow> ReceiveStore recv_act" where
  "new_store sha ord outputDir policy manifest w =
     (case NewReceiveStoreWithOptions sha (mo_open ord) manifest outputDir policy (StripesChunks (rw_session w)) (rw_fs w) of
        (Inl e, f) \<Rightarrow> (Inl (RecvStore e), w\<lparr>rw_fs := f\<rparr>)
      | (Inr s, f) \<Rightarrow> (Inr s, w\<lparr>rw_store := Some s, rw_fs := f\<rparr>))"

definition new_progress :: "Manifest option \<Rightarrow> ResumeEntry list \<Rightarrow> unit recv_act" where
  "new_progress manifest entries =
     bind_act (try_get RecvMux (\<lambda>_. newManifestProgressReporter manifest (resumeEntriesToOffsets entries))) (\<lambda>p.
       modify (\<lambda>w. w\<lparr>rw_progress := Some p\<rparr>))"

text \<open>With deferred hashes, the acceptance of every file that is not skipped carries its hash.\<close>

definition deferred_ok :: "Item list \<Rightarrow> ResumeEntry list \<Rightarrow> (recv_error, unit) result" where
  "deferred_ok items accepted =
     (case filter (\<lambda>e. item_kind (items ! nat (re_item e)) = ItemFile \<and> \<not> re_skip e \<and> re_sha256 e = '''') accepted of
        [] \<Rightarrow> Inr ()
      | e # _ \<Rightarrow> Inl (MissingDeferredSHA (item_name (items ! nat (re_item e)))))"

definition on_manifest :: "wire \<Rightarrow> (string \<Rightarrow> string) \<Rightarrow> map_orders \<Rightarrow> string \<Rightarrow> string \<Rightarrow> int \<Rightarrow> Manifest option \<Rightarrow> unit recv_act" where
  "on_manifest wr sha ord outputDir policy now manifest =
     bind_act (new_store sha ord outputDir policy manifest) (\<lambda>store.
       let resume = ResumeEntries store; items = (case manifest of None \<Rightarrow> [] | Some m \<Rightarrow> mf_items m) in
       bind_act (new_progress manifest resume) (\<lambda>_.
         if resume = [] then ret ()
         else
           bind_act (recv_session (SendResume wr now resume)) (\<lambda>_.
           bind_act (recv_logged Accepted (WaitResumeAccept items)) (\<lambda>accepted.
           bind_act (gets (\<lambda>w. DeferredFileSHA256 (rw_session w))) (\<lambda>deferred.
           bind_act (if deferred then try_get (\<lambda>e. e) (\<lambda>_. deferred_ok items accepted) else ret ()) (\<lambda>_.
           bind_act (recv_store ChunkBeforeStore (ApplyResumeAccept (mo_accept ord) accepted)) (\<lambda>_.
             new_progress manifest accepted)))))))"

definition on_chunk :: "TransferEvent \<Rightarrow> unit recv_act" where
  "on_chunk ev =
     bind_act (recv_store ChunkBeforeStore (WriteChunk (ev_ItemID ev) (ev_Offset ev) (ev_Data ev))) (\<lambda>_.
       modify (\<lambda>w. w\<lparr>rw_progress := map_option (AddStream (ev_StreamID ev) (int (length (ev_Data ev)))) (rw_progress w)\<rparr>))"

definition on_done :: "wire \<Rightarrow> (string \<Rightarrow> string) \<Rightarrow> map_orders \<Rightarrow> int \<Rightarrow> ReceivedText list recv_act" where
  "on_done wr sha ord now =
     bind_act (recv_store DoneBeforeStore (Finalize sha (mo_finalize ord))) (\<lambda>texts.
     bind_act (recv_session (SendComplete wr now)) (\<lambda>_. ret texts))"

text \<open>The switch over an event: the texts when the transfer is done, nothing when the loop goes on.\<close>

definition on_event ::
  "wire \<Rightarrow> (string \<Rightarrow> string) \<Rightarrow> map_orders \<Rightarrow> string \<Rightarrow> string \<Rightarrow> int \<Rightarrow> TransferEvent \<Rightarrow> ReceivedText list option recv_act" where
  "on_event wr sha ord outputDir policy now ev =
     (if ev_Kind ev = ''manifest'' then
        bind_act (on_manifest wr sha ord outputDir policy now (ev_Manifest ev)) (\<lambda>_. ret None)
      else if ev_Kind ev = ''stream_open'' \<or> ev_Kind ev = ''stream_end'' then ret None
      else if ev_Kind ev = ''chunk'' then bind_act (on_chunk ev) (\<lambda>_. ret None)
      else if ev_Kind ev = ''done'' then bind_act (on_done wr sha ord now) (\<lambda>texts. ret (Some texts))
      else if ev_Kind ev = ''error'' then throw (RecvPeer (ev_Error ev))
      else throw (UnexpectedEvent (ev_Kind ev)))"

definition receive_turn ::
  "wire \<Rightarrow> gunzip_fun \<Rightarrow> (string \<Rightarrow> string) \<Rightarrow> map_orders \<Rightarrow> string \<Rightarrow> string \<Rightarrow> int \<Rightarrow> ReceivedText list option recv_act" where
  "receive_turn wr gunzip sha ord outputDir policy now =
     bind_act (recv_logged Got (ReceiveEvent gunzip now)) (on_event wr sha ord outputDir policy now)"

section \<open>The loop ends\<close>

lemma backlog_simps [simp]:
  "backlog (s\<lparr>ts_pipes := p, ts_out := q\<rparr>) = backlog s" "backlog (s\<lparr>ts_receiveCoverage := c\<rparr>) = backlog s"
  "backlog (s\<lparr>ts_receiveStreams := t\<rparr>) = backlog s" "backlog (s\<lparr>ts_pendingDone := b\<rparr>) = backlog s"
  by (simp_all add: backlog_def)

lemma send_on_backlog: "send_on wr k msg s = (r, s') \<Longrightarrow> backlog s' = backlog s"
  by (auto simp: send_on_def split: option.splits prod.splits)

lemma dispatch_backlog: "dispatch gunzip msg s = (r, s') \<Longrightarrow> backlog s' = backlog s"
  by (auto simp: dispatch_def Let_def accept_manifest_def accept_open_def accept_chunk_def accept_end_def ret_def
      throw_def bind_act_def gets_def backlog_def split: if_splits option.splits sum.splits prod.splits)

lemma receive_step_some:
  assumes "receive_step gunzip s = (Inr (Some ev), s')"
  shows "backlog s' < backlog s"
proof -
  obtain r s1 where r: "receiveMessage s = (Inr r, s1)" and h: "handle_received gunzip r s1 = (Inr (Some ev), s')"
    using assms by (auto simp: receive_step_def bind_act_def split: prod.splits sum.splits)
  have "backlog s1 < backlog s"
    using r by (auto simp: receiveMessage_def receiveFreshMessage_def backlog_def split: option.splits list.splits)
  moreover have "backlog s' = backlog s1"
    using h by (auto simp: handle_received_def Let_def split: if_splits sum.splits prod.splits dest: dispatch_backlog)
  ultimately show ?thesis by simp
qed

lemma ReceiveEvent_backlog:
  assumes "ReceiveEvent gunzip now s = (Inr ev, s')" and "ev_Kind ev \<noteq> ''done''"
  shows "backlog s' < backlog s"
  using assms
proof (induction gunzip now s rule: ReceiveEvent.induct)
  case (1 gunzip now s)
  show ?case
  proof (cases "ts_pendingDone s \<and> receiveReady s")
    case True
    with "1.prems" show ?thesis by (auto simp: ReceiveEvent.simps [of gunzip now s])
  next
    case False
    obtain x s1 where x: "receive_step gunzip s = (x, s1)" by (cases "receive_step gunzip s")
    show ?thesis
    proof (cases x)
      case (Inl e)
      with "1.prems"(1) x show ?thesis by (auto simp: ReceiveEvent.simps [of gunzip now s] if_not_P [OF False])
    next
      case (Inr oe)
      show ?thesis
      proof (cases oe)
        case None
        then have step: "receive_step gunzip s = (Inr None, s1)" using x Inr by simp
        have "ReceiveEvent gunzip now s1 = (Inr ev, s')"
          using "1.prems"(1) step by (simp add: ReceiveEvent.simps [of gunzip now s] if_not_P [OF False])
        then have "backlog s' < backlog s1" using "1.IH" [OF False step [symmetric] refl _ _] "1.prems"(2) by simp
        with receive_step_backlog [OF step] show ?thesis by simp
      next
        case (Some e)
        with "1.prems"(1) x Inr have "receive_step gunzip s = (Inr (Some ev), s')"
          by (simp add: ReceiveEvent.simps [of gunzip now s] if_not_P [OF False])
        then show ?thesis by (rule receive_step_some)
      qed
    qed
  qed
qed

lemma control_loop_backlog:
  "control_loop rs s = (r, s') \<Longrightarrow> backlog s' \<le> 2 * length rs + length (ts_deferredMessages s)"
proof (induction rs arbitrary: s)
  case (Cons a rs)
  then show ?case by (fastforce simp: backlog_def split: option.splits if_splits sum.splits)
qed (auto simp: backlog_def)

lemma applyReceiveResume_backlog [simp]: "backlog (applyReceiveResume es s) = backlog s"
proof -
  have "backlog (fold (\<lambda>entry s. s\<lparr>ts_receiveCoverage := (ts_receiveCoverage s)(re_item entry \<mapsto> newByteRanges (re_offset entry))\<rparr>) es s)
      = backlog s" by (induction es arbitrary: s) simp_all
  then show ?thesis by (simp add: applyReceiveResume_def)
qed

lemma WaitResumeAccept_backlog: "WaitResumeAccept items s = (Inr es, s') \<Longrightarrow> backlog s' \<le> backlog s"
  by (auto simp: WaitResumeAccept_def bind_act_def receiveControlMessage_def Let_def throw_def try_get_def modify_def ret_def
      backlog_def [of s] split: sum.splits prod.splits if_splits dest: control_loop_backlog)

definition no_growth :: "'a recv_act \<Rightarrow> bool" where
  "no_growth m \<longleftrightarrow> (\<forall>w a w'. m w = (Inr a, w') \<longrightarrow> backlog (rw_session w') \<le> backlog (rw_session w))"

lemma no_growth_Inr: "no_growth m \<Longrightarrow> m w = (Inr a, w') \<Longrightarrow> backlog (rw_session w') \<le> backlog (rw_session w)"
  by (simp add: no_growth_def)

lemma no_growth_bind [intro]: "no_growth m \<Longrightarrow> (\<And>a. no_growth (k a)) \<Longrightarrow> no_growth (bind_act m k)"
  unfolding no_growth_def bind_act_def by (auto split: prod.splits sum.splits) (meson le_trans)

lemma no_growth_if [intro]: "no_growth m \<Longrightarrow> no_growth m' \<Longrightarrow> no_growth (if b then m else m')"
  by simp

lemma no_growth_basic [intro]:
  "no_growth (ret a)" "no_growth (throw e)" "no_growth (gets g)" "no_growth (try_get h g')"
  "(\<And>w. rw_session (u w) = rw_session w) \<Longrightarrow> no_growth (modify u)"
  by (auto simp: no_growth_def ret_def throw_def gets_def try_get_def modify_def split: sum.splits)

lemma no_growth_session: "(\<And>s a s'. m s = (Inr a, s') \<Longrightarrow> backlog s' \<le> backlog s) \<Longrightarrow> no_growth (recv_session m)"
  by (auto simp: no_growth_def recv_session_def split: sum.splits prod.splits)

lemma no_growth_store [intro]: "no_growth (new_store sha ord d policy m)" "no_growth (recv_store e op)"
  by (auto simp: no_growth_def new_store_def recv_store_def split: sum.splits prod.splits option.splits)

lemma no_growth_send: "no_growth (recv_session (send_on wr k msg))"
  by (rule no_growth_session) (use send_on_backlog in fastforce)

lemma no_growth_progress [intro]: "no_growth (new_progress m es)"
  unfolding new_progress_def by (intro no_growth_bind no_growth_basic) simp

lemma no_growth_logged: "no_growth (recv_session m) \<Longrightarrow> no_growth (recv_logged answer m)"
  unfolding recv_logged_def by (intro no_growth_bind no_growth_basic) simp_all

lemma on_manifest_growth [intro]: "no_growth (on_manifest wr sha ord d policy now m)"
proof -
  have "no_growth (recv_logged Accepted (WaitResumeAccept items))" for items
    by (rule no_growth_logged, rule no_growth_session) (rule WaitResumeAccept_backlog)
  moreover have "no_growth (recv_session (SendResume wr now es))" for es unfolding SendResume_def by (rule no_growth_send)
  ultimately show ?thesis unfolding on_manifest_def Let_def
    by (intro no_growth_bind no_growth_store no_growth_progress no_growth_if no_growth_basic)
qed

lemma on_chunk_growth [intro]: "no_growth (on_chunk ev)"
  unfolding on_chunk_def by (intro no_growth_bind no_growth_store no_growth_basic) simp

lemma on_event_growth:
  assumes "on_event wr sha ord d policy now ev w = (Inr None, w')"
  shows "backlog (rw_session w') \<le> backlog (rw_session w)" and "ev_Kind ev \<noteq> ''done''"
proof -
  show kind: "ev_Kind ev \<noteq> ''done''"
    using assms by (auto simp: on_event_def bind_act_def [of "on_done _ _ _ _"] ret_def split: sum.splits prod.splits)
  then have "no_growth (on_event wr sha ord d policy now ev)"
    by (auto simp: on_event_def)
  with assms show "backlog (rw_session w') \<le> backlog (rw_session w)" by (rule no_growth_Inr [rotated])
qed

lemma receive_turn_decreases:
  assumes "receive_turn wr gunzip sha ord d policy now w = (Inr None, w')"
  shows "backlog (rw_session w') < backlog (rw_session w)"
proof -
  obtain ev s where e: "ReceiveEvent gunzip now (rw_session w) = (Inr ev, s)"
      and on: "on_event wr sha ord d policy now ev (w\<lparr>rw_session := s, rw_log := rw_log w @ [Got ev]\<rparr>) = (Inr None, w')"
    using assms by (auto simp: receive_turn_def recv_logged_def bind_act_def recv_session_def modify_def ret_def
        split: sum.splits prod.splits)
  from on_event_growth(1) [OF on] ReceiveEvent_backlog [OF e on_event_growth(2) [OF on]] show ?thesis by simp
qed

function receive_loop ::
  "wire \<Rightarrow> gunzip_fun \<Rightarrow> (string \<Rightarrow> string) \<Rightarrow> map_orders \<Rightarrow> string \<Rightarrow> string \<Rightarrow> int \<Rightarrow> ReceivedText list recv_act" where
  "receive_loop wr gunzip sha ord outputDir policy now w =
     (case receive_turn wr gunzip sha ord outputDir policy now w of
        (Inl e, w') \<Rightarrow> (Inl e, w')
      | (Inr (Some texts), w') \<Rightarrow> (Inr texts, w')
      | (Inr None, w') \<Rightarrow> receive_loop wr gunzip sha ord outputDir policy now w')"
  by pat_completeness auto
termination
  by (relation "measure (\<lambda>(wr, gunzip, sha, ord, d, policy, now, w). backlog (rw_session w))") (auto intro: receive_turn_decreases)

declare receive_loop.simps [simp del]

text \<open>The deferred \<open>Close\<close>; its errors are ignored.\<close>

definition close_store :: "map_orders \<Rightarrow> receiveWorld \<Rightarrow> receiveWorld" where
  "close_store ord w =
     (case rw_store w of
        None \<Rightarrow> w
      | Some s \<Rightarrow> (case snd (Close (mo_close ord) (s, rw_fs w)) of (s', f) \<Rightarrow> w\<lparr>rw_store := Some s', rw_fs := f\<rparr>))"

definition Receive ::
  "wire \<Rightarrow> gunzip_fun \<Rightarrow> (string \<Rightarrow> string) \<Rightarrow> map_orders \<Rightarrow> string \<Rightarrow> string \<Rightarrow> int \<Rightarrow> ReceivedText list recv_act" where
  "Receive wr gunzip sha ord outputDir policy now w =
     (case receive_loop wr gunzip sha ord outputDir policy now w of (r, w') \<Rightarrow> (r, close_store ord w'))"

definition receiver_start :: "TransferSession \<Rightarrow> fs \<Rightarrow> receiveWorld" where
  "receiver_start s f = \<lparr>rw_session = s, rw_store = None, rw_fs = f, rw_progress = None, rw_log = []\<rparr>"

end
