(* ===== verification/Receive_Run.thy ===== *)
theory Receive_Run
  imports Receiver
begin

text \<open>
  What a whole run of \<open>Receive\<close> guarantees: the file system outside the output directory is left
  alone, and success means that everything was delivered.
\<close>

lemma receive_loop_triple:
  assumes "triple P (receive_turn wr gunzip sha ord d policy now) (\<lambda>r. case r of None \<Rightarrow> P | Some texts \<Rightarrow> Q texts) E"
  shows "triple P (receive_loop wr gunzip sha ord d policy now) Q E"
  unfolding triple_def
proof (intro allI impI)
  fix w
  assume "P w"
  with assms show "case receive_loop wr gunzip sha ord d policy now w of (Inr a, w') \<Rightarrow> Q a w' | (Inl e, w') \<Rightarrow> E w'"
  proof (induction wr gunzip sha ord d policy now w rule: receive_loop.induct)
    case (1 wr gunzip sha ord d policy now w)
    obtain x w1 where x: "receive_turn wr gunzip sha ord d policy now w = (x, w1)" by fastforce
    show ?case
    proof (cases x)
      case (Inl e)
      with x triple_Inl [OF "1.prems"(1,2)] show ?thesis by (simp add: receive_loop.simps [of wr gunzip sha ord d policy now w])
    next
      case (Inr r)
      with x triple_Inr [OF "1.prems"(1,2)] have r: "case r of None \<Rightarrow> P w1 | Some texts \<Rightarrow> Q texts w1" by (fastforce split: option.splits)
      show ?thesis
      proof (cases r)
        case None
        with r have "P w1" by simp
        with "1.IH" [of x w1 r] None Inr x "1.prems"(1) show ?thesis
          by (simp add: receive_loop.simps [of wr gunzip sha ord d policy now w])
      next
        case (Some texts)
        with r Inr x show ?thesis by (simp add: receive_loop.simps [of wr gunzip sha ord d policy now w])
      qed
    qed
  qed
qed

lemma triple_if: "triple P m Q E \<Longrightarrow> triple P m' Q E \<Longrightarrow> triple P (if b then m else m') Q E"
  by simp

lemma on_event_triple:
  assumes "ev_Kind ev = ''manifest'' \<Longrightarrow> triple P (on_manifest wr sha ord d policy now (ev_Manifest ev)) (\<lambda>_. N) E"
    and "ev_Kind ev = ''chunk'' \<Longrightarrow> triple P (on_chunk ev) (\<lambda>_. N) E"
    and "ev_Kind ev = ''done'' \<Longrightarrow> triple P (on_done wr sha ord now) D E"
    and "\<And>w. P w \<Longrightarrow> ev_Kind ev \<noteq> ''manifest'' \<Longrightarrow> N w" "\<And>w. P w \<Longrightarrow> E w"
  shows "triple P (on_event wr sha ord d policy now ev) (\<lambda>x. case x of None \<Rightarrow> N | Some t \<Rightarrow> D t) E"
proof -
  have m: "ev_Kind ev = ''manifest'' \<Longrightarrow> triple P (bind_act (on_manifest wr sha ord d policy now (ev_Manifest ev)) (\<lambda>_. ret None))
      (\<lambda>x. case x of None \<Rightarrow> N | Some t \<Rightarrow> D t) E"
    by (rule triple_bind [OF assms(1)]) (auto intro: triple_ret)
  have c: "ev_Kind ev = ''chunk'' \<Longrightarrow> triple P (bind_act (on_chunk ev) (\<lambda>_. ret None)) (\<lambda>x. case x of None \<Rightarrow> N | Some t \<Rightarrow> D t) E"
    by (rule triple_bind [OF assms(2)]) (auto intro: triple_ret)
  have d: "ev_Kind ev = ''done'' \<Longrightarrow> triple P (bind_act (on_done wr sha ord now) (\<lambda>t. ret (Some t))) (\<lambda>x. case x of None \<Rightarrow> N | Some t \<Rightarrow> D t) E"
    by (rule triple_bind [OF assms(3)]) (auto intro: triple_ret)
  show ?thesis unfolding on_event_def using m c d
    by (simp add: assms(4,5) triple_ret triple_throw)
qed

section \<open>The session side\<close>

text \<open>The manifest event comes once, and carries the manifest the session keeps.\<close>

lemma dispatch_manifest:
  assumes "dispatch gunzip msg s = (Inr ev, s')"
  shows "(ts_receiveManifest s \<noteq> None \<longrightarrow> ts_receiveManifest s' = ts_receiveManifest s \<and> ev_Kind ev \<noteq> ''manifest'')
    \<and> (ev_Kind ev = ''manifest'' \<longrightarrow> ts_receiveManifest s' \<noteq> None \<and> ev_Manifest ev = ts_receiveManifest s')"
  using assms
  by (auto simp: dispatch_def Let_def accept_manifest_def accept_open_def accept_chunk_def accept_end_def ret_def bound_def
      throw_def bind_act_def gets_def split: if_splits option.splits sum.splits prod.splits)

lemma ReceiveEvent_manifest:
  assumes "ReceiveEvent gunzip now s = (Inr ev, s')"
  shows "(ts_receiveManifest s \<noteq> None \<longrightarrow> ts_receiveManifest s' = ts_receiveManifest s \<and> ev_Kind ev \<noteq> ''manifest'')
    \<and> (ev_Kind ev = ''manifest'' \<longrightarrow> ts_receiveManifest s' \<noteq> None \<and> ev_Manifest ev = ts_receiveManifest s')"
  using assms
proof (induction gunzip now s rule: ReceiveEvent.induct)
  case (1 gunzip now s)
  show ?case
  proof (cases "ts_pendingDone s \<and> receiveReady s")
    case True
    with "1.prems" show ?thesis by (auto simp: ReceiveEvent.simps [of gunzip now s])
  next
    case False
    note body = "1.prems" [unfolded ReceiveEvent.simps [of gunzip now s] if_not_P [OF False]]
    obtain res s1 where step: "receive_step gunzip s = (Inr res, s1)"
      using body by (auto split: sum.splits prod.splits)
    then obtain r s0 where r: "receiveMessage s = (Inr r, s0)" and h: "handle_received gunzip r s0 = (Inr res, s1)"
      by (auto simp: receive_step_def bind_act_def split: sum.splits prod.splits)
    have m0: "ts_receiveManifest s0 = ts_receiveManifest s" using receiveMessage_same [OF r] by (simp add: same_receiver_def)
    show ?thesis
    proof (cases res)
      case None
      then have "ts_receiveManifest s1 = ts_receiveManifest s0"
        using h by (auto simp: handle_received_def Let_def split: if_splits sum.splits prod.splits)
      moreover have "ReceiveEvent gunzip now s1 = (Inr ev, s')" using None step body by simp
      ultimately show ?thesis using "1.IH" [OF False step [symmetric] refl _ ] m0 None by simp
    next
      case (Some ev1)
      then have "dispatch gunzip (rp_message r) s0 = (Inr ev1, s1)"
        using h by (auto simp: handle_received_def Let_def split: if_splits sum.splits prod.splits)
      moreover have "ev1 = ev" "s1 = s'" using Some step body by simp_all
      ultimately show ?thesis using dispatch_manifest m0 by simp
    qed
  qed
qed

lemma send_on_same: "send_on wr k msg s = (r, s') \<Longrightarrow> same_receiver s s'"
  by (auto simp: send_on_def same_receiver_def split: option.splits prod.splits)

lemma WaitResumeAccept_manifest: "WaitResumeAccept items s = (r, s') \<Longrightarrow> ts_receiveManifest s' = ts_receiveManifest s"
  by (auto simp: WaitResumeAccept_def bind_act_def receiveControlMessage_def Let_def throw_def try_get_def modify_def ret_def
      applyReceiveResume_same same_receiver_def split: sum.splits prod.splits if_splits dest!: control_loop_same)

section \<open>Confinement\<close>

definition recv_ok :: "string \<Rightarrow> phys \<Rightarrow> fs \<Rightarrow> fs \<Rightarrow> receiveWorld \<Rightarrow> bool" where
  "recv_ok d r f f1 w \<longleftrightarrow> (case rw_store w of None \<Rightarrow> rw_fs w = f
     | Some s \<Rightarrow> store_ok d r f1 (s, rw_fs w) \<and> ts_receiveManifest (rw_session w) \<noteq> None)"

definition recv_ended :: "string \<Rightarrow> phys \<Rightarrow> fs \<Rightarrow> fs \<Rightarrow> receiveWorld \<Rightarrow> bool" where
  "recv_ended d r f f1 w \<longleftrightarrow> (case rw_store w of None \<Rightarrow> rw_fs w = f \<or> confined r f1 (rw_fs w)
     | Some s \<Rightarrow> late_ok d r f1 (s, rw_fs w))"

lemma recv_ok_ended: "recv_ok d r f f1 w \<Longrightarrow> recv_ended d r f f1 w"
  by (auto simp: recv_ok_def recv_ended_def store_ok_late split: option.splits)

lemma recv_ok_other [simp]:
  "recv_ok d r f f1 (w\<lparr>rw_progress := p\<rparr>) = recv_ok d r f f1 w" "recv_ok d r f f1 (w\<lparr>rw_log := l\<rparr>) = recv_ok d r f f1 w"
  by (simp_all add: recv_ok_def cong: option.case_cong)

lemma recv_ended_session [simp]: "recv_ended d r f f1 (w\<lparr>rw_session := s\<rparr>) = recv_ended d r f f1 w"
  by (simp add: recv_ended_def cong: option.case_cong)

text \<open>Steps that leave the store and the files alone.\<close>

abbreviation keeps_ok :: "string \<Rightarrow> phys \<Rightarrow> fs \<Rightarrow> fs \<Rightarrow> 'a recv_act \<Rightarrow> bool" where
  "keeps_ok d r f f1 m \<equiv> triple (recv_ok d r f f1) m (\<lambda>_. recv_ok d r f f1) (recv_ended d r f f1)"

lemma keeps_ok_basic:
  "keeps_ok d r f f1 (ret a)" "keeps_ok d r f f1 (throw e)" "keeps_ok d r f f1 (gets g)" "keeps_ok d r f f1 (try_get h g')"
  "keeps_ok d r f f1 (new_progress m es)"
  by (auto simp: triple_def ret_def throw_def gets_def try_get_def new_progress_def bind_act_def modify_def recv_ok_ended
      split: sum.splits)

lemma keeps_ok_session:
  assumes "\<And>s x s'. m s = (x, s') \<Longrightarrow> ts_receiveManifest s' = ts_receiveManifest s"
  shows "keeps_ok d r f f1 (recv_session m)"
  unfolding triple_def recv_session_def using assms
  by (fastforce simp: recv_ok_def recv_ended_def store_ok_late split: option.splits sum.splits prod.splits)

lemma keeps_ok_logged: "keeps_ok d r f f1 (recv_session m) \<Longrightarrow> keeps_ok d r f f1 (recv_logged answer m)"
  unfolding recv_logged_def
  by (rule triple_bind [where R = "\<lambda>_. recv_ok d r f f1"], assumption,
      rule triple_bind [where R = "\<lambda>_. recv_ok d r f f1"], rule triple_modify)
    (simp_all add: keeps_ok_basic(1))

lemma keeps_ok_store:
  assumes "triple (store_ok d r f1) op (\<lambda>_. store_ok d r f1) (store_ok d r f1)"
  shows "keeps_ok d r f f1 (recv_store e op)"
  unfolding triple_def
proof (intro allI impI)
  fix w
  assume w: "recv_ok d r f f1 w"
  show "case recv_store e op w of (Inr a, w') \<Rightarrow> recv_ok d r f f1 w' | (Inl e, w') \<Rightarrow> recv_ended d r f f1 w'"
  proof (cases "rw_store w")
    case None
    with recv_ok_ended [OF w] show ?thesis by (simp add: recv_store_def)
  next
    case (Some s)
    obtain x s' g where run: "op (s, rw_fs w) = (x, (s', g))" by (metis prod.exhaust)
    have "store_ok d r f1 (s', g)" using triple_state [OF assms, of "(s, rw_fs w)"] w Some run by (simp add: recv_ok_def)
    with Some run w show ?thesis
      by (cases x) (simp_all add: recv_store_def recv_ok_def recv_ended_def store_ok_late)
  qed
qed

lemma new_store_confined:
  assumes "MkdirAll d f = (Inr (), f1)" "rooted_at d r f1"
  shows "triple (\<lambda>w. recv_ok d r f f1 w \<and> rw_store w = None \<and> ts_receiveManifest (rw_session w) \<noteq> None)
    (new_store sha ord d policy m) (\<lambda>_. recv_ok d r f f1) (recv_ended d r f f1)"
  unfolding triple_def
proof (intro allI impI)
  fix w
  assume w: "recv_ok d r f f1 w \<and> rw_store w = None \<and> ts_receiveManifest (rw_session w) \<noteq> None"
  obtain x g where run: "NewReceiveStoreWithOptions sha (mo_open ord) m d policy (StripesChunks (rw_session w)) f = (x, g)" by fastforce
  show "case new_store sha ord d policy m w of (Inr a, w') \<Rightarrow> recv_ok d r f f1 w' | (Inl e, w') \<Rightarrow> recv_ended d r f f1 w'"
    using w run new_store_ok [OF assms run] by (cases x) (auto simp: new_store_def recv_ok_def recv_ended_def)
qed

lemma on_manifest_confined:
  assumes "MkdirAll d f = (Inr (), f1)" "rooted_at d r f1"
  shows "triple (\<lambda>w. recv_ok d r f f1 w \<and> rw_store w = None \<and> ts_receiveManifest (rw_session w) \<noteq> None)
    (on_manifest wr sha ord d policy now m) (\<lambda>_. recv_ok d r f f1) (recv_ended d r f f1)"
proof -
  have send: "keeps_ok d r f f1 (recv_session (SendResume wr now es))" for es
    by (rule keeps_ok_session) (auto simp: SendResume_def same_receiver_def dest: send_on_same)
  have wait: "keeps_ok d r f f1 (recv_logged Accepted (WaitResumeAccept items))" for items
    by (rule keeps_ok_logged, rule keeps_ok_session) (rule WaitResumeAccept_manifest)
  have rest: "keeps_ok d r f f1 (if b then try_get (\<lambda>e. e) g else ret ())" for b g
    by (cases b) (simp_all only: if_True if_False keeps_ok_basic(1,4))
  show ?thesis unfolding on_manifest_def Let_def
    by (rule triple_bind [OF new_store_confined [OF assms]], rule triple_bind [OF keeps_ok_basic(5)])
      (simp add: keeps_ok_basic triple_bind [OF send] triple_bind [OF wait] triple_bind [OF keeps_ok_basic(3)]
        triple_bind [OF rest] triple_bind [OF keeps_ok_store [OF triple_ApplyResumeAccept]])
qed

lemma on_event_confined:
  assumes "MkdirAll d f = (Inr (), f1)" "rooted_at d r f1"
  shows "triple (\<lambda>w. recv_ok d r f f1 w \<and> (ev_Kind ev = ''manifest'' \<longrightarrow> rw_store w = None \<and> ts_receiveManifest (rw_session w) \<noteq> None))
    (on_event wr sha ord d policy now ev) (\<lambda>x. case x of None \<Rightarrow> recv_ok d r f f1 | Some _ \<Rightarrow> recv_ended d r f f1) (recv_ended d r f f1)"
proof -
  have chunk: "keeps_ok d r f f1 (on_chunk ev)" unfolding on_chunk_def
    by (rule triple_bind [OF keeps_ok_store [OF triple_WriteChunk]], rule triple_modify) simp
  have fin: "triple (recv_ok d r f f1) (recv_store DoneBeforeStore (Finalize sha o')) (\<lambda>_. recv_ended d r f f1) (recv_ended d r f f1)" for o'
    unfolding triple_def
  proof (intro allI impI)
    fix w
    assume w: "recv_ok d r f f1 w"
    show "case recv_store DoneBeforeStore (Finalize sha o') w of (Inr a, w') \<Rightarrow> recv_ended d r f f1 w' | (Inl e, w') \<Rightarrow> recv_ended d r f f1 w'"
    proof (cases "rw_store w")
      case None
      with recv_ok_ended [OF w] show ?thesis by (simp add: recv_store_def)
    next
      case (Some s)
      obtain x s' g where run: "Finalize sha o' (s, rw_fs w) = (x, (s', g))" by (metis prod.exhaust)
      have "late_ok d r f1 (s', g)" using triple_state [OF triple_Finalize, of d r f1 "(s, rw_fs w)" sha o'] w Some run by (simp add: recv_ok_def)
      with Some run show ?thesis by (cases x) (simp_all add: recv_store_def recv_ended_def)
    qed
  qed
  have done': "triple (recv_ok d r f f1) (on_done wr sha ord now) (\<lambda>_. recv_ended d r f f1) (recv_ended d r f f1)"
    unfolding on_done_def
    by (rule triple_bind [OF fin], rule triple_bind [where R = "\<lambda>_. recv_ended d r f f1"])
      (auto simp: triple_def recv_session_def ret_def split: sum.splits prod.splits)
  show ?thesis
    by (rule on_event_triple)
      (auto intro: triple_weaken [OF on_manifest_confined [OF assms]] triple_weaken [OF chunk] triple_weaken [OF done'] recv_ok_ended)
qed

lemma receive_turn_confined:
  assumes "MkdirAll d f = (Inr (), f1)" "rooted_at d r f1"
  shows "triple (recv_ok d r f f1) (receive_turn wr gunzip sha ord d policy now)
    (\<lambda>x. case x of None \<Rightarrow> recv_ok d r f f1 | Some _ \<Rightarrow> recv_ended d r f f1) (recv_ended d r f f1)"
  unfolding receive_turn_def
proof (rule triple_bind [OF _ on_event_confined [OF assms]])
  show "triple (recv_ok d r f f1) (recv_logged Got (ReceiveEvent gunzip now))
     (\<lambda>ev w. recv_ok d r f f1 w \<and> (ev_Kind ev = ''manifest'' \<longrightarrow> rw_store w = None \<and> ts_receiveManifest (rw_session w) \<noteq> None))
     (recv_ended d r f f1)"
    unfolding triple_def
  proof (intro allI impI)
    fix w
    assume w: "recv_ok d r f f1 w"
    obtain x s where run: "ReceiveEvent gunzip now (rw_session w) = (x, s)" by fastforce
    show "case recv_logged Got (ReceiveEvent gunzip now) w of
        (Inr ev, w') \<Rightarrow> recv_ok d r f f1 w' \<and> (ev_Kind ev = ''manifest'' \<longrightarrow> rw_store w' = None \<and> ts_receiveManifest (rw_session w') \<noteq> None)
      | (Inl e, w') \<Rightarrow> recv_ended d r f f1 w'"
      using w run ReceiveEvent_manifest [of gunzip now "rw_session w" _ s]
      by (cases x) (auto simp: recv_logged_def bind_act_def recv_session_def modify_def ret_def recv_ok_def recv_ended_def
          store_ok_late split: option.splits)
  qed
qed

text \<open>
C1: Receiving is confined to the output directory, whatever the peer sends. Let the output directory
exist (made by MkdirAll) at a place whose resolution does not pass through its own content. For
every sequence of messages on the session's connections, well-formed or not, and whether \<open>Receive\<close>
succeeds or fails, the directory entries outside the output directory and the inodes neither new nor
named inside it are what they were.
\<close>

theorem receive_run_confined:
  assumes "MkdirAll d f = (Inr (), f1)" and "rooted_at d r f1"
    and "Receive wr gunzip sha ord d policy now (receiver_start s f) = (res, w)"
  shows "rw_fs w = f \<or> confined r f1 (rw_fs w)"
proof -
  obtain w1 where loop: "receive_loop wr gunzip sha ord d policy now (receiver_start s f) = (res, w1)" and w: "w = close_store ord w1"
    using assms(3) by (auto simp: Receive_def split: prod.splits)
  have start: "recv_ok d r f f1 (receiver_start s f)" by (simp add: recv_ok_def receiver_start_def)
  have t: "triple (recv_ok d r f f1) (receive_loop wr gunzip sha ord d policy now) (\<lambda>_. recv_ended d r f f1) (recv_ended d r f f1)"
    by (rule receive_loop_triple, rule triple_weaken [OF receive_turn_confined [OF assms(1,2)]]) (auto split: option.splits)
  have ended: "recv_ended d r f f1 w1" using triple_state [OF t start] loop by simp
  show ?thesis
  proof (cases "rw_store w1")
    case None
    with ended w show ?thesis by (simp add: close_store_def recv_ended_def)
  next
    case (Some st)
    then have "late_ok d r f1 (snd (Close (mo_close ord) (st, rw_fs w1)))" using ended Close_late by (simp add: recv_ended_def)
    with Some w show ?thesis by (auto simp: close_store_def late_ok_def split: prod.splits)
  qed
qed

text \<open>A file of three bytes in an output directory that holds a link leading outside.\<close>

theorem receive_run_confined_witness:
  "\<exists>res w. Receive (demo_wire zero_message) (\<lambda>_. None) (\<lambda>h. h) \<lparr>mo_open = [], mo_accept = [], mo_finalize = [], mo_close = []\<rparr> ''out'' '''' 0
       (receiver_start (newTransferSessionWithPipes [demo_pipe 0, demo_pipe 1] demo_arrivals) demo_fs) = (res, w)
     \<and> (rw_fs w = demo_fs \<or> confined [''out''] demo_fs (rw_fs w))"
proof -
  obtain res w where run: "Receive (demo_wire zero_message) (\<lambda>_. None) (\<lambda>h. h) \<lparr>mo_open = [], mo_accept = [], mo_finalize = [], mo_close = []\<rparr> ''out'' '''' 0
       (receiver_start (newTransferSessionWithPipes [demo_pipe 0, demo_pipe 1] demo_arrivals) demo_fs) = (res, w)" by fastforce
  from receive_run_confined [OF demo_root run] run show ?thesis by blast
qed

section \<open>Success\<close>

definition recv_logged_ok :: "receiveWorld \<Rightarrow> bool" where
  "recv_logged_ok w \<longleftrightarrow> sess_inv (rw_log w) (rw_session w)"

abbreviation keeps_log :: "'a recv_act \<Rightarrow> bool" where
  "keeps_log m \<equiv> triple recv_logged_ok m (\<lambda>_. recv_logged_ok) (\<lambda>_. True)"

lemma keeps_log_basic:
  "keeps_log (ret a)" "keeps_log (throw e)" "keeps_log (gets g)" "keeps_log (try_get h g')" "keeps_log (new_progress m es)"
  "keeps_log (recv_store e' op)" "keeps_log (new_store sha ord d policy m')"
  by (auto simp: triple_def ret_def throw_def gets_def try_get_def new_progress_def bind_act_def modify_def recv_store_def
      new_store_def recv_logged_ok_def split: sum.splits option.splits prod.splits)

lemma keeps_log_send: "keeps_log (recv_session (send_on wr k msg))"
  by (auto simp: triple_def recv_session_def recv_logged_ok_def sess_inv_same [OF send_on_same] split: sum.splits prod.splits)

lemma wait_log:
  "triple (\<lambda>w. recv_logged_ok w \<and> items = manifest_items (rw_session w)) (recv_logged Accepted (WaitResumeAccept items))
     (\<lambda>_. recv_logged_ok) (\<lambda>_. True)"
  by (auto simp: triple_def recv_logged_def recv_session_def bind_act_def modify_def ret_def recv_logged_ok_def WaitResumeAccept_inv
      split: sum.splits prod.splits)

lemma on_manifest_log:
  "triple (\<lambda>w. recv_logged_ok w \<and> m = ts_receiveManifest (rw_session w)) (on_manifest wr sha ord d policy now m)
     (\<lambda>_. recv_logged_ok) (\<lambda>_. True)"
proof -
  let ?P = "\<lambda>w. recv_logged_ok w \<and> m = ts_receiveManifest (rw_session w)" and ?items = "case m of None \<Rightarrow> [] | Some m \<Rightarrow> mf_items m"
  have keep: "triple ?P (new_store sha ord d policy m) (\<lambda>_. ?P) (\<lambda>_. True)" "triple ?P (new_progress m es) (\<lambda>_. ?P) (\<lambda>_. True)" for es
    by (auto simp: triple_def new_store_def new_progress_def bind_act_def try_get_def modify_def recv_logged_ok_def
        split: sum.splits prod.splits)
  have send: "triple ?P (recv_session (SendResume wr now es)) (\<lambda>_ w. recv_logged_ok w \<and> ?items = manifest_items (rw_session w)) (\<lambda>_. True)" for es
    by (auto simp: triple_def recv_session_def SendResume_def recv_logged_ok_def sess_inv_same [OF send_on_same] manifest_items_def
        same_receiver_def split: sum.splits prod.splits dest: send_on_same)
  have rest: "keeps_log (if b then try_get (\<lambda>e. e) g else ret ())" for b g
    by (cases b) (simp_all only: if_True if_False keeps_log_basic)
  have tail: "triple ?P (bind_act (recv_session (SendResume wr now es)) (\<lambda>_.
           bind_act (recv_logged Accepted (WaitResumeAccept ?items)) (\<lambda>accepted.
           bind_act (gets (\<lambda>w. DeferredFileSHA256 (rw_session w))) (\<lambda>deferred.
           bind_act (if deferred then try_get (\<lambda>e. e) (\<lambda>_. deferred_ok ?items accepted) else ret ()) (\<lambda>_.
           bind_act (recv_store ChunkBeforeStore (ApplyResumeAccept (mo_accept ord) accepted)) (\<lambda>_.
             new_progress m accepted)))))) (\<lambda>_. recv_logged_ok) (\<lambda>_. True)" for es
    by (rule triple_bind [OF send], rule triple_bind [OF wait_log], rule triple_bind [OF keeps_log_basic(3)],
        rule triple_bind [OF rest], rule triple_bind [OF keeps_log_basic(6)], rule keeps_log_basic(5))
  show ?thesis unfolding on_manifest_def Let_def
    by (rule triple_bind [OF keep(1)], rule triple_bind [OF keep(2)], rule triple_if, rule triple_ret, simp, rule tail)
qed

lemma on_event_log:
  "triple (\<lambda>w. recv_logged_ok w \<and> (ev_Kind ev = ''manifest'' \<longrightarrow> ev_Manifest ev = ts_receiveManifest (rw_session w))
        \<and> (ev_Kind ev = ''done'' \<longrightarrow> receiveReady (rw_session w)))
     (on_event wr sha ord d policy now ev)
     (\<lambda>x. case x of None \<Rightarrow> recv_logged_ok | Some _ \<Rightarrow> \<lambda>w. recv_logged_ok w \<and> receiveReady (rw_session w)) (\<lambda>_. True)"
proof -
  have chunk: "keeps_log (on_chunk ev)" unfolding on_chunk_def
    by (rule triple_bind [OF keeps_log_basic(6)], rule triple_modify) (simp add: recv_logged_ok_def)
  have done': "triple (\<lambda>w. recv_logged_ok w \<and> receiveReady (rw_session w)) (on_done wr sha ord now)
      (\<lambda>_ w. recv_logged_ok w \<and> receiveReady (rw_session w)) (\<lambda>_. True)"
    by (auto simp: triple_def on_done_def bind_act_def recv_store_def recv_session_def SendComplete_def ret_def recv_logged_ok_def
        sess_inv_same [OF send_on_same] receiveReady_same [OF send_on_same] split: sum.splits prod.splits option.splits)
  show ?thesis
    by (rule on_event_triple) (auto intro: triple_weaken [OF on_manifest_log] triple_weaken [OF chunk] triple_weaken [OF done'])
qed

lemma receive_turn_log:
  "triple recv_logged_ok (receive_turn wr gunzip sha ord d policy now)
     (\<lambda>x. case x of None \<Rightarrow> recv_logged_ok | Some _ \<Rightarrow> \<lambda>w. recv_logged_ok w \<and> receiveReady (rw_session w)) (\<lambda>_. True)"
  unfolding receive_turn_def
  by (rule triple_bind [OF _ on_event_log])
    (auto simp: triple_def recv_logged_def recv_session_def bind_act_def modify_def ret_def recv_logged_ok_def
      split: sum.splits prod.splits dest: ReceiveEvent_inv ReceiveEvent_manifest)


text \<open>A text over two connections, its stream opened ahead of the manifest and \<open>done\<close> ahead of the text.\<close>

definition demo_text_arrivals :: "receivedPipeMessage list" where
  "demo_text_arrivals =
     [demo_arrival 1 (zero_message\<lparr>msg_type := ''stream_open'', msg_stream := Some 0\<rparr>),
      demo_arrival 0 (zero_message\<lparr>msg_type := ''manifest'',
        msg_manifest := Some (NewManifest [(tree_item ItemText ''m'' 3 '''')\<lparr>item_chunk_size := 1\<rparr>])\<rparr>),
      demo_arrival 0 (zero_message\<lparr>msg_type := ''done''\<rparr>),
      demo_arrival 1 (zero_message\<lparr>msg_type := ''chunk'', msg_stream := Some 0, msg_data := ''YWJj''\<rparr>),
      demo_arrival 1 (zero_message\<lparr>msg_type := ''stream_end'', msg_stream := Some 0\<rparr>)]"

definition demo_receive :: "(recv_error, ReceivedText list) result \<times> receiveWorld" where
  "demo_receive = Receive (demo_wire zero_message) (\<lambda>_. None) (\<lambda>h. h)
     \<lparr>mo_open = [], mo_accept = [], mo_finalize = [], mo_close = []\<rparr> ''out'' '''' 0
     (receiver_start (newTransferSessionWithPipes [demo_pipe 0, demo_pipe 1] demo_text_arrivals) demo_fs)"

lemma demo_receive_text: "(case fst demo_receive of Inl _ \<Rightarrow> False | Inr texts \<Rightarrow> map rtx_Text texts = [''abc''])"
  by code_simp


end
