(* ===== verification/Go_Net.thy ===== *)
theory Go_Net
  imports Base64
begin

text \<open>
  Standard library functions of the service and the relay, \<open>net.SplitHostPort\<close> and the order of
  strings, and triples of actions whose postcondition for failures sees the error.
\<close>

definition index_of :: "char \<Rightarrow> string \<Rightarrow> nat option" where
  "index_of c s = (if c \<in> set s then Some (length (takeWhile (\<lambda>x. x \<noteq> c) s)) else None)"

definition last_index_of :: "char \<Rightarrow> string \<Rightarrow> nat option" where
  "last_index_of c s = (if c \<in> set s then Some (length s - 1 - length (takeWhile (\<lambda>x. x \<noteq> c) (rev s))) else None)"

text \<open>Host and port; every error is \<open>None\<close>, the callers do not tell them apart.\<close>

definition SplitHostPort :: "string \<Rightarrow> (string \<times> string) option" where
  "SplitHostPort hostport =
     (case last_index_of CHR '':'' hostport of
        None \<Rightarrow> None
      | Some i \<Rightarrow>
          let port = drop (Suc i) hostport in
          if hd hostport = CHR ''['' then
            (case index_of CHR '']'' hostport of
               None \<Rightarrow> None
             | Some e \<Rightarrow>
                 if Suc e \<noteq> i \<or> CHR ''['' \<in> set (drop 1 hostport) \<or> CHR '']'' \<in> set (drop (Suc e) hostport) then None
                 else Some (take (e - 1) (drop 1 hostport), port))
          else
            let host = take i hostport in
            if CHR '':'' \<in> set host \<or> CHR ''['' \<in> set hostport \<or> CHR '']'' \<in> set hostport then None
            else Some (host, port))"

lemma split_host_port_examples:
  "SplitHostPort ''example.org:9000'' = Some (''example.org'', ''9000'')" "SplitHostPort ''[::1]:80'' = Some (''::1'', ''80'')"
  "SplitHostPort ''::1'' = None" "SplitHostPort ''host'' = None" "SplitHostPort '''' = None"
  by code_simp+

text \<open>\<open>base64.RawURLEncoding\<close>: the alphabet for URLs, without padding.\<close>

definition RawURLEncode :: "string \<Rightarrow> string" where
  "RawURLEncode s = map (\<lambda>c. if c = CHR ''+'' then CHR ''-'' else if c = CHR ''/'' then CHR ''_'' else c)
     (filter (\<lambda>c. c \<noteq> CHR ''='') (EncodeToString s))"

lemma raw_url_examples: "RawURLEncode [char_of (251::nat), char_of (255::nat)] = ''-_8''" "RawURLEncode ''a'' = ''YQ''"
  by code_simp+

text \<open>Go compares strings byte by byte.\<close>

fun string_less :: "string \<Rightarrow> string \<Rightarrow> bool" where
  "string_less s [] = False"
| "string_less [] (y # ys) = True"
| "string_less (x # xs) (y # ys) = (byte_val x < byte_val y \<or> (x = y \<and> string_less xs ys))"

lemma string_less_irrefl [simp]: "\<not> string_less s s"
  by (induction s) auto

lemma string_less_trans: "string_less s t \<Longrightarrow> string_less t u \<Longrightarrow> string_less s u"
proof (induction s t arbitrary: u rule: string_less.induct)
  case (2 y ys)
  then show ?case by (cases u) auto
next
  case (3 x xs y ys)
  then show ?case by (cases u) auto
qed simp

lemma string_less_total: "string_less s t \<or> s = t \<or> string_less t s"
proof (induction s t rule: string_less.induct)
  case (1 s)
  then show ?case by (cases s) auto
next
  case (3 x xs y ys)
  moreover have "byte_val x = byte_val y \<longleftrightarrow> x = y"
    by simp
  ultimately show ?case
    by auto
qed simp

lemma string_less_asym: "string_less s t \<Longrightarrow> \<not> string_less t s"
  using string_less_irrefl string_less_trans by blast

section \<open>Running actions\<close>

lemma bind_run: "m w = (Inr a, w1) \<Longrightarrow> k a w1 = R \<Longrightarrow> bind_act m k w = R"
  by (simp add: bind_act_def)

lemma gets_run: "gets g w = (Inr (g w), w)"
  by (simp add: gets_def)

lemma modify_run: "modify h w = (Inr (), h w)"
  by (simp add: modify_def)

lemma guard_run: "ok \<Longrightarrow> guard_act ok e w = (Inr (), w)"
  by (simp add: guard_act_def ret_def)

lemma try_put_run: "g w = Inr w' \<Longrightarrow> try_put wrap g w = (Inr (), w')"
  by (simp add: try_put_def)

section \<open>Outcomes of actions\<close>

text \<open>
  What an action does from every state with \<open>P\<close>: when it returns a value, \<open>Q\<close> holds of the value
  and the state; when it fails, \<open>E\<close> holds of the error and the state.
\<close>

definition outcome :: "('w \<Rightarrow> bool) \<Rightarrow> ('w, 'e, 'a) act \<Rightarrow> ('a \<Rightarrow> 'w \<Rightarrow> bool) \<Rightarrow> ('e \<Rightarrow> 'w \<Rightarrow> bool) \<Rightarrow> bool" where
  "outcome P m Q E \<longleftrightarrow> (\<forall>w. P w \<longrightarrow> (case m w of (Inr a, w') \<Rightarrow> Q a w' | (Inl e, w') \<Rightarrow> E e w'))"

lemma outcome_bind:
  "outcome P m R E \<Longrightarrow> (\<And>a. outcome (R a) (k a) Q E) \<Longrightarrow> outcome P (bind_act m k) Q E"
  by (fastforce simp: outcome_def bind_act_def split: sum.splits prod.splits)

lemma outcome_ret: "(\<And>w. P w \<Longrightarrow> Q a w) \<Longrightarrow> outcome P (ret a) Q E"
  by (simp add: outcome_def ret_def)

lemma outcome_throw: "(\<And>w. P w \<Longrightarrow> E e w) \<Longrightarrow> outcome P (throw e) Q E"
  by (simp add: outcome_def throw_def)

lemma outcome_gets: "(\<And>w. P w \<Longrightarrow> Q (g w) w) \<Longrightarrow> outcome P (gets g) Q E"
  by (simp add: outcome_def gets_def)

lemma outcome_modify: "(\<And>w. P w \<Longrightarrow> Q () (h w)) \<Longrightarrow> outcome P (modify h) Q E"
  by (simp add: outcome_def modify_def)

lemma outcome_guard:
  "(\<And>w. P w \<Longrightarrow> ok \<Longrightarrow> Q () w) \<Longrightarrow> (\<And>w. P w \<Longrightarrow> \<not> ok \<Longrightarrow> E e w) \<Longrightarrow> outcome P (guard_act ok e) Q E"
  by (simp add: outcome_def guard_act_def ret_def throw_def)

lemma outcome_try_get:
  "(\<And>w a. P w \<Longrightarrow> g w = Inr a \<Longrightarrow> Q a w) \<Longrightarrow> (\<And>w e. P w \<Longrightarrow> g w = Inl e \<Longrightarrow> E (wrap e) w)
    \<Longrightarrow> outcome P (try_get wrap g) Q E"
  by (auto simp: outcome_def try_get_def split: sum.splits)

lemma outcome_try_put:
  "(\<And>w w'. P w \<Longrightarrow> g w = Inr w' \<Longrightarrow> Q () w') \<Longrightarrow> (\<And>w e. P w \<Longrightarrow> g w = Inl e \<Longrightarrow> E (wrap e) w)
    \<Longrightarrow> outcome P (try_put wrap g) Q E"
  by (auto simp: outcome_def try_put_def split: sum.splits)

lemma outcome_if:
  "(b \<Longrightarrow> outcome P m Q E) \<Longrightarrow> (\<not> b \<Longrightarrow> outcome P m' Q E) \<Longrightarrow> outcome P (if b then m else m') Q E"
  by simp

lemma outcome_fact: "(c \<Longrightarrow> outcome P m Q E) \<Longrightarrow> outcome (\<lambda>w. P w \<and> c) m Q E"
  by (auto simp: outcome_def)

lemma outcome_pre: "(\<And>w. P w \<Longrightarrow> outcome ((=) w) m Q E) \<Longrightarrow> outcome P m Q E"
  by (auto simp: outcome_def)

lemma outcome_at: "outcome P m Q E \<Longrightarrow> P w \<Longrightarrow> outcome ((=) w) m Q E"
  by (simp add: outcome_def)

lemma outcome_strengthen: "outcome P m Q E \<Longrightarrow> (\<And>w. P' w \<Longrightarrow> P w) \<Longrightarrow> outcome P' m Q E"
  by (auto simp: outcome_def)

lemma outcome_weaken:
  "outcome P m Q E \<Longrightarrow> (\<And>w. P' w \<Longrightarrow> P w) \<Longrightarrow> (\<And>a w. Q a w \<Longrightarrow> Q' a w) \<Longrightarrow> (\<And>e w. E e w \<Longrightarrow> E' e w)
    \<Longrightarrow> outcome P' m Q' E'"
  by (fastforce simp: outcome_def split: sum.splits prod.splits)

lemma outcome_Inr: "outcome P m Q E \<Longrightarrow> P w \<Longrightarrow> m w = (Inr a, w') \<Longrightarrow> Q a w'"
  by (auto simp: outcome_def)

lemma outcome_Inl: "outcome P m Q E \<Longrightarrow> P w \<Longrightarrow> m w = (Inl e, w') \<Longrightarrow> E e w'"
  by (auto simp: outcome_def)

end
