(* ===== verification/Routing.thy ===== *)
theory Routing
  imports Go_Net
begin

text \<open>
  The choice of a route from the capabilities of the two peers (internal/routing/negotiate.go).
  \<open>strings.EqualFold\<close> compares in lower case, which is exact on ASCII.
\<close>

section \<open>Capabilities and responses\<close>

definition NegotiationVersion :: int where
  "NegotiationVersion = 1"

record Capability =
  ca_Type :: string
  ca_Version :: int
  ca_Client :: string
  ca_Protocol :: string
  ca_NativeRelay :: string
  ca_NativeLocal :: bool
  ca_NativeDirect :: bool
  ca_Features :: "string list"

record Response =
  rs_Type :: string
  rs_Version :: int
  rs_Route :: string
  rs_Pair :: string
  rs_Relay :: string
  rs_RelayCredential :: string
  rs_Direct :: bool
  rs_Local :: bool
  rs_Reason :: string
  rs_Features :: "string list"

datatype routing_error =
    UnsupportedNegotiation
  | InvalidNegotiationClient
  | InvalidRoomProtocol string
  | NonNativeRoute
  | BadNativeRelay string

definition ValidateNativeRelay :: "string \<Rightarrow> (routing_error, unit) result" where
  "ValidateNativeRelay v =
     (case SplitHostPort (TrimSpace v) of
        None \<Rightarrow> Inl (BadNativeRelay (TrimSpace v))
      | Some (host, port) \<Rightarrow>
          if TrimSpace host = '''' \<or> TrimSpace port = '''' then Inl (BadNativeRelay (TrimSpace v)) else Inr ())"

definition NormalizeProtocol :: "string \<Rightarrow> (routing_error, string) result" where
  "NormalizeProtocol v =
     (let v = ToLower (TrimSpace v) in
      if v = '''' \<or> v = ''transfer'' then Inr ''transfer''
      else if v = ''note'' then Inr ''note''
      else Inl (InvalidRoomProtocol v))"

definition ValidateCapability :: "Capability \<Rightarrow> (routing_error, unit) result" where
  "ValidateCapability c =
     (if ca_Type c \<noteq> ''negotiate'' \<or> ca_Version c \<noteq> NegotiationVersion then Inl UnsupportedNegotiation
      else if ca_Client c \<noteq> ''native'' \<and> ca_Client c \<noteq> ''web'' \<and> ca_Client c \<noteq> ''webrtc'' then Inl InvalidNegotiationClient
      else case NormalizeProtocol (ca_Protocol c) of
        Inl e \<Rightarrow> Inl e
      | Inr _ \<Rightarrow>
          if ca_Client c \<noteq> ''native'' \<and> (ca_NativeRelay c \<noteq> '''' \<or> ca_NativeLocal c \<or> ca_NativeDirect c) then Inl NonNativeRoute
          else if ca_NativeRelay c \<noteq> '''' then ValidateNativeRelay (ca_NativeRelay c)
          else Inr ())"

section \<open>The choice\<close>

definition routing_contains :: "string list \<Rightarrow> string \<Rightarrow> bool" where
  "routing_contains features target \<longleftrightarrow> (\<exists>feature\<in>set features. feature = target)"

definition CommonFeatures :: "string list \<Rightarrow> string list \<Rightarrow> string list" where
  "CommonFeatures left right =
     filter (\<lambda>supported. routing_contains left supported \<and> routing_contains right supported)
       [''parallel-data-v1'', ''unordered-data-v1'']"

definition Pair :: "string \<Rightarrow> string \<Rightarrow> string" where
  "Pair left0 right0 =
     (let l = ToLower (TrimSpace left0); r = ToLower (TrimSpace right0);
          (l, r) = (if string_less r l then (r, l) else (l, r))
      in if l = '''' \<or> r = '''' then '''' else l @ ''-'' @ r)"

definition relaysMatch :: "string \<Rightarrow> string \<Rightarrow> bool" where
  "relaysMatch left right \<longleftrightarrow> TrimSpace left \<noteq> '''' \<and> ToLower (TrimSpace left) = ToLower (TrimSpace right)"

definition Choose :: "Capability \<Rightarrow> Capability \<Rightarrow> string \<Rightarrow> Response" where
  "Choose sender receiver serverRelay =
     (let response = \<lparr>rs_Type = ''negotiated'', rs_Version = NegotiationVersion, rs_Route = ''webrtc'',
            rs_Pair = Pair (ca_Client sender) (ca_Client receiver), rs_Relay = '''', rs_RelayCredential = '''',
            rs_Direct = False, rs_Local = False, rs_Reason = ''browser-or-webrtc-peer'',
            rs_Features = CommonFeatures (ca_Features sender) (ca_Features receiver)\<rparr>
      in
      if ca_Client sender \<noteq> ''native'' \<or> ca_Client receiver \<noteq> ''native'' then response
      else if ca_NativeLocal sender \<or> ca_NativeLocal receiver then
        (if ca_NativeLocal sender \<and> ca_NativeLocal receiver
         then response\<lparr>rs_Route := ''native'', rs_Local := True, rs_Reason := ''common-lan-discovery''\<rparr>
         else response\<lparr>rs_Reason := ''no-common-native-route''\<rparr>)
      else if relaysMatch (ca_NativeRelay sender) (ca_NativeRelay receiver) then
        response\<lparr>rs_Route := ''native'', rs_Relay := TrimSpace (ca_NativeRelay sender),
          rs_Direct := ca_NativeDirect sender \<and> ca_NativeDirect receiver, rs_Reason := ''common-native-relay''\<rparr>
      else if TrimSpace serverRelay \<noteq> '''' then
        response\<lparr>rs_Route := ''native'', rs_Relay := TrimSpace serverRelay,
          rs_Direct := ca_NativeDirect sender \<and> ca_NativeDirect receiver, rs_Reason := ''service-native-relay''\<rparr>
      else if ca_NativeDirect sender \<and> ca_NativeDirect receiver then
        response\<lparr>rs_Route := ''native'', rs_Direct := True, rs_Reason := ''signaling-direct''\<rparr>
      else response\<lparr>rs_Reason := ''no-common-native-relay''\<rparr>)"

section \<open>Properties\<close>

lemma NormalizeProtocol_cases: "NormalizeProtocol v = Inr p \<Longrightarrow> p = ''transfer'' \<or> p = ''note''"
  by (auto simp: NormalizeProtocol_def Let_def split: if_splits)

lemma Pair_sym: "Pair a b = Pair b a"
  using string_less_total [of "ToLower (TrimSpace a)" "ToLower (TrimSpace b)"]
    string_less_asym [of "ToLower (TrimSpace a)" "ToLower (TrimSpace b)"]
  by (auto simp: Pair_def Let_def)

lemma CommonFeatures_sym: "CommonFeatures a b = CommonFeatures b a"
  by (auto simp: CommonFeatures_def conj_commute)

lemma relaysMatch_sym: "relaysMatch a b = relaysMatch b a"
  by (auto simp: relaysMatch_def)

text \<open>
C22: The route does not depend on who is asked, and no peer is sent on a route it did not offer. With
the roles exchanged the choice differs at most in the letter case of the relay address; a native
route is chosen only for two native clients, a local one only if both offered it, a direct one only
if both offered it; the relay is the one both named or the service's own; and a feature is announced
only if both have it.
\<close>

theorem choice_is_common:
  "Choose b a relay = (Choose a b relay)\<lparr>rs_Relay := rs_Relay (Choose b a relay)\<rparr>
   \<and> ToLower (rs_Relay (Choose b a relay)) = ToLower (rs_Relay (Choose a b relay))
   \<and> (rs_Route (Choose a b relay) = ''native'' \<longrightarrow> ca_Client a = ''native'' \<and> ca_Client b = ''native'')
   \<and> (rs_Local (Choose a b relay) \<longrightarrow> ca_NativeLocal a \<and> ca_NativeLocal b)
   \<and> (rs_Direct (Choose a b relay) \<longrightarrow> ca_NativeDirect a \<and> ca_NativeDirect b)
   \<and> (rs_Relay (Choose a b relay) \<noteq> '''' \<longrightarrow>
        relaysMatch (ca_NativeRelay a) (ca_NativeRelay b) \<and> rs_Relay (Choose a b relay) = TrimSpace (ca_NativeRelay a)
        \<or> rs_Relay (Choose a b relay) = TrimSpace relay)
   \<and> set (rs_Features (Choose a b relay)) \<subseteq> set (ca_Features a) \<inter> set (ca_Features b)"
proof -
  have f: "set (CommonFeatures x y) \<subseteq> set x \<inter> set y" for x y
    by (auto simp: CommonFeatures_def routing_contains_def)
  have low: "relaysMatch x y \<Longrightarrow> ToLower (TrimSpace y) = ToLower (TrimSpace x)" for x y by (simp add: relaysMatch_def)
  show ?thesis
    using f [of "ca_Features a" "ca_Features b"] low [of "ca_NativeRelay a" "ca_NativeRelay b"]
    by (simp add: Choose_def Let_def Pair_sym [of "ca_Client b" "ca_Client a"]
        CommonFeatures_sym [of "ca_Features b" "ca_Features a"]
        relaysMatch_sym [of "ca_NativeRelay b" "ca_NativeRelay a"] conj_commute disj_commute)
qed

definition native_peer :: "string \<Rightarrow> Capability" where
  "native_peer relay =
     \<lparr>ca_Type = ''negotiate'', ca_Version = 1, ca_Client = ''native'', ca_Protocol = '''', ca_NativeRelay = relay,
      ca_NativeLocal = False, ca_NativeDirect = True, ca_Features = []\<rparr>"

lemma native_peers_route: "rs_Direct (Choose (native_peer ''Relay:1'') (native_peer ''relay:1'') '''')"
  by code_simp

theorem choice_is_common_witness:
  "ca_NativeDirect (native_peer ''Relay:1'') \<and> ca_NativeDirect (native_peer ''relay:1'')
   \<and> ToLower (rs_Relay (Choose (native_peer ''relay:1'') (native_peer ''Relay:1'') ''''))
     = ToLower (rs_Relay (Choose (native_peer ''Relay:1'') (native_peer ''relay:1'') ''''))"
  using choice_is_common [of "native_peer ''relay:1''" "native_peer ''Relay:1''" "''''"] native_peers_route by blast

end
