(* ===== verification/Signal_Rooms.thy ===== *)
theory Signal_Rooms
  imports Routing "HOL-Library.AList"
begin

text \<open>
  The signaling rooms of the service (internal/service/service.go): two peers that know the same
  token meet in a room and exchange messages through bounded queues. Rooms and clients are objects
  the code shares by pointer, so the state is a heap of each, by address. A queue is the buffered
  channel of a client: \<open>push\<close> is a plain send, which blocks when the buffer is full, and \<open>offer\<close> the
  send of a \<open>select\<close> with a default; both panic on a closed channel. A plain send that blocks does so
  with the server's mutex held; it is the error \<open>BlockedSend\<close>, and a panic is \<open>SendOnClosed\<close>. The
  iteration order of a map is the order of insertion here; no loop over clients depends on it.
  A forwarded message carries the address of the client that sent it, which the code does not keep.
\<close>

section \<open>Rooms and clients\<close>

definition maxPendingSignals :: nat where
  "maxPendingSignals = 64"

definition signalSendQueueCapacity :: nat where
  "signalSendQueueCapacity = maxPendingSignals + 16"

definition defaultRoomTTL :: int where
  "defaultRoomTTL = 10 * 60 * 1000000000"

datatype signal =
    SignalReady string bool string "64 word"
  | Payload nat string
  | RoomExpired

record client =
  cl_room :: nat
  cl_send :: "signal list"
  cl_role :: string
  cl_explicitRole :: bool
  cl_generation :: "64 word"
  cl_closed :: bool

record room =
  rm_token :: string
  rm_protocol :: string
  rm_created :: int
  rm_expires :: int
  rm_locked :: bool
  rm_clients :: "nat list"
  rm_slots :: "string \<Rightarrow> nat option"
  rm_reconnectTokens :: "string \<Rightarrow> string"
  rm_reconnectEnabled :: bool
  rm_generation :: "64 word"
  rm_needsNewGeneration :: bool
  rm_pending :: "(nat \<times> string) list"

record rooms_state =
  sv_rooms :: "(string \<times> nat) list"
  sv_room :: "nat \<Rightarrow> room"
  sv_client :: "nat \<Rightarrow> client"
  sv_next_room :: nat
  sv_next_client :: nat

datatype signal_error =
    InvalidSignalRole
  | SignalProtocol routing_error
  | RoomProtocolMismatch string string
  | AlreadyConnected string
  | InvalidReconnectToken
  | TokenGeneration
  | RoomLocked
  | RoomFull
  | BlockedSend
  | SendOnClosed

type_synonym 'a room_act = "(rooms_state, signal_error, 'a) act"

definition upd_client :: "nat \<Rightarrow> (client \<Rightarrow> client) \<Rightarrow> rooms_state \<Rightarrow> rooms_state" where
  "upd_client c f s = s\<lparr>sv_client := (sv_client s)(c := f (sv_client s c))\<rparr>"

definition upd_room :: "nat \<Rightarrow> (room \<Rightarrow> room) \<Rightarrow> rooms_state \<Rightarrow> rooms_state" where
  "upd_room r f s = s\<lparr>sv_room := (sv_room s)(r := f (sv_room s r))\<rparr>"

section \<open>Queues\<close>

definition push :: "nat \<Rightarrow> signal \<Rightarrow> rooms_state \<Rightarrow> (signal_error, rooms_state) result" where
  "push c m s =
     (if cl_closed (sv_client s c) then Inl SendOnClosed
      else if signalSendQueueCapacity \<le> length (cl_send (sv_client s c)) then Inl BlockedSend
      else Inr (upd_client c (\<lambda>k. k\<lparr>cl_send := cl_send k @ [m]\<rparr>) s))"

definition offer :: "nat \<Rightarrow> signal \<Rightarrow> rooms_state \<Rightarrow> (signal_error, rooms_state) result" where
  "offer c m s =
     (if cl_closed (sv_client s c) then Inl SendOnClosed
      else if signalSendQueueCapacity \<le> length (cl_send (sv_client s c)) then Inr s
      else Inr (upd_client c (\<lambda>k. k\<lparr>cl_send := cl_send k @ [m]\<rparr>) s))"

definition closeClient :: "nat \<Rightarrow> rooms_state \<Rightarrow> rooms_state" where
  "closeClient c = upd_client c (\<lambda>k. k\<lparr>cl_closed := True\<rparr>)"

text \<open>One turn of the client's write loop: the oldest message leaves the queue.\<close>

definition writeLoop :: "nat \<Rightarrow> unit room_act" where
  "writeLoop c = modify (upd_client c (\<lambda>k. k\<lparr>cl_send := drop 1 (cl_send k)\<rparr>))"

section \<open>Tokens and roles\<close>

definition isSignalRole :: "string \<Rightarrow> bool" where
  "isSignalRole role \<longleftrightarrow> role = ''sender'' \<or> role = ''receiver''"

definition oppositeSignalRole :: "string \<Rightarrow> string" where
  "oppositeSignalRole role = (if role = ''sender'' then ''receiver'' else ''sender'')"

definition isRoomToken :: "string \<Rightarrow> bool" where
  "isRoomToken token \<longleftrightarrow> length token = 64 \<and> list_all is_hex_digit token"

text \<open>The 32 bytes of the random source are an argument; \<open>None\<close> when it fails.\<close>

definition generateReconnectToken :: "string option \<Rightarrow> (signal_error, string) result" where
  "generateReconnectToken rnd = (case rnd of None \<Rightarrow> Inl TokenGeneration | Some bytes \<Rightarrow> Inr (RawURLEncode bytes))"

definition equalReconnectToken :: "string \<Rightarrow> string \<Rightarrow> bool" where
  "equalReconnectToken left right \<longleftrightarrow> length left = length right \<and> list_all2 (=) left right"

definition signalReadyPayload :: "string \<Rightarrow> bool \<Rightarrow> string \<Rightarrow> 64 word \<Rightarrow> signal" where
  "signalReadyPayload role supported token generation =
     SignalReady role supported (if supported then token else '''') generation"

definition roomSupportsReconnect :: "room \<Rightarrow> bool" where
  "roomSupportsReconnect r \<longleftrightarrow> rm_locked r \<and> rm_reconnectEnabled r
     \<and> rm_reconnectTokens r ''sender'' \<noteq> '''' \<and> rm_reconnectTokens r ''receiver'' \<noteq> ''''"

definition roomHasTwoExplicitRoles :: "rooms_state \<Rightarrow> room \<Rightarrow> bool" where
  "roomHasTwoExplicitRoles s r \<longleftrightarrow>
     (case (rm_slots r ''sender'', rm_slots r ''receiver'') of
        (Some sender, Some receiver) \<Rightarrow> cl_explicitRole (sv_client s sender) \<and> cl_explicitRole (sv_client s receiver)
      | _ \<Rightarrow> False)"

section \<open>Operations\<close>

definition expireRoomLocked :: "string \<Rightarrow> nat \<Rightarrow> rooms_state \<Rightarrow> (signal_error, rooms_state) result" where
  "expireRoomLocked token r s =
     rbind (foldM (\<lambda>c s. rbind (offer c RoomExpired s) (\<lambda>s. Inr (closeClient c s))) (rm_clients (sv_room s r)) s)
       (\<lambda>s. Inr (s\<lparr>sv_rooms := AList.delete token (sv_rooms s)\<rparr>))"

definition startReconnectGenerationLocked :: "nat \<Rightarrow> rooms_state \<Rightarrow> rooms_state" where
  "startReconnectGenerationLocked r s =
     fold (\<lambda>existing s.
         let role = cl_role (sv_client s existing) in
         closeClient existing (upd_room r (\<lambda>x. x\<lparr>rm_clients := remove1 existing (rm_clients x),
           rm_slots := (if role \<noteq> '''' \<and> rm_slots x role = Some existing then (rm_slots x)(role := None) else rm_slots x)\<rparr>) s))
       (rm_clients (sv_room s r))
       (upd_room r (\<lambda>x. x\<lparr>rm_generation := rm_generation x + 1, rm_pending := [], rm_needsNewGeneration := False\<rparr>) s)"

definition new_room :: "string \<Rightarrow> string \<Rightarrow> int \<Rightarrow> int \<Rightarrow> room" where
  "new_room token protocol now ttl =
     \<lparr>rm_token = token, rm_protocol = protocol, rm_created = now, rm_expires = now + ttl, rm_locked = False,
      rm_clients = [], rm_slots = (\<lambda>_. None), rm_reconnectTokens = (\<lambda>_. ''''), rm_reconnectEnabled = False,
      rm_generation = 0, rm_needsNewGeneration = False, rm_pending = []\<rparr>"

definition new_client :: "nat \<Rightarrow> string \<Rightarrow> bool \<Rightarrow> 64 word \<Rightarrow> client" where
  "new_client r role explicit generation =
     \<lparr>cl_room = r, cl_send = [], cl_role = role, cl_explicitRole = explicit, cl_generation = generation, cl_closed = False\<rparr>"

definition add_room :: "room \<Rightarrow> nat room_act" where
  "add_room x s =
     (Inr (sv_next_room s),
      s\<lparr>sv_rooms := AList.update (rm_token x) (sv_next_room s) (sv_rooms s),
        sv_room := (sv_room s)(sv_next_room s := x), sv_next_room := Suc (sv_next_room s)\<rparr>)"

definition add_client :: "client \<Rightarrow> nat room_act" where
  "add_client k s =
     (Inr (sv_next_client s),
      upd_room (cl_room k) (\<lambda>x. x\<lparr>rm_clients := rm_clients x @ [sv_next_client s]\<rparr>)
        (s\<lparr>sv_client := (sv_client s)(sv_next_client s := k), sv_next_client := Suc (sv_next_client s)\<rparr>))"

definition delete_empty :: "string \<Rightarrow> nat \<Rightarrow> rooms_state \<Rightarrow> rooms_state" where
  "delete_empty token r s =
     (if rm_clients (sv_room s r) = [] then s\<lparr>sv_rooms := AList.delete token (sv_rooms s)\<rparr> else s)"

text \<open>The room of a token: an expired one is closed and replaced.\<close>

definition open_room :: "int \<Rightarrow> int \<Rightarrow> string \<Rightarrow> string \<Rightarrow> nat room_act" where
  "open_room ttl now token protocol =
     bind_act (gets (\<lambda>s. case map_of (sv_rooms s) token of
           Some r \<Rightarrow> Some (r, rm_expires (sv_room s r) < now) | None \<Rightarrow> None)) (\<lambda>found.
     case found of
       Some (r, expired) \<Rightarrow>
         if expired then bind_act (try_put (\<lambda>e. e) (expireRoomLocked token r)) (\<lambda>_. add_room (new_room token protocol now ttl))
         else ret r
     | None \<Rightarrow> add_room (new_room token protocol now ttl))"

definition replay_pending :: "nat \<Rightarrow> nat \<Rightarrow> unit room_act" where
  "replay_pending r c =
     bind_act (gets (\<lambda>s. rm_pending (sv_room s r))) (for_each (\<lambda>(k, msg). try_put (\<lambda>e. e) (push c (Payload k msg))))"

definition joinLegacyLocked :: "nat \<Rightarrow> nat room_act" where
  "joinLegacyLocked r =
     bind_act (gets (\<lambda>s. sv_room s r)) (\<lambda>x.
     bind_act (guard_act (\<not> rm_locked x) RoomLocked) (\<lambda>_.
     bind_act (guard_act (length (rm_clients x) < 2) RoomFull) (\<lambda>_.
     bind_act (gets (\<lambda>s. case filter (\<lambda>e. cl_role (sv_client s e) \<noteq> '''') (rm_clients x) of
           [] \<Rightarrow> '''' | e # _ \<Rightarrow> oppositeSignalRole (cl_role (sv_client s e)))) (\<lambda>role.
     bind_act (add_client (new_client r role False (rm_generation x))) (\<lambda>c.
     bind_act (modify (upd_room r (\<lambda>x. if role = '''' then x else x\<lparr>rm_slots := (rm_slots x)(role \<mapsto> c)\<rparr>))) (\<lambda>_.
     bind_act (if Suc (length (rm_clients x)) = 2
        then bind_act (modify (upd_room r (\<lambda>x. x\<lparr>rm_locked := True\<rparr>))) (\<lambda>_.
             for_each (\<lambda>existing. bind_act (gets (\<lambda>s. sv_client s existing)) (\<lambda>k.
                 if cl_explicitRole k
                 then try_put (\<lambda>e. e) (push existing (signalReadyPayload (cl_role k) False '''' (rm_generation x)))
                 else ret ())) (rm_clients x @ [c]))
        else ret ()) (\<lambda>_.
     bind_act (replay_pending r c) (\<lambda>_.
     ret c))))))))"

text \<open>The checks of a join with a role in a room that is locked, and in one that is not.\<close>

definition admit_locked :: "nat \<Rightarrow> string \<Rightarrow> string \<Rightarrow> unit room_act" where
  "admit_locked r role reconnectToken =
     bind_act (gets (\<lambda>s. sv_room s r)) (\<lambda>x.
     bind_act (guard_act (rm_slots x role = None) (AlreadyConnected role)) (\<lambda>_.
     bind_act (guard_act (rm_reconnectTokens x role \<noteq> '''' \<and> reconnectToken \<noteq> ''''
        \<and> equalReconnectToken (rm_reconnectTokens x role) reconnectToken) InvalidReconnectToken) (\<lambda>_.
     if rm_needsNewGeneration x then modify (startReconnectGenerationLocked r) else ret ())))"

definition give_role :: "nat \<Rightarrow> string \<Rightarrow> rooms_state \<Rightarrow> rooms_state" where
  "give_role r role s =
     (case filter (\<lambda>e. cl_role (sv_client s e) = '''') (rm_clients (sv_room s r)) of
        [] \<Rightarrow> s
      | existing # _ \<Rightarrow>
          upd_room r (\<lambda>x. x\<lparr>rm_slots := (rm_slots x)(oppositeSignalRole role \<mapsto> existing)\<rparr>)
            (upd_client existing (\<lambda>k. k\<lparr>cl_role := oppositeSignalRole role\<rparr>) s))"

definition admit_unlocked :: "string \<Rightarrow> nat \<Rightarrow> string \<Rightarrow> string \<Rightarrow> string option \<Rightarrow> unit room_act" where
  "admit_unlocked token r role reconnectToken rnd =
     bind_act (gets (\<lambda>s. sv_room s r)) (\<lambda>x.
     bind_act (if reconnectToken \<noteq> ''''
          \<and> (rm_reconnectTokens x role = '''' \<or> \<not> equalReconnectToken (rm_reconnectTokens x role) reconnectToken)
        then bind_act (modify (delete_empty token r)) (\<lambda>_. throw InvalidReconnectToken) else ret ()) (\<lambda>_.
     bind_act (guard_act (rm_slots x role = None) (AlreadyConnected role)) (\<lambda>_.
     bind_act (modify (give_role r role)) (\<lambda>_.
     if rm_reconnectTokens x role = '''' then
       (case generateReconnectToken rnd of
          Inl e \<Rightarrow> bind_act (modify (delete_empty token r)) (\<lambda>_. throw e)
        | Inr generated \<Rightarrow> modify (upd_room r (\<lambda>x. x\<lparr>rm_reconnectTokens := (rm_reconnectTokens x)(role := generated)\<rparr>)))
     else ret ()))))"

definition enter_role :: "nat \<Rightarrow> string \<Rightarrow> nat room_act" where
  "enter_role r role =
     bind_act (gets (\<lambda>s. rm_generation (sv_room s r))) (\<lambda>generation.
     bind_act (add_client (new_client r role True generation)) (\<lambda>c.
     bind_act (modify (upd_room r (\<lambda>x. x\<lparr>rm_slots := (rm_slots x)(role \<mapsto> c)\<rparr>))) (\<lambda>_.
     bind_act (modify (\<lambda>s. if length (rm_clients (sv_room s r)) = 2
        then upd_room r (\<lambda>x. x\<lparr>rm_locked := True,
               rm_reconnectEnabled := rm_reconnectEnabled x \<or> roomHasTwoExplicitRoles s x\<rparr>) s
        else s)) (\<lambda>_.
     bind_act (gets (\<lambda>s. sv_room s r)) (\<lambda>x.
     bind_act (try_put (\<lambda>e. e) (push c (signalReadyPayload role
        (length (rm_clients x) < 2 \<or> rm_reconnectEnabled x) (rm_reconnectTokens x role) (rm_generation x)))) (\<lambda>_.
     bind_act (replay_pending r c) (\<lambda>_.
     ret c)))))))"

definition joinWithRoleProtocol ::
    "int \<Rightarrow> int \<Rightarrow> string option \<Rightarrow> string \<Rightarrow> string \<Rightarrow> string \<Rightarrow> string \<Rightarrow> nat room_act" where
  "joinWithRoleProtocol ttl now rnd token role reconnectToken protocol =
     bind_act (guard_act (role = '''' \<or> isSignalRole role) InvalidSignalRole) (\<lambda>_.
     bind_act (try_get SignalProtocol (\<lambda>_. NormalizeProtocol protocol)) (\<lambda>protocol.
     bind_act (open_room ttl now token protocol) (\<lambda>r.
     bind_act (modify (upd_room r (\<lambda>x. if rm_protocol x = '''' then x\<lparr>rm_protocol := ''transfer''\<rparr> else x))) (\<lambda>_.
     bind_act (gets (\<lambda>s. sv_room s r)) (\<lambda>x.
     bind_act (guard_act (rm_protocol x = protocol) (RoomProtocolMismatch (rm_protocol x) protocol)) (\<lambda>_.
     if role = '''' then joinLegacyLocked r
     else bind_act (if rm_locked x then admit_locked r role reconnectToken
                    else admit_unlocked token r role reconnectToken rnd) (\<lambda>_.
          enter_role r role)))))))"

definition forward :: "nat \<Rightarrow> string \<Rightarrow> rooms_state \<Rightarrow> (signal_error, rooms_state) result" where
  "forward from payload s =
     (let k = sv_client s from; r = cl_room k; x = sv_room s r in
      if cl_closed k \<or> cl_generation k \<noteq> rm_generation x \<or> from \<notin> set (rm_clients x) then Inr s
      else
        let pending = (if maxPendingSignals \<le> length (rm_pending x)
                       then take (maxPendingSignals - 1) (drop 1 (rm_pending x)) else rm_pending x) in
        foldM (\<lambda>c. if c = from then Inr else offer c (Payload from payload)) (rm_clients x)
          (upd_room r (\<lambda>x. x\<lparr>rm_pending := pending @ [(from, payload)]\<rparr>) s))"

definition leave :: "nat \<Rightarrow> rooms_state \<Rightarrow> rooms_state" where
  "leave c s =
     (let k = sv_client s c; r = cl_room k;
          s = upd_room r (\<lambda>x.
            let x = x\<lparr>rm_clients := remove1 c (rm_clients x)\<rparr> in
            if cl_role k \<noteq> '''' \<and> rm_slots x (cl_role k) = Some c
            then x\<lparr>rm_slots := (rm_slots x)(cl_role k := None),
                   rm_needsNewGeneration := (rm_locked x \<and> cl_explicitRole k) \<or> rm_needsNewGeneration x\<rparr>
            else x) s;
          x = sv_room s r;
          s = (if rm_clients x = [] \<and> \<not> roomSupportsReconnect x
               then s\<lparr>sv_rooms := AList.delete (rm_token x) (sv_rooms s)\<rparr> else s)
      in closeClient c s)"

text \<open>The rooms part of the periodic cleanup.\<close>

definition cleanup_rooms :: "int \<Rightarrow> rooms_state \<Rightarrow> (signal_error, rooms_state) result" where
  "cleanup_rooms now s =
     foldM (\<lambda>(token, r) s. if rm_expires (sv_room s r) < now then expireRoomLocked token r s else Inr s) (sv_rooms s) s"

definition roomStats :: "rooms_state \<Rightarrow> nat \<times> nat \<times> nat \<times> nat" where
  "roomStats s =
     (let rooms = map (\<lambda>(_, r). sv_room s r) (sv_rooms s) in
      (length rooms, length (filter rm_locked rooms), sum_list (map (\<lambda>x. length (rm_clients x)) rooms),
       sum_list (map (\<lambda>x. length (rm_pending x)) rooms)))"

end
