(* ===== verification/Signal_Safety.thy ===== *)
theory Signal_Safety
  imports Signal_Rooms
begin

text \<open>
  The invariant of the signaling rooms and what follows from it: no operation of the server blocks
  on a full queue or sends on a closed one, and a message reaches only the room it was sent in.
  The invariant is local to a room and its clients, so an operation on one room is checked there
  and carried to the whole state by one framing lemma.
\<close>

section \<open>The invariant\<close>

definition same_peer :: "(nat \<Rightarrow> client) \<Rightarrow> nat \<Rightarrow> nat \<Rightarrow> bool" where
  "same_peer cl k c \<longleftrightarrow> cl_room (cl k) = cl_room (cl c) \<and> cl_generation (cl k) = cl_generation (cl c)"

definition client_wf :: "(nat \<Rightarrow> client) \<Rightarrow> nat \<Rightarrow> nat \<Rightarrow> bool" where
  "client_wf cl n c \<longleftrightarrow> length (cl_send (cl c)) \<le> signalSendQueueCapacity
     \<and> (\<forall>k m. Payload k m \<in> set (cl_send (cl c)) \<longrightarrow> k < n \<and> k \<noteq> c \<and> same_peer cl k c)"

definition member_wf :: "(nat \<Rightarrow> client) \<Rightarrow> nat \<Rightarrow> nat \<Rightarrow> room \<Rightarrow> nat \<Rightarrow> bool" where
  "member_wf cl n r x c \<longleftrightarrow> c < n \<and> cl_room (cl c) = r \<and> cl_generation (cl c) = rm_generation x
     \<and> (cl_role (cl c) \<noteq> '''' \<longrightarrow> isSignalRole (cl_role (cl c)) \<and> rm_slots x (cl_role (cl c)) = Some c)"

definition origin_wf :: "(nat \<Rightarrow> client) \<Rightarrow> nat \<Rightarrow> nat \<Rightarrow> room \<Rightarrow> nat \<Rightarrow> bool" where
  "origin_wf cl n r x k \<longleftrightarrow> k < n \<and> cl_room (cl k) = r \<and> cl_generation (cl k) = rm_generation x"

definition room_wf :: "(nat \<Rightarrow> client) \<Rightarrow> nat \<Rightarrow> nat \<Rightarrow> room \<Rightarrow> bool" where
  "room_wf cl n r x \<longleftrightarrow> distinct (rm_clients x) \<and> length (rm_clients x) \<le> 2 \<and> length (rm_pending x) \<le> maxPendingSignals
     \<and> (\<forall>c\<in>set (rm_clients x). member_wf cl n r x c)
     \<and> (\<forall>p\<in>set (rm_pending x). origin_wf cl n r x (fst p))
     \<and> (\<forall>role c. rm_slots x role = Some c \<longrightarrow> c \<in> set (rm_clients x) \<and> cl_role (cl c) = role \<and> isSignalRole role)
     \<and> (\<forall>role. rm_reconnectTokens x role \<noteq> '''' \<longrightarrow> isSignalRole role)"

lemma room_wfI:
  assumes "distinct (rm_clients x)" and "length (rm_clients x) \<le> 2" and "length (rm_pending x) \<le> maxPendingSignals"
    and "\<And>c. c \<in> set (rm_clients x) \<Longrightarrow> member_wf cl n r x c"
    and "\<And>p. p \<in> set (rm_pending x) \<Longrightarrow> origin_wf cl n r x (fst p)"
    and "\<And>role c. rm_slots x role = Some c \<Longrightarrow> c \<in> set (rm_clients x) \<and> cl_role (cl c) = role \<and> isSignalRole role"
    and "\<And>role. rm_reconnectTokens x role \<noteq> '''' \<Longrightarrow> isSignalRole role"
  shows "room_wf cl n r x"
  using assms by (simp add: room_wf_def)

lemma room_wfD:
  assumes "room_wf cl n r x"
  shows "distinct (rm_clients x)" and "length (rm_clients x) \<le> 2" and "length (rm_pending x) \<le> maxPendingSignals"
    and "c \<in> set (rm_clients x) \<Longrightarrow> member_wf cl n r x c"
    and "p \<in> set (rm_pending x) \<Longrightarrow> origin_wf cl n r x (fst p)"
    and "rm_slots x role = Some c \<Longrightarrow> c \<in> set (rm_clients x) \<and> cl_role (cl c) = role \<and> isSignalRole role"
    and "rm_reconnectTokens x role \<noteq> '''' \<Longrightarrow> isSignalRole role"
  using assms by (simp_all add: room_wf_def)

text \<open>Of a room that can be joined; \<open>entering\<close> while a client is on its way in.\<close>

definition open_wf :: "(nat \<Rightarrow> client) \<Rightarrow> bool \<Rightarrow> room \<Rightarrow> bool" where
  "open_wf cl entering x \<longleftrightarrow>
     (\<forall>c\<in>set (rm_clients x). \<not> cl_closed (cl c))
     \<and> (\<not> rm_locked x \<longrightarrow> length (rm_clients x) \<le> 1 \<and> (\<forall>c\<in>set (rm_clients x). length (cl_send (cl c)) \<le> 1))
     \<and> (\<not> rm_locked x \<and> rm_clients x = [] \<and> \<not> entering \<longrightarrow> (\<forall>role. rm_reconnectTokens x role = ''''))
     \<and> (\<not> rm_locked x \<and> rm_clients x = [] \<longrightarrow> rm_pending x = [])
     \<and> (\<forall>c\<in>set (rm_clients x). cl_role (cl c) = '''' \<longrightarrow> (\<forall>role. rm_reconnectTokens x role = ''''))
     \<and> (rm_locked x \<and> \<not> rm_needsNewGeneration x \<and> length (rm_clients x) = 2
        \<longrightarrow> (\<forall>role. rm_reconnectTokens x role \<noteq> '''' \<longrightarrow> rm_slots x role \<noteq> None))"

lemma open_wf_mono: "open_wf cl e x \<Longrightarrow> (e \<Longrightarrow> e') \<Longrightarrow> open_wf cl e' x"
  by (auto simp: open_wf_def)

definition liveness_wf :: "(nat \<Rightarrow> client) \<Rightarrow> room \<Rightarrow> bool" where
  "liveness_wf cl x \<longleftrightarrow> (\<forall>c\<in>set (rm_clients x). \<not> cl_closed (cl c)) \<or> (\<forall>c\<in>set (rm_clients x). cl_closed (cl c))"

definition rooms_inv :: "nat set \<Rightarrow> rooms_state \<Rightarrow> bool" where
  "rooms_inv J s \<longleftrightarrow> distinct (map fst (sv_rooms s))
     \<and> (\<forall>r < sv_next_room s. room_wf (sv_client s) (sv_next_client s) r (sv_room s r) \<and> liveness_wf (sv_client s) (sv_room s r))
     \<and> (\<forall>t r. map_of (sv_rooms s) t = Some r \<longrightarrow>
          r < sv_next_room s \<and> rm_token (sv_room s r) = t \<and> open_wf (sv_client s) (r \<in> J) (sv_room s r))
     \<and> (\<forall>c < sv_next_client s. cl_room (sv_client s c) < sv_next_room s \<and> client_wf (sv_client s) (sv_next_client s) c)"

section \<open>Framing\<close>

definition agree_off :: "nat \<Rightarrow> nat \<Rightarrow> (nat \<Rightarrow> client) \<Rightarrow> (nat \<Rightarrow> client) \<Rightarrow> bool" where
  "agree_off r n cl cl' \<longleftrightarrow> (\<forall>c < n. cl_room (cl' c) = cl_room (cl c) \<and> cl_generation (cl' c) = cl_generation (cl c)
     \<and> (cl_room (cl c) \<noteq> r \<longrightarrow> cl' c = cl c))"

lemma room_wf_frame:
  assumes "room_wf cl n r x" and "agree_off r0 n cl cl'" and "r \<noteq> r0" and "n \<le> n'"
  shows "room_wf cl' n' r x" and "liveness_wf cl x \<Longrightarrow> liveness_wf cl' x" and "open_wf cl e x \<Longrightarrow> open_wf cl' e x"
proof -
  from assms have same: "cl' c = cl c" if "c \<in> set (rm_clients x)" for c
    using that unfolding room_wf_def member_wf_def agree_off_def by metis
  from assms(1) have mem: "\<forall>c\<in>set (rm_clients x). member_wf cl' n' r x c"
    using same assms(4) unfolding room_wf_def member_wf_def by (metis order_less_le_trans)
  have "origin_wf cl n r x k \<Longrightarrow> origin_wf cl' n' r x k" for k
    using assms(2,4) by (auto simp: origin_wf_def agree_off_def)
  with assms(1) have pend: "\<forall>p\<in>set (rm_pending x). origin_wf cl' n' r x (fst p)"
    by (simp add: room_wf_def)
  show "room_wf cl' n' r x"
    using assms(1) mem pend same by (auto simp: room_wf_def)
  show "liveness_wf cl x \<Longrightarrow> liveness_wf cl' x"
    using same by (simp add: liveness_wf_def)
  show "open_wf cl e x \<Longrightarrow> open_wf cl' e x"
    using same by (simp add: open_wf_def)
qed

lemma client_wf_frame:
  assumes "client_wf cl n c" and "agree_off r0 n cl cl'" and "c < n" and "cl_room (cl c) \<noteq> r0" and "n \<le> n'"
  shows "client_wf cl' n' c"
  using assms by (fastforce simp: client_wf_def agree_off_def same_peer_def)

text \<open>An operation on the room \<open>r\<close> keeps the invariant if it keeps it there.\<close>

lemma rooms_inv_local:
  assumes inv: "rooms_inv J s" and keys: "distinct (map fst (sv_rooms s'))"
    and room: "\<And>r'. r' < sv_next_room s' \<Longrightarrow> r' \<noteq> r \<Longrightarrow> r' < sv_next_room s \<and> sv_room s' r' = sv_room s r'"
    and le: "sv_next_room s \<le> sv_next_room s'" "sv_next_client s \<le> sv_next_client s'"
    and agree: "agree_off r (sv_next_client s) (sv_client s) (sv_client s')"
    and maps: "\<And>t r'. map_of (sv_rooms s') t = Some r' \<Longrightarrow> r' \<noteq> r \<Longrightarrow> map_of (sv_rooms s) t = Some r' \<and> (r' \<in> J \<longrightarrow> r' \<in> J')"
    and here: "room_wf (sv_client s') (sv_next_client s') r (sv_room s' r)" "liveness_wf (sv_client s') (sv_room s' r)"
    and mapped: "\<And>t. map_of (sv_rooms s') t = Some r \<Longrightarrow>
        r < sv_next_room s' \<and> rm_token (sv_room s' r) = t \<and> open_wf (sv_client s') (r \<in> J') (sv_room s' r)"
    and clients: "\<And>c. c < sv_next_client s' \<Longrightarrow> c < sv_next_client s \<longrightarrow> cl_room (sv_client s c) = r
        \<Longrightarrow> cl_room (sv_client s' c) < sv_next_room s' \<and> client_wf (sv_client s') (sv_next_client s') c"
  shows "rooms_inv J' s'"
  unfolding rooms_inv_def
proof (intro conjI allI impI, rule keys)
  fix r' assume r': "r' < sv_next_room s'"
  show "room_wf (sv_client s') (sv_next_client s') r' (sv_room s' r')" "liveness_wf (sv_client s') (sv_room s' r')"
    using here room_wf_frame [OF _ agree _ le(2)] inv room [OF r'] unfolding rooms_inv_def by (metis)+
next
  fix t r' assume m: "map_of (sv_rooms s') t = Some r'"
  have old: "r' < sv_next_room s \<and> rm_token (sv_room s r') = t \<and> room_wf (sv_client s) (sv_next_client s) r' (sv_room s r')
      \<and> open_wf (sv_client s) (r' \<in> J) (sv_room s r') \<and> (r' \<in> J \<longrightarrow> r' \<in> J')" if "r' \<noteq> r"
    using inv maps [OF m that] unfolding rooms_inv_def by blast
  have "r' < sv_next_room s' \<and> rm_token (sv_room s' r') = t \<and> open_wf (sv_client s') (r' \<in> J') (sv_room s' r')"
  proof (cases "r' = r")
    case False
    then show ?thesis
      using old room_wf_frame(3) [OF _ agree _ le(2)] room [of r'] le(1) open_wf_mono by (metis order_less_le_trans)
  qed (use mapped m in simp)
  then show "r' < sv_next_room s'" "rm_token (sv_room s' r') = t" "open_wf (sv_client s') (r' \<in> J') (sv_room s' r')"
    by auto
next
  fix c assume c: "c < sv_next_client s'"
  have "cl_room (sv_client s' c) < sv_next_room s' \<and> client_wf (sv_client s') (sv_next_client s') c"
  proof (cases "c < sv_next_client s \<and> cl_room (sv_client s c) \<noteq> r")
    case True
    then have "cl_room (sv_client s c) < sv_next_room s" "client_wf (sv_client s) (sv_next_client s) c"
      using inv by (auto simp: rooms_inv_def)
    then show ?thesis
      using client_wf_frame [OF _ agree _ _ le(2)] True agree le(1) by (auto simp: agree_off_def)
  qed (use clients c in auto)
  then show "cl_room (sv_client s' c) < sv_next_room s'" "client_wf (sv_client s') (sv_next_client s') c"
    by auto
qed

section \<open>Queue steps\<close>

lemma upd_client_simps [simp]:
  "sv_client (upd_client c f s) = (sv_client s)(c := f (sv_client s c))" "sv_room (upd_client c f s) = sv_room s"
  "sv_rooms (upd_client c f s) = sv_rooms s" "sv_next_room (upd_client c f s) = sv_next_room s"
  "sv_next_client (upd_client c f s) = sv_next_client s"
  by (simp_all add: upd_client_def)

lemma upd_room_simps [simp]:
  "sv_room (upd_room r g s) = (sv_room s)(r := g (sv_room s r))" "sv_client (upd_room r g s) = sv_client s"
  "sv_rooms (upd_room r g s) = sv_rooms s" "sv_next_room (upd_room r g s) = sv_next_room s"
  "sv_next_client (upd_room r g s) = sv_next_client s"
  by (simp_all add: upd_room_def)

text \<open>A step that only fills, empties or closes queues of clients of \<open>r\<close>.\<close>

definition drift :: "nat \<Rightarrow> rooms_state \<Rightarrow> rooms_state \<Rightarrow> bool" where
  "drift r s s' \<longleftrightarrow> sv_room s' = sv_room s \<and> sv_rooms s' = sv_rooms s \<and> sv_next_room s' = sv_next_room s
     \<and> sv_next_client s' = sv_next_client s
     \<and> (\<forall>c. cl_room (sv_client s' c) = cl_room (sv_client s c) \<and> cl_generation (sv_client s' c) = cl_generation (sv_client s c)
          \<and> cl_role (sv_client s' c) = cl_role (sv_client s c) \<and> (cl_room (sv_client s c) \<noteq> r \<longrightarrow> sv_client s' c = sv_client s c)
          \<and> (client_wf (sv_client s) (sv_next_client s) c \<longrightarrow> client_wf (sv_client s') (sv_next_client s) c))"

lemma drift_refl [simp]: "drift r s s"
  by (simp add: drift_def)

lemma drift_trans: "drift r s t \<Longrightarrow> drift r t u \<Longrightarrow> drift r s u"
  by (simp add: drift_def)

lemma offer_open: "\<not> cl_closed (sv_client s c) \<Longrightarrow> \<exists>s'. offer c m s = Inr s'"
  by (simp add: offer_def)

lemma drift_upd_client:
  assumes "cl_room (sv_client s c) = r" and "\<And>k. cl_room (f k) = cl_room k \<and> cl_generation (f k) = cl_generation k \<and> cl_role (f k) = cl_role k"
    and "client_wf (sv_client s) (sv_next_client s) c \<Longrightarrow> client_wf ((sv_client s)(c := f (sv_client s c))) (sv_next_client s) c"
  shows "drift r s (upd_client c f s)"
proof -
  let ?cl = "(sv_client s)(c := f (sv_client s c))"
  have "same_peer ?cl k e = same_peer (sv_client s) k e" for k e
    using assms(2) by (simp add: same_peer_def)
  then have "client_wf (sv_client s) n e \<Longrightarrow> client_wf ?cl n e" if "e \<noteq> c" for n e
    using that by (simp add: client_wf_def)
  then show ?thesis
    using assms unfolding drift_def upd_client_simps by (simp add: fun_upd_def)
qed

lemma drift_close: "cl_room (sv_client s c) = r \<Longrightarrow> drift r s (closeClient c s)"
  unfolding closeClient_def by (rule drift_upd_client) (auto simp: client_wf_def same_peer_def)

lemma drift_write: "cl_room (sv_client s c) = r \<Longrightarrow> drift r s (upd_client c (\<lambda>k. k\<lparr>cl_send := drop 1 (cl_send k)\<rparr>) s)"
  by (rule drift_upd_client) (auto simp: client_wf_def same_peer_def dest: in_set_dropD)

lemma drift_offer:
  assumes "offer c m s = Inr s'" and "cl_room (sv_client s c) = r"
    and "\<And>k p. m = Payload k p \<Longrightarrow> k < sv_next_client s \<and> k \<noteq> c \<and> same_peer (sv_client s) k c"
  shows "drift r s s'"
proof -
  from assms(1) consider "s' = s" | "length (cl_send (sv_client s c)) < signalSendQueueCapacity"
      "s' = upd_client c (\<lambda>k. k\<lparr>cl_send := cl_send k @ [m]\<rparr>) s"
    by (auto simp: offer_def split: if_splits)
  then show ?thesis
  proof cases
    case 2
    show ?thesis unfolding 2(2)
      by (rule drift_upd_client) (use assms 2 in \<open>auto simp: client_wf_def same_peer_def\<close>)
  qed simp
qed

lemma drift_local:
  assumes "drift r s s'"
  shows "room_wf (sv_client s') n r' x = room_wf (sv_client s) n r' x" and "agree_off r n (sv_client s) (sv_client s')"
  using assms by (simp_all add: drift_def room_wf_def member_wf_def origin_wf_def agree_off_def)

lemma drift_inv:
  assumes inv: "rooms_inv J s" and d: "drift r s s'" and r: "r < sv_next_room s"
    and live: "liveness_wf (sv_client s') (sv_room s r)"
    and op: "\<And>t. map_of (sv_rooms s) t = Some r \<Longrightarrow> open_wf (sv_client s) (r \<in> J) (sv_room s r)
      \<Longrightarrow> open_wf (sv_client s') (r \<in> J) (sv_room s r)"
  shows "rooms_inv J s'"
  by (rule rooms_inv_local [where r = r, OF inv])
    (use inv d r live op drift_local [OF d] in \<open>auto simp: drift_def rooms_inv_def\<close>)

section \<open>Leaving the queue, forwarding, expiry\<close>

lemma writeLoop_keeps:
  assumes "rooms_inv J s" and "c < sv_next_client s"
  shows "rooms_inv J (snd (writeLoop c s))"
proof -
  have "cl_room (sv_client s c) < sv_next_room s" using assms by (simp add: rooms_inv_def)
  then have "liveness_wf (sv_client s) (sv_room s (cl_room (sv_client s c)))" using assms by (simp add: rooms_inv_def)
  then show ?thesis
    unfolding writeLoop_def modify_def snd_conv
    by (intro drift_inv [OF assms(1) drift_write [OF refl] \<open>cl_room (sv_client s c) < sv_next_room s\<close>])
      (auto simp: liveness_wf_def open_wf_def)
qed

lemma offer_keeps:
  assumes inv: "rooms_inv J s" and r: "r < sv_next_room s" and c: "c \<in> set (rm_clients (sv_room s r))"
    and k: "k \<in> set (rm_clients (sv_room s r))" "k \<noteq> c" "\<not> cl_closed (sv_client s k)"
  obtains s' where "offer c (Payload k p) s = Inr s'" "rooms_inv J s'" "sv_room s' = sv_room s"
    "sv_next_room s' = sv_next_room s" "cl_closed (sv_client s' k) = cl_closed (sv_client s k)"
proof -
  have wf: "room_wf (sv_client s) (sv_next_client s) r (sv_room s r)" "liveness_wf (sv_client s) (sv_room s r)"
    using inv r by (auto simp: rooms_inv_def)
  have open_c: "\<not> cl_closed (sv_client s c)" using wf(2) c k by (auto simp: liveness_wf_def)
  then obtain s' where s': "offer c (Payload k p) s = Inr s'" using offer_open by blast
  have mem: "member_wf (sv_client s) (sv_next_client s) r (sv_room s r) c" "member_wf (sv_client s) (sv_next_client s) r (sv_room s r) k"
    using wf(1) c k by (auto simp: room_wf_def)
  then have d: "drift r s s'"
    by (intro drift_offer [OF s']) (auto simp: member_wf_def same_peer_def k)
  have closed: "cl_closed (sv_client s' e) = cl_closed (sv_client s e)" for e
    using s' by (auto simp: offer_def split: if_splits)
  have "2 \<le> length (rm_clients (sv_room s r))" using c k by (cases "rm_clients (sv_room s r)") (auto simp: Suc_le_eq)
  then have "rooms_inv J s'"
    using wf closed by (intro drift_inv [OF inv d r]) (auto simp: liveness_wf_def open_wf_def d [unfolded drift_def])
  with s' d closed show thesis by (auto simp: drift_def intro!: that)
qed

lemma forward_loop_keeps:
  assumes "rooms_inv J s" and "r < sv_next_room s" and "set cs \<subseteq> set (rm_clients (sv_room s r))"
    and "k \<in> set (rm_clients (sv_room s r))" "\<not> cl_closed (sv_client s k)"
  shows "\<exists>s'. foldM (\<lambda>c. if c = k then Inr else offer c (Payload k p)) cs s = Inr s' \<and> rooms_inv J s'"
  using assms
proof (induction cs arbitrary: s)
  case (Cons c cs)
  show ?case
  proof (cases "c = k")
    case False
    have "c \<in> set (rm_clients (sv_room s r))" using Cons.prems by simp
    from offer_keeps [OF Cons.prems(1,2) this Cons.prems(4) False [symmetric] Cons.prems(5)] obtain s1 where
      s1: "offer c (Payload k p) s = Inr s1" "rooms_inv J s1" "sv_room s1 = sv_room s"
        "sv_next_room s1 = sv_next_room s" "cl_closed (sv_client s1 k) = cl_closed (sv_client s k)" .
    then show ?thesis using Cons.IH [of s1] Cons.prems False by simp
  qed (use Cons in simp)
qed simp

lemma forward_keeps:
  assumes inv: "rooms_inv J s" and c: "c < sv_next_client s"
  shows "\<exists>s'. forward c p s = Inr s' \<and> rooms_inv J s'"
proof -
  let ?r = "cl_room (sv_client s c)"
  let ?x = "sv_room s ?r"
  have r: "?r < sv_next_room s" using inv c by (simp add: rooms_inv_def)
  then have wf: "room_wf (sv_client s) (sv_next_client s) ?r ?x" "liveness_wf (sv_client s) ?x"
    using inv by (auto simp: rooms_inv_def)
  show ?thesis
  proof (cases "cl_closed (sv_client s c) \<or> cl_generation (sv_client s c) \<noteq> rm_generation ?x \<or> c \<notin> set (rm_clients ?x)")
    case False
    define pending where "pending = (if maxPendingSignals \<le> length (rm_pending ?x)
        then take (maxPendingSignals - 1) (drop 1 (rm_pending ?x)) else rm_pending ?x) @ [(c, p)]"
    let ?s = "upd_room ?r (\<lambda>x. x\<lparr>rm_pending := pending\<rparr>) s"
    have len: "length pending \<le> maxPendingSignals" by (auto simp: pending_def maxPendingSignals_def)
    have sub: "set pending \<subseteq> insert (c, p) (set (rm_pending ?x))"
      by (auto simp: pending_def dest!: in_set_takeD in_set_dropD)
    have "rooms_inv J ?s"
    proof (rule rooms_inv_local [where r = ?r, OF inv])
      show "room_wf (sv_client ?s) (sv_next_client ?s) ?r (sv_room ?s ?r)"
      proof -
        have "member_wf (sv_client s) n r (x\<lparr>rm_pending := q\<rparr>) e = member_wf (sv_client s) n r x e"
          "origin_wf (sv_client s) n r (x\<lparr>rm_pending := q\<rparr>) e = origin_wf (sv_client s) n r x e" for n r x q e
          by (simp_all add: member_wf_def origin_wf_def)
        moreover have "origin_wf (sv_client s) (sv_next_client s) ?r ?x (fst q)" if "q \<in> set pending" for q
          using that sub wf(1) False c by (auto simp: room_wf_def origin_wf_def)
        ultimately show ?thesis using wf(1) len by (simp add: room_wf_def)
      qed
      show "?r < sv_next_room ?s \<and> rm_token (sv_room ?s ?r) = t \<and> open_wf (sv_client ?s) (?r \<in> J) (sv_room ?s ?r)"
        if "map_of (sv_rooms ?s) t = Some ?r" for t
      proof -
        have "rm_token ?x = t" "open_wf (sv_client s) (?r \<in> J) ?x" using that inv by (auto simp: rooms_inv_def)
        then show ?thesis using False r by (auto simp: open_wf_def)
      qed
    qed (use inv wf(2) r in \<open>auto simp: rooms_inv_def agree_off_def liveness_wf_def\<close>)
    then show ?thesis
      using False forward_loop_keeps [of J ?s ?r "rm_clients ?x" c p] r by (simp add: forward_def Let_def pending_def)
  qed (use inv in \<open>auto simp: forward_def Let_def\<close>)
qed

lemma expire_loop:
  assumes "distinct cs" and "\<And>c. c \<in> set cs \<Longrightarrow> cl_room (sv_client s c) = r \<and> \<not> cl_closed (sv_client s c)"
  shows "\<exists>s'. foldM (\<lambda>c s. rbind (offer c RoomExpired s) (\<lambda>s. Inr (closeClient c s))) cs s = Inr s' \<and> drift r s s'
    \<and> (\<forall>c\<in>set cs. cl_closed (sv_client s' c)) \<and> (\<forall>c. cl_closed (sv_client s c) \<longrightarrow> cl_closed (sv_client s' c))"
  using assms
proof (induction cs arbitrary: s)
  case (Cons c cs)
  from Cons.prems obtain s1 where s1: "offer c RoomExpired s = Inr s1" using offer_open [of s c RoomExpired] by auto
  then have d: "drift r s s1" using Cons.prems by (intro drift_offer) auto
  then have d2: "drift r s (closeClient c s1)" using Cons.prems by (intro drift_trans [OF d] drift_close) (auto simp: drift_def)
  have same: "cl_closed (sv_client s1 e) = cl_closed (sv_client s e)" for e
    using s1 by (auto simp: offer_def split: if_splits)
  have "\<exists>s'. foldM (\<lambda>c s. rbind (offer c RoomExpired s) (\<lambda>s. Inr (closeClient c s))) cs (closeClient c s1) = Inr s'
      \<and> drift r (closeClient c s1) s' \<and> (\<forall>c\<in>set cs. cl_closed (sv_client s' c))
      \<and> (\<forall>e. cl_closed (sv_client (closeClient c s1) e) \<longrightarrow> cl_closed (sv_client s' e))"
    using Cons.prems same d by (intro Cons.IH) (auto simp: closeClient_def drift_def)
  then show ?case
    using s1 drift_trans [OF d2] same by (fastforce simp: closeClient_def)
qed simp

lemma expireRoomLocked_keeps:
  assumes inv: "rooms_inv J s" and m: "map_of (sv_rooms s) token = Some r"
  shows "\<exists>s'. expireRoomLocked token r s = Inr s' \<and> rooms_inv J s' \<and> sv_room s' = sv_room s
    \<and> sv_next_room s' = sv_next_room s \<and> sv_rooms s' = AList.delete token (sv_rooms s)"
proof -
  let ?x = "sv_room s r"
  have wf: "r < sv_next_room s" "room_wf (sv_client s) (sv_next_client s) r ?x" "open_wf (sv_client s) (r \<in> J) ?x" "rm_token ?x = token"
    using inv m by (auto simp: rooms_inv_def)
  have "\<exists>s'. foldM (\<lambda>c s. rbind (offer c RoomExpired s) (\<lambda>s. Inr (closeClient c s))) (rm_clients ?x) s = Inr s' \<and> drift r s s'
    \<and> (\<forall>c\<in>set (rm_clients ?x). cl_closed (sv_client s' c)) \<and> (\<forall>c. cl_closed (sv_client s c) \<longrightarrow> cl_closed (sv_client s' c))"
    using wf by (intro expire_loop) (auto simp: room_wf_def member_wf_def open_wf_def)
  then obtain s1 where s1: "foldM (\<lambda>c s. rbind (offer c RoomExpired s) (\<lambda>s. Inr (closeClient c s))) (rm_clients ?x) s = Inr s1"
    and d: "drift r s s1" and closed: "\<forall>c\<in>set (rm_clients ?x). cl_closed (sv_client s1 c)" by blast
  let ?s = "s1\<lparr>sv_rooms := AList.delete token (sv_rooms s1)\<rparr>"
  have gone: "map_of (AList.delete token (sv_rooms s)) t \<noteq> Some r" for t
    using inv wf(4) by (auto simp: delete_conv rooms_inv_def split: if_splits)
  have "rooms_inv J ?s"
  proof (rule rooms_inv_local [where r = r, OF inv])
    show "room_wf (sv_client ?s) (sv_next_client ?s) r (sv_room ?s r)" "liveness_wf (sv_client ?s) (sv_room ?s r)"
      using wf(2) closed drift_local(1) [OF d] d by (auto simp: drift_def liveness_wf_def)
    show "agree_off r (sv_next_client s) (sv_client s) (sv_client ?s)" using drift_local(2) [OF d] by simp
    show "r < sv_next_room ?s \<and> rm_token (sv_room ?s r) = t \<and> open_wf (sv_client ?s) (r \<in> J) (sv_room ?s r)"
      if "map_of (sv_rooms ?s) t = Some r" for t
      using that gone [of t] d by (simp add: drift_def)
  qed (use d inv in \<open>auto simp: drift_def delete_conv rooms_inv_def distinct_delete split: if_splits\<close>)
  then show ?thesis using s1 d by (auto simp: expireRoomLocked_def drift_def)
qed

lemma cleanup_loop_keeps:
  assumes "rooms_inv J s" and "distinct (map fst ps)" and "\<And>t r. (t, r) \<in> set ps \<Longrightarrow> map_of (sv_rooms s) t = Some r"
  shows "\<exists>s'. foldM (\<lambda>(token, r) s. if rm_expires (sv_room s r) < now then expireRoomLocked token r s else Inr s) ps s = Inr s'
    \<and> rooms_inv J s'"
  using assms
proof (induction ps arbitrary: s)
  case (Cons p ps)
  obtain t r where p: "p = (t, r)" by (cases p)
  show ?case
  proof (cases "rm_expires (sv_room s r) < now")
    case True
    from expireRoomLocked_keeps [OF Cons.prems(1), of t r] obtain s1 where
      s1: "expireRoomLocked t r s = Inr s1" "rooms_inv J s1" "sv_rooms s1 = AList.delete t (sv_rooms s)"
      using Cons.prems(3) p by auto
    have "map_of (sv_rooms s1) t' = Some r'" if "(t', r') \<in> set ps" for t' r'
    proof -
      have "t' \<noteq> t" using that Cons.prems(2) p by (force simp: image_iff)
      then show ?thesis using that Cons.prems(3) s1(3) by (simp add: delete_conv)
    qed
    then show ?thesis using Cons.IH [of s1] Cons.prems(2) s1 True p by simp
  qed (use Cons p in simp)
qed simp

lemma cleanup_rooms_keeps: "rooms_inv J s \<Longrightarrow> \<exists>s'. cleanup_rooms now s = Inr s' \<and> rooms_inv J s'"
  unfolding cleanup_rooms_def by (rule cleanup_loop_keeps) (auto simp: rooms_inv_def)

section \<open>Leaving\<close>

definition room_without :: "nat \<Rightarrow> client \<Rightarrow> room \<Rightarrow> room" where
  "room_without c k x =
     (let x = x\<lparr>rm_clients := remove1 c (rm_clients x)\<rparr> in
      if cl_role k \<noteq> '''' \<and> rm_slots x (cl_role k) = Some c
      then x\<lparr>rm_slots := (rm_slots x)(cl_role k := None),
             rm_needsNewGeneration := (rm_locked x \<and> cl_explicitRole k) \<or> rm_needsNewGeneration x\<rparr>
      else x)"

lemma room_without_simps [simp]:
  "rm_clients (room_without c k x) = remove1 c (rm_clients x)" "rm_token (room_without c k x) = rm_token x"
  "rm_pending (room_without c k x) = rm_pending x" "rm_generation (room_without c k x) = rm_generation x"
  "rm_locked (room_without c k x) = rm_locked x" "rm_reconnectTokens (room_without c k x) = rm_reconnectTokens x"
  "rm_slots (room_without c k x) = (if cl_role k \<noteq> '''' \<and> rm_slots x (cl_role k) = Some c then (rm_slots x)(cl_role k := None) else rm_slots x)"
  by (simp_all add: room_without_def Let_def)

lemma room_without_wf:
  assumes wf: "room_wf cl n r x"
  shows "room_wf cl n r (room_without c (cl c) x)"
proof -
  note w = room_wfD [OF wf]
  show ?thesis
  proof (rule room_wfI)
    show "member_wf cl n r (room_without c (cl c) x) e" if "e \<in> set (rm_clients (room_without c (cl c) x))" for e
      using that w(1) w(4) [of e] by (auto simp: member_wf_def)
    show "e \<in> set (rm_clients (room_without c (cl c) x)) \<and> cl_role (cl e) = role \<and> isSignalRole role"
      if "rm_slots (room_without c (cl c) x) role = Some e" for role e
      using that w(1) w(6) [of role e] by (auto simp: isSignalRole_def split: if_splits)
  qed (use w in \<open>auto simp: origin_wf_def length_remove1\<close>)
qed

lemma leave_eq:
  "leave c s = (let r = cl_room (sv_client s c); x = room_without c (sv_client s c) (sv_room s r); s' = upd_room r (\<lambda>_. x) s in
     closeClient c (if rm_clients x = [] \<and> \<not> roomSupportsReconnect x
       then s'\<lparr>sv_rooms := AList.delete (rm_token x) (sv_rooms s')\<rparr> else s'))"
  by (simp add: leave_def room_without_def Let_def upd_room_def)

lemma leave_keeps:
  assumes inv: "rooms_inv J s" and c: "c < sv_next_client s"
  shows "rooms_inv J (leave c s)"
proof -
  define r where "r = cl_room (sv_client s c)"
  define x where "x = sv_room s r"
  define x' where "x' = room_without c (sv_client s c) x"
  define s' where "s' = (if rm_clients x' = [] \<and> \<not> roomSupportsReconnect x'
      then (upd_room r (\<lambda>_. x') s)\<lparr>sv_rooms := AList.delete (rm_token x') (sv_rooms s)\<rparr> else upd_room r (\<lambda>_. x') s)"
  have r: "r < sv_next_room s" using inv c by (simp add: rooms_inv_def r_def)
  then have wf: "room_wf (sv_client s) (sv_next_client s) r x" "liveness_wf (sv_client s) x"
    using inv by (auto simp: rooms_inv_def x_def)
  have s': "sv_client s' = sv_client s" "sv_next_client s' = sv_next_client s" "sv_next_room s' = sv_next_room s"
    "sv_room s' = (sv_room s)(r := x')"
    "map_of (sv_rooms s') t = Some q \<Longrightarrow> map_of (sv_rooms s) t = Some q" for t q
    by (auto simp: s'_def delete_conv split: if_splits)
  have wf': "room_wf (sv_client s) (sv_next_client s) r x'" unfolding x'_def by (rule room_without_wf [OF wf(1)])
  have clients: "set (rm_clients x') = set (rm_clients x) - {c}" using wf(1) by (simp add: x'_def room_wf_def)
  have opened: "open_wf (sv_client s) (r \<in> J) x'" if m: "map_of (sv_rooms s') (rm_token x) = Some r"
  proof -
    have old: "open_wf (sv_client s) (r \<in> J) x" using inv s'(5) [OF m] by (auto simp: rooms_inv_def x_def)
    show ?thesis
    proof (cases "c \<in> set (rm_clients x)")
      case True
      have "rm_locked x"
      proof (rule ccontr)
        assume u: "\<not> rm_locked x"
        then have "rm_clients x = [c]" using old True by (cases "rm_clients x") (auto simp: open_wf_def)
        then have "map_of (sv_rooms s') (rm_token x) = None"
          using u by (simp add: s'_def x'_def roomSupportsReconnect_def delete_conv)
        then show False using m by simp
      qed
      moreover have "length (rm_clients x') < 2" using True room_wfD(2) [OF wf(1)] by (simp add: x'_def length_remove1)
      ultimately show ?thesis using old clients by (auto simp: open_wf_def x'_def)
    next
      case False
      then have "rm_slots x role \<noteq> Some c" for role using wf(1) by (auto simp: room_wf_def)
      then have "x' = x" using False by (simp add: x'_def room_without_def Let_def remove1_idem)
      then show ?thesis using old by simp
    qed
  qed
  have inv': "rooms_inv J s'"
  proof (rule rooms_inv_local [where r = r, OF inv])
    show "r < sv_next_room s' \<and> rm_token (sv_room s' r) = t \<and> open_wf (sv_client s') (r \<in> J) (sv_room s' r)"
      if "map_of (sv_rooms s') t = Some r" for t
    proof -
      have "rm_token x = t" using inv s'(5) [OF that] by (auto simp: rooms_inv_def x_def)
      then show ?thesis using opened that r s' by (simp add: x'_def)
    qed
    show "liveness_wf (sv_client s') (sv_room s' r)" using wf(2) clients s' by (auto simp: liveness_wf_def)
    show "distinct (map fst (sv_rooms s'))" using inv by (simp add: s'_def rooms_inv_def distinct_delete)
  qed (use inv r wf' s' in \<open>auto simp: rooms_inv_def agree_off_def\<close>)
  have "rooms_inv J (closeClient c s')"
    by (rule drift_inv [OF inv' drift_close, where r = r])
      (use s' r clients wf(2) in \<open>auto simp: r_def closeClient_def liveness_wf_def open_wf_def\<close>)
  moreover have "leave c s = closeClient c s'"
    unfolding leave_eq Let_def s'_def x'_def x_def r_def upd_room_simps by (rule refl)
  ultimately show ?thesis by simp
qed

section \<open>Joining\<close>

lemma rooms_inv_mono: "rooms_inv J s \<Longrightarrow> J \<subseteq> J' \<Longrightarrow> rooms_inv J' s"
  unfolding rooms_inv_def using open_wf_mono [of "sv_client s" "r \<in> J" "sv_room s r" "r \<in> J'" for r] by blast

lemma rooms_inv_delete: "rooms_inv J s \<Longrightarrow> rooms_inv J (s\<lparr>sv_rooms := AList.delete token (sv_rooms s)\<rparr>)"
  by (auto simp: rooms_inv_def delete_conv distinct_delete split: if_splits)

lemma rooms_inv_delete_empty: "rooms_inv J s \<Longrightarrow> rooms_inv J (delete_empty token r s)"
  by (simp add: delete_empty_def rooms_inv_delete)

lemma add_room_keeps:
  assumes inv: "rooms_inv J s"
  shows "rooms_inv J (snd (add_room (new_room token p now ttl) s))"
proof -
  let ?r = "sv_next_room s"
  let ?x = "new_room token p now ttl"
  let ?s = "snd (add_room ?x s)"
  have x: "room_wf cl n ?r ?x" "liveness_wf cl ?x" "open_wf cl e ?x" "rm_token ?x = token" for cl n e
    by (auto simp: new_room_def room_wf_def liveness_wf_def open_wf_def)
  have s: "sv_room ?s = (sv_room s)(?r := ?x)" "sv_client ?s = sv_client s" "sv_next_room ?s = Suc ?r"
    "sv_next_client ?s = sv_next_client s" "sv_rooms ?s = AList.update token ?r (sv_rooms s)"
    by (auto simp: add_room_def x(4))
  have small: "map_of (sv_rooms s) t = Some r' \<Longrightarrow> r' < ?r" for t r' using inv by (auto simp: rooms_inv_def)
  have room: "cl_room (sv_client s c) < ?r" if "c < sv_next_client s" for c using inv that by (simp add: rooms_inv_def)
  show ?thesis
  proof (rule rooms_inv_local [where r = ?r, OF inv])
    show "?r < sv_next_room ?s \<and> rm_token (sv_room ?s ?r) = t \<and> open_wf (sv_client ?s) (?r \<in> J) (sv_room ?s ?r)"
      if "map_of (sv_rooms ?s) t = Some ?r" for t
      using that small [of t ?r] x s by (auto simp: update_conv split: if_splits)
    show "distinct (map fst (sv_rooms ?s))" using inv s(5) by (simp add: rooms_inv_def distinct_update)
    show "cl_room (sv_client ?s c) < sv_next_room ?s \<and> client_wf (sv_client ?s) (sv_next_client ?s) c"
      if "c < sv_next_client ?s" "c < sv_next_client s \<longrightarrow> cl_room (sv_client s c) = ?r" for c
      using that room [of c] s by auto
  qed (use x s in \<open>auto simp: agree_off_def update_conv split: if_splits\<close>)
qed

lemma open_room_outcome:
  "outcome (rooms_inv {}) (open_room ttl now token p) (\<lambda>r s. rooms_inv {} s \<and> map_of (sv_rooms s) token = Some r) (\<lambda>e s. False)"
proof -
  have add: "outcome (rooms_inv {}) (add_room (new_room token p now ttl))
      (\<lambda>r s. rooms_inv {} s \<and> map_of (sv_rooms s) token = Some r) (\<lambda>e s. False)"
    using add_room_keeps [of "{}" _ token p now ttl] by (auto simp: outcome_def add_room_def update_conv new_room_def)
  show ?thesis
    unfolding open_room_def
  proof (rule outcome_bind [OF outcome_gets [where Q = "\<lambda>found s. rooms_inv {} s \<and>
        found = (case map_of (sv_rooms s) token of Some r \<Rightarrow> Some (r, rm_expires (sv_room s r) < now) | None \<Rightarrow> None)"]])
    fix found :: "(nat \<times> bool) option"
    let ?P = "\<lambda>s. rooms_inv {} s \<and> found = (case map_of (sv_rooms s) token of Some r \<Rightarrow> Some (r, rm_expires (sv_room s r) < now) | None \<Rightarrow> None)"
    show "outcome ?P (case found of Some (r, expired) \<Rightarrow>
           if expired then bind_act (try_put (\<lambda>e. e) (expireRoomLocked token r)) (\<lambda>_. add_room (new_room token p now ttl)) else ret r
       | None \<Rightarrow> add_room (new_room token p now ttl)) (\<lambda>r s. rooms_inv {} s \<and> map_of (sv_rooms s) token = Some r) (\<lambda>e s. False)"
    proof (cases found)
      case None
      then show ?thesis by (auto intro: outcome_strengthen [OF add])
    next
      case (Some q)
      then obtain r expired where q: "found = Some (r, expired)" by (cases q) simp
      have m: "map_of (sv_rooms s) token = Some r" if "?P s" for s
        using that q by (auto split: option.splits)
      have "outcome ?P (try_put (\<lambda>e. e) (expireRoomLocked token r)) (\<lambda>_. rooms_inv {}) (\<lambda>e s. False)"
        using expireRoomLocked_keeps [OF _ m] by (intro outcome_try_put) force+
      from outcome_bind [OF this add] show ?thesis
        using q m by (auto intro!: outcome_ret)
    qed
  qed simp
qed

text \<open>A step on the room alone.\<close>

lemma upd_room_keeps:
  assumes inv: "rooms_inv J s" and m: "map_of (sv_rooms s) t = Some r"
    and "\<And>cl n. room_wf cl n r (sv_room s r) \<Longrightarrow> room_wf cl n r (f (sv_room s r))" and "rm_clients (f (sv_room s r)) = rm_clients (sv_room s r)"
    and "rm_token (f (sv_room s r)) = rm_token (sv_room s r)"
    and op: "open_wf (sv_client s) (r \<in> J) (sv_room s r) \<Longrightarrow> open_wf (sv_client s) (r \<in> J') (f (sv_room s r))" and "J \<subseteq> J'"
  shows "rooms_inv J' (upd_room r f s)"
proof (rule rooms_inv_local [where r = r, OF inv])
  have r: "r < sv_next_room s" "rm_token (sv_room s r) = t" "open_wf (sv_client s) (r \<in> J) (sv_room s r)"
    using inv m by (auto simp: rooms_inv_def)
  show "room_wf (sv_client (upd_room r f s)) (sv_next_client (upd_room r f s)) r (sv_room (upd_room r f s) r)"
    "liveness_wf (sv_client (upd_room r f s)) (sv_room (upd_room r f s) r)"
    using inv r(1) assms(3,4) by (auto simp: rooms_inv_def liveness_wf_def)
  show "r < sv_next_room (upd_room r f s) \<and> rm_token (sv_room (upd_room r f s) r) = t'
      \<and> open_wf (sv_client (upd_room r f s)) (r \<in> J') (sv_room (upd_room r f s) r)"
    if "map_of (sv_rooms (upd_room r f s)) t' = Some r" for t'
  proof -
    have "rm_token (sv_room s r) = t'" using that inv by (auto simp: rooms_inv_def)
    then show ?thesis using op r assms(5) by simp
  qed
qed (use inv assms(7) in \<open>auto simp: rooms_inv_def agree_off_def\<close>)

text \<open>A room into which a client with the role can go.\<close>

definition can_enter :: "nat \<Rightarrow> string \<Rightarrow> string \<Rightarrow> rooms_state \<Rightarrow> bool" where
  "can_enter r role token s \<longleftrightarrow> rooms_inv {r} s \<and> map_of (sv_rooms s) token = Some r \<and> isSignalRole role
     \<and> rm_slots (sv_room s r) role = None \<and> length (rm_clients (sv_room s r)) \<le> 1
     \<and> (\<forall>c\<in>set (rm_clients (sv_room s r)). cl_role (sv_client s c) \<noteq> '''')"

text \<open>What the loop over the clients of a room at the start of a generation leaves.\<close>

definition dropped :: "nat \<Rightarrow> nat list \<Rightarrow> rooms_state \<Rightarrow> rooms_state \<Rightarrow> bool" where
  "dropped r cs s s' \<longleftrightarrow> sv_rooms s' = sv_rooms s \<and> sv_next_room s' = sv_next_room s \<and> sv_next_client s' = sv_next_client s
     \<and> (\<forall>r'. r' \<noteq> r \<longrightarrow> sv_room s' r' = sv_room s r')
     \<and> (\<forall>c. sv_client s' c = (sv_client s c)\<lparr>cl_closed := cl_closed (sv_client s c) \<or> c \<in> set cs\<rparr>)
     \<and> (let x = sv_room s r; x' = sv_room s' r in
         rm_token x' = rm_token x \<and> rm_locked x' = rm_locked x \<and> rm_reconnectTokens x' = rm_reconnectTokens x
         \<and> rm_pending x' = rm_pending x \<and> rm_clients x' = fold remove1 cs (rm_clients x)
         \<and> (\<forall>role c. rm_slots x' role = Some c \<longrightarrow> rm_slots x role = Some c
              \<and> \<not> (c \<in> set cs \<and> cl_role (sv_client s c) = role \<and> role \<noteq> '''')))"

lemma fold_remove1_self [simp]: "fold remove1 xs xs = []"
  by (induction xs) auto

lemma dropped_Cons: "dropped r [c] s t \<Longrightarrow> dropped r cs t u \<Longrightarrow> dropped r (c # cs) s u"
  by (simp add: dropped_def Let_def disj_assoc) blast

lemma start_generation_loop:
  "dropped r cs s (fold (\<lambda>existing s.
         let role = cl_role (sv_client s existing) in
         closeClient existing (upd_room r (\<lambda>x. x\<lparr>rm_clients := remove1 existing (rm_clients x),
           rm_slots := (if role \<noteq> '''' \<and> rm_slots x role = Some existing then (rm_slots x)(role := None) else rm_slots x)\<rparr>) s)) cs s)"
  (is "dropped r cs s (fold ?g cs s)")
proof (induction cs arbitrary: s)
  case (Cons c cs)
  have "dropped r [c] s (?g c s)"
    by (simp add: dropped_def Let_def closeClient_def)
  then show ?case
    unfolding fold_Cons o_apply by (rule dropped_Cons [OF _ Cons])
qed (simp add: dropped_def Let_def)

lemma start_generation_keeps:
  assumes inv: "rooms_inv J s" and m: "map_of (sv_rooms s) token = Some r" and l: "rm_locked (sv_room s r)"
  shows "rooms_inv J (startReconnectGenerationLocked r s)"
    and "rm_clients (sv_room (startReconnectGenerationLocked r s) r) = []"
    and "rm_slots (sv_room (startReconnectGenerationLocked r s) r) = (\<lambda>_. None)"
    and "sv_rooms (startReconnectGenerationLocked r s) = sv_rooms s"
proof -
  let ?x = "sv_room s r"
  let ?s1 = "upd_room r (\<lambda>x. x\<lparr>rm_generation := rm_generation x + 1, rm_pending := [], rm_needsNewGeneration := False\<rparr>) s"
  let ?s = "startReconnectGenerationLocked r s"
  have d: "dropped r (rm_clients ?x) ?s1 ?s"
    unfolding startReconnectGenerationLocked_def by (rule start_generation_loop)
  have r: "r < sv_next_room s" "room_wf (sv_client s) (sv_next_client s) r ?x" "rm_token ?x = token"
    using inv m by (auto simp: rooms_inv_def)
  note w = room_wfD [OF r(2)]
  show c: "rm_clients (sv_room ?s r) = []" and "sv_rooms ?s = sv_rooms s" using d by (simp_all add: dropped_def Let_def)
  show slots: "rm_slots (sv_room ?s r) = (\<lambda>_. None)"
  proof
    fix role
    have "\<not> isSignalRole ''''" by (simp add: isSignalRole_def)
    moreover have "rm_slots ?x role = Some c \<and> \<not> (c \<in> set (rm_clients ?x) \<and> cl_role (sv_client s c) = role \<and> role \<noteq> '''')"
      if "rm_slots (sv_room ?s r) role = Some c" for c
      using d that by (simp add: dropped_def Let_def)
    ultimately show "rm_slots (sv_room ?s r) role = None"
      using w(6) by (metis option.exhaust)
  qed
  show "rooms_inv J ?s"
  proof (rule rooms_inv_local [where r = r, OF inv])
    show "room_wf (sv_client ?s) (sv_next_client ?s) r (sv_room ?s r)"
      by (rule room_wfI) (use d c slots w(7) in \<open>auto simp: dropped_def Let_def\<close>)
    show "liveness_wf (sv_client ?s) (sv_room ?s r)" using c by (simp add: liveness_wf_def)
    show "r < sv_next_room ?s \<and> rm_token (sv_room ?s r) = t \<and> open_wf (sv_client ?s) (r \<in> J) (sv_room ?s r)"
      if "map_of (sv_rooms ?s) t = Some r" for t
    proof -
      have "t = token" using that d inv r(3) by (auto simp: dropped_def rooms_inv_def)
      moreover have "rm_token (sv_room ?s r) = rm_token ?x" "rm_locked (sv_room ?s r) = rm_locked ?x" "sv_next_room ?s = sv_next_room s"
        using d by (simp_all add: dropped_def Let_def)
      ultimately show ?thesis using c l r(1,3) by (simp add: open_wf_def)
    qed
    have cl: "sv_client ?s e = (sv_client s e)\<lparr>cl_closed := cl_closed (sv_client s e) \<or> e \<in> set (rm_clients ?x)\<rparr>" for e
      using d by (simp add: dropped_def)
    have "e \<notin> set (rm_clients ?x)" if "cl_room (sv_client s e) \<noteq> r" for e
      using w(4) [of e] that by (auto simp: member_wf_def)
    then show "agree_off r (sv_next_client s) (sv_client s) (sv_client ?s)"
      using cl by (simp add: agree_off_def)
    show "cl_room (sv_client ?s e) < sv_next_room ?s \<and> client_wf (sv_client ?s) (sv_next_client ?s) e"
      if "e < sv_next_client ?s" for e
    proof -
      have "sv_next_client ?s = sv_next_client s" "sv_next_room ?s = sv_next_room s" using d by (simp_all add: dropped_def)
      moreover have "same_peer (sv_client ?s) k e = same_peer (sv_client s) k e" for k by (simp add: same_peer_def cl)
      ultimately show ?thesis using that inv by (simp add: rooms_inv_def client_wf_def cl)
    qed
  qed (use d inv in \<open>auto simp: dropped_def rooms_inv_def\<close>)
qed

end
