(* ===== verification/Signal_Join.thy ===== *)
theory Signal_Join
  imports Signal_Safety
begin

text \<open>
  Joining a signaling room keeps the invariant and never waits for a queue, and the properties of
  every reachable state of the rooms.
\<close>

definition clean_error :: "signal_error \<Rightarrow> rooms_state \<Rightarrow> bool" where
  "clean_error e s \<longleftrightarrow> e \<noteq> BlockedSend \<and> e \<noteq> SendOnClosed \<and> rooms_inv {} s"

section \<open>Admission\<close>

lemma admit_locked_outcome:
  "outcome (\<lambda>s. rooms_inv {} s \<and> map_of (sv_rooms s) token = Some r \<and> rm_locked (sv_room s r) \<and> isSignalRole role)
     (admit_locked r role reconnectToken) (\<lambda>_. can_enter r role token) clean_error"
proof (rule outcome_pre, elim conjE)
  fix s :: rooms_state
  let ?x = "sv_room s r"
  assume inv: "rooms_inv {} s" and m: "map_of (sv_rooms s) token = Some r" and l: "rm_locked ?x" and role: "isSignalRole role"
  have w: "room_wf (sv_client s) (sv_next_client s) r ?x" "open_wf (sv_client s) False ?x"
    using inv m by (auto simp: rooms_inv_def)
  have enter: "can_enter r role token (if rm_needsNewGeneration ?x then startReconnectGenerationLocked r s else s)"
    if "rm_slots ?x role = None" and "rm_reconnectTokens ?x role \<noteq> ''''"
  proof (cases "rm_needsNewGeneration ?x")
    case True
    then show ?thesis
      using start_generation_keeps [OF inv m l] rooms_inv_mono [of "{}" _ "{r}"] m role by (simp add: can_enter_def)
  next
    case False
    have "length (rm_clients ?x) \<noteq> 2" using w(2) False l that by (auto simp: open_wf_def)
    then have "length (rm_clients ?x) \<le> 1" using room_wfD(2) [OF w(1)] by linarith
    moreover have "cl_role (sv_client s c) \<noteq> ''''" if "c \<in> set (rm_clients ?x)" for c
      using w(2) that \<open>rm_reconnectTokens ?x role \<noteq> ''''\<close> by (auto simp: open_wf_def)
    ultimately show ?thesis
      using False rooms_inv_mono [OF inv, of "{r}"] m role that by (simp add: can_enter_def)
  qed
  show "outcome ((=) s) (admit_locked r role reconnectToken) (\<lambda>_. can_enter r role token) clean_error"
    using enter inv
    by (auto simp: outcome_def admit_locked_def bind_act_def gets_def guard_act_def ret_def throw_def modify_def clean_error_def)
qed

lemma give_role_keeps:
  assumes inv: "rooms_inv {} s" and m: "map_of (sv_rooms s) token = Some r" and u: "\<not> rm_locked (sv_room s r)"
    and role: "isSignalRole role" and slot: "rm_slots (sv_room s r) role = None"
  shows "rooms_inv {} (give_role r role s)" and "can_enter r role token (give_role r role s)"
proof -
  let ?x = "sv_room s r"
  let ?o = "oppositeSignalRole role"
  have r: "r < sv_next_room s" "rm_token ?x = token" "room_wf (sv_client s) (sv_next_client s) r ?x" "open_wf (sv_client s) False ?x"
    using inv m by (auto simp: rooms_inv_def)
  note w = room_wfD [OF r(3)]
  have opp: "isSignalRole ?o" "?o \<noteq> role" "?o \<noteq> ''''" using role by (auto simp: isSignalRole_def oppositeSignalRole_def)
  have len: "length (rm_clients ?x) \<le> 1" using r(4) u by (simp add: open_wf_def)
  have "rooms_inv {} (give_role r role s) \<and> can_enter r role token (give_role r role s)"
  proof (cases "\<exists>e. rm_clients ?x = [e] \<and> cl_role (sv_client s e) = ''''")
    case False
    then have "filter (\<lambda>e. cl_role (sv_client s e) = '''') (rm_clients ?x) = []"
      using len by (cases "rm_clients ?x") auto
    moreover have "\<forall>e\<in>set (rm_clients ?x). cl_role (sv_client s e) \<noteq> ''''"
      using False len by (cases "rm_clients ?x") auto
    ultimately show ?thesis
      using inv m role slot len rooms_inv_mono [OF inv, of "{r}"] by (simp add: give_role_def can_enter_def)
  next
    case True
    then obtain e where e: "rm_clients ?x = [e]" "cl_role (sv_client s e) = ''''" by blast
    have none: "rm_slots ?x \<rho> = None" for \<rho>
      using w(6) [of \<rho>] e by (cases "rm_slots ?x \<rho>") (auto simp: isSignalRole_def)
    let ?s = "give_role r role s"
    have s: "sv_client ?s = (sv_client s)(e := (sv_client s e)\<lparr>cl_role := ?o\<rparr>)"
      "sv_room ?s = (sv_room s)(r := ?x\<lparr>rm_slots := (rm_slots ?x)(?o \<mapsto> e)\<rparr>)" "sv_rooms ?s = sv_rooms s"
      "sv_next_room ?s = sv_next_room s" "sv_next_client ?s = sv_next_client s"
      using e by (simp_all add: give_role_def)
    have me: "member_wf (sv_client s) (sv_next_client s) r ?x e" using w(4) e by simp
    have "rooms_inv {} ?s"
    proof (rule rooms_inv_local [where r = r, OF inv])
      show "room_wf (sv_client ?s) (sv_next_client ?s) r (sv_room ?s r)"
      proof (rule room_wfI)
        show "origin_wf (sv_client ?s) (sv_next_client ?s) r (sv_room ?s r) (fst p)" if "p \<in> set (rm_pending (sv_room ?s r))" for p
          using that w(5) [of p] by (auto simp: s origin_wf_def)
      qed (use w me e opp none in \<open>auto simp: s member_wf_def split: if_splits\<close>)
      show "liveness_wf (sv_client ?s) (sv_room ?s r)" using e by (auto simp: s liveness_wf_def)
      show "agree_off r (sv_next_client s) (sv_client s) (sv_client ?s)" using me by (auto simp: s agree_off_def member_wf_def)
      show "r < sv_next_room ?s \<and> rm_token (sv_room ?s r) = t \<and> open_wf (sv_client ?s) (r \<in> {}) (sv_room ?s r)"
        if "map_of (sv_rooms ?s) t = Some r" for t
      proof -
        have "t = token" using that inv r(2) by (auto simp: s rooms_inv_def)
        then show ?thesis using r e opp u by (auto simp: s open_wf_def)
      qed
      show "cl_room (sv_client ?s c) < sv_next_room ?s \<and> client_wf (sv_client ?s) (sv_next_client ?s) c"
        if "c < sv_next_client ?s" for c
        using that inv by (auto simp: s rooms_inv_def client_wf_def same_peer_def)
    qed (use inv in \<open>auto simp: s rooms_inv_def\<close>)
    then show ?thesis
      using rooms_inv_mono [of "{}" ?s "{r}"] m role slot e opp by (simp add: can_enter_def s)
  qed
  then show "rooms_inv {} (give_role r role s)" "can_enter r role token (give_role r role s)" by auto
qed

lemma give_role_locked [simp]: "rm_locked (sv_room (give_role r role s) r) = rm_locked (sv_room s r)"
  by (simp add: give_role_def split: list.splits)

lemma can_enter_token:
  assumes e: "can_enter r role token s" and u: "\<not> rm_locked (sv_room s r)"
  shows "can_enter r role token (upd_room r (\<lambda>x. x\<lparr>rm_reconnectTokens := (rm_reconnectTokens x)(role := g)\<rparr>) s)"
proof -
  have "rooms_inv {r} (upd_room r (\<lambda>x. x\<lparr>rm_reconnectTokens := (rm_reconnectTokens x)(role := g)\<rparr>) s)"
    by (rule upd_room_keeps [of "{r}" _ token])
      (use e u in \<open>auto simp: can_enter_def room_wf_def member_wf_def origin_wf_def open_wf_def\<close>)
  with e show ?thesis by (simp add: can_enter_def)
qed

lemma admit_unlocked_outcome:
  "outcome (\<lambda>s. rooms_inv {} s \<and> map_of (sv_rooms s) token = Some r \<and> \<not> rm_locked (sv_room s r) \<and> isSignalRole role)
     (admit_unlocked token r role reconnectToken rnd) (\<lambda>_. can_enter r role token) clean_error"
proof (rule outcome_pre, elim conjE)
  fix s :: rooms_state
  assume inv: "rooms_inv {} s" and m: "map_of (sv_rooms s) token = Some r" and u: "\<not> rm_locked (sv_room s r)" and role: "isSignalRole role"
  note give = give_role_keeps [OF inv m u role]
  have gen: "generateReconnectToken rnd = Inl e \<Longrightarrow> e = TokenGeneration" for e
    by (auto simp: generateReconnectToken_def split: option.splits)
  show "outcome ((=) s) (admit_unlocked token r role reconnectToken rnd) (\<lambda>_. can_enter r role token) clean_error"
    using inv u give gen can_enter_token [OF give(2)] rooms_inv_delete_empty [OF inv] rooms_inv_delete_empty [OF give(1)]
    by (auto simp: outcome_def admit_unlocked_def bind_act_def gets_def guard_act_def ret_def throw_def modify_def clean_error_def
        split: sum.splits)
qed

section \<open>Entering\<close>

abbreviation replayed :: "(nat \<times> string) list \<Rightarrow> signal list" where
  "replayed ms \<equiv> map (\<lambda>(k, m). Payload k m) ms"

lemma replay_loop:
  assumes "\<not> cl_closed (sv_client s c)" and "length (cl_send (sv_client s c)) + length ms \<le> signalSendQueueCapacity"
  shows "\<exists>s'. for_each (\<lambda>(k, msg). try_put (\<lambda>e. e) (push c (Payload k msg))) ms s = (Inr (), s')
    \<and> sv_room s' = sv_room s \<and> sv_rooms s' = sv_rooms s \<and> sv_next_room s' = sv_next_room s \<and> sv_next_client s' = sv_next_client s
    \<and> sv_client s' = (sv_client s)(c := (sv_client s c)\<lparr>cl_send := cl_send (sv_client s c) @ replayed ms\<rparr>)"
  using assms
proof (induction ms arbitrary: s)
  case (Cons q ms)
  obtain k m where q: "q = (k, m)" by (cases q)
  let ?s = "upd_client c (\<lambda>x. x\<lparr>cl_send := cl_send x @ [Payload k m]\<rparr>) s"
  have "push c (Payload k m) s = Inr ?s" using Cons.prems by (simp add: push_def)
  then show ?case
    using Cons.IH [of ?s] Cons.prems q by (auto simp: bind_act_def try_put_def fun_eq_iff)
qed (simp add: ret_def)

text \<open>The state after a client \<open>c\<close> with the role has entered the room \<open>r\<close> of \<open>s\<close>.\<close>

definition entered :: "nat \<Rightarrow> string \<Rightarrow> rooms_state \<Rightarrow> rooms_state \<Rightarrow> bool" where
  "entered r role s s' \<longleftrightarrow>
     (let c = sv_next_client s; x = sv_room s r; x' = sv_room s' r; k = sv_client s' c in
      sv_rooms s' = sv_rooms s \<and> sv_next_room s' = sv_next_room s \<and> sv_next_client s' = Suc c
      \<and> (\<forall>r'. r' \<noteq> r \<longrightarrow> sv_room s' r' = sv_room s r')
      \<and> rm_clients x' = rm_clients x @ [c] \<and> rm_token x' = rm_token x \<and> rm_pending x' = rm_pending x
      \<and> rm_generation x' = rm_generation x \<and> rm_reconnectTokens x' = rm_reconnectTokens x
      \<and> rm_slots x' = (if role = '''' then rm_slots x else (rm_slots x)(role \<mapsto> c))
      \<and> rm_locked x' = (rm_locked x \<or> rm_clients x \<noteq> [])
      \<and> cl_room k = r \<and> cl_role k = role \<and> cl_generation k = rm_generation x \<and> \<not> cl_closed k
      \<and> (\<exists>first. cl_send k = first @ replayed (rm_pending x) \<and> length first \<le> 1 \<and> (\<forall>i m. Payload i m \<notin> set first))
      \<and> (\<forall>e < c. \<exists>more. sv_client s' e = (sv_client s e)\<lparr>cl_send := cl_send (sv_client s e) @ more\<rparr>
           \<and> (\<forall>i m. Payload i m \<notin> set more)
           \<and> (more = [] \<or> e \<in> set (rm_clients x) \<and> length (cl_send (sv_client s e) @ more) \<le> signalSendQueueCapacity)))"

lemma enteredD:
  assumes "entered r role s s'"
  shows "sv_rooms s' = sv_rooms s" "sv_next_room s' = sv_next_room s" "sv_next_client s' = Suc (sv_next_client s)"
    "r' \<noteq> r \<Longrightarrow> sv_room s' r' = sv_room s r'" "rm_clients (sv_room s' r) = rm_clients (sv_room s r) @ [sv_next_client s]"
    "rm_token (sv_room s' r) = rm_token (sv_room s r)" "rm_pending (sv_room s' r) = rm_pending (sv_room s r)"
    "rm_generation (sv_room s' r) = rm_generation (sv_room s r)" "rm_reconnectTokens (sv_room s' r) = rm_reconnectTokens (sv_room s r)"
    "rm_slots (sv_room s' r) = (if role = '''' then rm_slots (sv_room s r) else (rm_slots (sv_room s r))(role \<mapsto> sv_next_client s))"
    "rm_locked (sv_room s' r) = (rm_locked (sv_room s r) \<or> rm_clients (sv_room s r) \<noteq> [])"
    "cl_room (sv_client s' (sv_next_client s)) = r" "cl_role (sv_client s' (sv_next_client s)) = role"
    "cl_generation (sv_client s' (sv_next_client s)) = rm_generation (sv_room s r)" "\<not> cl_closed (sv_client s' (sv_next_client s))"
    "\<exists>first. cl_send (sv_client s' (sv_next_client s)) = first @ replayed (rm_pending (sv_room s r)) \<and> length first \<le> 1
       \<and> (\<forall>i m. Payload i m \<notin> set first)"
    "e < sv_next_client s \<Longrightarrow> \<exists>more. sv_client s' e = (sv_client s e)\<lparr>cl_send := cl_send (sv_client s e) @ more\<rparr>
       \<and> (\<forall>i m. Payload i m \<notin> set more)
       \<and> (more = [] \<or> e \<in> set (rm_clients (sv_room s r)) \<and> length (cl_send (sv_client s e) @ more) \<le> signalSendQueueCapacity)"
  using assms unfolding entered_def Let_def by simp_all

lemma entered_client_wf:
  assumes e: "entered r role s s'" and inv: "rooms_inv J s" and r: "r < sv_next_room s" and c: "c < sv_next_client s'"
  shows "cl_room (sv_client s' c) < sv_next_room s' \<and> client_wf (sv_client s') (sv_next_client s') c"
proof -
  have w: "room_wf (sv_client s) (sv_next_client s) r (sv_room s r)" using inv r by (simp add: rooms_inv_def)
  note n = enteredD(2,3) [OF e]
  have same: "cl_room (sv_client s' k) = cl_room (sv_client s k)" "cl_generation (sv_client s' k) = cl_generation (sv_client s k)"
    if "k < sv_next_client s" for k
    using enteredD(17) [OF e that] by auto
  show ?thesis
  proof (cases "c = sv_next_client s")
    case True
    from enteredD(16) [OF e] obtain first where k: "cl_send (sv_client s' c) = first @ replayed (rm_pending (sv_room s r))" "length first \<le> 1"
        "\<forall>i m. Payload i m \<notin> set first" "cl_room (sv_client s' c) = r" "cl_generation (sv_client s' c) = rm_generation (sv_room s r)"
      using True enteredD(12,14) [OF e] by auto
    have "p \<in> set (rm_pending (sv_room s r)) \<Longrightarrow> fst p < sv_next_client s \<and> same_peer (sv_client s') (fst p) c" for p
      using room_wfD(5) [OF w, of p] same k by (simp add: origin_wf_def same_peer_def)
    then show ?thesis
      using k r n True room_wfD(3) [OF w] by (fastforce simp: client_wf_def signalSendQueueCapacity_def)
  next
    case False
    then have c': "c < sv_next_client s" using c n by simp
    then have old: "cl_room (sv_client s c) < sv_next_room s" "client_wf (sv_client s) (sv_next_client s) c"
      using inv by (auto simp: rooms_inv_def)
    from enteredD(17) [OF e c'] obtain more where k: "sv_client s' c = (sv_client s c)\<lparr>cl_send := cl_send (sv_client s c) @ more\<rparr>"
        "\<forall>i m. Payload i m \<notin> set more" "more = [] \<or> length (cl_send (sv_client s c) @ more) \<le> signalSendQueueCapacity"
      by blast
    have "k < Suc (sv_next_client s) \<and> k \<noteq> c \<and> same_peer (sv_client s') k c" if "Payload k m \<in> set (cl_send (sv_client s' c))" for k m
      using that k old(2) same [of k] same [OF c'] by (auto simp: client_wf_def same_peer_def)
    moreover have "length (cl_send (sv_client s' c)) \<le> signalSendQueueCapacity" using k old(2) by (auto simp: client_wf_def)
    ultimately show ?thesis using old(1) same [OF c'] n by (simp add: client_wf_def)
  qed
qed

lemma no_more: "\<exists>more. k = k\<lparr>cl_send := cl_send k @ more\<rparr> \<and> (\<forall>i m. Payload i m \<notin> set more) \<and> (more = [] \<or> Q more)"
  by (rule exI [of _ "[]"]) simp

lemma entered_keeps:
  assumes inv: "rooms_inv {r} s" and m: "map_of (sv_rooms s) token = Some r" and e: "entered r role s s'"
    and len: "length (rm_clients (sv_room s r)) \<le> 1"
    and role: "role = '''' \<or> isSignalRole role \<and> rm_slots (sv_room s r) role = None"
    and tokens: "role \<noteq> '''' \<and> (\<forall>c\<in>set (rm_clients (sv_room s r)). cl_role (sv_client s c) \<noteq> '''')
      \<or> (\<forall>\<rho>. rm_reconnectTokens (sv_room s r) \<rho> = '''')"
  shows "rooms_inv {} s'"
proof -
  let ?x = "sv_room s r"
  let ?y = "sv_room s' r"
  let ?c = "sv_next_client s"
  note d = enteredD [OF e]
  have r: "r < sv_next_room s" "rm_token ?x = token" "room_wf (sv_client s) ?c r ?x" "open_wf (sv_client s) (r \<in> {r}) ?x"
    using inv m unfolding rooms_inv_def by blast+
  note w = room_wfD [OF r(3)]
  have new: "a < ?c" if "a \<in> set (rm_clients ?x)" for a using w(4) [OF that] by (simp add: member_wf_def)
  then have fresh: "?c \<notin> set (rm_clients ?x)" by blast
  have old: "cl_room (sv_client s' k) = cl_room (sv_client s k) \<and> cl_generation (sv_client s' k) = cl_generation (sv_client s k)
      \<and> cl_role (sv_client s' k) = cl_role (sv_client s k) \<and> cl_closed (sv_client s' k) = cl_closed (sv_client s k)" if "k < ?c" for k
    using d(17) [OF that] by auto
  have members: "member_wf (sv_client s') (Suc ?c) r ?y a" if "a \<in> set (rm_clients ?x)" for a
    using w(4) [OF that] old [OF new [OF that]] role new [OF that] by (auto simp: member_wf_def d(8,10))
  have wf: "room_wf (sv_client s') (Suc ?c) r ?y"
  proof (rule room_wfI)
    show "member_wf (sv_client s') (Suc ?c) r ?y a" if "a \<in> set (rm_clients ?y)" for a
      using that members role by (auto simp: d(5)) (auto simp: member_wf_def d)
    show "origin_wf (sv_client s') (Suc ?c) r ?y (fst p)" if "p \<in> set (rm_pending ?y)" for p
      using that w(5) [of p] old [of "fst p"] by (auto simp: d(7,8) origin_wf_def)
    show "a \<in> set (rm_clients ?y) \<and> cl_role (sv_client s' a) = \<rho> \<and> isSignalRole \<rho>" if "rm_slots ?y \<rho> = Some a" for \<rho> a
      using that w(6) [of \<rho> a] role old [of a] new [of a] by (auto simp: d(5,10,13) split: if_splits)
  qed (use w fresh len in \<open>auto simp: d(5,7,9)\<close>)
  have opened: "open_wf (sv_client s') False ?y"
  proof -
    have closed: "\<not> cl_closed (sv_client s' a)" if "a \<in> set (rm_clients ?y)" for a
      using that r(4) old [of a] new [of a] d(15) by (auto simp: d(5) open_wf_def)
    have fresh: "rm_clients ?x = [] \<and> length (cl_send (sv_client s' ?c)) \<le> 1" if "\<not> rm_locked ?y"
      using that r(4) d(16) by (auto simp: d(11) open_wf_def)
    have names: "\<forall>\<rho>. rm_reconnectTokens ?x \<rho> = ''''" if "a \<in> set (rm_clients ?y)" "cl_role (sv_client s' a) = ''''" for a
      using that tokens old [of a] new [of a] d(13) by (auto simp: d(5))
    have both: "rm_slots ?y \<rho> \<noteq> None" if "length (rm_clients ?y) = 2" "rm_reconnectTokens ?x \<rho> \<noteq> ''''" for \<rho>
    proof -
      have "length (rm_clients ?x) = 1" using that(1) by (simp add: d(5))
      then obtain a where a: "rm_clients ?x = [a]" by (auto simp: length_Suc_conv)
      have t: "role \<noteq> ''''" "cl_role (sv_client s a) \<noteq> ''''" using tokens that(2) a by auto
      have "isSignalRole \<rho>" "isSignalRole role" "rm_slots ?x role = None" using w(7) that(2) role t by auto
      moreover have "isSignalRole (cl_role (sv_client s a))" "rm_slots ?x (cl_role (sv_client s a)) = Some a"
        using w(4) [of a] a t by (auto simp: member_wf_def)
      ultimately show ?thesis using t by (auto simp: d(10) isSignalRole_def)
    qed
    show ?thesis
      unfolding open_wf_def d(7,9) using closed fresh names both by (auto simp: d(5))
  qed
  show ?thesis
  proof (rule rooms_inv_local [where r = r, OF inv])
    show "agree_off r (sv_next_client s) (sv_client s) (sv_client s')"
      unfolding agree_off_def
    proof (intro allI impI)
      fix k assume k: "k < ?c"
      have "sv_client s' k = sv_client s k" if "cl_room (sv_client s k) \<noteq> r"
        using d(17) [OF k] that w(4) [of k] by (auto simp: member_wf_def)
      then show "cl_room (sv_client s' k) = cl_room (sv_client s k) \<and> cl_generation (sv_client s' k) = cl_generation (sv_client s k)
          \<and> (cl_room (sv_client s k) \<noteq> r \<longrightarrow> sv_client s' k = sv_client s k)" using old [OF k] by simp
    qed
    show "liveness_wf (sv_client s') (sv_room s' r)" using opened by (simp add: open_wf_def liveness_wf_def)
    show "r < sv_next_room s' \<and> rm_token (sv_room s' r) = t \<and> open_wf (sv_client s') (r \<in> {}) (sv_room s' r)"
      if "map_of (sv_rooms s') t = Some r" for t
    proof -
      have "t = token" using that inv r(2) by (auto simp: d(1) rooms_inv_def)
      then show ?thesis using r opened by (simp add: d(2,6))
    qed
  qed (use inv wf d entered_client_wf [OF e inv r(1)] in \<open>auto simp: rooms_inv_def\<close>)
qed

lemma enter_role_outcome: "outcome (can_enter r role token) (enter_role r role) (\<lambda>_. rooms_inv {}) clean_error"
proof (rule outcome_pre)
  fix s assume c: "can_enter r role token s"
  let ?x = "sv_room s r"
  have pend: "length (rm_pending ?x) \<le> maxPendingSignals"
    using c room_wfD(3) [of "sv_client s" "sv_next_client s" r ?x] by (auto simp: can_enter_def rooms_inv_def)
  have add: "add_client k s = (Inr (sv_next_client s), snd (add_client k s))" for k
    by (simp add: add_client_def)
  define s1 where "s1 = upd_room r (\<lambda>x. x\<lparr>rm_slots := (rm_slots x)(role \<mapsto> sv_next_client s)\<rparr>) (snd (add_client (new_client r role True (rm_generation ?x)) s))"
  define s2 where "s2 = (if length (rm_clients (sv_room s1 r)) = 2
        then upd_room r (\<lambda>x. x\<lparr>rm_locked := True, rm_reconnectEnabled := rm_reconnectEnabled x \<or> roomHasTwoExplicitRoles s1 x\<rparr>) s1 else s1)"
  define ready where "ready = signalReadyPayload role (length (rm_clients (sv_room s2 r)) < 2 \<or> rm_reconnectEnabled (sv_room s2 r))
        (rm_reconnectTokens (sv_room s2 r) role) (rm_generation (sv_room s2 r))"
  define s3 where "s3 = upd_client (sv_next_client s) (\<lambda>k. k\<lparr>cl_send := cl_send k @ [ready]\<rparr>) s2"
  have s2: "sv_client s2 = (sv_client s)(sv_next_client s := new_client r role True (rm_generation ?x))"
    "rm_pending (sv_room s2 r) = rm_pending ?x"
    by (auto simp: s2_def s1_def add_client_def new_client_def)
  have push: "push (sv_next_client s) ready s2 = Inr s3"
    by (simp add: push_def s3_def s2 new_client_def signalSendQueueCapacity_def maxPendingSignals_def)
  have "\<exists>s'. for_each (\<lambda>(k, msg). try_put (\<lambda>e. e) (push (sv_next_client s) (Payload k msg))) (rm_pending (sv_room s3 r)) s3 = (Inr (), s')
      \<and> sv_room s' = sv_room s3 \<and> sv_rooms s' = sv_rooms s3 \<and> sv_next_room s' = sv_next_room s3 \<and> sv_next_client s' = sv_next_client s3
      \<and> sv_client s' = (sv_client s3)(sv_next_client s := (sv_client s3 (sv_next_client s))\<lparr>cl_send := cl_send (sv_client s3 (sv_next_client s)) @ replayed (rm_pending (sv_room s3 r))\<rparr>)"
    by (rule replay_loop) (use pend in \<open>simp_all add: s3_def s2 new_client_def signalSendQueueCapacity_def\<close>)
  then obtain s' where replay: "replay_pending r (sv_next_client s) s3 = (Inr (), s')"
    and s': "sv_room s' = sv_room s3" "sv_rooms s' = sv_rooms s3" "sv_next_room s' = sv_next_room s3" "sv_next_client s' = sv_next_client s3"
      "sv_client s' = (sv_client s3)(sv_next_client s := (sv_client s3 (sv_next_client s))\<lparr>cl_send := cl_send (sv_client s3 (sv_next_client s)) @ replayed (rm_pending (sv_room s3 r))\<rparr>)"
    by (auto simp: replay_pending_def bind_act_def gets_def)
  have run: "enter_role r role s = (Inr (sv_next_client s), s')"
    unfolding enter_role_def
    by (rule bind_run, rule gets_run, rule bind_run, rule add, rule bind_run, rule modify_run, fold s1_def,
        rule bind_run, rule modify_run, fold s2_def, rule bind_run, rule gets_run, fold ready_def,
        rule bind_run, rule try_put_run, rule push, rule bind_run, rule replay, simp add: ret_def)
  have role: "isSignalRole role" "role \<noteq> ''''" "length (rm_clients ?x) \<le> 1" using c by (auto simp: can_enter_def isSignalRole_def)
  have "length (rm_clients ?x) = 1 \<longleftrightarrow> rm_clients ?x \<noteq> []" using role(3) by (cases "rm_clients ?x") auto
  then have ent: "entered r role s s'"
    using role by (auto simp: entered_def Let_def s' s3_def s2_def s1_def add_client_def new_client_def ready_def signalReadyPayload_def
        intro!: no_more)
  show "outcome ((=) s) (enter_role r role) (\<lambda>_. rooms_inv {}) clean_error"
    using run role entered_keeps [of r s token, OF _ _ ent] c by (simp add: outcome_def can_enter_def)
qed

section \<open>Joining without a role\<close>

definition legacy_ready :: "64 word \<Rightarrow> nat \<Rightarrow> unit room_act" where
  "legacy_ready generation existing = bind_act (gets (\<lambda>s. sv_client s existing)) (\<lambda>k.
     if cl_explicitRole k
     then try_put (\<lambda>e. e) (push existing (signalReadyPayload (cl_role k) False '''' generation))
     else ret ())"

lemma legacy_ready_run:
  assumes "cl_explicitRole (sv_client s a) \<Longrightarrow> \<not> cl_closed (sv_client s a) \<and> length (cl_send (sv_client s a)) \<le> 1"
  shows "\<exists>s' more. legacy_ready g a s = (Inr (), s') \<and> sv_room s' = sv_room s \<and> sv_rooms s' = sv_rooms s
    \<and> sv_next_room s' = sv_next_room s \<and> sv_next_client s' = sv_next_client s
    \<and> sv_client s' = (sv_client s)(a := (sv_client s a)\<lparr>cl_send := cl_send (sv_client s a) @ more\<rparr>)
    \<and> (\<forall>i m. Payload i m \<notin> set more) \<and> length more \<le> 1"
proof (cases "cl_explicitRole (sv_client s a)")
  case True
  let ?m = "signalReadyPayload (cl_role (sv_client s a)) False '''' g"
  have "push a ?m s = Inr (upd_client a (\<lambda>k. k\<lparr>cl_send := cl_send k @ [?m]\<rparr>) s)"
    using assms True by (simp add: push_def signalSendQueueCapacity_def maxPendingSignals_def)
  then show ?thesis
    using True by (intro exI [of _ "upd_client a (\<lambda>k. k\<lparr>cl_send := cl_send k @ [?m]\<rparr>) s"] exI [of _ "[?m]"])
      (simp add: legacy_ready_def bind_act_def gets_def try_put_def signalReadyPayload_def)
next
  case False
  then show ?thesis
    by (intro exI [of _ s] exI [of _ "[]"]) (simp add: legacy_ready_def bind_act_def gets_def ret_def)
qed

lemma joinLegacyLocked_eq:
  "joinLegacyLocked r =
     bind_act (gets (\<lambda>s. sv_room s r)) (\<lambda>x.
     bind_act (guard_act (\<not> rm_locked x) RoomLocked) (\<lambda>_.
     bind_act (guard_act (length (rm_clients x) < 2) RoomFull) (\<lambda>_.
     bind_act (gets (\<lambda>s. case filter (\<lambda>e. cl_role (sv_client s e) \<noteq> '''') (rm_clients x) of
           [] \<Rightarrow> '''' | e # _ \<Rightarrow> oppositeSignalRole (cl_role (sv_client s e)))) (\<lambda>role.
     bind_act (add_client (new_client r role False (rm_generation x))) (\<lambda>c.
     bind_act (modify (upd_room r (\<lambda>x. if role = '''' then x else x\<lparr>rm_slots := (rm_slots x)(role \<mapsto> c)\<rparr>))) (\<lambda>_.
     bind_act (if Suc (length (rm_clients x)) = 2
        then bind_act (modify (upd_room r (\<lambda>x. x\<lparr>rm_locked := True\<rparr>))) (\<lambda>_.
             for_each (legacy_ready (rm_generation x)) (rm_clients x @ [c]))
        else ret ()) (\<lambda>_.
     bind_act (replay_pending r c) (\<lambda>_.
     ret c))))))))"
  unfolding joinLegacyLocked_def legacy_ready_def by (rule refl)

lemma joinLegacyLocked_enters:
  assumes u: "\<not> rm_locked (sv_room s r)" and len: "length (rm_clients (sv_room s r)) \<le> 1"
    and pend: "length (rm_pending (sv_room s r)) \<le> maxPendingSignals"
    and mem: "\<And>a. a \<in> set (rm_clients (sv_room s r)) \<Longrightarrow>
      a < sv_next_client s \<and> \<not> cl_closed (sv_client s a) \<and> length (cl_send (sv_client s a)) \<le> 1"
    and role: "role = (case filter (\<lambda>e. cl_role (sv_client s e) \<noteq> '''') (rm_clients (sv_room s r)) of
           [] \<Rightarrow> '''' | e # _ \<Rightarrow> oppositeSignalRole (cl_role (sv_client s e)))"
  shows "\<exists>s'. joinLegacyLocked r s = (Inr (sv_next_client s), s') \<and> entered r role s s'"
proof -
  let ?x = "sv_room s r"
  let ?c = "sv_next_client s"
  let ?k = "new_client r role False (rm_generation ?x)"
  have add: "add_client ?k s = (Inr ?c, snd (add_client ?k s))" by (simp add: add_client_def)
  define s1 where "s1 = upd_room r (\<lambda>x. if role = '''' then x else x\<lparr>rm_slots := (rm_slots x)(role \<mapsto> ?c)\<rparr>) (snd (add_client ?k s))"
  have c1: "sv_client s1 = (sv_client s)(?c := ?k)" by (simp add: s1_def add_client_def)
  have "\<exists>s3 more. (if Suc (length (rm_clients ?x)) = 2
        then bind_act (modify (upd_room r (\<lambda>x. x\<lparr>rm_locked := True\<rparr>))) (\<lambda>_.
             for_each (legacy_ready (rm_generation ?x)) (rm_clients ?x @ [?c]))
        else ret ()) s1 = (Inr (), s3)
      \<and> sv_room s3 = (sv_room s1)(r := (sv_room s1 r)\<lparr>rm_locked := rm_clients ?x \<noteq> []\<rparr>) \<and> sv_rooms s3 = sv_rooms s1
      \<and> sv_next_room s3 = sv_next_room s1 \<and> sv_next_client s3 = sv_next_client s1 \<and> sv_client s3 ?c = ?k
      \<and> (\<forall>e < ?c. sv_client s3 e = (sv_client s e)\<lparr>cl_send := cl_send (sv_client s e) @ more e\<rparr>
          \<and> (\<forall>i m. Payload i m \<notin> set (more e)) \<and> (more e = [] \<or> e \<in> set (rm_clients ?x) \<and> length (more e) \<le> 1))"
  proof (cases "rm_clients ?x")
    case Nil
    have "rm_locked (sv_room s1 r) = False" using u by (simp add: s1_def add_client_def new_client_def)
    then have "(sv_room s1 r)\<lparr>rm_locked := False\<rparr> = sv_room s1 r" by (cases "sv_room s1 r") simp
    then show ?thesis
      using Nil by (intro exI [of _ s1] exI [of _ "\<lambda>_. []"]) (simp add: ret_def c1)
  next
    case (Cons a as)
    then have cs: "rm_clients ?x = [a]" using len by simp
    let ?s2 = "upd_room r (\<lambda>x. x\<lparr>rm_locked := True\<rparr>) s1"
    have a: "a < ?c" "sv_client ?s2 a = sv_client s a" "\<not> cl_closed (sv_client s a)" "length (cl_send (sv_client s a)) \<le> 1"
      using mem cs by (auto simp: c1)
    from legacy_ready_run [of ?s2 a "rm_generation ?x"] a obtain s3 more where
      l: "legacy_ready (rm_generation ?x) a ?s2 = (Inr (), s3)" and s3: "sv_room s3 = sv_room ?s2" "sv_rooms s3 = sv_rooms ?s2"
        "sv_next_room s3 = sv_next_room ?s2" "sv_next_client s3 = sv_next_client ?s2"
        "sv_client s3 = (sv_client ?s2)(a := (sv_client ?s2 a)\<lparr>cl_send := cl_send (sv_client ?s2 a) @ more\<rparr>)"
        "\<forall>i m. Payload i m \<notin> set more" "length more \<le> 1"
      by auto
    have "legacy_ready (rm_generation ?x) ?c s3 = (Inr (), s3)"
      using a(1) by (simp add: legacy_ready_def bind_act_def gets_def s3(5) c1 new_client_def ret_def)
    with l have "for_each (legacy_ready (rm_generation ?x)) (rm_clients ?x @ [?c]) ?s2 = (Inr (), s3)"
      by (simp add: cs bind_act_def ret_def)
    then show ?thesis
      using cs a(1) s3 by (intro exI [of _ s3] exI [of _ "\<lambda>e. if e = a then more else []"])
        (auto simp: bind_act_def modify_def c1)
  qed
  then obtain s3 more where loop: "(if Suc (length (rm_clients ?x)) = 2
        then bind_act (modify (upd_room r (\<lambda>x. x\<lparr>rm_locked := True\<rparr>))) (\<lambda>_.
             for_each (legacy_ready (rm_generation ?x)) (rm_clients ?x @ [?c]))
        else ret ()) s1 = (Inr (), s3)"
    and s3: "sv_room s3 = (sv_room s1)(r := (sv_room s1 r)\<lparr>rm_locked := rm_clients ?x \<noteq> []\<rparr>)" "sv_rooms s3 = sv_rooms s1"
      "sv_next_room s3 = sv_next_room s1" "sv_next_client s3 = sv_next_client s1" "sv_client s3 ?c = ?k"
    and more: "\<And>e. e < ?c \<Longrightarrow> sv_client s3 e = (sv_client s e)\<lparr>cl_send := cl_send (sv_client s e) @ more e\<rparr>
          \<and> (\<forall>i m. Payload i m \<notin> set (more e)) \<and> (more e = [] \<or> e \<in> set (rm_clients ?x) \<and> length (more e) \<le> 1)"
    by blast
  have p3: "rm_pending (sv_room s3 r) = rm_pending ?x" by (simp add: s3 s1_def add_client_def new_client_def)
  have "\<exists>s'. for_each (\<lambda>(k, msg). try_put (\<lambda>e. e) (push ?c (Payload k msg))) (rm_pending (sv_room s3 r)) s3 = (Inr (), s')
      \<and> sv_room s' = sv_room s3 \<and> sv_rooms s' = sv_rooms s3 \<and> sv_next_room s' = sv_next_room s3 \<and> sv_next_client s' = sv_next_client s3
      \<and> sv_client s' = (sv_client s3)(?c := (sv_client s3 ?c)\<lparr>cl_send := cl_send (sv_client s3 ?c) @ replayed (rm_pending (sv_room s3 r))\<rparr>)"
    by (rule replay_loop) (use pend in \<open>simp_all add: p3 s3(5) new_client_def signalSendQueueCapacity_def\<close>)
  then obtain s' where replay: "replay_pending r ?c s3 = (Inr (), s')"
    and s': "sv_room s' = sv_room s3" "sv_rooms s' = sv_rooms s3" "sv_next_room s' = sv_next_room s3" "sv_next_client s' = sv_next_client s3"
      "sv_client s' = (sv_client s3)(?c := (sv_client s3 ?c)\<lparr>cl_send := cl_send (sv_client s3 ?c) @ replayed (rm_pending (sv_room s3 r))\<rparr>)"
    by (auto simp: replay_pending_def bind_act_def gets_def)
  have run: "joinLegacyLocked r s = (Inr ?c, s')"
    unfolding joinLegacyLocked_eq
    by (rule bind_run, rule gets_run, rule bind_run, rule guard_run, rule u, rule bind_run, rule guard_run, use len in simp,
        rule bind_run, rule gets_run, fold role, rule bind_run, rule add, rule bind_run, rule modify_run, fold s1_def,
        rule bind_run, rule loop, rule bind_run, rule replay, simp add: ret_def)
  have grow: "\<exists>m. sv_client s' e = (sv_client s e)\<lparr>cl_send := cl_send (sv_client s e) @ m\<rparr> \<and> (\<forall>i q. Payload i q \<notin> set m)
      \<and> (m = [] \<or> e \<in> set (rm_clients ?x) \<and> length (cl_send (sv_client s e) @ m) \<le> signalSendQueueCapacity)" if "e < ?c" for e
    using more [OF that] mem [of e] that
    by (intro exI [of _ "more e"]) (auto simp: s' signalSendQueueCapacity_def)
  have "entered r role s s'"
    unfolding entered_def Let_def using grow u
    by (simp add: s' s3 s1_def add_client_def new_client_def)
  with run show ?thesis by blast
qed

lemma joinLegacyLocked_outcome:
  "outcome (\<lambda>s. rooms_inv {} s \<and> map_of (sv_rooms s) token = Some r) (joinLegacyLocked r) (\<lambda>_. rooms_inv {}) clean_error"
proof (rule outcome_pre, elim conjE)
  fix s :: rooms_state
  let ?x = "sv_room s r"
  assume inv: "rooms_inv {} s" and m: "map_of (sv_rooms s) token = Some r"
  have wf: "room_wf (sv_client s) (sv_next_client s) r ?x" "open_wf (sv_client s) False ?x"
    using inv m by (auto simp: rooms_inv_def)
  note w = room_wfD [OF wf(1)]
  show "outcome ((=) s) (joinLegacyLocked r) (\<lambda>_. rooms_inv {}) clean_error"
  proof (cases "rm_locked ?x")
    case True
    then show ?thesis
      using inv by (simp add: outcome_def joinLegacyLocked_def bind_act_def gets_def guard_act_def throw_def clean_error_def)
  next
    case False
    define role where "role = (case filter (\<lambda>e. cl_role (sv_client s e) \<noteq> '''') (rm_clients ?x) of
           [] \<Rightarrow> '''' | e # _ \<Rightarrow> oppositeSignalRole (cl_role (sv_client s e)))"
    have len: "length (rm_clients ?x) \<le> 1" using wf(2) False by (simp add: open_wf_def)
    have "\<exists>s'. joinLegacyLocked r s = (Inr (sv_next_client s), s') \<and> entered r role s s'"
      by (rule joinLegacyLocked_enters [OF False len w(3) _ role_def])
        (use w(4) wf(2) False in \<open>auto simp: member_wf_def open_wf_def\<close>)
    then obtain s' where run: "joinLegacyLocked r s = (Inr (sv_next_client s), s')" and e: "entered r role s s'" by blast
    consider "rm_clients ?x = []" | a where "rm_clients ?x = [a]" "cl_role (sv_client s a) = ''''"
      | a where "rm_clients ?x = [a]" "cl_role (sv_client s a) \<noteq> ''''"
      using len by (cases "rm_clients ?x") auto
    then have "rooms_inv {} s'"
    proof cases
      case 3
      then have mem: "isSignalRole (cl_role (sv_client s a))" "role = oppositeSignalRole (cl_role (sv_client s a))"
        using w(4) [of a] by (auto simp: member_wf_def role_def)
      then have "isSignalRole role" "role \<noteq> ''''" "role \<noteq> cl_role (sv_client s a)"
        by (auto simp: isSignalRole_def oppositeSignalRole_def)
      moreover have "rm_slots ?x role = None"
        using w(6) [of role] 3 \<open>role \<noteq> cl_role (sv_client s a)\<close> by (cases "rm_slots ?x role") auto
      ultimately show ?thesis
        using entered_keeps [OF rooms_inv_mono [OF inv, of "{r}"] m e len] 3 by auto
    qed (use entered_keeps [OF rooms_inv_mono [OF inv, of "{r}"] m e len] wf(2) False in \<open>auto simp: role_def open_wf_def\<close>)
    with run show ?thesis by (simp add: outcome_def)
  qed
qed

section \<open>Joining\<close>

lemma joinWithRoleProtocol_outcome:
  "outcome (rooms_inv {}) (joinWithRoleProtocol ttl now rnd token role reconnectToken protocol) (\<lambda>_. rooms_inv {}) clean_error"
proof -
  let ?in = "\<lambda>r s. rooms_inv {} s \<and> map_of (sv_rooms s) token = Some r"
  have open_room: "outcome (rooms_inv {}) (open_room ttl now token p) ?in clean_error" for p
    using open_room_outcome by (rule outcome_weaken) auto
  have norm: "outcome (?in r) (modify (upd_room r (\<lambda>x. if rm_protocol x = '''' then x\<lparr>rm_protocol := ''transfer''\<rparr> else x))) (\<lambda>_. ?in r) clean_error" for r
    by (rule outcome_modify) (auto intro!: upd_room_keeps simp: room_wf_def member_wf_def origin_wf_def open_wf_def)
  have body: "outcome (\<lambda>s. ?in r s \<and> x = sv_room s r)
      (if role = '''' then joinLegacyLocked r
       else bind_act (if rm_locked x then admit_locked r role reconnectToken else admit_unlocked token r role reconnectToken rnd) (\<lambda>_. enter_role r role))
      (\<lambda>_. rooms_inv {}) clean_error" if "role = '''' \<or> isSignalRole role" for r x
  proof (cases "role = ''''")
    case True
    then show ?thesis by (auto intro: outcome_strengthen [OF joinLegacyLocked_outcome [of token r]])
  next
    case False
    with that have role: "isSignalRole role" by simp
    have "outcome (\<lambda>s. ?in r s \<and> x = sv_room s r)
        (if rm_locked x then admit_locked r role reconnectToken else admit_unlocked token r role reconnectToken rnd)
        (\<lambda>_. can_enter r role token) clean_error"
      using role
      by (auto intro!: outcome_if intro: outcome_strengthen [OF admit_locked_outcome] outcome_strengthen [OF admit_unlocked_outcome])
    from outcome_bind [OF this enter_role_outcome] show ?thesis using False by simp
  qed
  have guard: "outcome (\<lambda>s. ?in r s \<and> x = sv_room s r) (guard_act (rm_protocol x = p) e) (\<lambda>_ s. ?in r s \<and> x = sv_room s r) clean_error"
    if "e \<noteq> BlockedSend" "e \<noteq> SendOnClosed" for r x p e
    by (rule outcome_guard) (auto simp: clean_error_def that)
  have role: "outcome (rooms_inv {}) (guard_act (role = '''' \<or> isSignalRole role) InvalidSignalRole)
      (\<lambda>_ s. rooms_inv {} s \<and> (role = '''' \<or> isSignalRole role)) clean_error"
    by (rule outcome_guard) (auto simp: clean_error_def)
  have gets: "outcome (?in r) (gets (\<lambda>s. sv_room s r)) (\<lambda>x s. ?in r s \<and> x = sv_room s r) clean_error" for r
    by (rule outcome_gets) simp
  have protocol: "outcome (rooms_inv {}) (try_get SignalProtocol (\<lambda>_. NormalizeProtocol protocol)) (\<lambda>_. rooms_inv {}) clean_error"
    by (rule outcome_try_get) (auto simp: clean_error_def)
  show ?thesis
    unfolding joinWithRoleProtocol_def
    by (rule outcome_bind [OF role], rule outcome_fact, rule outcome_bind [OF protocol], rule outcome_bind [OF open_room],
        rule outcome_bind [OF norm], rule outcome_bind [OF gets], rule outcome_bind [OF guard body]; simp)
qed

section \<open>Reachable states\<close>

datatype room_request =
    Join int "string option" string string string string
  | Forward nat string
  | Leave nat
  | Cleanup int
  | Write nat

definition serve :: "int \<Rightarrow> room_request \<Rightarrow> unit room_act" where
  "serve ttl rq =
     (case rq of
        Join now rnd token role reconnectToken protocol \<Rightarrow>
          bind_act (joinWithRoleProtocol ttl now rnd token role reconnectToken protocol) (\<lambda>_. ret ())
      | Forward c payload \<Rightarrow> try_put (\<lambda>e. e) (forward c payload)
      | Leave c \<Rightarrow> modify (leave c)
      | Cleanup now \<Rightarrow> try_put (\<lambda>e. e) (cleanup_rooms now)
      | Write c \<Rightarrow> writeLoop c)"

text \<open>The clients a request names exist.\<close>

definition known :: "room_request \<Rightarrow> rooms_state \<Rightarrow> bool" where
  "known rq s \<longleftrightarrow>
     (case rq of Forward c _ \<Rightarrow> c < sv_next_client s | Leave c \<Rightarrow> c < sv_next_client s | Write c \<Rightarrow> c < sv_next_client s
      | Join _ _ _ _ _ _ \<Rightarrow> True | Cleanup _ \<Rightarrow> True)"

definition no_rooms :: rooms_state where
  "no_rooms = \<lparr>sv_rooms = [], sv_room = (\<lambda>_. new_room '''' '''' 0 0), sv_client = (\<lambda>_. new_client 0 '''' False 0),
     sv_next_room = 0, sv_next_client = 0\<rparr>"

inductive reached :: "int \<Rightarrow> rooms_state \<Rightarrow> bool" for ttl where
  start: "reached ttl no_rooms"
| request: "reached ttl s \<Longrightarrow> known rq s \<Longrightarrow> reached ttl (snd (serve ttl rq s))"

lemma no_rooms_inv: "rooms_inv J no_rooms"
  by (simp add: rooms_inv_def no_rooms_def)

lemma serve_outcome: "outcome (\<lambda>s. rooms_inv {} s \<and> known rq s) (serve ttl rq) (\<lambda>_. rooms_inv {}) clean_error"
proof (cases rq)
  case (Join now rnd token role reconnectToken protocol)
  then show ?thesis
    by (auto simp: serve_def intro!: outcome_bind outcome_strengthen [OF joinWithRoleProtocol_outcome] outcome_ret)
next
  case (Forward c p)
  then show ?thesis using forward_keeps [of "{}" _ c p] by (fastforce simp: serve_def known_def intro!: outcome_try_put)
next
  case (Leave c)
  then show ?thesis by (auto simp: serve_def known_def intro!: outcome_modify leave_keeps)
next
  case (Cleanup now)
  then show ?thesis using cleanup_rooms_keeps [of "{}" _ now] by (fastforce simp: serve_def intro!: outcome_try_put)
next
  case (Write c)
  then show ?thesis using writeLoop_keeps [of "{}" _ c] by (auto simp: serve_def known_def outcome_def writeLoop_def modify_def)
qed

lemma reached_inv: "reached ttl s \<Longrightarrow> rooms_inv {} s"
proof (induction rule: reached.induct)
  case (request s rq)
  show ?case
    using outcome_Inr [OF serve_outcome] outcome_Inl [OF serve_outcome] request
    by (cases "serve ttl rq s") (metis clean_error_def obj_sumE snd_conv)
qed (rule no_rooms_inv)

text \<open>
C13: The server never waits for a client while it holds its lock and never sends on a closed queue:
in every state that joins, messages, departures, write turns and cleanups lead to, no request ends
in a send to a full queue or in a send to a closed one.
\<close>

theorem rooms_never_block:
  assumes "reached ttl s" and "known rq s"
  shows "fst (serve ttl rq s) \<noteq> Inl BlockedSend \<and> fst (serve ttl rq s) \<noteq> Inl SendOnClosed"
  using outcome_Inl [OF serve_outcome, of s rq ttl] reached_inv [OF assms(1)] assms(2)
  by (cases "serve ttl rq s") (auto simp: clean_error_def)

theorem rooms_never_block_witness:
  "\<exists>s. reached 600 s \<and> sv_next_client s = 1 \<and> fst (serve 600 (Forward 0 ''x'') s) \<noteq> Inl BlockedSend"
proof -
  let ?rq = "Join 0 None ''t'' '''' '''' ''''"
  let ?s = "snd (serve 600 ?rq no_rooms)"
  have r: "reached 600 ?s" by (rule reached.request [OF reached.start]) (simp add: known_def)
  have n: "sv_next_client ?s = 1" by code_simp
  then have "known (Forward 0 ''x'') ?s" by (simp add: known_def)
  with r n show ?thesis using rooms_never_block [of 600 ?s "Forward 0 ''x''"] by blast
qed

text \<open>
C12: Messages stay in their room, and what the server keeps is bounded. A message in the queue of a
client was sent by another client of the same room in the same generation; no queue holds more than
80 messages, no room more than two clients, and no more than 64 messages wait for a peer.
\<close>

theorem signals_isolated:
  assumes "reached ttl s" and "c < sv_next_client s"
  shows "length (cl_send (sv_client s c)) \<le> 80 \<and> length (rm_clients (sv_room s (cl_room (sv_client s c)))) \<le> 2
    \<and> length (rm_pending (sv_room s (cl_room (sv_client s c)))) \<le> 64
    \<and> (\<forall>k m. Payload k m \<in> set (cl_send (sv_client s c)) \<longrightarrow> k \<noteq> c \<and> cl_room (sv_client s k) = cl_room (sv_client s c)
         \<and> cl_generation (sv_client s k) = cl_generation (sv_client s c))"
proof -
  have inv: "rooms_inv {} s" by (rule reached_inv [OF assms(1)])
  then have r: "cl_room (sv_client s c) < sv_next_room s" and cw: "client_wf (sv_client s) (sv_next_client s) c"
    using assms(2) by (auto simp: rooms_inv_def)
  have "room_wf (sv_client s) (sv_next_client s) (cl_room (sv_client s c)) (sv_room s (cl_room (sv_client s c)))"
    using inv r by (simp add: rooms_inv_def)
  note w = room_wfD(2,3) [OF this]
  show ?thesis using cw w by (auto simp: client_wf_def same_peer_def signalSendQueueCapacity_def maxPendingSignals_def)
qed

lemma transfer_protocol: "NormalizeProtocol '''' = Inr ''transfer''"
  by code_simp

lemmas room_eval = serve_def joinWithRoleProtocol_def bind_act_def guard_act_def ret_def throw_def try_get_def try_put_def
  transfer_protocol open_room_def gets_def modify_def no_rooms_def add_room_def new_room_def upd_room_def upd_client_def
  joinLegacyLocked_def add_client_def new_client_def replay_pending_def forward_def push_def offer_def Let_def
  maxPendingSignals_def signalSendQueueCapacity_def expireRoomLocked_def closeClient_def leave_def roomSupportsReconnect_def known_def

theorem signals_isolated_witness:
  "\<exists>s. reached 600 s \<and> Payload 0 ''hello'' \<in> set (cl_send (sv_client s 1)) \<and> cl_room (sv_client s 0) = cl_room (sv_client s 1)"
proof -
  let ?join = "Join 0 None ''t'' '''' '''' ''''"
  let ?s = "snd (serve 600 ?join (snd (serve 600 (Forward 0 ''hello'') (snd (serve 600 ?join no_rooms)))))"
  have "known (Forward 0 ''hello'') (snd (serve 600 ?join no_rooms))" by (simp add: room_eval)
  then have r: "reached 600 ?s"
    by (intro reached.request reached.start) (simp_all add: known_def)
  have q: "cl_send (sv_client ?s 1) = [Payload 0 ''hello'']" and n: "1 < sv_next_client ?s"
    by (simp_all add: room_eval)
  then have m: "Payload 0 ''hello'' \<in> set (cl_send (sv_client ?s 1))" by simp
  then have "cl_room (sv_client ?s 0) = cl_room (sv_client ?s 1)" using signals_isolated [OF r n] by blast
  with r m show ?thesis by blast
qed


end
