(* ===== verification/Net_Addr.thy ===== *)
theory Net_Addr
  imports Go_Net
begin

text \<open>
  Network addresses as the service and the relay read them: decimal numbers (\<open>strconv.ParseInt\<close>,
  \<open>strconv.Atoi\<close>) and the addresses and prefixes of \<open>net/netip\<close> of the Go library. An address is its
  number with the family; an IPv6 address may have a zone.
\<close>

section \<open>Decimal numbers\<close>

definition is_digit :: "char \<Rightarrow> bool" where
  "is_digit c \<longleftrightarrow> 48 \<le> byte_val c \<and> byte_val c \<le> 57"

definition all_digits :: "string \<Rightarrow> bool" where
  "all_digits s \<longleftrightarrow> s \<noteq> '''' \<and> list_all is_digit s"

definition ParseInt :: "string \<Rightarrow> int option" where
  "ParseInt s =
     (let neg = (case s of c # _ \<Rightarrow> c = CHR ''-'' | [] \<Rightarrow> False);
          body = (case s of c # rest \<Rightarrow> if c = CHR ''-'' \<or> c = CHR ''+'' then rest else s | [] \<Rightarrow> []);
          v = (if neg then - int (digits_val body) else int (digits_val body))
      in if all_digits body \<and> in_i64 v then Some v else None)"

abbreviation Atoi :: "string \<Rightarrow> int option" where
  "Atoi \<equiv> ParseInt"

lemma nat_digits_all_digits: "all_digits (nat_digits n)"
proof (induction n rule: nat_digits.induct)
  case (1 n)
  have d: "is_digit (digit_char k)" if "k < 10" for k
    using that by (simp add: is_digit_def digit_char_def of_char_of take_bit_nat_def)
  show ?case
  proof (cases "n < 10")
    case True
    then show ?thesis by (subst nat_digits.simps) (simp add: all_digits_def d)
  next
    case False
    with 1 show ?thesis by (subst nat_digits.simps) (simp add: all_digits_def d)
  qed
qed

lemma nat_digits_hd: "\<exists>c cs. nat_digits n = c # cs \<and> is_digit c"
  using nat_digits_all_digits [of n] by (cases "nat_digits n") (auto simp: all_digits_def)

lemma ParseInt_Itoa: "in_i64 i \<Longrightarrow> ParseInt (Itoa i) = Some i"
proof -
  assume i: "in_i64 i"
  show ?thesis
  proof (cases "i < 0")
    case True
    then have "ParseInt (Itoa i) = (if in_i64 (- int (nat (- i))) then Some (- int (nat (- i))) else None)"
      by (simp add: ParseInt_def Itoa_def Let_def nat_digits_all_digits digits_val_nat_digits)
    with i True show ?thesis by simp
  next
    case False
    obtain c cs where c: "nat_digits (nat i) = c # cs" "is_digit c" using nat_digits_hd by blast
    then have "c \<noteq> CHR ''-''" "c \<noteq> CHR ''+''" by (auto simp: is_digit_def)
    with c False i nat_digits_all_digits [of "nat i"] digits_val_nat_digits [of "nat i"] show ?thesis
      by (simp add: ParseInt_def Itoa_def Let_def)
  qed
qed

lemma Itoa_chars: "c \<in> set (Itoa i) \<Longrightarrow> is_digit c \<or> c = CHR ''-''"
  using nat_digits_all_digits [of "nat i"] nat_digits_all_digits [of "nat (- i)"]
  by (auto simp: Itoa_def all_digits_def list_all_iff split: if_splits)

section \<open>Addresses\<close>

datatype Addr = V4 int | V6 int string

definition octet :: "string \<Rightarrow> int option" where
  "octet s = (if all_digits s \<and> (length s = 1 \<or> hd s \<noteq> CHR ''0'') \<and> digits_val s \<le> 255 then Some (int (digits_val s)) else None)"

definition parse_v4 :: "string \<Rightarrow> int option" where
  "parse_v4 s =
     (case map octet (split_on CHR ''.'' s) of
        [Some a, Some b, Some c, Some d] \<Rightarrow> Some (((a * 256 + b) * 256 + c) * 256 + d)
      | _ \<Rightarrow> None)"

definition hex_val :: "char \<Rightarrow> nat" where
  "hex_val c =
     (let n = byte_val c in if n \<le> 57 then n - 48 else if n \<le> 70 then n - 55 else n - 87)"

definition hex_number :: "string \<Rightarrow> int" where
  "hex_number s = foldl (\<lambda>acc c. acc * 16 + int (hex_val c)) 0 s"

text \<open>
  The groups of an IPv6 address: the groups read so far, where the ellipsis stood, and the text that
  is left. A trailing IPv4 address gives two groups.
\<close>

function v6_groups :: "int list \<Rightarrow> nat option \<Rightarrow> string \<Rightarrow> (int list \<times> nat option \<times> string) option" where
  "v6_groups gs ell s =
     (if 8 \<le> length gs then Some (gs, ell, s)
      else
        let digits = takeWhile is_hex_digit s; rest = dropWhile is_hex_digit s in
        if digits = '''' \<or> 4 < length digits then None
        else if rest \<noteq> '''' \<and> hd rest = CHR ''.'' then
          (if (ell = None \<and> length gs \<noteq> 6) \<or> 6 < length gs then None
           else case parse_v4 s of None \<Rightarrow> None | Some n \<Rightarrow> Some (gs @ [n div 65536, n mod 65536], ell, ''''))
        else
          let gs = gs @ [hex_number digits] in
          if rest = '''' then Some (gs, ell, '''')
          else if hd rest \<noteq> CHR '':'' \<or> length rest = 1 then None
          else if hd (tl rest) = CHR '':'' then
            (if ell \<noteq> None then None
             else if tl (tl rest) = '''' then Some (gs, Some (length gs), '''')
             else v6_groups gs (Some (length gs)) (tl (tl rest)))
          else v6_groups gs ell (tl rest))"
  by pat_completeness auto

termination
proof (relation "measure (\<lambda>(gs, ell, s). length s)", goal_cases)
  case (2 gs ell s digits rest gs')
  have "length digits + length rest = length s" unfolding 2 by (metis length_append takeWhile_dropWhile_id)
  with 2(4,6) show ?case by (cases rest) auto
next
  case (3 gs ell s digits rest gs')
  have "length digits + length rest = length s" unfolding 3 by (metis length_append takeWhile_dropWhile_id)
  with 3(4,6) show ?case by (cases rest) auto
qed simp

definition groups_number :: "int list \<Rightarrow> int" where
  "groups_number gs = foldl (\<lambda>acc g. acc * 65536 + g) 0 gs"

definition parse_v6 :: "string \<Rightarrow> Addr option" where
  "parse_v6 input =
     (let s0 = takeWhile (\<lambda>c. c \<noteq> CHR ''%'') input; zone = drop (Suc (length s0)) input in
      if CHR ''%'' \<in> set input \<and> zone = '''' then None
      else
        let lead = is_prefix ''::'' s0; s = (if lead then drop 2 s0 else s0) in
        if lead \<and> s = '''' then Some (V6 0 zone)
        else case v6_groups [] (if lead then Some 0 else None) s of
          None \<Rightarrow> None
        | Some (gs, ell, rest) \<Rightarrow>
            if rest \<noteq> '''' then None
            else if length gs < 8 then
              (case ell of
                 None \<Rightarrow> None
               | Some e \<Rightarrow> Some (V6 (groups_number (take e gs @ replicate (8 - length gs) 0 @ drop e gs)) zone))
            else if ell \<noteq> None then None
            else Some (V6 (groups_number gs) zone))"

definition ParseAddr :: "string \<Rightarrow> Addr option" where
  "ParseAddr s =
     (case find (\<lambda>c. c = CHR ''.'' \<or> c = CHR '':'' \<or> c = CHR ''%'') s of
        None \<Rightarrow> None
      | Some c \<Rightarrow>
          if c = CHR ''.'' then (case parse_v4 s of None \<Rightarrow> None | Some n \<Rightarrow> Some (V4 n))
          else if c = CHR '':'' then parse_v6 s else None)"

definition Zone :: "Addr \<Rightarrow> string" where
  "Zone a = (case a of V4 _ \<Rightarrow> '''' | V6 _ z \<Rightarrow> z)"

definition Unmap :: "Addr \<Rightarrow> Addr" where
  "Unmap a = (case a of V4 n \<Rightarrow> V4 n | V6 n z \<Rightarrow> if n div 2 ^ 32 = 65535 then V4 (n mod 2 ^ 32) else V6 n z)"

definition IsLoopback :: "Addr \<Rightarrow> bool" where
  "IsLoopback a = (case Unmap a of V4 n \<Rightarrow> n div 2 ^ 24 = 127 | V6 n _ \<Rightarrow> n = 1)"

definition IsPrivate :: "Addr \<Rightarrow> bool" where
  "IsPrivate a = (case Unmap a of
       V4 n \<Rightarrow> n div 2 ^ 24 = 10 \<or> n div 2 ^ 20 = 172 * 16 + 1 \<or> n div 2 ^ 16 = 192 * 256 + 168
     | V6 n _ \<Rightarrow> n div 2 ^ 121 = 126)"

definition IsMulticast :: "Addr \<Rightarrow> bool" where
  "IsMulticast a = (case Unmap a of V4 n \<Rightarrow> n div 2 ^ 28 = 14 | V6 n _ \<Rightarrow> n div 2 ^ 120 = 255)"

definition IsLinkLocalUnicast :: "Addr \<Rightarrow> bool" where
  "IsLinkLocalUnicast a = (case Unmap a of V4 n \<Rightarrow> n div 2 ^ 16 = 169 * 256 + 254 | V6 n _ \<Rightarrow> n div 2 ^ 118 = 1018)"

definition IsGlobalUnicast :: "Addr \<Rightarrow> bool" where
  "IsGlobalUnicast a \<longleftrightarrow>
     (case Unmap a of V4 n \<Rightarrow> n \<noteq> 0 \<and> n \<noteq> 2 ^ 32 - 1 | V6 n z \<Rightarrow> n \<noteq> 0 \<or> z \<noteq> '''')
     \<and> \<not> IsLoopback a \<and> \<not> IsMulticast a \<and> \<not> IsLinkLocalUnicast a"

lemma parse_addr_examples:
  "ParseAddr ''127.0.0.1'' = Some (V4 2130706433)" "ParseAddr ''::1'' = Some (V6 1 '''')"
  "ParseAddr ''1.2.3'' = None" "ParseAddr ''01.2.3.4'' = None" "ParseAddr ''256.1.1.1'' = None"
  "ParseAddr ''fe80::1%eth0'' = Some (V6 338288524927261089654018896841347694593 ''eth0'')"
  "ParseAddr ''::ffff:1.2.3.4'' = Some (V6 281470698652420 '''')" "ParseAddr ''1::2::3'' = None"
  "ParseAddr ''1:2:3:4:5:6:7'' = None" "ParseAddr ''host'' = None"
  by code_simp+

section \<open>Prefixes\<close>

record Prefix =
  px_addr :: Addr
  px_bits :: nat

definition BitLen :: "Addr \<Rightarrow> nat" where
  "BitLen a = (case a of V4 _ \<Rightarrow> 32 | V6 _ _ \<Rightarrow> 128)"

definition ParsePrefix :: "string \<Rightarrow> Prefix option" where
  "ParsePrefix s =
     (case last_index_of CHR ''/'' s of
        None \<Rightarrow> None
      | Some i \<Rightarrow>
          (case ParseAddr (take i s) of
             None \<Rightarrow> None
           | Some ip \<Rightarrow>
               let bits = drop (Suc i) s in
               if Zone ip \<noteq> '''' then None
               else if 1 < length bits \<and> (byte_val (hd bits) < 49 \<or> 57 < byte_val (hd bits)) then None
               else case Atoi bits of
                 None \<Rightarrow> None
               | Some n \<Rightarrow> if n < 0 \<or> int (BitLen ip) < n then None else Some \<lparr>px_addr = ip, px_bits = nat n\<rparr>))"

definition Masked :: "Prefix \<Rightarrow> Prefix" where
  "Masked p =
     (let k = BitLen (px_addr p) - px_bits p in
      p\<lparr>px_addr := (case px_addr p of V4 n \<Rightarrow> V4 (n div 2 ^ k * 2 ^ k) | V6 n _ \<Rightarrow> V6 (n div 2 ^ k * 2 ^ k) '''')\<rparr>)"

definition Contains :: "Prefix \<Rightarrow> Addr \<Rightarrow> bool" where
  "Contains p ip \<longleftrightarrow> Zone ip = '''' \<and>
     (case (px_addr p, ip) of
        (V4 m, V4 n) \<Rightarrow> m div 2 ^ (32 - px_bits p) = n div 2 ^ (32 - px_bits p)
      | (V6 m _, V6 n _) \<Rightarrow> m div 2 ^ (128 - px_bits p) = n div 2 ^ (128 - px_bits p)
      | _ \<Rightarrow> False)"

lemma prefix_examples:
  "map_option (\<lambda>p. Contains p (V4 (10 * 2 ^ 24 + 7))) (ParsePrefix ''10.0.0.0/8'') = Some True"
  "map_option (\<lambda>p. Contains p (V4 (11 * 2 ^ 24 + 7))) (ParsePrefix ''10.0.0.0/8'') = Some False"
  "ParsePrefix ''10.0.0.0/33'' = None" "ParsePrefix ''10.0.0.0/08'' = None" "ParsePrefix ''10.0.0.0'' = None"
  by code_simp+

text \<open>A prefix contains what its masked form contains.\<close>

lemma Contains_Masked: "Contains (Masked p) a = Contains p a"
proof -
  have "(n div 2 ^ k * 2 ^ k) div 2 ^ k = (n :: int) div 2 ^ k" for n k by simp
  then show ?thesis by (auto simp: Contains_def Masked_def Let_def BitLen_def Zone_def split: Addr.splits)
qed

section \<open>Printing\<close>

definition v4_string :: "int \<Rightarrow> string" where
  "v4_string n = Itoa (n div 2 ^ 24 mod 256) @ ''.'' @ Itoa (n div 2 ^ 16 mod 256) @ ''.'' @
     Itoa (n div 2 ^ 8 mod 256) @ ''.'' @ Itoa (n mod 256)"

definition hex_char :: "nat \<Rightarrow> char" where
  "hex_char n = (if n < 10 then char_of (48 + n) else char_of (87 + n))"

definition hex_digits :: "int \<Rightarrow> string" where
  "hex_digits n =
     (let ds = [n div 4096, n div 256 mod 16, n div 16 mod 16, n mod 16] in
      map (\<lambda>d. hex_char (nat d)) (case dropWhile (\<lambda>d. d = 0) ds of [] \<Rightarrow> [0] | rest \<Rightarrow> rest))"

definition v6_group :: "int \<Rightarrow> nat \<Rightarrow> int" where
  "v6_group n i = n div 65536 ^ (7 - i) mod 65536"

text \<open>The first longest run of at least two zero groups.\<close>

definition zero_run :: "int \<Rightarrow> nat \<times> nat" where
  "zero_run n =
     fold (\<lambda>i (s, e).
         let l = length (takeWhile (\<lambda>g. g = 0) (map (v6_group n) [i..<8])) in
         if 2 \<le> l \<and> e - s < l then (i, i + l) else (s, e))
       [0, 1, 2, 3, 4, 5, 6, 7] (255, 255)"

function v6_from :: "int \<Rightarrow> nat \<times> nat \<Rightarrow> nat \<Rightarrow> string" where
  "v6_from n run i =
     (if 8 \<le> i then ''''
      else if i = fst run \<and> fst run < snd run then
        ''::'' @ (if 8 \<le> snd run then '''' else hex_digits (v6_group n (snd run)) @ v6_from n run (Suc (snd run)))
      else (if 0 < i then '':'' else '''') @ hex_digits (v6_group n i) @ v6_from n run (Suc i))"
  by pat_completeness auto

termination by (relation "measure (\<lambda>(n, run, i). 8 - i)") auto

definition AddrString :: "Addr \<Rightarrow> string" where
  "AddrString a =
     (case a of
        V4 n \<Rightarrow> v4_string n
      | V6 n z \<Rightarrow>
          (if n div 2 ^ 32 = 65535 then ''::ffff:'' @ v4_string (n mod 2 ^ 32) else v6_from n (zero_run n) 0)
          @ (if z = '''' then '''' else ''%'' @ z))"

lemma addr_string_examples:
  "AddrString (V4 2130706433) = ''127.0.0.1''" "AddrString (V6 1 '''') = ''::1''" "AddrString (V6 0 '''') = ''::''"
  "AddrString (V6 (2 ^ 112 + 5) ''e'') = ''1::5%e''"
  by code_simp+

end
