(* ===== verification/Relay_Credential.thy ===== *)
theory Relay_Credential
  imports Net_Addr
begin

text \<open>
  The temporary credentials of the native relay (internal/relay/credential.go): the service issues
  one for a room, and the relay accepts it for that room until it expires. HMAC-SHA-256 is the
  argument \<open>mac\<close>, a function of the key and the message. Times are in nanoseconds since the Unix
  epoch.
\<close>

section \<open>Raw URL base64 decoding\<close>

definition RawURLDecode :: "string \<Rightarrow> string option" where
  "RawURLDecode s =
     (let t = filter (\<lambda>c. \<not> newline c) s in
      if CHR ''+'' \<in> set t \<or> CHR ''/'' \<in> set t \<or> CHR ''='' \<in> set t \<or> length t mod 4 = 1 then None
      else decode_quanta
        (map (\<lambda>c. if c = CHR ''-'' then CHR ''+'' else if c = CHR ''_'' then CHR ''/'' else c) t
         @ replicate ((4 - length t mod 4) mod 4) CHR ''=''))"

definition unpadded :: "string \<Rightarrow> string" where
  "unpadded s = filter (\<lambda>c. c \<noteq> CHR ''='') s"

lemma encode_alphabet: "x \<in> set (EncodeToString bs) \<Longrightarrow> x = CHR ''='' \<or> (\<exists>n < 64. x = b64_char n)"
proof (induction bs rule: EncodeToString.induct)
  case (2 a)
  have "byte_val a < (256 :: nat)" by simp
  from quantum_arith(1) [OF this this this] have "byte_val a div 4 < (64 :: nat)" .
  moreover have "byte_val a mod 4 * 16 < (64 :: nat)" by simp
  then have "\<exists>n < 64. b64_char (byte_val a mod 4 * 16) = b64_char n" by blast
  ultimately show ?case using 2 by auto
next
  case (3 a b)
  have "byte_val a < (256 :: nat)" "byte_val b < (256 :: nat)" by simp_all
  moreover have "byte_val b mod 16 * 4 < (64 :: nat)" by simp
  then have "\<exists>n < 64. b64_char (byte_val b mod 16 * 4) = b64_char n" by blast
  ultimately show ?case using 3 quantum_arith(1,2) [of "byte_val a" "byte_val b" 0] by auto
next
  case (4 a b c rest)
  have "byte_val a < (256 :: nat)" "byte_val b < (256 :: nat)" "byte_val c < (256 :: nat)" by simp_all
  moreover have "byte_val c mod 64 < (64 :: nat)" by simp
  then have "\<exists>n < 64. b64_char (byte_val c mod 64) = b64_char n" by blast
  ultimately show ?case using 4 quantum_arith(1-3) [of "byte_val a" "byte_val b" "byte_val c"] by auto
qed simp

lemma encode_padding:
  "EncodeToString bs = unpadded (EncodeToString bs) @ replicate ((4 - length (unpadded (EncodeToString bs)) mod 4) mod 4) CHR ''=''
   \<and> length (unpadded (EncodeToString bs)) mod 4 \<noteq> 1"
proof (induction bs rule: EncodeToString.induct)
  case (2 a)
  have "byte_val a < (256 :: nat)" by simp
  with quantum_arith [of "byte_val a" 0 0] show ?case by (simp add: unpadded_def b64_val_char numeral_2_eq_2)
next
  case (3 a b)
  have "byte_val a < (256 :: nat)" "byte_val b < (256 :: nat)" by simp_all
  with quantum_arith [of "byte_val a" "byte_val b" 0] show ?case by (simp add: unpadded_def b64_val_char)
next
  case (4 a b c rest)
  have "byte_val a < (256 :: nat)" "byte_val b < (256 :: nat)" "byte_val c < (256 :: nat)" by simp_all
  with quantum_arith [of "byte_val a" "byte_val b" "byte_val c"]
  have "unpadded (EncodeToString (a # b # c # rest)) =
      b64_char (byte_val a div 4) # b64_char (byte_val a mod 4 * 16 + byte_val b div 16) #
      b64_char (byte_val b mod 16 * 4 + byte_val c div 64) # b64_char (byte_val c mod 64) # unpadded (EncodeToString rest)"
    by (simp add: unpadded_def b64_val_char)
  with 4 show ?case by simp
qed (simp add: unpadded_def)

lemma b64_char_not_url: "n < 64 \<Longrightarrow> b64_char n \<noteq> CHR ''-'' \<and> b64_char n \<noteq> CHR ''_''"
proof -
  assume n: "n < 64"
  have "b64_val (CHR ''-'') = None" "b64_val (CHR ''_'') = None" by code_simp+
  with b64_val_char(1) [OF n] show ?thesis by (metis option.distinct(1))
qed

lemma RawURLDecode_RawURLEncode [simp]: "RawURLDecode (RawURLEncode bs) = Some bs"
proof -
  let ?f = "\<lambda>c. if c = CHR ''+'' then CHR ''-'' else if c = CHR ''/'' then CHR ''_'' else c"
  let ?g = "\<lambda>c. if c = CHR ''-'' then CHR ''+'' else if c = CHR ''_'' then CHR ''/'' else c"
  let ?u = "unpadded (EncodeToString bs)"
  have u: "\<exists>n < 64. c = b64_char n" if "c \<in> set ?u" for c using that encode_alphabet by (auto simp: unpadded_def)
  then have inverse: "?g (?f c) = c" if "c \<in> set ?u" for c using that b64_char_not_url by fastforce
  have nl: "\<not> newline (?f c)" if "c \<in> set ?u" for c
  proof -
    have "\<not> newline (CHR ''-'')" "\<not> newline (CHR ''_'')" by code_simp+
    with u [OF that] b64_val_char(3) show ?thesis by auto
  qed
  have e: "RawURLEncode bs = map ?f ?u" by (simp add: RawURLEncode_def unpadded_def)
  have clean: "filter (\<lambda>c. \<not> newline c) (map ?f ?u) = map ?f ?u" by (rule filter_True) (use nl in \<open>simp only: set_map; blast\<close>)
  have no: "CHR ''+'' \<notin> set (map ?f ?u)" "CHR ''/'' \<notin> set (map ?f ?u)" "CHR ''='' \<notin> set (map ?f ?u)"
    using u b64_val_char(2) by (auto simp: unpadded_def)
  have "map ?g (map ?f ?u) = ?u" using inverse by (simp add: map_idI)
  then show ?thesis
    using encode_padding [of bs] no decode_quanta_encode [of bs]
    unfolding RawURLDecode_def e clean Let_def by (simp only: length_map if_False simp_thms)
qed

section \<open>Credentials\<close>

definition relayCredentialVersion :: string where
  "relayCredentialVersion = ''v1''"

datatype credential_error = EmptySecret | EmptyRoomToken | EmptyExpiry

definition signed_message :: "string \<Rightarrow> string \<Rightarrow> string" where
  "signed_message roomToken expiry = ''kigo-relay-v1'' @ [CHR 0x0A] @ roomToken @ [CHR 0x0A] @ expiry"

definition signCredential :: "(string \<Rightarrow> string \<Rightarrow> string) \<Rightarrow> string \<Rightarrow> string \<Rightarrow> string \<Rightarrow> string" where
  "signCredential mac secret roomToken expiry = mac secret (signed_message roomToken expiry)"

text \<open>The zero time is the first second of the year 1.\<close>

definition unix_offset :: int where
  "unix_offset = 62135596800"

definition Unix :: "int \<Rightarrow> int" where
  "Unix t = t div 1000000000"

definition IssueCredential :: "(string \<Rightarrow> string \<Rightarrow> string) \<Rightarrow> string \<Rightarrow> string \<Rightarrow> int \<Rightarrow> (credential_error, string) result" where
  "IssueCredential mac secret roomToken expires =
     (if secret = '''' then Inl EmptySecret
      else if roomToken = '''' then Inl EmptyRoomToken
      else if expires = - unix_offset * 1000000000 then Inl EmptyExpiry
      else
        let expiry = Itoa (Unix expires) in
        Inr (relayCredentialVersion @ ''.'' @ expiry @ ''.'' @ RawURLEncode (signCredential mac secret roomToken expiry)))"

text \<open>\<open>time.Unix\<close> adds the offset of the epoch in 64 bits.\<close>

definition before_unix :: "int \<Rightarrow> int \<Rightarrow> bool" where
  "before_unix now expires \<longleftrightarrow> now + unix_offset * 1000000000 < add64 expires unix_offset * 1000000000"

definition ValidateCredential :: "(string \<Rightarrow> string \<Rightarrow> string) \<Rightarrow> string \<Rightarrow> string \<Rightarrow> string \<Rightarrow> int \<Rightarrow> bool" where
  "ValidateCredential mac secret roomToken credential now =
     (if secret = '''' \<or> roomToken = '''' \<or> credential = '''' then False
      else case split_on CHR ''.'' credential of
        [version, expiry, sig] \<Rightarrow>
          version = relayCredentialVersion
          \<and> (case ParseInt expiry of None \<Rightarrow> False | Some expires \<Rightarrow> before_unix now expires)
          \<and> (case RawURLDecode sig of
               None \<Rightarrow> False
             | Some signature \<Rightarrow> length signature = 32 \<and> signature = signCredential mac secret roomToken expiry)
      | _ \<Rightarrow> False)"

section \<open>Properties\<close>

text \<open>The signed message determines the room and the expiry: an expiry has no line break.\<close>

lemma signed_message_inj:
  assumes "signed_message t e = signed_message t' e'" and "CHR 0x0A \<notin> set e" and "CHR 0x0A \<notin> set e'"
  shows "t = t' \<and> e = e'"
proof -
  have eq: "t @ CHR 0x0A # e = t' @ CHR 0x0A # e'" using assms(1) by (simp add: signed_message_def)
  have "takeWhile (\<lambda>c. c \<noteq> CHR 0x0A) (rev (t @ CHR 0x0A # e)) = rev e" if "CHR 0x0A \<notin> set e" for t e :: string
    using that by (auto simp: takeWhile_append)
  with eq assms(2,3) have "e = e'" by (metis rev_rev_ident)
  with eq show ?thesis by simp
qed

lemma RawURLEncode_no_dot: "CHR ''.'' \<notin> set (RawURLEncode bs)"
proof
  assume "CHR ''.'' \<in> set (RawURLEncode bs)"
  then have "CHR ''.'' \<in> set (EncodeToString bs)" by (auto simp: RawURLEncode_def split: if_splits)
  then obtain n where "n < 64" "CHR ''.'' = b64_char n" using encode_alphabet by force
  moreover have "b64_val (CHR ''.'') = None" by code_simp
  ultimately show False using b64_val_char(1) [of n] by simp
qed

lemma Itoa_no_dot: "CHR ''.'' \<notin> set (Itoa i)" "CHR 0x0A \<notin> set (Itoa i)"
  using Itoa_chars [of "CHR ''.''" i] Itoa_chars [of "CHR 0x0A" i] by (auto simp: is_digit_def)

lemma split_credential:
  "split_on CHR ''.'' (relayCredentialVersion @ ''.'' @ Itoa i @ ''.'' @ RawURLEncode sig) = [''v1'', Itoa i, RawURLEncode sig]"
proof -
  have "split_on CHR ''.'' (''v1'' @ CHR ''.'' # (Itoa i @ CHR ''.'' # RawURLEncode sig)) = [''v1'', Itoa i, RawURLEncode sig]"
    using Itoa_no_dot RawURLEncode_no_dot by (simp add: split_on_append_sep split_on_single del: append.simps)
  then show ?thesis by (simp add: relayCredentialVersion_def)
qed

text \<open>
C21: A credential opens the room it was issued for, until the second it expires in, and no other. With
a MAC of 32 bytes, an issued credential is accepted for a room exactly if the room has a name, the
time is before the expiry cut to whole seconds, and the MAC of that room and expiry is the one it
carries; and the signed text of another room with the same expiry is another text.
\<close>

theorem credential_opens_room:
  assumes "IssueCredential mac secret room expires = Inr credential"
    and "\<And>m. length (mac secret m) = 32" and "0 \<le> expires" and "expires < 2 ^ 62"
  shows "(ValidateCredential mac secret room' credential now \<longleftrightarrow>
      room' \<noteq> '''' \<and> now < expires div 1000000000 * 1000000000
      \<and> mac secret (signed_message room' (Itoa (Unix expires))) = mac secret (signed_message room (Itoa (Unix expires))))
    \<and> (signed_message room' (Itoa (Unix expires)) = signed_message room (Itoa (Unix expires)) \<longleftrightarrow> room' = room)"
proof (intro conjI)
  have cred: "secret \<noteq> ''''" "credential = relayCredentialVersion @ ''.'' @ Itoa (Unix expires) @ ''.'' @
      RawURLEncode (signCredential mac secret room (Itoa (Unix expires)))"
    using assms(1) by (auto simp: IssueCredential_def Let_def split: if_splits)
  have u: "0 \<le> Unix expires" "Unix expires < 2 ^ 62" using assms(3,4) by (auto simp: Unix_def)
  then have i: "in_i64 (Unix expires)" "in_i64 (Unix expires + unix_offset)" by (auto simp: in_i64_def unix_offset_def)
  have "before_unix now (Unix expires) \<longleftrightarrow> now < expires div 1000000000 * 1000000000"
    using add64_id [OF i(2)] by (simp add: before_unix_def Unix_def)
  then show "ValidateCredential mac secret room' credential now \<longleftrightarrow>
      room' \<noteq> '''' \<and> now < expires div 1000000000 * 1000000000
      \<and> mac secret (signed_message room' (Itoa (Unix expires))) = mac secret (signed_message room (Itoa (Unix expires)))"
    unfolding ValidateCredential_def cred(2) split_credential
    using cred(1) assms(2) ParseInt_Itoa [OF i(1)] by (auto simp: signCredential_def relayCredentialVersion_def)
  show "signed_message room' (Itoa (Unix expires)) = signed_message room (Itoa (Unix expires)) \<longleftrightarrow> room' = room"
    using signed_message_inj Itoa_no_dot(2) by blast
qed

lemma issue_example:
  "IssueCredential (\<lambda>_ m. replicate 32 (last m)) ''s'' ''room'' 5000000000 = Inr ''v1.5.NTU1NTU1NTU1NTU1NTU1NTU1NTU1NTU1NTU1NTU1NTU''"
  by code_simp

theorem credential_opens_room_witness:
  "ValidateCredential (\<lambda>_ m. replicate 32 (last m)) ''s'' ''room'' ''v1.5.NTU1NTU1NTU1NTU1NTU1NTU1NTU1NTU1NTU1NTU1NTU'' 4999999999
   \<and> \<not> ValidateCredential (\<lambda>_ m. replicate 32 (last m)) ''s'' ''room'' ''v1.5.NTU1NTU1NTU1NTU1NTU1NTU1NTU1NTU1NTU1NTU1NTU'' 5000000000"
  using credential_opens_room [OF issue_example, of "''room''" 4999999999] credential_opens_room [OF issue_example, of "''room''" 5000000000]
  by simp

end
