(* ===== verification/Direct_Candidates.thy ===== *)
theory Direct_Candidates
  imports Net_Addr
begin

text \<open>
  The candidate addresses of a direct connection (internal/directcandidate/candidate.go): what a peer
  may announce, and the order in which the addresses of the other are tried. The seen and known maps
  of the code are lists here.
\<close>

section \<open>Candidates\<close>

definition MaxCandidates :: nat where
  "MaxCandidates = 8"

record Candidate =
  cd_Address :: string
  cd_Kind :: string
  cd_Priority :: int

datatype candidate_error =
    InvalidCandidate string
  | InvalidKind string
  | InvalidPriority int
  | TooManyCandidates nat
  | TooManyMetadata nat
  | NotAdvertised string
  | DuplicateMetadata string

definition ValidKind :: "string \<Rightarrow> bool" where
  "ValidKind kind \<longleftrightarrow> kind = ''manual'' \<or> kind = ''ipv6-global'' \<or> kind = ''lan'' \<or> kind = ''public''
     \<or> kind = ''loopback'' \<or> kind = ''unknown''"

definition ValidateAddress :: "string \<Rightarrow> (candidate_error, unit) result" where
  "ValidateAddress address =
     (if address = '''' \<or> TrimSpace address \<noteq> address then Inl (InvalidCandidate address)
      else case SplitHostPort address of
        None \<Rightarrow> Inl (InvalidCandidate address)
      | Some (host, portText) \<Rightarrow>
          if TrimSpace host = '''' \<or> TrimSpace host \<noteq> host then Inl (InvalidCandidate address)
          else case Atoi portText of
            None \<Rightarrow> Inl (InvalidCandidate address)
          | Some port \<Rightarrow> if port < 1 \<or> 65535 < port then Inl (InvalidCandidate address) else Inr ())"

definition FromAddress :: "string \<Rightarrow> bool \<Rightarrow> (candidate_error, Candidate) result" where
  "FromAddress address manual =
     rbind (ValidateAddress address) (\<lambda>_.
     if manual then Inr \<lparr>cd_Address = address, cd_Kind = ''manual'', cd_Priority = 100\<rparr>
     else
       let unknown = \<lparr>cd_Address = address, cd_Kind = ''unknown'', cd_Priority = 50\<rparr>;
           host = (case SplitHostPort address of Some (host, _) \<Rightarrow> host | None \<Rightarrow> '''')
       in case ParseAddr host of
         None \<Rightarrow> Inr unknown
       | Some ip0 \<Rightarrow>
           let ip = Unmap ip0 in
           if IsLoopback ip then Inr \<lparr>cd_Address = address, cd_Kind = ''loopback'', cd_Priority = 20\<rparr>
           else if IsPrivate ip then Inr \<lparr>cd_Address = address, cd_Kind = ''lan'', cd_Priority = 70\<rparr>
           else if BitLen ip = 128 \<and> IsGlobalUnicast ip
           then Inr \<lparr>cd_Address = address, cd_Kind = ''ipv6-global'', cd_Priority = 90\<rparr>
           else Inr unknown)"

definition FromRelayObservation :: "string \<Rightarrow> (candidate_error, Candidate) result" where
  "FromRelayObservation address =
     rbind (FromAddress address False) (\<lambda>candidate.
     if cd_Kind candidate = ''ipv6-global'' then Inr candidate
     else Inr \<lparr>cd_Address = address, cd_Kind = ''public'', cd_Priority = 30\<rparr>)"

definition ValidateCandidate :: "Candidate \<Rightarrow> (candidate_error, unit) result" where
  "ValidateCandidate candidate =
     rbind (ValidateAddress (cd_Address candidate)) (\<lambda>_.
     rbind (check (ValidKind (cd_Kind candidate)) (InvalidKind (cd_Kind candidate))) (\<lambda>_.
     check (0 \<le> cd_Priority candidate \<and> cd_Priority candidate \<le> 100) (InvalidPriority (cd_Priority candidate))))"

definition ValidateSet :: "string list \<Rightarrow> Candidate list \<Rightarrow> (candidate_error, unit) result" where
  "ValidateSet addresses metadata =
     rbind (check (length addresses \<le> MaxCandidates) (TooManyCandidates (length addresses))) (\<lambda>_.
     rbind (check (length metadata \<le> MaxCandidates) (TooManyMetadata (length metadata))) (\<lambda>_.
     rbind (foldM (\<lambda>address known. rbind (ValidateAddress address) (\<lambda>_. Inr (known @ [address]))) addresses []) (\<lambda>known.
     rbind (foldM (\<lambda>candidate seen.
         rbind (ValidateCandidate candidate) (\<lambda>_.
         rbind (check (cd_Address candidate \<in> set known) (NotAdvertised (cd_Address candidate))) (\<lambda>_.
         rbind (check (cd_Address candidate \<notin> set seen) (DuplicateMetadata (cd_Address candidate))) (\<lambda>_.
         Inr (seen @ [cd_Address candidate]))))) metadata []) (\<lambda>_.
     Inr ()))))"

section \<open>Merging\<close>

definition first_valid :: "Candidate list \<Rightarrow> string \<Rightarrow> Candidate option" where
  "first_valid metadata address = find (\<lambda>c. cd_Address c = address \<and> ValidateCandidate c = Inr ()) metadata"

definition merge_step :: "Candidate list \<Rightarrow> string \<Rightarrow> Candidate list \<Rightarrow> Candidate list" where
  "merge_step metadata address out =
     (if MaxCandidates \<le> length out then out
      else if address \<in> cd_Address ` set out then out
      else case first_valid metadata address of
        Some candidate \<Rightarrow> out @ [candidate]
      | None \<Rightarrow> (case FromAddress address False of Inl _ \<Rightarrow> out | Inr candidate \<Rightarrow> out @ [candidate]))"

text \<open>\<open>sort.SliceStable\<close> with the larger priority first is the stable sort by the negated priority.\<close>

definition Merge :: "string list \<Rightarrow> Candidate list \<Rightarrow> Candidate list" where
  "Merge addresses metadata = sort_key (\<lambda>c. - cd_Priority c) (fold (merge_step metadata) addresses [])"

definition Addresses :: "Candidate list \<Rightarrow> string list" where
  "Addresses candidates =
     fold (\<lambda>candidate out.
         if MaxCandidates \<le> length out then out
         else if ValidateCandidate candidate \<noteq> Inr () then out
         else if cd_Address candidate \<in> set out then out
         else out @ [cd_Address candidate]) candidates []"

section \<open>What they give\<close>

lemma FromAddress_valid:
  assumes "FromAddress address manual = Inr c"
  shows "cd_Address c = address \<and> ValidateCandidate c = Inr ()"
proof -
  have v: "ValidateAddress address = Inr ()"
    using assms by (cases "ValidateAddress address") (simp_all add: FromAddress_def)
  have mk: "ValidateCandidate \<lparr>cd_Address = address, cd_Kind = k, cd_Priority = p\<rparr> = Inr ()" if "ValidKind k" "0 \<le> p" "p \<le> 100" for k p
    using v that by (simp add: ValidateCandidate_def)
  have kinds: "ValidKind ''manual''" "ValidKind ''unknown''" "ValidKind ''loopback''" "ValidKind ''lan''" "ValidKind ''ipv6-global''"
    by (simp_all add: ValidKind_def)
  show ?thesis
  proof (cases "manual \<or> ParseAddr (case SplitHostPort address of Some (host, _) \<Rightarrow> host | None \<Rightarrow> '''') = None")
    case True
    then show ?thesis using assms by (auto simp: FromAddress_def v mk kinds split: if_split_asm)
  next
    case False
    then obtain ip where ip: "ParseAddr (case SplitHostPort address of Some (host, _) \<Rightarrow> host | None \<Rightarrow> '''') = Some ip" "\<not> manual" by blast
    then show ?thesis using assms unfolding FromAddress_def v rbind_Inr Let_def
      by (simp add: ip mk kinds split: if_split_asm) (auto simp: mk kinds)
  qed
qed

definition merge_inv :: "string set \<Rightarrow> Candidate list \<Rightarrow> bool" where
  "merge_inv A out \<longleftrightarrow> distinct (map cd_Address out) \<and> length out \<le> MaxCandidates \<and> cd_Address ` set out \<subseteq> A
     \<and> (\<forall>c\<in>set out. ValidateCandidate c = Inr ())"

lemma merge_inv_add:
  "merge_inv A out \<Longrightarrow> length out < MaxCandidates \<Longrightarrow> cd_Address c \<notin> cd_Address ` set out \<Longrightarrow> cd_Address c \<in> A
    \<Longrightarrow> ValidateCandidate c = Inr () \<Longrightarrow> merge_inv A (out @ [c])"
  by (auto simp: merge_inv_def)

lemma merge_step_inv:
  assumes "merge_inv A out" and "address \<in> A"
  shows "merge_inv A (merge_step metadata address out)"
proof -
  have f: "cd_Address c = address \<and> ValidateCandidate c = Inr ()" if "first_valid metadata address = Some c" for c
    using that by (auto simp: first_valid_def find_Some_iff)
  have "merge_inv A (out @ [c])" if "\<not> MaxCandidates \<le> length out" "address \<notin> cd_Address ` set out"
      "cd_Address c = address \<and> ValidateCandidate c = Inr ()" for c
    using that assms by (intro merge_inv_add) auto
  then show ?thesis
    using assms(1) f FromAddress_valid [of address False] by (simp add: merge_step_def split: option.split sum.split)
qed

lemma merge_fold_inv: "merge_inv A out \<Longrightarrow> set as \<subseteq> A \<Longrightarrow> merge_inv A (fold (merge_step metadata) as out)"
  by (induction as arbitrary: out) (simp_all add: merge_step_inv)

text \<open>
  Whatever a peer announces, at most eight candidates are tried, each a valid address the peer
  advertised, none twice, the higher priorities first.
\<close>

lemma Merge_bounded:
  "length (Merge addresses metadata) \<le> 8 \<and> distinct (map cd_Address (Merge addresses metadata))
   \<and> cd_Address ` set (Merge addresses metadata) \<subseteq> set addresses
   \<and> (\<forall>c\<in>set (Merge addresses metadata). ValidateCandidate c = Inr ())
   \<and> sorted_wrt (\<lambda>a b. cd_Priority b \<le> cd_Priority a) (Merge addresses metadata)"
proof -
  let ?xs = "fold (merge_step metadata) addresses []"
  have i: "distinct (map cd_Address ?xs)" "length ?xs \<le> 8" "cd_Address ` set ?xs \<subseteq> set addresses" "\<forall>c\<in>set ?xs. ValidateCandidate c = Inr ()"
    using merge_fold_inv [of "set addresses" "[]" addresses metadata] by (simp_all add: merge_inv_def MaxCandidates_def)
  have "distinct (map cd_Address (Merge addresses metadata))"
    using i(1) by (simp add: Merge_def distinct_map)
  moreover have "sorted (map (\<lambda>c. - cd_Priority c) (Merge addresses metadata))" by (simp add: Merge_def)
  then have "sorted_wrt (\<lambda>a b. cd_Priority b \<le> cd_Priority a) (Merge addresses metadata)"
    by (simp add: sorted_map)
  ultimately show ?thesis using i(2-) by (simp add: Merge_def)
qed

lemma ValidateSet_ok:
  assumes "ValidateSet addresses metadata = Inr ()"
  shows "length addresses \<le> 8 \<and> length metadata \<le> 8 \<and> (\<forall>a\<in>set addresses. ValidateAddress a = Inr ())
    \<and> (\<forall>c\<in>set metadata. ValidateCandidate c = Inr () \<and> cd_Address c \<in> set addresses) \<and> distinct (map cd_Address metadata)"
proof -
  have known: "foldM (\<lambda>address known. rbind (ValidateAddress address) (\<lambda>_. Inr (known @ [address]))) as ks = Inr out
      \<Longrightarrow> out = ks @ as \<and> (\<forall>a\<in>set as. ValidateAddress a = Inr ())" for as ks out
    by (induction as arbitrary: ks) (fastforce simp: result_simps)+
  have meta: "foldM (\<lambda>candidate seen.
         rbind (ValidateCandidate candidate) (\<lambda>_.
         rbind (check (cd_Address candidate \<in> set known) (NotAdvertised (cd_Address candidate))) (\<lambda>_.
         rbind (check (cd_Address candidate \<notin> set seen) (DuplicateMetadata (cd_Address candidate))) (\<lambda>_.
         Inr (seen @ [cd_Address candidate]))))) ms seen = Inr out
      \<Longrightarrow> distinct seen \<Longrightarrow> distinct (seen @ map cd_Address ms) \<and> (\<forall>c\<in>set ms. ValidateCandidate c = Inr () \<and> cd_Address c \<in> set known)"
    for ms seen known out
  proof (induction ms arbitrary: seen)
    case (Cons c ms)
    from Cons.prems(1) have c: "ValidateCandidate c = Inr ()" "cd_Address c \<in> set known" "cd_Address c \<notin> set seen"
      and rest: "foldM (\<lambda>candidate seen.
         rbind (ValidateCandidate candidate) (\<lambda>_.
         rbind (check (cd_Address candidate \<in> set known) (NotAdvertised (cd_Address candidate))) (\<lambda>_.
         rbind (check (cd_Address candidate \<notin> set seen) (DuplicateMetadata (cd_Address candidate))) (\<lambda>_.
         Inr (seen @ [cd_Address candidate]))))) ms (seen @ [cd_Address c]) = Inr out"
      by (auto simp: result_simps)
    from Cons.IH [OF rest] c Cons.prems(2) show ?case by simp
  qed simp
  from assms obtain ks seen where len: "length addresses \<le> 8" "length metadata \<le> 8"
    and k: "foldM (\<lambda>address known. rbind (ValidateAddress address) (\<lambda>_. Inr (known @ [address]))) addresses [] = Inr ks"
    and m: "foldM (\<lambda>candidate seen.
         rbind (ValidateCandidate candidate) (\<lambda>_.
         rbind (check (cd_Address candidate \<in> set ks) (NotAdvertised (cd_Address candidate))) (\<lambda>_.
         rbind (check (cd_Address candidate \<notin> set seen) (DuplicateMetadata (cd_Address candidate))) (\<lambda>_.
         Inr (seen @ [cd_Address candidate]))))) metadata [] = Inr seen"
    unfolding ValidateSet_def rbind_eq_Inr check_eq_Inr MaxCandidates_def by blast
  from known [OF k] meta [OF m] len show ?thesis by simp
qed

end
