(* ===== verification/Rendezvous.thy ===== *)
theory Rendezvous
  imports Signal_Rooms Relay_Credential Direct_Candidates
begin

text \<open>
  The rendezvous of two peers that agree on a route or exchange their addresses
  (internal/service/rendezvous_ws.go, negotiate.go, direct.go). A registry holds the waiting peers by
  room and role; the second peer of a room completes it, and each peer is sent its outcome on a
  channel of capacity one. Peers are shared by pointer between the registry and the handlers of their
  connections, so they live in a heap. The outcomes a peer was ever sent are kept, with how many its
  handler has taken; what is on the channel is the rest. A plain send to a full channel blocks with
  the server's lock held and is the error \<open>BlockedResult\<close>. The token of a peer is kept with it for
  the statements; the code passes it along.
\<close>

section \<open>The registry\<close>

datatype rendezvous_error =
    RendezvousExpired
  | ProtocolsDiffer string string
  | CredentialRefused credential_error

record ('c, 'r) rendezvousPeer =
  rp_token :: string
  rp_role :: string
  rp_cap :: 'c
  rp_passive :: bool
  rp_result :: "(rendezvous_error, 'r) result list"
  rp_taken :: nat

record rendezvousRoom =
  rr_expires :: int
  rr_slots :: "string \<Rightarrow> nat option"

record ('c, 'r) rendezvousRegistry =
  rg_rooms :: "(string \<times> rendezvousRoom) list"
  rg_peer :: "nat \<rightharpoonup> ('c, 'r) rendezvousPeer"
  rg_next :: nat
  rg_passiveTTL :: int

definition peer_at :: "('c, 'r) rendezvousRegistry \<Rightarrow> nat \<Rightarrow> ('c, 'r) rendezvousPeer" where
  "peer_at g p = the (rg_peer g p)"

datatype registry_error = InvalidRendezvousRoom | RoleTaken string | BlockedResult

definition add_result ::
    "nat \<Rightarrow> (rendezvous_error, 'r) result \<Rightarrow> ('c, 'r) rendezvousRegistry \<Rightarrow> ('c, 'r) rendezvousRegistry" where
  "add_result p x g = g\<lparr>rg_peer := (rg_peer g)(p \<mapsto> (peer_at g p)\<lparr>rp_result := rp_result (peer_at g p) @ [x]\<rparr>)\<rparr>"

definition channel_full :: "('c, 'r) rendezvousRegistry \<Rightarrow> nat \<Rightarrow> bool" where
  "channel_full g p \<longleftrightarrow> 1 \<le> length (rp_result (peer_at g p)) - rp_taken (peer_at g p)"

definition send_result ::
    "nat \<Rightarrow> (rendezvous_error, 'r) result \<Rightarrow> ('c, 'r) rendezvousRegistry \<Rightarrow> (registry_error, ('c, 'r) rendezvousRegistry) result" where
  "send_result p x g = (if channel_full g p then Inl BlockedResult else Inr (add_result p x g))"

definition offer_result ::
    "nat \<Rightarrow> (rendezvous_error, 'r) result \<Rightarrow> ('c, 'r) rendezvousRegistry \<Rightarrow> ('c, 'r) rendezvousRegistry" where
  "offer_result p x g = (if channel_full g p then g else add_result p x g)"

text \<open>The slots of a room are those of the two roles.\<close>

definition registry_expire :: "string \<Rightarrow> rendezvousRoom \<Rightarrow> ('c, 'r) rendezvousRegistry \<Rightarrow> ('c, 'r) rendezvousRegistry" where
  "registry_expire token room g =
     (let g = fold (\<lambda>role g.
            case rr_slots room role of
              None \<Rightarrow> g
            | Some p \<Rightarrow> if rp_passive (peer_at g p) then g else offer_result p (Inl RendezvousExpired) g)
          [''sender'', ''receiver''] g
      in g\<lparr>rg_rooms := AList.delete token (rg_rooms g)\<rparr>)"

definition registry_join ::
    "string \<Rightarrow> string \<Rightarrow> 'c \<Rightarrow> bool \<Rightarrow> int \<Rightarrow> int \<Rightarrow> ('c, 'r) rendezvousRegistry
     \<Rightarrow> (registry_error, nat \<times> bool) result \<times> ('c, 'r) rendezvousRegistry" where
  "registry_join token role capability passive now ttl g =
     (if \<not> isRoomToken token \<or> \<not> isSignalRole role then (Inl InvalidRendezvousRoom, g)
      else
        let g = (case map_of (rg_rooms g) token of
                   Some room \<Rightarrow> if rr_expires room < now then registry_expire token room g else g
                 | None \<Rightarrow> g);
            room = (case map_of (rg_rooms g) token of
                   Some room \<Rightarrow> room
                 | None \<Rightarrow> \<lparr>rr_expires = (if passive \<and> 0 < rg_passiveTTL g then now + rg_passiveTTL g else now + ttl),
                            rr_slots = (\<lambda>_. None)\<rparr>);
            g = g\<lparr>rg_rooms := AList.update token room (rg_rooms g)\<rparr>;
            peer = \<lparr>rp_token = token, rp_role = role, rp_cap = capability, rp_passive = passive, rp_result = [], rp_taken = 0\<rparr>;
            room' = room\<lparr>rr_slots := (rr_slots room)(role \<mapsto> rg_next g),
                      rr_expires := (if \<not> passive \<and> rr_expires room < now + ttl then now + ttl else rr_expires room)\<rparr>;
            added = (Inr (rg_next g, True),
                     g\<lparr>rg_rooms := AList.update token room' (rg_rooms g),
                       rg_peer := (rg_peer g)(rg_next g \<mapsto> peer), rg_next := Suc (rg_next g)\<rparr>)
        in case rr_slots room role of
             None \<Rightarrow> added
           | Some existing \<Rightarrow>
               if passive then (Inr (existing, False), g)
               else if \<not> rp_passive (peer_at g existing) then (Inl (RoleTaken role), g)
               else added)"

definition registry_leave :: "nat \<Rightarrow> ('c, 'r) rendezvousRegistry \<Rightarrow> ('c, 'r) rendezvousRegistry" where
  "registry_leave p g =
     (let token = rp_token (peer_at g p); role = rp_role (peer_at g p) in
      case map_of (rg_rooms g) token of
        None \<Rightarrow> g
      | Some room \<Rightarrow>
          if rr_slots room role \<noteq> Some p then g
          else
            let room' = room\<lparr>rr_slots := (rr_slots room)(role := None)\<rparr> in
            if rr_slots room' ''sender'' = None \<and> rr_slots room' ''receiver'' = None
            then g\<lparr>rg_rooms := AList.delete token (rg_rooms g)\<rparr>
            else g\<lparr>rg_rooms := AList.update token room' (rg_rooms g)\<rparr>)"

definition expireBefore :: "int \<Rightarrow> ('c, 'r) rendezvousRegistry \<Rightarrow> ('c, 'r) rendezvousRegistry" where
  "expireBefore now g =
     fold (\<lambda>(token, room) g. if rr_expires room < now then registry_expire token room g else g) (rg_rooms g) g"

text \<open>The handler of a connection takes the outcome from the channel.\<close>

definition take_result :: "nat \<Rightarrow> ('c, 'r) rendezvousRegistry \<Rightarrow> ('c, 'r) rendezvousRegistry" where
  "take_result p g =
     (if channel_full g p then g\<lparr>rg_peer := (rg_peer g)(p \<mapsto> (peer_at g p)\<lparr>rp_taken := Suc (rp_taken (peer_at g p))\<rparr>)\<rparr> else g)"

text \<open>
  When both roles of a room are there, each peer is sent its outcome and the room is removed;
  \<open>skip\<close> leaves out the peers that were only observed.
\<close>

definition complete_room ::
    "(string \<Rightarrow> int \<Rightarrow> 'c \<Rightarrow> 'c \<Rightarrow> (rendezvous_error, 'r) result \<times> (rendezvous_error, 'r) result) \<Rightarrow> bool
     \<Rightarrow> string \<Rightarrow> int \<Rightarrow> ('c, 'r) rendezvousRegistry \<Rightarrow> (registry_error, ('c, 'r) rendezvousRegistry) result" where
  "complete_room decide skip token now g =
     (case map_of (rg_rooms g) token of
        None \<Rightarrow> Inr g
      | Some room \<Rightarrow>
          (case (rr_slots room ''sender'', rr_slots room ''receiver'') of
             (Some sender, Some receiver) \<Rightarrow>
               let d = decide token now (rp_cap (peer_at g sender)) (rp_cap (peer_at g receiver)) in
               rbind (if skip \<and> rp_passive (peer_at g sender) then Inr g else send_result sender (fst d) g) (\<lambda>g.
               rbind (if skip \<and> rp_passive (peer_at g receiver) then Inr g else send_result receiver (snd d) g) (\<lambda>g.
               Inr (g\<lparr>rg_rooms := AList.delete token (rg_rooms g)\<rparr>)))
           | _ \<Rightarrow> Inr g))"

definition join_rendezvous ::
    "(string \<Rightarrow> int \<Rightarrow> 'c \<Rightarrow> 'c \<Rightarrow> (rendezvous_error, 'r) result \<times> (rendezvous_error, 'r) result) \<Rightarrow> bool \<Rightarrow> int
     \<Rightarrow> string \<Rightarrow> string \<Rightarrow> 'c \<Rightarrow> bool \<Rightarrow> int \<Rightarrow> ('c, 'r) rendezvousRegistry
     \<Rightarrow> (registry_error, nat) result \<times> ('c, 'r) rendezvousRegistry" where
  "join_rendezvous decide skip ttl token role capability passive now g =
     (case registry_join token role capability passive now ttl g of
        (Inl e, g) \<Rightarrow> (Inl e, g)
      | (Inr (joined, changed), g) \<Rightarrow>
          if \<not> changed then (Inr joined, g)
          else case complete_room decide skip token now g of
            Inl e \<Rightarrow> (Inl e, g)
          | Inr g \<Rightarrow> (Inr joined, g))"

section \<open>Route negotiation\<close>

definition passiveNegotiationTTL :: int where
  "passiveNegotiationTTL = 30 * 1000000000"

definition no_peers :: "int \<Rightarrow> ('c, 'r) rendezvousRegistry" where
  "no_peers passiveTTL =
     \<lparr>rg_rooms = [], rg_peer = Map.empty, rg_next = 0, rg_passiveTTL = passiveTTL\<rparr>"

definition newNegotiationRegistry :: "(Capability, Response) rendezvousRegistry" where
  "newNegotiationRegistry = no_peers passiveNegotiationTTL"

record negotiation_config =
  nc_RoomTTL :: int
  nc_NativeRelay :: string
  nc_NativeRelaySecret :: string
  nc_NativeRelayCredentialTTL :: int

definition protocol_or_empty :: "string \<Rightarrow> string" where
  "protocol_or_empty v = (case NormalizeProtocol v of Inr p \<Rightarrow> p | Inl _ \<Rightarrow> '''')"

text \<open>The outcome of a completed negotiation; both peers are sent the same.\<close>

definition negotiation_outcome ::
    "(string \<Rightarrow> string \<Rightarrow> string) \<Rightarrow> negotiation_config \<Rightarrow> string \<Rightarrow> int \<Rightarrow> Capability \<Rightarrow> Capability
     \<Rightarrow> (rendezvous_error, Response) result" where
  "negotiation_outcome mac cfg token now sender receiver =
     (let senderProtocol = protocol_or_empty (ca_Protocol sender);
          receiverProtocol = protocol_or_empty (ca_Protocol receiver);
          response = Choose sender receiver (nc_NativeRelay cfg)
      in
      if senderProtocol \<noteq> receiverProtocol then Inl (ProtocolsDiffer senderProtocol receiverProtocol)
      else if rs_Reason response = ''service-native-relay'' \<and> nc_NativeRelaySecret cfg \<noteq> '''' then
        (case IssueCredential mac (nc_NativeRelaySecret cfg) token (now + nc_NativeRelayCredentialTTL cfg) of
           Inl e \<Rightarrow> Inl (CredentialRefused e)
         | Inr credential \<Rightarrow> Inr (response\<lparr>rs_RelayCredential := credential\<rparr>))
      else Inr response)"

definition completeNegotiationLocked ::
    "(string \<Rightarrow> string \<Rightarrow> string) \<Rightarrow> negotiation_config \<Rightarrow> string \<Rightarrow> int \<Rightarrow> Capability \<Rightarrow> Capability
     \<Rightarrow> (rendezvous_error, Response) result \<times> (rendezvous_error, Response) result" where
  "completeNegotiationLocked mac cfg token now sender receiver =
     (let outcome = negotiation_outcome mac cfg token now sender receiver in (outcome, outcome))"

definition joinNegotiation where
  "joinNegotiation mac cfg = join_rendezvous (completeNegotiationLocked mac cfg) True (nc_RoomTTL cfg)"

definition observeWebRTCOnlyProtocol where
  "observeWebRTCOnlyProtocol mac cfg token role protocol now g =
     joinNegotiation mac cfg token role
       \<lparr>ca_Type = ''negotiate'', ca_Version = NegotiationVersion, ca_Client = ''webrtc'', ca_Protocol = protocol,
        ca_NativeRelay = '''', ca_NativeLocal = False, ca_NativeDirect = False, ca_Features = []\<rparr> True now g"

section \<open>Exchange of direct addresses\<close>

record directCapability =
  dc_Type :: string
  dc_Version :: int
  dc_Candidates :: "string list"
  dc_CandidateMetadata :: "Candidate list"
  dc_ConnectionCount :: int
  dc_Preference :: string
  dc_Bidirectional :: bool
  dc_RelayFallback :: bool
  dc_NATProbe :: bool
  dc_NATClass :: string
  dc_UDPPunch :: bool
  dc_UDPCandidates :: "string list"

record directResponse =
  dr_Type :: string
  dr_Version :: int
  dr_PeerCandidates :: "string list"
  dr_PeerCandidateMetadata :: "Candidate list"
  dr_PeerConnectionCount :: int
  dr_PeerPreference :: string
  dr_PeerBidirectional :: bool
  dr_PunchAtMillis :: int
  dr_PeerRelayFallback :: bool
  dr_PeerNATProbe :: bool
  dr_PeerNATClass :: string
  dr_PeerUDPPunch :: bool
  dr_PeerUDPCandidates :: "string list"

definition ValidNATClass :: "string \<Rightarrow> bool" where
  "ValidNATClass value \<longleftrightarrow> value = ''unknown'' \<or> value = ''open'' \<or> value = ''cone'' \<or> value = ''symmetric''"

datatype direct_error =
    UnsupportedDirect | DirectConnectionCount | InvalidDirectPreference | InvalidNATClass | NATClassNeedsProbe
  | NATProbeNeedsClass | PunchNeedsCandidates | PunchNeedsBidirectional | CandidatesNeedPunch
  | BidirectionalNeedsCandidates | BadCandidates candidate_error

definition validateDirectCapability :: "directCapability \<Rightarrow> (direct_error, unit) result" where
  "validateDirectCapability c =
     (if dc_Type c \<noteq> ''direct'' \<or> dc_Version c \<noteq> 1 then Inl UnsupportedDirect
      else if dc_ConnectionCount c < 1 \<or> 8 < dc_ConnectionCount c then Inl DirectConnectionCount
      else if dc_Preference c \<noteq> ''prefer-direct'' \<and> dc_Preference c \<noteq> ''prefer-relay'' then Inl InvalidDirectPreference
      else if dc_NATClass c \<noteq> '''' \<and> \<not> ValidNATClass (dc_NATClass c) then Inl InvalidNATClass
      else if dc_NATClass c \<noteq> '''' \<and> \<not> dc_NATProbe c then Inl NATClassNeedsProbe
      else if dc_NATProbe c \<and> dc_NATClass c = '''' then Inl NATProbeNeedsClass
      else if dc_UDPPunch c \<and> dc_UDPCandidates c = [] then Inl PunchNeedsCandidates
      else if dc_UDPPunch c \<and> \<not> dc_Bidirectional c then Inl PunchNeedsBidirectional
      else if \<not> dc_UDPPunch c \<and> dc_UDPCandidates c \<noteq> [] then Inl CandidatesNeedPunch
      else case ValidateSet (dc_UDPCandidates c) [] of
        Inl e \<Rightarrow> Inl (BadCandidates e)
      | Inr _ \<Rightarrow>
          if dc_Bidirectional c \<and> dc_Candidates c = [] then Inl BidirectionalNeedsCandidates
          else case ValidateSet (dc_Candidates c) (dc_CandidateMetadata c) of
            Inl e \<Rightarrow> Inl (BadCandidates e)
          | Inr _ \<Rightarrow> Inr ())"

definition directPeerResponse :: "directCapability \<Rightarrow> int \<Rightarrow> directResponse" where
  "directPeerResponse peer punchAtMillis =
     \<lparr>dr_Type = ''direct_peer'', dr_Version = 1, dr_PeerCandidates = dc_Candidates peer,
      dr_PeerCandidateMetadata = dc_CandidateMetadata peer, dr_PeerConnectionCount = dc_ConnectionCount peer,
      dr_PeerPreference = dc_Preference peer, dr_PeerBidirectional = dc_Bidirectional peer, dr_PunchAtMillis = punchAtMillis,
      dr_PeerRelayFallback = dc_RelayFallback peer, dr_PeerNATProbe = dc_NATProbe peer, dr_PeerNATClass = dc_NATClass peer,
      dr_PeerUDPPunch = dc_UDPPunch peer, dr_PeerUDPCandidates = dc_UDPCandidates peer\<rparr>"

definition completeDirectLocked ::
    "string \<Rightarrow> int \<Rightarrow> directCapability \<Rightarrow> directCapability
     \<Rightarrow> (rendezvous_error, directResponse) result \<times> (rendezvous_error, directResponse) result" where
  "completeDirectLocked token now sender receiver =
     (let punchAtMillis = (if dc_Bidirectional sender \<and> dc_Bidirectional receiver then (now + 150 * 1000000) div 1000000 else 0)
      in (Inr (directPeerResponse receiver punchAtMillis), Inr (directPeerResponse sender punchAtMillis)))"

definition newDirectRegistry :: "(directCapability, directResponse) rendezvousRegistry" where
  "newDirectRegistry = no_peers 0"

definition joinDirect where
  "joinDirect ttl token role capability now g = join_rendezvous completeDirectLocked False ttl token role capability False now g"

end
