(* ===== verification/Rendezvous_Safety.thy ===== *)
theory Rendezvous_Safety
  imports Rendezvous
begin

text \<open>
  What a rendezvous promises, proved once for every way of deciding the outcome of a pair: no send of
  an outcome ever blocks, a peer is sent at most one outcome, and the two outcomes of a pair are those
  of one decision. The locale fixes the decision; it is interpreted for the negotiation of routes and
  for the exchange of direct addresses.
\<close>

section \<open>Steps\<close>

datatype 'c rendezvous_request =
    RJoin string string 'c bool int
  | RLeave nat
  | RExpire int
  | RTake nat

definition rendezvous_step ::
    "(string \<Rightarrow> int \<Rightarrow> 'c \<Rightarrow> 'c \<Rightarrow> (rendezvous_error, 'r) result \<times> (rendezvous_error, 'r) result) \<Rightarrow> bool \<Rightarrow> int
     \<Rightarrow> 'c rendezvous_request \<Rightarrow> ('c, 'r) rendezvousRegistry \<Rightarrow> (registry_error, unit) result \<times> ('c, 'r) rendezvousRegistry" where
  "rendezvous_step decide skip ttl rq g =
     (case rq of
        RJoin token role capability passive now \<Rightarrow>
          (case join_rendezvous decide skip ttl token role capability passive now g of
             (Inl e, g') \<Rightarrow> (Inl e, g') | (Inr _, g') \<Rightarrow> (Inr (), g'))
      | RLeave p \<Rightarrow> (Inr (), registry_leave p g)
      | RExpire now \<Rightarrow> (Inr (), expireBefore now g)
      | RTake p \<Rightarrow> (Inr (), take_result p g))"

text \<open>Peers are only observed where observed peers are left out; the peers a request names exist.\<close>

definition rendezvous_known :: "bool \<Rightarrow> 'c rendezvous_request \<Rightarrow> ('c, 'r) rendezvousRegistry \<Rightarrow> bool" where
  "rendezvous_known skip rq g \<longleftrightarrow>
     (case rq of RJoin _ _ _ passive _ \<Rightarrow> passive \<longrightarrow> skip | RLeave p \<Rightarrow> p < rg_next g | RTake p \<Rightarrow> p < rg_next g | RExpire _ \<Rightarrow> True)"

inductive rendezvous_reached for decide skip ttl pttl where
  start: "rendezvous_reached decide skip ttl pttl (no_peers pttl)"
| request: "rendezvous_reached decide skip ttl pttl g \<Longrightarrow> rendezvous_known skip rq g
    \<Longrightarrow> rendezvous_reached decide skip ttl pttl (snd (rendezvous_step decide skip ttl rq g))"

section \<open>The invariant\<close>

definition waiting_peer :: "('c, 'r) rendezvousRegistry \<Rightarrow> string \<Rightarrow> string \<Rightarrow> nat \<Rightarrow> bool" where
  "waiting_peer g token role p \<longleftrightarrow> p < rg_next g \<and> isSignalRole role \<and> rp_token (peer_at g p) = token \<and> rp_role (peer_at g p) = role
     \<and> rp_result (peer_at g p) = [] \<and> rp_taken (peer_at g p) = 0"

definition rooms_ok :: "('c, 'r) rendezvousRegistry \<Rightarrow> bool" where
  "rooms_ok g \<longleftrightarrow> distinct (map fst (rg_rooms g))
     \<and> (\<forall>(token, room)\<in>set (rg_rooms g). \<forall>role p. rr_slots room role = Some p \<longrightarrow> waiting_peer g token role p)"

text \<open>The outcomes of a pair that met, as far as its peers were not only observed.\<close>

definition settled where
  "settled decide skip g s r \<longleftrightarrow> rp_role (peer_at g s) = ''sender'' \<and> rp_role (peer_at g r) = ''receiver''
     \<and> rp_token (peer_at g s) = rp_token (peer_at g r)
     \<and> (\<exists>now. let d = decide (rp_token (peer_at g s)) now (rp_cap (peer_at g s)) (rp_cap (peer_at g r)) in
          (skip \<and> rp_passive (peer_at g s) \<or> rp_result (peer_at g s) = [fst d])
          \<and> (skip \<and> rp_passive (peer_at g r) \<or> rp_result (peer_at g r) = [snd d]))"

definition answered where
  "answered decide skip g p \<longleftrightarrow> rp_result (peer_at g p) = [] \<or> rp_result (peer_at g p) = [Inl RendezvousExpired]
     \<or> (\<exists>q < rg_next g. settled decide skip g p q \<or> settled decide skip g q p)"

definition rendezvous_inv where
  "rendezvous_inv decide skip g \<longleftrightarrow> rooms_ok g
     \<and> (\<forall>p < rg_next g. length (rp_result (peer_at g p)) \<le> 1 \<and> rp_taken (peer_at g p) \<le> length (rp_result (peer_at g p))
          \<and> answered decide skip g p)"

text \<open>A step that only adds peers and gives outcomes to peers that had none.\<close>

definition evolves :: "('c, 'r) rendezvousRegistry \<Rightarrow> ('c, 'r) rendezvousRegistry \<Rightarrow> bool" where
  "evolves g g' \<longleftrightarrow> rg_next g \<le> rg_next g'
     \<and> (\<forall>p < rg_next g. rp_token (peer_at g' p) = rp_token (peer_at g p) \<and> rp_role (peer_at g' p) = rp_role (peer_at g p)
          \<and> rp_cap (peer_at g' p) = rp_cap (peer_at g p) \<and> rp_passive (peer_at g' p) = rp_passive (peer_at g p)
          \<and> (rp_result (peer_at g p) \<noteq> [] \<longrightarrow> rp_result (peer_at g' p) = rp_result (peer_at g p)))"

lemma evolves_refl [simp]: "evolves g g"
  by (simp add: evolves_def)

lemma evolves_trans: "evolves g g' \<Longrightarrow> evolves g' g'' \<Longrightarrow> evolves g g''"
proof -
  assume a: "evolves g g'" "evolves g' g''"
  have "p < rg_next g \<Longrightarrow> p < rg_next g'" for p using a(1) by (simp add: evolves_def)
  with a show ?thesis by (simp add: evolves_def)
qed

lemma settled_evolves:
  assumes "settled decide skip g s r" and "evolves g g'" and "s < rg_next g" and "r < rg_next g"
  shows "settled decide skip g' s r"
proof -
  from assms(2-4) have s: "rp_token (peer_at g' s) = rp_token (peer_at g s)" "rp_role (peer_at g' s) = rp_role (peer_at g s)"
      "rp_cap (peer_at g' s) = rp_cap (peer_at g s)" "rp_passive (peer_at g' s) = rp_passive (peer_at g s)"
      "rp_result (peer_at g s) = [x] \<Longrightarrow> rp_result (peer_at g' s) = [x]"
    and r: "rp_token (peer_at g' r) = rp_token (peer_at g r)" "rp_role (peer_at g' r) = rp_role (peer_at g r)"
      "rp_cap (peer_at g' r) = rp_cap (peer_at g r)" "rp_passive (peer_at g' r) = rp_passive (peer_at g r)"
      "rp_result (peer_at g r) = [x] \<Longrightarrow> rp_result (peer_at g' r) = [x]" for x
    by (auto simp: evolves_def)
  show ?thesis using assms(1) unfolding settled_def Let_def s(1-4) r(1-4) using s(5) r(5) by blast
qed

lemma answered_evolves:
  assumes "answered decide skip g p" and "evolves g g'" and "p < rg_next g" and "rp_result (peer_at g p) \<noteq> []"
  shows "answered decide skip g' p"
proof -
  have same: "rp_result (peer_at g' p) = rp_result (peer_at g p)" and le: "rg_next g \<le> rg_next g'"
    using assms(2-4) by (auto simp: evolves_def)
  from assms(1,4) consider "rp_result (peer_at g p) = [Inl RendezvousExpired]"
    | q where "q < rg_next g" "settled decide skip g p q \<or> settled decide skip g q p" by (auto simp: answered_def)
  then show ?thesis
  proof cases
    case 2
    then show ?thesis
      using settled_evolves [OF _ assms(2)] assms(3) le unfolding answered_def by (meson order_less_le_trans)
  qed (simp add: answered_def same)
qed

lemma inv_step:
  assumes "rendezvous_inv decide skip g" and "evolves g g'" and "rooms_ok g'"
    and "\<And>p. p < rg_next g' \<Longrightarrow> length (rp_result (peer_at g' p)) \<le> 1 \<and> rp_taken (peer_at g' p) \<le> length (rp_result (peer_at g' p))
      \<and> (p < rg_next g \<and> rp_result (peer_at g p) \<noteq> [] \<or> answered decide skip g' p)"
  shows "rendezvous_inv decide skip g'"
  using assms answered_evolves [OF _ assms(2)] unfolding rendezvous_inv_def by blast

lemma peer_at_simps [simp]:
  "peer_at (g\<lparr>rg_rooms := al, rg_peer := (rg_peer g)(k \<mapsto> peer), rg_next := n\<rparr>) q = (if q = k then peer else peer_at g q)"
  "peer_at (g\<lparr>rg_rooms := al\<rparr>) q = peer_at g q" "rg_next (add_result p x g) = rg_next g" "rg_rooms (add_result p x g) = rg_rooms g"
  "peer_at (add_result p x g) q = (if q = p then (peer_at g p)\<lparr>rp_result := rp_result (peer_at g p) @ [x]\<rparr> else peer_at g q)"
  by (simp_all add: peer_at_def add_result_def)

lemma rooms_okD:
  assumes "rooms_ok g"
  shows "distinct (map fst (rg_rooms g))"
    and "map_of (rg_rooms g) token = Some room \<Longrightarrow> rr_slots room role = Some p \<Longrightarrow> waiting_peer g token role p"
  using assms by (auto simp: rooms_ok_def dest!: map_of_SomeD)

lemma rooms_okI:
  assumes "distinct (map fst (rg_rooms g))"
    and "\<And>token room role p. map_of (rg_rooms g) token = Some room \<Longrightarrow> rr_slots room role = Some p \<Longrightarrow> waiting_peer g token role p"
  shows "rooms_ok g"
  using assms by (auto simp: rooms_ok_def)

section \<open>Expiry\<close>

text \<open>The peers of a room, as far as they are not only observed.\<close>

definition slot_peer :: "('c, 'r) rendezvousRegistry \<Rightarrow> rendezvousRoom \<Rightarrow> nat \<Rightarrow> bool" where
  "slot_peer g room p \<longleftrightarrow> (rr_slots room ''sender'' = Some p \<or> rr_slots room ''receiver'' = Some p) \<and> \<not> rp_passive (peer_at g p)"

lemma expire_effect:
  fixes g :: "('c, 'r) rendezvousRegistry"
  assumes "rooms_ok g" and "map_of (rg_rooms g) token = Some room"
  shows "rg_rooms (registry_expire token room g) = AList.delete token (rg_rooms g)"
    and "rg_next (registry_expire token room g) = rg_next g"
    and "peer_at (registry_expire token room g) p =
      (if slot_peer g room p then (peer_at g p)\<lparr>rp_result := [Inl RendezvousExpired]\<rparr> else peer_at g p)"
proof -
  let ?f = "\<lambda>role (g :: ('c, 'r) rendezvousRegistry). case rr_slots room role of
              None \<Rightarrow> g | Some p \<Rightarrow> if rp_passive (peer_at g p) then g else offer_result p (Inl RendezvousExpired) g"
  have w: "waiting_peer g token role q" if "rr_slots room role = Some q" for role q
    using rooms_okD(2) [OF assms] that by simp
  have f: "rg_rooms (?f role h) = rg_rooms h \<and> rg_next (?f role h) = rg_next h" for role and h :: "('c, 'r) rendezvousRegistry"
    by (simp add: offer_result_def split: option.split)
  then show "rg_rooms (registry_expire token room g) = AList.delete token (rg_rooms g)" "rg_next (registry_expire token room g) = rg_next g"
    by (simp_all add: registry_expire_def Let_def)
  have one: "peer_at (?f role h) q = (if rr_slots room role = Some q \<and> \<not> rp_passive (peer_at h q)
        then (peer_at h q)\<lparr>rp_result := [Inl RendezvousExpired]\<rparr> else peer_at h q)"
    if "\<And>p. rr_slots room role = Some p \<Longrightarrow> rp_result (peer_at h p) = [] \<and> rp_taken (peer_at h p) = 0" for role q and h :: "('c, 'r) rendezvousRegistry"
    using that by (auto simp: offer_result_def channel_full_def split: option.split)
  define g1 where "g1 = ?f ''sender'' g"
  define g2 where "g2 = ?f ''receiver'' g1"
  have s: "peer_at g1 q = (if rr_slots room ''sender'' = Some q \<and> \<not> rp_passive (peer_at g q)
        then (peer_at g q)\<lparr>rp_result := [Inl RendezvousExpired]\<rparr> else peer_at g q)" for q
    unfolding g1_def using w by (intro one) (auto simp: waiting_peer_def)
  have diff: "rr_slots room ''receiver'' = Some q \<Longrightarrow> rr_slots room ''sender'' \<noteq> Some q" for q
    using w [of "''sender''" q] w [of "''receiver''" q] by (auto simp: waiting_peer_def)
  have r: "peer_at g2 q = (if rr_slots room ''receiver'' = Some q \<and> \<not> rp_passive (peer_at g1 q)
        then (peer_at g1 q)\<lparr>rp_result := [Inl RendezvousExpired]\<rparr> else peer_at g1 q)" for q
    unfolding g2_def using w diff by (intro one) (auto simp: s waiting_peer_def)
  have "peer_at (registry_expire token room g) p = peer_at g2 p"
    unfolding registry_expire_def Let_def g1_def g2_def by simp
  also have "\<dots> = (if slot_peer g room p then (peer_at g p)\<lparr>rp_result := [Inl RendezvousExpired]\<rparr> else peer_at g p)"
    using diff [of p] unfolding r s slot_peer_def by auto
  finally show "peer_at (registry_expire token room g) p =
      (if slot_peer g room p then (peer_at g p)\<lparr>rp_result := [Inl RendezvousExpired]\<rparr> else peer_at g p)" .
qed

lemma slot_peer_waits:
  assumes "rooms_ok g" and "map_of (rg_rooms g) token = Some room" and "slot_peer g room p"
  shows "p < rg_next g \<and> rp_token (peer_at g p) = token \<and> rp_result (peer_at g p) = [] \<and> rp_taken (peer_at g p) = 0"
  using assms rooms_okD(2) [OF assms(1,2)] by (auto simp: slot_peer_def waiting_peer_def)

lemma expire_keeps:
  assumes inv: "rendezvous_inv decide skip g" and m: "map_of (rg_rooms g) token = Some room"
  shows "rendezvous_inv decide skip (registry_expire token room g)" and "evolves g (registry_expire token room g)"
proof -
  let ?g = "registry_expire token room g"
  have ok: "rooms_ok g" using inv by (simp add: rendezvous_inv_def)
  note e = expire_effect [OF ok m] and w = slot_peer_waits [OF ok m]
  show ev: "evolves g ?g" using w by (auto simp: evolves_def e)
  have "rooms_ok ?g"
  proof (rule rooms_okI)
    show "distinct (map fst (rg_rooms ?g))" using rooms_okD(1) [OF ok] by (simp add: e distinct_delete)
    fix t x role p
    assume t: "map_of (rg_rooms ?g) t = Some x" "rr_slots x role = Some p"
    then have old: "t \<noteq> token" "map_of (rg_rooms g) t = Some x" by (auto simp: e delete_conv split: if_splits)
    from rooms_okD(2) [OF ok old(2) t(2)] w [of p] old(1) show "waiting_peer ?g t role p"
      by (auto simp: waiting_peer_def e)
  qed
  then show "rendezvous_inv decide skip ?g"
    using inv w by (intro inv_step [OF inv ev]) (auto simp: e rendezvous_inv_def answered_def)
qed

lemma expire_loop_keeps:
  assumes "rendezvous_inv decide skip g" and "distinct (map fst ps)" and "\<And>t x. (t, x) \<in> set ps \<Longrightarrow> map_of (rg_rooms g) t = Some x"
  shows "rendezvous_inv decide skip (fold (\<lambda>(token, room) g. if rr_expires room < now then registry_expire token room g else g) ps g)"
  using assms
proof (induction ps arbitrary: g)
  case (Cons p ps)
  obtain t x where p: "p = (t, x)" by (cases p)
  have m: "map_of (rg_rooms g) t = Some x" using Cons.prems(3) p by simp
  show ?case
  proof (cases "rr_expires x < now")
    case True
    have ok: "rooms_ok g" using Cons.prems(1) by (simp add: rendezvous_inv_def)
    have "map_of (rg_rooms (registry_expire t x g)) t' = Some x'" if "(t', x') \<in> set ps" for t' x'
    proof -
      have "t' \<noteq> t" using that Cons.prems(2) p by (force simp: image_iff)
      then show ?thesis using that Cons.prems(3) by (simp add: expire_effect [OF ok m] delete_conv)
    qed
    then show ?thesis
      using Cons.IH [OF expire_keeps(1) [OF Cons.prems(1) m]] Cons.prems(2) True p by simp
  qed (use Cons p in simp)
qed simp

lemma expireBefore_keeps: "rendezvous_inv decide skip g \<Longrightarrow> rendezvous_inv decide skip (expireBefore now g)"
  unfolding expireBefore_def by (rule expire_loop_keeps) (auto simp: rendezvous_inv_def rooms_ok_def)

section \<open>Taking and leaving\<close>

lemma take_keeps:
  assumes inv: "rendezvous_inv decide skip g" and p: "p < rg_next g"
  shows "rendezvous_inv decide skip (take_result p g)"
proof (cases "channel_full g p")
  case True
  let ?g = "take_result p g"
  have g: "rg_rooms ?g = rg_rooms g" "rg_next ?g = rg_next g"
    "peer_at ?g q = (if q = p then (peer_at g p)\<lparr>rp_taken := Suc (rp_taken (peer_at g p))\<rparr> else peer_at g q)" for q
    using True by (simp_all add: take_result_def peer_at_def)
  have full: "rp_result (peer_at g p) \<noteq> []" "rp_taken (peer_at g p) < length (rp_result (peer_at g p))"
    using True by (auto simp: channel_full_def)
  have ok: "rooms_ok g" using inv by (simp add: rendezvous_inv_def)
  have "rooms_ok ?g"
  proof (rule rooms_okI)
    fix t x role q
    assume t: "map_of (rg_rooms ?g) t = Some x" "rr_slots x role = Some q"
    from rooms_okD(2) [OF ok t(1) [unfolded g] t(2)] full(1) show "waiting_peer ?g t role q"
      by (auto simp: waiting_peer_def g)
  qed (use rooms_okD(1) [OF ok] g in simp)
  then show ?thesis
    using inv full by (intro inv_step [OF inv]) (auto simp: evolves_def g rendezvous_inv_def answered_def)
qed (use inv in \<open>simp add: take_result_def\<close>)

lemma rooms_change_keeps:
  assumes inv: "rendezvous_inv decide skip g" and "distinct (map fst al)"
    and "\<And>t x role p. map_of al t = Some x \<Longrightarrow> rr_slots x role = Some p \<Longrightarrow> \<exists>y. map_of (rg_rooms g) t = Some y \<and> rr_slots y role = Some p"
  shows "rendezvous_inv decide skip (g\<lparr>rg_rooms := al\<rparr>)"
proof -
  have ok: "rooms_ok g" using inv by (simp add: rendezvous_inv_def)
  have "rooms_ok (g\<lparr>rg_rooms := al\<rparr>)"
  proof (rule rooms_okI)
    fix t x role p
    assume t: "map_of (rg_rooms (g\<lparr>rg_rooms := al\<rparr>)) t = Some x" "rr_slots x role = Some p"
    then obtain y where "map_of (rg_rooms g) t = Some y" "rr_slots y role = Some p" using assms(3) [of t x role p] by auto
    from rooms_okD(2) [OF ok this] show "waiting_peer (g\<lparr>rg_rooms := al\<rparr>) t role p" by (simp add: waiting_peer_def)
  qed (use assms(2) in simp)
  then show ?thesis
    using inv by (intro inv_step [OF inv]) (auto simp: evolves_def rendezvous_inv_def answered_def)
qed

lemma leave_keeps_rendezvous:
  assumes inv: "rendezvous_inv decide skip g"
  shows "rendezvous_inv decide skip (registry_leave p g)"
proof -
  have d: "distinct (map fst (rg_rooms g))" using inv by (simp add: rendezvous_inv_def rooms_ok_def)
  let ?token = "rp_token (peer_at g p)" and ?role = "rp_role (peer_at g p)"
  show ?thesis
  proof (cases "map_of (rg_rooms g) ?token")
    case (Some room)
    have "rendezvous_inv decide skip (g\<lparr>rg_rooms := AList.delete ?token (rg_rooms g)\<rparr>)"
      by (rule rooms_change_keeps [OF inv]) (auto simp: d distinct_delete delete_conv split: if_splits)
    moreover have "rendezvous_inv decide skip
        (g\<lparr>rg_rooms := AList.update ?token (room\<lparr>rr_slots := (rr_slots room)(?role := None)\<rparr>) (rg_rooms g)\<rparr>)"
      by (rule rooms_change_keeps [OF inv]) (use Some in \<open>auto simp: d distinct_update update_conv split: if_splits\<close>)
    ultimately show ?thesis using inv Some by (simp add: registry_leave_def Let_def)
  qed (use inv in \<open>simp add: registry_leave_def Let_def\<close>)
qed

section \<open>Joining and completing\<close>

lemma add_peer_keeps:
  assumes inv: "rendezvous_inv decide skip g" and role: "isSignalRole role" and m: "map_of (rg_rooms g) token = Some room"
    and peer: "rp_token peer = token" "rp_role peer = role" "rp_result peer = []" "rp_taken peer = 0"
    and slots: "rr_slots room' = (rr_slots room)(role \<mapsto> rg_next g)"
  shows "rendezvous_inv decide skip
    (g\<lparr>rg_rooms := AList.update token room' (rg_rooms g), rg_peer := (rg_peer g)(rg_next g \<mapsto> peer), rg_next := Suc (rg_next g)\<rparr>)"
    (is "rendezvous_inv decide skip ?g")
proof -
  have ok: "rooms_ok g" using inv by (simp add: rendezvous_inv_def)
  have "rooms_ok ?g"
  proof (rule rooms_okI)
    show "distinct (map fst (rg_rooms ?g))" using rooms_okD(1) [OF ok] by (simp add: distinct_update)
    fix t x \<rho> p
    assume t: "map_of (rg_rooms ?g) t = Some x" "rr_slots x \<rho> = Some p"
    show "waiting_peer ?g t \<rho> p"
    proof (cases "t = token \<and> \<rho> = role")
      case True
      then show ?thesis using t peer role slots by (auto simp: waiting_peer_def update_conv)
    next
      case False
      then obtain y where y: "map_of (rg_rooms g) t = Some y" "rr_slots y \<rho> = Some p"
        using t m slots by (auto simp: update_conv split: if_splits)
      from rooms_okD(2) [OF ok y] show ?thesis by (auto simp: waiting_peer_def)
    qed
  qed
  then show ?thesis
    using inv peer by (intro inv_step [OF inv]) (auto simp: evolves_def rendezvous_inv_def answered_def less_Suc_eq)
qed

lemma registry_join_keeps:
  fixes g :: "('c, 'r) rendezvousRegistry"
  assumes inv: "rendezvous_inv decide skip g" and j: "registry_join token role capability passive now ttl g = (res, g')"
  shows "rendezvous_inv decide skip g' \<and> res \<noteq> Inl BlockedResult"
proof (cases "isRoomToken token \<and> isSignalRole role")
  case True
  define g1 where "g1 = (case map_of (rg_rooms g) token of
       Some room \<Rightarrow> if rr_expires room < now then registry_expire token room g else g | None \<Rightarrow> g)"
  define room where "room = (case map_of (rg_rooms g1) token of
       Some room \<Rightarrow> room
     | None \<Rightarrow> \<lparr>rr_expires = (if passive \<and> 0 < rg_passiveTTL g1 then now + rg_passiveTTL g1 else now + ttl), rr_slots = (\<lambda>_. None)\<rparr>)"
  define g2 where "g2 = g1\<lparr>rg_rooms := AList.update token room (rg_rooms g1)\<rparr>"
  define peer :: "('c, 'r) rendezvousPeer" where
    "peer = \<lparr>rp_token = token, rp_role = role, rp_cap = capability, rp_passive = passive, rp_result = [], rp_taken = 0\<rparr>"
  define room' where "room' = room\<lparr>rr_slots := (rr_slots room)(role \<mapsto> rg_next g2),
      rr_expires := (if \<not> passive \<and> rr_expires room < now + ttl then now + ttl else rr_expires room)\<rparr>"
  let ?g3 = "g2\<lparr>rg_rooms := AList.update token room' (rg_rooms g2), rg_peer := (rg_peer g2)(rg_next g2 \<mapsto> peer), rg_next := Suc (rg_next g2)\<rparr>"
  have i1: "rendezvous_inv decide skip g1"
    using inv expire_keeps(1) [OF inv] by (simp add: g1_def split: option.split)
  then have d1: "distinct (map fst (rg_rooms g1))" by (simp add: rendezvous_inv_def rooms_ok_def)
  have i2: "rendezvous_inv decide skip g2"
    unfolding g2_def by (rule rooms_change_keeps [OF i1])
      (auto simp: d1 distinct_update update_conv room_def split: if_splits option.splits)
  have m2: "map_of (rg_rooms g2) token = Some room" by (simp add: g2_def update_conv)
  have i3: "rendezvous_inv decide skip ?g3"
    by (rule add_peer_keeps [OF i2 _ m2]) (use True in \<open>auto simp: peer_def room'_def\<close>)
  have "registry_join token role capability passive now ttl g =
      (case rr_slots room role of
         None \<Rightarrow> (Inr (rg_next g2, True), ?g3)
       | Some existing \<Rightarrow>
           if passive then (Inr (existing, False), g2)
           else if \<not> rp_passive (peer_at g2 existing) then (Inl (RoleTaken role), g2)
           else (Inr (rg_next g2, True), ?g3))"
    using True unfolding registry_join_def Let_def g1_def [symmetric] room_def [symmetric] g2_def [symmetric] peer_def [symmetric] room'_def [symmetric]
    by simp
  then show ?thesis using j i2 i3 by (auto split: option.splits if_splits)
qed (use assms in \<open>auto simp: registry_join_def\<close>)

lemma complete_effect:
  fixes g :: "('c, 'r) rendezvousRegistry"
  assumes ok: "rooms_ok g" and m: "map_of (rg_rooms g) token = Some room"
    and s: "rr_slots room ''sender'' = Some s" and r: "rr_slots room ''receiver'' = Some r"
    and d: "d = decide token now (rp_cap (peer_at g s)) (rp_cap (peer_at g r))"
  shows "\<exists>g'. complete_room decide skip token now g = Inr g' \<and> rg_rooms g' = AList.delete token (rg_rooms g) \<and> rg_next g' = rg_next g
    \<and> (\<forall>q. peer_at g' q = (if q = s \<and> \<not> (skip \<and> rp_passive (peer_at g s)) then (peer_at g s)\<lparr>rp_result := [fst d]\<rparr>
         else if q = r \<and> \<not> (skip \<and> rp_passive (peer_at g r)) then (peer_at g r)\<lparr>rp_result := [snd d]\<rparr> else peer_at g q))"
proof -
  have w: "waiting_peer g token ''sender'' s" "waiting_peer g token ''receiver'' r" using rooms_okD(2) [OF ok m] s r by auto
  then have ne: "s \<noteq> r" and empty: "rp_result (peer_at g s) = []" "rp_result (peer_at g r) = []" by (auto simp: waiting_peer_def)
  let ?g1 = "if skip \<and> rp_passive (peer_at g s) then g else add_result s (fst d) g"
  let ?g2 = "if skip \<and> rp_passive (peer_at g r) then ?g1 else add_result r (snd d) ?g1"
  have one: "(if skip \<and> rp_passive (peer_at g s) then Inr g else send_result s (fst d) g) = Inr ?g1"
    using empty by (simp add: send_result_def channel_full_def)
  have same: "peer_at ?g1 r = peer_at g r" using ne by simp
  have two: "(if skip \<and> rp_passive (peer_at ?g1 r) then Inr ?g1 else send_result r (snd d) ?g1) = Inr ?g2"
    unfolding same using empty same by (simp add: send_result_def channel_full_def)
  have "complete_room decide skip token now g = Inr (?g2\<lparr>rg_rooms := AList.delete token (rg_rooms ?g2)\<rparr>)"
    unfolding complete_room_def m option.case s r prod.case Let_def d [symmetric] one rbind_Inr two ..
  then show ?thesis
    using ne empty by (intro exI [of _ "?g2\<lparr>rg_rooms := AList.delete token (rg_rooms ?g2)\<rparr>"]) auto
qed

lemma complete_keeps:
  assumes inv: "rendezvous_inv decide skip g"
  shows "\<exists>g'. complete_room decide skip token now g = Inr g' \<and> rendezvous_inv decide skip g'"
proof (cases "\<exists>room s r. map_of (rg_rooms g) token = Some room \<and> rr_slots room ''sender'' = Some s \<and> rr_slots room ''receiver'' = Some r")
  case True
  then obtain room s r where m: "map_of (rg_rooms g) token = Some room" and sr: "rr_slots room ''sender'' = Some s" "rr_slots room ''receiver'' = Some r"
    by blast
  define d where "d = decide token now (rp_cap (peer_at g s)) (rp_cap (peer_at g r))"
  have ok: "rooms_ok g" using inv by (simp add: rendezvous_inv_def)
  have w: "waiting_peer g token ''sender'' s" "waiting_peer g token ''receiver'' r" using rooms_okD(2) [OF ok m] sr by auto
  then have ne: "s \<noteq> r" by (auto simp: waiting_peer_def)
  from complete_effect [where decide = decide and now = now and skip = skip, OF ok m sr d_def] obtain g' where g': "complete_room decide skip token now g = Inr g'"
    and e: "rg_rooms g' = AList.delete token (rg_rooms g)" "rg_next g' = rg_next g"
      "\<And>q. peer_at g' q = (if q = s \<and> \<not> (skip \<and> rp_passive (peer_at g s)) then (peer_at g s)\<lparr>rp_result := [fst d]\<rparr>
         else if q = r \<and> \<not> (skip \<and> rp_passive (peer_at g r)) then (peer_at g r)\<lparr>rp_result := [snd d]\<rparr> else peer_at g q)"
    by blast
  have ev: "evolves g g'" using w by (auto simp: evolves_def e waiting_peer_def)
  have "rooms_ok g'"
  proof (rule rooms_okI)
    show "distinct (map fst (rg_rooms g'))" using rooms_okD(1) [OF ok] by (simp add: e distinct_delete)
    fix t x role p
    assume t: "map_of (rg_rooms g') t = Some x" "rr_slots x role = Some p"
    then have old: "t \<noteq> token" "map_of (rg_rooms g) t = Some x" by (auto simp: e delete_conv split: if_splits)
    from rooms_okD(2) [OF ok old(2) t(2)] w old(1) show "waiting_peer g' t role p" by (auto simp: waiting_peer_def e)
  qed
  moreover have set: "settled decide skip g' s r"
    unfolding settled_def Let_def using w ne by (auto simp: e waiting_peer_def d_def intro!: exI [of _ now])
  then have "answered decide skip g' s" "answered decide skip g' r"
    using w unfolding answered_def e(2) by (auto simp: waiting_peer_def)
  ultimately have "rendezvous_inv decide skip g'"
    using inv by (intro inv_step [OF inv ev]) (auto simp: e rendezvous_inv_def answered_def)
  with g' show ?thesis by blast
next
  case False
  then have "complete_room decide skip token now g = Inr g"
    by (auto simp: complete_room_def split: option.splits)
  with inv show ?thesis by blast
qed

lemma step_keeps:
  assumes inv: "rendezvous_inv decide skip g" and k: "rendezvous_known skip rq g"
  shows "rendezvous_inv decide skip (snd (rendezvous_step decide skip ttl rq g)) \<and> fst (rendezvous_step decide skip ttl rq g) \<noteq> Inl BlockedResult"
proof (cases rq)
  case (RJoin token role capability observed now)
  obtain res g1 where j: "registry_join token role capability observed now ttl g = (res, g1)" by fastforce
  from registry_join_keeps [OF inv j] complete_keeps [of decide skip g1 token now] j show ?thesis
    by (auto simp: RJoin rendezvous_step_def join_rendezvous_def split: sum.split prod.split)
qed (use k in \<open>auto simp: rendezvous_step_def rendezvous_known_def leave_keeps_rendezvous [OF inv] expireBefore_keeps [OF inv] intro: take_keeps [OF inv]\<close>)

lemma reached_rendezvous_inv: "rendezvous_reached decide skip ttl pttl g \<Longrightarrow> rendezvous_inv decide skip g"
proof (induction rule: rendezvous_reached.induct)
  case start
  show ?case by (simp add: rendezvous_inv_def rooms_ok_def no_peers_def)
next
  case (request g rq)
  then show ?case using step_keeps by blast
qed

section \<open>The contract\<close>

text \<open>
  A way to decide a pair fails for both of its peers or for none. Every rendezvous with such a decision
  never blocks, and of a pair that met either both were told a failure or both were answered.
\<close>

locale rendezvous =
  fixes decide :: "string \<Rightarrow> int \<Rightarrow> 'c \<Rightarrow> 'c \<Rightarrow> (rendezvous_error, 'r) result \<times> (rendezvous_error, 'r) result" and skip :: bool
  assumes fails_together: "isl (fst (decide token now a b)) \<longleftrightarrow> isl (snd (decide token now a b))"
begin

lemma never_blocks:
  "rendezvous_reached decide skip ttl pttl g \<Longrightarrow> rendezvous_known skip rq g \<Longrightarrow> fst (rendezvous_step decide skip ttl rq g) \<noteq> Inl BlockedResult"
  using step_keeps reached_rendezvous_inv by blast

lemma one_outcome:
  assumes "rendezvous_reached decide skip ttl pttl g" and "p < rg_next g"
  shows "length (rp_result (peer_at g p)) \<le> 1" and "rp_taken (peer_at g p) \<le> length (rp_result (peer_at g p))"
  using reached_rendezvous_inv [OF assms(1)] assms(2) by (auto simp: rendezvous_inv_def)

lemma answered_by_pair:
  assumes "rendezvous_reached decide skip ttl pttl g" and "p < rg_next g" and "Inr x \<in> set (rp_result (peer_at g p))"
  obtains q where "q < rg_next g" "settled decide skip g p q \<or> settled decide skip g q p"
proof -
  from one_outcome(1) [OF assms(1,2)] assms(3) have "rp_result (peer_at g p) = [Inr x]"
    by (cases "rp_result (peer_at g p)") auto
  with reached_rendezvous_inv [OF assms(1)] assms(2) that show thesis by (auto simp: rendezvous_inv_def answered_def)
qed

lemma pair_agrees:
  assumes "settled decide skip g s r" and "\<not> rp_passive (peer_at g s)" and "\<not> rp_passive (peer_at g r)"
  shows "\<exists>x y. rp_result (peer_at g s) = [x] \<and> rp_result (peer_at g r) = [y] \<and> (isl x \<longleftrightarrow> isl y)"
  using assms fails_together by (auto simp: settled_def Let_def)

end

interpretation negotiation: rendezvous "completeNegotiationLocked mac cfg" True
  by unfold_locales (simp add: completeNegotiationLocked_def Let_def)

interpretation direct: rendezvous completeDirectLocked False
  by unfold_locales (simp add: completeDirectLocked_def Let_def)

text \<open>
C14: Peers that negotiate a route are never told different routes. In every state the joins, departures,
expiries and observations lead to, no request blocks on the channel of a peer; a peer is sent at most
one outcome; and an active peer that was sent a response met a peer of the other role in the same room,
the response is the choice for their two capabilities, and the other peer, unless it was only
observed, was sent that very response.
\<close>

theorem negotiation_answers_agree:
  assumes "rendezvous_reached (completeNegotiationLocked mac cfg) True ttl pttl g" and "p < rg_next g" and "\<not> rp_passive (peer_at g p)"
  shows "(\<forall>rq. rendezvous_known True rq g \<longrightarrow> fst (rendezvous_step (completeNegotiationLocked mac cfg) True ttl rq g) \<noteq> Inl BlockedResult)
    \<and> length (rp_result (peer_at g p)) \<le> 1
    \<and> (\<forall>x. Inr x \<in> set (rp_result (peer_at g p)) \<longrightarrow>
        (\<exists>q < rg_next g. \<exists>now. rp_token (peer_at g q) = rp_token (peer_at g p) \<and> rp_role (peer_at g q) = oppositeSignalRole (rp_role (peer_at g p))
          \<and> Inr x = (if rp_role (peer_at g p) = ''sender''
                      then negotiation_outcome mac cfg (rp_token (peer_at g p)) now (rp_cap (peer_at g p)) (rp_cap (peer_at g q))
                      else negotiation_outcome mac cfg (rp_token (peer_at g p)) now (rp_cap (peer_at g q)) (rp_cap (peer_at g p)))
          \<and> (rp_passive (peer_at g q) \<or> rp_result (peer_at g q) = [Inr x])))"
proof (intro conjI allI impI)
  show "fst (rendezvous_step (completeNegotiationLocked mac cfg) True ttl rq g) \<noteq> Inl BlockedResult" if "rendezvous_known True rq g" for rq
    by (rule negotiation.never_blocks [OF assms(1) that])
  show len: "length (rp_result (peer_at g p)) \<le> 1" by (rule negotiation.one_outcome(1) [OF assms(1,2)])
  fix x assume x: "Inr x \<in> set (rp_result (peer_at g p))"
  with len have px: "rp_result (peer_at g p) = [Inr x]" by (cases "rp_result (peer_at g p)") auto
  from negotiation.answered_by_pair [OF assms(1,2) x] obtain q where q: "q < rg_next g"
    and s: "settled (completeNegotiationLocked mac cfg) True g p q \<or> settled (completeNegotiationLocked mac cfg) True g q p" .
  let ?Q = "\<lambda>q. \<exists>now. rp_token (peer_at g q) = rp_token (peer_at g p) \<and> rp_role (peer_at g q) = oppositeSignalRole (rp_role (peer_at g p))
          \<and> Inr x = (if rp_role (peer_at g p) = ''sender''
                      then negotiation_outcome mac cfg (rp_token (peer_at g p)) now (rp_cap (peer_at g p)) (rp_cap (peer_at g q))
                      else negotiation_outcome mac cfg (rp_token (peer_at g p)) now (rp_cap (peer_at g q)) (rp_cap (peer_at g p)))
          \<and> (rp_passive (peer_at g q) \<or> rp_result (peer_at g q) = [Inr x])"
  from s have "?Q q"
  proof
    assume "settled (completeNegotiationLocked mac cfg) True g p q"
    then show ?thesis using assms(3) px by (auto simp: settled_def completeNegotiationLocked_def Let_def oppositeSignalRole_def)
  next
    assume "settled (completeNegotiationLocked mac cfg) True g q p"
    then show ?thesis using assms(3) px by (auto simp: settled_def completeNegotiationLocked_def Let_def oppositeSignalRole_def)
  qed
  with q show "\<exists>q < rg_next g. ?Q q" by blast
qed

definition demo_config :: negotiation_config where
  "demo_config = \<lparr>nc_RoomTTL = 600, nc_NativeRelay = '''', nc_NativeRelaySecret = '''', nc_NativeRelayCredentialTTL = 0\<rparr>"

definition demo_negotiation :: "(Capability, Response) rendezvousRegistry" where
  "demo_negotiation =
     (let step = rendezvous_step (completeNegotiationLocked (\<lambda>_ _. '''') demo_config) True 600;
          join = (\<lambda>role now. RJoin (replicate 64 CHR ''a'') role (native_peer ''relay:1'') False now)
      in snd (step (join ''receiver'' 1) (snd (step (join ''sender'' 0) (no_peers 30)))))"

lemma demo_negotiation_runs:
  "rg_next demo_negotiation = 2" "\<not> rp_passive (peer_at demo_negotiation 1)"
  "map (\<lambda>x. case x of Inr r \<Rightarrow> rs_Relay r | Inl _ \<Rightarrow> '''') (rp_result (peer_at demo_negotiation 1)) = [''relay:1'']"
proof -
  have "case (demo_negotiation, ()) of (g, _) \<Rightarrow> rg_next g = 2 \<and> \<not> rp_passive (peer_at g 1)
      \<and> map (\<lambda>x. case x of Inr r \<Rightarrow> rs_Relay r | Inl _ \<Rightarrow> '''') (rp_result (peer_at g 1)) = [''relay:1'']"
    by code_simp
  then show "rg_next demo_negotiation = 2" "\<not> rp_passive (peer_at demo_negotiation 1)"
    "map (\<lambda>x. case x of Inr r \<Rightarrow> rs_Relay r | Inl _ \<Rightarrow> '''') (rp_result (peer_at demo_negotiation 1)) = [''relay:1'']" by simp_all
qed

theorem negotiation_answers_agree_witness:
  "rendezvous_reached (completeNegotiationLocked (\<lambda>_ _. '''') demo_config) True 600 30 demo_negotiation
   \<and> length (rp_result (peer_at demo_negotiation 1)) = 1"
proof -
  have r: "rendezvous_reached (completeNegotiationLocked (\<lambda>_ _. '''') demo_config) True 600 30 demo_negotiation"
    unfolding demo_negotiation_def Let_def
    by (intro rendezvous_reached.request rendezvous_reached.start) (simp_all add: rendezvous_known_def)
  have "length (rp_result (peer_at demo_negotiation 1)) \<le> 1"
    using negotiation_answers_agree [OF r, of 1] demo_negotiation_runs by simp
  then show ?thesis using r demo_negotiation_runs(3) by (cases "rp_result (peer_at demo_negotiation 1)") auto
qed

end
