(* ===== verification/Service_Limits.thy ===== *)
theory Service_Limits
  imports Net_Addr "HOL-Library.AList"
begin

text \<open>
  Who a request of the service comes from and how many of them are let through
  (internal/service/client_address.go and the rate limits of service.go). Times are nanoseconds.
\<close>

section \<open>The address of a client\<close>

definition trim_brackets :: "string \<Rightarrow> string" where
  "trim_brackets s =
     (let b = (\<lambda>c. c = CHR ''['' \<or> c = CHR '']'') in rev (dropWhile b (rev (dropWhile b s))))"

definition parseAddress :: "string \<Rightarrow> Addr option" where
  "parseAddress value =
     (let value = TrimSpace value;
          value = (case SplitHostPort value of Some (host, _) \<Rightarrow> host | None \<Rightarrow> value)
      in case ParseAddr (trim_brackets value) of
           None \<Rightarrow> None
         | Some addr \<Rightarrow> if Zone addr \<noteq> '''' then None else Some (Unmap addr))"

definition parseTrustedProxy :: "string \<Rightarrow> (string, Prefix) result" where
  "parseTrustedProxy raw =
     (case ParsePrefix raw of
        Some prefix \<Rightarrow> Inr (Masked prefix)
      | None \<Rightarrow>
          (case ParseAddr raw of
             None \<Rightarrow> Inl raw
           | Some addr \<Rightarrow>
               if Zone addr \<noteq> '''' then Inl raw else Inr (Masked \<lparr>px_addr = addr, px_bits = BitLen addr\<rparr>)))"

definition parseTrustedProxies :: "string \<Rightarrow> (string, Prefix list) result" where
  "parseTrustedProxies value =
     foldM (\<lambda>raw0 prefixes.
         let raw = TrimSpace raw0 in
         if raw = '''' then Inr prefixes
         else rbind (parseTrustedProxy raw) (\<lambda>prefix. Inr (prefixes @ [prefix])))
       (split_on CHR '','' value) []"

definition isTrustedProxy :: "Prefix list \<Rightarrow> Addr \<Rightarrow> bool" where
  "isTrustedProxy proxies addr \<longleftrightarrow> (\<exists>prefix\<in>set proxies. Contains prefix addr)"

text \<open>The forwarding chain is read from the end, past the proxies that are trusted.\<close>

fun forwarded_from :: "Prefix list \<Rightarrow> Addr \<Rightarrow> Addr option \<Rightarrow> string list \<Rightarrow> string option" where
  "forwarded_from proxies remote leftmost [] = map_option AddrString leftmost"
| "forwarded_from proxies remote leftmost (part # parts) =
     (case parseAddress (TrimSpace part) of
        None \<Rightarrow> Some (AddrString remote)
      | Some addr \<Rightarrow> if \<not> isTrustedProxy proxies addr then Some (AddrString addr) else forwarded_from proxies remote (Some addr) parts)"

record http_request =
  rq_RemoteAddr :: string
  rq_ForwardedFor :: "string list"
  rq_RealIP :: string

definition clientAddress :: "Prefix list \<Rightarrow> http_request \<Rightarrow> string" where
  "clientAddress proxies r =
     (case parseAddress (rq_RemoteAddr r) of
        None \<Rightarrow> rq_RemoteAddr r
      | Some remote \<Rightarrow>
          if \<not> isTrustedProxy proxies remote then rq_RemoteAddr r
          else
            let forwarded = join_with CHR '','' (rq_ForwardedFor r);
                chain = (if forwarded = '''' then None
                         else forwarded_from proxies remote None (rev (split_on CHR '','' forwarded)))
            in case chain of
                 Some address \<Rightarrow> address
               | None \<Rightarrow>
                   (case parseAddress (TrimSpace (rq_RealIP r)) of
                      Some realIP \<Rightarrow> AddrString realIP
                    | None \<Rightarrow> AddrString remote))"

text \<open>A peer that is not a trusted proxy cannot choose its address by the headers it sends.\<close>

lemma untrusted_headers_ignored:
  assumes "\<And>remote. parseAddress (rq_RemoteAddr r) = Some remote \<Longrightarrow> \<not> isTrustedProxy proxies remote"
  shows "clientAddress proxies r = rq_RemoteAddr r"
  using assms by (simp add: clientAddress_def split: option.split)

text \<open>
  Behind trusted proxies the address is the last of the chain that is not a trusted proxy itself: what a
  client writes in front of it has no effect.
\<close>

lemma forwarded_from_last_untrusted:
  assumes "list_all (\<lambda>p. \<exists>a. parseAddress (TrimSpace p) = Some a \<and> isTrustedProxy proxies a) ps"
    and "parseAddress (TrimSpace q) = Some a" and "\<not> isTrustedProxy proxies a"
  shows "forwarded_from proxies remote l (ps @ q # rest) = Some (AddrString a)"
  using assms by (induction ps arbitrary: l) auto

section \<open>Rate limits\<close>

definition minute :: int where
  "minute = 60 * 1000000000"

definition recentRateEvents :: "int list \<Rightarrow> int \<Rightarrow> int list" where
  "recentRateEvents events windowStart = filter (\<lambda>event. windowStart < event) events"

definition rate_host :: "string \<Rightarrow> string" where
  "rate_host remote = (case SplitHostPort remote of Some (host, _) \<Rightarrow> host | None \<Rightarrow> remote)"

type_synonym rate_limits = "(string \<times> int list) list"

definition rate_events :: "rate_limits \<Rightarrow> string \<Rightarrow> int list" where
  "rate_events limits host = (case map_of limits host of Some events \<Rightarrow> events | None \<Rightarrow> [])"

definition allowRate :: "rate_limits \<Rightarrow> string \<Rightarrow> int \<Rightarrow> int \<Rightarrow> bool \<times> rate_limits" where
  "allowRate limits remote maximum now =
     (if maximum < 0 then (True, limits)
      else
        let host = rate_host remote;
            keep = recentRateEvents (rate_events limits host) (now - minute)
        in if maximum \<le> int (length keep) then (False, AList.update host keep limits)
           else (True, AList.update host (keep @ [now]) limits))"

definition cleanupRateLimits :: "int \<Rightarrow> rate_limits \<Rightarrow> rate_limits" where
  "cleanupRateLimits now limits =
     filter (\<lambda>(host, keep). keep \<noteq> []) (map (\<lambda>(host, events). (host, recentRateEvents events (now - minute))) limits)"

section \<open>What the limits guarantee\<close>

text \<open>A request from an address at a time, or a cleanup.\<close>

datatype rate_event = Request int string | Sweep int

fun rate_time :: "rate_event \<Rightarrow> int" where
  "rate_time (Request now remote) = now"
| "rate_time (Sweep now) = now"

text \<open>The limits after a run, and the requests that were let through.\<close>

fun rate_run :: "int \<Rightarrow> rate_event list \<Rightarrow> rate_limits \<Rightarrow> (string \<times> int) list \<times> rate_limits" where
  "rate_run maximum [] limits = ([], limits)"
| "rate_run maximum (Request now remote # es) limits =
     (let (ok, limits) = allowRate limits remote maximum now; (log, limits) = rate_run maximum es limits
      in (if ok then (rate_host remote, now) # log else log, limits))"
| "rate_run maximum (Sweep now # es) limits = rate_run maximum es (cleanupRateLimits now limits)"

definition times_of :: "string \<Rightarrow> (string \<times> int) list \<Rightarrow> int list" where
  "times_of host log = map snd (filter (\<lambda>p. fst p = host) log)"

text \<open>At a time the limits hold, for each host, the requests of the last minute and nothing older matters.\<close>

lemma rate_events_update: "rate_events (AList.update h es limits) host = (if host = h then es else rate_events limits host)"
  by (simp add: rate_events_def update_conv)

lemma rate_events_sweep:
  assumes "distinct (map fst limits)"
  shows "rate_events (cleanupRateLimits now limits) host = recentRateEvents (rate_events limits host) (now - minute)"
  using assms
proof (induction limits)
  case (Cons p limits)
  obtain h es where p: "p = (h, es)" by (cases p)
  have "map_of (cleanupRateLimits now limits) h = None" if "h \<notin> fst ` set limits"
    using that by (force simp: map_of_eq_None_iff cleanupRateLimits_def)
  moreover have "cleanupRateLimits now (p # limits) =
      (if recentRateEvents es (now - minute) = [] then cleanupRateLimits now limits
       else (h, recentRateEvents es (now - minute)) # cleanupRateLimits now limits)"
    by (simp add: cleanupRateLimits_def p)
  moreover have "rate_events (p # limits) host = (if host = h then es else rate_events limits host)"
    by (simp add: rate_events_def p)
  ultimately show ?case
    using Cons p by (auto simp: rate_events_def)
qed (simp add: rate_events_def cleanupRateLimits_def recentRateEvents_def)

lemma sweep_keys: "distinct (map fst limits) \<Longrightarrow> distinct (map fst (cleanupRateLimits now limits))"
proof -
  assume d: "distinct (map fst limits)"
  have "map fst (map (\<lambda>(host, events). (host, recentRateEvents events (now - minute))) limits) = map fst limits"
    by (simp add: case_prod_unfold comp_def)
  with d have "distinct (map fst (map (\<lambda>(host, events). (host, recentRateEvents events (now - minute))) limits))" by (simp only:)
  then show ?thesis unfolding cleanupRateLimits_def by (rule distinct_map_filter)
qed

text \<open>The requests of a list that fall into the minute after a time.\<close>

definition in_window :: "int \<Rightarrow> int list \<Rightarrow> int" where
  "in_window t xs = int (length (filter (\<lambda>x. t < x \<and> x \<le> t + minute) xs))"

lemma in_window_simps [simp]:
  "in_window t [] = 0" "in_window t (x # xs) = (if t < x \<and> x \<le> t + minute then 1 else 0) + in_window t xs"
  "in_window t (xs @ ys) = in_window t xs + in_window t ys"
  by (simp_all add: in_window_def)

lemma in_window_nonneg [simp]: "0 \<le> in_window t xs"
  by (simp add: in_window_def)

lemma in_window_recent: "now \<le> t + minute \<Longrightarrow> in_window t (recentRateEvents xs (now - minute)) = in_window t xs"
proof -
  assume now: "now \<le> t + minute"
  have "filter (\<lambda>x. t < x \<and> x \<le> t + minute) (filter (\<lambda>e. now - minute < e) xs) = filter (\<lambda>x. t < x \<and> x \<le> t + minute) xs"
    using now by (induction xs) auto
  then show ?thesis by (simp only: in_window_def recentRateEvents_def)
qed

lemma in_window_le_length: "in_window t xs \<le> int (length xs)"
  by (simp add: in_window_def)

lemma in_window_late: "(\<And>x. x \<in> set xs \<Longrightarrow> t + minute < x) \<Longrightarrow> in_window t xs = 0"
  by (fastforce simp: in_window_def filter_empty_conv)

lemma allowRate_result:
  assumes "0 \<le> maximum" and "distinct (map fst limits)"
  shows "distinct (map fst (snd (allowRate limits remote maximum now)))"
    and "rate_events (snd (allowRate limits remote maximum now)) host =
      (if host = rate_host remote then recentRateEvents (rate_events limits host) (now - minute)
         @ (if fst (allowRate limits remote maximum now) then [now] else [])
       else rate_events limits host)"
    and "fst (allowRate limits remote maximum now) \<Longrightarrow>
      int (length (recentRateEvents (rate_events limits (rate_host remote)) (now - minute))) < maximum"
  using assms by (auto simp: allowRate_def Let_def rate_events_update distinct_update split: if_splits)

lemma rate_log_times:
  "sorted (map rate_time es) \<Longrightarrow> (\<And>e. e \<in> set es \<Longrightarrow> now \<le> rate_time e) \<Longrightarrow> (h, x) \<in> set (fst (rate_run maximum es limits)) \<Longrightarrow> now \<le> x"
proof (induction maximum es limits rule: rate_run.induct)
  case (2 maximum t remote es limits)
  have "now \<le> t" using "2.prems"(2) [of "Request t remote"] by simp
  with 2 show ?case by (auto simp: Let_def split: prod.splits if_splits)
qed auto

lemma times_of_late:
  assumes "sorted (map rate_time es)" and "\<And>e. e \<in> set es \<Longrightarrow> now \<le> rate_time e" and "t + minute < now"
  shows "in_window t (times_of h (fst (rate_run maximum es limits))) = 0"
  using rate_log_times [OF assms(1,2)] assms(3) by (intro in_window_late) (force simp: times_of_def)

lemma rate_run_window:
  assumes "0 \<le> maximum"
  shows "distinct (map fst limits) \<Longrightarrow> sorted (map rate_time es) \<Longrightarrow> in_window t (rate_events limits h) \<le> maximum
    \<Longrightarrow> in_window t (times_of h (fst (rate_run maximum es limits))) + in_window t (rate_events limits h) \<le> maximum"
proof (induction es arbitrary: limits)
  case (Cons e es)
  show ?case
  proof (cases "t + minute < rate_time e")
    case True
    have "in_window t (times_of h (fst (rate_run maximum (e # es) limits))) = 0"
      by (rule times_of_late [OF Cons.prems(2) _ True]) (use Cons.prems(2) in auto)
    with Cons.prems(3) show ?thesis by simp
  next
    case False
    then have early: "rate_time e \<le> t + minute" by simp
    have sorted: "sorted (map rate_time es)" using Cons.prems(2) by simp
    show ?thesis
    proof (cases e)
      case (Request now remote)
      define l where "l = snd (allowRate limits remote maximum now)"
      define ok where "ok = fst (allowRate limits remote maximum now)"
      note a = allowRate_result [OF assms Cons.prems(1), of remote now, folded l_def ok_def]
      have keep: "in_window t (recentRateEvents (rate_events limits h) (now - minute)) = in_window t (rate_events limits h)"
        using in_window_recent early Request by simp
      have bound: "in_window t (rate_events limits h) < maximum" if "ok" "h = rate_host remote"
        using a(3) [OF that(1)] in_window_le_length [of t "recentRateEvents (rate_events limits h) (now - minute)"] keep that(2) by simp
      have now: "in_window t (rate_events l h) = in_window t (rate_events limits h) + (if ok \<and> h = rate_host remote then in_window t [now] else 0)"
        using a(2) [of h] keep by (cases "h = rate_host remote") simp_all
      have le: "in_window t (rate_events l h) \<le> maximum" using now bound Cons.prems(3) by auto
      from Cons.IH [OF a(1) sorted le] have ih: "in_window t (times_of h (fst (rate_run maximum es l))) + in_window t (rate_events l h) \<le> maximum" .
      have "times_of h (fst (rate_run maximum (e # es) limits)) = (if ok \<and> h = rate_host remote then [now] else []) @ times_of h (fst (rate_run maximum es l))"
        by (auto simp: Request l_def ok_def times_of_def Let_def split: prod.splits)
      with ih now show ?thesis by (cases "ok \<and> h = rate_host remote") (auto split: if_splits)
    next
      case (Sweep now)
      have keep: "in_window t (rate_events (cleanupRateLimits now limits) h) = in_window t (rate_events limits h)"
        using early Sweep rate_events_sweep [OF Cons.prems(1)] by (simp add: in_window_recent)
      with Cons.IH [OF sweep_keys [OF Cons.prems(1), of now] sorted] Cons.prems(3) show ?thesis by (simp add: Sweep)
    qed
  qed
qed (simp add: times_of_def)



end
