(* ===== verification/Signal_Service.thy ===== *)
theory Signal_Service
  imports Signal_Join Rendezvous_Safety Service_Limits
begin

text \<open>
  The service as its handlers compose it (internal/service/service.go, negotiate.go, direct.go,
  rendezvous_ws.go): the configuration with its defaults, the state of the server, the handlers of the
  signaling, negotiation and direct endpoints, and the periodic cleanup. A request is what the HTTP
  library and the WebSocket library give the handler: the address, the path, the query and the first
  message; the upgrade succeeds or not as the request says.
\<close>

section \<open>Configuration\<close>

record Config =
  cf_Listen :: string
  cf_WebDir :: string
  cf_PublicURL :: string
  cf_NativeRelay :: string
  cf_NativeRelaySecret :: string
  cf_NativeRelayCredentialTTL :: int
  cf_TURN :: string
  cf_TURNListen :: string
  cf_TURNPublicIP :: string
  cf_TURNMinPort :: int
  cf_TURNMaxPort :: int
  cf_TURNUsername :: string
  cf_TURNCredential :: string
  cf_TURNSecret :: string
  cf_TURNRealm :: string
  cf_TURNCredentialTTL :: int
  cf_TURNCredentialsPerMinute :: int
  cf_TURNMaxAllocations :: int
  cf_TURNMaxAllocationsPerUser :: int
  cf_TURNMaxAllocationsPerIP :: int
  cf_TURNEgressWindow :: int
  cf_TURNMaxEgressBytes :: int
  cf_TURNMaxEgressBytesPerUser :: int
  cf_TURNMaxEgressBytesPerIP :: int
  cf_TLSCert :: string
  cf_TLSKey :: string
  cf_RoomTTL :: int
  cf_NoteStore :: string
  cf_NoteTTL :: int
  cf_SignalRequestsPerMinute :: int
  cf_TrustedProxies :: string

definition second :: int where
  "second = 1000000000"

definition JoinHostPort :: "string \<Rightarrow> string \<Rightarrow> string" where
  "JoinHostPort host port =
     (if CHR '':'' \<in> set host \<or> CHR ''%'' \<in> set host then ''['' @ host @ '']:'' @ port else host @ '':'' @ port)"

definition ParseIP :: "string \<Rightarrow> Addr option" where
  "ParseIP s = (case ParseAddr s of Some a \<Rightarrow> if Zone a \<noteq> '''' then None else Some a | None \<Rightarrow> None)"

definition IsUnspecified :: "Addr \<Rightarrow> bool" where
  "IsUnspecified a \<longleftrightarrow> (case Unmap a of V4 n \<Rightarrow> n = 0 | V6 n _ \<Rightarrow> n = 0)"

definition defaultPublicURL :: "string \<Rightarrow> bool \<Rightarrow> string" where
  "defaultPublicURL listen secure =
     (let scheme = (if secure then ''https'' else ''http'') in
      case SplitHostPort listen of
        None \<Rightarrow> scheme @ ''://'' @ listen
      | Some (host0, port) \<Rightarrow>
          let host1 = trim_brackets host0;
              host = (if host1 = '''' \<or> (case ParseIP host1 of Some ip \<Rightarrow> IsUnspecified ip | None \<Rightarrow> False) then ''localhost'' else host1)
          in scheme @ ''://'' @ JoinHostPort host port)"

definition usesTLS :: "Config \<Rightarrow> bool" where
  "usesTLS cfg \<longleftrightarrow> cf_TLSCert cfg \<noteq> '''' \<and> cf_TLSKey cfg \<noteq> ''''"

definition defaultPersistentNoteTTL :: int where
  "defaultPersistentNoteTTL = 30 * 24 * 3600 * second"

definition New_config :: "Config \<Rightarrow> Config" where
  "New_config c0 =
     (let c1 = (if cf_Listen c0 = '''' then c0\<lparr>cf_Listen := '':9100''\<rparr> else c0);
          c2 = (if cf_PublicURL c1 = '''' then c1\<lparr>cf_PublicURL := defaultPublicURL (cf_Listen c1) (usesTLS c1)\<rparr> else c1);
          c3 = (if cf_RoomTTL c2 \<le> 0 then c2\<lparr>cf_RoomTTL := defaultRoomTTL\<rparr> else c2);
          c4 = (if cf_NoteTTL c3 = 0 then c3\<lparr>cf_NoteTTL := defaultPersistentNoteTTL\<rparr> else c3);
          c5 = (if cf_SignalRequestsPerMinute c4 = 0 then c4\<lparr>cf_SignalRequestsPerMinute := 60\<rparr> else c4);
          c6 = (if cf_NativeRelayCredentialTTL c5 = 0 then c5\<lparr>cf_NativeRelayCredentialTTL := 2 * 3600 * second\<rparr> else c5);
          c7 = (if cf_TURNUsername c6 = '''' then c6\<lparr>cf_TURNUsername := ''kigo''\<rparr> else c6);
          c8 = (if cf_TURNCredential c7 = '''' then c7\<lparr>cf_TURNCredential := ''kigo-turn''\<rparr> else c7);
          c9 = (if cf_TURNRealm c8 = '''' then c8\<lparr>cf_TURNRealm := ''kigo''\<rparr> else c8);
          c10 = (if cf_TURNCredentialTTL c9 = 0 then c9\<lparr>cf_TURNCredentialTTL := 2 * 3600 * second\<rparr> else c9);
          c11 = (if cf_TURNCredentialsPerMinute c10 = 0 then c10\<lparr>cf_TURNCredentialsPerMinute := 1200\<rparr> else c10);
          c12 = (if cf_TURNMaxAllocations c11 = 0 then c11\<lparr>cf_TURNMaxAllocations := 1024\<rparr> else c11);
          c13 = (if cf_TURNMaxAllocationsPerUser c12 = 0 then c12\<lparr>cf_TURNMaxAllocationsPerUser := 4\<rparr> else c12);
          c14 = (if cf_TURNMaxAllocationsPerIP c13 = 0 then c13\<lparr>cf_TURNMaxAllocationsPerIP := 32\<rparr> else c13);
          c15 = (if cf_TURNEgressWindow c14 = 0 then c14\<lparr>cf_TURNEgressWindow := 3600 * second\<rparr> else c14);
          c16 = (if cf_TURNMaxEgressBytes c15 = 0 then c15\<lparr>cf_TURNMaxEgressBytes := -1\<rparr> else c15);
          c17 = (if cf_TURNMaxEgressBytesPerUser c16 = 0 then c16\<lparr>cf_TURNMaxEgressBytesPerUser := -1\<rparr> else c16);
          c18 = (if cf_TURNMaxEgressBytesPerIP c17 = 0 then c17\<lparr>cf_TURNMaxEgressBytesPerIP := -1\<rparr> else c17)
      in c18)"

datatype turn_config_error =
    TURNCredentialTTL | TURNCredentialRate | TURNAllocations | TURNEgressWindow | TURNEgressBytes | TURNEgressNeedsListen
  | TURNSecretNeedsTURN | TURNPortsTogether | TURNPortRange | TURNPortsNeedListen | TURNPublicIP

text \<open>The TURN part of \<open>validateConfig\<close>.\<close>

definition validateTURNConfig :: "Config \<Rightarrow> (turn_config_error, unit) result" where
  "validateTURNConfig c =
     rbind (check (60 * second \<le> cf_TURNCredentialTTL c \<and> cf_TURNCredentialTTL c \<le> 24 * 3600 * second) TURNCredentialTTL) (\<lambda>_.
     rbind (check (-1 \<le> cf_TURNCredentialsPerMinute c) TURNCredentialRate) (\<lambda>_.
     rbind (check (-1 \<le> cf_TURNMaxAllocations c \<and> -1 \<le> cf_TURNMaxAllocationsPerUser c \<and> -1 \<le> cf_TURNMaxAllocationsPerIP c) TURNAllocations) (\<lambda>_.
     rbind (check (60 * second \<le> cf_TURNEgressWindow c \<and> cf_TURNEgressWindow c \<le> 24 * 3600 * second) TURNEgressWindow) (\<lambda>_.
     rbind (check (list_all (\<lambda>v. \<not> (v < -1 \<or> v = 0))
        [cf_TURNMaxEgressBytes c, cf_TURNMaxEgressBytesPerUser c, cf_TURNMaxEgressBytesPerIP c]) TURNEgressBytes) (\<lambda>_.
     rbind (check (\<not> (cf_TURNListen c = '''' \<and> (0 \<le> cf_TURNMaxEgressBytes c \<or> 0 \<le> cf_TURNMaxEgressBytesPerUser c
        \<or> 0 \<le> cf_TURNMaxEgressBytesPerIP c))) TURNEgressNeedsListen) (\<lambda>_.
     rbind (check (\<not> (cf_TURNSecret c \<noteq> '''' \<and> cf_TURN c = '''' \<and> cf_TURNListen c = '''')) TURNSecretNeedsTURN) (\<lambda>_.
     rbind (check ((cf_TURNMinPort c = 0) = (cf_TURNMaxPort c = 0)) TURNPortsTogether) (\<lambda>_.
     rbind (check (0 \<le> cf_TURNMinPort c \<and> cf_TURNMinPort c \<le> 65534 \<and> 0 \<le> cf_TURNMaxPort c \<and> cf_TURNMaxPort c \<le> 65534
        \<and> cf_TURNMinPort c \<le> cf_TURNMaxPort c) TURNPortRange) (\<lambda>_.
     rbind (check (\<not> (cf_TURNMinPort c \<noteq> 0 \<and> cf_TURNListen c = '''')) TURNPortsNeedListen) (\<lambda>_.
     check (cf_TURNPublicIP c = '''' \<or> (case ParseIP (cf_TURNPublicIP c) of Some ip \<Rightarrow> BitLen (Unmap ip) = 32 | None \<Rightarrow> False)) TURNPublicIP))))))))))"

definition nativeRelayCredentialMode :: "Config \<Rightarrow> string" where
  "nativeRelayCredentialMode cfg =
     (if cf_NativeRelay cfg = '''' then ''none'' else if cf_NativeRelaySecret cfg \<noteq> '''' then ''temporary'' else ''client-configured'')"

definition turnCredentialMode :: "Config \<Rightarrow> string" where
  "turnCredentialMode cfg = (if cf_TURN cfg = '''' then ''none'' else if cf_TURNSecret cfg \<noteq> '''' then ''temporary'' else ''static'')"

section \<open>The server\<close>

record Server =
  ss_cfg :: Config
  ss_rooms :: rooms_state
  ss_negotiations :: "(Capability, Response) rendezvousRegistry"
  ss_directs :: "(directCapability, directResponse) rendezvousRegistry"
  ss_signalLimits :: rate_limits
  ss_iceLimits :: rate_limits
  ss_trustedProxies :: "Prefix list"

definition New :: "Config \<Rightarrow> Server" where
  "New cfg0 =
     (let cfg = New_config cfg0 in
      \<lparr>ss_cfg = cfg, ss_rooms = no_rooms, ss_negotiations = newNegotiationRegistry, ss_directs = newDirectRegistry,
       ss_signalLimits = [], ss_iceLimits = [],
       ss_trustedProxies = (case parseTrustedProxies (cf_TrustedProxies cfg) of Inr ps \<Rightarrow> ps | Inl _ \<Rightarrow> [])\<rparr>)"

definition negotiation_part :: "Config \<Rightarrow> negotiation_config" where
  "negotiation_part cfg = \<lparr>nc_RoomTTL = cf_RoomTTL cfg, nc_NativeRelay = cf_NativeRelay cfg,
     nc_NativeRelaySecret = cf_NativeRelaySecret cfg, nc_NativeRelayCredentialTTL = cf_NativeRelayCredentialTTL cfg\<rparr>"

record signalJoin =
  sj_Type :: string
  sj_ReconnectToken :: string

text \<open>What a handler sees of a WebSocket request; the first message is \<open>None\<close> when it cannot be read.\<close>

record 'm ws_request =
  ws_http :: http_request
  ws_path :: string
  ws_role :: string
  ws_protocol :: string
  ws_upgrades :: bool
  ws_subprotocol :: string
  ws_first :: "'m option"

datatype 'e ws_reply =
    HTTPError nat string
  | NotUpgraded
  | SentError 'e
  | MissingFirstMessage
  | Accepted nat

definition allowRequest :: "int \<Rightarrow> http_request \<Rightarrow> Server \<Rightarrow> bool \<times> Server" where
  "allowRequest now r s =
     (let (ok, limits) = allowRate (ss_signalLimits s) (clientAddress (ss_trustedProxies s) r) (cf_SignalRequestsPerMinute (ss_cfg s)) now
      in (ok, s\<lparr>ss_signalLimits := limits\<rparr>))"

definition allowICERequest :: "int \<Rightarrow> http_request \<Rightarrow> Server \<Rightarrow> bool \<times> Server" where
  "allowICERequest now r s =
     (let (ok, limits) = allowRate (ss_iceLimits s) (clientAddress (ss_trustedProxies s) r) (cf_TURNCredentialsPerMinute (ss_cfg s)) now
      in (ok, s\<lparr>ss_iceLimits := limits\<rparr>))"

definition handleSignal ::
    "(string \<Rightarrow> string \<Rightarrow> string) \<Rightarrow> int \<Rightarrow> string option \<Rightarrow> signalJoin ws_request \<Rightarrow> Server \<Rightarrow> signal_error ws_reply \<times> Server" where
  "handleSignal mac now rnd r s0 =
     (case allowRequest now (ws_http r) s0 of (ok, s) \<Rightarrow>
      if \<not> ok then (HTTPError 429 ''rate limit exceeded'', s)
      else
        let token = trim_prefix ''/api/signal/'' (ws_path r) in
        if \<not> isRoomToken token then (HTTPError 400 ''invalid room token'', s)
        else if ws_role r \<noteq> '''' \<and> \<not> isSignalRole (ws_role r) then (HTTPError 400 ''invalid signaling role'', s)
        else case NormalizeProtocol (ws_protocol r) of
          Inl _ \<Rightarrow> (HTTPError 400 ''invalid room protocol'', s)
        | Inr protocol \<Rightarrow>
            if \<not> ws_upgrades r then (NotUpgraded, s)
            else
              let explicit = ws_role r \<noteq> '''' \<and> ws_subprotocol r = ''kigo-reconnect-v1''; role = (if explicit then ws_role r else '''') in
              if explicit \<and> (case ws_first r of None \<Rightarrow> True | Some j \<Rightarrow> sj_Type j \<noteq> ''signal_join'') then (MissingFirstMessage, s)
              else
                let reconnectToken = (case ws_first r of Some j \<Rightarrow> if explicit then sj_ReconnectToken j else '''' | None \<Rightarrow> '''') in
                case joinWithRoleProtocol (cf_RoomTTL (ss_cfg s)) now rnd token role reconnectToken protocol (ss_rooms s) of
                  (Inl e, rooms) \<Rightarrow> (SentError e, s\<lparr>ss_rooms := rooms\<rparr>)
                | (Inr c, rooms) \<Rightarrow>
                    let s = s\<lparr>ss_rooms := rooms\<rparr> in
                    (Accepted c,
                     if role = '''' then s
                     else s\<lparr>ss_negotiations := snd (observeWebRTCOnlyProtocol mac (negotiation_part (ss_cfg s)) token role protocol now (ss_negotiations s))\<rparr>))"

text \<open>The part the two rendezvous handlers share: the rate limit, the token, the role and the upgrade.\<close>

definition openRendezvousWebSocket ::
    "int \<Rightarrow> string \<Rightarrow> 'm ws_request \<Rightarrow> Server \<Rightarrow> ('e ws_reply, string \<times> string) result \<times> Server" where
  "openRendezvousWebSocket now pathPrefix r s0 =
     (case allowRequest now (ws_http r) s0 of (ok, s) \<Rightarrow>
      if \<not> ok then (Inl (HTTPError 429 ''rate limit exceeded''), s)
      else
        let token = trim_prefix pathPrefix (ws_path r) in
        if \<not> isRoomToken token then (Inl (HTTPError 400 ''invalid room token''), s)
        else if \<not> isSignalRole (ws_role r) then (Inl (HTTPError 400 ''invalid role''), s)
        else if \<not> ws_upgrades r then (Inl NotUpgraded, s)
        else (Inr (token, ws_role r), s))"

definition handleNegotiate ::
    "(string \<Rightarrow> string \<Rightarrow> string) \<Rightarrow> int \<Rightarrow> Capability ws_request \<Rightarrow> Server \<Rightarrow> (routing_error + registry_error) ws_reply \<times> Server" where
  "handleNegotiate mac now r s0 =
     (case openRendezvousWebSocket now ''/api/negotiate/'' r s0 of
        (Inl reply, s) \<Rightarrow> (reply, s)
      | (Inr (token, role), s) \<Rightarrow>
          (case ws_first r of
             None \<Rightarrow> (MissingFirstMessage, s)
           | Some capability \<Rightarrow>
               (case ValidateCapability capability of
                  Inl e \<Rightarrow> (SentError (Inl e), s)
                | Inr _ \<Rightarrow>
                    (case joinNegotiation mac (negotiation_part (ss_cfg s)) token role capability False now (ss_negotiations s) of
                       (Inl e, g) \<Rightarrow> (SentError (Inr e), s\<lparr>ss_negotiations := g\<rparr>)
                     | (Inr peer, g) \<Rightarrow> (Accepted peer, s\<lparr>ss_negotiations := g\<rparr>)))))"

definition handleDirect ::
    "int \<Rightarrow> directCapability ws_request \<Rightarrow> Server \<Rightarrow> (direct_error + registry_error) ws_reply \<times> Server" where
  "handleDirect now r s0 =
     (case openRendezvousWebSocket now ''/api/direct/'' r s0 of
        (Inl reply, s) \<Rightarrow> (reply, s)
      | (Inr (token, role), s) \<Rightarrow>
          (case ws_first r of
             None \<Rightarrow> (MissingFirstMessage, s)
           | Some capability \<Rightarrow>
               (case validateDirectCapability capability of
                  Inl e \<Rightarrow> (SentError (Inl e), s)
                | Inr _ \<Rightarrow>
                    (case joinDirect (cf_RoomTTL (ss_cfg s)) token role capability now (ss_directs s) of
                       (Inl e, g) \<Rightarrow> (SentError (Inr e), s\<lparr>ss_directs := g\<rparr>)
                     | (Inr peer, g) \<Rightarrow> (Accepted peer, s\<lparr>ss_directs := g\<rparr>)))))"

text \<open>The persistent notes, which the cleanup also visits, are not part of this state.\<close>

definition cleanup :: "int \<Rightarrow> Server \<Rightarrow> (signal_error, Server) result" where
  "cleanup now s =
     rbind (cleanup_rooms now (ss_rooms s)) (\<lambda>rooms.
     Inr (s\<lparr>ss_signalLimits := cleanupRateLimits now (ss_signalLimits s), ss_iceLimits := cleanupRateLimits now (ss_iceLimits s),
            ss_rooms := rooms, ss_negotiations := expireBefore now (ss_negotiations s), ss_directs := expireBefore now (ss_directs s)\<rparr>))"

end
