(* ===== verification/Relay_Server.thy ===== *)
theory Relay_Server
  imports Relay_Credential Direct_Candidates "HOL-Library.AList"
begin

text \<open>
  The native relay (internal/relay/relay.go): a connection joins a room by token, role and index, waits
  there, and is joined to the first connection of the other role; a connection that waits too long is
  closed. A client carries the number of its connection. What the relay sends is the result of an
  operation; times are nanoseconds since the Unix epoch.
\<close>

section \<open>Messages\<close>

record joinMessage =
  jm_Type :: string
  jm_RoomToken :: string
  jm_Role :: string
  jm_ConnectionIndex :: int
  jm_ConnectionCount :: int
  jm_Pass :: string
  jm_Direct :: string
  jm_DirectCandidates :: "string list"
  jm_DirectCandidateMetadata :: "Candidate list"
  jm_UDPCandidates :: "string list"
  jm_Capabilities :: "string list"
  jm_DirectPreference :: string

record statusMessage =
  sm_Type :: string
  sm_Error :: string
  sm_PublicAddress :: string
  sm_PunchAtMillis :: int
  sm_PeerConnectionCount :: int
  sm_PeerDirect :: string
  sm_PeerDirectCandidates :: "string list"
  sm_PeerDirectCandidateMetadata :: "Candidate list"
  sm_PeerUDPCandidates :: "string list"
  sm_PeerCapabilities :: "string list"
  sm_PeerDirectPreference :: string

definition status :: "string \<Rightarrow> string \<Rightarrow> statusMessage" where
  "status typ err = \<lparr>sm_Type = typ, sm_Error = err, sm_PublicAddress = '''', sm_PunchAtMillis = 0, sm_PeerConnectionCount = 0,
     sm_PeerDirect = '''', sm_PeerDirectCandidates = [], sm_PeerDirectCandidateMetadata = [], sm_PeerUDPCandidates = [],
     sm_PeerCapabilities = [], sm_PeerDirectPreference = ''''\<rparr>"

record relay_client =
  rc_conn :: nat
  rc_role :: string
  rc_room :: string
  rc_connectionIndex :: int
  rc_connectionCount :: int
  rc_direct :: string
  rc_directCandidates :: "string list"
  rc_directCandidateMetadata :: "Candidate list"
  rc_udpCandidates :: "string list"
  rc_capabilities :: "string list"
  rc_directPreference :: string

record relay_room =
  rl_sender :: "relay_client option"
  rl_receiver :: "relay_client option"
  rl_created :: int

record relay_server =
  rv_waiting :: "(string \<times> relay_room) list"
  rv_waitTTL :: int
  rv_pass :: string
  rv_tokenSecret :: string

definition NewRelayServer :: relay_server where
  "NewRelayServer = \<lparr>rv_waiting = [], rv_waitTTL = 600 * 1000000000, rv_pass = '''', rv_tokenSecret = ''''\<rparr>"

text \<open>The relay \<open>RunWithOptions\<close> serves; \<open>Serve\<close> and the announcement are network loops.\<close>

definition relay_with_options :: "int \<Rightarrow> string \<Rightarrow> string \<Rightarrow> relay_server" where
  "relay_with_options waitTTL pass tokenSecret =
     NewRelayServer\<lparr>rv_waitTTL := (if waitTTL \<le> 0 then 600 * 1000000000 else waitTTL), rv_pass := pass, rv_tokenSecret := tokenSecret\<rparr>"

definition listenerPort :: "string \<Rightarrow> int option" where
  "listenerPort addr =
     (case SplitHostPort addr of
        None \<Rightarrow> None
      | Some (_, portText) \<Rightarrow> (case Atoi portText of None \<Rightarrow> None | Some port \<Rightarrow> if port \<le> 0 then None else Some port))"

section \<open>Normalisation\<close>

definition validRole :: "string \<Rightarrow> bool" where
  "validRole role \<longleftrightarrow> role = ''sender'' \<or> role = ''receiver''"

definition hasCapability :: "string list \<Rightarrow> string \<Rightarrow> bool" where
  "hasCapability capabilities target \<longleftrightarrow> (\<exists>capability\<in>set capabilities. capability = target)"

definition normalizeDirectCandidates :: "string \<Rightarrow> string list \<Rightarrow> string list" where
  "normalizeDirectCandidates legacy candidates =
     fold (\<lambda>candidate out.
         if MaxCandidates \<le> length out \<or> candidate = '''' then out
         else if ValidateAddress candidate \<noteq> Inr () then out
         else if candidate \<in> set out then out
         else out @ [candidate]) (legacy # candidates) []"

definition normalizeDirectCandidateMetadata :: "string list \<Rightarrow> Candidate list \<Rightarrow> Candidate list" where
  "normalizeDirectCandidateMetadata candidates metadata =
     fold (\<lambda>candidate out.
         if MaxCandidates \<le> length out \<or> ValidateCandidate candidate \<noteq> Inr () then out
         else if cd_Address candidate \<notin> set candidates then out
         else if cd_Address candidate \<in> cd_Address ` set out then out
         else out @ [candidate]) metadata []"

definition firstCandidate :: "string list \<Rightarrow> string" where
  "firstCandidate candidates = (case candidates of [] \<Rightarrow> '''' | c # _ \<Rightarrow> c)"

definition normalizeCapabilities :: "string list \<Rightarrow> string list" where
  "normalizeCapabilities capabilities =
     fold (\<lambda>capability out.
         if capability = '''' \<or> 64 < length capability \<or> 16 \<le> length out then out
         else if capability \<in> set out then out
         else out @ [capability]) capabilities []"

definition normalizeDirectPreference :: "string \<Rightarrow> string" where
  "normalizeDirectPreference preference =
     (if preference = ''prefer-direct'' \<or> preference = ''prefer-relay'' then preference else '''')"

definition normalizedRelayConnectionCount :: "int \<Rightarrow> int" where
  "normalizedRelayConnectionCount count = (if count \<le> 0 then 1 else count)"

definition roomKey :: "string \<Rightarrow> int \<Rightarrow> string" where
  "roomKey token connectionIndex = token @ '':'' @ Itoa connectionIndex"

definition UnixMilli :: "int \<Rightarrow> int" where
  "UnixMilli t = t div 1000000"

definition directPunchAtMillis :: "int \<Rightarrow> relay_client \<Rightarrow> relay_client \<Rightarrow> int" where
  "directPunchAtMillis now left right =
     (if rc_connectionIndex left \<noteq> 0 \<or> rc_connectionIndex right \<noteq> 0
         \<or> rc_directCandidates left = [] \<or> rc_directCandidates right = []
         \<or> \<not> hasCapability (rc_capabilities left) ''bidirectional-direct-v1''
         \<or> \<not> hasCapability (rc_capabilities right) ''bidirectional-direct-v1''
      then 0 else UnixMilli (now + 150 * 1000000))"

section \<open>The server\<close>

definition authorize :: "(string \<Rightarrow> string \<Rightarrow> string) \<Rightarrow> int \<Rightarrow> relay_server \<Rightarrow> string \<Rightarrow> string \<Rightarrow> bool" where
  "authorize mac now s roomToken credential =
     (if rv_pass s = '''' \<and> rv_tokenSecret s = '''' then True
      else if rv_pass s \<noteq> '''' \<and> credential = rv_pass s then True
      else ValidateCredential mac (rv_tokenSecret s) roomToken credential now)"

datatype relay_error = SenderWaiting | ReceiverWaiting

definition takePeer :: "int \<Rightarrow> relay_client \<Rightarrow> relay_server \<Rightarrow> (relay_error, relay_client option) result \<times> relay_server" where
  "takePeer now c s =
     (let r = (case map_of (rv_waiting s) (rc_room c) of
                 Some r \<Rightarrow> r | None \<Rightarrow> \<lparr>rl_sender = None, rl_receiver = None, rl_created = now\<rparr>);
          keep = (\<lambda>r. s\<lparr>rv_waiting := AList.update (rc_room c) r (rv_waiting s)\<rparr>);
          drop = s\<lparr>rv_waiting := AList.delete (rc_room c) (rv_waiting s)\<rparr>
      in
      if rc_role c = ''sender'' then
        (case rl_receiver r of
           Some peer \<Rightarrow> (Inr (Some peer), drop)
         | None \<Rightarrow> if rl_sender r \<noteq> None then (Inl SenderWaiting, keep r)
                   else (Inr None, keep (r\<lparr>rl_sender := Some c\<rparr>)))
      else if rc_role c = ''receiver'' then
        (case rl_sender r of
           Some peer \<Rightarrow> (Inr (Some peer), drop)
         | None \<Rightarrow> if rl_receiver r \<noteq> None then (Inl ReceiverWaiting, keep r)
                   else (Inr None, keep (r\<lparr>rl_receiver := Some c\<rparr>)))
      else (Inr None, keep r))"

datatype relay_reply =
    ClosedWith statusMessage
  | Waits
  | Paired relay_client relay_client statusMessage statusMessage

definition relay_client_of :: "nat \<Rightarrow> joinMessage \<Rightarrow> int \<Rightarrow> relay_client" where
  "relay_client_of conn join connectionCount =
     (let candidates = normalizeDirectCandidates (jm_Direct join) (jm_DirectCandidates join);
          capabilities = normalizeCapabilities (jm_Capabilities join);
          udpCandidates = normalizeDirectCandidates '''' (jm_UDPCandidates join)
      in \<lparr>rc_conn = conn, rc_role = jm_Role join, rc_room = roomKey (jm_RoomToken join) (jm_ConnectionIndex join),
          rc_connectionIndex = jm_ConnectionIndex join, rc_connectionCount = connectionCount,
          rc_direct = firstCandidate candidates, rc_directCandidates = candidates,
          rc_directCandidateMetadata = normalizeDirectCandidateMetadata candidates (jm_DirectCandidateMetadata join),
          rc_udpCandidates = (if hasCapability capabilities ''udp-punch-v1'' then udpCandidates else []),
          rc_capabilities = capabilities, rc_directPreference = normalizeDirectPreference (jm_DirectPreference join)\<rparr>)"

definition ready_status :: "int \<Rightarrow> relay_client \<Rightarrow> statusMessage" where
  "ready_status punchAtMillis peer =
     (status ''ready'' '''')\<lparr>sm_PunchAtMillis := punchAtMillis, sm_PeerConnectionCount := rc_connectionCount peer,
       sm_PeerDirect := rc_direct peer, sm_PeerDirectCandidates := rc_directCandidates peer,
       sm_PeerDirectCandidateMetadata := rc_directCandidateMetadata peer, sm_PeerUDPCandidates := rc_udpCandidates peer,
       sm_PeerCapabilities := rc_capabilities peer, sm_PeerDirectPreference := rc_directPreference peer\<rparr>"

text \<open>The address of the connection is an argument of the probe.\<close>

definition handlePublicProbe :: "(string \<Rightarrow> string \<Rightarrow> string) \<Rightarrow> int \<Rightarrow> string \<Rightarrow> relay_server \<Rightarrow> joinMessage \<Rightarrow> relay_reply" where
  "handlePublicProbe mac now address s probe =
     (if jm_RoomToken probe = '''' \<or> \<not> validRole (jm_Role probe) then ClosedWith (status ''error'' ''invalid punch probe'')
      else if \<not> authorize mac now s (jm_RoomToken probe) (jm_Pass probe) then ClosedWith (status ''error'' ''relay password required'')
      else if ValidateAddress address \<noteq> Inr () then ClosedWith (status ''error'' ''invalid observed public address'')
      else ClosedWith ((status ''punch_observed'' '''')\<lparr>sm_PublicAddress := address\<rparr>))"

definition relay_handle ::
    "(string \<Rightarrow> string \<Rightarrow> string) \<Rightarrow> int \<Rightarrow> nat \<Rightarrow> string \<Rightarrow> joinMessage \<Rightarrow> relay_server \<Rightarrow> relay_reply \<times> relay_server" where
  "relay_handle mac now conn address join s =
     (if jm_Type join = ''punch_probe'' then (handlePublicProbe mac now address s join, s)
      else
        let connectionCount = (if jm_ConnectionCount join = 0 then 1 else jm_ConnectionCount join) in
        if jm_Type join \<noteq> ''join'' \<or> jm_RoomToken join = '''' \<or> \<not> validRole (jm_Role join)
           \<or> connectionCount < 1 \<or> 8 < connectionCount
           \<or> jm_ConnectionIndex join < 0 \<or> connectionCount \<le> jm_ConnectionIndex join
        then (ClosedWith (status ''error'' ''invalid join''), s)
        else if \<not> authorize mac now s (jm_RoomToken join) (jm_Pass join)
        then (ClosedWith (status ''error'' ''relay password required''), s)
        else
          let c = relay_client_of conn join connectionCount in
          case takePeer now c s of
            (Inl SenderWaiting, s) \<Rightarrow> (ClosedWith (status ''error'' ''sender already waiting''), s)
          | (Inl ReceiverWaiting, s) \<Rightarrow> (ClosedWith (status ''error'' ''receiver already waiting''), s)
          | (Inr None, s) \<Rightarrow> (Waits, s)
          | (Inr (Some peer), s) \<Rightarrow>
              let punchAtMillis = directPunchAtMillis now c peer in
              (Paired c peer (ready_status punchAtMillis peer) (ready_status punchAtMillis c), s))"

definition room_members :: "relay_room \<Rightarrow> relay_client list" where
  "room_members r = (case rl_sender r of Some c \<Rightarrow> [c] | None \<Rightarrow> []) @ (case rl_receiver r of Some c \<Rightarrow> [c] | None \<Rightarrow> [])"

definition cleanupExpired :: "int \<Rightarrow> relay_server \<Rightarrow> relay_client list \<times> relay_server" where
  "cleanupExpired now s =
     (let old = (\<lambda>(token, r). \<not> now - rl_created r < rv_waitTTL s) in
      (concat (map (\<lambda>(token, r). room_members r) (filter old (rv_waiting s))),
       s\<lparr>rv_waiting := filter (\<lambda>p. \<not> old p) (rv_waiting s)\<rparr>))"

text \<open>What the client of the relay takes from the answer to its join.\<close>

definition join_result :: "statusMessage \<Rightarrow> (string, statusMessage) result" where
  "join_result st =
     (if sm_Type st = ''error'' then Inl (sm_Error st)
      else if sm_Type st \<noteq> ''ready'' then Inl (''unexpected relay status '' @ sm_Type st)
      else Inr (st\<lparr>sm_PeerConnectionCount := normalizedRelayConnectionCount (sm_PeerConnectionCount st),
        sm_PeerDirectCandidates := (if sm_PeerDirectCandidates st = [] \<and> sm_PeerDirect st \<noteq> '''' then [sm_PeerDirect st]
                                    else sm_PeerDirectCandidates st)\<rparr>))"

definition ValidateConnectionCount :: "int \<Rightarrow> bool" where
  "ValidateConnectionCount count \<longleftrightarrow> \<not> (count < 1 \<or> 8 < count)"

end
