(* ===== verification/Relay_Pairs.thy ===== *)
theory Relay_Pairs
  imports Relay_Server "HOL-Library.Multiset"
begin

text \<open>
  What the relay guarantees to the connections that join it: each is joined to at most one other, of
  the same room and the other role, and a connection that was joined is neither waiting nor closed
  as expired.
\<close>

section \<open>Normalised announcements\<close>

text \<open>The key of a room determines the token and the index of the connection.\<close>

lemma roomKey_inj: "0 \<le> i \<Longrightarrow> 0 \<le> j \<Longrightarrow> roomKey t i = roomKey u j \<longleftrightarrow> t = u \<and> i = j"
proof -
  assume ij: "0 \<le> i" "0 \<le> j"
  have colon: "CHR '':'' \<notin> set (Itoa k)" for k using Itoa_chars [of "CHR '':''" k] by (auto simp: is_digit_def)
  have "takeWhile (\<lambda>c. c \<noteq> CHR '':'') (rev (roomKey v k)) = rev (Itoa k)" for v k
    using colon by (auto simp: roomKey_def takeWhile_append)
  then have "roomKey t i = roomKey u j \<Longrightarrow> Itoa i = Itoa j" by (metis rev_rev_ident)
  then show ?thesis using Itoa_inj [OF ij] by (auto simp: roomKey_def)
qed

lemma normalizeDirectCandidates_bounded:
  "length (normalizeDirectCandidates legacy candidates) \<le> 8 \<and> distinct (normalizeDirectCandidates legacy candidates)
   \<and> (\<forall>c\<in>set (normalizeDirectCandidates legacy candidates). ValidateAddress c = Inr () \<and> c \<in> set (legacy # candidates))"
proof -
  let ?f = "\<lambda>candidate out. if MaxCandidates \<le> length out \<or> candidate = '''' then out
         else if ValidateAddress candidate \<noteq> Inr () then out else if candidate \<in> set out then out else out @ [candidate]"
  let ?P = "\<lambda>out. length out \<le> 8 \<and> distinct out \<and> (\<forall>c\<in>set out. ValidateAddress c = Inr () \<and> c \<in> set (legacy # candidates))"
  have "?P (fold ?f (legacy # candidates) [])"
    by (rule fold_invariant [where Q = "\<lambda>c. c \<in> set (legacy # candidates)"]) (auto simp: MaxCandidates_def)
  then show ?thesis unfolding normalizeDirectCandidates_def .
qed

lemma normalizeCapabilities_bounded:
  "length (normalizeCapabilities caps) \<le> 16 \<and> distinct (normalizeCapabilities caps)
   \<and> (\<forall>c\<in>set (normalizeCapabilities caps). length c \<le> 64 \<and> c \<in> set caps)"
proof -
  let ?f = "\<lambda>capability out. if capability = '''' \<or> 64 < length capability \<or> 16 \<le> length out then out
         else if capability \<in> set out then out else out @ [capability]"
  let ?P = "\<lambda>out. length out \<le> 16 \<and> distinct out \<and> (\<forall>c\<in>set out. length c \<le> 64 \<and> c \<in> set caps)"
  have "?P (fold ?f caps [])"
    by (rule fold_invariant [where Q = "\<lambda>c. c \<in> set caps"]) auto
  then show ?thesis unfolding normalizeCapabilities_def .
qed

section \<open>Runs\<close>

record relay_run =
  rn_server :: relay_server
  rn_used :: "nat list"
  rn_pairs :: "(relay_client \<times> relay_client) list"
  rn_expired :: "relay_client list"

definition paired_of :: "relay_reply \<Rightarrow> (relay_client \<times> relay_client) list" where
  "paired_of reply = (case reply of Paired c peer _ _ \<Rightarrow> [(c, peer)] | _ \<Rightarrow> [])"

text \<open>A new connection is handled, or the waiting rooms are cleaned up.\<close>

inductive relay_reached :: "(string \<Rightarrow> string \<Rightarrow> string) \<Rightarrow> relay_server \<Rightarrow> relay_run \<Rightarrow> bool" for mac s0 where
  start: "relay_reached mac s0 \<lparr>rn_server = s0\<lparr>rv_waiting := []\<rparr>, rn_used = [], rn_pairs = [], rn_expired = []\<rparr>"
| connection: "relay_reached mac s0 st \<Longrightarrow> conn \<notin> set (rn_used st)
    \<Longrightarrow> relay_handle mac now conn address join (rn_server st) = (reply, s')
    \<Longrightarrow> relay_reached mac s0 (st\<lparr>rn_server := s', rn_used := conn # rn_used st, rn_pairs := paired_of reply @ rn_pairs st\<rparr>)"
| cleaned: "relay_reached mac s0 st \<Longrightarrow> cleanupExpired now (rn_server st) = (expired, s')
    \<Longrightarrow> relay_reached mac s0 (st\<lparr>rn_server := s', rn_expired := expired @ rn_expired st\<rparr>)"

definition waiting_clients :: "relay_server \<Rightarrow> relay_client list" where
  "waiting_clients s = concat (map (\<lambda>(token, r). room_members r) (rv_waiting s))"

definition paired_clients :: "relay_run \<Rightarrow> relay_client list" where
  "paired_clients st = concat (map (\<lambda>(a, b). [a, b]) (rn_pairs st))"

definition opposite :: "relay_client \<times> relay_client \<Rightarrow> bool" where
  "opposite p \<longleftrightarrow> rc_room (fst p) = rc_room (snd p)
     \<and> (rc_role (fst p) = ''sender'' \<and> rc_role (snd p) = ''receiver'' \<or> rc_role (fst p) = ''receiver'' \<and> rc_role (snd p) = ''sender'')"

text \<open>Exactly one client waits in a room of the table, in the slot of its role.\<close>

definition lone :: "string \<Rightarrow> relay_room \<Rightarrow> bool" where
  "lone key r \<longleftrightarrow>
     (\<exists>c. rc_room c = key \<and> (rl_sender r = Some c \<and> rl_receiver r = None \<and> rc_role c = ''sender''
                             \<or> rl_sender r = None \<and> rl_receiver r = Some c \<and> rc_role c = ''receiver''))"

definition run_inv :: "relay_run \<Rightarrow> bool" where
  "run_inv st \<longleftrightarrow> distinct (map fst (rv_waiting (rn_server st)))
     \<and> (\<forall>(key, r)\<in>set (rv_waiting (rn_server st)). lone key r)
     \<and> distinct (map rc_conn (waiting_clients (rn_server st) @ paired_clients st @ rn_expired st))
     \<and> rc_conn ` set (waiting_clients (rn_server st) @ paired_clients st @ rn_expired st) \<subseteq> set (rn_used st)
     \<and> (\<forall>p\<in>set (rn_pairs st). opposite p)"

lemma update_new: "k \<notin> fst ` set al \<Longrightarrow> AList.update k v al = al @ [(k, v)]"
  by (induction al) auto

lemma update_same: "map_of al k = Some v \<Longrightarrow> AList.update k v al = al"
  by (induction al) (auto split: if_splits)

lemma delete_split:
  fixes al :: "('a \<times> 'b) list"
  assumes "distinct (map fst al)" and "map_of al k = Some v"
  obtains xs ys where "al = xs @ (k, v) # ys" and "AList.delete k al = xs @ ys"
proof -
  from assms(2) have "(k, v) \<in> set al" by (rule map_of_SomeD)
  then obtain xs ys where al: "al = xs @ (k, v) # ys" by (auto dest: split_list)
  have "k \<notin> fst ` set xs" "k \<notin> fst ` set ys" using assms(1) al by auto
  moreover have "filter (\<lambda>(k', _). k \<noteq> k') zs = zs" if "k \<notin> fst ` set zs" for zs :: "('a \<times> 'b) list"
    by (rule filter_True) (use that in force)
  ultimately have "AList.delete k al = xs @ ys" unfolding al AList.delete_eq by simp
  with al show thesis by (rule that)
qed

text \<open>What \<open>takePeer\<close> does to the table.\<close>

lemma takePeer_cases:
  assumes "takePeer now c s = (res, s')" and "validRole (rc_role c)" and "\<forall>(key, r)\<in>set (rv_waiting s). lone key r"
  obtains (refused) e where "res = Inl e" "rv_waiting s' = rv_waiting s"
  | (waits) r where "res = Inr None" "rv_waiting s' = rv_waiting s @ [(rc_room c, r)]" "rc_room c \<notin> fst ` set (rv_waiting s)"
      "lone (rc_room c) r" "room_members r = [c]"
  | (pairs) r peer where "res = Inr (Some peer)" "rv_waiting s' = AList.delete (rc_room c) (rv_waiting s)"
      "map_of (rv_waiting s) (rc_room c) = Some r" "room_members r = [peer]" "opposite (c, peer)"
proof (cases "map_of (rv_waiting s) (rc_room c)")
  case None
  then have new: "rc_room c \<notin> fst ` set (rv_waiting s)" by (simp add: map_of_eq_None_iff)
  show ?thesis
  proof (cases "rc_role c = ''sender''")
    case True
    then show ?thesis
      using assms(1) None new update_new [OF new]
      by (intro waits [of "\<lparr>rl_sender = Some c, rl_receiver = None, rl_created = now\<rparr>"]) (auto simp: takePeer_def lone_def room_members_def)
  next
    case False
    then have "rc_role c = ''receiver''" using assms(2) by (simp add: validRole_def)
    then show ?thesis
      using assms(1) None new update_new [OF new]
      by (intro waits [of "\<lparr>rl_sender = None, rl_receiver = Some c, rl_created = now\<rparr>"]) (auto simp: takePeer_def lone_def room_members_def)
  qed
next
  case (Some r)
  then have "lone (rc_room c) r" using assms(3) map_of_SomeD by fastforce
  then obtain d where d: "rc_room d = rc_room c" "rl_sender r = Some d \<and> rl_receiver r = None \<and> rc_role d = ''sender''
      \<or> rl_sender r = None \<and> rl_receiver r = Some d \<and> rc_role d = ''receiver''" by (auto simp: lone_def)
  show ?thesis
  proof (cases "rc_role d = rc_role c")
    case True
    then show ?thesis
      using assms(1,2) Some d update_same [OF Some] refused [of SenderWaiting] refused [of ReceiverWaiting]
      by (auto simp: takePeer_def validRole_def)
  next
    case False
    then show ?thesis
      using assms(1,2) Some d by (intro pairs [of d r]) (auto simp: takePeer_def validRole_def room_members_def opposite_def)
  qed
qed

lemma handle_keeps:
  assumes inv: "run_inv st" and conn: "conn \<notin> set (rn_used st)"
    and h: "relay_handle mac now conn address join (rn_server st) = (reply, s')"
  shows "run_inv (st\<lparr>rn_server := s', rn_used := conn # rn_used st, rn_pairs := paired_of reply @ rn_pairs st\<rparr>)"
proof -
  let ?s = "rn_server st"
  have l: "\<forall>(key, r)\<in>set (rv_waiting ?s). lone key r" using inv by (simp add: run_inv_def)
  have keep: ?thesis if "rv_waiting s' = rv_waiting ?s" "paired_of reply = []"
  proof -
    have "waiting_clients s' = waiting_clients ?s" using that by (simp add: waiting_clients_def)
    moreover have "paired_clients (st\<lparr>rn_server := s', rn_used := conn # rn_used st, rn_pairs := paired_of reply @ rn_pairs st\<rparr>) = paired_clients st"
      using that by (simp add: paired_clients_def)
    ultimately show ?thesis using inv that by (auto simp: run_inv_def)
  qed
  consider (closed) st where "reply = ClosedWith st" "s' = ?s"
    | (join) count where "validRole (jm_Role join)" "takePeer now (relay_client_of conn join count) ?s = (Inr None, s')" "reply = Waits"
    | (refused) count e st where "validRole (jm_Role join)" "takePeer now (relay_client_of conn join count) ?s = (Inl e, s')" "reply = ClosedWith st"
    | (pair) count peer m m' where "validRole (jm_Role join)" "takePeer now (relay_client_of conn join count) ?s = (Inr (Some peer), s')"
        "reply = Paired (relay_client_of conn join count) peer m m'"
    using h by (auto simp: relay_handle_def handlePublicProbe_def Let_def split: if_splits prod.splits sum.splits option.splits relay_error.splits)
  then show ?thesis
  proof cases
    case closed
    then show ?thesis by (intro keep) (simp_all add: paired_of_def)
  next
    case (join count)
    let ?c = "relay_client_of conn join count"
    have c: "validRole (rc_role ?c)" "rc_conn ?c = conn" using join by (simp_all add: relay_client_of_def Let_def)
    from join(2) c(1) l show ?thesis
    proof (cases rule: takePeer_cases)
      case (waits r)
      then have w: "waiting_clients s' = waiting_clients ?s @ [?c]" by (simp add: waiting_clients_def)
      have p: "paired_of reply = []" by (simp add: paired_of_def join)
      have "paired_clients (st\<lparr>rn_server := s', rn_used := conn # rn_used st, rn_pairs := paired_of reply @ rn_pairs st\<rparr>) = paired_clients st"
        by (simp add: paired_clients_def p)
      then show ?thesis
        using inv waits(2-4) conn c(2) by (auto simp: run_inv_def w p)
    qed simp_all
  next
    case (refused count e st)
    let ?c = "relay_client_of conn join count"
    have c: "validRole (rc_role ?c)" using refused by (simp add: relay_client_of_def Let_def)
    from refused(2) c l have "rv_waiting s' = rv_waiting ?s"
      by (cases rule: takePeer_cases) simp_all
    then show ?thesis by (rule keep) (simp add: paired_of_def refused)
  next
    case (pair count peer m m')
    let ?c = "relay_client_of conn join count"
    have c: "validRole (rc_role ?c)" "rc_conn ?c = conn" using pair by (simp_all add: relay_client_of_def Let_def)
    from pair(2) c(1) l show ?thesis
    proof (cases rule: takePeer_cases)
      case (pairs r q)
      then have q: "q = peer" by simp
      from inv have "distinct (map fst (rv_waiting ?s))" by (simp add: run_inv_def)
      from delete_split [OF this pairs(3)] obtain xs ys where al: "rv_waiting ?s = xs @ (rc_room ?c, r) # ys"
        and del: "AList.delete (rc_room ?c) (rv_waiting ?s) = xs @ ys" .
      define lc where "lc = concat (map (\<lambda>(token, r). room_members r) xs)"
      define rc where "rc = concat (map (\<lambda>(token, r). room_members r) ys)"
      have w: "waiting_clients ?s = lc @ peer # rc" "waiting_clients s' = lc @ rc"
        using al del pairs q by (simp_all add: waiting_clients_def lc_def rc_def)
      have p: "paired_of reply = [(?c, peer)]" using pair by (simp add: paired_of_def)
      have d: "distinct (map rc_conn ((lc @ peer # rc) @ paired_clients st @ rn_expired st))"
        "rc_conn ` set ((lc @ peer # rc) @ paired_clients st @ rn_expired st) \<subseteq> set (rn_used st)"
        using inv w by (simp_all add: run_inv_def)
      have "distinct (map rc_conn ((lc @ rc) @ (?c # peer # paired_clients st) @ rn_expired st))"
        using d conn c by (auto simp: image_iff)
      moreover have "rc_conn ` set ((lc @ rc) @ (?c # peer # paired_clients st) @ rn_expired st) \<subseteq> set (conn # rn_used st)"
        using d(2) c by auto
      moreover have "distinct (map fst (rv_waiting s'))" "\<forall>(key, r)\<in>set (rv_waiting s'). lone key r"
        using inv al del pairs(2) by (auto simp: run_inv_def)
      ultimately show ?thesis
        using inv pairs(5) q w p by (simp add: run_inv_def paired_clients_def)
    qed simp_all
  qed
qed

lemma cleanup_keeps:
  assumes inv: "run_inv st" and h: "cleanupExpired now (rn_server st) = (expired, s')"
  shows "run_inv (st\<lparr>rn_server := s', rn_expired := expired @ rn_expired st\<rparr>)"
proof -
  let ?s = "rn_server st"
  define old where "old = (\<lambda>(token :: string, r :: relay_room). \<not> now - rl_created r < rv_waitTTL ?s)"
  let ?m = "\<lambda>al :: (string \<times> relay_room) list. concat (map (\<lambda>(token, r). room_members r) al)"
  have e: "expired = ?m (filter old (rv_waiting ?s))" "rv_waiting s' = filter (\<lambda>p. \<not> old p) (rv_waiting ?s)"
    using h by (auto simp: cleanupExpired_def old_def Let_def case_prod_unfold)
  have split: "mset (?m (filter (\<lambda>p. \<not> old p) al)) + mset (?m (filter old al)) = mset (?m al)" for al
    by (induction al) (auto simp: ac_simps)
  let ?new = "waiting_clients s' @ paired_clients st @ expired @ rn_expired st"
  let ?old = "waiting_clients ?s @ paired_clients st @ rn_expired st"
  have m: "mset ?new = mset ?old" using split [of "rv_waiting ?s"] by (simp add: waiting_clients_def e ac_simps)
  have "mset (map rc_conn ?new) = mset (map rc_conn ?old)" using m by (simp only: mset_map)
  moreover have "distinct (map rc_conn ?old)" using inv unfolding run_inv_def by blast
  ultimately have "distinct (map rc_conn ?new)" by (metis mset_eq_imp_distinct_iff)
  moreover have "set ?new = set ?old" using m by (rule mset_eq_setD)
  then have "rc_conn ` set ?new \<subseteq> set (rn_used st)" using inv by (simp add: run_inv_def)
  moreover have "distinct (map fst (rv_waiting s'))" "\<forall>(key, r)\<in>set (rv_waiting s'). lone key r"
    using inv by (auto simp: run_inv_def e distinct_map_filter)
  ultimately show ?thesis using inv by (simp add: run_inv_def paired_clients_def)
qed

lemma relay_reached_inv: "relay_reached mac s0 st \<Longrightarrow> run_inv st"
proof (induction rule: relay_reached.induct)
  case start
  show ?case by (simp add: run_inv_def waiting_clients_def paired_clients_def)
next
  case (connection st conn now address join reply s')
  then show ?case by (intro handle_keeps)
next
  case (cleaned st now expired s')
  then show ?case by (intro cleanup_keeps)
qed

text \<open>
C20: The relay joins a connection to at most one peer, and to the right one. In every run of joins and
cleanups, two joined connections have the same room and index and opposite roles; no connection is
joined twice, or joined and also closed as expired, or joined and still waiting; and a room in the
table holds exactly one waiting connection.
\<close>

theorem relay_joins_opposite_pairs:
  assumes "relay_reached mac s0 st"
  shows "distinct (map rc_conn (waiting_clients (rn_server st) @ paired_clients st @ rn_expired st))
    \<and> (\<forall>(a, b)\<in>set (rn_pairs st). rc_room a = rc_room b
        \<and> (rc_role a = ''sender'' \<and> rc_role b = ''receiver'' \<or> rc_role a = ''receiver'' \<and> rc_role b = ''sender''))
    \<and> (\<forall>(key, r)\<in>set (rv_waiting (rn_server st)). length (room_members r) = 1)"
proof -
  have inv: "run_inv st" by (rule relay_reached_inv [OF assms])
  have "length (room_members r) = 1" if "lone key r" for key r using that by (auto simp: lone_def room_members_def)
  then show ?thesis using inv unfolding run_inv_def opposite_def by fastforce
qed

definition demo_join :: "string \<Rightarrow> joinMessage" where
  "demo_join role = \<lparr>jm_Type = ''join'', jm_RoomToken = ''t'', jm_Role = role, jm_ConnectionIndex = 0, jm_ConnectionCount = 0, jm_Pass = '''',
     jm_Direct = '''', jm_DirectCandidates = [], jm_DirectCandidateMetadata = [], jm_UDPCandidates = [], jm_Capabilities = [], jm_DirectPreference = ''''\<rparr>"

lemma demo_pairs:
  "case relay_handle (\<lambda>_ _. '''') 0 1 '''' (demo_join ''sender'') NewRelayServer of (_, s1) \<Rightarrow>
     (case relay_handle (\<lambda>_ _. '''') 1 2 '''' (demo_join ''receiver'') s1 of (reply, _) \<Rightarrow> map (\<lambda>(a, b). (rc_conn a, rc_conn b)) (paired_of reply) = [(2, 1)])"
  by code_simp

theorem relay_joins_opposite_pairs_witness:
  "\<exists>st. relay_reached (\<lambda>_ _. '''') NewRelayServer st \<and> length (rn_pairs st) = 1 \<and> (\<forall>(a, b)\<in>set (rn_pairs st). rc_room a = rc_room b)"
proof -
  let ?st = "\<lparr>rn_server = NewRelayServer\<lparr>rv_waiting := []\<rparr>, rn_used = [], rn_pairs = [], rn_expired = []\<rparr>"
  have s0: "NewRelayServer\<lparr>rv_waiting := []\<rparr> = NewRelayServer" by (simp add: NewRelayServer_def)
  obtain r1 s1 where h1: "relay_handle (\<lambda>_ _. '''') 0 1 '''' (demo_join ''sender'') NewRelayServer = (r1, s1)" by fastforce
  obtain r2 s2 where h2: "relay_handle (\<lambda>_ _. '''') 1 2 '''' (demo_join ''receiver'') s1 = (r2, s2)" by fastforce
  from demo_pairs h1 h2 have p: "length (paired_of r2) = 1" by (auto dest: arg_cong [where f = length])
  let ?st1 = "?st\<lparr>rn_server := s1, rn_used := 1 # rn_used ?st, rn_pairs := paired_of r1 @ rn_pairs ?st\<rparr>"
  have r1: "relay_reached (\<lambda>_ _. '''') NewRelayServer ?st1"
    by (rule relay_reached.connection [OF relay_reached.start, where now = 0 and address = "''''" and join = "demo_join ''sender''"])
      (use h1 s0 in simp_all)
  have w: "paired_of r1 = []" using h1 by (simp add: relay_handle_def demo_join_def Let_def validRole_def authorize_def NewRelayServer_def
      takePeer_def relay_client_of_def paired_of_def split: prod.splits)
  let ?st2 = "?st1\<lparr>rn_server := s2, rn_used := 2 # rn_used ?st1, rn_pairs := paired_of r2 @ rn_pairs ?st1\<rparr>"
  have r2: "relay_reached (\<lambda>_ _. '''') NewRelayServer ?st2"
    by (rule relay_reached.connection [OF r1, where now = 1 and address = "''''" and join = "demo_join ''receiver''"])
      (use h2 in simp_all)
  have "length (rn_pairs ?st2) = 1" using p w by simp
  then show ?thesis using r2 relay_joins_opposite_pairs [OF r2] by (intro exI [of _ ?st2]) auto
qed

end
