(* ===== verification/Note_Converge.thy ===== *)
theory Note_Converge
  imports Note_Document
begin

text \<open>
  Two peers of a notepad that edit at the same time (the loop of \<open>RunInteractive\<close> in
  internal/note/interactive.go). A peer takes its own lines and the frames that arrive in any order;
  its workspace is at every moment the newest of the documents it has seen. The reference is
  \<open>newest\<close>, which looks at all documents at once.
\<close>

section \<open>The workspace as the newest documents\<close>

fun newest :: "Document list \<Rightarrow> Document option" where
  "newest [] = None"
| "newest (d # ds) = (case newest ds of None \<Rightarrow> Some d | Some e \<Rightarrow> Some (if newer e d then e else d))"

definition newest_of :: "Document list \<Rightarrow> Workspace" where
  "newest_of ds pad = newest (filter (\<lambda>d. do_Pad d = pad) ds)"

text \<open>The workspace holds for a pad the newest of the documents in a set that are about it.\<close>

definition top_at :: "string \<Rightarrow> Workspace \<Rightarrow> Document set \<Rightarrow> bool" where
  "top_at pad w S \<longleftrightarrow> (\<forall>e\<in>S. do_Pad e = pad \<longrightarrow> w pad \<noteq> None) \<and> (\<forall>d. w pad = Some d \<longrightarrow> d \<in> S \<and> do_Pad d = pad)
     \<and> (\<forall>d e. w pad = Some d \<longrightarrow> e \<in> S \<longrightarrow> do_Pad e = pad \<longrightarrow> \<not> newer e d)"

lemma top_atI:
  "(\<And>e. e \<in> S \<Longrightarrow> do_Pad e = pad \<Longrightarrow> w pad \<noteq> None) \<Longrightarrow> (\<And>d. w pad = Some d \<Longrightarrow> d \<in> S \<and> do_Pad d = pad)
    \<Longrightarrow> (\<And>d e. w pad = Some d \<Longrightarrow> e \<in> S \<Longrightarrow> do_Pad e = pad \<Longrightarrow> \<not> newer e d) \<Longrightarrow> top_at pad w S"
  unfolding top_at_def by blast

lemma top_atD:
  assumes "top_at pad w S"
  shows "e \<in> S \<Longrightarrow> do_Pad e = pad \<Longrightarrow> \<exists>d. w pad = Some d" "w pad = Some d \<Longrightarrow> d \<in> S \<and> do_Pad d = pad"
    "w pad = Some d \<Longrightarrow> e \<in> S \<Longrightarrow> do_Pad e = pad \<Longrightarrow> \<not> newer e d"
  using assms unfolding top_at_def by blast+

lemma top_at_unique:
  assumes "top_at pad w S" "top_at pad w' S"
  shows "w pad = w' pad"
proof (cases "w pad")
  case None
  then have "w' pad = None" using top_atD(1,2) [OF assms(1)] top_atD(2) [OF assms(2)] by (cases "w' pad") fastforce+
  with None show ?thesis by simp
next
  case (Some d)
  then obtain e where e: "w' pad = Some e" using top_atD(2) [OF assms(1)] top_atD(1) [OF assms(2)] by blast
  have "d \<in> S \<and> do_Pad d = pad" "e \<in> S \<and> do_Pad e = pad" using Some e assms top_atD(2) by blast+
  moreover from this have "\<not> newer d e" "\<not> newer e d" using Some e top_atD(3) [OF assms(1)] top_atD(3) [OF assms(2)] by blast+
  ultimately show ?thesis using newer_total [of d e] Some e by auto
qed

lemma newer_weak:
  assumes "newer c e"
  shows "newer c d \<or> newer d e"
proof (cases "do_Revision c = do_Revision d \<and> do_Timestamp c = do_Timestamp d")
  case True
  then show ?thesis
    using assms string_less_total [of "do_Text c" "do_Text d"] string_less_trans [of "do_Text e" "do_Text c" "do_Text d"]
    by (auto simp: newer_iff)
next
  case False
  then consider "do_Revision d < do_Revision c" | "do_Revision c < do_Revision d"
      | "do_Revision c = do_Revision d" "do_Timestamp d < do_Timestamp c"
      | "do_Revision c = do_Revision d" "do_Timestamp c < do_Timestamp d"
    by (meson linorder_less_linear)
  then show ?thesis using assms by cases (auto simp: newer_iff)
qed

lemma newest_some: "newest ds = Some d \<Longrightarrow> d \<in> set ds \<and> (\<forall>e\<in>set ds. \<not> newer e d)"
proof (induction ds arbitrary: d)
  case (Cons x ds)
  show ?case
  proof (cases "newest ds")
    case None
    then have "ds = []" by (cases ds) (auto split: option.splits)
    with Cons.prems show ?thesis by simp
  next
    case (Some e)
    have d: "d = (if newer e x then e else x)" using Cons.prems Some by simp
    have "\<not> newer y d" if "y \<in> set ds" for y
      using that Cons.IH [OF Some] newer_weak [of y x e] d by (auto split: if_splits)
    then show ?thesis using d Cons.IH [OF Some] newer_trans [of x e x] by (auto split: if_splits)
  qed
qed simp

lemma newest_none: "newest ds = None \<longleftrightarrow> ds = []"
  by (cases ds) (auto split: option.split)

lemma newest_of_top: "top_at pad (newest_of ds) (set ds)"
proof -
  have "newest_of ds pad \<noteq> None" if "e \<in> set ds" "do_Pad e = pad" for e
    using that by (auto simp: newest_of_def newest_none filter_empty_conv)
  moreover have "d \<in> set ds \<and> do_Pad d = pad \<and> (\<forall>e\<in>set ds. do_Pad e = pad \<longrightarrow> \<not> newer e d)" if "newest_of ds pad = Some d" for d
    using newest_some [of "filter (\<lambda>d. do_Pad d = pad) ds" d] that by (simp add: newest_of_def)
  ultimately show ?thesis unfolding top_at_def by blast
qed

section \<open>Operations\<close>

lemma top_at_stored:
  assumes "top_at pad w S" "newer d (doc_at w (do_Pad d))"
  shows "top_at pad (w(do_Pad d \<mapsto> d)) (insert d S)"
proof (cases "do_Pad d = pad")
  case True
  have "\<not> newer e d" if "e \<in> S" "do_Pad e = pad" for e
  proof -
    from top_atD(1) [OF assms(1) that] obtain c where c: "w pad = Some c" by blast
    with assms(2) True have "newer d c" by (simp add: doc_at_def)
    moreover have "\<not> newer e c" using top_atD(3) [OF assms(1) c that] .
    ultimately show ?thesis using newer_trans [of e d c] by blast
  qed
  then show ?thesis using True by (intro top_atI) auto
next
  case False
  then show ?thesis using top_atD [OF assms(1)] by (intro top_atI) auto
qed

lemma top_at_kept:
  assumes "top_at pad w S" "w (do_Pad d) = Some c" "\<not> newer d c"
  shows "top_at pad w (insert d S)"
proof (rule top_atI)
  show "w pad \<noteq> None" if "e \<in> insert d S" "do_Pad e = pad" for e
    using that assms top_atD(1) [OF assms(1)] by fastforce
  show "x \<in> insert d S \<and> do_Pad x = pad" if "w pad = Some x" for x
    using that top_atD(2) [OF assms(1)] by blast
  show "\<not> newer e x" if "w pad = Some x" "e \<in> insert d S" "do_Pad e = pad" for x e
    using that assms(2,3) top_atD(3) [OF assms(1)] by auto
qed

definition normal :: "Document \<Rightarrow> bool" where
  "normal d \<longleftrightarrow> NormalizePad (do_Pad d) = do_Pad d \<and> ValidateDocument d = Inr ()"

lemma ApplyRemote_top:
  assumes "top_at pad w S" "normal d"
  shows "top_at pad (snd (ApplyRemote d w)) (insert d S)"
proof -
  have d: "d\<lparr>do_Pad := NormalizePad (do_Pad d)\<rparr> = d" "ValidateDocument d = Inr ()" using assms(2) by (simp_all add: normal_def)
  have "newer d (doc_at w (do_Pad d)) \<or> (\<exists>c. w (do_Pad d) = Some c \<and> \<not> newer d c)"
    using newer_zero [OF d(2)] by (auto simp: doc_at_def split: option.split)
  then show ?thesis
    using top_at_stored [OF assms(1), of d] top_at_kept [OF assms(1), of d] d
    by (auto simp: ApplyRemote_def Let_def newer_def doc_at_def)
qed

text \<open>
  A local edit counts the revision up, and its document is valid unless a counter of the pad was at
  the end of its type; then it is newer than the one before.
\<close>

lemma Update_run:
  assumes "Update pad txt now w = (Inr d, w')"
  shows "w' = w(do_Pad d \<mapsto> d)" "do_Pad d = NormalizePad pad" "do_Text d = txt"
    "do_Revision d = do_Revision (doc_at w (do_Pad d)) + 1" "NormalizePad (do_Pad d) = do_Pad d"
  using assms by (auto simp: Update_def Let_def split: sum.splits)

lemma Update_fails: "Update pad txt now w = (Inl e, w') \<Longrightarrow> w' = w"
  by (auto simp: Update_def Let_def split: sum.splits)

lemma revision_step: "(r :: 64 word) + 1 \<noteq> 0 \<Longrightarrow> r < r + 1"
  by unat_arith

lemma Update_top:
  assumes "top_at p w S" "Update pad txt now w = (Inr d, w')" "ValidateDocument d = Inr ()"
  shows "top_at p w' (insert d S) \<and> normal d"
proof -
  note u = Update_run [OF assms(2)]
  have "do_Revision d \<noteq> 0" using assms(3) by (auto simp: ValidateDocument_def result_simps split: if_splits)
  then have "newer d (doc_at w (do_Pad d))" using u(4) revision_step by (simp add: newer_iff)
  from top_at_stored [OF assms(1) this] show ?thesis using u(1,5) assms(3) by (simp add: normal_def)
qed

section \<open>Two peers\<close>

text \<open>
  What a peer does: its own lines, for which it sends the document of \<open>Update\<close> (\<open>Clear\<close> is an
  update with the empty text), and the frames it receives, each with the document it carries.
\<close>

datatype edit = Local string string int | Remote Document

fun note_run :: "edit list \<Rightarrow> Workspace \<Rightarrow> Workspace \<times> Document list" where
  "note_run [] w = (w, [])"
| "note_run (Local pad txt now # es) w =
     (case Update pad txt now w of
        (Inl _, w) \<Rightarrow> note_run es w
      | (Inr d, w) \<Rightarrow> (case note_run es w of (w, sent) \<Rightarrow> (w, d # sent)))"
| "note_run (Remote d # es) w = note_run es (snd (ApplyRemote d w))"

fun received_docs :: "edit list \<Rightarrow> Document list" where
  "received_docs [] = []"
| "received_docs (Remote d # es) = d # received_docs es"
| "received_docs (Local _ _ _ # es) = received_docs es"

lemma sent_normal:
  "note_run es w = (w', sent) \<Longrightarrow> d \<in> set sent \<Longrightarrow> ValidateDocument d = Inr () \<Longrightarrow> normal d"
proof (induction es w arbitrary: w' sent rule: note_run.induct)
  case (2 pad body now es w)
  then show ?case
    using Update_run(5) by (fastforce simp: normal_def split: prod.splits sum.splits)
qed auto

lemma note_run_top:
  assumes "top_at p w S" "note_run es w = (w', sent)" "\<forall>d\<in>set sent. ValidateDocument d = Inr ()"
    "\<forall>d\<in>set (received_docs es). normal d"
  shows "top_at p w' (S \<union> set sent \<union> set (received_docs es))"
  using assms
proof (induction es w arbitrary: S w' sent rule: note_run.induct)
  case (2 pad body now es w)
  show ?case
  proof (cases "Update pad body now w")
    case (Pair r w1)
    show ?thesis
    proof (cases r)
      case (Inl e)
      with Pair have "w1 = w" using Update_fails by blast
      with 2(1)[OF Pair [symmetric] Inl] 2(3-) Pair Inl show ?thesis by simp
    next
      case (Inr d)
      obtain ds where ds: "note_run es w1 = (w', ds)" "sent = d # ds"
        using 2(4) Pair Inr by (auto split: prod.splits)
      have t: "top_at p w1 (insert d S)" using Update_top [OF 2(3) Pair [unfolded Inr]] 2(5) ds(2) by simp
      have "top_at p w' (insert d S \<union> set ds \<union> set (received_docs es))"
        using 2(2)[OF Pair [symmetric] Inr t ds(1)] 2(5,6) ds(2) by simp
      moreover have "insert d S \<union> set ds \<union> set (received_docs es) = S \<union> set sent \<union> set (received_docs (Local pad body now # es))"
        by (auto simp: ds(2))
      ultimately show ?thesis by simp
    qed
  qed
next
  case (3 d es w)
  have t: "top_at p (snd (ApplyRemote d w)) (insert d S)" using ApplyRemote_top [OF 3(2)] 3(5) by simp
  have "top_at p w' (insert d S \<union> set sent \<union> set (received_docs es))" using 3(1)[OF t] 3(3-5) by simp
  moreover have "insert d S \<union> set sent \<union> set (received_docs es) = S \<union> set sent \<union> set (received_docs (Remote d # es))"
    by auto
  ultimately show ?case by simp
qed simp

text \<open>
  Two peers that hold the same document of a pad, each make edits of their own and receive every
  document the other sent, in any order, any number of times and mixed in any way with their own
  edits, again hold the same document of the pad: the newest of all.
\<close>

lemma runs_agree:
  assumes "note_run ea va = (wa, sa)" and "note_run eb vb = (wb, sb)" and "va pad = newest_of start pad" and "vb pad = newest_of start pad"
    and "set (received_docs ea) = set sb" and "set (received_docs eb) = set sa"
    and "\<forall>d\<in>set sa \<union> set sb. ValidateDocument d = Inr ()"
  shows "wa pad = wb pad \<and> wa pad = newest_of (start @ sa @ sb) pad"
proof -
  have "top_at pad va (set start)" "top_at pad vb (set start)"
    using newest_of_top [of pad start] assms(3,4) by (simp_all add: top_at_def)
  then have "top_at pad wa (set start \<union> set sa \<union> set sb)" "top_at pad wb (set start \<union> set sb \<union> set sa)"
    using note_run_top [OF _ assms(1)] note_run_top [OF _ assms(2)]
      sent_normal [OF assms(1)] sent_normal [OF assms(2)] assms(5-7) by auto
  then have "top_at pad wa (set (start @ sa @ sb))" "top_at pad wb (set (start @ sa @ sb))" by (simp_all add: Un_ac)
  then show ?thesis using top_at_unique newest_of_top by metis
qed

text \<open>
  The condition matters. \<open>ApplyRemote\<close> accepts every positive revision of a peer; when that is the
  largest one, the next local edit gets revision zero: no peer accepts it, and every document that
  arrives later replaces it.
\<close>

lemma revision_wraps:
  assumes "doc_at w (NormalizePad pad) = \<lparr>do_Pad = NormalizePad pad, do_Text = t, do_Revision = -1, do_Timestamp = ts\<rparr>"
    and "ValidatePad (NormalizePad pad) = Inr ()" and "ValidateText txt = Inr ()"
  shows "\<exists>d w'. Update pad txt now w = (Inr d, w') \<and> w' (NormalizePad pad) = Some d \<and> do_Text d = txt
    \<and> ValidateDocument d = Inl RevisionZero \<and> ValidateFrame (FrameFromDocument ''update'' d) = Inl RevisionZero"
  using assms
  by (auto simp: Update_def Let_def ValidateDocument_def ValidateFrame_def FrameFromDocument_def Frame_Document_def ProtocolVersion_def)

end
