(* ===== verification/Note_Session.thy ===== *)
theory Note_Session
  imports Note_Converge Secure
begin

text \<open>
  The encrypted session of a shared notepad (internal/note/session.go), the exchange of snapshots
  when two peers meet (workspace_sync.go) and the loop that follows (interactive.go). A channel is
  the list of payloads that will arrive and the list of payloads sent; an operation that waits for a
  payload that never comes fails with \<open>NothingArrives\<close>. JSON and the AEAD are parameters.
\<close>

section \<open>Sessions\<close>

definition maxEnvelopeSize :: int where
  "maxEnvelopeSize = 4194304"

record note_session =
  ns_send :: Session
  ns_recv :: Session
  ns_sendSeq :: "64 word"
  ns_recvSeq :: "64 word"
  ns_host :: bool
  ns_workspaceSync :: bool
  ns_closed :: bool

record handshakeMessage =
  hk_Type :: string
  hk_Version :: int
  hk_SenderNonce :: string
  hk_ReceiverNonce :: string
  hk_WorkspaceSync :: bool

record note_envelope =
  ne_Version :: int
  ne_Sequence :: "64 word"
  ne_Ciphertext :: string

record note_wire =
  nw_seal :: seal_fun
  nw_unseal :: unseal_fun
  nw_envJson :: "note_envelope \<Rightarrow> string"
  nw_envParse :: "string \<Rightarrow> note_envelope option"
  nw_frameJson :: "Frame \<Rightarrow> string"
  nw_frameParse :: "string \<Rightarrow> Frame option"
  nw_helloJson :: "handshakeMessage \<Rightarrow> string"
  nw_helloParse :: "string \<Rightarrow> handshakeMessage option"

record note_channel =
  nc_in :: "string list"
  nc_out :: "string list"

record note_peer = note_channel +
  np_session :: note_session
  np_workspace :: Workspace

datatype session_error =
    SessionClosed
  | NothingArrives
  | PayloadTooLong
  | HandshakeUndecodable
  | HandshakeType string string
  | HandshakeVersion int
  | MissingSenderNonce
  | MissingReceiverNonce
  | BadPairingCode code_error
  | EnvelopeUndecodable
  | NoteEnvelopeVersion int
  | NoteEnvelopeSequence "64 word" "64 word"
  | NoteUndecryptable
  | FrameUndecodable
  | NoteError note_error
  | PadMismatch string string
  | ExpectedPong string
  | ExpectedAck string
  | ExpectedSnapshot string
  | InputFailed

definition take_payload :: "('c note_channel_scheme, session_error, string) act" where
  "take_payload c = (case nc_in c of [] \<Rightarrow> (Inl NothingArrives, c) | x # xs \<Rightarrow> (Inr x, c\<lparr>nc_in := xs\<rparr>))"

definition put_payload :: "string \<Rightarrow> 'c note_channel_scheme \<Rightarrow> 'c note_channel_scheme" where
  "put_payload x c = c\<lparr>nc_out := nc_out c @ [x]\<rparr>"

definition validateHandshake :: "handshakeMessage \<Rightarrow> string \<Rightarrow> (session_error, unit) result" where
  "validateHandshake message expectedType =
     (if hk_Type message \<noteq> expectedType then Inl (HandshakeType expectedType (hk_Type message))
      else if hk_Version message \<noteq> ProtocolVersion then Inl (HandshakeVersion (hk_Version message))
      else if expectedType = ''hello'' \<and> hk_SenderNonce message = '''' then Inl MissingSenderNonce
      else if expectedType = ''hello_ack'' \<and> hk_ReceiverNonce message = '''' then Inl MissingReceiverNonce
      else Inr ())"

definition sendPlain :: "note_wire \<Rightarrow> handshakeMessage \<Rightarrow> ('c note_channel_scheme, session_error, unit) act" where
  "sendPlain w m = modify (put_payload (nw_helloJson w m))"

definition recvPlain :: "note_wire \<Rightarrow> ('c note_channel_scheme, session_error, handshakeMessage) act" where
  "recvPlain w =
     bind_act take_payload (\<lambda>payload.
     if maxEnvelopeSize < int (length payload) then throw PayloadTooLong
     else case nw_helloParse w payload of None \<Rightarrow> throw HandshakeUndecodable | Some m \<Rightarrow> ret m)"

definition session_of :: "hkdf_fun \<Rightarrow> string \<Rightarrow> string \<Rightarrow> string \<Rightarrow> bool \<Rightarrow> bool \<Rightarrow> note_session" where
  "session_of hkdf code senderNonce receiverNonce host workspaceSync =
     (let sendInfo = (if host then ''kigo-note-v1:host-to-join'' else ''kigo-note-v1:join-to-host'');
          recvInfo = (if host then ''kigo-note-v1:join-to-host'' else ''kigo-note-v1:host-to-join'')
      in \<lparr>ns_send = NewSessionWithInfo hkdf code senderNonce receiverNonce sendInfo,
          ns_recv = NewSessionWithInfo hkdf code senderNonce receiverNonce recvInfo,
          ns_sendSeq = 0, ns_recvSeq = 0, ns_host = host, ns_workspaceSync = workspaceSync, ns_closed = False\<rparr>)"

text \<open>The random nonce is an argument; the connection is there, as the callers have just opened it.\<close>

definition newSession ::
    "note_wire \<Rightarrow> hkdf_fun \<Rightarrow> string \<Rightarrow> string \<Rightarrow> bool \<Rightarrow> ('c note_channel_scheme, session_error, note_session) act" where
  "newSession w hkdf random code0 host =
     bind_act (try_get BadPairingCode (\<lambda>_. ValidateCode code0)) (\<lambda>code.
     if host then
       bind_act (sendPlain w \<lparr>hk_Type = ''hello'', hk_Version = ProtocolVersion, hk_SenderNonce = random,
                              hk_ReceiverNonce = '''', hk_WorkspaceSync = True\<rparr>) (\<lambda>_.
       bind_act (recvPlain w) (\<lambda>m.
       bind_act (try_get id (\<lambda>_. validateHandshake m ''hello_ack'')) (\<lambda>_.
       ret (session_of hkdf code random (hk_ReceiverNonce m) True (hk_WorkspaceSync m)))))
     else
       bind_act (recvPlain w) (\<lambda>m.
       bind_act (try_get id (\<lambda>_. validateHandshake m ''hello'')) (\<lambda>_.
       bind_act (sendPlain w \<lparr>hk_Type = ''hello_ack'', hk_Version = ProtocolVersion, hk_SenderNonce = '''',
                              hk_ReceiverNonce = random, hk_WorkspaceSync = hk_WorkspaceSync m\<rparr>) (\<lambda>_.
       ret (session_of hkdf code (hk_SenderNonce m) random False (hk_WorkspaceSync m))))))"

text \<open>The payload of a frame as the \<open>n\<close>-th envelope of a session.\<close>

definition sealed :: "note_wire \<Rightarrow> Session \<Rightarrow> 64 word \<Rightarrow> Frame \<Rightarrow> string" where
  "sealed w ses sequence f =
     nw_envJson w \<lparr>ne_Version = ProtocolVersion, ne_Sequence = sequence,
       ne_Ciphertext = Encrypt (nw_seal w) ses sequence (nw_frameJson w f)\<rparr>"

definition complete_frame :: "Frame \<Rightarrow> Frame" where
  "complete_frame f0 =
     (let f = f0\<lparr>fr_Version := ProtocolVersion\<rparr> in
      if fr_Pad f = '''' \<and> IsDocumentUpdate f then f\<lparr>fr_Pad := DefaultPad\<rparr> else f)"

text \<open>The number of an envelope is used up even when the envelope is too long to be sent.\<close>

definition Send :: "note_wire \<Rightarrow> Frame \<Rightarrow> (note_peer, session_error, unit) act" where
  "Send w f0 p =
     (let f = complete_frame f0; s = np_session p; sequence = ns_sendSeq s + 1; payload = sealed w (ns_send s) sequence f in
      case ValidateFrame f of
        Inl e \<Rightarrow> (Inl (NoteError e), p)
      | Inr _ \<Rightarrow>
          if ns_closed s then (Inl SessionClosed, p)
          else
            let p = p\<lparr>np_session := s\<lparr>ns_sendSeq := sequence\<rparr>\<rparr> in
            if maxEnvelopeSize < int (length payload) then (Inl PayloadTooLong, p)
            else (Inr (), put_payload payload p))"

definition open_frame :: "note_wire \<Rightarrow> Session \<Rightarrow> 64 word \<Rightarrow> string \<Rightarrow> (session_error, Frame) result" where
  "open_frame w ses expected payload =
     (if maxEnvelopeSize < int (length payload) then Inl PayloadTooLong
      else case nw_envParse w payload of
        None \<Rightarrow> Inl EnvelopeUndecodable
      | Some message \<Rightarrow>
          if ne_Version message \<noteq> ProtocolVersion then Inl (NoteEnvelopeVersion (ne_Version message))
          else if ne_Sequence message \<noteq> expected then Inl (NoteEnvelopeSequence (ne_Sequence message) expected)
          else case Decrypt (nw_unseal w) ses (ne_Sequence message) (ne_Ciphertext message) of
            None \<Rightarrow> Inl NoteUndecryptable
          | Some body \<Rightarrow>
              (case nw_frameParse w body of
                 None \<Rightarrow> Inl FrameUndecodable
               | Some f \<Rightarrow> (case ValidateFrame f of Inl e \<Rightarrow> Inl (NoteError e) | Inr _ \<Rightarrow> Inr f)))"

definition Recv :: "note_wire \<Rightarrow> (note_peer, session_error, Frame) act" where
  "Recv w p =
     (if ns_closed (np_session p) then (Inl SessionClosed, p)
      else case take_payload p of
        (Inl e, p) \<Rightarrow> (Inl e, p)
      | (Inr payload, p) \<Rightarrow>
          let s = np_session p in
          case open_frame w (ns_recv s) (ns_recvSeq s + 1) payload of
            Inl e \<Rightarrow> (Inl e, p)
          | Inr f \<Rightarrow> (Inr f, p\<lparr>np_session := s\<lparr>ns_recvSeq := ns_recvSeq s + 1\<rparr>\<rparr>))"

definition Close :: "note_peer \<Rightarrow> note_peer" where
  "Close p = p\<lparr>np_session := (np_session p)\<lparr>ns_closed := True\<rparr>\<rparr>"

section \<open>Exchange of snapshots\<close>

definition plain_frame :: "string \<Rightarrow> string \<Rightarrow> Frame" where
  "plain_frame frameType pad = \<lparr>fr_Type = frameType, fr_Version = ProtocolVersion, fr_Pad = pad, fr_Revision = 0,
     fr_Timestamp = 0, fr_Text = ''''\<rparr>"

definition ack_frame :: "string \<Rightarrow> Document \<Rightarrow> Frame" where
  "ack_frame pad current = (plain_frame ''ack'' pad)\<lparr>fr_Revision := do_Revision current, fr_Timestamp := do_Timestamp current\<rparr>"

definition on_workspace :: "(Workspace, note_error, 'a) act \<Rightarrow> (note_peer, session_error, 'a) act" where
  "on_workspace m p =
     (case m (np_workspace p) of
        (Inl e, w) \<Rightarrow> (Inl (NoteError e), p\<lparr>np_workspace := w\<rparr>)
      | (Inr a, w) \<Rightarrow> (Inr a, p\<lparr>np_workspace := w\<rparr>))"

definition snapshot_frame :: "Document \<Rightarrow> Frame" where
  "snapshot_frame document =
     (if do_Revision document = 0 then plain_frame ''ping'' (do_Pad document)
      else FrameFromDocument (if do_Text document = '''' then ''clear'' else ''update'') document)"

definition sendWorkspaceSnapshot :: "note_wire \<Rightarrow> Document \<Rightarrow> (note_peer, session_error, unit) act" where
  "sendWorkspaceSnapshot w document =
     bind_act (Send w (snapshot_frame document)) (\<lambda>_.
     bind_act (Recv w) (\<lambda>response.
     if NormalizePad (fr_Pad response) \<noteq> NormalizePad (do_Pad document)
     then throw (PadMismatch (fr_Pad response) (do_Pad document))
     else if do_Revision document = 0 then guard_act (fr_Type response = ''pong'') (ExpectedPong (fr_Type response))
     else guard_act (fr_Type response = ''ack'') (ExpectedAck (fr_Type response))))"

definition receiveWorkspaceSnapshot :: "note_wire \<Rightarrow> string \<Rightarrow> (note_peer, session_error, Document \<times> bool) act" where
  "receiveWorkspaceSnapshot w pad =
     bind_act (Recv w) (\<lambda>f.
     if NormalizePad (fr_Pad f) \<noteq> pad then throw (PadMismatch (fr_Pad f) pad)
     else if fr_Type f = ''ping'' then
       bind_act (Send w (plain_frame ''pong'' pad)) (\<lambda>_. ret (zero_document, False))
     else if fr_Type f = ''update'' \<or> fr_Type f = ''clear'' then
       bind_act (on_workspace (ApplyRemote (Frame_Document f))) (\<lambda>(changed, current).
       bind_act (Send w (ack_frame pad current)) (\<lambda>_. ret (current, changed)))
     else throw (ExpectedSnapshot (fr_Type f)))"

definition SyncWorkspace :: "note_wire \<Rightarrow> string \<Rightarrow> (note_peer, session_error, Document list) act" where
  "SyncWorkspace w pad0 p =
     (if \<not> ns_workspaceSync (np_session p) then (Inr [], p)
      else
        let pad = NormalizePad pad0 in
        (bind_act (try_get NoteError (\<lambda>_. ValidatePad pad)) (\<lambda>_.
         if ns_host (np_session p) then
           bind_act (gets (\<lambda>p. Snapshot pad (np_workspace p))) (\<lambda>mine.
           bind_act (sendWorkspaceSnapshot w mine) (\<lambda>_.
           bind_act (receiveWorkspaceSnapshot w pad) (\<lambda>(document, changed).
           ret (if changed then [document] else []))))
         else
           bind_act (receiveWorkspaceSnapshot w pad) (\<lambda>(document, changed).
           bind_act (gets (\<lambda>p. Snapshot pad (np_workspace p))) (\<lambda>mine.
           bind_act (sendWorkspaceSnapshot w mine) (\<lambda>_.
           ret (if changed then [document] else [])))))) p)"

section \<open>The loop of a notepad\<close>

text \<open>
  What the loop waits for: a line with the time it was entered, the end of the input, a failure of
  the input, and a frame of the peer. The value of a step is whether the loop goes on. What is
  written to the terminal is left out.
\<close>

datatype note_input = Line string int | EndOfInput | InputError | Arrival

definition send_bye :: "note_wire \<Rightarrow> string \<Rightarrow> (note_peer, session_error, bool) act" where
  "send_bye w pad p = (Inr False, snd (Send w (plain_frame ''bye'' pad) p))"

definition interactive_line :: "note_wire \<Rightarrow> string \<Rightarrow> string \<Rightarrow> int \<Rightarrow> (note_peer, session_error, bool) act" where
  "interactive_line w pad line now =
     (if TrimSpace line = ''/show'' then ret True
      else if TrimSpace line = ''/clear'' then
        bind_act (on_workspace (Clear pad now)) (\<lambda>document.
        bind_act (Send w (FrameFromDocument ''clear'' document)) (\<lambda>_. ret True))
      else if TrimSpace line = ''/quit'' then send_bye w pad
      else
        bind_act (on_workspace (Update pad line now)) (\<lambda>document.
        bind_act (Send w (FrameFromDocument ''update'' document)) (\<lambda>_. ret True)))"

definition interactive_frame :: "note_wire \<Rightarrow> string \<Rightarrow> Frame \<Rightarrow> (note_peer, session_error, bool) act" where
  "interactive_frame w pad f =
     (if fr_Pad f \<noteq> '''' \<and> NormalizePad (fr_Pad f) \<noteq> pad then throw (PadMismatch (fr_Pad f) pad)
      else if fr_Type f = ''update'' \<or> fr_Type f = ''clear'' then
        bind_act (on_workspace (ApplyRemote (Frame_Document f))) (\<lambda>(applied, document).
        bind_act (Send w (ack_frame pad document)) (\<lambda>_. ret True))
      else if fr_Type f = ''ping'' then bind_act (Send w (plain_frame ''pong'' pad)) (\<lambda>_. ret True)
      else ret (fr_Type f \<noteq> ''bye''))"

definition interactive_step :: "note_wire \<Rightarrow> string \<Rightarrow> note_input \<Rightarrow> (note_peer, session_error, bool) act" where
  "interactive_step w pad i =
     (case i of
        Line line now \<Rightarrow> interactive_line w pad line now
      | EndOfInput \<Rightarrow> send_bye w pad
      | InputError \<Rightarrow> throw InputFailed
      | Arrival \<Rightarrow> bind_act (Recv w) (interactive_frame w pad))"

fun interactive_loop :: "note_wire \<Rightarrow> string \<Rightarrow> note_input list \<Rightarrow> (note_peer, session_error, bool) act" where
  "interactive_loop w pad [] = ret True"
| "interactive_loop w pad (i # is) =
     bind_act (interactive_step w pad i) (\<lambda>running. if running then interactive_loop w pad is else ret False)"

definition RunInteractive ::
    "note_wire \<Rightarrow> string \<Rightarrow> bool \<Rightarrow> note_input list \<Rightarrow> (note_peer, session_error, Document list \<times> bool) act" where
  "RunInteractive w pad0 sync inputs =
     (let pad = NormalizePad pad0 in
      bind_act (try_get NoteError (\<lambda>_. ValidatePad pad)) (\<lambda>_.
      bind_act (if sync then SyncWorkspace w pad else ret []) (\<lambda>applied.
      bind_act (interactive_loop w pad inputs) (\<lambda>running. ret (applied, running)))))"

end
