(* ===== verification/Note_Sync.thy ===== *)
theory Note_Sync
  imports Note_Session Net_Addr
begin

text \<open>
  What the sessions of a notepad give its two peers: a frame arrives as it was sent, the exchange of
  snapshots leaves both with the newer document of the pad, and the loop that follows keeps them
  converging. Each operation has a lemma that says what it does on matching sessions; the theorems
  run the two peers against each other, each reading what the other sent.
\<close>

section \<open>Frames on matching sessions\<close>

text \<open>The frames of one pad, with texts from a set that JSON carries unchanged.\<close>

definition pad_frames :: "string \<Rightarrow> string set \<Rightarrow> Frame set" where
  "pad_frames pad T = {f. fr_Version f = ProtocolVersion \<and> fr_Pad f = pad \<and> fr_Text f \<in> T
     \<and> fr_Type f \<in> {''update'', ''clear'', ''ack'', ''ping'', ''pong'', ''bye''}}"

definition note_wire_law :: "note_wire \<Rightarrow> Frame set \<Rightarrow> bool" where
  "note_wire_law w F \<longleftrightarrow> aead_law (nw_seal w) (nw_unseal w)
     \<and> (\<forall>e. ne_Version e = ProtocolVersion \<longrightarrow> nw_envParse w (nw_envJson w e) = Some e)
     \<and> (\<forall>f\<in>F. nw_frameParse w (nw_frameJson w f) = Some f)"

definition fits :: "note_wire \<Rightarrow> Frame \<Rightarrow> bool" where
  "fits w f \<longleftrightarrow> (\<forall>ses sequence. int (length (sealed w ses sequence f)) \<le> maxEnvelopeSize)"

lemma open_sealed:
  assumes "note_wire_law w F" "f \<in> F" "ValidateFrame f = Inr ()" "int (length (sealed w ses sequence f)) \<le> maxEnvelopeSize"
  shows "open_frame w ses sequence (sealed w ses sequence f) = Inr f"
proof -
  have "aead_law (nw_seal w) (nw_unseal w)" using assms(1) by (simp add: note_wire_law_def)
  note dec = Decrypt_Encrypt [OF this]
  have "nw_envParse w (sealed w ses sequence f) = Some \<lparr>ne_Version = ProtocolVersion, ne_Sequence = sequence,
       ne_Ciphertext = Encrypt (nw_seal w) ses sequence (nw_frameJson w f)\<rparr>"
    using assms(1) by (simp add: note_wire_law_def sealed_def)
  moreover have "nw_frameParse w (nw_frameJson w f) = Some f" using assms(1,2) by (simp add: note_wire_law_def)
  ultimately show ?thesis using assms(3,4) dec by (simp add: open_frame_def)
qed

definition sessions_match :: "note_session \<Rightarrow> note_session \<Rightarrow> bool" where
  "sessions_match a b \<longleftrightarrow> ns_send a = ns_recv b \<and> ns_recv a = ns_send b \<and> ns_sendSeq a = ns_recvSeq b
     \<and> ns_recvSeq a = ns_sendSeq b \<and> \<not> ns_closed a \<and> \<not> ns_closed b \<and> ns_workspaceSync a = ns_workspaceSync b
     \<and> ns_host a = (\<not> ns_host b)"

text \<open>The sessions after \<open>k\<close> frames were sent and \<open>n\<close> received.\<close>

definition moved :: "nat \<Rightarrow> nat \<Rightarrow> note_session \<Rightarrow> note_session" where
  "moved k n s = s\<lparr>ns_sendSeq := ns_sendSeq s + of_nat k, ns_recvSeq := ns_recvSeq s + of_nat n\<rparr>"

lemma moved_simps [simp]:
  "ns_send (moved k n s) = ns_send s" "ns_recv (moved k n s) = ns_recv s" "ns_closed (moved k n s) = ns_closed s"
  "ns_host (moved k n s) = ns_host s" "ns_workspaceSync (moved k n s) = ns_workspaceSync s"
  "ns_sendSeq (moved k n s) = ns_sendSeq s + of_nat k" "ns_recvSeq (moved k n s) = ns_recvSeq s + of_nat n"
  "moved k n (moved k' n' s) = moved (k' + k) (n' + n) s" "moved 0 0 s = s"
  by (simp_all add: moved_def add.assoc)

fun seal_all :: "note_wire \<Rightarrow> Session \<Rightarrow> 64 word \<Rightarrow> Frame list \<Rightarrow> string list" where
  "seal_all w ses n [] = []"
| "seal_all w ses n (f # fs) = sealed w ses (n + 1) f # seal_all w ses (n + 1) fs"

lemma seal_all_append: "seal_all w ses n (fs @ gs) = seal_all w ses n fs @ seal_all w ses (n + of_nat (length fs)) gs"
  by (induction fs arbitrary: n) (simp_all add: add.assoc)

text \<open>A peer that has sent the frames \<open>fs\<close> and received the frames \<open>gs\<close>, with the rest of its input.\<close>

definition advanced :: "note_wire \<Rightarrow> note_peer \<Rightarrow> Frame list \<Rightarrow> Frame list \<Rightarrow> Workspace \<Rightarrow> string list \<Rightarrow> note_peer" where
  "advanced w p fs gs ws rest = p\<lparr>nc_in := rest, nc_out := nc_out p @ seal_all w (ns_send (np_session p)) (ns_sendSeq (np_session p)) fs,
     np_session := moved (length fs) (length gs) (np_session p), np_workspace := ws\<rparr>"

lemma advanced_simps [simp]:
  "nc_in (advanced w p fs gs ws rest) = rest" "np_workspace (advanced w p fs gs ws rest) = ws"
  "np_session (advanced w p fs gs ws rest) = moved (length fs) (length gs) (np_session p)"
  "nc_out (advanced w p fs gs ws rest) = nc_out p @ seal_all w (ns_send (np_session p)) (ns_sendSeq (np_session p)) fs"
  "advanced w p [] [] (np_workspace p) (nc_in p) = p"
  by (simp_all add: advanced_def)

lemma advanced_advanced [simp]:
  "advanced w (advanced w p fs gs ws rest) fs' gs' ws' rest' = advanced w p (fs @ fs') (gs @ gs') ws' rest'"
  by (simp add: advanced_def seal_all_append)

lemma Send_run:
  assumes "\<not> ns_closed (np_session p)" "complete_frame f = f" "ValidateFrame f = Inr ()" "fits w f"
  shows "Send w f p = (Inr (), advanced w p [f] [] (np_workspace p) (nc_in p))"
  using assms by (simp add: Send_def Let_def fits_def not_less put_payload_def advanced_def moved_def)

lemma Recv_run:
  assumes "note_wire_law w F" "f \<in> F" "ValidateFrame f = Inr ()" "fits w f" "\<not> ns_closed (np_session p)"
    and "nc_in p = sealed w (ns_recv (np_session p)) (ns_recvSeq (np_session p) + 1) f # rest"
  shows "Recv w p = (Inr f, advanced w p [] [f] (np_workspace p) rest)"
proof -
  have "open_frame w (ns_recv (np_session p)) (ns_recvSeq (np_session p) + 1)
      (sealed w (ns_recv (np_session p)) (ns_recvSeq (np_session p) + 1) f) = Inr f"
    using assms(1-4) by (intro open_sealed) (simp_all add: fits_def)
  then show ?thesis using assms(5,6) by (simp add: Recv_def take_payload_def Let_def advanced_def moved_def)
qed

section \<open>The handshake\<close>

text \<open>
  With the same code both ends finish the handshake, each reading what the other sent, and their
  sessions match; the exchange of snapshots is then supported at both ends.
\<close>

lemma handshake_matches:
  assumes "\<And>m. nw_helloParse w (nw_helloJson w m) = Some m" and "\<And>m. int (length (nw_helloJson w m)) \<le> maxEnvelopeSize"
    and "ValidateCode c = Inr k" and "ValidateCode c' = Inr k'" and "NormalizeCode k = NormalizeCode k'"
    and "m \<noteq> ''''" and "n \<noteq> ''''" and "nc_out a = []" and "nc_out b = []"
  shows "\<exists>x y a' b' sa sb. newSession w hkdf m c True (a\<lparr>nc_in := x\<rparr>) = (Inr sa, a') \<and> newSession w hkdf n c' False (b\<lparr>nc_in := y\<rparr>) = (Inr sb, b')
    \<and> nc_out a' = y \<and> nc_out b' = x \<and> nc_in a' = [] \<and> nc_in b' = [] \<and> sessions_match sa sb \<and> ns_workspaceSync sa"
proof -
  define hello where "hello = \<lparr>hk_Type = ''hello'', hk_Version = ProtocolVersion, hk_SenderNonce = m, hk_ReceiverNonce = '''', hk_WorkspaceSync = True\<rparr>"
  define ack where "ack = \<lparr>hk_Type = ''hello_ack'', hk_Version = ProtocolVersion, hk_SenderNonce = '''', hk_ReceiverNonce = n, hk_WorkspaceSync = True\<rparr>"
  note run = newSession_def sendPlain_def recvPlain_def bind_act_def try_get_def modify_def take_payload_def put_payload_def
    ret_def validateHandshake_def
  have short: "\<not> maxEnvelopeSize < int (length (nw_helloJson w m))" for m using assms(2) [of m] by simp
  have "newSession w hkdf m c True (a\<lparr>nc_in := [nw_helloJson w ack]\<rparr>) =
      (Inr (session_of hkdf k m n True True), a\<lparr>nc_in := [], nc_out := [nw_helloJson w hello]\<rparr>)"
    using assms by (simp add: run short hello_def ack_def)
  moreover have "newSession w hkdf n c' False (b\<lparr>nc_in := [nw_helloJson w hello]\<rparr>) =
      (Inr (session_of hkdf k' m n False True), b\<lparr>nc_in := [], nc_out := [nw_helloJson w ack]\<rparr>)"
    using assms by (simp add: run short hello_def ack_def)
  moreover have "sessions_match (session_of hkdf k m n True True) (session_of hkdf k' m n False True)"
    using assms(5) by (simp add: sessions_match_def session_of_def NewSessionWithInfo_def)
  ultimately show ?thesis by (fastforce simp: session_of_def)
qed

section \<open>Exchange of snapshots\<close>

definition newer_doc :: "Document option \<Rightarrow> Document option \<Rightarrow> Document option" where
  "newer_doc x y = (case x of None \<Rightarrow> y | Some d \<Rightarrow> (case y of None \<Rightarrow> x | Some e \<Rightarrow> if newer d e then x else y))"

text \<open>What a peer answers to the snapshot of the other, and the workspace it then has.\<close>

definition answer :: "string \<Rightarrow> Workspace \<Rightarrow> Frame \<Rightarrow> Frame \<times> (Document \<times> bool) \<times> Workspace" where
  "answer pad ws f =
     (if fr_Type f = ''ping'' then (plain_frame ''pong'' pad, (zero_document, False), ws)
      else case ApplyRemote (Frame_Document f) ws of
        (Inr (changed, current), ws') \<Rightarrow> (ack_frame pad current, (current, changed), ws')
      | (Inl _, ws') \<Rightarrow> (plain_frame ''bye'' pad, (zero_document, False), ws'))"

definition snapshot_type :: "Frame \<Rightarrow> bool" where
  "snapshot_type f \<longleftrightarrow> fr_Type f = ''ping'' \<or> fr_Type f = ''update'' \<or> fr_Type f = ''clear''"

text \<open>A frame that matching sessions carry.\<close>

definition carried :: "note_wire \<Rightarrow> string \<Rightarrow> string set \<Rightarrow> Frame \<Rightarrow> bool" where
  "carried w pad T f \<longleftrightarrow> f \<in> pad_frames pad T \<and> ValidateFrame f = Inr () \<and> fits w f"

lemma pad_frames_complete: "f \<in> pad_frames pad T \<Longrightarrow> pad \<noteq> '''' \<Longrightarrow> complete_frame f = f"
  by (auto simp: pad_frames_def complete_frame_def Let_def)

lemma sendWorkspaceSnapshot_run:
  assumes "note_wire_law w (pad_frames pad T)" "pad \<noteq> ''''" "\<not> ns_closed (np_session p)"
    and "carried w pad T (snapshot_frame d)" "carried w pad T r" "do_Pad d = pad"
    and "fr_Type r = (if do_Revision d = 0 then ''pong'' else ''ack'')"
    and "nc_in p = sealed w (ns_recv (np_session p)) (ns_recvSeq (np_session p) + 1) r # rest"
  shows "sendWorkspaceSnapshot w d p = (Inr (), advanced w p [snapshot_frame d] [r] (np_workspace p) rest)"
proof -
  let ?q = "advanced w p [snapshot_frame d] [] (np_workspace p) (nc_in p)"
  have "Send w (snapshot_frame d) p = (Inr (), ?q)"
    using assms(2-4) pad_frames_complete by (intro Send_run) (auto simp: carried_def)
  moreover have "Recv w ?q = (Inr r, advanced w ?q [] [r] (np_workspace ?q) rest)"
    using assms by (intro Recv_run [OF assms(1)]) (auto simp: carried_def)
  moreover have "fr_Pad r = pad" using assms(5) by (simp add: carried_def pad_frames_def)
  ultimately show ?thesis using assms(6,7) by (auto simp: sendWorkspaceSnapshot_def bind_act_def guard_act_def ret_def)
qed

lemma receiveWorkspaceSnapshot_run:
  assumes "note_wire_law w (pad_frames pad T)" "pad \<noteq> ''''" "NormalizePad pad = pad" "\<not> ns_closed (np_session p)"
    and "carried w pad T f" "snapshot_type f" "answer pad (np_workspace p) f = (r, res, ws)" "carried w pad T r" "fr_Type r \<noteq> ''bye''"
    and "nc_in p = sealed w (ns_recv (np_session p)) (ns_recvSeq (np_session p) + 1) f # rest"
  shows "receiveWorkspaceSnapshot w pad p = (Inr res, advanced w p [r] [f] ws rest)"
proof -
  let ?q = "\<lambda>ws. advanced w p [] [f] ws rest"
  have recv: "Recv w p = (Inr f, ?q (np_workspace p))"
    using assms by (intro Recv_run [OF assms(1)]) (auto simp: carried_def)
  have send: "Send w r (?q v) = (Inr (), advanced w (?q v) [r] [] v rest)" for v
    using assms(2,4,8) pad_frames_complete Send_run [of "?q v" r w] by (auto simp: carried_def)
  have pad: "NormalizePad (fr_Pad f) = pad" using assms(3,5) by (simp add: carried_def pad_frames_def)
  have put: "(?q v)\<lparr>np_workspace := u\<rparr> = ?q u" for u v by (simp add: advanced_def)
  show ?thesis
  proof (cases "fr_Type f = ''ping''")
    case True
    with assms(7) send [of "np_workspace p"] recv pad show ?thesis
      by (auto simp: receiveWorkspaceSnapshot_def bind_act_def ret_def answer_def)
  next
    case False
    then obtain changed current ws' where applied: "ApplyRemote (Frame_Document f) (np_workspace p) = (Inr (changed, current), ws')"
      using assms(7,9) by (auto simp: answer_def plain_frame_def split: prod.splits sum.splits)
    with assms(7) False have r: "r = ack_frame pad current" "res = (current, changed)" "ws = ws'" by (simp_all add: answer_def)
    have "on_workspace (ApplyRemote (Frame_Document f)) (?q (np_workspace p)) = (Inr (changed, current), ?q ws)"
      using applied r(3) put by (simp add: on_workspace_def)
    then show ?thesis
      using False assms(6) recv pad send [of ws] r by (auto simp: receiveWorkspaceSnapshot_def bind_act_def ret_def snapshot_type_def)
  qed
qed

definition pad_ok :: "string \<Rightarrow> bool" where
  "pad_ok pad \<longleftrightarrow> NormalizePad pad = pad \<and> ValidatePad pad = Inr ()"

lemma pad_ok_nonempty: "pad_ok pad \<Longrightarrow> pad \<noteq> ''''"
  by (auto simp: pad_ok_def ValidatePad_def)

lemma wf_doc:
  assumes "workspace_wf ws" "ws pad = Some d"
  shows "do_Pad d = pad" "ValidateDocument d = Inr ()" "NormalizePad pad = pad" "do_Revision d \<noteq> 0"
  using assms by (auto simp: workspace_wf_def ValidateDocument_def result_simps split: if_splits)

lemma Frame_Document_of [simp]: "NormalizePad (do_Pad d) = do_Pad d \<Longrightarrow> Frame_Document (FrameFromDocument t d) = d"
  by (simp add: Frame_Document_def FrameFromDocument_def)

lemma Snapshot_pad:
  assumes "workspace_wf ws" "pad_ok pad"
  shows "do_Pad (Snapshot pad ws) = pad" "do_Revision (Snapshot pad ws) = 0 \<longleftrightarrow> ws pad = None"
  using assms wf_doc [OF assms(1), of pad]
  by (auto simp: Snapshot_def Let_def pad_ok_def zero_document_def split: option.split)

text \<open>The frames that an exchange of the documents in \<open>D\<close> can need.\<close>

definition sync_frames :: "string \<Rightarrow> Document set \<Rightarrow> Frame set" where
  "sync_frames pad D = {plain_frame ''ping'' pad, plain_frame ''pong'' pad} \<union> ack_frame pad ` D \<union> snapshot_frame ` D"

definition texts_at :: "string \<Rightarrow> Workspace \<Rightarrow> string set" where
  "texts_at pad ws = insert '''' (do_Text ` set_option (ws pad))"

lemma plain_fields: "fr_Type (plain_frame t pad) = t" "fr_Type (ack_frame pad d) = ''ack''"
  by (simp_all add: plain_frame_def ack_frame_def)

lemma plain_frame_valid:
  assumes "pad_ok pad" "'''' \<in> T" "t \<in> {''ping'', ''pong'', ''bye''}"
  shows "plain_frame t pad \<in> pad_frames pad T" "ValidateFrame (plain_frame t pad) = Inr ()"
  using assms by (auto simp: plain_frame_def pad_frames_def ValidateFrame_def pad_ok_def)

lemma ack_frame_valid:
  assumes "pad_ok pad" "'''' \<in> T" "do_Revision d \<noteq> 0"
  shows "ack_frame pad d \<in> pad_frames pad T" "ValidateFrame (ack_frame pad d) = Inr ()"
  using assms by (auto simp: ack_frame_def plain_frame_def pad_frames_def ValidateFrame_def pad_ok_def)

lemma frame_fields:
  "fr_Type (FrameFromDocument t d) = t" "fr_Version (FrameFromDocument t d) = ProtocolVersion" "fr_Pad (FrameFromDocument t d) = do_Pad d"
  "fr_Text (FrameFromDocument t d) = do_Text d"
  by (simp_all add: FrameFromDocument_def)

lemma document_frame_valid:
  assumes "pad_ok pad" "do_Pad d = pad" "ValidateDocument d = Inr ()" "do_Text d \<in> T" "t \<in> {''update'', ''clear''}"
  shows "FrameFromDocument t d \<in> pad_frames pad T" "ValidateFrame (FrameFromDocument t d) = Inr ()"
  using assms
  by (auto simp: frame_fields pad_frames_def ValidateFrame_def pad_ok_def)

lemma snapshot_frame_valid:
  assumes "workspace_wf ws" "pad_ok pad" "texts_at pad ws \<subseteq> T" "set_option (ws pad) \<subseteq> D"
  shows "snapshot_frame (Snapshot pad ws) \<in> pad_frames pad T" "ValidateFrame (snapshot_frame (Snapshot pad ws)) = Inr ()"
    "snapshot_type (snapshot_frame (Snapshot pad ws))" "snapshot_frame (Snapshot pad ws) \<in> sync_frames pad D"
proof -
  have "'''' \<in> T" using assms(3) by (auto simp: texts_at_def)
  note plain = plain_frame_valid [OF assms(2) this, of "''ping''"]
  have "snapshot_frame (Snapshot pad ws) \<in> pad_frames pad T \<and> ValidateFrame (snapshot_frame (Snapshot pad ws)) = Inr ()
      \<and> snapshot_type (snapshot_frame (Snapshot pad ws)) \<and> snapshot_frame (Snapshot pad ws) \<in> sync_frames pad D"
  proof (cases "ws pad")
    case None
    then have "snapshot_frame (Snapshot pad ws) = plain_frame ''ping'' pad"
      using assms(2) by (simp add: snapshot_frame_def Snapshot_def Let_def pad_ok_def zero_document_def)
    then show ?thesis using plain by (simp add: snapshot_type_def sync_frames_def plain_fields)
  next
    case (Some d)
    have "do_Text d \<in> T" using Some assms(3) by (auto simp: texts_at_def)
    with document_frame_valid [OF assms(2) wf_doc(1,2) [OF assms(1) Some], of T] wf_doc(4) [OF assms(1) Some] Some assms(2)
    have "snapshot_frame d \<in> pad_frames pad T \<and> ValidateFrame (snapshot_frame d) = Inr () \<and> snapshot_type (snapshot_frame d)"
      by (simp add: snapshot_frame_def snapshot_type_def frame_fields)
    moreover have "Snapshot pad ws = d" using Some assms(2) by (simp add: Snapshot_def pad_ok_def)
    moreover have "snapshot_frame d \<in> sync_frames pad D" using Some assms(4) by (simp add: sync_frames_def)
    ultimately show ?thesis by simp
  qed
  then show "snapshot_frame (Snapshot pad ws) \<in> pad_frames pad T" "ValidateFrame (snapshot_frame (Snapshot pad ws)) = Inr ()"
    "snapshot_type (snapshot_frame (Snapshot pad ws))" "snapshot_frame (Snapshot pad ws) \<in> sync_frames pad D" by auto
qed

text \<open>The answer to a snapshot leaves the newer of the two documents and changes no other pad.\<close>

lemma answer_snapshot:
  assumes "workspace_wf va" "workspace_wf vb" "pad_ok pad" "'''' \<in> T" "set_option (va pad) \<union> set_option (vb pad) \<subseteq> D"
  shows "\<exists>r res. answer pad vb (snapshot_frame (Snapshot pad va)) = (r, res, vb(pad := newer_doc (va pad) (vb pad)))
    \<and> r \<in> pad_frames pad T \<and> ValidateFrame r = Inr () \<and> r \<in> sync_frames pad D \<and> fr_Type r = (if va pad = None then ''pong'' else ''ack'')"
proof (cases "va pad")
  case None
  then have "snapshot_frame (Snapshot pad va) = plain_frame ''ping'' pad"
    using assms(3) by (simp add: snapshot_frame_def Snapshot_def Let_def pad_ok_def zero_document_def)
  then show ?thesis
    using None plain_frame_valid [OF assms(3,4), of "''pong''"] by (auto simp: answer_def newer_doc_def fun_upd_idem sync_frames_def plain_fields)
next
  case (Some d)
  note d = wf_doc [OF assms(1) Some]
  have f: "fr_Type (snapshot_frame (Snapshot pad va)) \<noteq> ''ping''" "Frame_Document (snapshot_frame (Snapshot pad va)) = d"
    using Some d by (simp_all add: snapshot_frame_def Snapshot_def Let_def FrameFromDocument_def Frame_Document_def)
  have nz: "newer d zero_document" using newer_zero [OF d(2)] .
  have same: "d\<lparr>do_Pad := pad\<rparr> = d" using d(1) by (cases d) simp
  show ?thesis
  proof (cases "vb pad")
    case None
    then have "ApplyRemote d vb = (Inr (True, d), vb(pad \<mapsto> d))"
      using d nz by (simp add: ApplyRemote_def Let_def doc_at_def newer_def same)
    then show ?thesis
      using f Some None ack_frame_valid [OF assms(3,4) d(4)] assms(5) by (auto simp: answer_def newer_doc_def sync_frames_def plain_fields)
  next
    case e: (Some e)
    note ed = wf_doc [OF assms(2) e]
    have "ApplyRemote d vb = (if newer d e then (Inr (True, d), vb(pad \<mapsto> d)) else (Inr (False, e), vb))"
      using d ed e pad_ok_nonempty [OF assms(3)]
      by (simp add: ApplyRemote_def Let_def doc_at_def newer_def currentDocument_def same)
    then show ?thesis
      using f Some e ack_frame_valid [OF assms(3,4) d(4)] ack_frame_valid [OF assms(3,4) ed(4)] assms(5)
      by (auto simp: answer_def newer_doc_def sync_frames_def plain_fields fun_upd_idem)
  qed
qed

lemma newer_doc_wf:
  assumes "workspace_wf va" "workspace_wf vb"
  shows "workspace_wf (vb(pad := newer_doc (va pad) (vb pad)))" "texts_at pad (vb(pad := newer_doc (va pad) (vb pad))) \<subseteq> texts_at pad va \<union> texts_at pad vb"
    "newer_doc (newer_doc (va pad) (vb pad)) (va pad) = newer_doc (va pad) (vb pad)"
proof -
  show "workspace_wf (vb(pad := newer_doc (va pad) (vb pad)))"
    using assms by (auto simp: workspace_wf_def newer_doc_def split: option.splits if_splits)
  show "texts_at pad (vb(pad := newer_doc (va pad) (vb pad))) \<subseteq> texts_at pad va \<union> texts_at pad vb"
    by (auto simp: texts_at_def newer_doc_def split: option.splits if_splits)
  have "newer e d \<or> e = d" if "va pad = Some d" "vb pad = Some e" "\<not> newer d e" for d e
    using newer_total [of d e] wf_doc(1) [OF assms(1) that(1)] wf_doc(1) [OF assms(2) that(2)] that(3) by auto
  then show "newer_doc (newer_doc (va pad) (vb pad)) (va pad) = newer_doc (va pad) (vb pad)"
    by (auto simp: newer_doc_def split: option.split)
qed


section \<open>What the loop does\<close>

lemma Send_Inr:
  assumes "Send w f p = (Inr u, p')"
  shows "p' = advanced w p [complete_frame f] [] (np_workspace p) (nc_in p)" "ValidateFrame (complete_frame f) = Inr ()"
    "int (length (sealed w (ns_send (np_session p)) (ns_sendSeq (np_session p) + 1) (complete_frame f))) \<le> maxEnvelopeSize"
  using assms by (auto simp: Send_def Let_def put_payload_def advanced_def moved_def split: sum.splits if_splits)

lemma open_frame_valid: "open_frame w ses n x = Inr f \<Longrightarrow> ValidateFrame f = Inr ()"
  by (auto simp: open_frame_def split: if_splits option.splits sum.splits)

lemma Recv_Inr:
  assumes "Recv w p = (Inr f, p')"
  shows "\<exists>x. nc_in p = x # nc_in p' \<and> open_frame w (ns_recv (np_session p)) (ns_recvSeq (np_session p) + 1) x = Inr f
    \<and> p' = advanced w p [] [f] (np_workspace p) (nc_in p')"
proof (cases "nc_in p")
  case Nil
  then show ?thesis using assms by (auto simp: Recv_def take_payload_def split: if_splits)
next
  case (Cons x xs)
  then have x: "open_frame w (ns_recv (np_session p)) (ns_recvSeq (np_session p) + 1) x = Inr f"
      "p' = p\<lparr>nc_in := xs, np_session := (np_session p)\<lparr>ns_recvSeq := ns_recvSeq (np_session p) + 1\<rparr>\<rparr>"
    using assms by (auto simp: Recv_def take_payload_def Let_def split: if_splits sum.splits)
  have p: "p' = advanced w p [] [f] (np_workspace p) (nc_in p')" by (simp add: x(2) advanced_def moved_def)
  have "nc_in p' = xs" by (simp add: x(2))
  with p x(1) Cons show ?thesis by (intro exI [of _ x]) simp
qed

fun open_all :: "note_wire \<Rightarrow> Session \<Rightarrow> 64 word \<Rightarrow> string list \<Rightarrow> Frame list option" where
  "open_all w ses n [] = Some []"
| "open_all w ses n (x # xs) =
     (case open_frame w ses (n + 1) x of
        Inl _ \<Rightarrow> None
      | Inr f \<Rightarrow> (case open_all w ses (n + 1) xs of None \<Rightarrow> None | Some fs \<Rightarrow> Some (f # fs)))"

lemma open_all_length: "open_all w ses n xs = Some fs \<Longrightarrow> length fs = length xs"
  by (induction xs arbitrary: n fs) (auto split: sum.splits option.splits)

lemma open_all_append:
  "open_all w ses n xs = Some fs \<Longrightarrow> open_all w ses (n + of_nat (length fs)) ys = Some gs
    \<Longrightarrow> open_all w ses n (xs @ ys) = Some (fs @ gs)"
  by (induction xs arbitrary: n fs) (auto simp: add.assoc split: sum.splits option.splits)

definition sendable :: "note_wire \<Rightarrow> Session \<Rightarrow> 64 word \<Rightarrow> string \<Rightarrow> string set \<Rightarrow> Frame list \<Rightarrow> bool" where
  "sendable w ses n pad T fs \<longleftrightarrow> set fs \<subseteq> pad_frames pad T \<and> (\<forall>f\<in>set fs. ValidateFrame f = Inr ())
     \<and> (\<forall>x\<in>set (seal_all w ses n fs). int (length x) \<le> maxEnvelopeSize)"

lemma sendable_append:
  "sendable w ses n pad T fs \<Longrightarrow> sendable w ses (n + of_nat (length fs)) pad T gs \<Longrightarrow> sendable w ses n pad T (fs @ gs)"
  by (auto simp: sendable_def seal_all_append)

lemma open_seal_all:
  assumes "note_wire_law w (pad_frames pad T)" "sendable w ses n pad T fs"
  shows "open_all w ses n (seal_all w ses n fs) = Some fs"
  using assms(2)
proof (induction fs arbitrary: n)
  case (Cons f fs)
  then have "open_frame w ses (n + 1) (sealed w ses (n + 1) f) = Inr f"
    using open_sealed [OF assms(1)] by (auto simp: sendable_def)
  with Cons show ?case by (simp add: sendable_def)
qed simp

definition docs_of :: "Frame list \<Rightarrow> Document list" where
  "docs_of fs = map Frame_Document (filter IsDocumentUpdate fs)"

lemma docs_of_simps [simp]:
  "docs_of [] = []" "docs_of (fs @ gs) = docs_of fs @ docs_of gs" "docs_of [f] = (if IsDocumentUpdate f then [Frame_Document f] else [])"
  by (simp_all add: docs_of_def)

lemma note_run_append:
  "note_run (es @ es') w = (fst (note_run es' (fst (note_run es w))), snd (note_run es w) @ snd (note_run es' (fst (note_run es w))))"
  by (induction es w rule: note_run.induct) (auto split: prod.splits sum.splits)

lemma received_append: "received_docs (es @ es') = received_docs es @ received_docs es'"
  by (induction es rule: received_docs.induct) auto

text \<open>
  A run of the loop read as edits: the workspace is that of the edits, the documents sent are those
  of its own edits, and the documents of the others are those of the frames it opened.
\<close>

definition trace_of ::
    "note_wire \<Rightarrow> string \<Rightarrow> string set \<Rightarrow> note_peer \<Rightarrow> note_peer \<Rightarrow> edit list \<Rightarrow> Frame list \<Rightarrow> Frame list \<Rightarrow> string list \<Rightarrow> bool" where
  "trace_of w pad T p p' es fs gs xs \<longleftrightarrow>
     p' = advanced w p fs gs (fst (note_run es (np_workspace p))) (nc_in p') \<and> nc_in p = xs @ nc_in p'
     \<and> open_all w (ns_recv (np_session p)) (ns_recvSeq (np_session p)) xs = Some gs
     \<and> snd (note_run es (np_workspace p)) = docs_of fs \<and> received_docs es = docs_of gs
     \<and> sendable w (ns_send (np_session p)) (ns_sendSeq (np_session p)) pad T fs"

lemma trace_append:
  assumes "trace_of w pad T p q es fs gs xs" "trace_of w pad T q r es' fs' gs' xs'"
  shows "trace_of w pad T p r (es @ es') (fs @ fs') (gs @ gs') (xs @ xs')"
proof -
  define ws where "ws = fst (note_run es (np_workspace p))"
  have q: "q = advanced w p fs gs ws (nc_in q)" using assms(1) by (simp add: trace_of_def ws_def)
  then have f: "np_workspace q = ws" "np_session q = moved (length fs) (length gs) (np_session p)" by (metis advanced_simps)+
  have "r = advanced w q fs' gs' (fst (note_run es' ws)) (nc_in r)" using assms(2) f by (simp add: trace_of_def)
  then have "r = advanced w p (fs @ fs') (gs @ gs') (fst (note_run es' ws)) (nc_in r)" using q by (metis advanced_advanced)
  then show ?thesis
    using assms f sendable_append open_all_append
    by (simp add: trace_of_def note_run_append received_append ws_def)
qed

lemma trace_refl: "trace_of w pad T p p [] [] [] []"
  by (simp add: trace_of_def sendable_def)

lemma trace_send:
  assumes "Send w f p = (Inr u, p')" "f \<in> pad_frames pad T" "pad \<noteq> ''''" "\<not> IsDocumentUpdate f"
  shows "trace_of w pad T p p' [] [f] [] []"
  using Send_Inr [OF assms(1)] pad_frames_complete [OF assms(2,3)] assms(2,4) by (simp add: trace_of_def sendable_def)

lemma trace_edit:
  assumes "on_workspace (Update pad line now) p = (Inr d, q)" "Send w (FrameFromDocument t d) q = (Inr u, p')"
    and "pad_ok pad" "line \<in> T" "t \<in> {''update'', ''clear''}"
  shows "trace_of w pad T p p' [Local pad line now] [FrameFromDocument t d] [] []"
proof -
  obtain ws where ws: "Update pad line now (np_workspace p) = (Inr d, ws)" "q = p\<lparr>np_workspace := ws\<rparr>"
    using assms(1) by (auto simp: on_workspace_def split: prod.splits sum.splits)
  note u = Update_run [OF ws(1)]
  have d: "do_Pad d = pad" "NormalizePad (do_Pad d) = do_Pad d" using u assms(3) by (simp_all add: pad_ok_def)
  have F: "FrameFromDocument t d \<in> pad_frames pad T" using d u(3) assms(4,5) by (auto simp: pad_frames_def frame_fields)
  note s = Send_Inr [OF assms(2)]
  have c: "complete_frame (FrameFromDocument t d) = FrameFromDocument t d" using pad_frames_complete [OF F] pad_ok_nonempty [OF assms(3)] .
  have "IsDocumentUpdate (FrameFromDocument t d)" using assms(5) by (auto simp: IsDocumentUpdate_def frame_fields)
  moreover have "p' = advanced w p [FrameFromDocument t d] [] ws (nc_in p)" using s(1) c ws(2) by (simp add: advanced_def)
  ultimately show ?thesis using s(2,3) c F d ws by (simp add: trace_of_def sendable_def)
qed


lemma trace_recv:
  assumes "Recv w p = (Inr f, q)" "\<not> IsDocumentUpdate f"
  shows "\<exists>x. trace_of w pad T p q [] [] [f] [x]"
proof -
  from Recv_Inr [OF assms(1)] obtain x where x: "nc_in p = x # nc_in q"
      "open_frame w (ns_recv (np_session p)) (ns_recvSeq (np_session p) + 1) x = Inr f" "q = advanced w p [] [f] (np_workspace p) (nc_in q)" by blast
  have "trace_of w pad T p q [] [] [f] [x]"
    unfolding trace_of_def using x assms(2) by (intro conjI) (simp_all add: sendable_def)
  then show ?thesis by blast
qed

lemma trace_remote:
  assumes "Recv w p = (Inr f, q)" "IsDocumentUpdate f" "on_workspace (ApplyRemote (Frame_Document f)) q = (Inr res, r)"
  shows "\<exists>x. trace_of w pad T p r [Remote (Frame_Document f)] [] [f] [x]"
proof -
  from Recv_Inr [OF assms(1)] obtain x where x: "nc_in p = x # nc_in q"
      "open_frame w (ns_recv (np_session p)) (ns_recvSeq (np_session p) + 1) x = Inr f" "q = advanced w p [] [f] (np_workspace p) (nc_in q)" by blast
  have ws: "np_workspace q = np_workspace p" by (subst x(3)) simp
  then have "r = q\<lparr>np_workspace := snd (ApplyRemote (Frame_Document f) (np_workspace p))\<rparr>"
    using assms(3) by (auto simp: on_workspace_def split: prod.splits sum.splits)
  then have "r = advanced w p [] [f] (snd (ApplyRemote (Frame_Document f) (np_workspace p))) (nc_in q)" "nc_in r = nc_in q"
    using x(3) by (simp_all add: advanced_def)
  then have "trace_of w pad T p r [Remote (Frame_Document f)] [] [f] [x]"
    unfolding trace_of_def using x(1,2) assms(2) by (intro conjI) (simp_all add: sendable_def)
  then show ?thesis by blast
qed

definition traced :: "note_wire \<Rightarrow> string \<Rightarrow> string set \<Rightarrow> note_peer \<Rightarrow> note_peer \<Rightarrow> bool" where
  "traced w pad T p p' \<longleftrightarrow> (\<exists>es fs gs xs. trace_of w pad T p p' es fs gs xs)"

lemma traced_trans: "traced w pad T p q \<Longrightarrow> traced w pad T q r \<Longrightarrow> traced w pad T p r"
  unfolding traced_def using trace_append by blast

lemma tracedI: "trace_of w pad T p p' es fs gs xs \<Longrightarrow> traced w pad T p p'"
  unfolding traced_def by blast

text \<open>A step that goes on is traced; the last step may lose the frame that says good-bye.\<close>

definition same_work :: "note_peer \<Rightarrow> note_peer \<Rightarrow> bool" where
  "same_work p q \<longleftrightarrow> nc_in p = nc_in q \<and> nc_out p = nc_out q \<and> np_workspace p = np_workspace q"

definition ends_traced :: "note_wire \<Rightarrow> string \<Rightarrow> string set \<Rightarrow> note_peer \<Rightarrow> bool \<times> note_peer \<Rightarrow> bool" where
  "ends_traced w pad T p r \<longleftrightarrow> (if fst r then traced w pad T p (snd r) else (\<exists>q. traced w pad T p q \<and> same_work q (snd r)))"

lemma ends_traced_on: "traced w pad T p p' \<Longrightarrow> ends_traced w pad T p (run, p')"
  unfolding ends_traced_def same_work_def by auto

lemma bind_act_Inr: "bind_act m k p = (Inr b, r) \<longleftrightarrow> (\<exists>a q. m p = (Inr a, q) \<and> k a q = (Inr b, r))"
  by (auto simp: bind_act_def split: prod.splits sum.splits)

lemma send_bye_ends:
  assumes "pad_ok pad" "'''' \<in> T" "send_bye w pad p = (Inr run, p')"
  shows "ends_traced w pad T p (run, p')"
proof -
  let ?f = "plain_frame ''bye'' pad"
  have f: "?f \<in> pad_frames pad T" "pad \<noteq> ''''" "\<not> IsDocumentUpdate ?f"
    using plain_frame_valid [OF assms(1,2)] pad_ok_nonempty [OF assms(1)] by (simp_all add: IsDocumentUpdate_def plain_frame_def)
  obtain res where res: "Send w ?f p = (res, p')" "\<not> run" using assms(3) by (cases "Send w ?f p") (auto simp: send_bye_def)
  show ?thesis
  proof (cases res)
    case (Inl e)
    then have "same_work p p'" using res(1) by (auto simp: Send_def Let_def same_work_def split: sum.splits if_splits)
    then show ?thesis using res(2) tracedI [OF trace_refl] by (auto simp: ends_traced_def intro!: exI [of _ p])
  next
    case (Inr u)
    from trace_send [OF res(1) [unfolded Inr] f] show ?thesis by (intro ends_traced_on tracedI)
  qed
qed

lemma interactive_line_ends:
  assumes "pad_ok pad" "'''' \<in> T" "line \<in> T" "interactive_line w pad line now p = (Inr run, p')"
  shows "ends_traced w pad T p (run, p')"
proof -
  have edit: "ends_traced w pad T p (run, p')"
    if "bind_act (on_workspace (Update pad body now)) (\<lambda>d. bind_act (Send w (FrameFromDocument t d)) (\<lambda>_. ret True)) p = (Inr run, p')"
      "body \<in> T" "t \<in> {''update'', ''clear''}" for body t
  proof -
    from that(1) obtain d q where "on_workspace (Update pad body now) p = (Inr d, q)" "Send w (FrameFromDocument t d) q = (Inr (), p')"
      by (auto simp: bind_act_Inr ret_def)
    from trace_edit [OF this assms(1) that(2,3)] show ?thesis by (intro ends_traced_on tracedI)
  qed
  show ?thesis
    using assms(4) edit [of line "''update''"] edit [of "''''" "''clear''"] send_bye_ends [OF assms(1,2)] assms(2,3) tracedI [OF trace_refl]
      ends_traced_on
    by (auto simp: interactive_line_def Clear_def ret_def split: if_splits)
qed

lemma interactive_frame_ends:
  assumes "pad_ok pad" "'''' \<in> T" "Recv w p = (Inr f, q)" "interactive_frame w pad f q = (Inr run, p')"
  shows "ends_traced w pad T p (run, p')"
proof (cases "IsDocumentUpdate f")
  case True
  then obtain applied d r where r: "on_workspace (ApplyRemote (Frame_Document f)) q = (Inr (applied, d), r)"
      "Send w (ack_frame pad d) r = (Inr (), p')"
    using assms(4) by (auto simp: interactive_frame_def IsDocumentUpdate_def bind_act_Inr throw_def ret_def split: if_splits)
  have "ack_frame pad d \<in> pad_frames pad T" "\<not> IsDocumentUpdate (ack_frame pad d)"
    using assms(2) by (simp_all add: ack_frame_def plain_frame_def pad_frames_def IsDocumentUpdate_def)
  from trace_send [OF r(2) this(1) pad_ok_nonempty [OF assms(1)] this(2)] trace_remote [OF assms(3) True r(1)]
  show ?thesis by (blast intro: ends_traced_on traced_trans tracedI)
next
  case False
  note recv = trace_recv [OF assms(3) False]
  have pong: "plain_frame ''pong'' pad \<in> pad_frames pad T" "\<not> IsDocumentUpdate (plain_frame ''pong'' pad)"
    using plain_frame_valid [OF assms(1,2)] by (simp_all add: IsDocumentUpdate_def plain_frame_def)
  have "p' = q \<or> Send w (plain_frame ''pong'' pad) q = (Inr (), p')"
    using assms(4) False by (auto simp: interactive_frame_def IsDocumentUpdate_def bind_act_Inr throw_def ret_def split: if_splits)
  then show ?thesis
    using recv trace_send [OF _ pong(1) pad_ok_nonempty [OF assms(1)] pong(2), of w q] by (blast intro: ends_traced_on traced_trans tracedI)
qed

definition lines_of :: "note_input list \<Rightarrow> string set" where
  "lines_of is = {line. \<exists>now. Line line now \<in> set is}"

lemma interactive_loop_ends:
  assumes "pad_ok pad" "'''' \<in> T" "lines_of is \<subseteq> T" "interactive_loop w pad is p = (Inr run, p')"
  shows "ends_traced w pad T p (run, p')"
  using assms(3,4)
proof (induction "is" arbitrary: p)
  case Nil
  then show ?case using tracedI [OF trace_refl] by (auto simp: ret_def intro: ends_traced_on)
next
  case (Cons i inputs)
  obtain go q where q: "interactive_step w pad i p = (Inr go, q)" "(if go then interactive_loop w pad inputs q else (Inr False, q)) = (Inr run, p')"
    using Cons.prems(2) by (auto simp: bind_act_Inr ret_def split: if_splits)
  have step: "ends_traced w pad T p (go, q)"
  proof (cases i)
    case (Line line now)
    then show ?thesis using q(1) Cons.prems(1) interactive_line_ends [OF assms(1,2)] by (auto simp: interactive_step_def lines_of_def)
  next
    case EndOfInput
    then show ?thesis using q(1) send_bye_ends [OF assms(1,2)] by (simp add: interactive_step_def)
  next
    case InputError
    then show ?thesis using q(1) by (simp add: interactive_step_def throw_def)
  next
    case Arrival
    then show ?thesis using q(1) interactive_frame_ends [OF assms(1,2)] by (auto simp: interactive_step_def bind_act_Inr)
  qed
  show ?case
  proof (cases go)
    case True
    then have "ends_traced w pad T q (run, p')" using q(2) Cons.IH [of q] Cons.prems(1) by (auto simp: lines_of_def)
    with step True show ?thesis unfolding ends_traced_def by (auto intro: traced_trans split: if_splits)
  next
    case False
    with step q(2) show ?thesis by auto
  qed
qed

section \<open>Convergence\<close>

lemma loop_trace:
  assumes "pad_ok pad" "'''' \<in> T" "lines_of is \<subseteq> T" "interactive_loop w pad is p = (Inr run, p')" "nc_in p' = []" "nc_out p = []"
  obtains es fs gs where "note_run es (np_workspace p) = (np_workspace p', docs_of fs)" "received_docs es = docs_of gs"
    "open_all w (ns_recv (np_session p)) (ns_recvSeq (np_session p)) (nc_in p) = Some gs"
    "sendable w (ns_send (np_session p)) (ns_sendSeq (np_session p)) pad T fs"
    "nc_out p' = seal_all w (ns_send (np_session p)) (ns_sendSeq (np_session p)) fs"
proof -
  obtain q where q: "traced w pad T p q" "same_work q p'"
    using interactive_loop_ends [OF assms(1-4)] by (auto simp: ends_traced_def same_work_def split: if_splits)
  obtain es fs gs xs where t: "trace_of w pad T p q es fs gs xs" using q(1) by (auto simp: traced_def)
  define ws where "ws = fst (note_run es (np_workspace p))"
  have "q = advanced w p fs gs ws (nc_in q)" using t by (simp add: trace_of_def ws_def)
  then have "np_workspace q = ws" "nc_out q = seal_all w (ns_send (np_session p)) (ns_sendSeq (np_session p)) fs"
    using assms(6) advanced_simps(2,4) [of w p fs gs ws "nc_in q"] by simp_all
  then show thesis
    using t q(2) assms(5) by (intro that [of es fs gs]) (auto simp: trace_of_def same_work_def ws_def prod_eq_iff)
qed

lemma newest_single: "workspace_wf ws \<Longrightarrow> newest_of (case ws pad of None \<Rightarrow> [] | Some d \<Rightarrow> [d]) pad = ws pad"
  using wf_doc(1) [of ws pad] by (auto simp: newest_of_def split: option.split)

lemma docs_of_valid: "\<forall>f\<in>set fs. ValidateFrame f = Inr () \<Longrightarrow> d \<in> set (docs_of fs) \<Longrightarrow> ValidateDocument d = Inr ()"
proof -
  assume fs: "\<forall>f\<in>set fs. ValidateFrame f = Inr ()" and "d \<in> set (docs_of fs)"
  then obtain f where f: "f \<in> set fs" "IsDocumentUpdate f" "d = Frame_Document f" by (auto simp: docs_of_def)
  with fs have "ValidateFrame f = Inr ()" by blast
  then show "ValidateDocument d = Inr ()" using f(2,3) by (simp add: ValidateFrame_def IsDocumentUpdate_def split: if_splits)
qed

text \<open>
C18: A shared notepad converges. Two peers with matching sessions start their loops with the same
document of a pad; each enters lines and handles arriving frames in any order, until neither has
anything left to read of what the other sent. Then both hold the same document of the pad. It is
the newest, in the order of revision, timestamp and text, of the first document and all the documents
that the two sent, exactly what a merge of all of them at once would give.
\<close>

theorem notes_converge:
  assumes "sessions_match (np_session a) (np_session b)" and "NormalizePad pad = pad" and "ValidatePad pad = Inr ()"
    and "workspace_wf (np_workspace a)" and "np_workspace a pad = np_workspace b pad" and "nc_out a = []" and "nc_out b = []"
    and "interactive_loop w pad ia a = (Inr ra, a')" and "interactive_loop w pad ib b = (Inr rb, b')"
    and "nc_in a = nc_out b'" and "nc_in b = nc_out a'" and "nc_in a' = []" and "nc_in b' = []"
    and "note_wire_law w (pad_frames pad ({''''} \<union> lines_of ia \<union> lines_of ib))"
  shows "np_workspace a' pad = np_workspace b' pad
    \<and> (\<exists>fa fb. nc_out a' = seal_all w (ns_send (np_session a)) (ns_sendSeq (np_session a)) fa
         \<and> nc_out b' = seal_all w (ns_send (np_session b)) (ns_sendSeq (np_session b)) fb
         \<and> np_workspace a' pad = newest_of ((case np_workspace a pad of None \<Rightarrow> [] | Some d \<Rightarrow> [d]) @ docs_of fa @ docs_of fb) pad)"
proof -
  let ?T = "{''''} \<union> lines_of ia \<union> lines_of ib" and ?start = "case np_workspace a pad of None \<Rightarrow> [] | Some d \<Rightarrow> [d]"
  have pad: "pad_ok pad" using assms(2,3) by (simp add: pad_ok_def)
  obtain ea fa ga where a: "note_run ea (np_workspace a) = (np_workspace a', docs_of fa)" "received_docs ea = docs_of ga"
      "open_all w (ns_recv (np_session a)) (ns_recvSeq (np_session a)) (nc_in a) = Some ga"
      "sendable w (ns_send (np_session a)) (ns_sendSeq (np_session a)) pad ?T fa"
      "nc_out a' = seal_all w (ns_send (np_session a)) (ns_sendSeq (np_session a)) fa"
    using loop_trace [OF pad _ _ assms(8,12,6), of ?T] by auto
  obtain eb fb gb where b: "note_run eb (np_workspace b) = (np_workspace b', docs_of fb)" "received_docs eb = docs_of gb"
      "open_all w (ns_recv (np_session b)) (ns_recvSeq (np_session b)) (nc_in b) = Some gb"
      "sendable w (ns_send (np_session b)) (ns_sendSeq (np_session b)) pad ?T fb"
      "nc_out b' = seal_all w (ns_send (np_session b)) (ns_sendSeq (np_session b)) fb"
    using loop_trace [OF pad _ _ assms(9,13,7), of ?T] by auto
  have "ga = fb" "gb = fa"
    using open_seal_all [OF assms(14) a(4)] open_seal_all [OF assms(14) b(4)] a(3,5) b(3,5) assms(1,10,11) by (auto simp: sessions_match_def)
  then have sets: "set (received_docs ea) = set (docs_of fb)" "set (received_docs eb) = set (docs_of fa)" using a(2) b(2) by simp_all
  have valid: "\<forall>d\<in>set (docs_of fa) \<union> set (docs_of fb). ValidateDocument d = Inr ()"
    using a(4) b(4) docs_of_valid by (auto simp: sendable_def)
  have "np_workspace a pad = newest_of ?start pad" "np_workspace b pad = newest_of ?start pad"
    using newest_single [OF assms(4), of pad] assms(5) by simp_all
  from runs_agree [OF a(1) b(1) this sets valid] a(5) b(5) show ?thesis by blast
qed

section \<open>A run\<close>

text \<open>A codec for the frames of one pad that satisfies the laws, with the identity as cipher.\<close>

definition demo_frame_code :: "Frame \<Rightarrow> string" where
  "demo_frame_code f = (fr_Type f ! 1) # nat_digits (unat (fr_Revision f)) @ CHR '';'' # (if fr_Timestamp f < 0 then CHR ''-'' else CHR ''+'')
     # nat_digits (nat \<bar>fr_Timestamp f\<bar>) @ CHR '';'' # fr_Text f"

definition until_sep :: "string \<Rightarrow> string \<times> string" where
  "until_sep s = (takeWhile (\<lambda>c. c \<noteq> CHR '';'') s, drop 1 (dropWhile (\<lambda>c. c \<noteq> CHR '';'') s))"

definition demo_frame_parse :: "string \<Rightarrow> string \<Rightarrow> Frame option" where
  "demo_frame_parse pad s =
     (let (revision, rest) = until_sep (drop 1 s); (time, body) = until_sep rest;
          kind = map_of [(CHR ''p'', ''update''), (CHR ''l'', ''clear''), (CHR ''c'', ''ack''), (CHR ''i'', ''ping''), (CHR ''o'', ''pong''), (CHR ''y'', ''bye'')]
      in case kind (hd s) of
        None \<Rightarrow> None
      | Some t \<Rightarrow> Some \<lparr>fr_Type = t, fr_Version = ProtocolVersion, fr_Pad = pad, fr_Revision = of_nat (digits_val revision),
          fr_Timestamp = (if hd time = CHR ''-'' then - int (digits_val (tl time)) else int (digits_val (tl time))), fr_Text = body\<rparr>)"

definition demo_note_wire :: "string \<Rightarrow> note_wire" where
  "demo_note_wire pad =
     \<lparr>nw_seal = (\<lambda>k n a p. p), nw_unseal = (\<lambda>k n a c. Some c),
      nw_envJson = (\<lambda>e. nat_digits (unat (ne_Sequence e)) @ CHR '';'' # ne_Ciphertext e),
      nw_envParse = (\<lambda>s. Some \<lparr>ne_Version = ProtocolVersion, ne_Sequence = of_nat (digits_val (fst (until_sep s))), ne_Ciphertext = snd (until_sep s)\<rparr>),
      nw_frameJson = demo_frame_code, nw_frameParse = demo_frame_parse pad,
      nw_helloJson = (\<lambda>_. ''''), nw_helloParse = (\<lambda>_. None)\<rparr>"

lemma until_sep_append: "CHR '';'' \<notin> set s \<Longrightarrow> until_sep (s @ CHR '';'' # t) = (s, t)"
  by (induction s) (auto simp: until_sep_def)

lemma digits_no_sep: "CHR '';'' \<notin> set (nat_digits n)"
  using nat_digits_all_digits [of n] by (auto simp: all_digits_def list_all_iff is_digit_def)

lemma demo_frame_roundtrip:
  assumes "f \<in> pad_frames pad T"
  shows "demo_frame_parse pad (demo_frame_code f) = Some f"
proof -
  have "until_sep (drop 1 (demo_frame_code f)) = (nat_digits (unat (fr_Revision f)),
      ((if fr_Timestamp f < 0 then CHR ''-'' else CHR ''+'') # nat_digits (nat \<bar>fr_Timestamp f\<bar>)) @ CHR '';'' # fr_Text f)"
    using until_sep_append [OF digits_no_sep] by (simp add: demo_frame_code_def)
  moreover have "until_sep (((if fr_Timestamp f < 0 then CHR ''-'' else CHR ''+'') # nat_digits (nat \<bar>fr_Timestamp f\<bar>)) @ CHR '';'' # fr_Text f)
      = ((if fr_Timestamp f < 0 then CHR ''-'' else CHR ''+'') # nat_digits (nat \<bar>fr_Timestamp f\<bar>), fr_Text f)"
    using digits_no_sep by (intro until_sep_append) auto
  moreover have "map_of [(CHR ''p'', ''update''), (CHR ''l'', ''clear''), (CHR ''c'', ''ack''), (CHR ''i'', ''ping''), (CHR ''o'', ''pong''), (CHR ''y'', ''bye'')]
      (fr_Type f ! 1) = Some (fr_Type f)"
    using assms by (auto simp: pad_frames_def)
  moreover have "hd (demo_frame_code f) = fr_Type f ! 1" "fr_Version f = ProtocolVersion" "fr_Pad f = pad"
    using assms by (simp_all add: demo_frame_code_def pad_frames_def)
  ultimately show ?thesis
    unfolding demo_frame_parse_def Let_def by (cases f) (simp add: digits_val_nat_digits)
qed

lemma demo_note_wire_law: "note_wire_law (demo_note_wire pad) (pad_frames pad T)"
proof -
  have "until_sep (nat_digits n @ CHR '';'' # c) = (nat_digits n, c)" for n c by (rule until_sep_append [OF digits_no_sep])
  then show ?thesis
    using demo_frame_roundtrip by (auto simp: note_wire_law_def aead_law_def demo_note_wire_def digits_val_nat_digits)
qed

lemma nat_digits_length: "n < 10 ^ Suc k \<Longrightarrow> length (nat_digits n) \<le> Suc k"
proof (induction k arbitrary: n)
  case (Suc k)
  then have "n div 10 < 10 ^ Suc k" by (simp add: less_mult_imp_div_less)
  with Suc.IH [of "n div 10"] show ?case by (subst nat_digits.simps) auto
qed (subst nat_digits.simps, simp)

lemma demo_sealed_length: "length (sealed (demo_note_wire pad) ses n f) \<le> 21 + length (demo_frame_code f)"
proof -
  have "unat n < 2 ^ 64" using unsigned_less [of n, where 'a = nat] by simp
  then have "length (nat_digits (unat n)) \<le> Suc 19" by (intro nat_digits_length) simp
  then show ?thesis by (simp add: sealed_def demo_note_wire_def Encrypt_def)
qed

definition demo_edit :: "string \<Rightarrow> Document" where
  "demo_edit body = \<lparr>do_Pad = ''main'', do_Text = body, do_Revision = 1, do_Timestamp = 5\<rparr>"

definition demo_peer :: "bool \<Rightarrow> string list \<Rightarrow> Workspace \<Rightarrow> note_peer" where
  "demo_peer host incoming ws = \<lparr>nc_in = incoming, nc_out = [], np_session = session_of (\<lambda>a b c n. ''k'') ''c'' ''s'' ''r'' host True, np_workspace = ws\<rparr>"

lemma demo_match: "sessions_match (np_session (demo_peer True x v)) (np_session (demo_peer False y u))"
  by (simp add: demo_peer_def session_of_def NewSessionWithInfo_def sessions_match_def)


theorem notes_converge_witness:
  "\<exists>a' b'. interactive_loop (demo_note_wire ''main'') ''main'' [Line ''hi'' 7, Arrival] (demo_peer True [''1;c1;+7;''] Map.empty) = (Inr True, a')
    \<and> interactive_loop (demo_note_wire ''main'') ''main'' [Arrival] (demo_peer False [''1;p1;+7;hi''] Map.empty) = (Inr True, b')
    \<and> np_workspace a' ''main'' = np_workspace b' ''main'' \<and> map_option do_Text (np_workspace b' ''main'') = Some ''hi''"
proof -
  let ?w = "demo_note_wire ''main''"
  let ?a = "demo_peer True [''1;c1;+7;''] Map.empty" and ?b = "demo_peer False [''1;p1;+7;hi''] Map.empty"
  let ?ra = "interactive_loop ?w ''main'' [Line ''hi'' 7, Arrival] ?a" and ?rb = "interactive_loop ?w ''main'' [Arrival] ?b"
  have "case ?ra of (r, p) \<Rightarrow> r = Inr True \<and> nc_out p = [''1;p1;+7;hi''] \<and> nc_in p = []" by code_simp
  then have a: "fst ?ra = Inr True" "nc_out (snd ?ra) = [''1;p1;+7;hi'']" "nc_in (snd ?ra) = []"
    by (simp_all add: case_prod_beta del: interactive_loop.simps)
  have "case ?rb of (r, p) \<Rightarrow> r = Inr True \<and> nc_out p = [''1;c1;+7;''] \<and> nc_in p = []
      \<and> map_option do_Text (np_workspace p ''main'') = Some ''hi''" by code_simp
  then have b: "fst ?rb = Inr True" "nc_out (snd ?rb) = [''1;c1;+7;'']" "nc_in (snd ?rb) = []"
    "map_option do_Text (np_workspace (snd ?rb) ''main'') = Some ''hi''"
    by (simp_all add: case_prod_beta del: interactive_loop.simps)
  have pad: "NormalizePad ''main'' = ''main''" "ValidatePad ''main'' = Inr ()" by code_simp+
  have run: "?ra = (Inr True, snd ?ra)" "?rb = (Inr True, snd ?rb)" using a(1) b(1) by (simp_all add: prod_eq_iff del: interactive_loop.simps)
  have peers: "workspace_wf (np_workspace ?a)" "np_workspace ?a ''main'' = np_workspace ?b ''main''" "nc_out ?a = []" "nc_out ?b = []"
    "nc_in ?a = [''1;c1;+7;'']" "nc_in ?b = [''1;p1;+7;hi'']" by (simp_all add: demo_peer_def workspace_wf_def)
  have "np_workspace (snd ?ra) ''main'' = np_workspace (snd ?rb) ''main''"
    by (rule notes_converge [OF demo_match pad peers(1-4) run peers(5) [THEN trans, OF b(2) [symmetric]] peers(6) [THEN trans, OF a(2) [symmetric]] a(3) b(3) demo_note_wire_law, THEN conjunct1])
  then show ?thesis using run b(4) by blast
qed

end
