(* ===== verification/Persistent_Note.thy ===== *)
theory Persistent_Note
  imports Note_Document Secure Signal_Rooms
begin

text \<open>
  Notes that the service keeps (internal/note/persistent.go and internal/service/persistent_note.go).
  Clients seal a document with a key derived from the pairing code; the service stores the sealed
  record with a generation number, in memory and in one file per note, and accepts a new record only
  on top of the current generation. Hubs and clients are shared by pointer and are therefore numbers;
  the messages written to the clients are kept in order. Times are nanoseconds.
\<close>

section \<open>Sealed documents\<close>

record PersistentRecord =
  pr_Version :: int
  pr_Salt :: string
  pr_Nonce :: string
  pr_Ciphertext :: string

record PersistentMessage =
  pm_Type :: string
  pm_Version :: int
  pm_Generation :: "64 word"
  pm_BaseGeneration :: "64 word"
  pm_Record :: "PersistentRecord option"
  pm_Error :: string

datatype persistent_error =
    RecordVersion int | RecordSalt | RecordNonce | RecordCiphertext
  | MessageVersion int | MessageType string | MissingRecord
  | BadNoteCode code_error | BadNote note_error | NoteUnsealable | NoteUnparsable | NotePadMismatch
  | StateError string | StateMissingRecord

definition persistentKeyInfo :: string where
  "persistentKeyInfo = ''kigo-note-store-v1''"

definition MaxPersistentRecordSize :: int where
  "MaxPersistentRecordSize = 2097152"

definition ValidateRecord :: "PersistentRecord \<Rightarrow> (persistent_error, unit) result" where
  "ValidateRecord r =
     (if pr_Version r \<noteq> 1 then Inl (RecordVersion (pr_Version r))
      else if length (pr_Salt r) \<noteq> 16 then Inl RecordSalt
      else if length (pr_Nonce r) \<noteq> 12 then Inl RecordNonce
      else if length (pr_Ciphertext r) < 16 \<or> MaxPersistentRecordSize < int (length (pr_Ciphertext r)) then Inl RecordCiphertext
      else Inr ())"

definition ValidateClient :: "PersistentMessage \<Rightarrow> (persistent_error, unit) result" where
  "ValidateClient m =
     (if pm_Version m \<noteq> 1 then Inl (MessageVersion (pm_Version m))
      else if pm_Type m \<noteq> ''put'' then Inl (MessageType (pm_Type m))
      else case pm_Record m of None \<Rightarrow> Inl MissingRecord | Some r \<Rightarrow> ValidateRecord r)"

definition validatePersistentState :: "PersistentMessage \<Rightarrow> (persistent_error, unit) result" where
  "validatePersistentState m =
     (if pm_Version m \<noteq> 1 then Inl (MessageVersion (pm_Version m))
      else if pm_Type m = ''error'' then Inl (StateError (pm_Error m))
      else if pm_Type m \<noteq> ''state'' then Inl (MessageType (pm_Type m))
      else case pm_Record m of Some r \<Rightarrow> ValidateRecord r | None \<Rightarrow> check (pm_Generation m = 0) StateMissingRecord)"

definition PersistentPadToken :: "(string \<Rightarrow> string) \<Rightarrow> string \<Rightarrow> (note_error, string) result" where
  "PersistentPadToken sha pad0 =
     (let pad = NormalizePad pad0 in rbind (ValidatePad pad) (\<lambda>_. Inr (hex_encode (sha (''kigo-note-pad:'' @ pad)))))"

definition persistentAAD :: "string \<Rightarrow> string" where
  "persistentAAD pad = persistentKeyInfo @ [CHR 0x00] @ NormalizePad pad"

text \<open>The key of the AEAD; it is derived from the code and the salt of the record.\<close>

definition persistentAEAD :: "hkdf_fun \<Rightarrow> string \<Rightarrow> string \<Rightarrow> string" where
  "persistentAEAD hkdf code salt = hkdf (NormalizeCode code) salt persistentKeyInfo 16"

definition SealPersistentDocument ::
    "hkdf_fun \<Rightarrow> seal_fun \<Rightarrow> (Document \<Rightarrow> string) \<Rightarrow> string \<Rightarrow> string \<Rightarrow> string \<Rightarrow> Document \<Rightarrow> (persistent_error, PersistentRecord) result" where
  "SealPersistentDocument hkdf seal json salt nonce0 code0 document0 =
     (case ValidateCode code0 of
        Inl e \<Rightarrow> Inl (BadNoteCode e)
      | Inr code \<Rightarrow>
          let document = document0\<lparr>do_Pad := NormalizePad (do_Pad document0)\<rparr> in
          case ValidateDocument document of
            Inl e \<Rightarrow> Inl (BadNote e)
          | Inr _ \<Rightarrow>
              let r = \<lparr>pr_Version = 1, pr_Salt = salt, pr_Nonce = nonce0,
                       pr_Ciphertext = seal (persistentAEAD hkdf code salt) nonce0 (persistentAAD (do_Pad document)) (json document)\<rparr>
              in rbind (ValidateRecord r) (\<lambda>_. Inr r))"

definition OpenPersistentDocument ::
    "hkdf_fun \<Rightarrow> unseal_fun \<Rightarrow> (string \<Rightarrow> Document option) \<Rightarrow> string \<Rightarrow> string \<Rightarrow> PersistentRecord \<Rightarrow> (persistent_error, Document) result" where
  "OpenPersistentDocument hkdf unseal parse code0 pad0 r =
     (case ValidateCode code0 of
        Inl e \<Rightarrow> Inl (BadNoteCode e)
      | Inr code \<Rightarrow>
          let pad = NormalizePad pad0 in
          case ValidatePad pad of
            Inl e \<Rightarrow> Inl (BadNote e)
          | Inr _ \<Rightarrow>
              rbind (ValidateRecord r) (\<lambda>_.
              case unseal (persistentAEAD hkdf code (pr_Salt r)) (pr_Nonce r) (persistentAAD pad) (pr_Ciphertext r) of
                None \<Rightarrow> Inl NoteUnsealable
              | Some plaintext \<Rightarrow>
                  (case parse plaintext of
                     None \<Rightarrow> Inl NoteUnparsable
                   | Some document0 \<Rightarrow>
                       let document = document0\<lparr>do_Pad := NormalizePad (do_Pad document0)\<rparr> in
                       if do_Pad document \<noteq> pad then Inl NotePadMismatch
                       else case ValidateDocument document of Inl e \<Rightarrow> Inl (BadNote e) | Inr _ \<Rightarrow> Inr document)))"

section \<open>The notes of the service\<close>

definition persistentNoteMaxClients :: nat where
  "persistentNoteMaxClients = 16"

record persistentNoteHub =
  ph_key :: string
  ph_generation :: "64 word"
  ph_record :: "PersistentRecord option"
  ph_updated :: int
  ph_expires :: int
  ph_clients :: "nat list"

record persistentNoteDiskRecord =
  pd_Version :: int
  pd_Generation :: "64 word"
  pd_UpdatedAt :: int
  pd_ExpiresAt :: int
  pd_Record :: PersistentRecord

text \<open>What a file of the note directory holds, by its name: a record, something else, or it cannot be opened.\<close>

datatype note_file = Stored persistentNoteDiskRecord | Undecodable | Unreadable

record note_service =
  ps_notes :: "(string \<times> nat) list"
  ps_hub :: "nat \<Rightarrow> persistentNoteHub"
  ps_next :: nat
  ps_disk :: "string \<rightharpoonup> note_file"
  ps_sent :: "(nat \<times> PersistentMessage) list"

record note_config =
  nf_store :: string
  nf_ttl :: int
  nf_sha :: "string \<Rightarrow> string"

datatype service_error =
    TooManyNoteClients | NoteExpired | NoteDiskError | InvalidDiskRecord | InvalidDiskPayload persistent_error | InvalidNoteMessage persistent_error
  | NilRecord

definition millis :: "int \<Rightarrow> int" where
  "millis t = t div 1000000"

text \<open>The two tokens of a path \<open>/api/note-sync/<room>/<pad>\<close>.\<close>

fun trim_slash :: "string \<Rightarrow> string" where
  "trim_slash (c # s) = (if c = CHR ''/'' then trim_slash s else c # s)"
| "trim_slash [] = []"

definition note_sync_path :: "string \<Rightarrow> (string \<times> string) option" where
  "note_sync_path path =
     (case split_on CHR ''/'' (rev (trim_slash (rev (trim_slash (trim_prefix ''/api/note-sync/'' path))))) of
        [room, pad] \<Rightarrow> if length pad = 64 \<and> list_all is_hex_digit pad \<and> ToLower pad = pad then Some (room, pad) else None
      | _ \<Rightarrow> None)"

definition configured :: "note_config \<Rightarrow> bool" where
  "configured cfg \<longleftrightarrow> TrimSpace (nf_store cfg) \<noteq> ''''"

definition persistentNotePath :: "note_config \<Rightarrow> string \<Rightarrow> string" where
  "persistentNotePath cfg key = hex_encode (nf_sha cfg (''kigo-persistent-note:'' @ key)) @ ''.json''"

definition validatePersistentNoteDiskRecord :: "persistentNoteDiskRecord \<Rightarrow> (service_error, unit) result" where
  "validatePersistentNoteDiskRecord d =
     (if pd_Version d \<noteq> 1 \<or> pd_Generation d = 0 \<or> pd_UpdatedAt d \<le> 0 \<or> pd_ExpiresAt d \<le> pd_UpdatedAt d then Inl InvalidDiskRecord
      else case ValidateRecord (pd_Record d) of Inl e \<Rightarrow> Inl (InvalidDiskPayload e) | Inr _ \<Rightarrow> Inr ())"

definition persistentNoteStateLocked :: "persistentNoteHub \<Rightarrow> PersistentMessage" where
  "persistentNoteStateLocked hub =
     \<lparr>pm_Type = ''state'', pm_Version = 1, pm_Generation = ph_generation hub, pm_BaseGeneration = 0, pm_Record = ph_record hub, pm_Error = ''''\<rparr>"

definition quarantinePersistentNote :: "int \<Rightarrow> string \<Rightarrow> (string \<rightharpoonup> note_file) \<Rightarrow> (string \<rightharpoonup> note_file)" where
  "quarantinePersistentNote now path disk =
     (case disk path of None \<Rightarrow> disk | Some f \<Rightarrow> (disk(path := None))(path @ ''.corrupt-'' @ Itoa now \<mapsto> f))"

definition loadPersistentNote ::
    "note_config \<Rightarrow> string \<Rightarrow> int \<Rightarrow> (string \<rightharpoonup> note_file) \<Rightarrow> (service_error, persistentNoteHub option) result \<times> (string \<rightharpoonup> note_file)" where
  "loadPersistentNote cfg key now disk =
     (let path = persistentNotePath cfg key in
      if \<not> configured cfg then (Inr None, disk)
      else case disk path of
        None \<Rightarrow> (Inr None, disk)
      | Some Unreadable \<Rightarrow> (Inl NoteDiskError, disk)
      | Some Undecodable \<Rightarrow> (Inr None, quarantinePersistentNote now path disk)
      | Some (Stored d) \<Rightarrow>
          (case validatePersistentNoteDiskRecord d of
             Inl _ \<Rightarrow> (Inr None, quarantinePersistentNote now path disk)
           | Inr _ \<Rightarrow>
               if pd_ExpiresAt d \<le> millis now then (Inr None, disk(path := None))
               else (Inr (Some \<lparr>ph_key = key, ph_generation = pd_Generation d, ph_record = Some (pd_Record d),
                       ph_updated = pd_UpdatedAt d * 1000000, ph_expires = pd_ExpiresAt d * 1000000, ph_clients = []\<rparr>), disk)))"

text \<open>
  How writing a file ends: it fails and the old file stays; the file is replaced; or the file is
  replaced and the directory cannot be synced, which is also reported as an error.
\<close>

datatype write_outcome = WriteFails | Written | Unsynced

definition writePersistentNote ::
    "note_config \<Rightarrow> write_outcome \<Rightarrow> string \<Rightarrow> persistentNoteDiskRecord \<Rightarrow> (string \<rightharpoonup> note_file) \<Rightarrow> (service_error, unit) result \<times> (string \<rightharpoonup> note_file)" where
  "writePersistentNote cfg wo key d disk =
     (if \<not> configured cfg then (Inr (), disk)
      else case validatePersistentNoteDiskRecord d of
        Inl e \<Rightarrow> (Inl e, disk)
      | Inr _ \<Rightarrow>
          (case wo of
             WriteFails \<Rightarrow> (Inl NoteDiskError, disk)
           | Written \<Rightarrow> (Inr (), disk(persistentNotePath cfg key \<mapsto> Stored d))
           | Unsynced \<Rightarrow> (Inl NoteDiskError, disk(persistentNotePath cfg key \<mapsto> Stored d))))"

definition upd_hub :: "nat \<Rightarrow> (persistentNoteHub \<Rightarrow> persistentNoteHub) \<Rightarrow> note_service \<Rightarrow> note_service" where
  "upd_hub h f s = s\<lparr>ps_hub := (ps_hub s)(h := f (ps_hub s h))\<rparr>"

definition write_to :: "nat \<Rightarrow> PersistentMessage \<Rightarrow> note_service \<Rightarrow> note_service" where
  "write_to c m s = s\<lparr>ps_sent := ps_sent s @ [(c, m)]\<rparr>"

definition addPersistentNoteClient ::
    "nat \<Rightarrow> nat \<Rightarrow> note_service \<Rightarrow> (service_error, nat \<times> PersistentMessage) result \<times> note_service" where
  "addPersistentNoteClient h c s =
     (if persistentNoteMaxClients \<le> length (ph_clients (ps_hub s h)) then (Inl TooManyNoteClients, s)
      else
        let s = upd_hub h (\<lambda>hub. hub\<lparr>ph_clients := ph_clients hub @ [c]\<rparr>) s
        in (Inr (h, persistentNoteStateLocked (ps_hub s h)), s))"

definition joinPersistentNote ::
    "note_config \<Rightarrow> string \<Rightarrow> nat \<Rightarrow> int \<Rightarrow> note_service \<Rightarrow> (service_error, nat \<times> PersistentMessage) result \<times> note_service" where
  "joinPersistentNote cfg key c now s =
     (case map_of (ps_notes s) key of
        Some h \<Rightarrow> addPersistentNoteClient h c s
      | None \<Rightarrow>
          (case loadPersistentNote cfg key now (ps_disk s) of
             (Inl e, disk) \<Rightarrow> (Inl e, s\<lparr>ps_disk := disk\<rparr>)
           | (Inr loaded, disk) \<Rightarrow>
               let hub = (case loaded of
                     Some hub \<Rightarrow> hub
                   | None \<Rightarrow> \<lparr>ph_key = key, ph_generation = 0, ph_record = None, ph_updated = 0, ph_expires = 0, ph_clients = []\<rparr>);
                   h = ps_next s
               in addPersistentNoteClient h c
                    (s\<lparr>ps_disk := disk, ps_notes := AList.update key h (ps_notes s), ps_hub := (ps_hub s)(h := hub), ps_next := Suc h\<rparr>)))"

definition leavePersistentNote :: "nat \<Rightarrow> nat \<Rightarrow> note_service \<Rightarrow> note_service" where
  "leavePersistentNote h c s =
     (let key = ph_key (ps_hub s h) in
      if map_of (ps_notes s) key \<noteq> Some h then s
      else
        let s = upd_hub h (\<lambda>hub. hub\<lparr>ph_clients := remove1 c (ph_clients hub)\<rparr>) s in
        if ph_clients (ps_hub s h) = [] \<and> ph_record (ps_hub s h) = None then s\<lparr>ps_notes := AList.delete key (ps_notes s)\<rparr> else s)"

text \<open>
  A put is answered with the current state when it is not based on it; otherwise the record is
  written to disk and becomes the state, which all clients of the hub are sent. Writes to clients
  succeed in the model; a client whose connection fails is closed by the service and leaves.
\<close>

definition applyPersistentNote ::
    "note_config \<Rightarrow> write_outcome \<Rightarrow> nat \<Rightarrow> nat \<Rightarrow> PersistentMessage \<Rightarrow> int \<Rightarrow> note_service \<Rightarrow> (service_error, bool) result \<times> note_service" where
  "applyPersistentNote cfg wo h c m now s =
     (let hub = ps_hub s h in
      if map_of (ps_notes s) (ph_key hub) \<noteq> Some h then (Inl NoteExpired, s)
      else if pm_BaseGeneration m \<noteq> ph_generation hub then (Inr False, write_to c (persistentNoteStateLocked hub) s)
      else case pm_Record m of
        None \<Rightarrow> (Inl NilRecord, s)
      | Some r \<Rightarrow>
          let next = \<lparr>pd_Version = 1, pd_Generation = ph_generation hub + 1, pd_UpdatedAt = millis now,
                      pd_ExpiresAt = millis (now + nf_ttl cfg), pd_Record = r\<rparr>
          in case writePersistentNote cfg wo (ph_key hub) next (ps_disk s) of
               (Inl e, disk) \<Rightarrow> (Inl e, s\<lparr>ps_disk := disk\<rparr>)
             | (Inr _, disk) \<Rightarrow>
                 let s = upd_hub h (\<lambda>hub. hub\<lparr>ph_generation := pd_Generation next, ph_record := Some r, ph_updated := now,
                       ph_expires := pd_ExpiresAt next * 1000000\<rparr>) (s\<lparr>ps_disk := disk\<rparr>)
                 in (Inr True, fold (\<lambda>target. write_to target (persistentNoteStateLocked (ps_hub s h))) (ph_clients (ps_hub s h)) s))"

definition cleanup_hub :: "note_config \<Rightarrow> int \<Rightarrow> string \<times> nat \<Rightarrow> note_service \<Rightarrow> note_service" where
  "cleanup_hub cfg now kh s =
     (let h = snd kh; hub = ps_hub s h in
      if map_of (ps_notes s) (ph_key hub) \<noteq> Some h then s
      else if ph_clients hub = [] \<and> ph_record hub \<noteq> None \<and> \<not> now < ph_expires hub then
        s\<lparr>ps_notes := AList.delete (ph_key hub) (ps_notes s),
          ps_disk := (if configured cfg then (ps_disk s)(persistentNotePath cfg (ph_key hub) := None) else ps_disk s)\<rparr>
      else s)"

text \<open>
  The names of the directory are listed before the files are visited; their order is an argument.
  A visit opens the file, and then acts on what it has read; \<open>sweep_file\<close> is the second step.
\<close>

definition sweep_file :: "int \<Rightarrow> string \<Rightarrow> note_file option \<Rightarrow> (string \<rightharpoonup> note_file) \<Rightarrow> (string \<rightharpoonup> note_file)" where
  "sweep_file now name opened disk =
     (case opened of
        None \<Rightarrow> disk
      | Some Unreadable \<Rightarrow> disk
      | Some Undecodable \<Rightarrow> quarantinePersistentNote now name disk
      | Some (Stored d) \<Rightarrow>
          (case validatePersistentNoteDiskRecord d of
             Inl _ \<Rightarrow> quarantinePersistentNote now name disk
           | Inr _ \<Rightarrow> if pd_ExpiresAt d \<le> millis now then disk(name := None) else disk))"

definition cleanup_file :: "int \<Rightarrow> string \<Rightarrow> (string \<rightharpoonup> note_file) \<Rightarrow> (string \<rightharpoonup> note_file)" where
  "cleanup_file now name disk =
     (if drop (length name - 5) name \<noteq> ''.json'' then disk else sweep_file now name (disk name) disk)"

definition cleanupPersistentNoteFiles :: "note_config \<Rightarrow> int \<Rightarrow> string list \<Rightarrow> note_service \<Rightarrow> note_service" where
  "cleanupPersistentNoteFiles cfg now names s =
     (if \<not> configured cfg then s else s\<lparr>ps_disk := fold (cleanup_file now) names (ps_disk s)\<rparr>)"

definition cleanupPersistentNotes :: "note_config \<Rightarrow> int \<Rightarrow> string list \<Rightarrow> note_service \<Rightarrow> note_service" where
  "cleanupPersistentNotes cfg now names s = cleanupPersistentNoteFiles cfg now names (fold (cleanup_hub cfg now) (ps_notes s) s)"

definition persistentNoteStats :: "note_service \<Rightarrow> nat \<times> nat" where
  "persistentNoteStats s =
     (let hubs = map (\<lambda>(key, h). ps_hub s h) (ps_notes s)
      in (length (filter (\<lambda>hub. ph_record hub \<noteq> None) hubs), sum_list (map (\<lambda>hub. length (ph_clients hub)) hubs)))"

end
