(* ===== verification/Persistent_Register.thy ===== *)
theory Persistent_Register
  imports Persistent_Note
begin

text \<open>
  The notes of the service refine a register with a version per note: a put replaces the record
  exactly when it names the current generation, and everyone is told the outcome. Where the state
  of a note is held, in a hub in memory or in a file, does not show.
\<close>

section \<open>Requests\<close>

datatype note_request =
    NoteJoin string nat
  | NotePut write_outcome nat nat PersistentMessage
  | NoteLeave nat nat
  | NoteCleanup "string list"

datatype note_reply =
    NoteJoined nat PersistentMessage
  | PutAccepted
  | PutConflict
  | NoteRefused service_error
  | NoteDone

text \<open>What the read loop of a connection does with a message, and the other requests.\<close>

definition serve_note :: "note_config \<Rightarrow> int \<Rightarrow> note_request \<Rightarrow> note_service \<Rightarrow> note_reply \<times> note_service" where
  "serve_note cfg now rq s =
     (case rq of
        NoteJoin key c \<Rightarrow>
          (case joinPersistentNote cfg key c now s of
             (Inl e, s) \<Rightarrow> (NoteRefused e, s)
           | (Inr (h, m), s) \<Rightarrow> (NoteJoined h m, write_to c m s))
      | NotePut wo h c m \<Rightarrow>
          (case ValidateClient m of
             Inl e \<Rightarrow> (NoteRefused (InvalidNoteMessage e), s)
           | Inr _ \<Rightarrow>
               (case applyPersistentNote cfg wo h c m now s of
                  (Inl e, s) \<Rightarrow> (NoteRefused e, s)
                | (Inr ok, s) \<Rightarrow> (if ok then PutAccepted else PutConflict, s)))
      | NoteLeave h c \<Rightarrow> (NoteDone, leavePersistentNote h c s)
      | NoteCleanup names \<Rightarrow> (NoteDone, cleanupPersistentNotes cfg now names s))"

definition no_notes :: "(string \<rightharpoonup> note_file) \<Rightarrow> note_service" where
  "no_notes disk = \<lparr>ps_notes = [],
     ps_hub = (\<lambda>_. \<lparr>ph_key = '''', ph_generation = 0, ph_record = None, ph_updated = 0, ph_expires = 0, ph_clients = []\<rparr>),
     ps_next = 0, ps_disk = disk, ps_sent = []\<rparr>"

text \<open>
  Requests about the notes in \<open>K\<close>, on hubs that exist. A put whose file was replaced without the
  directory being synced is left out: it is reported as failed and can still take effect.
\<close>

definition note_known :: "string set \<Rightarrow> note_request \<Rightarrow> note_service \<Rightarrow> bool" where
  "note_known K rq s \<longleftrightarrow>
     (case rq of
        NoteJoin key c \<Rightarrow> key \<in> K
      | NotePut wo h c m \<Rightarrow> h < ps_next s \<and> wo \<noteq> Unsynced
      | NoteLeave h c \<Rightarrow> h < ps_next s
      | NoteCleanup names \<Rightarrow> True)"

inductive note_reached :: "note_config \<Rightarrow> string set \<Rightarrow> note_service \<Rightarrow> bool" for cfg K where
  Start: "note_reached cfg K (no_notes disk)"
| Serve: "note_reached cfg K s \<Longrightarrow> note_known K rq s \<Longrightarrow> note_reached cfg K (snd (serve_note cfg now rq s))"

section \<open>The register\<close>

type_synonym note_value = "64 word \<times> PersistentRecord option"

definition file_value :: "int \<Rightarrow> note_file option \<Rightarrow> note_value" where
  "file_value now f =
     (case f of
        Some (Stored d) \<Rightarrow>
          if validatePersistentNoteDiskRecord d = Inr () \<and> millis now < pd_ExpiresAt d then (pd_Generation d, Some (pd_Record d)) else (0, None)
      | _ \<Rightarrow> (0, None))"

definition hub_value :: "persistentNoteHub \<Rightarrow> note_value" where
  "hub_value hub = (ph_generation hub, ph_record hub)"

definition note_value :: "note_config \<Rightarrow> int \<Rightarrow> note_service \<Rightarrow> string \<Rightarrow> note_value" where
  "note_value cfg now s key =
     (case map_of (ps_notes s) key of
        Some h \<Rightarrow> hub_value (ps_hub s h)
      | None \<Rightarrow> if configured cfg then file_value now (ps_disk s (persistentNotePath cfg key)) else (0, None))"

definition note_inv :: "note_config \<Rightarrow> string set \<Rightarrow> note_service \<Rightarrow> bool" where
  "note_inv cfg K s \<longleftrightarrow>
     (\<forall>key h. map_of (ps_notes s) key = Some h \<longrightarrow> key \<in> K \<and> h < ps_next s \<and> ph_key (ps_hub s h) = key
        \<and> length (ph_clients (ps_hub s h)) \<le> persistentNoteMaxClients
        \<and> (ph_record (ps_hub s h) = None \<longrightarrow> ph_generation (ps_hub s h) = 0
            \<and> (configured cfg \<longrightarrow> ps_disk s (persistentNotePath cfg key) = None)))"

lemma note_invD:
  assumes "note_inv cfg K s" "map_of (ps_notes s) key = Some h"
  shows "key \<in> K" "h < ps_next s" "ph_key (ps_hub s h) = key" "length (ph_clients (ps_hub s h)) \<le> persistentNoteMaxClients"
    "ph_record (ps_hub s h) = None \<Longrightarrow> ph_generation (ps_hub s h) = 0"
    "ph_record (ps_hub s h) = None \<Longrightarrow> configured cfg \<Longrightarrow> ps_disk s (persistentNotePath cfg key) = None"
  using assms unfolding note_inv_def by blast+

lemma note_invI:
  assumes "\<And>key h. map_of (ps_notes s) key = Some h \<Longrightarrow> key \<in> K \<and> h < ps_next s \<and> ph_key (ps_hub s h) = key
        \<and> length (ph_clients (ps_hub s h)) \<le> persistentNoteMaxClients
        \<and> (ph_record (ps_hub s h) = None \<longrightarrow> ph_generation (ps_hub s h) = 0
            \<and> (configured cfg \<longrightarrow> ps_disk s (persistentNotePath cfg key) = None))"
  shows "note_inv cfg K s"
  using assms unfolding note_inv_def by blast

text \<open>Two hubs in the table are the same only for the same note.\<close>

lemma note_inv_inj:
  "note_inv cfg K s \<Longrightarrow> map_of (ps_notes s) k = Some h \<Longrightarrow> map_of (ps_notes s) k' = Some h \<Longrightarrow> k = k'"
  using note_invD(3) by metis

section \<open>Files\<close>

lemma corrupt_name: "path @ ''.corrupt-'' @ Itoa now \<noteq> persistentNotePath cfg key"
proof -
  have d: "last (nat_digits n) \<noteq> CHR ''n''" for n
  proof -
    have "digit_char k \<noteq> CHR ''n''" if "k < 10" for k
    proof
      assume "digit_char k = CHR ''n''"
      then have "byte_val (digit_char k) = byte_val (CHR ''n'')" by simp
      with that show False by (simp add: digit_char_def of_char_of take_bit_nat_def)
    qed
    then show ?thesis by (subst nat_digits.simps) simp
  qed
  have "nat_digits n \<noteq> []" for n by (subst nat_digits.simps) simp
  then have "last (path @ ''.corrupt-'' @ Itoa now) \<noteq> CHR ''n''" using d by (simp add: Itoa_def)
  moreover have "last (persistentNotePath cfg key) = CHR ''n''" by (simp add: persistentNotePath_def)
  ultimately show ?thesis by metis
qed

lemma quarantine_path:
  "quarantinePersistentNote now path disk (persistentNotePath cfg key) =
     (if persistentNotePath cfg key = path then None else disk (persistentNotePath cfg key))"
  using corrupt_name [of path now cfg key] by (auto simp: quarantinePersistentNote_def split: option.split)

text \<open>Loading and sweeping a file keep the value of every note at that time.\<close>

lemma cleanup_file_value:
  "file_value now (cleanup_file now name disk (persistentNotePath cfg key)) = file_value now (disk (persistentNotePath cfg key))"
  "disk (persistentNotePath cfg key) = None \<Longrightarrow> cleanup_file now name disk (persistentNotePath cfg key) = None"
  by (auto simp: cleanup_file_def sweep_file_def quarantine_path file_value_def split: option.split note_file.split sum.split)

lemma cleanup_files_value:
  "file_value now (fold (cleanup_file now) names disk (persistentNotePath cfg key)) = file_value now (disk (persistentNotePath cfg key))
   \<and> (disk (persistentNotePath cfg key) = None \<longrightarrow> fold (cleanup_file now) names disk (persistentNotePath cfg key) = None)"
  by (induction names arbitrary: disk) (simp_all add: cleanup_file_value)

lemma load_value:
  assumes "loadPersistentNote cfg key now disk = (Inr loaded, disk')" "configured cfg"
  shows "(case loaded of Some hub \<Rightarrow> hub_value hub = file_value now (disk (persistentNotePath cfg key)) \<and> ph_record hub \<noteq> None
        | None \<Rightarrow> file_value now (disk (persistentNotePath cfg key)) = (0, None) \<and> disk' (persistentNotePath cfg key) = None)"
    "persistentNotePath cfg k \<noteq> persistentNotePath cfg key \<Longrightarrow> disk' (persistentNotePath cfg k) = disk (persistentNotePath cfg k)"
    "disk' (persistentNotePath cfg k) = None \<or> disk' (persistentNotePath cfg k) = disk (persistentNotePath cfg k)"
  using assms
  by (auto simp: loadPersistentNote_def Let_def quarantine_path file_value_def hub_value_def
      split: option.splits note_file.splits sum.splits if_splits)

lemma load_key:
  "loadPersistentNote cfg key now disk = (Inr (Some hub), disk') \<Longrightarrow> ph_key hub = key \<and> ph_clients hub = [] \<and> ph_record hub \<noteq> None"
  by (auto simp: loadPersistentNote_def Let_def split: option.splits note_file.splits sum.splits if_splits)

lemma load_unconfigured: "\<not> configured cfg \<Longrightarrow> loadPersistentNote cfg key now disk = (Inr None, disk)"
  by (simp add: loadPersistentNote_def Let_def)

lemma load_fails: "loadPersistentNote cfg key now disk = (Inl e, disk') \<Longrightarrow> disk' = disk"
  by (auto simp: loadPersistentNote_def Let_def split: option.splits note_file.splits sum.splits if_splits)

section \<open>Requests on the register\<close>

lemma add_client_keeps:
  assumes "note_inv cfg K s" "map_of (ps_notes s) key = Some h" "addPersistentNoteClient h c s = (r, s')"
  shows "note_inv cfg K s'" "note_value cfg now s' k = note_value cfg now s k"
    "r = Inr (h', m) \<Longrightarrow> h' = h \<and> (pm_Generation m, pm_Record m) = note_value cfg now s key"
proof -
  note inv = note_invD [OF assms(1)]
  show "note_inv cfg K s'"
    using assms(3) inv by (intro note_invI) (auto simp: addPersistentNoteClient_def Let_def upd_hub_def persistentNoteMaxClients_def split: if_splits)
  show "note_value cfg now s' k = note_value cfg now s k"
    using assms(3) by (auto simp: addPersistentNoteClient_def Let_def upd_hub_def note_value_def hub_value_def split: if_splits option.split)
  show "h' = h \<and> (pm_Generation m, pm_Record m) = note_value cfg now s key" if "r = Inr (h', m)"
    using that assms(2,3)
    by (auto simp: addPersistentNoteClient_def Let_def upd_hub_def note_value_def hub_value_def persistentNoteStateLocked_def split: if_splits)
qed

text \<open>A new hub for a note that is not in memory, with what its file holds.\<close>

lemma open_hub_keeps:
  assumes inv: "note_inv cfg K s" and inj: "inj_on (persistentNotePath cfg) K" and key: "key \<in> K" "map_of (ps_notes s) key = None"
    and load: "loadPersistentNote cfg key now (ps_disk s) = (Inr loaded, disk)"
    and hub: "hub = (case loaded of Some hub \<Rightarrow> hub
        | None \<Rightarrow> \<lparr>ph_key = key, ph_generation = 0, ph_record = None, ph_updated = 0, ph_expires = 0, ph_clients = []\<rparr>)"
    and s1: "s1 = s\<lparr>ps_disk := disk, ps_notes := AList.update key (ps_next s) (ps_notes s), ps_hub := (ps_hub s)(ps_next s := hub), ps_next := Suc (ps_next s)\<rparr>"
  shows "note_inv cfg K s1" "k \<in> K \<Longrightarrow> note_value cfg now s1 k = note_value cfg now s k"
proof -
  have hub_key: "ph_key hub = key" "ph_clients hub = []" using load_key [of cfg key now "ps_disk s"] load by (auto simp: hub split: option.split)
  have hub_disk: "ph_generation hub = 0 \<and> (configured cfg \<longrightarrow> disk (persistentNotePath cfg key) = None)" if "ph_record hub = None"
    using that load_value(1) [OF load] load_key [of cfg key now "ps_disk s"] load by (auto simp: hub split: option.splits)
  have disk: "configured cfg \<Longrightarrow> disk (persistentNotePath cfg k) = None \<or> disk (persistentNotePath cfg k) = ps_disk s (persistentNotePath cfg k)" for k
    using load_value(3) [OF load] by blast
  show "note_inv cfg K s1"
  proof (rule note_invI)
    fix k h
    assume kh: "map_of (ps_notes s1) k = Some h"
    show "k \<in> K \<and> h < ps_next s1 \<and> ph_key (ps_hub s1 h) = k \<and> length (ph_clients (ps_hub s1 h)) \<le> persistentNoteMaxClients
        \<and> (ph_record (ps_hub s1 h) = None \<longrightarrow> ph_generation (ps_hub s1 h) = 0 \<and> (configured cfg \<longrightarrow> ps_disk s1 (persistentNotePath cfg k) = None))"
    proof (cases "k = key")
      case True
      then have "h = ps_next s" using kh by (simp add: s1 update_conv)
      then show ?thesis using True key hub_key hub_disk by (simp add: s1)
    next
      case False
      then have m: "map_of (ps_notes s) k = Some h" using kh by (simp add: s1 update_conv)
      then have "h < ps_next s" using note_invD(2) [OF inv] by blast
      then show ?thesis using note_invD [OF inv m] disk [of k] by (auto simp: s1)
    qed
  qed
  show "note_value cfg now s1 k = note_value cfg now s k" if "k \<in> K"
  proof (cases "k = key")
    case True
    have "note_value cfg now s1 key = hub_value hub" by (simp add: note_value_def s1 update_conv)
    moreover have "note_value cfg now s key = (if configured cfg then file_value now (ps_disk s (persistentNotePath cfg key)) else (0, None))"
      using key(2) by (simp add: note_value_def)
    moreover have "hub_value hub = \<dots>"
    proof (cases "configured cfg")
      case True
      then show ?thesis using load_value(1) [OF load] by (auto simp: hub hub_value_def split: option.splits)
    next
      case False
      then show ?thesis using load load_unconfigured [OF False] by (auto simp: hub hub_value_def)
    qed
    ultimately show ?thesis using True by simp
  next
    case False
    then have path: "persistentNotePath cfg k \<noteq> persistentNotePath cfg key" using inj key(1) that by (auto simp: inj_on_def)
    show ?thesis
    proof (cases "map_of (ps_notes s) k")
      case None
      then show ?thesis using False path load_value(2) [OF load _ path] by (simp add: note_value_def s1 update_conv)
    next
      case (Some h)
      then have "h < ps_next s" using note_invD(2) [OF inv] by blast
      then show ?thesis using False Some by (simp add: note_value_def s1 update_conv)
    qed
  qed
qed

lemma join_keeps:
  assumes "note_inv cfg K s" "inj_on (persistentNotePath cfg) K" "key \<in> K" "joinPersistentNote cfg key c now s = (r, s')"
  shows "note_inv cfg K s' \<and> (\<forall>k\<in>K. note_value cfg now s' k = note_value cfg now s k)
    \<and> (\<forall>h m. r = Inr (h, m) \<longrightarrow> (pm_Generation m, pm_Record m) = note_value cfg now s key)"
proof (cases "map_of (ps_notes s) key")
  case (Some h)
  then have "addPersistentNoteClient h c s = (r, s')" using assms(4) by (simp add: joinPersistentNote_def)
  from add_client_keeps [OF assms(1) Some this] show ?thesis by blast
next
  case None
  show ?thesis
  proof (cases "loadPersistentNote cfg key now (ps_disk s)")
    case (Pair l disk)
    show ?thesis
    proof (cases l)
      case (Inl e)
      then have "s' = s" "r = Inl e" using assms(4) None Pair load_fails [of cfg key now "ps_disk s" e disk] by (simp_all add: joinPersistentNote_def)
      then show ?thesis using assms(1) by simp
    next
      case (Inr loaded)
      define hub where "hub = (case loaded of Some hub \<Rightarrow> hub
        | None \<Rightarrow> \<lparr>ph_key = key, ph_generation = 0, ph_record = None, ph_updated = 0, ph_expires = 0, ph_clients = []\<rparr>)"
      define s1 where "s1 = s\<lparr>ps_disk := disk, ps_notes := AList.update key (ps_next s) (ps_notes s), ps_hub := (ps_hub s)(ps_next s := hub), ps_next := Suc (ps_next s)\<rparr>"
      note keeps = open_hub_keeps [OF assms(1-3) None Pair [unfolded Inr] hub_def s1_def]
      have "addPersistentNoteClient (ps_next s) c s1 = (r, s')"
        using assms(4) None Pair Inr by (simp add: joinPersistentNote_def Let_def hub_def s1_def)
      moreover have "map_of (ps_notes s1) key = Some (ps_next s)" by (simp add: s1_def update_conv)
      ultimately show ?thesis using add_client_keeps [OF keeps(1)] keeps(2) assms(3) by metis
    qed
  qed
qed

lemma leave_keeps_notes:
  assumes "note_inv cfg K s"
  shows "note_inv cfg K (leavePersistentNote h c s) \<and> note_value cfg now (leavePersistentNote h c s) k = note_value cfg now s k"
proof (cases "map_of (ps_notes s) (ph_key (ps_hub s h)) = Some h")
  case False
  then show ?thesis using assms by (simp add: leavePersistentNote_def Let_def)
next
  case True
  define s1 where "s1 = upd_hub h (\<lambda>hub. hub\<lparr>ph_clients := remove1 c (ph_clients hub)\<rparr>) s"
  have len: "length (remove1 c xs) \<le> length xs" for xs :: "nat list" by (simp add: length_remove1)
  have inv1: "note_inv cfg K s1"
    using note_invD [OF assms] le_trans [OF len] by (intro note_invI) (auto simp: s1_def upd_hub_def split: if_splits)
  have val1: "note_value cfg now s1 k = note_value cfg now s k" by (auto simp: s1_def upd_hub_def note_value_def hub_value_def split: option.split)
  let ?key = "ph_key (ps_hub s h)"
  have m1: "map_of (ps_notes s1) ?key = Some h" using True by (simp add: s1_def upd_hub_def)
  have l: "leavePersistentNote h c s = (if ph_clients (ps_hub s1 h) = [] \<and> ph_record (ps_hub s1 h) = None
      then s1\<lparr>ps_notes := AList.delete ?key (ps_notes s1)\<rparr> else s1)"
    using True by (simp add: leavePersistentNote_def Let_def s1_def)
  have "note_inv cfg K (s1\<lparr>ps_notes := AList.delete ?key (ps_notes s1)\<rparr>)"
    using note_invD [OF inv1] by (intro note_invI) (auto simp: delete_conv restrict_map_def split: if_splits)
  moreover have "note_value cfg now (s1\<lparr>ps_notes := AList.delete ?key (ps_notes s1)\<rparr>) k = note_value cfg now s1 k"
      if "ph_record (ps_hub s1 h) = None"
    using note_invD(5,6) [OF inv1 m1 that] m1 that
    by (auto simp: note_value_def delete_conv restrict_map_def hub_value_def file_value_def split: option.split)
  ultimately show ?thesis unfolding l using inv1 val1 by simp
qed

lemma write_disk:
  assumes "writePersistentNote cfg wo key d disk = (r, disk')"
  shows "persistentNotePath cfg k \<noteq> persistentNotePath cfg key \<Longrightarrow> disk' (persistentNotePath cfg k) = disk (persistentNotePath cfg k)"
  using assms by (auto simp: writePersistentNote_def split: sum.splits write_outcome.splits if_splits)

lemma write_fails: "writePersistentNote cfg wo key d disk = (Inl e, disk') \<Longrightarrow> wo \<noteq> Unsynced \<Longrightarrow> disk' = disk"
  by (auto simp: writePersistentNote_def split: sum.splits write_outcome.splits if_splits)

lemma fold_write_to: "fold (\<lambda>t. write_to t m) cs s = s\<lparr>ps_sent := ps_sent s @ map (\<lambda>c. (c, m)) cs\<rparr>"
  by (induction cs arbitrary: s) (simp_all add: write_to_def)

definition told :: "note_value \<Rightarrow> PersistentMessage" where
  "told v = \<lparr>pm_Type = ''state'', pm_Version = 1, pm_Generation = fst v, pm_BaseGeneration = 0, pm_Record = snd v, pm_Error = ''''\<rparr>"

lemma state_told: "persistentNoteStateLocked hub = told (hub_value hub)"
  by (simp add: persistentNoteStateLocked_def told_def hub_value_def)

lemma apply_accepts:
  assumes "note_inv cfg K s" "inj_on (persistentNotePath cfg) K" "applyPersistentNote cfg wo h c m now s = (Inr True, s')" "key = ph_key (ps_hub s h)"
    and "v = (fst (note_value cfg now s key) + 1, pm_Record m)"
  shows "note_inv cfg K s' \<and> pm_BaseGeneration m = fst (note_value cfg now s key)
    \<and> (\<forall>k\<in>K. note_value cfg now s' k = (if k = key then v else note_value cfg now s k))
    \<and> ps_sent s' = ps_sent s @ map (\<lambda>c. (c, told v)) (ph_clients (ps_hub s h))"
proof -
  obtain r where key: "map_of (ps_notes s) key = Some h" and base: "pm_BaseGeneration m = ph_generation (ps_hub s h)" and r: "pm_Record m = Some r"
    using assms(3,4) by (auto simp: applyPersistentNote_def Let_def split: if_splits option.splits)
  note inv = note_invD [OF assms(1)]
  have cur: "note_value cfg now s key = hub_value (ps_hub s h)" by (simp add: note_value_def key)
  define d where "d = \<lparr>pd_Version = 1, pd_Generation = ph_generation (ps_hub s h) + 1, pd_UpdatedAt = millis now,
                      pd_ExpiresAt = millis (now + nf_ttl cfg), pd_Record = r\<rparr>"
  obtain disk u where disk: "writePersistentNote cfg wo key d (ps_disk s) = (Inr u, disk)"
    using assms(3,4) key base r by (auto simp: applyPersistentNote_def Let_def d_def split: prod.splits sum.splits)
  define hub where "hub = (ps_hub s h)\<lparr>ph_generation := pd_Generation d, ph_record := Some r, ph_updated := now, ph_expires := pd_ExpiresAt d * 1000000\<rparr>"
  have v: "hub_value hub = v" using assms(5) cur r by (simp add: hub_def hub_value_def d_def)
  have s': "s' = s\<lparr>ps_disk := disk, ps_hub := (ps_hub s)(h := hub), ps_sent := ps_sent s @ map (\<lambda>c. (c, told v)) (ph_clients (ps_hub s h))\<rparr>"
    using assms(3,4) key base r disk v [symmetric]
    by (simp add: applyPersistentNote_def Let_def d_def [symmetric] upd_hub_def fold_write_to state_told hub_def)
  have other: "h' \<noteq> h" "configured cfg \<Longrightarrow> disk (persistentNotePath cfg k) = ps_disk s (persistentNotePath cfg k)"
    if "map_of (ps_notes s) k = Some h'" "k \<noteq> key" for k h'
  proof -
    show "h' \<noteq> h" using that inv(3) assms(4) by metis
    have "persistentNotePath cfg k \<noteq> persistentNotePath cfg key"
      using that inv(1) key assms(2) by (auto simp: inj_on_def)
    then show "disk (persistentNotePath cfg k) = ps_disk s (persistentNotePath cfg k)" using write_disk [OF disk] by blast
  qed
  have "note_inv cfg K s'"
  proof (rule note_invI)
    fix k h'
    assume "map_of (ps_notes s') k = Some h'"
    then have kh: "map_of (ps_notes s) k = Some h'" by (simp add: s')
    show "k \<in> K \<and> h' < ps_next s' \<and> ph_key (ps_hub s' h') = k \<and> length (ph_clients (ps_hub s' h')) \<le> persistentNoteMaxClients
        \<and> (ph_record (ps_hub s' h') = None \<longrightarrow> ph_generation (ps_hub s' h') = 0 \<and> (configured cfg \<longrightarrow> ps_disk s' (persistentNotePath cfg k) = None))"
      using inv [OF kh] other [OF kh] key kh by (cases "k = key") (auto simp: s' hub_def)
  qed
  moreover have "note_value cfg now s' k = (if k = key then v else note_value cfg now s k)" if "k \<in> K" for k
  proof (cases "k = key")
    case True
    then show ?thesis using key v by (simp add: note_value_def s')
  next
    case False
    have "persistentNotePath cfg k \<noteq> persistentNotePath cfg key" using that inv(1) [OF key] False assms(2) by (auto simp: inj_on_def)
    with False write_disk [OF disk] show ?thesis by (auto simp: note_value_def s' dest: other split: option.split)
  qed
  ultimately show ?thesis using base cur by (simp add: s' hub_value_def)
qed

lemma apply_keeps:
  assumes "note_inv cfg K s" "applyPersistentNote cfg wo h c m now s = (r, s')" "r \<noteq> Inr True" "wo \<noteq> Unsynced"
  shows "note_inv cfg K s' \<and> (\<forall>k. note_value cfg now s' k = note_value cfg now s k)
    \<and> (r = Inr False \<longrightarrow> pm_BaseGeneration m \<noteq> fst (note_value cfg now s (ph_key (ps_hub s h)))
         \<and> ps_sent s' = ps_sent s @ [(c, told (note_value cfg now s (ph_key (ps_hub s h))))])"
proof -
  have sent: "note_inv cfg K (write_to c x s)" "note_value cfg now (write_to c x s) k = note_value cfg now s k" for x k
    using assms(1) by (simp_all add: note_inv_def note_value_def write_to_def cong: option.case_cong)
  show ?thesis
    using assms(2-4) assms(1) sent
    by (auto simp: applyPersistentNote_def Let_def state_told note_value_def [of cfg now s "ph_key (ps_hub s h)"] hub_value_def
        split: if_splits option.splits prod.splits sum.splits dest!: write_fails) (auto simp: write_to_def told_def hub_value_def)
qed

section \<open>Cleanup\<close>

definition idle_expired :: "int \<Rightarrow> note_service \<Rightarrow> string \<Rightarrow> bool" where
  "idle_expired now s key \<longleftrightarrow> (\<exists>h. map_of (ps_notes s) key = Some h \<and> ph_clients (ps_hub s h) = [] \<and> ph_expires (ps_hub s h) \<le> now)"

lemma cleanup_hub_keeps:
  assumes "note_inv cfg K s" "inj_on (persistentNotePath cfg) K"
  shows "note_inv cfg K (cleanup_hub cfg now kh s)"
    "k \<in> K \<Longrightarrow> note_value cfg now (cleanup_hub cfg now kh s) k = note_value cfg now s k
      \<or> note_value cfg now (cleanup_hub cfg now kh s) k = (0, None) \<and> idle_expired now s k"
    "idle_expired now (cleanup_hub cfg now kh s) k \<Longrightarrow> idle_expired now s k"
proof -
  note inv = note_invD [OF assms(1)]
  let ?h = "snd kh" let ?key = "ph_key (ps_hub s ?h)"
  define s1 where "s1 = s\<lparr>ps_notes := AList.delete ?key (ps_notes s),
          ps_disk := (if configured cfg then (ps_disk s)(persistentNotePath cfg ?key := None) else ps_disk s)\<rparr>"
  have c: "cleanup_hub cfg now kh s = s \<or> cleanup_hub cfg now kh s = s1 \<and> map_of (ps_notes s) ?key = Some ?h
      \<and> ph_clients (ps_hub s ?h) = [] \<and> ph_expires (ps_hub s ?h) \<le> now"
    by (auto simp: cleanup_hub_def Let_def s1_def)
  have "note_inv cfg K s1"
    using inv by (intro note_invI) (auto simp: s1_def delete_conv restrict_map_def split: if_splits)
  then show "note_inv cfg K (cleanup_hub cfg now kh s)" using c assms(1) by auto
  show "note_value cfg now (cleanup_hub cfg now kh s) k = note_value cfg now s k
      \<or> note_value cfg now (cleanup_hub cfg now kh s) k = (0, None) \<and> idle_expired now s k" if "k \<in> K"
  proof (cases "k = ?key")
    case True
    from c show ?thesis
    proof
      assume "cleanup_hub cfg now kh s = s1 \<and> map_of (ps_notes s) ?key = Some ?h \<and> ph_clients (ps_hub s ?h) = [] \<and> ph_expires (ps_hub s ?h) \<le> now"
      then show ?thesis using True by (auto simp: s1_def note_value_def delete_conv restrict_map_def file_value_def idle_expired_def)
    qed simp
  next
    case False
    from c show ?thesis
    proof
      assume gone: "cleanup_hub cfg now kh s = s1 \<and> map_of (ps_notes s) ?key = Some ?h \<and> ph_clients (ps_hub s ?h) = [] \<and> ph_expires (ps_hub s ?h) \<le> now"
      then have "persistentNotePath cfg k \<noteq> persistentNotePath cfg ?key"
        using inv(1) that False assms(2) by (auto simp: inj_on_def)
      then have "note_value cfg now s1 k = note_value cfg now s k"
        using False by (auto simp: s1_def note_value_def delete_conv restrict_map_def split: option.split)
      then show ?thesis using gone by simp
    qed simp
  qed
  show "idle_expired now s k" if "idle_expired now (cleanup_hub cfg now kh s) k"
    using c that by (auto simp: s1_def idle_expired_def delete_conv restrict_map_def split: if_splits)
qed

lemma cleanup_hubs_keep:
  assumes "note_inv cfg K s" "inj_on (persistentNotePath cfg) K"
  shows "note_inv cfg K (fold (cleanup_hub cfg now) hs s) \<and> (\<forall>k\<in>K. note_value cfg now (fold (cleanup_hub cfg now) hs s) k = note_value cfg now s k
      \<or> note_value cfg now (fold (cleanup_hub cfg now) hs s) k = (0, None) \<and> idle_expired now s k)"
  using assms(1)
proof (induction hs arbitrary: s)
  case (Cons kh hs)
  note step = cleanup_hub_keeps [OF Cons.prems assms(2), where kh = kh and now = now]
  from Cons.IH [OF step(1)] step(2,3) show ?case by (auto simp: Bex_def) metis+
qed simp

lemma cleanup_keeps_notes:
  assumes "note_inv cfg K s" "inj_on (persistentNotePath cfg) K"
  shows "note_inv cfg K (cleanupPersistentNotes cfg now names s) \<and> (\<forall>k\<in>K. note_value cfg now (cleanupPersistentNotes cfg now names s) k = note_value cfg now s k
      \<or> note_value cfg now (cleanupPersistentNotes cfg now names s) k = (0, None) \<and> idle_expired now s k)"
proof -
  define s1 where "s1 = fold (cleanup_hub cfg now) (ps_notes s) s"
  have s2: "cleanupPersistentNotes cfg now names s = cleanupPersistentNoteFiles cfg now names s1" by (simp add: cleanupPersistentNotes_def s1_def)
  have "note_inv cfg K s1" using cleanup_hubs_keep [OF assms] by (simp add: s1_def)
  then have "note_inv cfg K (cleanupPersistentNoteFiles cfg now names s1)"
    using cleanup_files_value by (intro note_invI) (auto simp: cleanupPersistentNoteFiles_def dest: note_invD)
  moreover have "note_value cfg now (cleanupPersistentNoteFiles cfg now names s1) k = note_value cfg now s1 k" for k
    using cleanup_files_value by (auto simp: cleanupPersistentNoteFiles_def note_value_def split: option.split)
  ultimately show ?thesis using cleanup_hubs_keep [OF assms, of now "ps_notes s"] by (simp add: s2 s1_def)
qed

section \<open>Every state\<close>

lemma serve_note_keeps:
  assumes "note_inv cfg K s" "inj_on (persistentNotePath cfg) K" "note_known K rq s"
  shows "note_inv cfg K (snd (serve_note cfg now rq s))"
proof (cases rq)
  case (NoteJoin key c)
  obtain r s1 where r: "joinPersistentNote cfg key c now s = (r, s1)" by (cases "joinPersistentNote cfg key c now s")
  then have "note_inv cfg K s1" using join_keeps [OF assms(1,2) _ r] assms(3) NoteJoin by (auto simp: note_known_def)
  moreover have "note_inv cfg K (write_to c m s1)" if "note_inv cfg K s1" for m using that by (simp add: note_inv_def write_to_def)
  ultimately show ?thesis using NoteJoin r by (auto simp: serve_note_def split: sum.split)
next
  case (NotePut wo h c m)
  obtain r s1 where r: "applyPersistentNote cfg wo h c m now s = (r, s1)" by (cases "applyPersistentNote cfg wo h c m now s")
  have "note_inv cfg K s1"
    using apply_accepts [OF assms(1,2), of wo h c m now s1] apply_keeps [OF assms(1) r] r assms(3) NotePut
    by (cases "r = Inr True") (auto simp: note_known_def)
  then show ?thesis using NotePut r assms(1) by (auto simp: serve_note_def split: sum.split)
next
  case (NoteLeave h c)
  then show ?thesis using leave_keeps_notes [OF assms(1)] by (simp add: serve_note_def)
next
  case (NoteCleanup names)
  then show ?thesis using cleanup_keeps_notes [OF assms(1,2)] by (simp add: serve_note_def)
qed

lemma note_reached_inv: "note_reached cfg K s \<Longrightarrow> inj_on (persistentNotePath cfg) K \<Longrightarrow> note_inv cfg K s"
proof (induction rule: note_reached.induct)
  case (Start disk)
  show ?case by (simp add: note_inv_def no_notes_def)
next
  case (Serve s rq now)
  then show ?case using serve_note_keeps by blast
qed


definition demo_notes :: note_config where
  "demo_notes = \<lparr>nf_store = ''/n'', nf_ttl = 1000000000, nf_sha = (\<lambda>x. x)\<rparr>"

definition demo_put :: "64 word \<Rightarrow> PersistentMessage" where
  "demo_put base = \<lparr>pm_Type = ''put'', pm_Version = 1, pm_Generation = 0, pm_BaseGeneration = base,
     pm_Record = Some \<lparr>pr_Version = 1, pr_Salt = replicate 16 CHR ''s'', pr_Nonce = replicate 12 CHR ''n'', pr_Ciphertext = replicate 16 CHR ''c''\<rparr>, pm_Error = ''''\<rparr>"


text \<open>
  The sweep over the files takes no lock, and it reads a file and removes it in two steps. When a
  client puts a record between the two, the file that is removed is the new one: the note is in
  memory, its clients were told that it is stored, and there is no file of it.
\<close>

lemma sweep_removes_new_file:
  assumes "ps_disk s path = Some (Stored old)" "validatePersistentNoteDiskRecord old = Inr ()" "pd_ExpiresAt old \<le> millis now"
    and "applyPersistentNote cfg Written h c m now s = (Inr True, s')" "configured cfg" "path = persistentNotePath cfg (ph_key (ps_hub s h))"
  shows "\<exists>d. ps_disk s' path = Some (Stored d) \<and> pd_Generation d = ph_generation (ps_hub s' h) \<and> pd_ExpiresAt d = millis (now + nf_ttl cfg)
    \<and> map_of (ps_notes s') (ph_key (ps_hub s h)) = Some h \<and> ph_record (ps_hub s' h) = pm_Record m
    \<and> sweep_file now path (ps_disk s path) (ps_disk s') path = None"
  using assms by (auto simp: applyPersistentNote_def Let_def writePersistentNote_def upd_hub_def fold_write_to sweep_file_def
      split: if_splits option.splits sum.splits)

section \<open>Sealing\<close>

text \<open>A sealed document is opened with the same code and the name of its pad, and is then as it was.\<close>

lemma open_sealed_note:
  assumes "aead_law seal unseal" and "SealPersistentDocument hkdf seal json salt n c d = Inr r" and "NormalizeCode c' = NormalizeCode c"
    and "ValidateCode c' = Inr k'" and "parse (json (d\<lparr>do_Pad := NormalizePad (do_Pad d)\<rparr>)) = Some (d\<lparr>do_Pad := NormalizePad (do_Pad d)\<rparr>)"
    and "\<And>k. ValidateCode c = Inr k \<Longrightarrow> NormalizeCode k = NormalizeCode k'"
  shows "OpenPersistentDocument hkdf unseal parse c' (do_Pad d) r = Inr (d\<lparr>do_Pad := NormalizePad (do_Pad d)\<rparr>)"
proof -
  let ?d = "d\<lparr>do_Pad := NormalizePad (do_Pad d)\<rparr>"
  obtain k where k: "ValidateCode c = Inr k" "ValidateDocument ?d = Inr ()" "ValidateRecord r = Inr ()" "pr_Salt r = salt" "pr_Nonce r = n"
      "pr_Ciphertext r = seal (persistentAEAD hkdf k salt) n (persistentAAD (do_Pad ?d)) (json ?d)"
    using assms(2) by (auto simp: SealPersistentDocument_def Let_def result_simps split: sum.splits)
  have "persistentAEAD hkdf k salt = persistentAEAD hkdf k' salt" using assms(6) [OF k(1)] by (simp add: persistentAEAD_def)
  moreover have "ValidatePad (NormalizePad (do_Pad d)) = Inr ()" using k(2) by (auto simp: ValidateDocument_def result_simps)
  moreover have "persistentAAD (do_Pad ?d) = persistentAAD (NormalizePad (do_Pad d))" by simp
  ultimately show ?thesis
    using k assms(1,4,5) by (simp add: OpenPersistentDocument_def Let_def aead_law_def)
qed

end
