(* ===== verification/Persistent_Client.thy ===== *)
theory Persistent_Client
  imports Persistent_Register Note_Converge
begin

text \<open>
  The client of a kept note (internal/note/persistent_session.go) and the part of the loop of
  internal/note/interactive.go that it serves. A session reads the states that the service sends in a
  goroutine of its own and turns them into frames, which the loop applies to the workspace; edits are
  sealed and put on top of the generation read last. The goroutine looks at the workspace after it
  has stored the generation, and the loop sends a document after it has entered it in the workspace:
  both are two steps here, so that the other may act between them. What waits in the channel of
  events or in the hands of \<open>emit\<close> is one list.
\<close>

section \<open>The session\<close>

record note_crypto =
  nk_hkdf :: hkdf_fun
  nk_seal :: seal_fun
  nk_unseal :: unseal_fun
  nk_json :: "Document \<Rightarrow> string"
  nk_parse :: "string \<Rightarrow> Document option"

datatype client_error =
    ClientNote note_error | ClientRecord persistent_error | ClientCode code_error | ClientPad string string
  | ClientClosed | ClientRead | ClientFrame string

record PersistentSession =
  ln_code :: string
  ln_pad :: string
  ln_initial :: PersistentMessage
  ln_events :: "(client_error, Frame) result list"
  ln_workspace :: "Workspace option"
  ln_generation :: "64 word"
  ln_reading :: "PersistentMessage option"
  ln_started :: bool
  ln_closed :: bool
  ln_in :: "PersistentMessage list"
  ln_out :: "PersistentMessage list"

definition zero_message :: PersistentMessage where
  "zero_message = \<lparr>pm_Type = '''', pm_Version = 0, pm_Generation = 0, pm_BaseGeneration = 0, pm_Record = None, pm_Error = ''''\<rparr>"

text \<open>The connection to the service is open; what it delivers is an argument.\<close>

definition OpenPersistentSession :: "string \<Rightarrow> string \<Rightarrow> PersistentMessage list \<Rightarrow> (client_error, PersistentSession) result" where
  "OpenPersistentSession code0 pad0 incoming =
     (case ValidateCode code0 of
        Inl e \<Rightarrow> Inl (ClientCode e)
      | Inr code \<Rightarrow>
          let pad = NormalizePad pad0 in
          (case ValidatePad pad of
            Inl e \<Rightarrow> Inl (ClientNote e)
          | Inr _ \<Rightarrow>
              (case incoming of
                 [] \<Rightarrow> Inl ClientRead
               | initial # rest \<Rightarrow>
                   (case validatePersistentState initial of
                      Inl e \<Rightarrow> Inl (ClientRecord e)
                    | Inr _ \<Rightarrow> Inr \<lparr>ln_code = code, ln_pad = pad, ln_initial = initial, ln_events = [], ln_workspace = None,
                        ln_generation = pm_Generation initial, ln_reading = None, ln_started = False, ln_closed = False,
                        ln_in = rest, ln_out = []\<rparr>))))"

definition emit :: "(client_error, Frame) result \<Rightarrow> 'c PersistentSession_scheme \<Rightarrow> 'c PersistentSession_scheme" where
  "emit event p = (if ln_closed p then p else p\<lparr>ln_events := ln_events p @ [event]\<rparr>)"

text \<open>Salt and nonce are random and arguments. A write fails when the connection is closed.\<close>

definition publishDocument ::
    "note_crypto \<Rightarrow> string \<Rightarrow> string \<Rightarrow> Document \<Rightarrow> ('c PersistentSession_scheme, client_error, unit) act" where
  "publishDocument k salt nonce0 document0 p =
     (let document = document0\<lparr>do_Pad := NormalizePad (do_Pad document0)\<rparr> in
      if do_Pad document \<noteq> ln_pad p then (Inl (ClientPad (ln_pad p) (do_Pad document)), p)
      else case SealPersistentDocument (nk_hkdf k) (nk_seal k) (nk_json k) salt nonce0 (ln_code p) document of
        Inl e \<Rightarrow> (Inl (ClientRecord e), p)
      | Inr r \<Rightarrow>
          if ln_closed p then (Inl ClientClosed, p)
          else (Inr (), p\<lparr>ln_out := ln_out p @ [zero_message\<lparr>pm_Type := ''put'', pm_Version := 1,
                  pm_BaseGeneration := ln_generation p, pm_Record := Some r\<rparr>]\<rparr>))"

definition persistent_SyncWorkspace ::
    "note_crypto \<Rightarrow> string \<Rightarrow> string \<Rightarrow> Workspace \<Rightarrow> string \<Rightarrow> ('c PersistentSession_scheme, client_error, Document list) act" where
  "persistent_SyncWorkspace k salt nonce0 ws pad0 p =
     (let pad = NormalizePad pad0 in
      if pad \<noteq> ln_pad p then (Inl (ClientPad (ln_pad p) pad), p)
      else
        let initial = ln_initial p; p = p\<lparr>ln_workspace := Some ws, ln_initial := zero_message\<rparr>;
            publish = (\<lambda>remote applied ws.
              let current = Snapshot (ln_pad p) ws; p = p\<lparr>ln_workspace := Some ws\<rparr> in
              if do_Revision current > 0 \<and> (pm_Record initial = None \<or> compareDocuments current remote > 0)
              then (case publishDocument k salt nonce0 current p of
                      (Inl e, p) \<Rightarrow> (Inl e, p) | (Inr _, p) \<Rightarrow> (Inr applied, p\<lparr>ln_started := True\<rparr>))
              else (Inr applied, p\<lparr>ln_started := True\<rparr>))
        in case pm_Record initial of
             None \<Rightarrow> publish zero_document [] ws
           | Some r \<Rightarrow>
               (case OpenPersistentDocument (nk_hkdf k) (nk_unseal k) (nk_parse k) (ln_code p) (ln_pad p) r of
                  Inl e \<Rightarrow> (Inl (ClientRecord e), p)
                | Inr document \<Rightarrow>
                    (case ApplyRemote document ws of
                       (Inl e, ws) \<Rightarrow> (Inl (ClientNote e), p)
                     | (Inr (changed, current), ws) \<Rightarrow> publish document (if changed then [current] else []) ws)))"

definition persistent_Close :: "'c PersistentSession_scheme \<Rightarrow> 'c PersistentSession_scheme" where
  "persistent_Close p = p\<lparr>ln_closed := True\<rparr>"

definition persistent_Send ::
    "note_crypto \<Rightarrow> string \<Rightarrow> string \<Rightarrow> Frame \<Rightarrow> ('c PersistentSession_scheme, client_error, unit) act" where
  "persistent_Send k salt nonce0 f0 p =
     (let f1 = f0\<lparr>fr_Version := ProtocolVersion\<rparr>; f = (if fr_Pad f1 = '''' then f1\<lparr>fr_Pad := ln_pad p\<rparr> else f1) in
      case ValidateFrame f of
        Inl e \<Rightarrow> (Inl (ClientNote e), p)
      | Inr _ \<Rightarrow>
          if IsDocumentUpdate f then publishDocument k salt nonce0 (Frame_Document f) p
          else if fr_Type f = ''bye'' then (Inr (), persistent_Close p)
          else if fr_Type f = ''ack'' \<or> fr_Type f = ''ping'' \<or> fr_Type f = ''pong'' then (Inr (), p)
          else (Inl (ClientFrame (fr_Type f)), p))"

text \<open>
  One turn of \<open>readLoop\<close>: the first part takes a message and stores its generation; the second part,
  when there is a workspace, compares the document of the message with the workspace.
\<close>

definition readLoop_take :: "'c PersistentSession_scheme \<Rightarrow> 'c PersistentSession_scheme" where
  "readLoop_take p =
     (case ln_in p of
        [] \<Rightarrow> p
      | message # rest \<Rightarrow>
          let p = p\<lparr>ln_in := rest\<rparr> in
          if pm_Type message = ''error'' then emit (Inl (ClientRecord (StateError (pm_Error message)))) p
          else (case validatePersistentState message of
            Inl e \<Rightarrow> emit (Inl (ClientRecord e)) p
          | Inr _ \<Rightarrow>
              if pm_Generation message < ln_generation p then p
              else
                let p = p\<lparr>ln_generation := pm_Generation message\<rparr> in
                if ln_workspace p = None then p else p\<lparr>ln_reading := Some message\<rparr>))"

definition publish_or_emit :: "note_crypto \<Rightarrow> string \<Rightarrow> string \<Rightarrow> Document \<Rightarrow> 'c PersistentSession_scheme \<Rightarrow> 'c PersistentSession_scheme" where
  "publish_or_emit k salt nonce0 current p =
     (case publishDocument k salt nonce0 current p of (Inl e, p) \<Rightarrow> emit (Inl e) p | (Inr _, p) \<Rightarrow> p)"

definition readLoop_handle :: "note_crypto \<Rightarrow> string \<Rightarrow> string \<Rightarrow> 'c PersistentSession_scheme \<Rightarrow> 'c PersistentSession_scheme" where
  "readLoop_handle k salt nonce0 p =
     (case (ln_reading p, ln_workspace p) of
        (Some message, Some ws) \<Rightarrow>
          let p = p\<lparr>ln_reading := None\<rparr> in
          (case pm_Record message of
             None \<Rightarrow>
               let current = Snapshot (ln_pad p) ws in
               if do_Revision current > 0 then publish_or_emit k salt nonce0 current p else p
           | Some r \<Rightarrow>
               (case OpenPersistentDocument (nk_hkdf k) (nk_unseal k) (nk_parse k) (ln_code p) (ln_pad p) r of
                  Inl e \<Rightarrow> emit (Inl (ClientRecord e)) p
                | Inr document \<Rightarrow>
                    let current = Snapshot (ln_pad p) ws in
                    if compareDocuments document current = 1
                    then emit (Inr (FrameFromDocument (frameTypeForDocument document) document)) p
                    else if compareDocuments document current = -1 then publish_or_emit k salt nonce0 current p
                    else emit (Inr \<lparr>fr_Type = ''ack'', fr_Version = ProtocolVersion, fr_Pad = ln_pad p, fr_Revision = do_Revision document,
                           fr_Timestamp = do_Timestamp document, fr_Text = ''''\<rparr>) p))
      | _ \<Rightarrow> p)"

section \<open>The loop of a notepad over a session\<close>

text \<open>
  The loop enters a line in the workspace and keeps the frame it is about to send; it is ended by
  the errors of the session, the end of the input and a frame that closes the notepad.
\<close>

record note_client = PersistentSession +
  lc_sending :: "Frame option"
  lc_ended :: bool

definition client_pad :: "note_client \<Rightarrow> Workspace" where
  "client_pad p = (case ln_workspace p of Some ws \<Rightarrow> ws | None \<Rightarrow> NewWorkspace)"

definition enter_document :: "(Workspace, note_error, Document) act \<Rightarrow> string \<Rightarrow> note_client \<Rightarrow> note_client" where
  "enter_document change frameType p =
     (case change (client_pad p) of
        (Inl _, _) \<Rightarrow> p\<lparr>lc_ended := True\<rparr>
      | (Inr document, ws) \<Rightarrow> p\<lparr>ln_workspace := Some ws, lc_sending := Some (FrameFromDocument frameType document)\<rparr>)"

definition client_line :: "string \<Rightarrow> int \<Rightarrow> note_client \<Rightarrow> note_client" where
  "client_line line now p =
     (if TrimSpace line = ''/show'' then p
      else if TrimSpace line = ''/clear'' then enter_document (Clear (ln_pad p) now) ''clear'' p
      else if TrimSpace line = ''/quit'' then (persistent_Close p)\<lparr>lc_ended := True\<rparr>
      else enter_document (Update (ln_pad p) line now) ''update'' p)"

definition client_send :: "note_crypto \<Rightarrow> string \<Rightarrow> string \<Rightarrow> note_client \<Rightarrow> note_client" where
  "client_send k salt nonce0 p =
     (case lc_sending p of
        None \<Rightarrow> p
      | Some f \<Rightarrow>
          let p = p\<lparr>lc_sending := None\<rparr> in
          (case persistent_Send k salt nonce0 f p of (Inl _, p) \<Rightarrow> p\<lparr>lc_ended := True\<rparr> | (Inr _, p) \<Rightarrow> p))"

text \<open>An event at the loop. The acknowledgement that follows a document is checked and not sent.\<close>

definition client_event :: "note_client \<Rightarrow> note_client" where
  "client_event p =
     (case ln_events p of
        [] \<Rightarrow> p
      | Inl _ # rest \<Rightarrow> p\<lparr>ln_events := rest, lc_ended := True\<rparr>
      | Inr f # rest \<Rightarrow>
          let p = p\<lparr>ln_events := rest\<rparr> in
          if fr_Pad f \<noteq> '''' \<and> NormalizePad (fr_Pad f) \<noteq> ln_pad p then p\<lparr>lc_ended := True\<rparr>
          else if fr_Type f = ''update'' \<or> fr_Type f = ''clear'' then
            (case ApplyRemote (Frame_Document f) (client_pad p) of
               (Inl _, _) \<Rightarrow> p\<lparr>lc_ended := True\<rparr>
             | (Inr (applied, document), ws) \<Rightarrow>
                 (p\<lparr>ln_workspace := Some ws\<rparr>)\<lparr>lc_ended := do_Revision document = 0\<rparr>)
          else p\<lparr>lc_ended := fr_Type f = ''bye''\<rparr>)"

end
