(* ===== verification/Persistent_Net.thy ===== *)
theory Persistent_Net
  imports Persistent_Client
begin

text \<open>
  A kept note with all its clients: the service of \<open>Persistent_Note\<close> and any number of sessions of
  \<open>Persistent_Client\<close>, which act in any order. Their messages travel in order on one connection per
  client.
\<close>

section \<open>Runs\<close>

record note_site =
  si_crypto :: note_crypto
  si_config :: note_config
  si_key :: string
  si_code :: string
  si_pad :: string

record note_net =
  nn_service :: note_service
  nn_members :: "nat list"
  nn_client :: "nat \<Rightarrow> note_client"
  nn_hub :: "nat \<Rightarrow> nat"
  nn_made :: "nat \<Rightarrow> Document list"

datatype net_event =
    Connect nat Workspace string string int
  | Serve nat write_outcome int
  | Take nat
  | Handle nat string string
  | Enter nat string int
  | Deliver nat string string
  | Apply nat
  | Leave nat int

definition linked :: "PersistentSession \<Rightarrow> note_client" where
  "linked p = PersistentSession.extend p (note_client.fields None False)"

definition opened :: "note_site \<Rightarrow> string \<Rightarrow> PersistentRecord \<Rightarrow> (persistent_error, Document) result" where
  "opened W code r = OpenPersistentDocument (nk_hkdf (si_crypto W)) (nk_unseal (si_crypto W)) (nk_parse (si_crypto W)) code (si_pad W) r"

definition site_code :: "note_site \<Rightarrow> string" where
  "site_code W = (case ValidateCode (si_code W) of Inr code \<Rightarrow> code | Inl _ \<Rightarrow> '''')"

text \<open>The documents that a client takes part with: what it brings, finds and enters.\<close>

definition record_docs :: "note_site \<Rightarrow> PersistentRecord option \<Rightarrow> Document list" where
  "record_docs W R = (case R of None \<Rightarrow> [] | Some r \<Rightarrow> (case opened W (site_code W) r of Inr d \<Rightarrow> [d] | Inl _ \<Rightarrow> []))"

definition pad_docs :: "note_site \<Rightarrow> Workspace \<Rightarrow> Document list" where
  "pad_docs W ws = (case ws (si_pad W) of None \<Rightarrow> [] | Some d \<Rightarrow> [d])"

text \<open>What the service has written since an earlier state, for a client.\<close>

definition written_to :: "nat \<Rightarrow> note_service \<Rightarrow> note_service \<Rightarrow> PersistentMessage list" where
  "written_to c s s' = map snd (filter (\<lambda>x. fst x = c) (drop (length (ps_sent s)) (ps_sent s')))"

text \<open>What the service has written arrives, and what it has read is no longer on its way.\<close>

definition post :: "PersistentMessage list \<Rightarrow> nat \<Rightarrow> note_client \<Rightarrow> note_client" where
  "post arrived k p = p\<lparr>ln_in := ln_in p @ arrived, ln_out := drop k (ln_out p)\<rparr>"

definition on_client :: "nat \<Rightarrow> (note_client \<Rightarrow> note_client) \<Rightarrow> note_net \<Rightarrow> note_net option" where
  "on_client c f N =
     (let p = f (nn_client N c) in
      if c \<notin> set (nn_members N) \<or> lc_ended p then None else Some (N\<lparr>nn_client := (nn_client N)(c := p)\<rparr>))"

text \<open>
  One action. It has no result when it is not possible, and also when it ends a client, when a put
  is refused because of the disk, or when a generation or a revision wraps around: the runs below
  are those in which this does not happen.
\<close>

definition net_step :: "note_site \<Rightarrow> net_event \<Rightarrow> note_net \<Rightarrow> note_net option" where
  "net_step W ev N =
     (case ev of
        Connect c ws salt nonce0 now \<Rightarrow>
          if c \<in> set (nn_members N) \<or> \<not> list_all (\<lambda>d. do_Pad d = si_pad W \<and> ValidateDocument d = Inr ()) (pad_docs W ws) then None
          else (case serve_note (si_config W) now (NoteJoin (si_key W) c) (nn_service N) of
            (NoteJoined h m, s) \<Rightarrow>
              (case OpenPersistentSession (si_code W) (si_pad W) [m] of
                 Inl _ \<Rightarrow> None
               | Inr p \<Rightarrow>
                   (case persistent_SyncWorkspace (si_crypto W) salt nonce0 ws (si_pad W) p of
                      (Inl _, _) \<Rightarrow> None
                    | (Inr _, p) \<Rightarrow> Some \<lparr>nn_service = s, nn_members = nn_members N @ [c], nn_client = (nn_client N)(c := linked p),
                        nn_hub = (nn_hub N)(c := h), nn_made = (nn_made N)(c := pad_docs W ws @ record_docs W (pm_Record m))\<rparr>))
          | _ \<Rightarrow> None)
      | Serve c wo now \<Rightarrow>
          (case ln_out (nn_client N c) of
             [] \<Rightarrow> None
           | m # rest \<Rightarrow>
               if c \<notin> set (nn_members N) \<or> ph_generation (ps_hub (nn_service N) (nn_hub N c)) + 1 = 0 then None
               else (case serve_note (si_config W) now (NotePut wo (nn_hub N c) c m) (nn_service N) of
                 (NoteRefused _, _) \<Rightarrow> None
               | (_, s) \<Rightarrow> Some (N\<lparr>nn_service := s,
                   nn_client := (\<lambda>q. post (written_to q (nn_service N) s) (if q = c then 1 else 0) (nn_client N q))\<rparr>)))
      | Take c \<Rightarrow> if ln_reading (nn_client N c) = None then on_client c readLoop_take N else None
      | Handle c salt nonce0 \<Rightarrow> on_client c (readLoop_handle (si_crypto W) salt nonce0) N
      | Enter c line now \<Rightarrow>
          if lc_sending (nn_client N c) \<noteq> None then None
          else (case on_client c (client_line line now) N of
            None \<Rightarrow> None
          | Some N' \<Rightarrow>
              (case lc_sending (nn_client N' c) of
                 None \<Rightarrow> Some N'
               | Some f \<Rightarrow> if ValidateDocument (Frame_Document f) \<noteq> Inr () then None
                           else Some (N'\<lparr>nn_made := (nn_made N')(c := nn_made N' c @ [Frame_Document f])\<rparr>)))
      | Deliver c salt nonce0 \<Rightarrow> on_client c (client_send (si_crypto W) salt nonce0) N
      | Apply c \<Rightarrow> if lc_sending (nn_client N c) = None then on_client c client_event N else None
      | Leave c now \<Rightarrow>
          if c \<notin> set (nn_members N) then None
          else Some (N\<lparr>nn_service := snd (serve_note (si_config W) now (NoteLeave (nn_hub N c) c) (nn_service N)),
                 nn_members := remove1 c (nn_members N)\<rparr>))"

fun net_steps :: "note_site \<Rightarrow> net_event list \<Rightarrow> note_net \<Rightarrow> note_net option" where
  "net_steps W [] N = Some N"
| "net_steps W (ev # evs) N = (case net_step W ev N of None \<Rightarrow> None | Some N' \<Rightarrow> net_steps W evs N')"

definition all_docs :: "note_net \<Rightarrow> Document list" where
  "all_docs N = concat (map (nn_made N) (nn_members N))"

definition no_clients :: "note_service \<Rightarrow> note_net" where
  "no_clients s = \<lparr>nn_service = s, nn_members = [],
     nn_client = (\<lambda>_. linked \<lparr>ln_code = '''', ln_pad = '''', ln_initial = zero_message, ln_events = [], ln_workspace = None,
       ln_generation = 0, ln_reading = None, ln_started = False, ln_closed = False, ln_in = [], ln_out = []\<rparr>),
     nn_hub = (\<lambda>_. 0), nn_made = (\<lambda>_. [])\<rparr>"

text \<open>At a site where nobody is connected the note is at most in its file, with a record that can be opened.\<close>

definition site_start :: "note_site \<Rightarrow> note_service \<Rightarrow> bool" where
  "site_start W s \<longleftrightarrow> NormalizePad (si_pad W) = si_pad W \<and> map_of (ps_notes s) (si_key W) = None
     \<and> (\<forall>d. ps_disk s (persistentNotePath (si_config W) (si_key W)) = Some (Stored d)
          \<longrightarrow> (\<exists>doc. opened W (site_code W) (pd_Record d) = Inr doc))"

text \<open>Nothing is on its way and nothing is left to be done.\<close>

definition idle :: "note_client \<Rightarrow> bool" where
  "idle p \<longleftrightarrow> ln_in p = [] \<and> ln_out p = [] \<and> ln_events p = [] \<and> ln_reading p = None \<and> lc_sending p = None"

definition quiet :: "note_net \<Rightarrow> bool" where
  "quiet N \<longleftrightarrow> list_all (\<lambda>c. idle (nn_client N c)) (nn_members N)"

text \<open>The runs in which no client leaves.\<close>

definition stays :: "net_event \<Rightarrow> bool" where
  "stays ev \<longleftrightarrow> (case ev of Leave _ _ \<Rightarrow> False | _ \<Rightarrow> True)"

inductive net_run :: "note_site \<Rightarrow> note_net \<Rightarrow> bool" for W where
  Start: "site_start W s \<Longrightarrow> net_run W (no_clients s)"
| Step: "net_run W N \<Longrightarrow> stays ev \<Longrightarrow> net_step W ev N = Some N' \<Longrightarrow> net_run W N'"

section \<open>The order of documents\<close>

definition at_most :: "Document \<Rightarrow> Document \<Rightarrow> bool" where
  "at_most d e \<longleftrightarrow> \<not> newer d e"

lemma at_most_refl [simp]: "at_most d d" by (simp add: at_most_def)

lemma at_most_trans: "at_most c d \<Longrightarrow> at_most d e \<Longrightarrow> at_most c e"
  using newer_weak unfolding at_most_def by blast

lemma at_most_total: "newer d e \<Longrightarrow> at_most e d"
  unfolding at_most_def using newer_trans newer_irrefl by blast

lemma compare_cases:
  "compareDocuments d e = 1 \<longleftrightarrow> newer d e" "compareDocuments d e = -1 \<longleftrightarrow> newer e d"
proof -
  have "compareDocuments d e \<in> {-1, 0, 1}" by (simp add: compareDocuments_def)
  then show "compareDocuments d e = 1 \<longleftrightarrow> newer d e" by (auto simp: newer_def)
  have "compareDocuments d e = - compareDocuments e d"
    using string_less_asym by (auto simp: compareDocuments_def)
  then show "compareDocuments d e = -1 \<longleftrightarrow> newer e d"
    using \<open>compareDocuments d e \<in> {-1, 0, 1}\<close> by (auto simp: newer_def)
qed

lemma at_most_same: "at_most d e \<Longrightarrow> at_most e d \<Longrightarrow> do_Pad d = do_Pad e \<Longrightarrow> d = e"
  unfolding at_most_def using newer_total by blast

section \<open>The invariant of a client\<close>

definition carries :: "note_crypto \<Rightarrow> Document set \<Rightarrow> bool" where
  "carries k A \<longleftrightarrow> aead_law (nk_seal k) (nk_unseal k) \<and> (\<forall>d\<in>A. nk_parse k (nk_json k d) = Some d)"

definition opens_to :: "note_site \<Rightarrow> Document set \<Rightarrow> PersistentRecord \<Rightarrow> bool" where
  "opens_to W A r \<longleftrightarrow> (\<exists>d\<in>A. opened W (site_code W) r = Inr d)"

definition value_ok :: "note_site \<Rightarrow> Document set \<Rightarrow> note_value \<Rightarrow> bool" where
  "value_ok W A v \<longleftrightarrow> (case snd v of None \<Rightarrow> fst v = 0 | Some r \<Rightarrow> opens_to W A r)"

text \<open>The document of a value of the register, the zero document when there is none.\<close>

definition value_doc :: "note_site \<Rightarrow> note_value \<Rightarrow> Document" where
  "value_doc W v = (case record_docs W (snd v) of [] \<Rightarrow> zero_document | d # _ \<Rightarrow> d)"

definition is_state :: "note_site \<Rightarrow> Document set \<Rightarrow> 64 word \<Rightarrow> PersistentMessage \<Rightarrow> bool" where
  "is_state W A g m \<longleftrightarrow> m = told (pm_Generation m, pm_Record m) \<and> value_ok W A (pm_Generation m, pm_Record m) \<and> pm_Generation m \<le> g"

definition mine :: "note_site \<Rightarrow> note_client \<Rightarrow> Document" where
  "mine W p = doc_at (client_pad p) (si_pad W)"

definition update_event :: "Document \<Rightarrow> note_client \<Rightarrow> bool" where
  "update_event d p \<longleftrightarrow> (\<exists>f. Inr f \<in> set (ln_events p) \<and> IsDocumentUpdate f \<and> Frame_Document f = d)"

definition put_ok :: "note_site \<Rightarrow> Document set \<Rightarrow> PersistentMessage \<Rightarrow> bool" where
  "put_ok W A m \<longleftrightarrow> ValidateClient m = Inr () \<and> (\<exists>r. pm_Record m = Some r \<and> opens_to W A r)"

definition sent_frame :: "note_site \<Rightarrow> Document set \<Rightarrow> Frame \<Rightarrow> bool" where
  "sent_frame W A f \<longleftrightarrow> (\<exists>d\<in>A. \<exists>t\<in>{''update'', ''clear''}. f = FrameFromDocument t d \<and> normal d \<and> do_Pad d = si_pad W)"

text \<open>What every part of a session holds.\<close>

definition client_wf :: "note_site \<Rightarrow> Document set \<Rightarrow> note_value \<Rightarrow> note_client \<Rightarrow> bool" where
  "client_wf W A v p \<longleftrightarrow> ln_pad p = si_pad W \<and> ln_code p = site_code W \<and> \<not> ln_closed p \<and> ln_workspace p \<noteq> None
     \<and> (\<forall>d. client_pad p (si_pad W) = Some d \<longrightarrow> normal d \<and> do_Pad d = si_pad W \<and> d \<in> A)
     \<and> (\<forall>m\<in>set (ln_in p). is_state W A (fst v) m) \<and> (\<forall>m. ln_reading p = Some m \<longrightarrow> is_state W A (fst v) m)
     \<and> (\<forall>d. update_event d p \<longrightarrow> d \<in> A) \<and> (\<forall>m\<in>set (ln_out p). put_ok W A m)
     \<and> (\<forall>f. lc_sending p = Some f \<longrightarrow> sent_frame W A f) \<and> ln_generation p \<le> fst v"

text \<open>
  The last state on its way is the current one. A client that has handled it holds its document or
  has it among its events, and what the client contributed is not newer, unless it is on its way.
\<close>

definition client_ok :: "note_site \<Rightarrow> Document set \<Rightarrow> note_value \<Rightarrow> Document list \<Rightarrow> note_client \<Rightarrow> bool" where
  "client_ok W A v own p \<longleftrightarrow> client_wf W A v p \<and> (\<forall>d\<in>set own. at_most d (mine W p))
     \<and> (ln_in p \<noteq> [] \<longrightarrow> last (ln_in p) = told v)
     \<and> (ln_in p = [] \<longrightarrow> (case ln_reading p of
          Some m \<Rightarrow> m = told v
        | None \<Rightarrow> (at_most (value_doc W v) (mine W p) \<or> update_event (value_doc W v) p)
            \<and> (ln_out p = [] \<and> lc_sending p = None \<and> (\<forall>e. Inl e \<notin> set (ln_events p)) \<longrightarrow> (\<forall>d\<in>set own. at_most d (value_doc W v)))))"

lemma opened_normal: "opened W code r = Inr d \<Longrightarrow> normal d \<and> do_Pad d = NormalizePad (si_pad W) \<and> ValidateRecord r = Inr ()"
  by (auto simp: opened_def OpenPersistentDocument_def normal_def Let_def result_simps split: sum.splits option.splits if_splits)

lemma value_state: "value_ok W A v \<Longrightarrow> validatePersistentState (told v) = Inr ()"
  by (auto simp: value_ok_def opens_to_def validatePersistentState_def told_def result_simps dest: opened_normal split: option.splits)

lemma value_doc_simps [simp]:
  "value_doc W (g, None) = zero_document"
  "opened W (site_code W) r = Inr d \<Longrightarrow> value_doc W (g, Some r) = d"
  by (simp_all add: value_doc_def record_docs_def)

lemma zero_at_most_value: "at_most zero_document (value_doc W v)"
proof (cases "record_docs W (snd v)")
  case (Cons d ds)
  then obtain r where "opened W (site_code W) r = Inr d" by (auto simp: record_docs_def split: option.splits sum.splits)
  then have "newer d zero_document" using opened_normal newer_zero by (auto simp: normal_def)
  then show ?thesis using Cons by (simp add: value_doc_def at_most_total)
qed (simp add: value_doc_def)

lemma is_state_mono: "is_state W A g m \<Longrightarrow> A \<subseteq> B \<Longrightarrow> g \<le> g' \<Longrightarrow> is_state W B g' m"
  unfolding is_state_def value_ok_def opens_to_def by (auto split: option.splits)

lemma is_state_told [simp]: "is_state W A g (told v) \<longleftrightarrow> value_ok W A v \<and> fst v \<le> g"
  by (cases v) (simp add: is_state_def told_def)

lemma put_ok_mono: "put_ok W A m \<Longrightarrow> A \<subseteq> B \<Longrightarrow> put_ok W B m"
  unfolding put_ok_def opens_to_def by blast

lemma sent_frame_mono: "sent_frame W A f \<Longrightarrow> A \<subseteq> B \<Longrightarrow> sent_frame W B f"
  unfolding sent_frame_def by blast

lemma client_wf_mono:
  assumes "client_wf W A v p" "A \<subseteq> B" "fst v \<le> fst u"
  shows "client_wf W B u p"
proof -
  have "is_state W A (fst v) m \<Longrightarrow> is_state W B (fst u) m" for m by (rule is_state_mono [OF _ assms(2,3)])
  moreover have "put_ok W A m \<Longrightarrow> put_ok W B m" for m by (rule put_ok_mono [OF _ assms(2)])
  moreover have "sent_frame W A f \<Longrightarrow> sent_frame W B f" for f by (rule sent_frame_mono [OF _ assms(2)])
  ultimately show ?thesis using assms unfolding client_wf_def by (simp add: subset_iff) (meson order_trans)
qed

lemma client_ok_mono: "client_ok W A v own p \<Longrightarrow> A \<subseteq> B \<Longrightarrow> client_ok W B v own p"
  unfolding client_ok_def using client_wf_mono [of W A v p B v] by simp

lemma record_upd_mine [simp]:
  "mine W (p\<lparr>ln_in := x\<rparr>) = mine W p" "mine W (p\<lparr>ln_out := x\<rparr>) = mine W p" "mine W (p\<lparr>ln_events := e\<rparr>) = mine W p"
  "mine W (p\<lparr>ln_reading := m\<rparr>) = mine W p" "mine W (p\<lparr>ln_generation := g\<rparr>) = mine W p" "mine W (p\<lparr>lc_sending := f\<rparr>) = mine W p"
  "mine W (p\<lparr>lc_ended := b\<rparr>) = mine W p"
  by (simp_all add: mine_def client_pad_def)

lemma record_upd_events [simp]:
  "update_event d (p\<lparr>ln_in := x\<rparr>) = update_event d p" "update_event d (p\<lparr>ln_out := x\<rparr>) = update_event d p"
  "update_event d (p\<lparr>ln_workspace := w\<rparr>) = update_event d p"
  "update_event d (p\<lparr>ln_reading := m\<rparr>) = update_event d p" "update_event d (p\<lparr>ln_generation := g\<rparr>) = update_event d p"
  "update_event d (p\<lparr>lc_sending := f\<rparr>) = update_event d p" "update_event d (p\<lparr>lc_ended := b\<rparr>) = update_event d p"
  by (simp_all add: update_event_def)

lemma record_upd_pad [simp]:
  "client_pad (p\<lparr>ln_in := x\<rparr>) = client_pad p" "client_pad (p\<lparr>ln_out := x\<rparr>) = client_pad p" "client_pad (p\<lparr>ln_events := e\<rparr>) = client_pad p"
  "client_pad (p\<lparr>ln_reading := m\<rparr>) = client_pad p" "client_pad (p\<lparr>ln_generation := g\<rparr>) = client_pad p" "client_pad (p\<lparr>lc_sending := f\<rparr>) = client_pad p"
  "client_pad (p\<lparr>lc_ended := b\<rparr>) = client_pad p" "client_pad (p\<lparr>ln_workspace := Some w\<rparr>) = w"
  "mine W (p\<lparr>ln_workspace := Some w\<rparr>) = doc_at w (si_pad W)"
  by (simp_all add: client_pad_def mine_def)

section \<open>The steps of a client\<close>

lemma told_inj [simp]: "told v = told u \<longleftrightarrow> v = u"
  by (cases v; cases u) (simp add: told_def)

lemma ok_receive:
  assumes "client_ok W A v own p" "fst v \<le> fst u" "value_ok W A u" "set out' \<subseteq> set (ln_out p)"
  shows "client_ok W A u own (p\<lparr>ln_in := ln_in p @ [told u], ln_out := out'\<rparr>)"
proof -
  have "client_wf W A u p" using assms(1,2) client_wf_mono [of W A v p A u] by (simp add: client_ok_def)
  then have "client_wf W A u (p\<lparr>ln_in := ln_in p @ [told u], ln_out := out'\<rparr>)"
    using assms(3,4) by (auto simp: client_wf_def)
  with assms(1) show ?thesis by (simp add: client_ok_def)
qed

lemma ok_take:
  assumes "client_ok W A v own p" "ln_reading p = None"
  shows "client_ok W A v own (readLoop_take p)"
proof (cases "ln_in p")
  case (Cons m rest)
  have wf: "client_wf W A v p" using assms(1) by (simp add: client_ok_def)
  then have "is_state W A (fst v) m" using Cons by (simp add: client_wf_def)
  then obtain u where u: "m = told u" "value_ok W A u" "fst u \<le> fst v"
    using that [of "(pm_Generation m, pm_Record m)"] by (simp add: is_state_def)
  have last: "rest = [] \<Longrightarrow> u = v" "rest \<noteq> [] \<Longrightarrow> last rest = told v" using assms(1) u Cons by (auto simp: client_ok_def split: if_splits)
  let ?p = "p\<lparr>ln_in := rest\<rparr>"
  have ws: "ln_workspace p \<noteq> None" "\<not> ln_closed p" using wf by (auto simp: client_wf_def)
  have e: "readLoop_take p = (if fst u < ln_generation p then ?p else ?p\<lparr>ln_generation := fst u, ln_reading := Some m\<rparr>)"
    using ws value_state [OF u(2)] u(1) by (auto simp: readLoop_take_def Cons Let_def told_def)
  have wf': "client_wf W A v ?p" "client_wf W A v (?p\<lparr>ln_generation := fst u, ln_reading := Some m\<rparr>)"
    using wf u Cons by (auto simp: client_wf_def)
  have "ln_generation p \<le> fst v" using wf by (simp add: client_wf_def)
  then have "fst u < ln_generation p \<Longrightarrow> rest \<noteq> []" using last(1) by auto
  with wf' last assms u(1) show ?thesis unfolding e by (auto simp: client_ok_def)
qed (use assms in \<open>simp add: readLoop_take_def\<close>)

text \<open>A published document arrives as a put that opens to it.\<close>

lemma publish_cases:
  assumes "carries (si_crypto W) A" "client_wf W A v p" "d \<in> A" "normal d" "do_Pad d = si_pad W" "NormalizePad (si_pad W) = si_pad W"
    and "publishDocument (si_crypto W) salt n d p = (r, p')"
  shows "(\<exists>e. r = Inl e \<and> p' = p) \<or> (\<exists>m. r = Inr () \<and> put_ok W A m \<and> p' = p\<lparr>ln_out := ln_out p @ [m]\<rparr>)"
proof (cases "SealPersistentDocument (nk_hkdf (si_crypto W)) (nk_seal (si_crypto W)) (nk_json (si_crypto W)) salt n (ln_code p) d")
  case (Inr R)
  have d: "d\<lparr>do_Pad := NormalizePad (do_Pad d)\<rparr> = d" using assms(5,6) by simp
  have p: "ln_pad p = si_pad W" "ln_code p = site_code W" "\<not> ln_closed p" using assms(2) by (simp_all add: client_wf_def)
  have v: "ValidateRecord R = Inr ()" "\<exists>c. ValidateCode (ln_code p) = Inr c"
    using Inr by (auto simp: SealPersistentDocument_def Let_def result_simps split: sum.splits)
  then obtain c where c: "ValidateCode (ln_code p) = Inr c" by blast
  have "opened W (site_code W) R = Inr d"
    using open_sealed_note [OF _ Inr refl c, where parse = "nk_parse (si_crypto W)" and unseal = "nk_unseal (si_crypto W)"] c d assms(1,3,5)
    by (simp add: opened_def carries_def p)
  then have "put_ok W A (zero_message\<lparr>pm_Type := ''put'', pm_Version := 1, pm_BaseGeneration := ln_generation p, pm_Record := Some R\<rparr>)"
    using assms(3) v(1) by (auto simp: put_ok_def opens_to_def ValidateClient_def zero_message_def)
  with assms(7) show ?thesis unfolding publishDocument_def d Let_def using p Inr assms(5) by auto
next
  case (Inl e)
  have d: "d\<lparr>do_Pad := NormalizePad (do_Pad d)\<rparr> = d" using assms(5,6) by simp
  show ?thesis using assms(2,5,7) Inl unfolding publishDocument_def d Let_def by (auto simp: client_wf_def)
qed

lemma wf_events:
  assumes "client_wf W A v p" "\<And>d. update_event d (p\<lparr>ln_events := e\<rparr>) \<Longrightarrow> d \<in> A"
  shows "client_wf W A v (p\<lparr>ln_events := e\<rparr>)"
  using assms by (simp add: client_wf_def)

lemma emit_open: "\<not> ln_closed p \<Longrightarrow> emit e p = p\<lparr>ln_events := ln_events p @ [e]\<rparr>"
  by (simp add: emit_def)

lemma update_event_append:
  "update_event d (p\<lparr>ln_events := ln_events p @ [e]\<rparr>) \<longleftrightarrow> update_event d p \<or> (\<exists>f. e = Inr f \<and> IsDocumentUpdate f \<and> Frame_Document f = d)"
  by (auto simp: update_event_def)

text \<open>After its current document was published, or the publication failed, a client owes nothing.\<close>

lemma ok_publish:
  assumes "carries (si_crypto W) A" "client_wf W A v p" "NormalizePad (si_pad W) = si_pad W" "\<forall>d\<in>set own. at_most d (mine W p)"
    and "client_pad p (si_pad W) = Some d" "ln_in p \<noteq> [] \<longrightarrow> last (ln_in p) = told v" "ln_reading p = None"
    and "ln_in p = [] \<longrightarrow> at_most (value_doc W v) (mine W p) \<or> update_event (value_doc W v) p"
  shows "client_ok W A v own (publish_or_emit (si_crypto W) salt n d p)"
proof -
  have d: "normal d" "do_Pad d = si_pad W" "d \<in> A" "\<not> ln_closed p" using assms(2,5) by (auto simp: client_wf_def)
  obtain r p' where r: "publishDocument (si_crypto W) salt n d p = (r, p')" by force
  from publish_cases [OF assms(1,2) d(3,1,2) assms(3) r] show ?thesis
  proof (elim disjE exE conjE)
    fix e
    assume e: "r = Inl e" "p' = p"
    then have q: "publish_or_emit (si_crypto W) salt n d p = p\<lparr>ln_events := ln_events p @ [Inl e]\<rparr>"
      by (simp add: publish_or_emit_def r emit_open d)
    have "client_wf W A v (p\<lparr>ln_events := ln_events p @ [Inl e]\<rparr>)"
      using assms(2) by (intro wf_events) (auto simp: update_event_append client_wf_def)
    then show ?thesis using assms(4,6-8) unfolding q client_ok_def by (auto simp: update_event_append)
  next
    fix m
    assume m: "r = Inr ()" "put_ok W A m" "p' = p\<lparr>ln_out := ln_out p @ [m]\<rparr>"
    then have q: "publish_or_emit (si_crypto W) salt n d p = p\<lparr>ln_out := ln_out p @ [m]\<rparr>" by (simp add: publish_or_emit_def r)
    have "client_wf W A v (p\<lparr>ln_out := ln_out p @ [m]\<rparr>)" using assms(2) m(2) by (auto simp: client_wf_def)
    then show ?thesis using assms(4,6-8) unfolding q client_ok_def by auto
  qed
qed

lemma mine_some: "client_pad p (si_pad W) = Some d \<Longrightarrow> mine W p = d"
  by (simp add: mine_def doc_at_def)

lemma mine_none: "client_pad p (si_pad W) = None \<Longrightarrow> mine W p = zero_document"
  by (simp add: mine_def doc_at_def)

lemma at_most_zero: "client_wf W A v p \<Longrightarrow> at_most zero_document (mine W p)"
  by (cases "client_pad p (si_pad W)") (auto simp: mine_some mine_none client_wf_def normal_def intro: at_most_total newer_zero)

lemma Snapshot_mine:
  assumes "client_wf W A v p" "NormalizePad (si_pad W) = si_pad W"
  shows "do_Revision (Snapshot (si_pad W) (client_pad p)) > 0 \<longleftrightarrow> client_pad p (si_pad W) \<noteq> None"
    "client_pad p (si_pad W) = Some d \<Longrightarrow> Snapshot (si_pad W) (client_pad p) = d"
    "newer d (Snapshot (si_pad W) (client_pad p)) \<longleftrightarrow> newer d (mine W p)" "newer (Snapshot (si_pad W) (client_pad p)) d \<longleftrightarrow> newer (mine W p) d"
  using assms
  by (auto simp: Snapshot_def Let_def mine_def doc_at_def newer_iff zero_document_def client_wf_def normal_def ValidateDocument_def
      result_simps word_neq_0_conv [symmetric] split: option.splits if_splits)

lemma ok_handle:
  assumes "carries (si_crypto W) A" "client_ok W A v own p" "NormalizePad (si_pad W) = si_pad W"
  shows "client_ok W A v own (readLoop_handle (si_crypto W) salt n p)"
proof (cases "ln_reading p")
  case (Some m)
  let ?p = "p\<lparr>ln_reading := None\<rparr>"
  have wf: "client_wf W A v p" and own: "\<forall>d\<in>set own. at_most d (mine W p)" using assms(2) by (simp_all add: client_ok_def)
  have wf': "client_wf W A v ?p" using wf by (simp add: client_wf_def)
  have p: "ln_pad p = si_pad W" "ln_code p = site_code W" "\<not> ln_closed p" "\<exists>ws. ln_workspace p = Some ws" using wf by (auto simp: client_wf_def)
  have cp: "ln_workspace p = Some (client_pad p)" using p(4) by (auto simp: client_pad_def)
  obtain u where u: "m = told u" "value_ok W A u"
    using wf Some by (auto simp: client_wf_def is_state_def intro: that [of "(pm_Generation m, pm_Record m)"])
  have last: "ln_in p = [] \<Longrightarrow> u = v" "ln_in p \<noteq> [] \<longrightarrow> last (ln_in p) = told v" using assms(2) Some u(1) by (simp_all add: client_ok_def)
  note snap = Snapshot_mine [OF wf assms(3)]
  have pub: "client_ok W A v own (publish_or_emit (si_crypto W) salt n (Snapshot (si_pad W) (client_pad p)) ?p)"
    if "client_pad p (si_pad W) \<noteq> None" "at_most (value_doc W u) (mine W p)"
    using that last snap(2) by (intro ok_publish [OF assms(1) wf' assms(3)]) (auto simp: own)
  show ?thesis
  proof (cases "snd u")
    case None
    then have z: "value_doc W u = zero_document" by (cases u) simp
    have e: "readLoop_handle (si_crypto W) salt n p =
        (if client_pad p (si_pad W) \<noteq> None then publish_or_emit (si_crypto W) salt n (Snapshot (si_pad W) (client_pad p)) ?p else ?p)"
      using Some u(1) None by (simp add: readLoop_handle_def cp told_def Let_def p(1) snap(1))
    have "client_ok W A v own ?p" if "client_pad p (si_pad W) = None"
    proof -
      have "mine W p = zero_document" using that by (simp add: mine_def doc_at_def)
      with own last z wf' show ?thesis by (auto simp: client_ok_def)
    qed
    then show ?thesis unfolding e using pub at_most_zero [OF wf] by (simp add: z)
  next
    case r: (Some r)
    then obtain d where d: "d \<in> A" "opened W (site_code W) r = Inr d" using u(2) by (auto simp: value_ok_def opens_to_def)
    then have z: "value_doc W u = d" using r by (cases u) simp
    have n: "do_Pad d = si_pad W" "NormalizePad (do_Pad d) = do_Pad d" using opened_normal [OF d(2)] assms(3) by simp_all
    define f where "f = FrameFromDocument (frameTypeForDocument d) d"
    define a where "a = \<lparr>fr_Type = ''ack'', fr_Version = ProtocolVersion, fr_Pad = si_pad W, fr_Revision = do_Revision d,
        fr_Timestamp = do_Timestamp d, fr_Text = ''''\<rparr>"
    have f: "IsDocumentUpdate f" "Frame_Document f = d" "\<not> IsDocumentUpdate a"
      using n(2) by (simp_all add: f_def a_def IsDocumentUpdate_def FrameFromDocument_def frameTypeForDocument_def Frame_Document_def)
    have o: "OpenPersistentDocument (nk_hkdf (si_crypto W)) (nk_unseal (si_crypto W)) (nk_parse (si_crypto W)) (ln_code p) (ln_pad p) r = Inr d"
      using d(2) p by (simp add: opened_def)
    have e: "readLoop_handle (si_crypto W) salt n p =
        (if newer d (mine W p) then ?p\<lparr>ln_events := ln_events p @ [Inr f]\<rparr>
         else if newer (mine W p) d then publish_or_emit (si_crypto W) salt n (Snapshot (si_pad W) (client_pad p)) ?p
         else ?p\<lparr>ln_events := ln_events p @ [Inr a]\<rparr>)"
      using Some u(1) r o p(3)
      by (simp add: readLoop_handle_def cp told_def Let_def compare_cases snap p(1) f_def [symmetric] a_def [symmetric] emit_open)
    have ev: "update_event x (?p\<lparr>ln_events := ln_events p @ [g]\<rparr>) \<longleftrightarrow> update_event x p \<or> (\<exists>f. g = Inr f \<and> IsDocumentUpdate f \<and> Frame_Document f = x)" for x g
      by (auto simp: update_event_def)
    have wfe: "client_wf W A v (?p\<lparr>ln_events := ln_events p @ [Inr f]\<rparr>)" "client_wf W A v (?p\<lparr>ln_events := ln_events p @ [Inr a]\<rparr>)"
      using wf d(1) f by (auto intro!: wf_events [OF wf'] simp: ev client_wf_def)
    consider (up) "newer d (mine W p)" | (down) "newer (mine W p) d" "\<not> newer d (mine W p)" | (same) "\<not> newer d (mine W p)" "\<not> newer (mine W p) d" by blast
    then show ?thesis
    proof cases
      case up
      then have "\<forall>x\<in>set own. at_most x d" using own by (auto intro: at_most_trans at_most_total)
      then show ?thesis unfolding e using up wfe(1) own last z f by (auto simp: client_ok_def ev)
    next
      case down
      have "client_pad p (si_pad W) \<noteq> None"
      proof
        assume "client_pad p (si_pad W) = None"
        then have "newer zero_document d" using down(1) by (simp add: mine_def doc_at_def)
        then show False using opened_normal [OF d(2)] newer_zero [of d] newer_trans [of d zero_document d] by (auto simp: normal_def)
      qed
      with pub down show ?thesis unfolding e by (simp add: z at_most_total)
    next
      case same
      then have "\<forall>x\<in>set own. at_most x d" using own at_most_trans unfolding at_most_def by blast
      with same show ?thesis unfolding e using wfe(2) own last z f by (auto simp: client_ok_def ev at_most_def)
    qed
  qed
qed (use assms(2) in \<open>simp add: readLoop_handle_def\<close>)

lemma Update_newer:
  assumes "Update pad txt now w = (Inr d, w')" "ValidateDocument d = Inr ()"
  shows "newer d (doc_at w (do_Pad d))" "normal d"
proof -
  note u = Update_run [OF assms(1)]
  have "do_Revision d \<noteq> 0" using assms(2) by (auto simp: ValidateDocument_def result_simps split: if_splits)
  then have "do_Revision (doc_at w (do_Pad d)) < do_Revision d" using u(4) revision_step by simp
  then show "newer d (doc_at w (do_Pad d))" by (simp add: newer_iff)
  show "normal d" using u(5) assms(2) by (simp add: normal_def)
qed

text \<open>A line becomes a document of the client, which it is about to send.\<close>

lemma ok_entered:
  assumes "client_ok W A v own p" "NormalizePad (si_pad W) = si_pad W" "t \<in> {''update'', ''clear''}"
    and "Update (ln_pad p) txt now (client_pad p) = (Inr d, ws)" "ValidateDocument d = Inr ()"
  shows "client_ok W (insert d A) v (own @ [d]) (p\<lparr>ln_workspace := Some ws, lc_sending := Some (FrameFromDocument t d)\<rparr>)"
proof -
  let ?q = "p\<lparr>ln_workspace := Some ws, lc_sending := Some (FrameFromDocument t d)\<rparr>"
  have wf: "client_wf W (insert d A) v p" using assms(1) client_wf_mono [of W A v p "insert d A" v] by (auto simp: client_ok_def)
  note u = Update_run [OF assms(4)] Update_newer [OF assms(4,5)]
  have pad: "do_Pad d = si_pad W" using wf u(2) assms(2) by (simp add: client_wf_def)
  have m: "doc_at ws (si_pad W) = d" "newer d (mine W p)" using u(1,6) pad by (simp_all add: mine_def doc_at_def client_pad_def)
  have "client_wf W (insert d A) v ?q"
    using wf u(1,7) pad assms(3) by (auto simp: client_wf_def sent_frame_def client_pad_def)
  moreover have "\<forall>x\<in>set own. at_most x d" using assms(1) m(2) by (auto simp: client_ok_def intro: at_most_trans at_most_total)
  moreover have "at_most x (mine W p) \<Longrightarrow> at_most x d" for x using m(2) at_most_total at_most_trans by blast
  ultimately show ?thesis using assms(1) unfolding client_ok_def by (auto simp: m(1) split: option.splits)
qed

lemma ok_line:
  assumes "client_ok W A v own p" "NormalizePad (si_pad W) = si_pad W" "lc_sending p = None" "\<not> lc_ended (client_line line now p)"
  shows "lc_sending (client_line line now p) = None \<and> client_line line now p = p
    \<or> (\<exists>f. lc_sending (client_line line now p) = Some f
        \<and> (ValidateDocument (Frame_Document f) = Inr () \<longrightarrow>
             client_ok W (insert (Frame_Document f) A) v (own @ [Frame_Document f]) (client_line line now p)))"
proof -
  have enter: ?thesis if e: "client_line line now p = enter_document (Update (ln_pad p) body now) t p" and t: "t \<in> {''update'', ''clear''}" for body t
  proof (cases "Update (ln_pad p) body now (client_pad p)")
    case (Pair r ws)
    have "\<exists>d. r = Inr d" using assms(4) unfolding e by (cases r) (simp_all add: enter_document_def Pair)
    then obtain d where d: "r = Inr d" by blast
    then have u: "Update (ln_pad p) body now (client_pad p) = (Inr d, ws)" using Pair by simp
    have f: "Frame_Document (FrameFromDocument t d) = d" using Update_run(5) [OF u] by (simp add: Frame_Document_def FrameFromDocument_def)
    show ?thesis
      unfolding e using ok_entered [OF assms(1,2) t u] f by (simp add: enter_document_def u)
  qed
  show ?thesis
    using assms(3,4) enter [of "''''" "''clear''"] enter [of line "''update''"] by (auto simp: client_line_def Clear_def split: if_splits)
qed

lemma ok_deliver:
  assumes "carries (si_crypto W) A" "client_ok W A v own p" "NormalizePad (si_pad W) = si_pad W" "\<not> lc_ended (client_send (si_crypto W) salt n p)"
  shows "client_ok W A v own (client_send (si_crypto W) salt n p)"
proof (cases "lc_sending p")
  case (Some f)
  have wf: "client_wf W A v p" using assms(2) by (simp add: client_ok_def)
  then have "sent_frame W A f" using Some by (simp add: client_wf_def)
  then obtain d t where d: "d \<in> A" "normal d" "do_Pad d = si_pad W" "t \<in> {''update'', ''clear''}" "f = FrameFromDocument t d"
    unfolding sent_frame_def by blast
  let ?p = "p\<lparr>lc_sending := None\<rparr>"
  have wf': "client_wf W A v ?p" using wf by (simp add: client_wf_def)
  have nonempty: "do_Pad d \<noteq> ''''" using d(2) by (auto simp: normal_def ValidateDocument_def ValidatePad_def)
  have doc: "Frame_Document f = d" using d(2,5) by (simp add: Frame_Document_def FrameFromDocument_def normal_def)
  have v: "ValidateFrame f = Inr ()" "IsDocumentUpdate f" "f\<lparr>fr_Version := ProtocolVersion\<rparr> = f" "fr_Pad f \<noteq> ''''"
    using d doc nonempty by (auto simp: ValidateFrame_def normal_def FrameFromDocument_def IsDocumentUpdate_def)
  have s: "persistent_Send (si_crypto W) salt n f ?p = publishDocument (si_crypto W) salt n d ?p"
    using v doc by (simp add: persistent_Send_def Let_def)
  obtain r q where r: "publishDocument (si_crypto W) salt n d ?p = (r, q)" by force
  from publish_cases [OF assms(1) wf' d(1-3) assms(3) r] assms(4)
  obtain m where m: "r = Inr ()" "put_ok W A m" "q = ?p\<lparr>ln_out := ln_out p @ [m]\<rparr>"
    by (auto simp: client_send_def Some s r)
  then have e: "client_send (si_crypto W) salt n p = ?p\<lparr>ln_out := ln_out p @ [m]\<rparr>" by (simp add: client_send_def Some s r)
  have "client_wf W A v (?p\<lparr>ln_out := ln_out p @ [m]\<rparr>)" using wf m(2) by (auto simp: client_wf_def)
  then show ?thesis unfolding e using assms(2) by (auto simp: client_ok_def split: option.splits)
qed (use assms(2) in \<open>simp add: client_send_def\<close>)

text \<open>An event at the loop: the workspace holds the newer of the two documents afterwards.\<close>

lemma ApplyRemote_at:
  assumes "ApplyRemote d w = (Inr r, w')" "NormalizePad (do_Pad d) = do_Pad d"
  shows "normal d" "w' pad = w pad \<or> w' pad = Some d \<and> do_Pad d = pad" "at_most (doc_at w pad) (doc_at w' pad)"
    "do_Pad d = pad \<Longrightarrow> at_most d (doc_at w' pad)"
proof -
  have d: "d\<lparr>do_Pad := NormalizePad (do_Pad d)\<rparr> = d" "ValidateDocument d = Inr ()"
    using assms by (auto simp: ApplyRemote_def Let_def split: sum.splits)
  then show "normal d" using assms(2) by (simp add: normal_def)
  have w: "w' = (if newer d (doc_at w (do_Pad d)) then w(do_Pad d \<mapsto> d) else w)"
    using assms(1) d by (auto simp: ApplyRemote_def Let_def newer_def split: if_splits)
  show "w' pad = w pad \<or> w' pad = Some d \<and> do_Pad d = pad" "at_most (doc_at w pad) (doc_at w' pad)"
    "do_Pad d = pad \<Longrightarrow> at_most d (doc_at w' pad)"
    using at_most_total [of d "doc_at w (do_Pad d)"] unfolding w by (auto simp: at_most_def doc_at_def split: if_splits)
qed

lemma ok_apply:
  assumes "client_ok W A v own p" "NormalizePad (si_pad W) = si_pad W" "\<not> lc_ended (client_event p)" "value_ok W A v"
  shows "client_ok W A v own (client_event p)"
proof (cases "ln_events p")
  case (Cons e rest)
  have wf: "client_wf W A v p" using assms(1) by (simp add: client_ok_def)
  obtain f where f: "e = Inr f" using assms(3) Cons by (cases e) (auto simp: client_event_def)
  let ?p = "p\<lparr>ln_events := rest\<rparr>"
  have evs: "update_event d p \<longleftrightarrow> IsDocumentUpdate f \<and> Frame_Document f = d \<or> update_event d ?p" for d
    using Cons f by (auto simp: update_event_def)
  have errs: "Inl x \<in> set (ln_events p) \<longleftrightarrow> Inl x \<in> set rest" for x using Cons f by auto
  have wf': "client_wf W A v ?p" using wf evs by (simp add: client_wf_def)
  show ?thesis
  proof (cases "IsDocumentUpdate f")
    case False
    then have "client_event p = ?p\<lparr>lc_ended := False\<rparr>"
      using assms(3) Cons f by (auto simp: client_event_def IsDocumentUpdate_def Let_def split: if_splits)
    moreover have "client_wf W A v (?p\<lparr>lc_ended := False\<rparr>)" using wf' by (simp add: client_wf_def)
    ultimately show ?thesis using assms(1) False by (auto simp: client_ok_def evs errs split: option.splits)
  next
    case True
    let ?d = "Frame_Document f"
    have n: "NormalizePad (do_Pad ?d) = do_Pad ?d" by (simp add: Frame_Document_def)
    obtain a ws where a: "ApplyRemote ?d (client_pad p) = (Inr a, ws)" and e: "client_event p = ?p\<lparr>ln_workspace := Some ws, lc_ended := False\<rparr>"
      using assms(3) Cons f True by (auto simp: client_event_def IsDocumentUpdate_def Let_def split: if_splits sum.splits prod.splits)
    note ar = ApplyRemote_at [OF a n]
    have dA: "?d \<in> A" using wf evs True by (auto simp: client_wf_def)
    have up: "at_most x (mine W p) \<Longrightarrow> at_most x (doc_at ws (si_pad W))" for x
      using ar(3) [of "si_pad W"] at_most_trans unfolding mine_def by blast
    have "value_doc W v = ?d \<Longrightarrow> at_most ?d (doc_at ws (si_pad W))"
    proof -
      assume eq: "value_doc W v = ?d"
      show ?thesis
      proof (cases "snd v")
        case None
        then have "?d = zero_document" using eq by (cases v) simp
        then show ?thesis using ar(1) by (auto simp: normal_def zero_document_def ValidateDocument_def ValidatePad_def)
      next
        case (Some r)
        then obtain d where "opened W (site_code W) r = Inr d" using assms(4) by (auto simp: value_ok_def opens_to_def)
        then have "do_Pad ?d = si_pad W" using eq Some opened_normal [of W "site_code W" r d] assms(2) by (cases v) simp
        then show ?thesis by (rule ar(4))
      qed
    qed
    moreover have "client_wf W A v (?p\<lparr>ln_workspace := Some ws, lc_ended := False\<rparr>)"
      using wf' ar(1) ar(2) [of "si_pad W"] dA by (auto simp: client_wf_def)
    ultimately show ?thesis unfolding e using assms(1) True up by (auto simp: client_ok_def evs errs split: option.splits)
  qed
qed (use assms(1) in \<open>simp add: client_event_def\<close>)

text \<open>A new client.\<close>

lemma linked_fields [simp]:
  "ln_in (linked p) = ln_in p" "ln_out (linked p) = ln_out p" "ln_events (linked p) = ln_events p"
  "ln_reading (linked p) = ln_reading p" "lc_sending (linked p) = None" "ln_pad (linked p) = ln_pad p" "ln_code (linked p) = ln_code p"
  "ln_closed (linked p) = ln_closed p" "ln_workspace (linked p) = ln_workspace p" "ln_generation (linked p) = ln_generation p"
  by (simp_all add: linked_def PersistentSession.defs note_client.defs)

lemma publish_extend: "publishDocument k salt n d (linked p) = map_prod id linked (publishDocument k salt n d p)"
  by (cases p) (simp add: publishDocument_def Let_def linked_def PersistentSession.defs note_client.defs split: sum.split)

lemma linked_started: "linked (p\<lparr>ln_started := b\<rparr>) = (linked p)\<lparr>ln_started := b\<rparr>"
  by (cases p) (simp add: linked_def PersistentSession.defs note_client.defs)

lemma ok_started: "client_ok W A v own (p\<lparr>ln_started := b\<rparr>) = client_ok W A v own p"
  by (simp add: client_ok_def client_wf_def mine_def client_pad_def update_event_def split: option.split)

text \<open>The end of the first synchronisation: the document of the workspace is published if it is newer.\<close>

lemma ok_synced:
  assumes "carries (si_crypto W) A" "NormalizePad (si_pad W) = si_pad W" "client_wf W A v (linked p)"
    and "ln_in p = []" "ln_reading p = None" "ln_out p = []" "ln_events p = []"
    and "\<forall>d\<in>set own. at_most d (mine W (linked p))" "at_most (value_doc W v) (mine W (linked p))"
    and "snd v = None \<or> remote = value_doc W v"
    and "(let current = Snapshot (ln_pad p) (client_pad (linked p)) in
       if do_Revision current > 0 \<and> (snd v = None \<or> compareDocuments current remote > 0)
       then (case publishDocument (si_crypto W) salt n current p of
               (Inl e, p) \<Rightarrow> (Inl e, p) | (Inr _, p) \<Rightarrow> (Inr applied, p\<lparr>ln_started := True\<rparr>))
       else (Inr applied, p\<lparr>ln_started := True\<rparr>)) = (Inr a, q)"
  shows "client_ok W A v own (linked q)"
proof -
  let ?x = "linked p"
  note snap = Snapshot_mine [OF assms(3,2)]
  have pad: "ln_pad p = si_pad W" using assms(3) by (simp add: client_wf_def)
  have cmp: "0 < compareDocuments (Snapshot (ln_pad p) (client_pad ?x)) remote \<longleftrightarrow> newer (mine W ?x) remote"
    using snap(4) [of remote] by (simp add: newer_def pad)
  show ?thesis
  proof (cases "client_pad ?x (si_pad W) \<noteq> None \<and> (snd v = None \<or> newer (mine W ?x) remote)")
    case True
    then obtain d where d: "client_pad ?x (si_pad W) = Some d" by blast
    have n: "normal d" "do_Pad d = si_pad W" "d \<in> A" using assms(3) d by (auto simp: client_wf_def)
    obtain r p' where r: "publishDocument (si_crypto W) salt n d p = (r, p')" by force
    have q: "r = Inr ()" "q = p'\<lparr>ln_started := True\<rparr>"
      using assms(11) True snap(1) snap(2) [OF d] cmp r pad by (auto simp: Let_def split: sum.splits)
    have "publishDocument (si_crypto W) salt n d ?x = (r, linked p')" by (simp add: publish_extend r)
    from publish_cases [OF assms(1,3) n(3,1,2) assms(2) this] q obtain m where m: "put_ok W A m" "linked p' = ?x\<lparr>ln_out := ln_out p @ [m]\<rparr>" by auto
    have "client_wf W A v (?x\<lparr>ln_out := ln_out p @ [m]\<rparr>)" using assms(3,6) m(1) by (auto simp: client_wf_def)
    then show ?thesis
      unfolding q(2) linked_started ok_started m(2) using assms(4-9) by (simp add: client_ok_def)
  next
    case False
    then have q: "q = p\<lparr>ln_started := True\<rparr>"
      using assms(11) snap(1) cmp pad by (auto simp: Let_def split: if_splits)
    have "at_most (mine W ?x) (value_doc W v)"
    proof (cases "client_pad ?x (si_pad W)")
      case None
      then show ?thesis by (simp add: mine_none zero_at_most_value)
    next
      case (Some d)
      then show ?thesis using False assms(10) by (auto simp: at_most_def)
    qed
    then have "\<forall>d\<in>set own. at_most d (value_doc W v)" using assms(8) at_most_trans by blast
    then show ?thesis
      unfolding q linked_started ok_started using assms(3-9) by (simp add: client_ok_def)
  qed
qed

lemma ok_connected:
  assumes "carries (si_crypto W) A" "NormalizePad (si_pad W) = si_pad W" "value_ok W A v"
    and "OpenPersistentSession (si_code W) (si_pad W) [told v] = Inr p"
    and "persistent_SyncWorkspace (si_crypto W) salt n ws (si_pad W) p = (Inr a, q)"
    and "\<forall>d\<in>set (pad_docs W ws). do_Pad d = si_pad W \<and> ValidateDocument d = Inr () \<and> d \<in> A"
  shows "client_ok W A v (pad_docs W ws @ record_docs W (snd v)) (linked q)"
proof -
  have p: "ln_pad p = si_pad W" "ln_code p = site_code W" "ln_initial p = told v" "ln_events p = []" "ln_generation p = fst v"
      "ln_reading p = None" "\<not> ln_closed p" "ln_in p = []" "ln_out p = []"
    using assms(2,4) by (auto simp: OpenPersistentSession_def site_code_def Let_def told_def split: sum.splits)
  define s where "s = (\<lambda>w. p\<lparr>ln_initial := zero_message, ln_workspace := Some w\<rparr>)"
  have brought: "do_Pad d = si_pad W \<and> normal d \<and> d \<in> A" if "ws (si_pad W) = Some d" for d
    using assms(2,6) that by (simp add: pad_docs_def normal_def)
  have wf: "client_wf W A v (linked (s w))" if "\<forall>d. w (si_pad W) = Some d \<longrightarrow> normal d \<and> do_Pad d = si_pad W \<and> d \<in> A" for w
    using that p by (simp add: client_wf_def s_def update_event_def client_pad_def)
  have m: "mine W (linked (s w)) = doc_at w (si_pad W)" "client_pad (linked (s w)) = w" for w by (simp_all add: mine_def client_pad_def s_def)
  have fields: "ln_in (s w) = []" "ln_reading (s w) = None" "ln_out (s w) = []" "ln_events (s w) = []" "ln_pad (s w) = si_pad W" for w
    using p by (simp_all add: s_def)
  have synced: "client_ok W A v own (linked q)"
    if "\<forall>d. w (si_pad W) = Some d \<longrightarrow> normal d \<and> do_Pad d = si_pad W \<and> d \<in> A" "\<forall>d\<in>set own. at_most d (doc_at w (si_pad W))"
      "at_most (value_doc W v) (doc_at w (si_pad W))" "snd v = None \<or> remote = value_doc W v"
      "(let current = Snapshot (si_pad W) w in
         if do_Revision current > 0 \<and> (snd v = None \<or> compareDocuments current remote > 0)
         then (case publishDocument (si_crypto W) salt n current (s w) of
                 (Inl e, p) \<Rightarrow> (Inl e, p) | (Inr _, p) \<Rightarrow> (Inr applied, p\<lparr>ln_started := True\<rparr>))
         else (Inr applied, (s w)\<lparr>ln_started := True\<rparr>)) = (Inr a, q)" for w own remote applied
    by (rule ok_synced [OF assms(1,2) wf [of w, OF that(1)], where remote = remote and applied = applied and salt = salt and n = n and a = a])
      (use that in \<open>simp_all add: m fields\<close>)
  have own: "\<forall>d\<in>set (pad_docs W ws). at_most d (doc_at ws (si_pad W))" by (simp add: pad_docs_def doc_at_def split: option.split)
  have pub: "snd v = None \<Longrightarrow> value_doc W v = zero_document" by (cases v) simp
  show ?thesis
  proof (cases "snd v")
    case None
    have "at_most zero_document (doc_at ws (si_pad W))"
      using brought by (auto simp: doc_at_def normal_def intro: at_most_total newer_zero split: option.split)
    then show ?thesis
      using brought own None assms(5) p
      by (intro synced [of ws _ zero_document "[]"]) (auto simp: pub record_docs_def persistent_SyncWorkspace_def assms(2) s_def told_def Let_def)
  next
    case (Some r)
    then obtain d where d: "opened W (site_code W) r = Inr d" "d \<in> A" using assms(3) by (auto simp: value_ok_def opens_to_def)
    then have z: "value_doc W v = d" "record_docs W (snd v) = [d]" using Some by (cases v, simp, simp add: record_docs_def)
    have nd: "normal d" "do_Pad d = si_pad W" "NormalizePad (do_Pad d) = do_Pad d" using opened_normal [OF d(1)] assms(2) by (simp_all add: normal_def)
    have "\<exists>c cur w. ApplyRemote d ws = (Inr (c, cur), w)"
      using nd(1) by (cases "compareDocuments d (doc_at ws (do_Pad d)) \<le> 0") (auto simp: ApplyRemote_def Let_def normal_def)
    then obtain c cur w where ap: "ApplyRemote d ws = (Inr (c, cur), w)" by blast
    note ar = ApplyRemote_at [OF ap nd(3)]
    have "\<forall>x. w (si_pad W) = Some x \<longrightarrow> normal x \<and> do_Pad x = si_pad W \<and> x \<in> A"
      using ar(2) [of "si_pad W"] brought nd d(2) by auto
    moreover have "\<forall>x\<in>set (pad_docs W ws @ record_docs W (snd v)). at_most x (doc_at w (si_pad W))"
      using own ar(3) [of "si_pad W"] ar(4) [OF nd(2)] at_most_trans by (auto simp: z)
    ultimately have sync: "client_ok W A v (pad_docs W ws @ record_docs W (snd v)) (linked q)"
      if "(let current = Snapshot (si_pad W) w in
         if do_Revision current > 0 \<and> (snd v = None \<or> compareDocuments current d > 0)
         then (case publishDocument (si_crypto W) salt n current (s w) of
                 (Inl e, p) \<Rightarrow> (Inl e, p) | (Inr _, p) \<Rightarrow> (Inr applied, p\<lparr>ln_started := True\<rparr>))
         else (Inr applied, (s w)\<lparr>ln_started := True\<rparr>)) = (Inr a, q)" for applied
      using that ar(4) [OF nd(2)] by (intro synced [of w _ d applied]) (simp_all add: z)
    show ?thesis
      using assms(5) Some p d(1) ap
      by (cases c; intro sync [of "if c then [cur] else []"]) (auto simp: persistent_SyncWorkspace_def assms(2) s_def told_def Let_def opened_def split: prod.splits sum.splits if_splits)
  qed
qed

section \<open>The service and its clients\<close>

definition net_inv :: "note_site \<Rightarrow> note_net \<Rightarrow> bool" where
  "net_inv W N \<longleftrightarrow> NormalizePad (si_pad W) = si_pad W \<and> distinct (nn_members N)
     \<and> (nn_members N = [] \<longrightarrow> site_start W (nn_service N))
     \<and> (nn_members N \<noteq> [] \<longrightarrow> (\<exists>h. (\<forall>c\<in>set (nn_members N). nn_hub N c = h)
          \<and> map_of (ps_notes (nn_service N)) (si_key W) = Some h \<and> ph_key (ps_hub (nn_service N) h) = si_key W
          \<and> ph_clients (ps_hub (nn_service N) h) = nn_members N \<and> value_ok W (set (all_docs N)) (hub_value (ps_hub (nn_service N) h))
          \<and> (\<forall>c\<in>set (nn_members N). client_ok W (set (all_docs N)) (hub_value (ps_hub (nn_service N) h)) (nn_made N c) (nn_client N c))))"

lemma net_invE:
  assumes "net_inv W N" "c \<in> set (nn_members N)"
  obtains v where "NormalizePad (si_pad W) = si_pad W" "distinct (nn_members N)" "v = hub_value (ps_hub (nn_service N) (nn_hub N c))"
    "map_of (ps_notes (nn_service N)) (si_key W) = Some (nn_hub N c)" "ph_key (ps_hub (nn_service N) (nn_hub N c)) = si_key W"
    "ph_clients (ps_hub (nn_service N) (nn_hub N c)) = nn_members N" "\<And>q. q \<in> set (nn_members N) \<Longrightarrow> nn_hub N q = nn_hub N c"
    "value_ok W (set (all_docs N)) v" "\<And>q. q \<in> set (nn_members N) \<Longrightarrow> client_ok W (set (all_docs N)) v (nn_made N q) (nn_client N q)"
  using assms unfolding net_inv_def by (metis empty_iff list.set(1))

lemma net_invI:
  assumes "NormalizePad (si_pad W) = si_pad W" "distinct (nn_members N)" "c \<in> set (nn_members N)"
    "map_of (ps_notes (nn_service N)) (si_key W) = Some h" "ph_key (ps_hub (nn_service N) h) = si_key W"
    "ph_clients (ps_hub (nn_service N) h) = nn_members N" "\<And>q. q \<in> set (nn_members N) \<Longrightarrow> nn_hub N q = h"
    "value_ok W (set (all_docs N)) (hub_value (ps_hub (nn_service N) h))"
    "\<And>q. q \<in> set (nn_members N) \<Longrightarrow> client_ok W (set (all_docs N)) (hub_value (ps_hub (nn_service N) h)) (nn_made N q) (nn_client N q)"
  shows "net_inv W N"
  unfolding net_inv_def using assms by auto

lemma value_ok_mono: "value_ok W A v \<Longrightarrow> A \<subseteq> B \<Longrightarrow> value_ok W B v"
  unfolding value_ok_def opens_to_def by (auto split: option.splits)

text \<open>A step of one client that makes no document, or one that it keeps.\<close>

lemma inv_client:
  assumes "net_inv W N" "c \<in> set (nn_members N)" "v = hub_value (ps_hub (nn_service N) (nn_hub N c))"
    and "client_ok W (set (all_docs N) \<union> set ds) v (nn_made N c @ ds) p"
  shows "net_inv W (N\<lparr>nn_client := (nn_client N)(c := p), nn_made := (nn_made N)(c := nn_made N c @ ds)\<rparr>)"
proof -
  let ?N = "N\<lparr>nn_client := (nn_client N)(c := p), nn_made := (nn_made N)(c := nn_made N c @ ds)\<rparr>"
  from net_invE [OF assms(1,2)] obtain w where i: "NormalizePad (si_pad W) = si_pad W" "distinct (nn_members N)" "w = hub_value (ps_hub (nn_service N) (nn_hub N c))"
    "map_of (ps_notes (nn_service N)) (si_key W) = Some (nn_hub N c)" "ph_key (ps_hub (nn_service N) (nn_hub N c)) = si_key W"
    "ph_clients (ps_hub (nn_service N) (nn_hub N c)) = nn_members N" "\<And>q. q \<in> set (nn_members N) \<Longrightarrow> nn_hub N q = nn_hub N c"
    "value_ok W (set (all_docs N)) w" "\<And>q. q \<in> set (nn_members N) \<Longrightarrow> client_ok W (set (all_docs N)) w (nn_made N q) (nn_client N q)" by metis
  have A: "set (all_docs ?N) = set (all_docs N) \<union> set ds" using assms(2) by (auto simp: all_docs_def split: if_splits)
  show ?thesis
  proof (rule net_invI [where c = c and h = "nn_hub N c"])
    show "value_ok W (set (all_docs ?N)) (hub_value (ps_hub (nn_service ?N) (nn_hub N c)))"
      using value_ok_mono [OF i(8)] i(3) unfolding A by simp
    show "client_ok W (set (all_docs ?N)) (hub_value (ps_hub (nn_service ?N) (nn_hub N c))) (nn_made ?N q) (nn_client ?N q)"
      if "q \<in> set (nn_members ?N)" for q
      using that assms(3,4) i(3) client_ok_mono [OF i(9)] unfolding A by auto
    show "nn_hub ?N q = nn_hub N c" if "q \<in> set (nn_members ?N)" for q using i(7) [of q] that by simp
  qed (use i(1,2,4-6) assms(2) in simp_all)
qed

lemma inv_client_only:
  assumes "net_inv W N" "c \<in> set (nn_members N)"
    and "\<And>v. client_ok W (set (all_docs N)) v (nn_made N c) (nn_client N c) \<Longrightarrow> value_ok W (set (all_docs N)) v \<Longrightarrow> client_ok W (set (all_docs N)) v (nn_made N c) p"
  shows "net_inv W (N\<lparr>nn_client := (nn_client N)(c := p)\<rparr>)"
proof -
  from net_invE [OF assms(1,2)] obtain v where v: "v = hub_value (ps_hub (nn_service N) (nn_hub N c))" "value_ok W (set (all_docs N)) v"
    "client_ok W (set (all_docs N)) v (nn_made N c) (nn_client N c)" using assms(2) by metis
  from inv_client [OF assms(1,2) v(1), of "[]" p] assms(3) [OF v(3,2)] show ?thesis by simp
qed

lemma on_client_some:
  "on_client c f N = Some N' \<longleftrightarrow> c \<in> set (nn_members N) \<and> \<not> lc_ended (f (nn_client N c)) \<and> N' = N\<lparr>nn_client := (nn_client N)(c := f (nn_client N c))\<rparr>"
  by (auto simp: on_client_def Let_def)

lemma all_docs_client [simp]: "all_docs (N\<lparr>nn_client := x\<rparr>) = all_docs N" "all_docs (N\<lparr>nn_service := s\<rparr>) = all_docs N"
  by (simp_all add: all_docs_def)

lemma inv_enter:
  assumes "net_inv W N" "net_step W (Enter c line now) N = Some N'"
  shows "net_inv W N'"
proof -
  let ?p = "client_line line now (nn_client N c)"
  have s: "lc_sending (nn_client N c) = None" "c \<in> set (nn_members N)" "\<not> lc_ended ?p"
    using assms(2) by (auto simp: net_step_def on_client_some split: if_splits option.splits)
  from net_invE [OF assms(1) s(2)] obtain v where v: "v = hub_value (ps_hub (nn_service N) (nn_hub N c))" "NormalizePad (si_pad W) = si_pad W"
    "client_ok W (set (all_docs N)) v (nn_made N c) (nn_client N c)" using s(2) by metis
  from ok_line [OF v(3,2) s(1,3)] show ?thesis
  proof (elim disjE exE conjE)
    assume "lc_sending ?p = None" "?p = nn_client N c"
    then have "N' = N" using assms(2) s by (auto simp: net_step_def on_client_some split: option.splits)
    then show ?thesis using assms(1) by simp
  next
    fix f
    assume f: "lc_sending ?p = Some f" "ValidateDocument (Frame_Document f) = Inr () \<longrightarrow>
       client_ok W (insert (Frame_Document f) (set (all_docs N))) v (nn_made N c @ [Frame_Document f]) ?p"
    then have "ValidateDocument (Frame_Document f) = Inr ()"
      "N' = N\<lparr>nn_client := (nn_client N)(c := ?p), nn_made := (nn_made N)(c := nn_made N c @ [Frame_Document f])\<rparr>"
      using assms(2) s by (auto simp: net_step_def on_client_def Let_def split: if_splits)
    then show ?thesis using inv_client [OF assms(1) s(2) v(1), of "[Frame_Document f]" ?p] f(2) by simp
  qed
qed

text \<open>Joining: the note is in memory, or it is loaded or begun.\<close>

lemma load_values:
  "loadPersistentNote cfg key now disk = (Inr loaded, disk') \<Longrightarrow>
    case loaded of
      None \<Rightarrow> True
    | Some hub \<Rightarrow> ph_key hub = key \<and> ph_clients hub = [] \<and> (\<exists>d. disk (persistentNotePath cfg key) = Some (Stored d) \<and> ph_record hub = Some (pd_Record d))"
  by (auto simp: loadPersistentNote_def Let_def split: if_splits option.splits note_file.splits sum.splits)

lemma join_effect:
  assumes "serve_note cfg now (NoteJoin key c) s = (NoteJoined h m, s')"
  shows "map_of (ps_notes s') key = Some h" "m = told (hub_value (ps_hub s' h))"
    "map_of (ps_notes s) key = Some h' \<Longrightarrow> h = h' \<and> ps_hub s' h = (ps_hub s h)\<lparr>ph_clients := ph_clients (ps_hub s h) @ [c]\<rparr>"
    "map_of (ps_notes s) key = None \<Longrightarrow> ph_key (ps_hub s' h) = key \<and> ph_clients (ps_hub s' h) = [c]
       \<and> (case ph_record (ps_hub s' h) of
            None \<Rightarrow> ph_generation (ps_hub s' h) = 0
          | Some r \<Rightarrow> \<exists>d. ps_disk s (persistentNotePath cfg key) = Some (Stored d) \<and> r = pd_Record d)"
proof -
  have add: "addPersistentNoteClient h0 c s0 = (Inr (h, m), s1) \<Longrightarrow> h = h0 \<and> s1 = upd_hub h (\<lambda>hub. hub\<lparr>ph_clients := ph_clients hub @ [c]\<rparr>) s0
      \<and> m = told (hub_value (ps_hub s1 h))" for h0 s0 s1
    by (auto simp: addPersistentNoteClient_def Let_def state_told split: if_splits)
  obtain s1 where j: "joinPersistentNote cfg key c now s = (Inr (h, m), s1)" "s' = write_to c m s1"
    using assms by (auto simp: serve_note_def split: prod.splits sum.splits)
  show "map_of (ps_notes s') key = Some h" "m = told (hub_value (ps_hub s' h))"
    using j by (auto simp: joinPersistentNote_def Let_def write_to_def upd_hub_def update_conv split: option.splits prod.splits sum.splits dest!: add)
  show "h = h' \<and> ps_hub s' h = (ps_hub s h)\<lparr>ph_clients := ph_clients (ps_hub s h) @ [c]\<rparr>" if "map_of (ps_notes s) key = Some h'"
    using j that by (auto simp: joinPersistentNote_def write_to_def upd_hub_def dest!: add)
  show "ph_key (ps_hub s' h) = key \<and> ph_clients (ps_hub s' h) = [c]
       \<and> (case ph_record (ps_hub s' h) of
            None \<Rightarrow> ph_generation (ps_hub s' h) = 0
          | Some r \<Rightarrow> \<exists>d. ps_disk s (persistentNotePath cfg key) = Some (Stored d) \<and> r = pd_Record d)" if "map_of (ps_notes s) key = None"
    using j that
    by (auto simp: joinPersistentNote_def Let_def write_to_def upd_hub_def split: prod.splits sum.splits option.splits dest!: add load_values)
qed

lemma inv_connect:
  assumes "net_inv W N" "net_step W (Connect c ws salt n now) N = Some N'" "carries (si_crypto W) (set (all_docs N'))"
  shows "net_inv W N'"
proof -
  let ?s = "nn_service N"
  obtain h m s p a q where st: "c \<notin> set (nn_members N)" "list_all (\<lambda>d. do_Pad d = si_pad W \<and> ValidateDocument d = Inr ()) (pad_docs W ws)"
    "serve_note (si_config W) now (NoteJoin (si_key W) c) ?s = (NoteJoined h m, s)" "OpenPersistentSession (si_code W) (si_pad W) [m] = Inr p"
    "persistent_SyncWorkspace (si_crypto W) salt n ws (si_pad W) p = (Inr a, q)"
    "N' = \<lparr>nn_service = s, nn_members = nn_members N @ [c], nn_client = (nn_client N)(c := linked q),
       nn_hub = (nn_hub N)(c := h), nn_made = (nn_made N)(c := pad_docs W ws @ record_docs W (pm_Record m))\<rparr>"
    using assms(2) by (auto simp: net_step_def split: if_splits prod.splits note_reply.splits sum.splits)
  note j = join_effect [OF st(3)]
  define v where "v = hub_value (ps_hub s h)"
  let ?A = "set (all_docs N')"
  have pad: "NormalizePad (si_pad W) = si_pad W" "distinct (nn_members N)" using assms(1) by (simp_all add: net_inv_def)
  have made: "nn_made N' q = nn_made N q" if "q \<in> set (nn_members N)" for q using that st(1,6) by auto
  have "all_docs N' = all_docs N @ pad_docs W ws @ record_docs W (snd v)"
    using st(1,6) j(2) made by (simp add: all_docs_def v_def told_def cong: map_cong)
  then have A: "?A = set (all_docs N) \<union> set (pad_docs W ws) \<union> set (record_docs W (snd v))" by auto
  have old: "value_ok W ?A v \<and> ph_key (ps_hub s h) = si_key W \<and> ph_clients (ps_hub s h) = nn_members N @ [c]
      \<and> (\<forall>q\<in>set (nn_members N). nn_hub N q = h \<and> client_ok W ?A v (nn_made N q) (nn_client N q))"
  proof (cases "nn_members N")
    case Nil
    then have start: "site_start W ?s" using assms(1) by (simp add: net_inv_def)
    then have k: "map_of (ps_notes ?s) (si_key W) = None" by (simp add: site_start_def)
    have "value_ok W ?A v"
      using j(4) [OF k] start A unfolding value_ok_def v_def hub_value_def site_start_def opens_to_def
      by (fastforce simp: record_docs_def split: option.splits)
    then show ?thesis using j(4) [OF k] Nil by simp
  next
    case (Cons x xs)
    then have x: "x \<in> set (nn_members N)" by simp
    from net_invE [OF assms(1) x] obtain w where i: "w = hub_value (ps_hub ?s (nn_hub N x))"
      "map_of (ps_notes ?s) (si_key W) = Some (nn_hub N x)" "ph_key (ps_hub ?s (nn_hub N x)) = si_key W"
      "ph_clients (ps_hub ?s (nn_hub N x)) = nn_members N" "\<And>q. q \<in> set (nn_members N) \<Longrightarrow> nn_hub N q = nn_hub N x"
      "value_ok W (set (all_docs N)) w" "\<And>q. q \<in> set (nn_members N) \<Longrightarrow> client_ok W (set (all_docs N)) w (nn_made N q) (nn_client N q)" by metis
    from j(3) [OF i(2)] have h: "h = nn_hub N x" "ps_hub s h = (ps_hub ?s h)\<lparr>ph_clients := nn_members N @ [c]\<rparr>" using i(4) by auto
    then have "v = w" using i(1) by (simp add: v_def hub_value_def)
    moreover have "set (all_docs N) \<subseteq> ?A" unfolding A by blast
    ultimately show ?thesis using i(3) h i(5) value_ok_mono [OF i(6)] client_ok_mono [OF i(7)] by simp
  qed
  have new: "client_ok W ?A v (pad_docs W ws @ record_docs W (snd v)) (linked q)"
    using st(2,4,5) j(2) old by (intro ok_connected [OF assms(3) pad(1)]) (auto simp: A v_def list_all_iff)
  show ?thesis
  proof (rule net_invI [where c = c and h = h])
    show "client_ok W ?A (hub_value (ps_hub (nn_service N') h)) (nn_made N' x) (nn_client N' x)" if "x \<in> set (nn_members N')" for x
      using that old new st(1,6) j(2) by (auto simp: v_def told_def)
  qed (use old st(1,6) pad j(1) in \<open>auto simp: v_def\<close>)
qed

text \<open>A put at the service: every client is sent the new state, or the one who put is sent the current one.\<close>

lemma put_effect:
  assumes "serve_note cfg now (NotePut wo h c m) s = (reply, s')" "\<forall>e. reply \<noteq> NoteRefused e" "ValidateClient m = Inr ()"
  shows "map_of (ps_notes s) (ph_key (ps_hub s h)) = Some h \<and> ps_notes s' = ps_notes s \<and> ph_key (ps_hub s' h) = ph_key (ps_hub s h)
    \<and> ph_clients (ps_hub s' h) = ph_clients (ps_hub s h)
    \<and> (if pm_BaseGeneration m = ph_generation (ps_hub s h)
       then hub_value (ps_hub s' h) = (ph_generation (ps_hub s h) + 1, pm_Record m)
         \<and> ps_sent s' = ps_sent s @ map (\<lambda>q. (q, told (hub_value (ps_hub s' h)))) (ph_clients (ps_hub s h))
       else hub_value (ps_hub s' h) = hub_value (ps_hub s h) \<and> ps_sent s' = ps_sent s @ [(c, told (hub_value (ps_hub s h)))])"
  using assms
  by (auto simp: serve_note_def applyPersistentNote_def Let_def state_told fold_write_to write_to_def upd_hub_def hub_value_def
      split: if_splits option.splits sum.splits prod.splits)

lemma written_all:
  assumes "ps_sent s' = ps_sent s @ map (\<lambda>q. (q, m)) cs" "distinct cs"
  shows "written_to q s s' = (if q \<in> set cs then [m] else [])"
proof -
  have "filter (\<lambda>x. fst x = q) (map (\<lambda>q. (q, m)) cs) = map (\<lambda>q. (q, m)) (filter (\<lambda>x. x = q) cs)" by (induction cs) simp_all
  moreover have "filter (\<lambda>x. x = q) cs = (if q \<in> set cs then [q] else [])" using assms(2) by (induction cs) auto
  ultimately show ?thesis using assms(1) by (simp add: written_to_def)
qed

lemma inv_serve:
  assumes "net_inv W N" "net_step W (Serve c wo now) N = Some N'"
  shows "net_inv W N'"
proof -
  let ?s = "nn_service N" and ?h = "nn_hub N c" and ?A = "set (all_docs N)"
  obtain m rest reply s where st: "ln_out (nn_client N c) = m # rest" "c \<in> set (nn_members N)" "ph_generation (ps_hub ?s ?h) + 1 \<noteq> 0"
    "serve_note (si_config W) now (NotePut wo ?h c m) ?s = (reply, s)" "\<forall>e. reply \<noteq> NoteRefused e"
    "N' = N\<lparr>nn_service := s, nn_client := (\<lambda>q. post (written_to q ?s s) (if q = c then 1 else 0) (nn_client N q))\<rparr>"
    using assms(2) by (auto simp: net_step_def split: list.splits if_splits prod.splits note_reply.splits)
  from net_invE [OF assms(1) st(2)] obtain v where i: "NormalizePad (si_pad W) = si_pad W" "distinct (nn_members N)" "v = hub_value (ps_hub ?s ?h)"
    "map_of (ps_notes ?s) (si_key W) = Some ?h" "ph_key (ps_hub ?s ?h) = si_key W" "ph_clients (ps_hub ?s ?h) = nn_members N"
    "\<And>q. q \<in> set (nn_members N) \<Longrightarrow> nn_hub N q = ?h" "value_ok W ?A v"
    "\<And>q. q \<in> set (nn_members N) \<Longrightarrow> client_ok W ?A v (nn_made N q) (nn_client N q)" by metis
  have m: "put_ok W ?A m" using i(9) [OF st(2)] st(1) by (simp add: client_ok_def client_wf_def)
  then have valid: "ValidateClient m = Inr ()" by (simp add: put_ok_def)
  note e = put_effect [OF st(4,5) valid]
  define u where "u = hub_value (ps_hub s ?h)"
  have gen: "fst v = ph_generation (ps_hub ?s ?h)" by (simp add: i(3) hub_value_def)
  have le: "fst v \<le> fst u"
    using e revision_step [OF st(3)] by (auto simp: u_def gen i(3) hub_value_def split: if_splits)
  have eff: "if pm_BaseGeneration m = fst v
      then u = (fst v + 1, pm_Record m) \<and> ps_sent s = ps_sent ?s @ map (\<lambda>q. (q, told u)) (nn_members N)
      else u = v \<and> ps_sent s = ps_sent ?s @ [(c, told v)]"
    using e by (simp add: u_def gen [symmetric] i(3) [symmetric] i(6) split: if_splits)
  then have ok: "value_ok W ?A u" using m i(8) by (auto simp: value_ok_def put_ok_def split: if_splits)
  have wr: "if pm_BaseGeneration m = fst v then written_to q ?s s = [told u] else u = v \<and> written_to q ?s s = (if q = c then [told v] else [])"
    if "q \<in> set (nn_members N)" for q
  proof (cases "pm_BaseGeneration m = fst v")
    case True
    then show ?thesis using eff written_all [OF _ i(2), of s ?s "told u" q] that by simp
  next
    case False
    then show ?thesis using eff written_all [of s ?s "told v" "[c]" q] by simp
  qed
  have "client_ok W ?A u (nn_made N q) (nn_client N' q)" if q: "q \<in> set (nn_members N)" for q
  proof (cases "written_to q ?s s")
    case Nil
    then have "u = v" "q \<noteq> c" using wr [OF q] by (auto split: if_splits)
    then show ?thesis using i(9) [OF q] Nil st(6) by (simp add: post_def)
  next
    case (Cons x xs)
    then have "written_to q ?s s = [told u]" using wr [OF q] by (auto split: if_splits)
    then show ?thesis using ok_receive [OF i(9) [OF q] le ok set_drop_subset] st(6) by (simp add: post_def)
  qed
  note clients = this
  have A: "all_docs N' = all_docs N" "nn_members N' = nn_members N" "nn_service N' = s" "nn_made N' = nn_made N"
    using st(6) by (simp_all add: all_docs_def)
  show ?thesis
  proof (rule net_invI [where c = c and h = ?h])
    show "nn_hub N' q = ?h" if "q \<in> set (nn_members N')" for q using i(7) [of q] that st(6) by simp
    show "client_ok W (set (all_docs N')) (hub_value (ps_hub (nn_service N') ?h)) (nn_made N' q) (nn_client N' q)" if "q \<in> set (nn_members N')" for q
      using clients [of q] that unfolding A u_def .
  qed (use e i(1,2,4-6) ok st(2) in \<open>simp_all add: A u_def [symmetric]\<close>)
qed

lemma net_inv_step:
  assumes "net_inv W N" "stays ev" "net_step W ev N = Some N'" "carries (si_crypto W) (set (all_docs N'))"
  shows "net_inv W N'"
proof -
  have pad: "NormalizePad (si_pad W) = si_pad W" using assms(1) by (simp add: net_inv_def)
  have one: "net_inv W N'" if "on_client c f N = Some N'"
    "\<And>v. client_ok W (set (all_docs N)) v (nn_made N c) (nn_client N c) \<Longrightarrow> value_ok W (set (all_docs N)) v
       \<Longrightarrow> \<not> lc_ended (f (nn_client N c)) \<Longrightarrow> client_ok W (set (all_docs N)) v (nn_made N c) (f (nn_client N c))" for c f
    using that inv_client_only [OF assms(1), of c "f (nn_client N c)"] by (simp add: on_client_some)
  have same: "on_client c f N = Some N' \<Longrightarrow> carries (si_crypto W) (set (all_docs N))" for c f
    using assms(4) by (simp add: on_client_some)
  show ?thesis
  proof (cases ev)
    case (Connect c ws salt n now)
    then show ?thesis using inv_connect [OF assms(1) _ assms(4)] assms(3) by blast
  next
    case (Serve c wo now)
    then show ?thesis using inv_serve [OF assms(1)] assms(3) by blast
  next
    case (Take c)
    then have s: "ln_reading (nn_client N c) = None" "on_client c readLoop_take N = Some N'" using assms(3) by (auto simp: net_step_def split: if_splits)
    show ?thesis using ok_take [OF _ s(1)] by (rule one [OF s(2)])
  next
    case (Handle c salt n)
    then have s: "on_client c (readLoop_handle (si_crypto W) salt n) N = Some N'" using assms(3) by (simp add: net_step_def)
    show ?thesis using ok_handle [OF same [OF s] _ pad] by (rule one [OF s])
  next
    case (Enter c line now)
    then show ?thesis using inv_enter [OF assms(1)] assms(3) by blast
  next
    case (Deliver c salt n)
    then have s: "on_client c (client_send (si_crypto W) salt n) N = Some N'" using assms(3) by (simp add: net_step_def)
    show ?thesis using ok_deliver [OF same [OF s] _ pad] by (rule one [OF s])
  next
    case (Apply c)
    then have s: "on_client c client_event N = Some N'" using assms(3) by (auto simp: net_step_def split: if_splits)
    show ?thesis using ok_apply [OF _ pad] by (rule one [OF s])
  next
    case (Leave c now)
    then show ?thesis using assms(2) by (simp add: stays_def)
  qed
qed

end
