(* ===== verification/Persistent_Converge.thy ===== *)
theory Persistent_Converge
  imports Persistent_Net Net_Addr
begin

text \<open>
  What the clients of a kept note see in the end: they agree with each other and with the service as
  long as nobody leaves, and an edit that the service has acknowledged can be lost when its author
  leaves.
\<close>

section \<open>Agreement\<close>

lemma docs_grow:
  assumes "stays ev" "net_step W ev N = Some N'"
  shows "set (all_docs N) \<subseteq> set (all_docs N')"
proof (cases ev)
  case (Connect c ws salt n now)
  then have "c \<notin> set (nn_members N)" "nn_members N' = nn_members N @ [c]" "\<exists>x. nn_made N' = (nn_made N)(c := x)"
    using assms(2) by (auto simp: net_step_def split: if_splits prod.splits note_reply.splits sum.splits)
  then show ?thesis by (auto simp: all_docs_def)
next
  case (Serve c wo now)
  then show ?thesis using assms(2) by (auto simp: net_step_def all_docs_def split: if_splits prod.splits note_reply.splits list.splits)
next
  case (Enter c line now)
  then obtain ds where "nn_made N' = (nn_made N)(c := nn_made N c @ ds)" "nn_members N' = nn_members N"
    using assms(2) by (fastforce simp: net_step_def on_client_some split: if_splits option.splits intro: that [of "[]"])
  then show ?thesis by (auto simp: all_docs_def)
next
  case (Leave c now)
  then show ?thesis using assms(1) by (simp add: stays_def)
qed (use assms(2) in \<open>auto simp: net_step_def on_client_some split: if_splits\<close>)

lemma frame_back: "normal d \<Longrightarrow> Frame_Document (FrameFromDocument t d) = d"
  by (simp add: Frame_Document_def FrameFromDocument_def normal_def)

lemma carries_less: "carries k B \<Longrightarrow> A \<subseteq> B \<Longrightarrow> carries k A"
  unfolding carries_def by blast

lemma net_run_inv: "net_run W N \<Longrightarrow> carries (si_crypto W) (set (all_docs N)) \<Longrightarrow> net_inv W N"
proof (induction rule: net_run.induct)
  case (Start s)
  then show ?case by (simp add: net_inv_def no_clients_def site_start_def)
next
  case (Step N ev N')
  then show ?case using net_inv_step carries_less docs_grow by metis
qed

lemma net_run_docs:
  "net_run W N \<Longrightarrow> carries (si_crypto W) (set (all_docs N)) \<Longrightarrow> \<forall>d\<in>set (all_docs N). normal d \<and> do_Pad d = si_pad W"
proof (induction rule: net_run.induct)
  case (Start s)
  then show ?case by (simp add: all_docs_def no_clients_def)
next
  case (Step N ev N')
  have old: "\<forall>d\<in>set (all_docs N). normal d \<and> do_Pad d = si_pad W" using Step carries_less docs_grow by metis
  have inv: "net_inv W N'" using net_run.Step [OF Step.hyps] Step.prems by (rule net_run_inv)
  then have pad: "NormalizePad (si_pad W) = si_pad W" by (simp add: net_inv_def)
  show ?case
  proof (cases ev)
    case (Connect c ws salt n now)
    then have c: "c \<notin> set (nn_members N)" "nn_members N' = nn_members N @ [c]"
        "list_all (\<lambda>d. do_Pad d = si_pad W \<and> ValidateDocument d = Inr ()) (pad_docs W ws)"
        "\<exists>R. nn_made N' = (nn_made N)(c := pad_docs W ws @ record_docs W R)"
      using Step.hyps by (auto simp: net_step_def split: if_splits prod.splits note_reply.splits sum.splits)
    moreover have "normal d \<and> do_Pad d = si_pad W" if "d \<in> set (record_docs W R)" for d R
      using that opened_normal [of W "site_code W" _ d] pad by (auto simp: record_docs_def split: option.splits sum.splits)
    moreover have "normal d \<and> do_Pad d = si_pad W" if "d \<in> set (pad_docs W ws)" for d
      using that c(3) pad by (auto simp: list_all_iff normal_def)
    ultimately show ?thesis using old by (fastforce simp: all_docs_def)
  next
    case (Enter c line now)
    show ?thesis
    proof (cases "lc_sending (nn_client N' c)")
      case None
      then have "all_docs N' = all_docs N"
        using Enter Step.hyps by (auto simp: net_step_def on_client_some split: if_splits option.splits)
      then show ?thesis using old by simp
    next
      case (Some f)
      then have c: "nn_made N' = (nn_made N)(c := nn_made N c @ [Frame_Document f])" "nn_members N' = nn_members N" "c \<in> set (nn_members N)"
        using Enter Step.hyps by (auto simp: net_step_def on_client_some split: if_splits option.splits)
      have "c \<in> set (nn_members N')" using c(2,3) by simp
      with net_invE [OF inv this] obtain w where "client_ok W (set (all_docs N')) w (nn_made N' c) (nn_client N' c)" by metis
      then have "sent_frame W (set (all_docs N')) f" using Some by (simp add: client_ok_def client_wf_def)
      then have "normal (Frame_Document f) \<and> do_Pad (Frame_Document f) = si_pad W"
        unfolding sent_frame_def by (auto simp: frame_back)
      then show ?thesis using old c by (auto simp: all_docs_def split: if_splits)
    qed
  next
    case (Serve c wo now)
    then have "all_docs N' = all_docs N"
      using Step.hyps by (auto simp: net_step_def all_docs_def split: if_splits prod.splits note_reply.splits list.splits)
    then show ?thesis using old by simp
  next
    case (Leave c now)
    then show ?thesis using Step.hyps by (simp add: stays_def)
  qed (use old Step.hyps in \<open>auto simp: net_step_def on_client_some split: if_splits\<close>)
qed

text \<open>
C16: A kept note converges. Any number of clients connect to the note with what they have, edit, and
read, handle and put states in any order, while none leaves and no put is refused. Whenever nothing
is on its way, all of them hold the same document, it is the one that the service stores, and it is
the newest, in the order of revision, timestamp and text, of all documents that the clients brought,
found or entered; there is none only if there was none.
\<close>

theorem kept_note_converges:
  assumes "net_run W N" and "carries (si_crypto W) (set (all_docs N))" and "quiet N" and "c \<in> set (nn_members N)"
  shows "client_pad (nn_client N c) (si_pad W) = newest_of (all_docs N) (si_pad W)
    \<and> record_docs W (ph_record (ps_hub (nn_service N) (nn_hub N c))) = (case newest_of (all_docs N) (si_pad W) of None \<Rightarrow> [] | Some d \<Rightarrow> [d])"
proof -
  let ?A = "set (all_docs N)" and ?p = "nn_client N c"
  from net_invE [OF net_run_inv [OF assms(1,2)] assms(4)] obtain v where v: "v = hub_value (ps_hub (nn_service N) (nn_hub N c))"
    "value_ok W ?A v" "\<And>q. q \<in> set (nn_members N) \<Longrightarrow> client_ok W ?A v (nn_made N q) (nn_client N q)" by metis
  define D where "D = value_doc W v"
  have docs: "normal d \<and> do_Pad d = si_pad W" if "d \<in> ?A" for d using net_run_docs [OF assms(1,2)] that by blast
  have idle: "idle (nn_client N q)" if "q \<in> set (nn_members N)" for q using assms(3) that by (simp add: quiet_def list_all_iff)
  have own: "at_most d D" if "d \<in> ?A" for d
  proof -
    from that have "\<exists>q\<in>set (nn_members N). d \<in> set (nn_made N q)" by (auto simp: all_docs_def)
    then obtain q where q: "q \<in> set (nn_members N)" "d \<in> set (nn_made N q)" by blast
    then show ?thesis using v(3) [OF q(1)] idle [OF q(1)] by (simp add: client_ok_def idle_def D_def)
  qed
  have mine: "at_most D (mine W ?p)" using v(3) [OF assms(4)] idle [OF assms(4)] by (simp add: client_ok_def idle_def D_def update_event_def)
  have pads: "d \<in> ?A" if "client_pad ?p (si_pad W) = Some d" for d using v(3) [OF assms(4)] that by (simp add: client_ok_def client_wf_def)
  have nz: "\<not> at_most d zero_document" if "d \<in> ?A" for d using docs [OF that] newer_zero by (simp add: normal_def at_most_def)
  have "top_at (si_pad W) (client_pad ?p) ?A"
  proof (rule top_atI)
    show "client_pad ?p (si_pad W) \<noteq> None" if "e \<in> ?A" for e
      using at_most_trans [OF own [OF that] mine] nz [OF that] mine_none [of ?p W] by (cases "client_pad ?p (si_pad W)") auto
    show "d \<in> ?A \<and> do_Pad d = si_pad W" if "client_pad ?p (si_pad W) = Some d" for d using pads [OF that] docs by blast
    show "\<not> newer e d" if "client_pad ?p (si_pad W) = Some d" "e \<in> ?A" for d e
      using at_most_trans [OF own [OF that(2)] mine] by (simp add: mine_some [OF that(1)] at_most_def)
  qed
  from top_at_unique [OF this newest_of_top] have new: "client_pad ?p (si_pad W) = newest_of (all_docs N) (si_pad W)" .
  have "record_docs W (snd v) = (case client_pad ?p (si_pad W) of None \<Rightarrow> [] | Some d \<Rightarrow> [d])"
  proof (cases "snd v")
    case None
    then have "D = zero_document" by (cases v) (simp add: D_def)
    then have "client_pad ?p (si_pad W) = None" using own pads nz by (cases "client_pad ?p (si_pad W)") auto
    then show ?thesis using None by (simp add: record_docs_def)
  next
    case (Some r)
    then obtain d where d: "d \<in> ?A" "opened W (site_code W) r = Inr d" using v(2) by (auto simp: value_ok_def opens_to_def)
    then have D: "D = d" "record_docs W (snd v) = [d]" using Some by (cases v, simp add: D_def, simp add: record_docs_def)
    then have "client_pad ?p (si_pad W) \<noteq> None" using mine nz [OF d(1)] mine_none [of ?p W] by (cases "client_pad ?p (si_pad W)") auto
    then obtain e where e: "client_pad ?p (si_pad W) = Some e" by blast
    have "e = d" using own [OF pads [OF e]] mine docs [OF pads [OF e]] docs [OF d(1)] by (intro at_most_same) (simp_all add: D mine_some [OF e])
    then show ?thesis using D e by simp
  qed
  then show ?thesis using new v(1) by (simp add: hub_value_def)
qed

section \<open>Runs of two clients\<close>

definition demo_doc_code :: "Document \<Rightarrow> string" where
  "demo_doc_code d = nat_digits (unat (do_Revision d)) @ CHR '';'' # nat_digits (nat (do_Timestamp d)) @ CHR '';'' # do_Text d"

definition demo_doc_parse :: "string \<Rightarrow> string \<Rightarrow> Document option" where
  "demo_doc_parse pad s =
     (let p = takeWhile (\<lambda>c. c \<noteq> CHR '';''); q = (\<lambda>s. drop 1 (dropWhile (\<lambda>c. c \<noteq> CHR '';'') s))
      in Some \<lparr>do_Pad = pad, do_Text = q (q s), do_Revision = of_nat (digits_val (p s)), do_Timestamp = int (digits_val (p (q s)))\<rparr>)"

definition demo_site :: note_site where
  "demo_site = \<lparr>si_crypto = \<lparr>nk_hkdf = (\<lambda>_ _ _ _. ''''), nk_seal = (\<lambda>_ _ _ p. replicate 16 CHR ''t'' @ p), nk_unseal = (\<lambda>_ _ _ c. Some (drop 16 c)),
       nk_json = demo_doc_code, nk_parse = demo_doc_parse ''main''\<rparr>,
     si_config = demo_notes, si_key = ''k'', si_code = ''FOX-7-RAIN'', si_pad = ''main''\<rparr>"

definition demo_salt :: string where
  "demo_salt = replicate 16 CHR ''s''"

definition demo_nonce :: string where
  "demo_nonce = replicate 12 CHR ''n''"

definition demo_connect :: "nat \<Rightarrow> net_event" where
  "demo_connect c = Connect c Map.empty demo_salt demo_nonce 5000000"

text \<open>A client enters a line and the service takes it; a client reads and handles the next state.\<close>

definition demo_edit_line :: "nat \<Rightarrow> string \<Rightarrow> int \<Rightarrow> net_event list" where
  "demo_edit_line c line now = [Enter c line now, Deliver c demo_salt demo_nonce, Serve c Written (now * 1000000 + 500000)]"

definition demo_read :: "nat \<Rightarrow> net_event list" where
  "demo_read c = [Take c, Handle c demo_salt demo_nonce]"

lemma net_steps_append: "net_steps W (evs @ fvs) N = (case net_steps W evs N of None \<Rightarrow> None | Some N' \<Rightarrow> net_steps W fvs N')"
  by (induction evs arbitrary: N) (auto split: option.split)

lemma net_run_steps: "net_run W N \<Longrightarrow> list_all stays evs \<Longrightarrow> net_steps W evs N = Some N' \<Longrightarrow> net_run W N'"
  by (induction evs arbitrary: N) (auto split: option.splits intro: net_run.Step)

definition demo_race :: "net_event list" where
  "demo_race = [demo_connect 1, demo_connect 2] @ demo_edit_line 1 ''a'' 10 @ demo_read 1 @ [Enter 2 ''b'' 12, Deliver 2 demo_salt demo_nonce, Serve 2 Written 13000000]
     @ demo_read 2 @ [Apply 1] @ demo_read 2 @ [Serve 2 Written 14000000, Serve 2 Written 14000000] @ demo_read 1 @ demo_read 2 @ demo_read 2 @ [Apply 1, Apply 2, Apply 2]"

lemma demo_names:
  "NormalizePad ''main'' = ''main''" "ValidatePad ''main'' = Inr ()" "ValidateCode ''FOX-7-RAIN'' = Inr ''FOX-7-RAIN''"
  "configured demo_notes"
  by code_simp+

lemma demo_doc_back: "do_Pad d = ''main'' \<Longrightarrow> 0 \<le> do_Timestamp d \<Longrightarrow> demo_doc_parse ''main'' (demo_doc_code d) = Some d"
proof -
  assume a: "do_Pad d = ''main''" "0 \<le> do_Timestamp d"
  have no: "CHR '';'' \<notin> set (nat_digits n)" for n
    using nat_digits_all_digits [of n] by (auto simp: all_digits_def list_all_iff is_digit_def)
  have sep: "takeWhile (\<lambda>c. c \<noteq> CHR '';'') (nat_digits n @ CHR '';'' # t) = nat_digits n"
      "drop 1 (dropWhile (\<lambda>c. c \<noteq> CHR '';'') (nat_digits n @ CHR '';'' # t)) = t" for n t
    using no [of n] by (subst takeWhile_append2 dropWhile_append2, auto)+
  show ?thesis using a unfolding demo_doc_parse_def demo_doc_code_def Let_def sep by (cases d) (simp add: digits_val_nat_digits)
qed


definition demo_sealed :: "Document \<Rightarrow> PersistentRecord" where
  "demo_sealed d = \<lparr>pr_Version = 1, pr_Salt = demo_salt, pr_Nonce = demo_nonce, pr_Ciphertext = replicate 16 CHR ''t'' @ demo_doc_code d\<rparr>"

definition demo_ok :: "Document \<Rightarrow> bool" where
  "demo_ok d \<longleftrightarrow> do_Pad d = ''main'' \<and> ValidateDocument d = Inr () \<and> length (demo_doc_code d) \<le> 2097136"

lemma demo_record: "demo_ok d \<Longrightarrow> ValidateRecord (demo_sealed d) = Inr ()"
  by (auto simp: ValidateRecord_def demo_salt_def demo_nonce_def MaxPersistentRecordSize_def demo_ok_def demo_sealed_def)

lemma demo_seal:
  assumes "demo_ok d"
  shows "SealPersistentDocument (nk_hkdf (si_crypto demo_site)) (nk_seal (si_crypto demo_site)) (nk_json (si_crypto demo_site)) demo_salt demo_nonce ''FOX-7-RAIN'' d
    = Inr (demo_sealed d)"
proof -
  obtain t r ts where d: "d = \<lparr>do_Pad = ''main'', do_Text = t, do_Revision = r, do_Timestamp = ts\<rparr>" using assms by (cases d) (auto simp: demo_ok_def)
  have "ValidateDocument d = Inr ()" using assms by (simp add: demo_ok_def)
  with demo_record [OF assms] show ?thesis
    by (simp add: d SealPersistentDocument_def demo_site_def demo_names Let_def demo_sealed_def)
qed

lemma demo_open:
  assumes "demo_ok d"
  shows "OpenPersistentDocument (nk_hkdf (si_crypto demo_site)) (nk_unseal (si_crypto demo_site)) (nk_parse (si_crypto demo_site)) ''FOX-7-RAIN'' ''main'' (demo_sealed d) = Inr d"
proof -
  obtain t r ts where d: "d = \<lparr>do_Pad = ''main'', do_Text = t, do_Revision = r, do_Timestamp = ts\<rparr>" using assms by (cases d) (auto simp: demo_ok_def)
  have v: "ValidateDocument d = Inr ()" using assms by (simp add: demo_ok_def)
  then have "0 \<le> do_Timestamp d" by (auto simp: ValidateDocument_def result_simps split: if_splits)
  then have "demo_doc_parse ''main'' (demo_doc_code d) = Some d" using demo_doc_back [of d] by (simp add: d)
  with demo_record [OF assms] v show ?thesis
    by (simp add: d OpenPersistentDocument_def demo_site_def demo_names Let_def demo_sealed_def)
qed

lemma post_client:
  "post arrived k \<lparr>ln_code = a, ln_pad = b, ln_initial = i, ln_events = e, ln_workspace = w, ln_generation = g, ln_reading = r, ln_started = st, ln_closed = cl,
      ln_in = x, ln_out = y, lc_sending = s, lc_ended = n\<rparr>
   = \<lparr>ln_code = a, ln_pad = b, ln_initial = i, ln_events = e, ln_workspace = w, ln_generation = g, ln_reading = r, ln_started = st, ln_closed = cl,
      ln_in = x @ arrived, ln_out = drop k y, lc_sending = s, lc_ended = n\<rparr>"
  by (simp add: post_def)

lemmas demo_eval = net_step_def demo_connect_def demo_edit_line_def demo_read_def no_clients_def no_notes_def serve_note_def joinPersistentNote_def
    loadPersistentNote_def Let_def addPersistentNoteClient_def upd_hub_def persistentNoteMaxClients_def persistentNoteStateLocked_def
    OpenPersistentSession_def validatePersistentState_def demo_names persistent_SyncWorkspace_def Snapshot_def check_def write_to_def
    zero_document_def pad_docs_def record_docs_def result_simps linked_def PersistentSession.defs note_client.defs

lemma demo_site_fields: "si_config demo_site = demo_notes" "si_key demo_site = ''k''" "si_code demo_site = ''FOX-7-RAIN''" "si_pad demo_site = ''main''"
  by (simp_all add: demo_site_def)

abbreviation demo_a :: Document where "demo_a \<equiv> \<lparr>do_Pad = ''main'', do_Text = ''a'', do_Revision = 1, do_Timestamp = 10\<rparr>"
abbreviation demo_b :: Document where "demo_b \<equiv> \<lparr>do_Pad = ''main'', do_Text = ''b'', do_Revision = 2, do_Timestamp = 12\<rparr>"
abbreviation demo_b1 :: Document where "demo_b1 \<equiv> \<lparr>do_Pad = ''main'', do_Text = ''b'', do_Revision = 1, do_Timestamp = 12\<rparr>"
abbreviation demo_c :: Document where "demo_c \<equiv> \<lparr>do_Pad = ''main'', do_Text = ''c'', do_Revision = 1, do_Timestamp = 14\<rparr>"

lemma demo_lines: "TrimSpace ''a'' = ''a''" "TrimSpace ''b'' = ''b''" "TrimSpace ''c'' = ''c''" by code_simp+

lemma demo_texts: "ValidateText ''a'' = Inr ()" "ValidateText ''b'' = Inr ()" "ValidateText ''c'' = Inr ()"
  by (simp_all add: ValidateText_def MaxTextSize_def check_def)

lemma demo_docs: "ValidateDocument demo_a = Inr ()" "ValidateDocument demo_b = Inr ()" "ValidateDocument demo_c = Inr ()" "ValidateDocument demo_b1 = Inr ()" "demo_ok demo_b1" "demo_ok demo_a" "demo_ok demo_b" "demo_ok demo_c"
  by (simp_all add: demo_ok_def ValidateDocument_def demo_names demo_texts demo_doc_code_def nat_digits.simps)

lemma demo_ttl: "nf_ttl demo_notes = 1000000000" by (simp add: demo_notes_def)

lemmas demo_client = post_client currentDocument_def on_client_def client_line_def enter_document_def client_pad_def Update_def doc_at_def FrameFromDocument_def Frame_Document_def
  demo_docs demo_lines demo_texts client_send_def persistent_Send_def ValidateFrame_def IsDocumentUpdate_def publishDocument_def demo_seal demo_open ProtocolVersion_def NewWorkspace_def
  zero_message_def applyPersistentNote_def ValidateClient_def demo_record writePersistentNote_def validatePersistentNoteDiskRecord_def millis_def demo_ttl
  written_to_def readLoop_take_def readLoop_handle_def compareDocuments_def emit_def client_event_def ApplyRemote_def demo_eval demo_site_fields frameTypeForDocument_def

lemma demo_start: "net_run demo_site (no_clients (no_notes Map.empty))"
proof (rule net_run.Start)
  have "NormalizePad ''main'' = ''main''" by code_simp
  then show "site_start demo_site (no_notes Map.empty)" by (simp add: site_start_def no_notes_def demo_site_def)
qed

lemma demo_carries:
  "list_all (\<lambda>d. demo_doc_parse ''main'' (demo_doc_code d) = Some d) ds \<Longrightarrow> carries (si_crypto demo_site) (set ds)"
  by (auto simp: carries_def demo_site_def aead_law_def list_all_iff)

text \<open>Both clients edit at once; the second put is based on the first state and is repeated by its author.\<close>

theorem kept_note_converges_witness:
  "\<exists>N. net_run demo_site N \<and> quiet N \<and> length (all_docs N) = 2
    \<and> client_pad (nn_client N 1) ''main'' = client_pad (nn_client N 2) ''main''
    \<and> map_option do_Text (client_pad (nn_client N 1) ''main'') = Some ''b''"
proof -
  have "case net_steps demo_site demo_race (no_clients (no_notes Map.empty)) of None \<Rightarrow> False
      | Some N \<Rightarrow> quiet N \<and> nn_members N = [1, 2] \<and> all_docs N = [demo_a, demo_b1]"
    by (simp add: demo_client demo_race_def publish_or_emit_def quiet_def idle_def all_docs_def)
  then obtain N where N: "net_steps demo_site demo_race (no_clients (no_notes Map.empty)) = Some N" "quiet N" "nn_members N = [1, 2]"
      "all_docs N = [demo_a, demo_b1]"
    by (auto split: option.splits simp del: net_steps.simps)
  have docs: "list_all (\<lambda>d. demo_doc_parse ''main'' (demo_doc_code d) = Some d) (all_docs N)"
    using demo_doc_back by (simp add: N(4))
  have "list_all stays demo_race"
    by (simp add: demo_race_def demo_connect_def demo_edit_line_def demo_read_def stays_def)
  then have run: "net_run demo_site N" using net_run_steps [OF demo_start _ N(1)] by blast
  have pad: "si_pad demo_site = ''main''" by (simp add: demo_site_def)
  have "client_pad (nn_client N c) ''main'' = newest_of (all_docs N) ''main''" if "c \<in> {1, 2}" for c
    using kept_note_converges [OF run demo_carries [OF docs] N(2), of c] that by (auto simp: N(3) pad)
  moreover have "newest_of (all_docs N) ''main'' = Some demo_b1"
    by (simp add: newest_of_def N(4) newer_iff)
  ultimately show ?thesis using run N(2,4) by (intro exI [of _ N]) simp
qed

section \<open>An edit that is lost\<close>

text \<open>
  The first client puts two edits and leaves; the service has stored both. The second client has
  read both states and not yet applied them when its user enters a line. The line is the next
  revision of the empty pad, but it is put on top of the generation read last, and the service takes
  it. The state that comes back is what the client holds; after that the client applies the waiting
  events, and the second edit of the first client is newer than its line.
\<close>

definition demo_loss :: "net_event list" where
  "demo_loss = [demo_connect 1, demo_connect 2] @ demo_edit_line 1 ''a'' 10 @ demo_read 1 @ [Apply 1] @ demo_edit_line 1 ''b'' 12 @ [Leave 1 13000000]
     @ demo_read 2 @ demo_read 2 @ demo_edit_line 2 ''c'' 14 @ demo_read 2 @ [Apply 2, Apply 2, Apply 2]"

text \<open>
C17: An edit can be lost although the service stored it and a client received it. There is a run in
which the service stores an edit, its author leaves, and in the end nothing is on its way, the
remaining client shows that edit, and the service has an older document in its place, which is all
that later clients will find.
\<close>

theorem stored_edit_lost:
  "\<exists>N d e. net_steps demo_site demo_loss (no_clients (no_notes Map.empty)) = Some N \<and> quiet N \<and> nn_members N = [2]
    \<and> client_pad (nn_client N 2) ''main'' = Some d \<and> do_Text d = ''b''
    \<and> record_docs demo_site (ph_record (ps_hub (nn_service N) (nn_hub N 2))) = [e] \<and> do_Text e = ''c'' \<and> newer d e"
proof -
  have "case net_steps demo_site demo_loss (no_clients (no_notes Map.empty)) of None \<Rightarrow> False
      | Some N \<Rightarrow> quiet N \<and> nn_members N = [2] \<and> client_pad (nn_client N 2) ''main'' = Some demo_b
          \<and> ph_record (ps_hub (nn_service N) (nn_hub N 2)) = Some (demo_sealed demo_c)"
    by (simp add: demo_client demo_loss_def leavePersistentNote_def quiet_def idle_def)
  moreover have "record_docs demo_site (Some (demo_sealed demo_c)) = [demo_c]"
    by (simp add: record_docs_def opened_def site_code_def demo_site_fields demo_names demo_open demo_docs)
  moreover have "newer demo_b demo_c" by (simp add: newer_iff)
  ultimately show ?thesis by (auto split: option.splits simp del: net_steps.simps)
qed


end
