(* ===== verification/Spec2Isabelle.thy ===== *)
theory Spec2Isabelle
  imports Mux_Plan Mux_Scheduler Byte_Ranges Receive_Content Rename_Search Transfer_Session Session_Safety Session_Wire
    Sender_Loop Sender_Text Parallel_Sender Receive_Run
    Signal_Service Relay_Pairs Note_Sync Persistent_Converge
begin

text \<open>
  A verification development for kigo, a program that sends files, directories and texts between
  two machines that share a short code, lets them share notes, and has the service and the relay
  through which they find each other. All paths below are under internal/.

  \<^bold>\<open>The program and its model.\<close> A transfer runs in four layers; beside them stand the servers and the
  notes. The theories follow these parts.

  \<^enum> \<^emph>\<open>Wire.\<close> \<open>Transport\<close> models transport/frame.go, transport.go and observed.go: frames on a byte
    stream, transports made of several connections, byte counters and the adaptive send budget.
    \<open>Secure\<close> models secure/secure.go: pairing codes, room tokens, key derivation labels, nonces.
    \<open>Base64\<close> is the standard encoding of the chunk payloads. \<open>Secure_Pipe\<close> models the first part of
    transfer/session.go: the handshake and the encrypted pipes with their sequence numbers.
  \<^enum> \<^emph>\<open>Session.\<close> \<open>Protocol\<close> has the messages of protocol/protocol.go. \<open>Mux_Plan\<close> and \<open>Mux_Scheduler\<close>
    model mux/mux.go and mux/scheduler.go: the binding of items to streams, the tracker of opened
    and ended streams, the deficit round robin scheduler. \<open>Byte_Ranges\<close> models transfer/ranges.go,
    \<open>Chunk_Codec\<close> transfer/compression.go and sample_hash.go. \<open>Transfer_Session\<close> models the rest of
    transfer/session.go: what is sent on which pipe, and how arriving messages become events.
  \<^enum> \<^emph>\<open>Receiver.\<close> \<open>Go_Paths\<close> has the functions of path/filepath, \<open>File_System\<close> the calls of package os
    over inodes, directories and symbolic links. \<open>Manifest_Check\<close> and \<open>Receive_Store\<close> model
    transfer/receive_store.go, the checks of a manifest and the store that writes what arrives.
    \<open>Receiver\<close> models the loop \<open>Receive\<close> of transfer/transfer.go over session, store and files.
  \<^enum> \<^emph>\<open>Sender.\<close> \<open>Progress\<close>, \<open>Sender\<close> and \<open>Parallel_Sender\<close> model the rest of transfer/transfer.go and
    transfer/parallel_sender.go: progress counters, prepared paths, resume requests, the weighted
    send loop, texts, and the goroutines that write chunks to several connections.
  \<^enum> \<^emph>\<open>Service.\<close> \<open>Go_Net\<close> and \<open>Net_Addr\<close> have what the source uses of package net, addresses and their
    text. \<open>Signal_Rooms\<close> models the rooms of service/service.go that pass messages between two peers,
    \<open>Rendezvous\<close> the registries of service/negotiate.go, direct.go and rendezvous_ws.go where peers wait
    for each other, \<open>Service_Limits\<close> rate limits and client addresses, \<open>Signal_Service\<close> the configuration
    and the handlers over all of these. \<open>Direct_Candidates\<close> models directcandidate/candidate.go and
    \<open>Routing\<close> routing/negotiate.go, the choice of the route of a transfer.
  \<^enum> \<^emph>\<open>Relay.\<close> \<open>Relay_Credential\<close> and \<open>Relay_Server\<close> model relay/credential.go, bundle.go and relay.go:
    credentials, and the server that joins the connections of two peers.
  \<^enum> \<^emph>\<open>Notes.\<close> \<open>Note_Document\<close> models note/document.go and protocol.go, \<open>Note_Session\<close> note/session.go,
    workspace_sync.go and interactive.go: documents with revisions, the encrypted session of two
    notepads, their synchronisation and their loop. \<open>Persistent_Note\<close> models note/persistent.go and
    service/persistent_note.go, the encrypted notes that the service keeps in memory and on disk, and
    \<open>Persistent_Client\<close> models note/persistent_session.go, the sessions of their clients;
    \<open>Persistent_Net\<close> puts the service and any number of clients together.

  \<^bold>\<open>State and operations.\<close> A struct is a record whose fields carry a prefix (\<open>ts_\<close> for
  \<open>TransferSession\<close>, \<open>st_\<close> for \<open>ReceiveStore\<close>, \<open>sw_\<close> for the sender, \<open>rw_\<close> for the receiver, \<open>ss_\<close> for the
  service, \<open>ps_\<close> for its notes); pointers to rooms, hubs and clients are numbers into a store; functions
  and methods keep their names. Operations with state are actions of type \<open>('w, 'e, 'a) act\<close>
  (\<open>Go_Prelude\<close>), state passing with errors as values of one datatype per component: every return of
  an error is a branch, and an action that fails keeps the changes made so far. 64-bit integers are
  \<open>int\<close> with the wrap-around written out (\<open>add64\<close>, \<open>sub64\<close>), unsigned ones are words. Goroutines are
  interleaved by inductive step relations (\<open>Parallel_Sender\<close>). An index out of range is an error
  value of its own, so that panics are visible.

  \<^bold>\<open>What is proved.\<close>
  \<^item> \<open>Confinement\<close>, \<open>Confined_Receiver\<close>, \<open>Receiver_Safety\<close> and \<open>Receive_Run\<close>: whatever a peer sends, nothing
    outside the output directory changes, through links, resumed part files and errors.
  \<^item> \<open>Receive_Content\<close>, \<open>Session_Safety\<close> and \<open>Receive_Run\<close>: what is received is complete and exact, in any
    order of arrival. \<open>Rename_Search\<close>: the search for a free name ends.
  \<^item> \<open>Sender_Loop\<close>: sending ends and sends every byte once, in order. \<open>Parallel_Sender\<close>: the goroutines
    neither lose nor duplicate a chunk and do not deadlock.
  \<^item> \<open>Secure\<close>, \<open>Secure_Pipe\<close>, \<open>Transport\<close> and \<open>Session_Wire\<close>: both ends agree after the handshake, messages
    arrive in order or are rejected, nonces do not repeat, frames and chunks survive the trip.
  \<^item> \<open>Manifest_Check\<close>, \<open>Mux_Plan\<close>, \<open>Mux_Scheduler\<close>, \<open>Byte_Ranges\<close>, \<open>Chunk_Codec\<close> and \<open>Progress\<close>: the invariants,
    refinements and bounds of these components.
  \<^item> \<open>Signal_Safety\<close>, \<open>Signal_Join\<close> and \<open>Rendezvous_Safety\<close>: in every reachable state of the service messages
    stay within their room, queues within their bounds, no send blocks, and two peers that meet are
    told the same. \<open>Service_Limits\<close>: the rate limit holds in every period. \<open>Relay_Pairs\<close> and
    \<open>Relay_Credential\<close>: the relay joins opposite pairs only, and a credential opens its room only.
    \<open>Routing\<close>: the route is one that both peers offered.
  \<^item> \<open>Note_Converge\<close> and \<open>Note_Sync\<close>: notepads that exchange their edits end with the same document, the
    newest in the reference order. \<open>Persistent_Register\<close>: a kept note is a register with a generation.
    \<open>Persistent_Converge\<close>: the clients of a kept note and the service agree whenever nothing is on its
    way, as long as nobody leaves.
  \<^item> Defects are proved too: a frame that makes the receiver panic (\<open>Session_Wire\<close>), texts that cannot be
    sent (\<open>Sender_Text\<close>), a client of an expired room that takes away the room of others (\<open>Signal_Join\<close>),
    a revision that wraps to zero (\<open>Note_Converge\<close>), a sweep over the note files that removes a file
    stored meanwhile (\<open>Persistent_Register\<close>), and a stored edit that is replaced by an older one when
    its author leaves (\<open>Persistent_Converge\<close>).

  Interfaces are locales, interpreted on the model: the byte ranges as a disjoint union of sets
  (\<open>Byte_Ranges\<close>), the tracker (\<open>Mux_Plan\<close>), the scheduler and the chunk sender of the send loop
  (\<open>Sender_Loop\<close>), the registry of waiting peers (\<open>Rendezvous_Safety\<close>, interpreted once for the
  negotiation and once for direct connections), and others named in their theories.

  \<^bold>\<open>Bounds.\<close> The send loop has a number of turns as fuel; \<open>turns_needed\<close> is one turn per byte and one
  per stream, and is proved to be enough. The resolution of names follows 40 symbolic links, as the
  kernel does. The other loops end by a measure; searches that may run forever are partial functions
  whose value \<open>None\<close> is excluded by theorems.

  \<^bold>\<open>Parameters.\<close> Code outside the repository is an argument with its documented behaviour as a named
  hypothesis: gzip (\<open>gzip_law\<close>), HKDF, AES-GCM, HMAC, SHA-256, JSON, random bytes. Go's iteration orders over
  maps, the send metrics, the scores of connections and the time are arguments too.

  \<^bold>\<open>Not modelled.\<close> Floating point numbers (path weights, rates); log output; deadlines and closing of
  connections; lack of permission or space and other processes in the file system; letters beyond
  ASCII in case mapping; Windows paths. The walk over a source directory rests on the package
  go-gitignore. Of the servers the HTTP routing, the WebSocket loops, the checks by url.Parse and the
  TURN server of the package pion/turn are left out, of the relay the dialling and racing of addresses
  and the copying of bytes, of the notes the stores of drafts and recent pads. Network probing, WebRTC
  and the user interfaces are listed with the reasons in the manifest of the development.
\<close>

end
